(* ===== verification/Prelude.thy ===== *)
theory Prelude
  imports Main "HOL-Library.AList" "HOL-Library.Sublist"
begin

text \<open>
  Shared vocabulary of the development: byte strings, insertion-ordered Python
  dictionaries, result values with errors, and the generic list lemmas the
  component theories use.

  A Python \<open>bytes\<close> value is a \<open>string\<close> (a list of \<open>char\<close>, one byte each).  A Python
  \<open>str\<close> is the \<open>string\<close> of its UTF-8 encoding, so that equality, concatenation,
  emptiness and prefix tests mean the same on both sides.  Case mapping and white
  space are modelled on the ASCII range, where every identifier, header name and
  protocol word of the program lives.
\<close>

section \<open>Collections of rewrite rules\<close>

named_theorems res_simps \<open>equations for result values\<close>
named_theorems dict_simps \<open>equations for insertion-ordered dictionaries\<close>

section \<open>Bytes and text\<close>

type_synonym bytes = string

abbreviation LF :: char where "LF \<equiv> CHR 0x0A"
abbreviation CR :: char where "CR \<equiv> CHR 0x0D"
abbreviation SPACE :: char where "SPACE \<equiv> CHR 0x20"

definition py_isspace :: "char \<Rightarrow> bool" where
  "py_isspace c \<longleftrightarrow> c \<in> {CHR 0x09, CHR 0x0A, CHR 0x0B, CHR 0x0C, CHR 0x0D,
     CHR 0x1C, CHR 0x1D, CHR 0x1E, CHR 0x1F, CHR 0x20}"

definition ascii_space :: "char \<Rightarrow> bool" where
  "ascii_space c \<longleftrightarrow> c \<in> {CHR 0x09, CHR 0x0A, CHR 0x0B, CHR 0x0C, CHR 0x0D, CHR 0x20}"

definition lstrip_by :: "(char \<Rightarrow> bool) \<Rightarrow> string \<Rightarrow> string" where
  "lstrip_by p s = dropWhile p s"

definition strip_by :: "(char \<Rightarrow> bool) \<Rightarrow> string \<Rightarrow> string" where
  "strip_by p s = rev (dropWhile p (rev (dropWhile p s)))"

definition py_strip :: "string \<Rightarrow> string" where
  "py_strip s = strip_by py_isspace s"

definition upper_char :: "char \<Rightarrow> char" where
  "upper_char c = (let n = (of_char c :: nat) in
     if 97 \<le> n \<and> n \<le> 122 then char_of (n - 32) else c)"

definition lower_char :: "char \<Rightarrow> char" where
  "lower_char c = (let n = (of_char c :: nat) in
     if 65 \<le> n \<and> n \<le> 90 then char_of (n + 32) else c)"

definition py_lower :: "string \<Rightarrow> string" where "py_lower s = map lower_char s"
definition py_upper :: "string \<Rightarrow> string" where "py_upper s = map upper_char s"

definition ascii_alpha :: "char \<Rightarrow> bool" where
  "ascii_alpha c \<longleftrightarrow> (let n = (of_char c :: nat) in
     (65 \<le> n \<and> n \<le> 90) \<or> (97 \<le> n \<and> n \<le> 122))"

definition ascii_digit :: "char \<Rightarrow> bool" where
  "ascii_digit c \<longleftrightarrow> (let n = (of_char c :: nat) in 48 \<le> n \<and> n \<le> 57)"

text \<open>\<open>needle in haystack\<close>, \<open>s.split(sep)\<close> for a one-character separator.\<close>

fun contains :: "string \<Rightarrow> string \<Rightarrow> bool" where
  "contains needle [] = (needle = [])"
| "contains needle (c # cs) = (prefix needle (c # cs) \<or> contains needle cs)"

fun split_on :: "char \<Rightarrow> string \<Rightarrow> string list" where
  "split_on sep [] = [[]]"
| "split_on sep (c # cs) =
     (if c = sep then [] # split_on sep cs
      else (case split_on sep cs of
              [] \<Rightarrow> [[c]]
            | w # ws \<Rightarrow> (c # w) # ws))"

lemma split_on_nonempty [simp]: "split_on sep s \<noteq> []"
  by (induction s) (auto split: list.splits)

lemma strip_by_empty_iff: "strip_by p s = [] \<longleftrightarrow> (\<forall>c \<in> set s. p c)"
proof -
  have "dropWhile p (rev (dropWhile p s)) = [] \<longleftrightarrow> (\<forall>c \<in> set (dropWhile p s). p c)"
    by (simp add: dropWhile_eq_Nil_conv)
  also have "\<dots> \<longleftrightarrow> (\<forall>c \<in> set s. p c)"
    by (induction s) auto
  finally show ?thesis by (simp add: strip_by_def)
qed

section \<open>Results: a value or an error\<close>

text \<open>
  A computation that may raise returns \<open>'e + 'a\<close>: \<open>Inl\<close> the error, \<open>Inr\<close> the value.
\<close>

fun rbind :: "'e + 'a \<Rightarrow> ('a \<Rightarrow> 'e + 'b) \<Rightarrow> 'e + 'b" where
  "rbind (Inl e) f = Inl e"
| "rbind (Inr a) f = f a"

definition require :: "bool \<Rightarrow> 'e \<Rightarrow> 'e + unit" where
  "require b e = (if b then Inr () else Inl e)"

lemma rbind_Inr_iff [res_simps]: "rbind m f = Inr b \<longleftrightarrow> (\<exists>a. m = Inr a \<and> f a = Inr b)"
  by (cases m) auto

lemma rbind_Inl_iff [res_simps]:
  "rbind m f = Inl e \<longleftrightarrow> m = Inl e \<or> (\<exists>a. m = Inr a \<and> f a = Inl e)"
  by (cases m) auto

lemma require_Inr_iff [res_simps]: "require b e = Inr u \<longleftrightarrow> b"
  by (simp add: require_def)

lemma require_Inl_iff [res_simps]: "require b e = Inl e' \<longleftrightarrow> \<not> b \<and> e' = e"
  by (auto simp: require_def)

lemma rbind_cong [fundef_cong]:
  "m = m' \<Longrightarrow> (\<And>a. m' = Inr a \<Longrightarrow> f a = f' a) \<Longrightarrow> rbind m f = rbind m' f'"
  by (cases m') auto

section \<open>Insertion-ordered dictionaries\<close>

text \<open>
  A Python dictionary is an association list in insertion order.  Assignment to a key
  that is present keeps its place (\<open>AList.update\<close>); a new key goes to the end.
\<close>

type_synonym ('k, 'v) dict = "('k \<times> 'v) list"

abbreviation dict_get :: "('k, 'v) dict \<Rightarrow> 'k \<Rightarrow> 'v option" where
  "dict_get d k \<equiv> map_of d k"

definition dict_set :: "('k, 'v) dict \<Rightarrow> 'k \<Rightarrow> 'v \<Rightarrow> ('k, 'v) dict" where
  "dict_set d k v = AList.update k v d"

definition dict_pop :: "('k, 'v) dict \<Rightarrow> 'k \<Rightarrow> ('k, 'v) dict" where
  "dict_pop d k = AList.delete k d"

definition dict_keys :: "('k, 'v) dict \<Rightarrow> 'k set" where
  "dict_keys d = set (map fst d)"

definition dict_has :: "('k, 'v) dict \<Rightarrow> 'k \<Rightarrow> bool" where
  "dict_has d k \<longleftrightarrow> map_of d k \<noteq> None"

lemma dict_get_set [dict_simps]:
  "dict_get (dict_set d k v) k' = (if k' = k then Some v else dict_get d k')"
  by (simp add: dict_set_def update_conv')

lemma dict_get_pop [dict_simps]:
  "dict_get (dict_pop d k) k' = (if k' = k then None else dict_get d k')"
  by (simp add: dict_pop_def delete_conv')

lemma dict_keys_set [dict_simps]: "dict_keys (dict_set d k v) = insert k (dict_keys d)"
  by (simp add: dict_keys_def dict_set_def dom_update)

lemma dict_keys_pop [dict_simps]: "dict_keys (dict_pop d k) = dict_keys d - {k}"
  by (auto simp: dict_keys_def dict_pop_def AList.delete_eq)

lemma dict_get_Some_iff_keys: "dict_get d k \<noteq> None \<longleftrightarrow> k \<in> dict_keys d"
  by (simp add: dict_keys_def map_of_eq_None_iff)

lemma distinct_dict_set: "distinct (map fst d) \<Longrightarrow> distinct (map fst (dict_set d k v))"
  by (simp add: dict_set_def distinct_update)

lemma distinct_dict_pop: "distinct (map fst d) \<Longrightarrow> distinct (map fst (dict_pop d k))"
  by (simp add: dict_pop_def AList.distinct_delete)

lemma length_dict_set:
  "length (dict_set d k v) = (if dict_get d k = None then Suc (length d) else length d)"
  by (induction d) (auto simp: dict_set_def)

lemma dict_set_same: "dict_get d k = Some v \<Longrightarrow> dict_set d k v = d"
  by (induction d) (auto simp: dict_set_def)

lemma sum_dict_set:
  fixes v :: nat
  shows "distinct (map fst d) \<Longrightarrow>
    sum_list (map snd (dict_set d k v)) + (case dict_get d k of None \<Rightarrow> 0 | Some n \<Rightarrow> n)
      = sum_list (map snd d) + v"
  by (induction d) (auto simp: dict_set_def split: option.splits)

lemma snd_dict_set:
  "(\<forall>x \<in> set d. P (snd x)) \<Longrightarrow> P v \<Longrightarrow> \<forall>x \<in> set (dict_set d k v). P (snd x)"
  by (induction d) (auto simp: dict_set_def)

section \<open>Lists\<close>

lemma prefix_drop: "prefix p s \<Longrightarrow> s = p @ drop (length p) s"
  by (auto simp: prefix_def)

end
