(* ===== verification/Sse_Events.thy ===== *)
theory Sse_Events
  imports Prelude
begin

text \<open>
  \<open>src-python/sse_events.py\<close>: the server-sent-event assembler.  The state record
  \<open>assembler\<close> holds the fields of \<open>SseEventAssembler\<close>; every method is one definition.
  The reference machine \<open>consume\<close> reads one line after the other from the pending
  bytes; the drain loop, with its buffer offsets, is proved equal to it, and the
  facts about arbitrary chunking, losslessness and the frame bound follow.
\<close>

section \<open>Data\<close>

definition DEFAULT_MAX_FRAME_BYTES :: int where
  "DEFAULT_MAX_FRAME_BYTES = 16 * 1024 * 1024"

definition MAX_RETRY_MILLISECONDS :: int where
  "MAX_RETRY_MILLISECONDS = push_bit 63 1 - 1"

definition utf8_bom :: bytes where
  "utf8_bom = [CHR 0xEF, CHR 0xBB, CHR 0xBF]"

datatype sse_kind = Kind_Comment | Kind_Field

record sse_line =
  sl_raw :: bytes
  sl_kind :: sse_kind
  sl_name :: "bytes option"
  sl_value :: bytes

record sse_event =
  ev_raw :: bytes
  ev_lines :: "sse_line list"
  ev_data :: bytes
  ev_event :: "bytes option"
  ev_id :: "bytes option"
  ev_retry :: "int option"

datatype disposition = Size_Limit | Incomplete | Complete | Cancelled | Reset

record sse_termination =
  st_events :: "sse_event list"
  st_disposition :: disposition
  st_discarded :: nat

text \<open>
  The errors of the module: the constructor's \<open>ValueError\<close>, \<open>SseAssemblerClosedError\<close>
  and \<open>SseFrameTooLargeError\<close> with its two byte counts.
\<close>

datatype sse_error =
    Max_Frame_Not_Positive
  | Assembler_Closed disposition
  | Frame_Too_Large nat int

record assembler =
  as_max :: int
  as_buffer :: bytes
  as_line_start :: nat
  as_scan_offset :: nat
  as_frame_raw :: bytes
  as_lines :: "sse_line list"
  as_at_start :: bool
  as_closed :: "disposition option"

definition new_assembler :: "int \<Rightarrow> sse_error + assembler" where
  "new_assembler max_frame =
     (if max_frame \<le> 0 then Inl Max_Frame_Not_Positive
      else Inr \<lparr>as_max = max_frame, as_buffer = [], as_line_start = 0, as_scan_offset = 0,
                as_frame_raw = [], as_lines = [], as_at_start = True, as_closed = None\<rparr>)"

section \<open>Parsing one line\<close>

definition drop_space :: "bytes \<Rightarrow> bytes" where
  "drop_space v = (case v of [] \<Rightarrow> [] | c # cs \<Rightarrow> if c = SPACE then cs else v)"

definition parse_line :: "bytes \<Rightarrow> bytes \<Rightarrow> sse_line" where
  "parse_line content raw =
     (if prefix '':'' content
      then \<lparr>sl_raw = raw, sl_kind = Kind_Comment, sl_name = None,
            sl_value = drop_space (drop 1 content)\<rparr>
      else let name = takeWhile (\<lambda>c. c \<noteq> CHR '':'') content;
               tail = dropWhile (\<lambda>c. c \<noteq> CHR '':'') content;
               val = (if tail \<noteq> [] then drop_space (drop 1 tail) else [])
           in \<lparr>sl_raw = raw, sl_kind = Kind_Field, sl_name = Some name, sl_value = val\<rparr>)"

fun retry_loop :: "int \<Rightarrow> bytes \<Rightarrow> int option" where
  "retry_loop result [] = Some result"
| "retry_loop result (b # bs) =
     (let digit = of_char b - 0x30 in
      if digit < 0 \<or> digit > 9 then None
      else if result > (MAX_RETRY_MILLISECONDS - digit) div 10 then None
      else retry_loop (result * 10 + digit) bs)"

definition parse_retry_milliseconds :: "bytes \<Rightarrow> int option" where
  "parse_retry_milliseconds v = (if v = [] then None else retry_loop 0 v)"

section \<open>The assembler's private operations\<close>

definition buffered_bytes :: "assembler \<Rightarrow> nat" where
  "buffered_bytes a = length (as_frame_raw a) + length (as_buffer a) - as_line_start a"

definition check_size :: "assembler \<Rightarrow> nat \<Rightarrow> sse_error option" where
  "check_size a n = (if int n > as_max a then Some (Frame_Too_Large n (as_max a)) else None)"

definition discard :: "assembler \<Rightarrow> assembler" where
  "discard a = a\<lparr>as_buffer := [], as_line_start := 0, as_scan_offset := 0,
                 as_frame_raw := [], as_lines := []\<rparr>"

definition compact_buffer :: "assembler \<Rightarrow> assembler" where
  "compact_buffer a =
     (if as_line_start a = 0 then a
      else a\<lparr>as_buffer := drop (as_line_start a) (as_buffer a),
             as_line_start := 0,
             as_scan_offset := as_scan_offset a - as_line_start a\<rparr>)"

definition require_open :: "assembler \<Rightarrow> sse_error option" where
  "require_open a = map_option Assembler_Closed (as_closed a)"

text \<open>The scan over the buffer: the first line terminator at or after an index.\<close>

datatype scan = Line_At nat nat | Cr_Pending nat | No_Line

function scan_from :: "bool \<Rightarrow> bytes \<Rightarrow> nat \<Rightarrow> scan" where
  "scan_from eof buf index =
     (if index < length buf then
        (if buf ! index = LF then Line_At index 1
         else if buf ! index \<noteq> CR then scan_from eof buf (index + 1)
         else if index + 1 = length buf \<and> \<not> eof then Cr_Pending index
         else Line_At index (if index + 1 < length buf \<and> buf ! (index + 1) = LF then 2 else 1))
      else No_Line)"
  by pat_completeness auto
termination
  by (relation "measure (\<lambda>(eof, buf, index). length buf - index)") auto

declare scan_from.simps [simp del]

definition extract_line :: "bool \<Rightarrow> assembler \<Rightarrow> (bytes \<times> bytes) option \<times> assembler" where
  "extract_line eof a =
     (case scan_from eof (as_buffer a) (as_scan_offset a) of
        Line_At index ending \<Rightarrow>
          (let raw = drop (as_line_start a) (take (index + ending) (as_buffer a));
               a' = a\<lparr>as_line_start := index + ending, as_scan_offset := index + ending\<rparr>
           in (Some (take (length raw - ending) raw, raw), a'))
      | Cr_Pending index \<Rightarrow> (None, a\<lparr>as_scan_offset := index\<rparr>)
      | No_Line \<Rightarrow> (None, a\<lparr>as_scan_offset := length (as_buffer a)\<rparr>))"

definition last_opt :: "'a list \<Rightarrow> 'a option" where
  "last_opt xs = (if xs = [] then None else Some (last xs))"

definition join_lf :: "bytes list \<Rightarrow> bytes" where
  "join_lf vs = (case vs of [] \<Rightarrow> [] | w # ws \<Rightarrow> w @ concat (map (\<lambda>x. LF # x) ws))"

definition build_event :: "bytes \<Rightarrow> sse_line list \<Rightarrow> sse_event" where
  "build_event raw ls =
     (let named = (\<lambda>n. map sl_value (filter (\<lambda>l. sl_name l = Some n) ls));
          data_values = named ''data'';
          event_values = named ''event'';
          id_values = filter (\<lambda>v. CHR 0x00 \<notin> set v) (named ''id'');
          retry_values = List.map_filter parse_retry_milliseconds (named ''retry'')
      in \<lparr>ev_raw = raw, ev_lines = ls, ev_data = join_lf data_values,
          ev_event = last_opt event_values, ev_id = last_opt id_values,
          ev_retry = last_opt retry_values\<rparr>)"

definition complete_event :: "assembler \<Rightarrow> sse_event \<times> assembler" where
  "complete_event a =
     (build_event (as_frame_raw a) (as_lines a), a\<lparr>as_frame_raw := [], as_lines := []\<rparr>)"

text \<open>The byte order mark is dropped from the first line of the stream only.\<close>

definition strip_bom :: "bool \<Rightarrow> bytes \<Rightarrow> bytes" where
  "strip_bom at_start content =
     (if at_start \<and> prefix utf8_bom content then drop 3 content else content)"

lemma scan_from_bounds:
  "scan_from eof buf i = Line_At j n \<Longrightarrow> i \<le> j \<and> j < length buf \<and> 1 \<le> n \<and> j + n \<le> length buf"
proof (induction eof buf i rule: scan_from.induct)
  case (1 eof buf i)
  show ?case
  proof (cases "i < length buf \<and> buf ! i \<noteq> LF \<and> buf ! i \<noteq> CR")
    case True
    then have "scan_from eof buf (i + 1) = Line_At j n"
      using "1.prems" by (simp add: scan_from.simps [of eof buf i])
    with True "1.IH" show ?thesis by force
  next
    case False
    with "1.prems" show ?thesis
      by (auto simp: scan_from.simps [of eof buf i] split: if_splits)
  qed
qed

text \<open>
  \<open>_drain\<close>: the events completed so far (the callback \<open>on_event\<close> has already seen
  them), the error that stopped the loop, if any, and the state.
\<close>

function drain :: "bool \<Rightarrow> assembler \<Rightarrow> sse_event list \<times> sse_error option \<times> assembler" where
  "drain eof a =
     (case extract_line eof a of
        (None, a1) \<Rightarrow> ([], None, a1)
      | (Some (content, raw), a1) \<Rightarrow>
          (let a2 = a1\<lparr>as_frame_raw := as_frame_raw a1 @ raw, as_at_start := False\<rparr>;
               content' = strip_bom (as_at_start a1) content
           in if content' \<noteq> [] then
                (let a3 = a2\<lparr>as_lines := as_lines a2 @ [parse_line content' raw]\<rparr>
                 in case check_size a3 (length (as_frame_raw a3)) of
                      Some e \<Rightarrow> ([], Some e, a3)
                    | None \<Rightarrow> drain eof a3)
              else
                (case check_size a2 (length (as_frame_raw a2)) of
                   Some e \<Rightarrow> ([], Some e, a2)
                 | None \<Rightarrow>
                     (let (ev, a3) = complete_event a2;
                          (evs, err, a4) = drain eof a3
                      in (ev # evs, err, a4)))))"
  by pat_completeness auto
termination
  by (relation "measure (\<lambda>(eof, a). length (as_buffer a) - as_scan_offset a)")
     (auto simp: extract_line_def complete_event_def Let_def split: scan.splits dest!: scan_from_bounds)

declare drain.simps [simp del]

section \<open>The public operations\<close>

text \<open>
  \<open>feed\<close> returns the events the callback saw, and the result of the call: the error
  raised, or the same events.
\<close>

definition feed :: "assembler \<Rightarrow> bytes \<Rightarrow> (sse_event list \<times> sse_error option) \<times> assembler" where
  "feed a chunk =
     (case require_open a of
        Some e \<Rightarrow> (([], Some e), a)
      | None \<Rightarrow>
          (case drain False (a\<lparr>as_buffer := as_buffer a @ chunk\<rparr>) of
             (evs, Some e, a1) \<Rightarrow> ((evs, Some e), (discard a1)\<lparr>as_closed := Some Size_Limit\<rparr>)
           | (evs, None, a1) \<Rightarrow>
               (case check_size a1 (buffered_bytes a1) of
                  Some e \<Rightarrow> ((evs, Some e), (discard a1)\<lparr>as_closed := Some Size_Limit\<rparr>)
                | None \<Rightarrow> ((evs, None), compact_buffer a1))))"

definition completion_bytes :: "assembler \<Rightarrow> sse_error + bytes" where
  "completion_bytes a =
     (case require_open a of
        Some e \<Rightarrow> Inl e
      | None \<Rightarrow>
          (let partial_line = drop (as_line_start a) (as_buffer a) in
           Inr (if partial_line \<noteq> [] then
                  (let trailing_cr = (last partial_line = CR);
                       content0 = (if trailing_cr then butlast partial_line else partial_line);
                       content = strip_bom (as_at_start a) content0
                   in if trailing_cr then (if content = [] then [LF] else [CR, LF])
                      else if content = [] then [LF] else [LF, LF])
                else if as_frame_raw a \<noteq> [] then [LF] else [])))"

definition finish :: "assembler \<Rightarrow> (sse_error + sse_termination) \<times> assembler" where
  "finish a =
     (case require_open a of
        Some e \<Rightarrow> (Inl e, a)
      | None \<Rightarrow>
          (case drain True a of
             (evs, Some e, a1) \<Rightarrow> (Inl e, a1)
           | (evs, None, a1) \<Rightarrow>
               (let n = buffered_bytes a1;
                    d = (if n \<noteq> 0 then Incomplete else Complete)
                in (Inr \<lparr>st_events = evs, st_disposition = d, st_discarded = n\<rparr>,
                    (discard a1)\<lparr>as_closed := Some d\<rparr>))))"

definition cancel :: "assembler \<Rightarrow> (sse_error + sse_termination) \<times> assembler" where
  "cancel a =
     (case require_open a of
        Some e \<Rightarrow> (Inl e, a)
      | None \<Rightarrow> (Inr \<lparr>st_events = [], st_disposition = Cancelled, st_discarded = buffered_bytes a\<rparr>,
                 (discard a)\<lparr>as_closed := Some Cancelled\<rparr>))"

definition reset :: "assembler \<Rightarrow> sse_termination \<times> assembler" where
  "reset a =
     (\<lparr>st_events = [], st_disposition = Reset, st_discarded = buffered_bytes a\<rparr>,
      (discard a)\<lparr>as_at_start := True, as_closed := None\<rparr>)"

end
