(* ===== verification/Chunked_Feed.thy ===== *)
theory Chunked_Feed
  imports Prelude
begin

text \<open>
  The interface of an incremental decoder: bytes arrive in chunks, each call reports the
  items completed so far and possibly an error.  A client that relies on it must not
  depend on where the chunk boundaries fall; \<open>feed_chunks_concat\<close> proves that from four
  laws of a single call.
\<close>

fun feed_chunks ::
  "('s \<Rightarrow> 'b list \<Rightarrow> ('e list \<times> 'x option) \<times> 's) \<Rightarrow> 's \<Rightarrow> 'b list list \<Rightarrow>
     ('e list \<times> 'x option) \<times> 's" where
  "feed_chunks fd s [] = (([], None), s)"
| "feed_chunks fd s (c # cs) =
     (case fd s c of
        ((evs, Some e), s1) \<Rightarrow> ((evs, Some e), s1)
      | ((evs, None), s1) \<Rightarrow>
          (let ((evs', r), s2) = feed_chunks fd s1 cs in ((evs @ evs', r), s2)))"

locale chunked_feed =
  fixes fd :: "'s \<Rightarrow> 'b list \<Rightarrow> ('e list \<times> 'x option) \<times> 's"
    and obs :: "'s \<Rightarrow> 'o"
    and inv :: "'s \<Rightarrow> bool"
  assumes inv_feed: "inv s \<Longrightarrow> fd s x = ((evs, None), s1) \<Longrightarrow> inv s1"
    and feed_nil: "inv s \<Longrightarrow> \<exists>s1. fd s [] = (([], None), s1) \<and> obs s1 = obs s"
    and feed_append_ok:
      "inv s \<Longrightarrow> fd s x = ((e1, None), s1) \<Longrightarrow> fd s1 y = ((e2, r2), s2) \<Longrightarrow>
         \<exists>r s3. fd s (x @ y) = ((e1 @ e2, r), s3) \<and> (r = None \<longleftrightarrow> r2 = None)
              \<and> (r2 = None \<longrightarrow> obs s3 = obs s2)"
    and feed_append_err:
      "inv s \<Longrightarrow> fd s x = ((e1, Some e), s1) \<Longrightarrow>
         \<exists>e' s3. fd s (x @ y) = ((e1, Some e'), s3)"
begin

lemma feed_chunks_inv:
  "inv s \<Longrightarrow> feed_chunks fd s cs = ((evs, None), s1) \<Longrightarrow> inv s1"
  by (induction cs arbitrary: s evs)
     (auto split: prod.splits option.splits dest: inv_feed)

lemma feed_chunks_concat:
  assumes "inv s" and "feed_chunks fd s cs = ((evs, r), s1)"
  shows "\<exists>r' s2. fd s (concat cs) = ((evs, r'), s2) \<and> (r' = None \<longleftrightarrow> r = None)
           \<and> (r = None \<longrightarrow> obs s2 = obs s1)"
  using assms
proof (induction cs arbitrary: s evs)
  case Nil
  then show ?case using feed_nil [of s] by auto
next
  case (Cons c cs)
  obtain e1 r1 t where c: "fd s c = ((e1, r1), t)" by (metis prod.exhaust)
  show ?case
  proof (cases r1)
    case (Some e)
    with Cons.prems c feed_append_err [of s c e1 e t "concat cs"] show ?thesis by auto
  next
    case None
    then obtain e2 where rest: "feed_chunks fd t cs = ((e2, r), s1)" and evs: "evs = e1 @ e2"
      using Cons.prems c by (auto split: prod.splits)
    have "inv t" using Cons.prems(1) c None inv_feed by blast
    from Cons.IH [OF this rest] obtain r' u where
      u: "fd t (concat cs) = ((e2, r'), u)" "r' = None \<longleftrightarrow> r = None" "r = None \<longrightarrow> obs u = obs s1"
      by blast
    from feed_append_ok [OF Cons.prems(1) c [unfolded None] u(1)] u evs show ?thesis by auto
  qed
qed

end

end
