(* ===== verification/Sse_Refinement.thy ===== *)
theory Sse_Refinement
  imports Sse_Events Chunked_Feed
begin

text \<open>
  The SSE assembler against its reference machine.  \<open>next_line\<close> cuts one line off a
  byte string; \<open>consume\<close> folds the lines into frames.  \<open>drain_consume\<close> is the
  functional refinement of the drain loop, with its offsets into one growing buffer,
  by \<open>consume\<close>.
\<close>

section \<open>The reference machine\<close>

definition no_term :: "bytes \<Rightarrow> bool" where
  "no_term s \<longleftrightarrow> LF \<notin> set s \<and> CR \<notin> set s"

lemma no_term_simps [simp]:
  "no_term []"
  "no_term (c # s) \<longleftrightarrow> c \<noteq> LF \<and> c \<noteq> CR \<and> no_term s"
  "no_term (s @ t) \<longleftrightarrow> no_term s \<and> no_term t"
  by (auto simp: no_term_def)

fun next_line :: "bool \<Rightarrow> bytes \<Rightarrow> ((bytes \<times> bytes) \<times> bytes) option" where
  "next_line eof [] = None"
| "next_line eof (c # cs) =
     (if c = LF then Some (([], [LF]), cs)
      else if c = CR then
        (case cs of
           [] \<Rightarrow> if eof then Some (([], [CR]), []) else None
         | d # ds \<Rightarrow> if d = LF then Some (([], [CR, LF]), ds) else Some (([], [CR]), cs))
      else map_option (\<lambda>((content, raw), rest). ((c # content, c # raw), rest)) (next_line eof cs))"

record frame =
  fr_raw :: bytes
  fr_lines :: "sse_line list"
  fr_at_start :: bool

lemma next_line_split:
  "next_line eof s = Some ((content, raw), rest) \<Longrightarrow>
     s = raw @ rest \<and> raw \<noteq> [] \<and> no_term content \<and> prefix content raw"
proof (induction s arbitrary: content raw)
  case Nil
  then show ?case by simp
next
  case (Cons c cs)
  show ?case
  proof (cases "c = LF \<or> c = CR")
    case True
    with Cons.prems show ?thesis by (auto split: if_splits list.splits)
  next
    case False
    with Cons.prems obtain content' raw' where
      "next_line eof cs = Some ((content', raw'), rest)" "content = c # content'" "raw = c # raw'"
      by auto
    with Cons.IH [of content' raw'] False show ?thesis by simp
  qed
qed

lemma next_line_shorter:
  "next_line eof s = Some ((content, raw), rest) \<Longrightarrow> length rest < length s"
  by (drule next_line_split) auto

function consume ::
  "bool \<Rightarrow> int \<Rightarrow> frame \<Rightarrow> bytes \<Rightarrow> sse_event list \<times> sse_error option \<times> frame \<times> bytes" where
  "consume eof m f buf =
     (case next_line eof buf of
        None \<Rightarrow> ([], None, f, buf)
      | Some ((content, raw), rest) \<Rightarrow>
          (let raw' = fr_raw f @ raw;
               content' = strip_bom (fr_at_start f) content;
               f1 = \<lparr>fr_raw = raw',
                     fr_lines = (if content' \<noteq> [] then fr_lines f @ [parse_line content' raw]
                                 else fr_lines f),
                     fr_at_start = False\<rparr>
           in if int (length raw') > m then ([], Some (Frame_Too_Large (length raw') m), f1, rest)
              else if content' \<noteq> [] then consume eof m f1 rest
              else (let (evs, err, out) =
                          consume eof m \<lparr>fr_raw = [], fr_lines = [], fr_at_start = False\<rparr> rest
                    in (build_event raw' (fr_lines f) # evs, err, out))))"
  by pat_completeness auto
termination
  by (relation "measure (\<lambda>(eof, m, f, buf). length buf)") (auto dest: next_line_shorter)

declare consume.simps [simp del]

section \<open>The buffer scan finds the next line\<close>

lemma next_line_skip:
  "no_term xs \<Longrightarrow> next_line eof (xs @ ys) =
     map_option (\<lambda>((content, raw), rest). ((xs @ content, xs @ raw), rest)) (next_line eof ys)"
  by (induction xs) (auto simp: option.map_comp o_def split_def option.map_ident)

lemma scan_from_next_line:
  "i \<le> length buf \<Longrightarrow>
     (case next_line eof (drop i buf) of
        None \<Rightarrow> (\<exists>j. scan_from eof buf i = Cr_Pending j \<and> i \<le> j \<and> j \<le> length buf
                    \<and> no_term (take (j - i) (drop i buf)))
                \<or> (scan_from eof buf i = No_Line \<and> no_term (drop i buf))
      | Some ((content, raw), rest) \<Rightarrow>
          scan_from eof buf i = Line_At (i + length content) (length raw - length content))"
proof (induction eof buf i rule: scan_from.induct)
  case (1 eof buf i)
  show ?case
  proof (cases "i < length buf")
    case False
    then have "scan_from eof buf i = No_Line" by (simp add: scan_from.simps [of _ buf i])
    with False "1.prems" show ?thesis by simp
  next
    case True
    then have drop_i: "drop i buf = buf ! i # drop (Suc i) buf"
      by (simp add: Cons_nth_drop_Suc)
    consider (lf) "buf ! i = LF" | (cr) "buf ! i = CR"
      | (other) "buf ! i \<noteq> LF" "buf ! i \<noteq> CR" by blast
    then show ?thesis
    proof cases
      case lf
      with True show ?thesis by (simp add: drop_i scan_from.simps [of _ buf i])
    next
      case cr
      show ?thesis
      proof (cases "drop (Suc i) buf")
        case Nil
        then have "Suc i = length buf" using True by simp
        with cr True Nil show ?thesis
          by (cases eof) (auto simp: drop_i scan_from.simps [of _ buf i])
      next
        case (Cons d ds)
        then have "Suc i < length buf" and "d = buf ! Suc i"
          by (metis drop_all leI list.distinct(1)) (metis Cons hd_drop_conv_nth list.sel(1) drop_all leI list.distinct(1))
        with cr True Cons show ?thesis
          by (auto simp: drop_i scan_from.simps [of _ buf i])
      qed
    next
      case other
      have step: "scan_from eof buf i = scan_from eof buf (Suc i)"
        using other True by (simp add: scan_from.simps [of _ buf i])
      have IH: "case next_line eof (drop (Suc i) buf) of
          None \<Rightarrow> (\<exists>j. scan_from eof buf (Suc i) = Cr_Pending j \<and> Suc i \<le> j \<and> j \<le> length buf
                    \<and> no_term (take (j - Suc i) (drop (Suc i) buf)))
                \<or> (scan_from eof buf (Suc i) = No_Line \<and> no_term (drop (Suc i) buf))
        | Some ((content, raw), rest) \<Rightarrow>
            scan_from eof buf (Suc i) = Line_At (Suc i + length content) (length raw - length content)"
        using "1.IH" other True by (simp only: Suc_eq_plus1 if_True simp_thms)
      show ?thesis
      proof (cases "next_line eof (drop (Suc i) buf)")
        case None
        with IH consider (pend) j where "scan_from eof buf (Suc i) = Cr_Pending j" "Suc i \<le> j"
            "j \<le> length buf" "no_term (take (j - Suc i) (drop (Suc i) buf))"
          | (none) "scan_from eof buf (Suc i) = No_Line" "no_term (drop (Suc i) buf)"
          by auto
        then show ?thesis
        proof cases
          case pend
          then obtain k where k: "j - i = Suc k" "j - Suc i = k"
            by (metis Suc_diff_Suc Suc_le_lessD)
          with pend other None step show ?thesis by (simp add: drop_i k)
        next
          case none
          with other None step show ?thesis by (simp add: drop_i)
        qed
      next
        case (Some p)
        with IH other step show ?thesis by (auto simp: drop_i split: prod.splits)
      qed
    qed
  qed
qed

section \<open>Well-formed assemblers\<close>

definition pending :: "assembler \<Rightarrow> bytes" where
  "pending a = drop (as_line_start a) (as_buffer a)"

definition frame_of :: "assembler \<Rightarrow> frame" where
  "frame_of a = \<lparr>fr_raw = as_frame_raw a, fr_lines = as_lines a, fr_at_start = as_at_start a\<rparr>"

definition as_wf :: "assembler \<Rightarrow> bool" where
  "as_wf a \<longleftrightarrow> as_line_start a \<le> as_scan_offset a \<and> as_scan_offset a \<le> length (as_buffer a)
     \<and> no_term (drop (as_line_start a) (take (as_scan_offset a) (as_buffer a))) \<and> 0 < as_max a"

text \<open>
  Between two calls nothing complete is pending and the pending bytes respect the bound:
  the invariant of every reachable assembler.
\<close>

definition settled :: "assembler \<Rightarrow> bool" where
  "settled a \<longleftrightarrow> as_wf a \<and> next_line False (pending a) = None
     \<and> int (buffered_bytes a) \<le> as_max a"

lemma buffered_bytes_pending:
  "as_wf a \<Longrightarrow> buffered_bytes a = length (as_frame_raw a) + length (pending a)"
  by (auto simp: as_wf_def buffered_bytes_def pending_def)

lemma pending_split:
  assumes "as_wf a"
  shows "pending a = drop (as_line_start a) (take (as_scan_offset a) (as_buffer a))
           @ drop (as_scan_offset a) (as_buffer a)"
proof -
  have "pending a = drop (as_line_start a)
      (take (as_scan_offset a) (as_buffer a) @ drop (as_scan_offset a) (as_buffer a))"
    by (simp add: pending_def)
  also have "\<dots> = drop (as_line_start a) (take (as_scan_offset a) (as_buffer a))
      @ drop (as_scan_offset a) (as_buffer a)"
    using assms by (subst drop_append) (simp add: as_wf_def)
  finally show ?thesis .
qed

lemma extract_line_None:
  assumes wf: "as_wf a" and none: "next_line eof (pending a) = None"
  shows "\<exists>n. extract_line eof a = (None, a\<lparr>as_scan_offset := n\<rparr>) \<and> as_wf (a\<lparr>as_scan_offset := n\<rparr>)"
proof -
  let ?ls = "as_line_start a" and ?so = "as_scan_offset a" and ?buf = "as_buffer a"
  have so: "?ls \<le> ?so" "?so \<le> length ?buf" "0 < as_max a"
    and nt: "no_term (drop ?ls (take ?so ?buf))" using wf by (auto simp: as_wf_def)
  have none': "next_line eof (drop ?so ?buf) = None"
    using none nt by (simp add: pending_split [OF wf] next_line_skip)
  have upto: "drop ?ls (take j ?buf) = drop ?ls (take ?so ?buf) @ take (j - ?so) (drop ?so ?buf)"
    if "?so \<le> j" for j
  proof -
    have "take j ?buf = take ?so ?buf @ take (j - ?so) (drop ?so ?buf)"
      using that by (metis le_add_diff_inverse take_add)
    then show ?thesis using so by (simp add: drop_append)
  qed
  from scan_from_next_line [OF so(2), of eof] none' consider
      (cr) j where "scan_from eof ?buf ?so = Cr_Pending j" "?so \<le> j" "j \<le> length ?buf"
        "no_term (take (j - ?so) (drop ?so ?buf))"
    | (no) "scan_from eof ?buf ?so = No_Line" "no_term (drop ?so ?buf)"
    by auto
  then show ?thesis
  proof cases
    case cr
    with so nt upto [OF cr(2)] show ?thesis
      by (intro exI [of _ j]) (auto simp: extract_line_def as_wf_def)
  next
    case no
    with so nt upto [OF so(2)] show ?thesis
      by (intro exI [of _ "length ?buf"]) (auto simp: extract_line_def as_wf_def)
  qed
qed

lemma extract_line_Some:
  assumes wf: "as_wf a" and some: "next_line eof (pending a) = Some ((content, raw), rest)"
  shows "\<exists>n. extract_line eof a =
            (Some (content, raw), a\<lparr>as_line_start := n, as_scan_offset := n\<rparr>)
         \<and> as_wf (a\<lparr>as_line_start := n, as_scan_offset := n\<rparr>)
         \<and> drop n (as_buffer a) = rest"
proof -
  let ?ls = "as_line_start a" and ?so = "as_scan_offset a" and ?buf = "as_buffer a"
  let ?u = "drop ?ls (take ?so ?buf)"
  have so: "?ls \<le> ?so" "?so \<le> length ?buf" "0 < as_max a" and nt: "no_term ?u"
    using wf by (auto simp: as_wf_def)
  obtain c r where nxt: "next_line eof (drop ?so ?buf) = Some ((c, r), rest)"
    and c: "content = ?u @ c" and r: "raw = ?u @ r"
    using some nt by (auto simp: pending_split [OF wf] next_line_skip)
  note split = next_line_split [OF nxt]
  then have tail: "drop ?so ?buf = r @ rest" and pre: "prefix c r" by auto
  have len: "length c \<le> length r" using pre by (rule prefix_length_le)
  have scan: "scan_from eof ?buf ?so = Line_At (?so + length c) (length r - length c)"
    using scan_from_next_line [OF so(2), of eof] nxt by simp
  let ?n = "?so + length r"
  have n: "?so + length c + (length r - length c) = ?n" using len by simp
  have bound: "?n \<le> length ?buf"
    using arg_cong [OF tail, of length] so by simp
  have "take ?n ?buf = take ?so ?buf @ r"
    using tail by (simp add: take_add)
  then have raw: "drop ?ls (take ?n ?buf) = raw" using so by (simp add: r drop_append)
  have "take (length raw - (length r - length c)) raw = content"
    using len pre by (auto simp: r c prefix_def)
  moreover have "drop ?n ?buf = rest"
    using tail by (metis add.commute append_eq_conv_conj drop_drop)
  moreover have "length raw = ?so + length r - ?ls" using so by (simp add: r)
  ultimately show ?thesis
    using bound so
    by (intro exI [of _ ?n]) (auto simp: extract_line_def scan n raw Let_def as_wf_def)
qed

section \<open>The drain loop refines the reference machine\<close>

lemma as_wf_frame_update [simp]:
  "as_wf (a\<lparr>as_frame_raw := x\<rparr>) = as_wf a" "as_wf (a\<lparr>as_lines := y\<rparr>) = as_wf a"
  "as_wf (a\<lparr>as_at_start := z\<rparr>) = as_wf a" "as_wf (a\<lparr>as_closed := w\<rparr>) = as_wf a"
  by (simp_all add: as_wf_def)

lemma pending_frame_update [simp]:
  "pending (a\<lparr>as_frame_raw := x\<rparr>) = pending a" "pending (a\<lparr>as_lines := y\<rparr>) = pending a"
  "pending (a\<lparr>as_at_start := z\<rparr>) = pending a" "pending (a\<lparr>as_closed := w\<rparr>) = pending a"
  "pending (a\<lparr>as_scan_offset := n\<rparr>) = pending a"
  by (simp_all add: pending_def)

theorem drain_consume:
  assumes "as_wf a" and "consume eof (as_max a) (frame_of a) (pending a) = (evs, err, f, r)"
  shows "\<exists>a'. drain eof a = (evs, err, a') \<and> frame_of a' = f \<and> pending a' = r
          \<and> as_wf a' \<and> as_max a' = as_max a \<and> as_closed a' = as_closed a"
  using assms
proof (induction "length (pending a)" arbitrary: a evs rule: less_induct)
  case less
  note wf = less.prems(1)
  show ?case
  proof (cases "next_line eof (pending a)")
    case None
    from extract_line_None [OF wf None] obtain n where
      "extract_line eof a = (None, a\<lparr>as_scan_offset := n\<rparr>)" "as_wf (a\<lparr>as_scan_offset := n\<rparr>)" by blast
    with None less.prems(2) show ?thesis
      by (auto simp: drain.simps [of eof a] consume.simps [of _ _ _ "pending a"] frame_of_def)
  next
    case (Some p)
    obtain content raw rest where p: "next_line eof (pending a) = Some ((content, raw), rest)"
      using Some by (cases p) auto
    have shorter: "length rest < length (pending a)" using p by (rule next_line_shorter)
    from extract_line_Some [OF wf p] obtain n where
      ex: "extract_line eof a =
          (Some (content, raw), a\<lparr>as_line_start := n, as_scan_offset := n\<rparr>)"
      and wf1: "as_wf (a\<lparr>as_line_start := n, as_scan_offset := n\<rparr>)"
      and rest: "drop n (as_buffer a) = rest" by blast
    define a1 where "a1 = a\<lparr>as_line_start := n, as_scan_offset := n\<rparr>"
    have a1: "as_wf a1" "pending a1 = rest"
        "as_max a1 = as_max a" "as_closed a1 = as_closed a" "as_at_start a1 = as_at_start a"
        "as_frame_raw a1 = as_frame_raw a" "as_lines a1 = as_lines a"
      using wf1 rest by (simp_all add: a1_def pending_def)
    note ex = ex [folded a1_def]
    let ?c = "strip_bom (as_at_start a) content"
    let ?raw = "as_frame_raw a @ raw"
    note drain_eq = drain.simps [of eof a]
    note consume_eq = consume.simps [of _ _ _ "pending a"]
    show ?thesis
    proof (cases "int (length ?raw) > as_max a")
      case True
      then show ?thesis
        using a1 p ex less.prems(2)
        by (auto simp: drain_eq consume_eq check_size_def frame_of_def Let_def split: if_splits)
    next
      case False
      note small = this
      show ?thesis
      proof (cases "?c = []")
        case True
        define a3 where "a3 = a1\<lparr>as_at_start := False, as_frame_raw := [], as_lines := []\<rparr>"
        obtain evs' where cons: "consume eof (as_max a3) (frame_of a3) (pending a3) = (evs', err, f, r)"
          and evs: "evs = build_event ?raw (as_lines a) # evs'"
          using less.prems(2) p True small a1
          by (auto simp: consume_eq frame_of_def Let_def a3_def split: prod.splits)
        from less.hyps [OF _ _ cons] shorter a1 obtain a' where
          "drain eof a3 = (evs', err, a')" "frame_of a' = f" "pending a' = r" "as_wf a'"
          "as_max a' = as_max a" "as_closed a' = as_closed a"
          by (auto simp: a3_def)
        then show ?thesis
          using ex True small a1 evs
          by (simp add: drain_eq check_size_def complete_event_def Let_def a3_def)
      next
        case False
        define a3 where "a3 = a1\<lparr>as_frame_raw := ?raw, as_at_start := False,
            as_lines := as_lines a @ [parse_line ?c raw]\<rparr>"
        have cons: "consume eof (as_max a3) (frame_of a3) (pending a3) = (evs, err, f, r)"
          using less.prems(2) p False small a1
          by (auto simp: consume_eq frame_of_def Let_def a3_def)
        from less.hyps [OF _ _ cons] shorter a1 obtain a' where
          "drain eof a3 = (evs, err, a')" "frame_of a' = f" "pending a' = r" "as_wf a'"
          "as_max a' = as_max a" "as_closed a' = as_closed a"
          by (auto simp: a3_def)
        then show ?thesis
          using ex False small a1
          by (simp add: drain_eq check_size_def Let_def a3_def)
      qed
    qed
  qed
qed

section \<open>One step of the reference machine\<close>

lemma consume_cases [consumes 1, case_names stop over line frame]:
  assumes "consume eof m f x = (evs, err, f1, r1)"
  obtains "next_line eof x = None" "evs = []" "err = None" "f1 = f" "r1 = x"
  | content raw where "next_line eof x = Some ((content, raw), r1)" "evs = []"
      "err = Some (Frame_Too_Large (length (fr_raw f @ raw)) m)"
      "int (length (fr_raw f @ raw)) > m" "fr_raw f1 = fr_raw f @ raw"
  | content raw rest where "next_line eof x = Some ((content, raw), rest)"
      "strip_bom (fr_at_start f) content \<noteq> []" "int (length (fr_raw f @ raw)) \<le> m"
      "consume eof m \<lparr>fr_raw = fr_raw f @ raw, fr_lines = fr_lines f @
         [parse_line (strip_bom (fr_at_start f) content) raw], fr_at_start = False\<rparr> rest
         = (evs, err, f1, r1)"
  | content raw rest evs' where "next_line eof x = Some ((content, raw), rest)"
      "strip_bom (fr_at_start f) content = []" "int (length (fr_raw f @ raw)) \<le> m"
      "consume eof m \<lparr>fr_raw = [], fr_lines = [], fr_at_start = False\<rparr> rest
         = (evs', err, f1, r1)"
      "evs = build_event (fr_raw f @ raw) (fr_lines f) # evs'"
proof (cases "next_line eof x")
  case None
  with assms show ?thesis by (intro that(1)) (simp_all add: consume.simps [of _ _ f x])
next
  case (Some p)
  obtain content raw rest where p: "next_line eof x = Some ((content, raw), rest)"
    using Some by (cases p) auto
  let ?c = "strip_bom (fr_at_start f) content" and ?raw = "fr_raw f @ raw"
  show ?thesis
  proof (cases "int (length ?raw) > m")
    case True
    with assms p show ?thesis
      by (intro that(2) [of content raw]) (auto simp: consume.simps [of _ _ f x] Let_def)
  next
    case False
    note small = this
    show ?thesis
    proof (cases "?c = []")
      case True
      obtain evs' where "consume eof m \<lparr>fr_raw = [], fr_lines = [], fr_at_start = False\<rparr> rest
          = (evs', err, f1, r1)" "evs = build_event ?raw (fr_lines f) # evs'"
        using assms p True small by (auto simp: consume.simps [of _ _ f x] Let_def split: prod.splits)
      with p True small show ?thesis by (intro that(4) [of content raw rest evs']) auto
    next
      case False
      with assms p small show ?thesis
        by (intro that(3) [of content raw rest]) (auto simp: consume.simps [of _ _ f x] Let_def)
    qed
  qed
qed

section \<open>Chunk independence of the reference machine\<close>

lemma next_line_append:
  "next_line False s = Some ((content, raw), rest) \<Longrightarrow>
     next_line False (s @ t) = Some ((content, raw), rest @ t)"
proof (induction s arbitrary: content raw)
  case Nil
  then show ?case by simp
next
  case (Cons c cs)
  show ?case
  proof (cases "c = LF \<or> c = CR")
    case True
    with Cons.prems show ?thesis by (auto split: if_splits list.splits)
  next
    case False
    with Cons.prems Cons.IH show ?thesis by auto
  qed
qed

lemma next_line_longer:
  "next_line False s = None \<Longrightarrow> next_line False (s @ t) = Some ((content, raw), rest) \<Longrightarrow>
     length s \<le> length raw"
proof (induction s arbitrary: content raw)
  case Nil
  then show ?case by simp
next
  case (Cons c cs)
  show ?case
  proof (cases "c = LF \<or> c = CR")
    case True
    with Cons.prems have "cs = []" by (auto split: if_splits list.splits)
    with Cons.prems show ?thesis by (auto split: if_splits list.splits)
  next
    case False
    with Cons.prems Cons.IH show ?thesis by (auto split: if_splits)
  qed
qed

lemma consume_append:
  "consume False m f x = (evs, err, f1, r1) \<Longrightarrow>
   consume False m f (x @ y) =
     (case err of
        Some e \<Rightarrow> (evs, Some e, f1, r1 @ y)
      | None \<Rightarrow> (let (evs2, err2, out) = consume False m f1 (r1 @ y) in (evs @ evs2, err2, out)))"
proof (induction "length x" arbitrary: f x evs rule: less_induct)
  case less
  show ?case
  proof (cases "next_line False x")
    case None
    with less.prems show ?thesis by (simp add: consume.simps [of _ _ f x] split: prod.splits)
  next
    case (Some p)
    obtain content raw rest where p: "next_line False x = Some ((content, raw), rest)"
      using Some by (cases p) auto
    have q: "next_line False (x @ y) = Some ((content, raw), rest @ y)"
      using p by (rule next_line_append)
    have shorter: "length rest < length x" using p by (rule next_line_shorter)
    show ?thesis
      using less.prems less.hyps [OF shorter] p q
      by (auto simp: consume.simps [of _ _ f x] consume.simps [of _ _ f "x @ y"] Let_def
          split: if_splits prod.splits option.splits)
  qed
qed

lemma consume_None_settled:
  "consume False m f x = (evs, None, f1, r1) \<Longrightarrow> next_line False r1 = None"
proof (induction "length x" arbitrary: f x evs rule: less_induct)
  case less
  from less.prems show ?case
    by (cases rule: consume_cases) (auto dest: next_line_shorter less.hyps)
qed

text \<open>Pending bytes over the bound stay over it, whatever follows, and complete no frame.\<close>

lemma consume_over_limit:
  assumes none: "next_line False r = None" and big: "int (length (fr_raw f) + length r) > m"
    and run: "consume False m f (r @ y) = (evs, err, f2, r2)"
  shows "evs = [] \<and> (err \<noteq> None \<or> int (length (fr_raw f2) + length r2) > m)"
  using run big by (cases rule: consume_cases) (auto dest: next_line_longer [OF none])

text \<open>Frames are lossless: the bytes of the events and what is pending are the input.\<close>

lemma consume_lossless:
  "consume eof m f x = (evs, None, f1, r1) \<Longrightarrow>
     fr_raw f @ x = concat (map ev_raw evs) @ fr_raw f1 @ r1"
proof (induction "length x" arbitrary: f x evs rule: less_induct)
  case less
  from less.prems show ?case
  proof (cases rule: consume_cases)
    case (line content raw rest)
    with less.hyps [OF _ line(4)] show ?thesis
      by (auto dest: next_line_shorter next_line_split)
  next
    case (frame content raw rest evs')
    with less.hyps [OF _ frame(4)] show ?thesis
      by (auto dest: next_line_shorter next_line_split simp: build_event_def Let_def)
  qed auto
qed

lemma consume_event_bound:
  "consume eof m f x = (evs, err, f1, r1) \<Longrightarrow> \<forall>ev \<in> set evs. int (length (ev_raw ev)) \<le> m"
proof (induction "length x" arbitrary: f x evs rule: less_induct)
  case less
  from less.prems show ?case
  proof (cases rule: consume_cases)
    case (line content raw rest)
    with less.hyps [OF _ line(4)] show ?thesis by (auto dest: next_line_shorter)
  next
    case (frame content raw rest evs')
    with less.hyps [OF _ frame(4)] show ?thesis
      by (auto dest: next_line_shorter simp: build_event_def Let_def)
  qed auto
qed

section \<open>The public operations in terms of the reference machine\<close>

lemma feed_consume:
  assumes wf: "as_wf a" and open_a: "as_closed a = None"
    and run: "consume False (as_max a) (frame_of a) (pending a @ chunk) = (evs, err, f, r)"
  shows "\<exists>a'. feed a chunk =
      ((evs, case err of Some e \<Rightarrow> Some e
             | None \<Rightarrow> if int (length (fr_raw f) + length r) > as_max a
                       then Some (Frame_Too_Large (length (fr_raw f) + length r) (as_max a)) else None), a')
      \<and> as_wf a' \<and> as_max a' = as_max a
      \<and> (snd (fst (feed a chunk)) = None \<longrightarrow> frame_of a' = f \<and> pending a' = r \<and> as_closed a' = None)
      \<and> (snd (fst (feed a chunk)) \<noteq> None \<longrightarrow> pending a' = [] \<and> as_frame_raw a' = []
           \<and> as_lines a' = [] \<and> as_closed a' = Some Size_Limit)"
proof -
  let ?a = "a\<lparr>as_buffer := as_buffer a @ chunk\<rparr>"
  have wf': "as_wf ?a" and pend: "pending ?a = pending a @ chunk" and fr: "frame_of ?a = frame_of a"
    using wf by (auto simp: as_wf_def pending_def frame_of_def)
  from drain_consume [OF wf', of False evs err f r] run obtain a1 where
    a1: "drain False ?a = (evs, err, a1)" "frame_of a1 = f" "pending a1 = r" "as_wf a1"
      "as_max a1 = as_max a" "as_closed a1 = None"
    by (auto simp: pend fr open_a)
  have disc: "as_wf (discard a1)" "pending (discard a1) = []"
    using a1 by (simp_all add: discard_def as_wf_def pending_def)
  have compact: "as_wf (compact_buffer a1)" "pending (compact_buffer a1) = r"
      "frame_of (compact_buffer a1) = f"
    using a1 by (auto simp: compact_buffer_def as_wf_def pending_def frame_of_def drop_take)
  have n: "buffered_bytes a1 = length (fr_raw f) + length r"
    using a1 by (auto simp: buffered_bytes_pending frame_of_def)
  have max: "as_max (compact_buffer a1) = as_max a" "as_closed (compact_buffer a1) = None"
    using a1 by (auto simp: compact_buffer_def)
  show ?thesis
    using a1 disc compact max n open_a
    by (cases err) (auto simp: feed_def require_open_def check_size_def discard_def)
qed

definition obs :: "assembler \<Rightarrow> frame \<times> bytes \<times> int \<times> disposition option" where
  "obs a = (frame_of a, pending a, as_max a, as_closed a)"

definition ready :: "assembler \<Rightarrow> bool" where
  "ready a \<longleftrightarrow> settled a \<and> as_closed a = None"

lemma settled_feed_ok:
  assumes "ready a" and ok: "feed a chunk = ((evs, None), a')"
  shows "ready a'"
proof -
  have a: "as_wf a" "as_closed a = None" using assms(1) by (auto simp: ready_def settled_def)
  obtain evs' err f r where run:
    "consume False (as_max a) (frame_of a) (pending a @ chunk) = (evs', err, f, r)"
    by (metis prod.exhaust)
  from feed_consume [OF a run] ok have *:
    "err = None" "int (length (fr_raw f) + length r) \<le> as_max a" "frame_of a' = f"
    "pending a' = r" "as_wf a'" "as_max a' = as_max a" "as_closed a' = None"
    by (auto split: option.splits if_splits)
  with consume_None_settled run buffered_bytes_pending [of a'] show ?thesis
    by (auto simp: ready_def settled_def frame_of_def)
qed

lemma settled_feed_err:
  assumes "ready a" and err: "feed a chunk = ((evs, Some e), a')"
  shows "settled a' \<and> as_closed a' = Some Size_Limit"
proof -
  have a: "as_wf a" "as_closed a = None" using assms(1) by (auto simp: ready_def settled_def)
  obtain evs' er f r where run:
    "consume False (as_max a) (frame_of a) (pending a @ chunk) = (evs', er, f, r)"
    by (metis prod.exhaust)
  from feed_consume [OF a run] err have *:
    "pending a' = []" "as_frame_raw a' = []" "as_wf a'" "as_max a' = as_max a"
    "as_closed a' = Some Size_Limit" by auto
  moreover have "0 < as_max a'" using * by (simp add: as_wf_def)
  ultimately show ?thesis using buffered_bytes_pending [of a'] by (simp add: settled_def)
qed

section \<open>The assembler is a chunked decoder\<close>

interpretation sse: chunked_feed feed obs ready
proof
  fix s x evs s1 assume "ready s" "feed s x = ((evs, None), s1)"
  then show "ready s1" by (rule settled_feed_ok)
next
  fix s assume "ready s"
  then have s: "as_wf s" "as_closed s = None" "next_line False (pending s) = None"
      "int (length (as_frame_raw s) + length (pending s)) \<le> as_max s"
    by (auto simp: ready_def settled_def buffered_bytes_pending)
  then have "consume False (as_max s) (frame_of s) (pending s @ []) = ([], None, frame_of s, pending s)"
    by (simp add: consume.simps [of _ _ _ "pending s"])
  from feed_consume [OF s(1,2) this] s show "\<exists>s1. feed s [] = (([], None), s1) \<and> obs s1 = obs s"
    by (auto simp: obs_def frame_of_def)
next
  fix s x e1 s1 y e2 r2 s2
  assume s: "ready s" and x: "feed s x = ((e1, None), s1)" and y: "feed s1 y = ((e2, r2), s2)"
  then have wf: "as_wf s" "as_closed s = None" by (auto simp: ready_def settled_def)
  obtain v1 q1 f1 p1 where run1:
    "consume False (as_max s) (frame_of s) (pending s @ x) = (v1, q1, f1, p1)" by (metis prod.exhaust)
  from feed_consume [OF wf run1] x have
    1: "v1 = e1" "q1 = None" "frame_of s1 = f1" "pending s1 = p1" "as_wf s1" "as_closed s1 = None"
      "as_max s1 = as_max s" by (auto split: option.splits if_splits)
  obtain v2 q2 f2 p2 where run2:
    "consume False (as_max s1) (frame_of s1) (pending s1 @ y) = (v2, q2, f2, p2)" by (metis prod.exhaust)
  from feed_consume [OF 1(5,6) run2] y have
    2: "v2 = e2" "r2 = None \<longrightarrow> obs s2 = (f2, p2, as_max s, None)"
      "r2 = None \<longleftrightarrow> q2 = None \<and> int (length (fr_raw f2) + length p2) \<le> as_max s"
    by (auto simp: obs_def 1 split: option.splits if_splits)
  have "consume False (as_max s) (frame_of s) (pending s @ x @ y) = (e1 @ e2, q2, f2, p2)"
    using consume_append [OF run1, of y] run2 by (simp add: 1 2)
  from feed_consume [OF wf this] 2 show
    "\<exists>r s3. feed s (x @ y) = ((e1 @ e2, r), s3) \<and> (r = None) = (r2 = None)
        \<and> (r2 = None \<longrightarrow> obs s3 = obs s2)"
    by (auto simp: obs_def wf split: option.splits if_splits)
next
  fix s x e1 e s1 y
  assume s: "ready s" and x: "feed s x = ((e1, Some e), s1)"
  then have wf: "as_wf s" "as_closed s = None" by (auto simp: ready_def settled_def)
  obtain v1 q1 f1 p1 where run1:
    "consume False (as_max s) (frame_of s) (pending s @ x) = (v1, q1, f1, p1)" by (metis prod.exhaust)
  from feed_consume [OF wf run1] x have
    1: "v1 = e1" "q1 = None \<longrightarrow> int (length (fr_raw f1) + length p1) > as_max s"
    by (auto split: option.splits if_splits)
  show "\<exists>e' s3. feed s (x @ y) = ((e1, Some e'), s3)"
  proof (cases q1)
    case (Some q)
    with consume_append [OF run1, of y] have
      "consume False (as_max s) (frame_of s) (pending s @ x @ y) = (e1, Some q, f1, p1 @ y)"
      by (simp add: 1)
    from feed_consume [OF wf this] show ?thesis by auto
  next
    case None
    obtain v2 q2 f2 p2 where run2: "consume False (as_max s) f1 (p1 @ y) = (v2, q2, f2, p2)"
      by (metis prod.exhaust)
    have over: "v2 = [] \<and> (q2 \<noteq> None \<or> int (length (fr_raw f2) + length p2) > as_max s)"
      using consume_over_limit [OF consume_None_settled [OF run1 [unfolded None]] _ run2] None 1 by simp
    have "consume False (as_max s) (frame_of s) (pending s @ x @ y) = (e1, q2, f2, p2)"
      using consume_append [OF run1, of y] run2 None over by (simp add: 1)
    from feed_consume [OF wf this] over show ?thesis by (auto split: option.splits if_splits)
  qed
qed

end
