(* ===== verification/Sse_Properties.thy ===== *)
theory Sse_Properties
  imports Sse_Refinement
begin

text \<open>
  The properties of the SSE assembler, over the states a program can reach through its
  public operations.
\<close>

section \<open>Reachable assemblers\<close>

inductive reachable_assembler :: "assembler \<Rightarrow> bool" where
  created: "new_assembler m = Inr a \<Longrightarrow> reachable_assembler a"
| fed: "reachable_assembler a \<Longrightarrow> feed a chunk = (res, a') \<Longrightarrow> reachable_assembler a'"
| finished: "reachable_assembler a \<Longrightarrow> finish a = (res, a') \<Longrightarrow> reachable_assembler a'"
| cancelled: "reachable_assembler a \<Longrightarrow> cancel a = (res, a') \<Longrightarrow> reachable_assembler a'"
| reset_to: "reachable_assembler a \<Longrightarrow> reset a = (res, a') \<Longrightarrow> reachable_assembler a'"

lemma settled_new: "new_assembler m = Inr a \<Longrightarrow> settled a"
  by (auto simp: new_assembler_def settled_def as_wf_def pending_def buffered_bytes_def split: if_splits)

lemma settled_discard: "settled a \<Longrightarrow> settled (discard a)"
  by (auto simp: settled_def as_wf_def pending_def buffered_bytes_def discard_def)

lemma settled_flags [simp]:
  "settled (a\<lparr>as_closed := c\<rparr>) = settled a" "settled (a\<lparr>as_at_start := b\<rparr>) = settled a"
  by (auto simp: settled_def as_wf_def pending_def buffered_bytes_def)

lemma settled_feed:
  assumes "settled a"
  shows "settled (snd (feed a chunk))"
proof (cases "as_closed a")
  case (Some d)
  with assms show ?thesis by (simp add: feed_def require_open_def)
next
  case None
  with assms have ready: "ready a" by (simp add: ready_def)
  obtain evs r a' where res: "feed a chunk = ((evs, r), a')" by (metis prod.exhaust)
  show ?thesis
  proof (cases r)
    case None
    then show ?thesis using settled_feed_ok [OF ready] res by (auto simp: ready_def)
  next
    case (Some e)
    then show ?thesis using settled_feed_err [OF ready] res by auto
  qed
qed

text \<open>
  Only a trailing carriage return can complete a line at the end of the stream, and that
  line is the whole pending rest, which the bound already covers.
\<close>

lemma next_line_None_cases:
  assumes "next_line False p = None"
  obtains (open_line) "no_term p" | (cr) q where "no_term q" "p = q @ [CR]"
  using assms
proof (induction p arbitrary: thesis)
  case Nil
  then show ?case by simp
next
  case (Cons c cs)
  show ?case
  proof (cases "c = LF \<or> c = CR")
    case True
    with Cons.prems(3) have "cs = []" "c = CR" by (auto split: if_splits list.splits)
    with Cons.prems(2) [of "[]"] show ?thesis by simp
  next
    case False
    with Cons.prems(3) have "next_line False cs = None" by simp
    from Cons.IH [OF _ _ this] False Cons.prems(1,2) show ?thesis
      by (metis append_Cons no_term_simps(2))
  qed
qed

lemma finish_succeeds:
  assumes "ready a"
  shows "\<exists>t a'. finish a = (Inr t, a') \<and> settled a' \<and> as_closed a' = Some (st_disposition t)
           \<and> buffered_bytes a' = 0
           \<and> st_disposition t = (if st_discarded t = 0 then Complete else Incomplete)"
proof -
  have a: "as_wf a" "as_closed a = None" "next_line False (pending a) = None"
      "int (length (as_frame_raw a) + length (pending a)) \<le> as_max a"
    using assms by (auto simp: ready_def settled_def buffered_bytes_pending)
  obtain evs err f r where run:
    "consume True (as_max a) (frame_of a) (pending a) = (evs, err, f, r)" by (metis prod.exhaust)
  have "err = None"
    using a(3)
  proof (cases rule: next_line_None_cases)
    case open_line
    then have "next_line True (pending a) = None" using next_line_skip [of "pending a" True "[]"] by simp
    with run show ?thesis by (simp add: consume.simps [of _ _ _ "pending a"])
  next
    case (cr q)
    then have "next_line True (pending a) = Some ((q, pending a), [])"
      using next_line_skip [of q True "[CR]"] by simp
    with run a(4) show ?thesis
      by (auto simp: consume.simps [of _ _ _ "pending a"] consume.simps [of _ _ _ "[]"]
          Let_def frame_of_def split: if_splits)
  qed
  with drain_consume [OF a(1) run] obtain a1 where
    "drain True a = (evs, None, a1)" "as_wf a1" "as_max a1 = as_max a" by auto
  then show ?thesis using a(2)
    by (auto simp: finish_def require_open_def Let_def discard_def settled_def as_wf_def
        pending_def buffered_bytes_def)
qed

lemma settled_finish: "settled a \<Longrightarrow> settled (snd (finish a))"
proof (cases "as_closed a")
  case (Some d)
  then show "settled a \<Longrightarrow> ?thesis" by (simp add: finish_def require_open_def)
next
  case None
  assume "settled a"
  with None have "ready a" by (simp add: ready_def)
  from finish_succeeds [OF this] show ?thesis by auto
qed

text \<open>Every reachable assembler is settled: its offsets are inside the buffer, no complete
  line is left undelivered between two calls, and the bytes it holds never exceed
  \<open>max_frame_bytes\<close>.\<close>
theorem reachable_settled: "reachable_assembler a \<Longrightarrow> settled a"
proof (induction rule: reachable_assembler.induct)
  case (created m a)
  then show ?case by (rule settled_new)
next
  case (fed a chunk res a')
  then show ?case using settled_feed [of a chunk] by simp
next
  case (finished a res a')
  then show ?case using settled_finish [of a] by simp
next
  case (cancelled a res a')
  then show ?case using settled_discard [of a]
    by (auto simp: cancel_def split: option.splits)
next
  case (reset_to a res a')
  then show ?case using settled_discard [of a] by (auto simp: reset_def)
qed

section \<open>Chunking, losslessness, completion\<close>

text \<open>C1: Chunk boundaries do not matter.  Feeding any sequence of chunks delivers exactly the
  events of feeding their concatenation in one call; one fails exactly when the other does,
  and without a failure both leave the same pending frame, bytes and mode.\<close>
theorem feed_chunk_independent:
  assumes "reachable_assembler a" and "as_closed a = None"
    and "feed_chunks feed a cs = ((evs, r), a1)"
  shows "\<exists>r' a2. feed a (concat cs) = ((evs, r'), a2) \<and> (r' = None \<longleftrightarrow> r = None)
           \<and> (r = None \<longrightarrow> obs a2 = obs a1)"
  using assms by (intro sse.feed_chunks_concat) (auto simp: ready_def reachable_settled)

lemma feed_lossless_ready:
  assumes "ready a" and "feed a chunk = ((evs, None), a')"
  shows "as_frame_raw a @ pending a @ chunk
           = concat (map ev_raw evs) @ as_frame_raw a' @ pending a'
       \<and> (\<forall>ev \<in> set evs. int (length (ev_raw ev)) \<le> as_max a)"
proof -
  have a: "as_wf a" "as_closed a = None" using assms(1) by (auto simp: ready_def settled_def)
  obtain v q f r where run:
    "consume False (as_max a) (frame_of a) (pending a @ chunk) = (v, q, f, r)" by (metis prod.exhaust)
  from feed_consume [OF a run] assms(2) have
    "q = None" "v = evs" "frame_of a' = f" "pending a' = r" by (auto split: option.splits if_splits)
  with consume_lossless [of False "as_max a" "frame_of a"] consume_event_bound [OF run] run
  show ?thesis by (fastforce simp: frame_of_def)
qed

lemma consume_line:
  assumes "next_line eof x = Some ((content, raw), rest)" "strip_bom (fr_at_start f) content \<noteq> []"
    "int (length (fr_raw f @ raw)) \<le> m"
  shows "consume eof m f x = consume eof m \<lparr>fr_raw = fr_raw f @ raw, fr_lines = fr_lines f @
         [parse_line (strip_bom (fr_at_start f) content) raw], fr_at_start = False\<rparr> rest"
  using assms by (simp add: consume.simps [of _ _ f x] Let_def)

lemma consume_blank:
  assumes "next_line eof x = Some ((content, raw), [])" "strip_bom (fr_at_start f) content = []"
    "int (length (fr_raw f @ raw)) \<le> m"
  shows "consume eof m f x =
     ([build_event (fr_raw f @ raw) (fr_lines f)], None, \<lparr>fr_raw = [], fr_lines = [], fr_at_start = False\<rparr>, [])"
  using assms by (simp add: consume.simps [of _ _ f x] consume.simps [of _ _ _ "[]"] Let_def)

lemma completion_consume:
  assumes none: "next_line False p = None"
    and c: "c = (if p \<noteq> [] then
                  (let trailing_cr = (last p = CR);
                       content = strip_bom (fr_at_start f) (if trailing_cr then butlast p else p)
                   in if trailing_cr then (if content = [] then [LF] else [CR, LF])
                      else if content = [] then [LF] else [LF, LF])
                else if fr_raw f \<noteq> [] then [LF] else [])"
    and bound: "int (length (fr_raw f @ p @ c)) \<le> m"
  shows "\<exists>evs f'. consume False m f (p @ c) = (evs, None, f', []) \<and> fr_raw f' = []
           \<and> map ev_raw evs = (if fr_raw f @ p = [] then [] else [fr_raw f @ p @ c])"
proof (cases "p = []")
  case True
  note empty = this
  show ?thesis
  proof (cases "fr_raw f = []")
    case True
    with empty c show ?thesis by (simp add: consume.simps [of _ _ _ "[]"])
  next
    case False
    with empty c bound consume_blank [of False "[LF]" "[]" "[LF]" f m] show ?thesis
      by (simp add: strip_bom_def utf8_bom_def build_event_def Let_def)
  qed
next
  case False
  note nonempty = this
  from none show ?thesis
  proof (cases rule: next_line_None_cases)
    case open_line
    then have last: "last p \<noteq> CR" using last_in_set [OF nonempty] by (auto simp: no_term_def)
    let ?s = "strip_bom (fr_at_start f) p"
    show ?thesis
    proof (cases "?s = []")
      case True
      have "next_line False (p @ [LF]) = Some ((p, p @ [LF]), [])"
        using next_line_skip [OF open_line, of False "[LF]"] by simp
      from consume_blank [OF this True] True last nonempty c bound show ?thesis
        by (simp add: build_event_def Let_def)
    next
      case False
      have nl: "next_line False (p @ [LF, LF]) = Some ((p, p @ [LF]), [LF])"
        using next_line_skip [OF open_line, of False "[LF, LF]"] by simp
      from False last nonempty c have c2: "c = [LF, LF]" by (simp add: Let_def)
      let ?f = "\<lparr>fr_raw = fr_raw f @ p @ [LF], fr_lines = fr_lines f @ [parse_line ?s (p @ [LF])],
                 fr_at_start = False\<rparr>"
      have "consume False m f (p @ c) = consume False m ?f [LF]"
        using consume_line [OF nl False, of m] bound c2 by simp
      with consume_blank [of False "[LF]" "[]" "[LF]" ?f m] bound c2 nonempty show ?thesis
        by (simp add: strip_bom_def build_event_def Let_def)
    qed
  next
    case (cr q)
    let ?s = "strip_bom (fr_at_start f) q"
    show ?thesis
    proof (cases "?s = []")
      case True
      have "next_line False (p @ [LF]) = Some ((q, p @ [LF]), [])"
        using next_line_skip [OF cr(1), of False "[CR, LF]"] cr(2) by simp
      from consume_blank [OF this True] True cr(2) c bound show ?thesis
        by (simp add: build_event_def Let_def)
    next
      case False
      have nl: "next_line False (p @ [CR, LF]) = Some ((q, p), [CR, LF])"
        using next_line_skip [OF cr(1), of False "[CR, CR, LF]"] cr(2) by simp
      from False cr(2) c have c2: "c = [CR, LF]" by (simp add: Let_def)
      let ?f = "\<lparr>fr_raw = fr_raw f @ p, fr_lines = fr_lines f @ [parse_line ?s p],
                 fr_at_start = False\<rparr>"
      have "consume False m f (p @ c) = consume False m ?f [CR, LF]"
        using consume_line [OF nl False, of m] bound c2 by simp
      with consume_blank [of False "[CR, LF]" "[]" "[CR, LF]" ?f m] bound c2 cr(2) show ?thesis
        by (simp add: strip_bom_def build_event_def Let_def)
    qed
  qed
qed

text \<open>C30: Frames are lossless and bounded.  A successful call re-emits, in the raw bytes of its
  events followed by what stays pending, exactly the bytes that were pending and the new chunk,
  and no event is longer than \<open>max_frame_bytes\<close>.\<close>
theorem feed_lossless:
  assumes "reachable_assembler a" and "as_closed a = None"
    and "feed a chunk = ((evs, None), a')"
  shows "as_frame_raw a @ pending a @ chunk
           = concat (map ev_raw evs) @ as_frame_raw a' @ pending a'
       \<and> (\<forall>ev \<in> set evs. int (length (ev_raw ev)) \<le> as_max a)"
  using assms by (intro feed_lossless_ready) (auto simp: ready_def reachable_settled)

text \<open>\<open>completion_bytes\<close> completes the pending frame: unless the frame bound forbids it,
  feeding that suffix succeeds, leaves nothing pending, and delivers exactly one event made of
  the pending bytes and the suffix (none when nothing was pending).\<close>
theorem completion_bytes_complete:
  assumes "reachable_assembler a" and "completion_bytes a = Inr c"
    and "int (buffered_bytes a + length c) \<le> as_max a"
  shows "\<exists>evs a'. feed a c = ((evs, None), a') \<and> buffered_bytes a' = 0
           \<and> map ev_raw evs = (if buffered_bytes a = 0 then []
                               else [as_frame_raw a @ pending a @ c])"
proof -
  have open_a: "as_closed a = None"
    using assms(2) by (auto simp: completion_bytes_def require_open_def split: option.splits)
  have a: "as_wf a" "next_line False (pending a) = None"
    using reachable_settled [OF assms(1)] by (auto simp: settled_def)
  have n: "buffered_bytes a = length (as_frame_raw a @ pending a)"
    using a(1) by (simp add: buffered_bytes_pending)
  have "\<exists>evs f'. consume False (as_max a) (frame_of a) (pending a @ c) = (evs, None, f', [])
          \<and> fr_raw f' = [] \<and> map ev_raw evs =
              (if fr_raw (frame_of a) @ pending a = [] then [] else [fr_raw (frame_of a) @ pending a @ c])"
  proof (rule completion_consume [OF a(2)])
    have "Inr c = completion_bytes a" using assms(2) by simp
    then show "c = (if pending a \<noteq> [] then
        (let trailing_cr = (last (pending a) = CR);
             content = strip_bom (fr_at_start (frame_of a))
               (if trailing_cr then butlast (pending a) else pending a)
         in if trailing_cr then (if content = [] then [LF] else [CR, LF])
            else if content = [] then [LF] else [LF, LF])
        else if fr_raw (frame_of a) \<noteq> [] then [LF] else [])"
      by (simp add: completion_bytes_def require_open_def open_a frame_of_def Let_def
          flip: pending_def)
    show "int (length (fr_raw (frame_of a) @ pending a @ c)) \<le> as_max a"
      using assms(3) n by (simp add: frame_of_def)
  qed
  then obtain evs f' where run:
    "consume False (as_max a) (frame_of a) (pending a @ c) = (evs, None, f', [])" "fr_raw f' = []"
    "map ev_raw evs = (if as_frame_raw a @ pending a = [] then [] else [as_frame_raw a @ pending a @ c])"
    by (auto simp: frame_of_def)
  have "0 < as_max a" using a(1) by (simp add: as_wf_def)
  with feed_consume [OF a(1) open_a run(1)] run(2) obtain a' where
    a': "feed a c = ((evs, None), a')" "as_wf a'" "frame_of a' = f'" "pending a' = []" by auto
  then have "buffered_bytes a' = 0" using run(2) by (auto simp: buffered_bytes_pending frame_of_def)
  with a' run(3) n show ?thesis by auto
qed

text \<open>\<open>finish\<close> never raises on an open assembler: it closes it, empties it, and reports
  \<open>complete\<close> exactly when no byte was discarded.\<close>
theorem finish_never_raises:
  assumes "reachable_assembler a" and "as_closed a = None"
  shows "\<exists>t a'. finish a = (Inr t, a') \<and> as_closed a' = Some (st_disposition t)
           \<and> buffered_bytes a' = 0
           \<and> st_disposition t = (if st_discarded t = 0 then Complete else Incomplete)"
  using finish_succeeds [of a] reachable_settled [OF assms(1)] assms(2) unfolding ready_def by blast

section \<open>The retry field\<close>

definition decimal_value :: "int \<Rightarrow> bytes \<Rightarrow> int" where
  "decimal_value r v = foldl (\<lambda>n b. n * 10 + (of_char b - 0x30)) r v"

lemma decimal_value_simps [simp]:
  "decimal_value r [] = r"
  "decimal_value r (b # v) = decimal_value (r * 10 + (of_char b - 48)) v"
  by (simp_all add: decimal_value_def)

lemma decimal_value_ge: "0 \<le> r \<Longrightarrow> (\<forall>b \<in> set v. ascii_digit b) \<Longrightarrow> r \<le> decimal_value r v"
proof (induction v arbitrary: r)
  case Nil
  then show ?case by simp
next
  case (Cons b v)
  have b: "48 \<le> (of_char b :: nat)" using Cons.prems by (simp add: ascii_digit_def Let_def)
  then have "(48::int) \<le> of_char b" by (metis of_nat_numeral of_nat_of_char zle_int)
  then have "r \<le> r * 10 + (of_char b - 48)" "0 \<le> r * 10 + (of_char b - 48)"
    using Cons.prems(1) by auto
  with Cons.IH [of "r * 10 + (of_char b - 48)"] Cons.prems show ?case
    by simp
qed

lemma ascii_digit_int: "ascii_digit b \<longleftrightarrow> (0::int) \<le> of_char b - 48 \<and> of_char b - 48 \<le> (9::int)"
proof -
  have "(of_char b :: int) = int (of_char b)" by (rule of_nat_of_char [symmetric])
  then show ?thesis by (auto simp: ascii_digit_def Let_def simp del: of_nat_of_char)
qed

lemma retry_loop_value:
  "0 \<le> r \<Longrightarrow> r \<le> MAX_RETRY_MILLISECONDS \<Longrightarrow>
   retry_loop r v = (if (\<forall>b \<in> set v. ascii_digit b) \<and> decimal_value r v \<le> MAX_RETRY_MILLISECONDS
                     then Some (decimal_value r v) else None)"
proof (induction v arbitrary: r)
  case Nil
  then show ?case by simp
next
  case (Cons b v)
  let ?d = "(of_char b :: int) - 48" and ?M = MAX_RETRY_MILLISECONDS
  show ?case
  proof (cases "ascii_digit b")
    case False
    then show ?thesis by (auto simp: ascii_digit_int)
  next
    case True
    then have d: "0 \<le> ?d" "?d \<le> 9" by (simp_all add: ascii_digit_int)
    have guard: "r > (?M - ?d) div 10 \<longleftrightarrow> r * 10 + ?d > ?M" by linarith
    show ?thesis
    proof (cases "r * 10 + ?d > ?M")
      case True
      have "\<forall>b \<in> set v. ascii_digit b \<Longrightarrow> ?M < decimal_value (r * 10 + ?d) v"
        using decimal_value_ge [of "r * 10 + ?d" v] True d Cons.prems(1) by simp
      with True guard d show ?thesis by (auto simp: Let_def)
    next
      case False
      with Cons.IH [of "r * 10 + ?d"] guard d Cons.prems(1) \<open>ascii_digit b\<close> show ?thesis
        by (auto simp: Let_def)
    qed
  qed
qed

text \<open>The retry field is accepted exactly when it is a non-empty string of ASCII digits whose
  decimal value fits in 63 bits; the parsed number is that value, so it never overflows.\<close>
theorem parse_retry_exact:
  "parse_retry_milliseconds v = Some n \<longleftrightarrow>
     v \<noteq> [] \<and> list_all ascii_digit v \<and> n = decimal_value 0 v \<and> n < 2 ^ 63"
proof -
  have "MAX_RETRY_MILLISECONDS = 2 ^ 63 - 1" by (simp add: MAX_RETRY_MILLISECONDS_def)
  then show ?thesis by (auto simp: parse_retry_milliseconds_def retry_loop_value list_all_iff)
qed

section \<open>Witnesses\<close>

definition demo_assembler :: assembler where
  "demo_assembler = \<lparr>as_max = 64, as_buffer = [], as_line_start = 0, as_scan_offset = 0,
     as_frame_raw = [], as_lines = [], as_at_start = True, as_closed = None\<rparr>"

definition demo_partial :: assembler where
  "demo_partial = snd (feed demo_assembler (''data: hi'' @ [CR]))"

lemma demo_reachable: "reachable_assembler demo_assembler" "reachable_assembler demo_partial"
proof -
  show 1: "reachable_assembler demo_assembler"
    by (rule created [of 64]) (simp add: new_assembler_def demo_assembler_def)
  show "reachable_assembler demo_partial"
    unfolding demo_partial_def by (rule fed [OF 1]) (rule prod.collapse [symmetric])
qed

lemma demo_open: "as_closed demo_assembler = None" "as_closed demo_partial = None"
  by code_simp+

theorem reachable_settled_witness: "settled demo_partial"
  by (rule reachable_settled [OF demo_reachable(2)])

theorem feed_chunk_independent_witness:
  "\<exists>evs a1 r' a2. feed_chunks feed demo_partial [[LF], [CR], ''x''] = ((evs, None), a1) \<and> length evs = 1
     \<and> feed demo_partial (concat [[LF], [CR], ''x'']) = ((evs, r'), a2) \<and> r' = None \<and> obs a2 = obs a1"
proof -
  obtain evs r a1 where run: "feed_chunks feed demo_partial [[LF], [CR], ''x''] = ((evs, r), a1)"
    by (metis prod.exhaust)
  have "snd (fst (feed_chunks feed demo_partial [[LF], [CR], ''x''])) = None"
    "length (fst (fst (feed_chunks feed demo_partial [[LF], [CR], ''x'']))) = 1"
    by code_simp+
  with feed_chunk_independent [OF demo_reachable(2) demo_open(2) run] run show ?thesis by auto
qed

theorem feed_lossless_witness:
  "\<exists>evs a'. feed demo_partial [LF, LF] = ((evs, None), a') \<and> evs \<noteq> []
     \<and> as_frame_raw demo_partial @ pending demo_partial @ [LF, LF]
         = concat (map ev_raw evs) @ as_frame_raw a' @ pending a'"
proof -
  obtain evs r a' where run: "feed demo_partial [LF, LF] = ((evs, r), a')" by (metis prod.exhaust)
  have "snd (fst (feed demo_partial [LF, LF])) = None" "fst (fst (feed demo_partial [LF, LF])) \<noteq> []"
    by code_simp+
  with run have "r = None" "evs \<noteq> []" by auto
  with feed_lossless [OF demo_reachable(2) demo_open(2), of "[LF, LF]" evs a'] run show ?thesis by auto
qed

theorem completion_bytes_complete_witness:
  "\<exists>evs a'. feed demo_partial [CR, LF] = ((evs, None), a') \<and> buffered_bytes a' = 0
     \<and> map ev_raw evs = [''data: hi'' @ [CR, CR, LF]]"
proof -
  have c: "completion_bytes demo_partial = Inr [CR, LF]"
    and n: "int (buffered_bytes demo_partial + length [CR, LF]) \<le> as_max demo_partial"
    and raw: "buffered_bytes demo_partial \<noteq> 0"
      "as_frame_raw demo_partial @ pending demo_partial = ''data: hi'' @ [CR]"
    by code_simp+
  from completion_bytes_complete [OF demo_reachable(2) c n] raw show ?thesis
    by (metis append.assoc append_Cons append_Nil)
qed

theorem finish_never_raises_witness:
  "\<exists>t a'. finish demo_partial = (Inr t, a') \<and> buffered_bytes a' = 0"
  using finish_never_raises [OF demo_reachable(2) demo_open(2)] by blast

end
