(* ===== verification/Py_Json.thy ===== *)
theory Py_Json
  imports Prelude
begin

text \<open>
  What the program uses of Python's \<open>json\<close> module.  \<open>json\<close> values keep object members in
  insertion order; a float is held by its decimal text.  \<open>dumps\<close> is
  \<open>json.dumps(v, ensure_ascii=True, separators=(",", ":"))\<close>.  \<open>loads_with\<close> is
  \<open>json.loads\<close> with its three hooks (\<open>object_pairs_hook\<close>, \<open>parse_float\<close>,
  \<open>parse_constant\<close>); it spends one unit of fuel per nested value, and \<open>loads_fuel_enough\<close>
  shows that the fuel it starts with is never used up.  The interpreter's recursion
  limit is not modelled; its limit of 4300 digits on integer texts is.
\<close>

datatype json =
    JNull
  | JBool bool
  | JInt int
  | JFloat string
  | JStr string
  | JArr "json list"
  | JObj "(string \<times> json) list"

section \<open>UTF-8\<close>

definition utf8_encode :: "nat \<Rightarrow> string" where
  "utf8_encode n =
     (if n < 0x80 then [char_of n]
      else if n < 0x800 then [char_of (0xC0 + n div 64), char_of (0x80 + n mod 64)]
      else if n < 0x10000 then
        [char_of (0xE0 + n div 4096), char_of (0x80 + n div 64 mod 64), char_of (0x80 + n mod 64)]
      else [char_of (0xF0 + n div 262144), char_of (0x80 + n div 4096 mod 64),
            char_of (0x80 + n div 64 mod 64), char_of (0x80 + n mod 64)])"

definition cont_byte :: "nat \<Rightarrow> bool" where
  "cont_byte b \<longleftrightarrow> 0x80 \<le> b \<and> b < 0xC0"

text \<open>The first code point of a UTF-8 string (surrogates included), \<open>None\<close> if there is none.\<close>

definition utf8_next :: "string \<Rightarrow> (nat \<times> string) option" where
  "utf8_next s =
     (case s of
        [] \<Rightarrow> None
      | c # cs \<Rightarrow>
          (let b = of_char c in
           if b < 0x80 then Some (b, cs)
           else if 0xC2 \<le> b \<and> b < 0xE0 then
             (case cs of
                d # r \<Rightarrow> (let x = of_char d in
                   if cont_byte x then Some ((b - 0xC0) * 64 + (x - 0x80), r) else None)
              | _ \<Rightarrow> None)
           else if 0xE0 \<le> b \<and> b < 0xF0 then
             (case cs of
                d # e # r \<Rightarrow> (let x = of_char d; y = of_char e;
                     n = (b - 0xE0) * 4096 + (x - 0x80) * 64 + (y - 0x80) in
                   if cont_byte x \<and> cont_byte y \<and> 0x800 \<le> n then Some (n, r) else None)
              | _ \<Rightarrow> None)
           else if 0xF0 \<le> b \<and> b < 0xF5 then
             (case cs of
                d # e # f # r \<Rightarrow> (let x = of_char d; y = of_char e; z = of_char f;
                     n = (b - 0xF0) * 262144 + (x - 0x80) * 4096 + (y - 0x80) * 64 + (z - 0x80) in
                   if cont_byte x \<and> cont_byte y \<and> cont_byte z \<and> 0x10000 \<le> n \<and> n < 0x110000
                   then Some (n, r) else None)
              | _ \<Rightarrow> None)
           else None))"

lemma of_char_small [simp]: "n < 256 \<Longrightarrow> (of_char (char_of n :: char) :: nat) = n"
  by simp

lemma utf8_next2:
  assumes "2 \<le> a" "a < 32" "b < 64"
  shows "utf8_next (char_of (0xC0 + a) # char_of (0x80 + b) # r)
           = Some (a * 64 + b, r)"
proof -
  have codes: "(of_char (char_of (0xC0 + a) :: char) :: nat) = 0xC0 + a" "(of_char (char_of (0x80 + b) :: char) :: nat) = 0x80 + b"
    by (intro of_char_small, use assms in linarith)+
  have conts: "cont_byte (0x80 + n)" if "n < 64" for n
    using that by (simp add: cont_byte_def)
  show ?thesis
    unfolding utf8_next_def Let_def list.case codes using assms by (simp add: conts)
qed

lemma utf8_next3:
  assumes "a < 16" "b < 64" "c < 64" "0x800 \<le> a * 4096 + b * 64 + c"
  shows "utf8_next (char_of (0xE0 + a) # char_of (0x80 + b) # char_of (0x80 + c) # r)
           = Some (a * 4096 + b * 64 + c, r)"
proof -
  have codes: "(of_char (char_of (0xE0 + a) :: char) :: nat) = 0xE0 + a" "(of_char (char_of (0x80 + b) :: char) :: nat) = 0x80 + b" "(of_char (char_of (0x80 + c) :: char) :: nat) = 0x80 + c"
    by (intro of_char_small, use assms in linarith)+
  have conts: "cont_byte (0x80 + n)" if "n < 64" for n
    using that by (simp add: cont_byte_def)
  show ?thesis
    unfolding utf8_next_def Let_def list.case codes using assms by (simp add: conts)
qed

lemma utf8_next4:
  assumes "a < 5" "b < 64" "c < 64" "d < 64" "0x10000 \<le> a * 262144 + b * 4096 + c * 64 + d"
    "a * 262144 + b * 4096 + c * 64 + d < 0x110000"
  shows "utf8_next (char_of (0xF0 + a) # char_of (0x80 + b) # char_of (0x80 + c) # char_of (0x80 + d) # r)
           = Some (a * 262144 + b * 4096 + c * 64 + d, r)"
proof -
  have codes: "(of_char (char_of (0xF0 + a) :: char) :: nat) = 0xF0 + a" "(of_char (char_of (0x80 + b) :: char) :: nat) = 0x80 + b" "(of_char (char_of (0x80 + c) :: char) :: nat) = 0x80 + c" "(of_char (char_of (0x80 + d) :: char) :: nat) = 0x80 + d"
    by (intro of_char_small, use assms in linarith)+
  have conts: "cont_byte (0x80 + n)" if "n < 64" for n
    using that by (simp add: cont_byte_def)
  show ?thesis
    unfolding utf8_next_def Let_def list.case codes using assms by (simp add: conts)
qed

lemma utf8_next_encode:
  assumes "n < 0x110000"
  shows "utf8_next (utf8_encode n @ r) = Some (n, r)"
proof -
  consider "n < 0x80" | "0x80 \<le> n" "n < 0x800" | "0x800 \<le> n" "n < 0x10000"
    | "0x10000 \<le> n" "n < 0x110000" using assms by linarith
  then show ?thesis
  proof cases
    case 1
    then show ?thesis by (simp add: utf8_encode_def utf8_next_def)
  next
    case 2
    then have "2 \<le> n div 64" "n div 64 < 32" "n mod 64 < 64" by auto
    from utf8_next2 [OF this, of r] 2 show ?thesis by (simp add: utf8_encode_def)
  next
    case 3
    have "n div 4096 = n div 64 div 64" by (simp add: div_mult2_eq [symmetric])
    then have eq: "n div 4096 * 4096 + n div 64 mod 64 * 64 + n mod 64 = n"
      using div_mult_mod_eq [of n 64] div_mult_mod_eq [of "n div 64" 64] by linarith
    from 3 have "n div 4096 < 16" by auto
    from utf8_next3 [OF this, of "n div 64 mod 64" "n mod 64" r] 3 show ?thesis
      by (simp add: utf8_encode_def eq)
  next
    case 4
    have split: "n div 262144 = n div 4096 div 64" "n div 4096 = n div 64 div 64"
      by (simp_all add: div_mult2_eq [symmetric])
    have eq: "n div 262144 * 262144 + n div 4096 mod 64 * 4096 + n div 64 mod 64 * 64 + n mod 64 = n"
      using div_mult_mod_eq [of n 64] div_mult_mod_eq [of "n div 64" 64]
        div_mult_mod_eq [of "n div 4096" 64] split by linarith
    from 4 have "n div 262144 < 5" by auto
    from utf8_next4 [OF this, of "n div 4096 mod 64" "n div 64 mod 64" "n mod 64" r] 4 show ?thesis
      by (simp add: utf8_encode_def eq)
  qed
qed

lemma utf8_next_shorter: "utf8_next s = Some (n, r) \<Longrightarrow> length r < length s"
  by (auto simp: utf8_next_def Let_def split: list.splits if_splits)

function utf8_codes :: "string \<Rightarrow> nat list option" where
  "utf8_codes s =
     (if s = [] then Some []
      else (case utf8_next s of
              None \<Rightarrow> None
            | Some (n, r) \<Rightarrow> map_option ((#) n) (utf8_codes r)))"
  by pat_completeness auto
termination
  by (relation "measure length") (auto dest: utf8_next_shorter)

declare utf8_codes.simps [simp del]

definition utf8_of :: "nat list \<Rightarrow> string" where
  "utf8_of cps = concat (map utf8_encode cps)"

lemma utf8_encode_nonempty [simp]: "utf8_encode n \<noteq> []"
  by (simp add: utf8_encode_def)

lemma utf8_codes_of: "list_all (\<lambda>n. n < 0x110000) cps \<Longrightarrow> utf8_codes (utf8_of cps) = Some cps"
  by (induction cps)
     (simp_all add: utf8_of_def utf8_codes.simps [of "[]"] utf8_codes.simps [of "utf8_encode n @ r" for n r]
        utf8_next_encode)

text \<open>Code points that are not surrogates: the text a UTF-8 string can hold.\<close>

definition scalar_value :: "nat \<Rightarrow> bool" where
  "scalar_value n \<longleftrightarrow> n < 0xD800 \<or> (0xE000 \<le> n \<and> n < 0x110000)"

definition utf8_valid :: "bytes \<Rightarrow> bool" where
  "utf8_valid s \<longleftrightarrow> (case utf8_codes s of None \<Rightarrow> False | Some cps \<Rightarrow> list_all scalar_value cps)"

text \<open>\<open>bytes.decode("utf-8-sig")\<close>: a leading byte order mark is dropped.\<close>

definition decode_utf8_sig :: "bytes \<Rightarrow> string option" where
  "decode_utf8_sig s =
     (if \<not> utf8_valid s then None
      else Some (if prefix [CHR 0xEF, CHR 0xBB, CHR 0xBF] s then drop 3 s else s))"

section \<open>Writing\<close>

definition hex_digit :: "nat \<Rightarrow> char" where
  "hex_digit n = (if n < 10 then char_of (48 + n) else char_of (87 + n))"

definition hex4 :: "nat \<Rightarrow> string" where
  "hex4 n = [hex_digit (n div 4096 mod 16), hex_digit (n div 256 mod 16),
             hex_digit (n div 16 mod 16), hex_digit (n mod 16)]"

abbreviation QUOTE :: char where "QUOTE \<equiv> CHR 0x22"
abbreviation BACKSLASH :: char where "BACKSLASH \<equiv> CHR 0x5C"

definition escape_code :: "nat \<Rightarrow> string" where
  "escape_code n =
     (if n = 0x22 then [BACKSLASH, QUOTE]
      else if n = 0x5C then [BACKSLASH, BACKSLASH]
      else if n = 0x0A then [BACKSLASH, CHR ''n'']
      else if n = 0x0D then [BACKSLASH, CHR ''r'']
      else if n = 0x09 then [BACKSLASH, CHR ''t'']
      else if n = 0x0C then [BACKSLASH, CHR ''f'']
      else if n = 0x08 then [BACKSLASH, CHR ''b'']
      else if 0x20 \<le> n \<and> n \<le> 0x7E then [char_of n]
      else if n < 0x10000 then [BACKSLASH, CHR ''u''] @ hex4 n
      else [BACKSLASH, CHR ''u''] @ hex4 (0xD800 + (n - 0x10000) div 1024)
           @ [BACKSLASH, CHR ''u''] @ hex4 (0xDC00 + (n - 0x10000) mod 1024))"

function escape_text :: "string \<Rightarrow> string" where
  "escape_text s =
     (case utf8_next s of
        None \<Rightarrow> []
      | Some (n, r) \<Rightarrow> escape_code n @ escape_text r)"
  by pat_completeness auto
termination
  by (relation "measure length") (auto dest: utf8_next_shorter)

declare escape_text.simps [simp del]

definition dumps_str :: "string \<Rightarrow> string" where
  "dumps_str s = [QUOTE] @ escape_text s @ [QUOTE]"

function nat_text :: "nat \<Rightarrow> string" where
  "nat_text n = (if n < 10 then [char_of (48 + n)] else nat_text (n div 10) @ [char_of (48 + n mod 10)])"
  by pat_completeness auto
termination
  by (relation "measure id") auto

declare nat_text.simps [simp del]

definition int_text :: "int \<Rightarrow> string" where
  "int_text i = (if i < 0 then CHR ''-'' # nat_text (nat (- i)) else nat_text (nat i))"

definition join_with :: "string \<Rightarrow> string list \<Rightarrow> string" where
  "join_with sep xs = (case xs of [] \<Rightarrow> [] | w # ws \<Rightarrow> w @ concat (map (\<lambda>x. sep @ x) ws))"

fun dumps :: "json \<Rightarrow> string" where
  "dumps JNull = ''null''"
| "dumps (JBool b) = (if b then ''true'' else ''false'')"
| "dumps (JInt i) = int_text i"
| "dumps (JFloat t) = t"
| "dumps (JStr s) = dumps_str s"
| "dumps (JArr vs) = ''['' @ join_with '','' (map dumps vs) @ '']''"
| "dumps (JObj kvs) =
     ''{'' @ join_with '','' (map (\<lambda>(k, v). dumps_str k @ '':'' @ dumps v) kvs) @ ''}''"

section \<open>Reading\<close>

text \<open>
  \<open>Json_Syntax\<close> is \<open>JSONDecodeError\<close>, \<open>Json_Limit\<close> the \<open>ValueError\<close> of an over-long integer,
  \<open>Json_Hook e\<close> an exception raised by a hook, \<open>Json_Fuel\<close> never occurs.
\<close>

datatype 'e json_error = Json_Syntax | Json_Limit | Json_Hook 'e | Json_Fuel

record 'e json_hooks =
  h_object :: "(string \<times> json) list \<Rightarrow> 'e + json"
  h_float :: "string \<Rightarrow> 'e + json"
  h_constant :: "string \<Rightarrow> 'e + json"

definition json_ws :: "char \<Rightarrow> bool" where
  "json_ws c \<longleftrightarrow> c \<in> {CHR 0x20, CHR 0x09, CHR 0x0A, CHR 0x0D}"

definition skip_ws :: "string \<Rightarrow> string" where
  "skip_ws s = dropWhile json_ws s"

definition hex_value :: "char \<Rightarrow> nat option" where
  "hex_value c = (let n = of_char c in
     if 48 \<le> n \<and> n \<le> 57 then Some (n - 48)
     else if 65 \<le> n \<and> n \<le> 70 then Some (n - 55)
     else if 97 \<le> n \<and> n \<le> 102 then Some (n - 87)
     else None)"

definition read_hex4 :: "string \<Rightarrow> (nat \<times> string) option" where
  "read_hex4 s =
     (case s of
        a # b # c # d # r \<Rightarrow>
          (case (hex_value a, hex_value b, hex_value c, hex_value d) of
             (Some w, Some x, Some y, Some z) \<Rightarrow> Some (w * 4096 + x * 256 + y * 16 + z, r)
           | _ \<Rightarrow> None)
      | _ \<Rightarrow> None)"

definition simple_escape :: "char \<Rightarrow> char option" where
  "simple_escape c =
     map_of [(QUOTE, QUOTE), (BACKSLASH, BACKSLASH), (CHR ''/'', CHR ''/''), (CHR ''b'', CHR 0x08),
       (CHR ''f'', CHR 0x0C), (CHR ''n'', CHR 0x0A), (CHR ''r'', CHR 0x0D), (CHR ''t'', CHR 0x09)] c"

text \<open>One item of a string literal after its opening quote: its text and the rest.\<close>

definition scan_char :: "char \<Rightarrow> string \<Rightarrow> (string \<times> string) option" where
  "scan_char c cs =
     (if c \<noteq> BACKSLASH then (if (of_char c :: nat) < 0x20 then None else Some ([c], cs))
      else (case cs of
              [] \<Rightarrow> None
            | e # r \<Rightarrow>
                (if e \<noteq> CHR ''u'' then map_option (\<lambda>x. ([x], r)) (simple_escape e)
                 else (case read_hex4 r of
                         None \<Rightarrow> None
                       | Some (n, r1) \<Rightarrow>
                           (if 0xD800 \<le> n \<and> n \<le> 0xDBFF \<and> prefix [BACKSLASH, CHR ''u''] r1 then
                              (case read_hex4 (drop 2 r1) of
                                 None \<Rightarrow> None
                               | Some (m, r2) \<Rightarrow>
                                   (if 0xDC00 \<le> m \<and> m \<le> 0xDFFF
                                    then Some (utf8_encode (0x10000 + (n - 0xD800) * 1024 + (m - 0xDC00)), r2)
                                    else Some (utf8_encode n, r1)))
                            else Some (utf8_encode n, r1))))))"

lemma read_hex4_shorter: "read_hex4 s = Some (n, r) \<Longrightarrow> length r < length s"
  by (auto simp: read_hex4_def split: list.splits option.splits)

lemma scan_char_shorter: "scan_char c cs = Some (x, r) \<Longrightarrow> length r \<le> length cs"
  by (fastforce simp: scan_char_def dest: read_hex4_shorter split: if_splits list.splits option.splits)

function scan_string :: "string \<Rightarrow> (string \<times> string) option" where
  "scan_string s =
     (case s of
        [] \<Rightarrow> None
      | c # cs \<Rightarrow>
          (if c = QUOTE then Some ([], cs)
           else (case scan_char c cs of
                   None \<Rightarrow> None
                 | Some (x, r) \<Rightarrow> map_option (\<lambda>(t, r'). (x @ t, r')) (scan_string r))))"
  by pat_completeness auto
termination
  by (relation "measure length") (auto dest!: scan_char_shorter)

declare scan_string.simps [simp del]

lemma scan_string_shorter: "scan_string s = Some (t, r) \<Longrightarrow> length r < length s"
proof (induction "length s" arbitrary: s t rule: less_induct)
  case less
  then obtain c cs where s: "s = c # cs" by (cases s) (auto simp: scan_string.simps [of "[]"])
  show ?case
  proof (cases "c = QUOTE")
    case True
    with s less.prems show ?thesis by (simp add: scan_string.simps [of "_ # cs"])
  next
    case False
    with s less.prems obtain x r1 t1 where
      "scan_char c cs = Some (x, r1)" "scan_string r1 = Some (t1, r)"
      by (auto simp: scan_string.simps [of "_ # cs"] split: option.splits)
    with less.hyps [of r1 t1] s show ?thesis by (auto dest: scan_char_shorter)
  qed
qed

definition digits_of :: "string \<Rightarrow> string \<times> string" where
  "digits_of s = (takeWhile ascii_digit s, dropWhile ascii_digit s)"

definition digits_nat :: "string \<Rightarrow> nat" where
  "digits_nat ds = foldl (\<lambda>n c. n * 10 + (of_char c - 48)) 0 ds"

text \<open>A number: sign, integer digits, the text of fraction and exponent, the rest.\<close>

definition scan_fraction :: "string \<Rightarrow> string \<times> string" where
  "scan_fraction s =
     (let (ds, r) = digits_of (drop 1 s) in
      if prefix ''.'' s \<and> ds \<noteq> [] then (''.'' @ ds, r) else ([], s))"

definition scan_exponent :: "string \<Rightarrow> string \<times> string" where
  "scan_exponent s =
     (if s \<noteq> [] \<and> hd s \<in> {CHR ''e'', CHR ''E''} then
        (let sign = (if tl s \<noteq> [] \<and> hd (tl s) \<in> {CHR ''+'', CHR ''-''} then [hd (tl s)] else []);
             (ds, r) = digits_of (drop (1 + length sign) s)
         in if ds \<noteq> [] then ([hd s] @ sign @ ds, r) else ([], s))
      else ([], s))"

definition scan_number :: "string \<Rightarrow> (bool \<times> string \<times> string \<times> string) option" where
  "scan_number s =
     (let neg = prefix ''-'' s;
          s1 = (if neg then drop 1 s else s);
          ds = fst (digits_of s1);
          ip = (if prefix ''0'' ds then ''0'' else ds)
      in if ip = [] then None
         else let (frac, r2) = scan_fraction (drop (length ip) s1);
                  (expo, r3) = scan_exponent r2
              in Some (neg, ip, frac @ expo, r3))"

definition read_number :: "'e json_hooks \<Rightarrow> string \<Rightarrow> 'e json_error + json \<times> string" where
  "read_number h s =
     (case scan_number s of
        None \<Rightarrow> Inl Json_Syntax
      | Some (neg, ip, fe, r) \<Rightarrow>
          (if fe \<noteq> [] then
             (case h_float h ((if neg then ''-'' else []) @ ip @ fe) of
                Inl e \<Rightarrow> Inl (Json_Hook e) | Inr v \<Rightarrow> Inr (v, r))
           else if length ip > 4300 then Inl Json_Limit
           else Inr (JInt ((if neg then -1 else 1) * int (digits_nat ip)), r)))"

definition read_constant :: "'e json_hooks \<Rightarrow> string \<Rightarrow> string \<Rightarrow> 'e json_error + json \<times> string" where
  "read_constant h name s =
     (case h_constant h name of Inl e \<Rightarrow> Inl (Json_Hook e) | Inr v \<Rightarrow> Inr (v, drop (length name) s))"

definition close_object ::
  "'e json_hooks \<Rightarrow> (string \<times> json) list \<Rightarrow> string \<Rightarrow> 'e json_error + json \<times> string" where
  "close_object h kvs r =
     (case h_object h kvs of Inl e \<Rightarrow> Inl (Json_Hook e) | Inr v \<Rightarrow> Inr (v, r))"

definition read_scalar :: "'e json_hooks \<Rightarrow> string \<Rightarrow> 'e json_error + json \<times> string" where
  "read_scalar h s =
     (if prefix ''null'' s then Inr (JNull, drop 4 s)
      else if prefix ''true'' s then Inr (JBool True, drop 4 s)
      else if prefix ''false'' s then Inr (JBool False, drop 5 s)
      else if prefix ''NaN'' s then read_constant h ''NaN'' s
      else if prefix ''Infinity'' s then read_constant h ''Infinity'' s
      else if prefix ''-Infinity'' s then read_constant h ''-Infinity'' s
      else read_number h s)"

fun read_value :: "'e json_hooks \<Rightarrow> nat \<Rightarrow> string \<Rightarrow> 'e json_error + json \<times> string"
and read_items :: "'e json_hooks \<Rightarrow> nat \<Rightarrow> json list \<Rightarrow> string \<Rightarrow> 'e json_error + json \<times> string"
and read_members ::
  "'e json_hooks \<Rightarrow> nat \<Rightarrow> (string \<times> json) list \<Rightarrow> string \<Rightarrow> 'e json_error + json \<times> string" where
  "read_value h 0 s = Inl Json_Fuel"
| "read_value h (Suc n) s =
     (case s of
        [] \<Rightarrow> Inl Json_Syntax
      | c # cs \<Rightarrow>
          (if c = QUOTE then
             (case scan_string cs of None \<Rightarrow> Inl Json_Syntax | Some (t, r) \<Rightarrow> Inr (JStr t, r))
           else if c = CHR ''{'' then
             (if prefix ''}'' (skip_ws cs) then close_object h [] (drop 1 (skip_ws cs))
              else read_members h n [] (skip_ws cs))
           else if c = CHR ''['' then
             (if prefix '']'' (skip_ws cs) then Inr (JArr [], drop 1 (skip_ws cs))
              else read_items h n [] (skip_ws cs))
           else read_scalar h s))"
| "read_items h 0 acc s = Inl Json_Fuel"
| "read_items h (Suc n) acc s =
     rbind (read_value h n s) (\<lambda>(v, r).
       (case skip_ws r of
          [] \<Rightarrow> Inl Json_Syntax
        | c # cs \<Rightarrow>
            (if c = CHR '']'' then Inr (JArr (acc @ [v]), cs)
             else if c = CHR '','' then read_items h n (acc @ [v]) (skip_ws cs)
             else Inl Json_Syntax)))"
| "read_members h 0 acc s = Inl Json_Fuel"
| "read_members h (Suc n) acc s =
     (if \<not> prefix [QUOTE] s then Inl Json_Syntax
      else (case scan_string (drop 1 s) of
              None \<Rightarrow> Inl Json_Syntax
            | Some (k, r0) \<Rightarrow>
                (if \<not> prefix '':'' (skip_ws r0) then Inl Json_Syntax
                 else rbind (read_value h n (skip_ws (drop 1 (skip_ws r0)))) (\<lambda>(v, r).
                   (case skip_ws r of
                      [] \<Rightarrow> Inl Json_Syntax
                    | c # cs \<Rightarrow>
                        (if c = CHR ''}'' then close_object h (acc @ [(k, v)]) cs
                         else if c = CHR '','' then read_members h n (acc @ [(k, v)]) (skip_ws cs)
                         else Inl Json_Syntax))))))"

definition loads_with :: "'e json_hooks \<Rightarrow> string \<Rightarrow> 'e json_error + json" where
  "loads_with h s =
     rbind (read_value h (2 * length s + 1) (skip_ws s)) (\<lambda>(v, r).
       if skip_ws r = [] then Inr v else Inl Json_Syntax)"

text \<open>Without hooks: an object keeps a repeated key's first place and its last value.\<close>

definition plain_hooks :: "unit json_hooks" where
  "plain_hooks = \<lparr>h_object = (\<lambda>kvs. Inr (JObj (foldl (\<lambda>d (k, v). dict_set d k v) [] kvs))),
     h_float = (\<lambda>t. Inr (JFloat t)), h_constant = (\<lambda>t. Inr (JFloat t))\<rparr>"

definition loads :: "string \<Rightarrow> json option" where
  "loads s = (case loads_with plain_hooks s of Inl _ \<Rightarrow> None | Inr v \<Rightarrow> Some v)"

section \<open>Enough fuel\<close>

lemma skip_ws_length: "length (skip_ws s) \<le> length s"
  by (simp add: skip_ws_def length_dropWhile_le)


lemma digits_of_length: "digits_of s = (ds, r) \<Longrightarrow> length ds + length r = length s"
  by (metis digits_of_def length_append prod.inject takeWhile_dropWhile_id)

lemma scan_fraction_length: "scan_fraction s = (x, r) \<Longrightarrow> length r \<le> length s"
  by (auto simp: scan_fraction_def Let_def split: prod.splits if_splits dest!: digits_of_length)

lemma scan_exponent_length: "scan_exponent s = (x, r) \<Longrightarrow> length r \<le> length s"
  by (auto simp: scan_exponent_def Let_def split: prod.splits if_splits dest!: digits_of_length)

lemma scan_number_shorter:
  assumes "scan_number s = Some (neg, ip, fe, r)"
  shows "length r < length s"
proof -
  define s1 where "s1 = (if prefix ''-'' s then drop 1 s else s)"
  obtain fr r2 ex where run: "scan_fraction (drop (length ip) s1) = (fr, r2)"
    "scan_exponent r2 = (ex, r)" and ip: "ip \<noteq> []"
    "ip = (if prefix ''0'' (fst (digits_of s1)) then ''0'' else fst (digits_of s1))"
    using assms by (auto simp: scan_number_def Let_def s1_def split: if_splits prod.splits)
  have "length ip \<le> length s1"
    using ip(2) digits_of_length [of s1] by (cases "digits_of s1") (auto simp: prefix_def)
  moreover have "length r \<le> length s1 - length ip"
    using scan_fraction_length [OF run(1)] scan_exponent_length [OF run(2)] by simp
  moreover have "length s1 \<le> length s" by (simp add: s1_def)
  ultimately show ?thesis using ip(1) by (cases ip) auto
qed

lemma read_number_shorter: "read_number h s = Inr (v, r) \<Longrightarrow> length r < length s"
  by (auto simp: read_number_def dest: scan_number_shorter split: option.splits sum.splits if_splits)

lemma drop_skip_ws_shorter: "skip_ws s \<noteq> [] \<Longrightarrow> length (drop 1 (skip_ws s)) < length s"
  using skip_ws_length [of s] by (cases "skip_ws s") auto

lemma skip_ws_ConsD: "skip_ws s = c # cs \<Longrightarrow> length cs < length s"
  using skip_ws_length [of s] by simp

lemma read_scalar_shorter:
  assumes "read_scalar h s = Inr (v, r)"
  shows "length r < length s"
proof (cases s)
  case Nil
  with assms show ?thesis by (auto simp: read_scalar_def dest: read_number_shorter)
next
  case (Cons c cs)
  then have "0 < k \<Longrightarrow> length (drop k s) < length s" for k by simp
  with assms show ?thesis
    by (auto simp: read_scalar_def read_constant_def simp del: length_drop
        dest: read_number_shorter split: if_splits sum.splits)
qed

lemma read_shorter:
  "read_value h n s = Inr (v, r) \<Longrightarrow> length r < length s"
  "read_items h n acc s = Inr (v, r) \<Longrightarrow> length r < length s"
  "read_members h n kvs s = Inr (v, r) \<Longrightarrow> length r < length s"
proof (induction h n s and h n acc s and h n kvs s arbitrary: v r and v r and v r
    rule: read_value_read_items_read_members.induct)
  case (2 h n s)
  show ?case
  proof (cases s)
    case Nil
    with "2.prems" show ?thesis by simp
  next
    case (Cons c cs)
    consider (str) "c = QUOTE" | (obj) "c = CHR ''{''" | (arr) "c = CHR ''[''"
      | (scalar) "c \<noteq> QUOTE" "c \<noteq> CHR ''{''" "c \<noteq> CHR ''[''" by blast
    then show ?thesis
    proof cases
      case str
      with "2.prems" Cons show ?thesis by (auto dest: scan_string_shorter split: option.splits)
    next
      case obj
      show ?thesis
      proof (cases "prefix ''}'' (skip_ws cs)")
        case True
        then have "skip_ws cs \<noteq> []" by auto
        with True obj "2.prems" Cons drop_skip_ws_shorter [of cs] show ?thesis
          by (auto simp: close_object_def split: sum.splits)
      next
        case False
        with "2.IH"(1) [OF Cons] obj "2.prems" Cons skip_ws_length [of cs] show ?thesis by fastforce
      qed
    next
      case arr
      show ?thesis
      proof (cases "prefix '']'' (skip_ws cs)")
        case True
        then have "skip_ws cs \<noteq> []" by auto
        with True arr "2.prems" Cons drop_skip_ws_shorter [of cs] show ?thesis by auto
      next
        case False
        with "2.IH"(2) [OF Cons] arr "2.prems" Cons skip_ws_length [of cs] show ?thesis by fastforce
      qed
    next
      case scalar
      with "2.prems" Cons show ?thesis by (intro read_scalar_shorter [of h]) simp
    qed
  qed
next
  case (4 h n acc s)
  obtain w r1 where w: "read_value h n s = Inr (w, r1)"
    using "4.prems" by (auto simp: rbind_Inr_iff)
  have r1: "length r1 < length s" using "4.IH"(1) [OF w] .
  show ?case
  proof (cases "skip_ws r1")
    case Nil
    with "4.prems" w show ?thesis by simp
  next
    case (Cons c cs)
    have cs: "length cs < length r1" using Cons by (rule skip_ws_ConsD)
    show ?thesis
    proof (cases "c = CHR '']''")
      case True
      with "4.prems" w Cons r1 cs show ?thesis by simp
    next
      case False
      with "4.prems" w Cons have c: "c = CHR '',''"
        and run: "read_items h n (acc @ [w]) (skip_ws cs) = Inr (v, r)" by (auto split: if_splits)
      have "length r < length (skip_ws cs)"
        using "4.IH"(2) [OF w refl Cons False c run] .
      with skip_ws_length [of cs] r1 cs show ?thesis by simp
    qed
  qed
next
  case (6 h n kvs s)
  obtain k r0 w r1 where p: "prefix [QUOTE] s" and k: "scan_string (drop 1 s) = Some (k, r0)"
    and co: "prefix '':'' (skip_ws r0)"
    and w: "read_value h n (skip_ws (drop 1 (skip_ws r0))) = Inr (w, r1)"
    using "6.prems" by (auto simp: rbind_Inr_iff split: if_splits option.splits)
  have r0: "length r0 < length s" using scan_string_shorter [OF k] by simp
  have r1: "length r1 < length r0"
    using "6.IH"(1) [OF _ k refl _ w] p co skip_ws_length [of "drop 1 (skip_ws r0)"] skip_ws_length [of r0]
    by simp
  show ?case
  proof (cases "skip_ws r1")
    case Nil
    with "6.prems" p k co w show ?thesis by simp
  next
    case (Cons c cs)
    have cs: "length cs < length r1" using Cons by (rule skip_ws_ConsD)
    show ?thesis
    proof (cases "c = CHR ''}''")
      case True
      with "6.prems" p k co w Cons r0 r1 cs show ?thesis
        by (auto simp: close_object_def split: sum.splits)
    next
      case False
      with "6.prems" p k co w Cons have c: "c = CHR '',''"
        and run: "read_members h n (kvs @ [(k, w)]) (skip_ws cs) = Inr (v, r)"
        by (auto split: if_splits)
      have "length r < length (skip_ws cs)"
        using "6.IH"(2) [OF _ k refl _ w refl Cons False c run] p co by simp
      with skip_ws_length [of cs] r0 r1 cs show ?thesis by simp
    qed
  qed
qed simp_all

lemma read_scalar_fuel: "read_scalar h s \<noteq> Inl Json_Fuel"
  by (auto simp: read_scalar_def read_constant_def read_number_def split: sum.splits option.splits)

lemma close_object_fuel: "close_object h kvs r \<noteq> Inl Json_Fuel"
  by (auto simp: close_object_def split: sum.splits)

lemma read_fuel_enough:
  "2 * length s < n \<Longrightarrow> read_value h n s \<noteq> Inl Json_Fuel"
  "2 * length s + 1 < n \<Longrightarrow> read_items h n acc s \<noteq> Inl Json_Fuel"
  "2 * length s + 1 < n \<Longrightarrow> read_members h n kvs s \<noteq> Inl Json_Fuel"
proof (induction h n s and h n acc s and h n kvs s
    rule: read_value_read_items_read_members.induct)
  case (2 h n s)
  show ?case
  proof (cases s)
    case (Cons c cs)
    have fuel: "2 * length (skip_ws cs) + 1 < n"
      using "2.prems" Cons skip_ws_length [of cs] by simp
    consider (str) "c = QUOTE" | (obj) "c = CHR ''{''" | (arr) "c = CHR ''[''"
      | (scalar) "c \<noteq> QUOTE" "c \<noteq> CHR ''{''" "c \<noteq> CHR ''[''" by blast
    then show ?thesis
    proof cases
      case str
      with Cons show ?thesis by (simp split: option.splits)
    next
      case obj
      with "2.IH"(1) [OF Cons _ _ _ fuel] Cons show ?thesis by (simp add: close_object_fuel)
    next
      case arr
      with "2.IH"(2) [OF Cons _ _ _ _ fuel] Cons show ?thesis by simp
    next
      case scalar
      with Cons read_scalar_fuel [of h s] show ?thesis by simp
    qed
  qed simp
next
  case (4 h n acc s)
  have v: "read_value h n s \<noteq> Inl Json_Fuel" using "4.IH"(1) "4.prems" by simp
  show ?case
  proof (cases "read_value h n s")
    case (Inl e)
    with v show ?thesis by simp
  next
    case (Inr p)
    obtain w r1 where p: "p = (w, r1)" by (cases p)
    have r1: "length r1 < length s" using read_shorter(1) Inr p by blast
    show ?thesis
    proof (cases "skip_ws r1")
      case Nil
      with Inr p show ?thesis by simp
    next
      case (Cons c cs)
      have "length cs < length r1" using Cons by (rule skip_ws_ConsD)
      with r1 "4.prems" skip_ws_length [of cs] have "2 * length (skip_ws cs) + 1 < n" by simp
      with "4.IH"(2) [OF Inr p [symmetric] Cons] Inr p Cons show ?thesis by simp
    qed
  qed
next
  case (6 h n kvs s)
  show ?case
  proof (cases "\<exists>k r0. prefix [QUOTE] s \<and> scan_string (drop 1 s) = Some (k, r0) \<and> prefix '':'' (skip_ws r0)")
    case False
    then show ?thesis by (auto split: option.splits)
  next
    case True
    then obtain k r0 where h: "prefix [QUOTE] s" "scan_string (drop 1 s) = Some (k, r0)"
      "prefix '':'' (skip_ws r0)" by blast
    let ?s1 = "skip_ws (drop 1 (skip_ws r0))"
    have r0: "length r0 < length s" using scan_string_shorter [OF h(2)] by simp
    have s1: "length ?s1 < length r0"
    proof -
      have "skip_ws r0 \<noteq> []" using h(3) by auto
      with skip_ws_length [of r0] skip_ws_length [of "drop 1 (skip_ws r0)"] show ?thesis
        by (cases "skip_ws r0") auto
    qed
    have IH1: "read_value h n ?s1 \<noteq> Inl Json_Fuel"
      using "6.IH"(1) [OF _ h(2) refl] h(1,3) r0 s1 "6.prems" by simp
    show ?thesis
    proof (cases "read_value h n ?s1")
      case (Inl e)
      with IH1 h show ?thesis by simp
    next
      case (Inr p)
      obtain w r1 where p: "p = (w, r1)" by (cases p)
      have r1: "length r1 < length ?s1" using read_shorter(1) Inr p by blast
      show ?thesis
      proof (cases "skip_ws r1")
        case Nil
        with Inr p h show ?thesis by simp
      next
        case (Cons c cs)
        have "length cs < length r1" using Cons by (rule skip_ws_ConsD)
        with r1 s1 r0 "6.prems" skip_ws_length [of cs] have fuel: "2 * length (skip_ws cs) + 1 < n"
          by simp
        with "6.IH"(2) [OF _ h(2) refl _ Inr p [symmetric] Cons] Inr p Cons h
        show ?thesis by (simp add: close_object_fuel)
      qed
    qed
  qed
qed simp_all

text \<open>The fuel \<open>loads_with\<close> starts with always suffices.\<close>

theorem loads_fuel_enough: "loads_with h s \<noteq> Inl Json_Fuel"
proof -
  have "2 * length (skip_ws s) < 2 * length s + 1" using skip_ws_length [of s] by simp
  from read_fuel_enough(1) [OF this, of h] show ?thesis
    by (auto simp: loads_with_def rbind_Inl_iff split: if_splits)
qed

section \<open>String literals read back what was written\<close>

lemma hex_value_digit: "n < 16 \<Longrightarrow> hex_value (hex_digit n) = Some n"
  by (simp add: hex_value_def hex_digit_def Let_def)

lemma read_hex4_digits:
  "a < 16 \<Longrightarrow> b < 16 \<Longrightarrow> c < 16 \<Longrightarrow> d < 16 \<Longrightarrow>
   read_hex4 ([hex_digit a, hex_digit b, hex_digit c, hex_digit d] @ r)
     = Some (a * 4096 + b * 256 + c * 16 + d, r)"
  by (simp add: read_hex4_def hex_value_digit)

lemma hex_places:
  "(n::nat) = a * 16 + r0 \<Longrightarrow> a = b * 16 + r1 \<Longrightarrow> b = c * 16 + r2 \<Longrightarrow>
     c * 4096 + r2 * 256 + r1 * 16 + r0 = n"
  by simp

lemma read_hex4_hex4: "n < 65536 \<Longrightarrow> read_hex4 (hex4 n @ r) = Some (n, r)"
proof -
  assume n: "n < 65536"
  have top: "n div 4096 mod 16 = n div 4096" using n by simp
  have "n div 4096 = n div 16 div 16 div 16" "n div 256 = n div 16 div 16"
    by (simp_all add: div_mult2_eq [symmetric])
  then have eq: "n div 4096 * 4096 + n div 256 mod 16 * 256 + n div 16 mod 16 * 16 + n mod 16 = n"
    using hex_places [OF div_mult_mod_eq [symmetric, of n 16] div_mult_mod_eq [symmetric, of "n div 16" 16]
      div_mult_mod_eq [symmetric, of "n div 16 div 16" 16]] by (simp only:)
  have "read_hex4 (hex4 n @ r) = Some (n div 4096 mod 16 * 4096 + n div 256 mod 16 * 256
      + n div 16 mod 16 * 16 + n mod 16, r)"
    unfolding hex4_def by (rule read_hex4_digits) simp_all
  then show ?thesis unfolding top eq .
qed

lemma char_codes:
  "CHR 0x22 = char_of (0x22 :: nat)" "CHR 0x5C = char_of (0x5C :: nat)" "CHR 0x0A = char_of (0x0A :: nat)"
  "CHR 0x0D = char_of (0x0D :: nat)" "CHR 0x09 = char_of (0x09 :: nat)" "CHR 0x0C = char_of (0x0C :: nat)"
  "CHR 0x08 = char_of (0x08 :: nat)"
  by code_simp+

lemma char_of_eq_iff: "m < 256 \<Longrightarrow> n < 256 \<Longrightarrow> char_of m = (char_of n :: char) \<longleftrightarrow> m = (n :: nat)"
  by (metis of_char_small)

text \<open>The two-character escapes, and the character each stands for.\<close>

lemma scan_simple_escape:
  "scan_char BACKSLASH (QUOTE # r) = Some ([CHR 0x22], r)"
  "scan_char BACKSLASH (BACKSLASH # r) = Some ([CHR 0x5C], r)"
  "scan_char BACKSLASH (CHR ''n'' # r) = Some ([CHR 0x0A], r)"
  "scan_char BACKSLASH (CHR ''r'' # r) = Some ([CHR 0x0D], r)"
  "scan_char BACKSLASH (CHR ''t'' # r) = Some ([CHR 0x09], r)"
  "scan_char BACKSLASH (CHR ''f'' # r) = Some ([CHR 0x0C], r)"
  "scan_char BACKSLASH (CHR ''b'' # r) = Some ([CHR 0x08], r)"
  by (simp_all add: scan_char_def simple_escape_def)

lemma scan_unicode_escape:
  "n < 0x10000 \<Longrightarrow> \<not> (0xD800 \<le> n \<and> n \<le> 0xDBFF) \<Longrightarrow>
     scan_char BACKSLASH (CHR ''u'' # hex4 n @ r) = Some (utf8_encode n, r)"
  by (auto simp: scan_char_def read_hex4_hex4)

lemma scan_surrogate_pair:
  assumes "0xD800 \<le> h" "h \<le> 0xDBFF" "0xDC00 \<le> l" "l \<le> 0xDFFF"
  shows "scan_char BACKSLASH (CHR ''u'' # hex4 h @ BACKSLASH # CHR ''u'' # hex4 l @ r)
           = Some (utf8_encode (0x10000 + (h - 0xD800) * 1024 + (l - 0xDC00)), r)"
  using assms by (simp add: scan_char_def read_hex4_hex4)

lemma scan_escape_code:
  assumes "scalar_value n"
  shows "\<exists>c cs. escape_code n @ r = c # cs \<and> c \<noteq> QUOTE
           \<and> scan_char c cs = Some (utf8_encode n, r)"
proof -
  consider (small) "n \<in> {0x22, 0x5C, 0x0A, 0x0D, 0x09, 0x0C, 0x08}"
    | (plain) "n \<notin> {0x22, 0x5C}" "0x20 \<le> n" "n \<le> 0x7E"
    | (u4) "n \<notin> {0x22, 0x5C, 0x0A, 0x0D, 0x09, 0x0C, 0x08}" "n < 0x20 \<or> 0x7E < n" "n < 0x10000"
    | (u8) "0x10000 \<le> n" by force
  then show ?thesis
  proof cases
    case small
    then have "n < 0x80" by auto
    then have enc: "utf8_encode n = [char_of n]" by (simp add: utf8_encode_def)
    from small show ?thesis unfolding enc
      by (elim insertE emptyE) (simp_all add: escape_code_def scan_simple_escape flip: char_codes)
  next
    case plain
    have "char_of n \<noteq> CHR 0x22" "char_of n \<noteq> CHR 0x5C"
      using plain by (simp_all add: char_codes(1,2) char_of_eq_iff)
    moreover have "(of_char (char_of n :: char) :: nat) = n" using plain by simp
    ultimately show ?thesis using plain
      by (simp add: escape_code_def scan_char_def utf8_encode_def del: of_char_of)
  next
    case u4
    then have esc: "escape_code n = [BACKSLASH, CHR ''u''] @ hex4 n" by (auto simp: escape_code_def)
    have "\<not> (0xD800 \<le> n \<and> n \<le> 0xDBFF)" using assms by (auto simp: scalar_value_def)
    with u4(3) show ?thesis by (simp add: esc scan_unicode_escape)
  next
    case u8
    let ?h = "0xD800 + (n - 0x10000) div 1024" and ?l = "0xDC00 + (n - 0x10000) mod 1024"
    have n: "n < 0x110000" using assms u8 by (auto simp: scalar_value_def)
    have h: "0xD800 \<le> ?h" "?h \<le> 0xDBFF" using n u8 by auto
    have l: "0xDC00 \<le> ?l" "?l \<le> 0xDFFF" by auto
    have esc: "escape_code n = [BACKSLASH, CHR ''u''] @ hex4 ?h @ [BACKSLASH, CHR ''u''] @ hex4 ?l"
      using u8 by (simp add: escape_code_def)
    have eq: "0x10000 + (?h - 0xD800) * 1024 + (?l - 0xDC00) = n"
      using u8 div_mult_mod_eq [of "n - 0x10000" 1024] by simp
    from scan_surrogate_pair [OF h l, of r, unfolded eq] show ?thesis
      unfolding esc by (simp only: append_Cons append_Nil append_assoc) blast
  qed
qed

lemma scan_escape_text:
  "list_all scalar_value cps \<Longrightarrow>
     scan_string (escape_text (utf8_of cps) @ QUOTE # r) = Some (utf8_of cps, r)"
proof (induction cps)
  case Nil
  then show ?case
    by (simp add: utf8_of_def escape_text.simps [of "[]"] utf8_next_def scan_string.simps [of "QUOTE # r"])
next
  case (Cons n cps)
  have n: "scalar_value n" "n < 0x110000" using Cons.prems by (auto simp: scalar_value_def)
  have esc: "escape_text (utf8_of (n # cps)) = escape_code n @ escape_text (utf8_of cps)"
    using n by (simp add: utf8_of_def escape_text.simps [of "utf8_encode n @ x" for x] utf8_next_encode)
  obtain c cs where c: "escape_code n @ escape_text (utf8_of cps) @ QUOTE # r = c # cs" "c \<noteq> QUOTE"
    "scan_char c cs = Some (utf8_encode n, escape_text (utf8_of cps) @ QUOTE # r)"
    using scan_escape_code [OF n(1)] by blast
  with Cons show ?case
    by (simp add: esc scan_string.simps [of "c # cs"]) (simp add: utf8_of_def)
qed

section \<open>Decoding with replacement, Unicode white space, lines\<close>

text \<open>
  \<open>bytes.decode("utf-8", errors="replace")\<close>: every maximal ill-formed prefix becomes
  U+FFFD.  \<open>ill_formed_length\<close> is its length: the lead byte and the continuation bytes
  that are still possible after it.
\<close>

definition second_byte_ok :: "nat \<Rightarrow> nat \<Rightarrow> bool" where
  "second_byte_ok b x \<longleftrightarrow>
     (if b = 0xE0 then 0xA0 \<le> x \<and> x < 0xC0
      else if b = 0xED then 0x80 \<le> x \<and> x < 0xA0
      else if b = 0xF0 then 0x90 \<le> x \<and> x < 0xC0
      else if b = 0xF4 then 0x80 \<le> x \<and> x < 0x90
      else cont_byte x)"

definition ill_formed_length :: "string \<Rightarrow> nat" where
  "ill_formed_length s =
     (case s of
        [] \<Rightarrow> 0
      | [c] \<Rightarrow> 1
      | [c, d] \<Rightarrow> (if 0xE0 \<le> (of_char c :: nat) \<and> (of_char c :: nat) < 0xF5
                      \<and> second_byte_ok (of_char c) (of_char d) then 2 else 1)
      | c # d # e # r \<Rightarrow>
          (if 0xE0 \<le> (of_char c :: nat) \<and> (of_char c :: nat) < 0xF5 \<and> second_byte_ok (of_char c) (of_char d)
           then (if 0xF0 \<le> (of_char c :: nat) \<and> cont_byte (of_char e) then 3 else 2)
           else 1))"

definition replacement_char :: string where
  "replacement_char = [CHR 0xEF, CHR 0xBF, CHR 0xBD]"

function utf8_replace :: "bytes \<Rightarrow> string" where
  "utf8_replace s =
     (if s = [] then []
      else (case utf8_next s of
              Some (n, r) \<Rightarrow>
                (if scalar_value n then utf8_encode n @ utf8_replace r
                 else replacement_char @ utf8_replace (drop (max 1 (ill_formed_length s)) s))
            | None \<Rightarrow> replacement_char @ utf8_replace (drop (max 1 (ill_formed_length s)) s)))"
  by pat_completeness auto
termination
  by (relation "measure length") (auto dest: utf8_next_shorter)

declare utf8_replace.simps [simp del]

definition space_code :: "nat \<Rightarrow> bool" where
  "space_code n \<longleftrightarrow> (9 \<le> n \<and> n \<le> 13) \<or> (28 \<le> n \<and> n \<le> 32) \<or> n = 0x85 \<or> n = 0xA0 \<or> n = 0x1680
     \<or> (0x2000 \<le> n \<and> n \<le> 0x200A) \<or> n = 0x2028 \<or> n = 0x2029 \<or> n = 0x202F \<or> n = 0x205F \<or> n = 0x3000"

text \<open>\<open>str.strip()\<close> on the code points.\<close>

definition str_strip :: "string \<Rightarrow> string" where
  "str_strip s =
     (case utf8_codes s of
        None \<Rightarrow> s
      | Some cps \<Rightarrow> utf8_of (rev (dropWhile space_code (rev (dropWhile space_code cps)))))"

definition ascii_text :: "string \<Rightarrow> bool" where
  "ascii_text s \<longleftrightarrow> list_all (\<lambda>c. (of_char c :: nat) < 128) s"

lemma utf8_codes_ascii: "ascii_text s \<Longrightarrow> utf8_codes s = Some (map of_char s)"
proof (induction s)
  case Nil
  show ?case by (simp add: utf8_codes.simps [of "[]"])
next
  case (Cons c s)
  then have "utf8_next (c # s) = Some (of_char c, s)" by (simp add: utf8_next_def ascii_text_def)
  with Cons show ?case by (simp add: utf8_codes.simps [of "c # s"] ascii_text_def)
qed

lemma utf8_of_ascii: "ascii_text s \<Longrightarrow> utf8_of (map of_char s) = s"
  by (induction s) (auto simp: utf8_of_def utf8_encode_def ascii_text_def)

lemma str_strip_ascii:
  assumes "ascii_text s"
  shows "str_strip s = strip_by (\<lambda>c. space_code (of_char c)) s"
proof -
  have "set (strip_by (\<lambda>c. space_code (of_char c)) s) \<subseteq> set s"
    by (auto simp: strip_by_def dest!: set_dropWhileD)
  with assms have "ascii_text (strip_by (\<lambda>c. space_code (of_char c)) s)"
    by (auto simp: ascii_text_def list_all_iff)
  then have "utf8_of (map of_char (strip_by (\<lambda>c. space_code (of_char c)) s)) = strip_by (\<lambda>c. space_code (of_char c)) s"
    by (rule utf8_of_ascii)
  moreover have "rev (dropWhile space_code (rev (dropWhile space_code (map of_char s))))
      = map of_char (strip_by (\<lambda>c. space_code (of_char c)) s)"
    by (simp add: strip_by_def dropWhile_map rev_map comp_def)
  ultimately show ?thesis using assms by (simp add: str_strip_def utf8_codes_ascii)
qed

text \<open>ASCII text without white space at either end is what \<open>strip\<close> returns.\<close>

definition trimmed :: "string \<Rightarrow> bool" where
  "trimmed s \<longleftrightarrow> ascii_text s \<and> (s = [] \<or> \<not> space_code (of_char (hd s)) \<and> \<not> space_code (of_char (last s)))"

lemma str_strip_trimmed: "trimmed s \<Longrightarrow> str_strip s = s"
proof -
  assume t: "trimmed s"
  then have "dropWhile (\<lambda>c. space_code (of_char c)) s = s" by (cases s) (auto simp: trimmed_def)
  moreover have "dropWhile (\<lambda>c. space_code (of_char c)) (rev s) = rev s"
    using t by (cases s rule: rev_cases) (auto simp: trimmed_def)
  ultimately show ?thesis using t by (simp add: str_strip_ascii trimmed_def strip_by_def)
qed

text \<open>\<open>bytes.splitlines(keepends=True)\<close>: LF, CR and CR LF end a line.\<close>

fun splitlines_keep :: "bytes \<Rightarrow> bytes list" where
  "splitlines_keep [] = []"
| "splitlines_keep (c # cs) =
     (let rest = splitlines_keep cs in
      if c = LF then [LF] # rest
      else if c = CR then
        (case rest of
           (d # ds) # ws \<Rightarrow> (if d = LF then (CR # LF # ds) # ws else [CR] # rest)
         | _ \<Rightarrow> [CR] # rest)
      else (case rest of [] \<Rightarrow> [[c]] | w # ws \<Rightarrow> (c # w) # ws))"

lemma splitlines_keep_concat: "concat (splitlines_keep s) = s"
proof (induction s)
  case (Cons c cs)
  then show ?case
    by (cases "splitlines_keep cs"; cases "hd (splitlines_keep cs)") (auto simp: Let_def)
qed simp

text \<open>\<open>json.loads\<close> on bytes decoded as UTF-8: the two errors the program tells apart.\<close>

datatype load_outcome = Loaded json | Bad_Json | Int_Too_Long

definition load_bytes :: "bytes \<Rightarrow> load_outcome" where
  "load_bytes b =
     (case decode_utf8_sig b of
        None \<Rightarrow> Bad_Json
      | Some s \<Rightarrow>
          (case loads_with plain_hooks s of
             Inr v \<Rightarrow> Loaded v
           | Inl Json_Limit \<Rightarrow> Int_Too_Long
           | Inl _ \<Rightarrow> Bad_Json))"

text \<open>A JSON object; \<open>v if isinstance(v, Mapping)\<close>, and \<open>v if isinstance(v, str) and v\<close>.\<close>

type_synonym obj = "(string \<times> json) list"

definition json_object :: "json \<Rightarrow> (string \<times> json) list option" where
  "json_object v = (case v of JObj kvs \<Rightarrow> Some kvs | _ \<Rightarrow> None)"

definition non_empty_str :: "json option \<Rightarrow> string option" where
  "non_empty_str v = (case v of Some (JStr t) \<Rightarrow> (if t = [] then None else Some t) | _ \<Rightarrow> None)"

lemma json_object_Some [simp]: "json_object v = Some kvs \<longleftrightarrow> v = JObj kvs"
  by (cases v) (auto simp: json_object_def)

lemma json_object_JObj [simp]: "json_object (JObj kvs) = Some kvs"
  by simp

text \<open>Lists and dictionaries cannot be elements of a set or keys: looking for one raises \<open>TypeError\<close>.\<close>

definition hashable :: "json \<Rightarrow> bool" where
  "hashable v \<longleftrightarrow> (case v of JArr _ \<Rightarrow> False | JObj _ \<Rightarrow> False | _ \<Rightarrow> True)"

text \<open>\<open>v if isinstance(d.get(k), str)\<close>.\<close>

definition text_field :: "(string \<times> json) list \<Rightarrow> string \<Rightarrow> string option" where
  "text_field d k = (case dict_get d k of Some (JStr t) \<Rightarrow> Some t | _ \<Rightarrow> None)"

end
