(* ===== verification/Sse_Stats.thy ===== *)
theory Sse_Stats
  imports Complex_Main Sse_Properties Py_Json "HOL-Library.List_Lexorder" "HOL-Library.Char_ord"
begin

text \<open>
  \<open>src-python/gateway_sse.py\<close>, first half: the line helpers and
  \<open>PassthroughSseSemanticStats\<close>, the observer that reads every relayed byte through the
  assembler.  Clock readings are rationals; \<open>ob_clock n\<close> is the n-th call of the
  injected clock.  The observers given to the constructor are functions of their
  arguments.  An operation that may raise returns the state it leaves behind and the
  error.
\<close>

section \<open>Line helpers\<close>

definition sse_line_ending :: "bytes \<Rightarrow> bytes" where
  "sse_line_ending line =
     (if suffix [CR, LF] line then [CR, LF]
      else if suffix [LF] line then [LF]
      else if suffix [CR] line then [CR]
      else [LF])"

definition sse_event_separator_after_line :: "bytes \<Rightarrow> bytes" where
  "sse_event_separator_after_line line =
     (if suffix [CR, LF, CR, LF] line \<or> suffix [LF, LF] line \<or> suffix [CR, CR] line then []
      else let line_ending = sse_line_ending line in
           if suffix line_ending line then line_ending else line_ending @ line_ending)"

definition is_sse_blank_line :: "bytes \<Rightarrow> bool" where
  "is_sse_blank_line line \<longleftrightarrow> line \<in> {[LF], [CR, LF], [CR]}"

definition is_sse_event_metadata_line :: "bytes \<Rightarrow> bool" where
  "is_sse_event_metadata_line line \<longleftrightarrow>
     prefix ''event:'' line \<or> prefix ''id:'' line \<or> prefix ''retry:'' line"

definition sse_payload_bytes :: "bytes \<Rightarrow> bytes option" where
  "sse_payload_bytes line =
     (if \<not> prefix ''data:'' line then None
      else let content = (if suffix [CR, LF] line then take (length line - 2) line
                          else if suffix [LF] line \<or> suffix [CR] line then butlast line
                          else line);
               payload_bytes = lstrip_by ascii_space (drop 5 content)
           in if payload_bytes = [] then None else Some payload_bytes)"

text \<open>The \<open>ValueError\<close> of an over-long integer is not among the errors that are caught.\<close>

datatype stats_error = Frame_Error sse_error | Json_Int_Error

definition parse_sse_json_payload :: "bytes \<Rightarrow> stats_error + (string \<times> json) list option" where
  "parse_sse_json_payload line =
     (case sse_payload_bytes line of
        None \<Rightarrow> Inr None
      | Some payload_bytes \<Rightarrow>
          (case load_bytes payload_bytes of
             Bad_Json \<Rightarrow> Inr None
           | Int_Too_Long \<Rightarrow> Inl Json_Int_Error
           | Loaded v \<Rightarrow> Inr (json_object v)))"

fun parse_payload_lines :: "bytes list \<Rightarrow> stats_error + (string \<times> json) list list" where
  "parse_payload_lines [] = Inr []"
| "parse_payload_lines (line # ls) =
     rbind (parse_sse_json_payload line) (\<lambda>p.
       rbind (parse_payload_lines ls) (\<lambda>ps.
         Inr (case p of None \<Rightarrow> ps | Some kvs \<Rightarrow> kvs # ps)))"

definition parse_sse_json_payloads :: "bytes \<Rightarrow> stats_error + (string \<times> json) list list" where
  "parse_sse_json_payloads blob = parse_payload_lines (splitlines_keep blob)"

section \<open>Feeding with a callback\<close>

text \<open>
  \<open>feed(chunk, on_event=...)\<close> with a callback that has a state and may raise.  The
  assembler's state after an exception of the callback is the one inside the loop.
\<close>

datatype 'x stop = Stop_Frame sse_error | Stop_Callback 'x

function drain_with ::
  "('s \<Rightarrow> sse_event \<Rightarrow> 's \<times> 'x option) \<Rightarrow> bool \<Rightarrow> 's \<Rightarrow> assembler \<Rightarrow> 's \<times> 'x stop option \<times> assembler" where
  "drain_with cb eof s a =
     (case extract_line eof a of
        (None, a1) \<Rightarrow> (s, None, a1)
      | (Some (content, raw), a1) \<Rightarrow>
          (let a2 = a1\<lparr>as_frame_raw := as_frame_raw a1 @ raw, as_at_start := False\<rparr>;
               content' = strip_bom (as_at_start a1) content
           in if content' \<noteq> [] then
                (let a3 = a2\<lparr>as_lines := as_lines a2 @ [parse_line content' raw]\<rparr>
                 in case check_size a3 (length (as_frame_raw a3)) of
                      Some e \<Rightarrow> (s, Some (Stop_Frame e), a3)
                    | None \<Rightarrow> drain_with cb eof s a3)
              else
                (case check_size a2 (length (as_frame_raw a2)) of
                   Some e \<Rightarrow> (s, Some (Stop_Frame e), a2)
                 | None \<Rightarrow>
                     (let (ev, a3) = complete_event a2 in
                      case cb s ev of
                        (s1, Some x) \<Rightarrow> (s1, Some (Stop_Callback x), a3)
                      | (s1, None) \<Rightarrow> drain_with cb eof s1 a3))))"
  by pat_completeness auto
termination
  by (relation "measure (\<lambda>(cb, eof, s, a). length (as_buffer a) - as_scan_offset a)")
     (auto simp: extract_line_def complete_event_def Let_def split: scan.splits dest!: scan_from_bounds)

declare drain_with.simps [simp del]

definition feed_with ::
  "('s \<Rightarrow> sse_event \<Rightarrow> 's \<times> 'x option) \<Rightarrow> 's \<Rightarrow> assembler \<Rightarrow> bytes \<Rightarrow> 's \<times> 'x stop option \<times> assembler" where
  "feed_with cb s a chunk =
     (case require_open a of
        Some e \<Rightarrow> (s, Some (Stop_Frame e), a)
      | None \<Rightarrow>
          (case drain_with cb False s (a\<lparr>as_buffer := as_buffer a @ chunk\<rparr>) of
             (s1, Some (Stop_Frame e), a1) \<Rightarrow>
               (s1, Some (Stop_Frame e), (discard a1)\<lparr>as_closed := Some Size_Limit\<rparr>)
           | (s1, Some (Stop_Callback x), a1) \<Rightarrow> (s1, Some (Stop_Callback x), a1)
           | (s1, None, a1) \<Rightarrow>
               (case check_size a1 (buffered_bytes a1) of
                  Some e \<Rightarrow> (s1, Some (Stop_Frame e), (discard a1)\<lparr>as_closed := Some Size_Limit\<rparr>)
                | None \<Rightarrow> (s1, None, compact_buffer a1))))"

text \<open>The callback run over a list of events, up to its first error.\<close>

fun run_events :: "('s \<Rightarrow> sse_event \<Rightarrow> 's \<times> 'x option) \<Rightarrow> 's \<Rightarrow> sse_event list \<Rightarrow> 's \<times> 'x option" where
  "run_events cb s [] = (s, None)"
| "run_events cb s (ev # evs) =
     (case cb s ev of
        (s1, Some x) \<Rightarrow> (s1, Some x)
      | (s1, None) \<Rightarrow> run_events cb s1 evs)"

lemma run_events_append:
  "run_events cb s (xs @ ys) =
     (case run_events cb s xs of (s1, Some x) \<Rightarrow> (s1, Some x) | (s1, None) \<Rightarrow> run_events cb s1 ys)"
  by (induction xs arbitrary: s) (auto split: prod.splits option.splits)

lemma drain_with_drain:
  "drain eof a = (evs, err, a') \<Longrightarrow> run_events cb s evs = (s', x) \<Longrightarrow>
   (case x of
      None \<Rightarrow> drain_with cb eof s a = (s', map_option Stop_Frame err, a')
    | Some y \<Rightarrow> \<exists>b. drain_with cb eof s a = (s', Some (Stop_Callback y), b))"
proof (induction cb eof s a arbitrary: evs rule: drain_with.induct)
  case (1 cb eof s a)
  note unfold = drain.simps [of eof a] drain_with.simps [of cb eof s a]
  obtain l a1 where ext: "extract_line eof a = (l, a1)" by (metis prod.exhaust)
  show ?case
  proof (cases l)
    case None
    have "drain_with cb eof s a = (s, None, a1)" using ext None by (simp add: unfold)
    with ext None 1(3,4) show ?thesis by (auto simp: drain.simps [of eof a])
  next
    case (Some p)
    obtain content raw where p: "p = (content, raw)" by (metis prod.exhaust)
    note ext' = ext [unfolded Some p]
    define a2 where "a2 = a1\<lparr>as_frame_raw := as_frame_raw a1 @ raw, as_at_start := False\<rparr>"
    define c where "c = strip_bom (as_at_start a1) content"
    show ?thesis
    proof (cases "c = []")
      case False
      define a3 where "a3 = a2\<lparr>as_lines := as_lines a2 @ [parse_line c raw]\<rparr>"
      note eqs = a2_def c_def a3_def
      show ?thesis
      proof (cases "check_size a3 (length (as_frame_raw a3))")
        case (Some e)
        have "drain_with cb eof s a = (s, Some (Stop_Frame e), a3)" "drain eof a = ([], Some e, a3)"
          using Some False ext' by (simp_all add: unfold eqs Let_def)
        with 1(3,4) show ?thesis by auto
      next
        case None
        have "drain eof a = drain eof a3" "drain_with cb eof s a = drain_with cb eof s a3"
          using None False ext' by (simp_all add: unfold eqs Let_def)
        with 1(1) [OF ext'[symmetric] refl refl a2_def c_def False a3_def None] 1(3,4) show ?thesis
          by (cases x) auto
      qed
    next
      case True
      show ?thesis
      proof (cases "check_size a2 (length (as_frame_raw a2))")
        case (Some e)
        have "drain_with cb eof s a = (s, Some (Stop_Frame e), a2)" "drain eof a = ([], Some e, a2)"
          using Some True ext' by (simp_all add: unfold a2_def c_def Let_def)
        with 1(3,4) show ?thesis by auto
      next
        case None
        obtain ev a3 where ce: "complete_event a2 = (ev, a3)" by (metis prod.exhaust)
        obtain evs1 where d: "drain eof a3 = (evs1, err, a')" and evs: "evs = ev # evs1"
          using 1(3) True None ext' ce
          by (auto simp: unfold a2_def c_def Let_def split: prod.splits)
        obtain s1 y where cb: "cb s ev = (s1, y)" by (metis prod.exhaust)
        have dw: "drain_with cb eof s a = (case cb s ev of (s1, Some x) \<Rightarrow> (s1, Some (Stop_Callback x), a3)
              | (s1, None) \<Rightarrow> drain_with cb eof s1 a3)"
          using True None ext' ce by (simp add: unfold a2_def c_def Let_def)
        show ?thesis
        proof (cases y)
          case (Some z)
          with dw cb 1(4) evs show ?thesis by auto
        next
          case None
          then have r: "run_events cb s1 evs1 = (s', x)" using 1(4) evs cb by simp
          note ih = 1(2) [OF ext'[symmetric] refl refl a2_def c_def _ _ ce [symmetric] refl cb [symmetric] None d r]
          with dw cb None True \<open>check_size a2 _ = None\<close> show ?thesis
            by (cases x) auto
        qed
      qed
    qed
  qed
qed

section \<open>The observer's state\<close>

definition SSE_EVENT_TYPE_TELEMETRY_LIMIT :: nat where
  "SSE_EVENT_TYPE_TELEMETRY_LIMIT = 64"

text \<open>The injected callables: the terminal and output observers and the clock.\<close>

record observers =
  ob_terminal :: "(string option \<Rightarrow> bytes \<Rightarrow> json \<Rightarrow> bool) option"
  ob_output :: "((string \<times> json) list \<Rightarrow> bool) option"
  ob_clock :: "nat \<Rightarrow> rat"

record stats =
  ps_events :: nat
  ps_json_events :: nat
  ps_terminal_seen :: bool
  ps_completed_seen :: bool
  ps_done_seen :: bool
  ps_response_seen :: bool
  ps_output_seen :: bool
  ps_last_type :: "string option"
  ps_response_id :: "string option"
  ps_type_counts :: "(string, nat) dict"
  ps_truncated :: bool
  ps_started_at :: rat
  ps_first_byte_ms :: "int option"
  ps_first_event_ms :: "int option"
  ps_last_event_at :: "rat option"
  ps_max_gap_ms :: "int option"
  ps_last_gap_ms :: "int option"
  ps_terminal_ms :: "int option"
  ps_assembler :: assembler
  ps_eof :: "disposition option"
  ps_discarded :: nat
  ps_clock_reads :: nat

definition new_stats :: "observers \<Rightarrow> nat \<Rightarrow> int \<Rightarrow> sse_error + stats" where
  "new_stats ob reads max_frame =
     rbind (new_assembler max_frame) (\<lambda>a.
       Inr \<lparr>ps_events = 0, ps_json_events = 0, ps_terminal_seen = False, ps_completed_seen = False,
            ps_done_seen = False, ps_response_seen = False, ps_output_seen = False,
            ps_last_type = None, ps_response_id = None, ps_type_counts = [], ps_truncated = False,
            ps_started_at = ob_clock ob reads, ps_first_byte_ms = None, ps_first_event_ms = None,
            ps_last_event_at = None, ps_max_gap_ms = None, ps_last_gap_ms = None,
            ps_terminal_ms = None, ps_assembler = a, ps_eof = None, ps_discarded = 0,
            ps_clock_reads = reads + 1\<rparr>)"

definition elapsed_ms :: "rat \<Rightarrow> int" where
  "elapsed_ms v = (if v \<le> 0 then 0 else min (7 * 24 * 60 * 60 * 1000) \<lfloor>v * 1000\<rfloor>)"

definition record_event_type :: "string \<Rightarrow> stats \<Rightarrow> stats" where
  "record_event_type ty s =
     (case dict_get (ps_type_counts s) ty of
        Some n \<Rightarrow> s\<lparr>ps_type_counts := dict_set (ps_type_counts s) ty (n + 1)\<rparr>
      | None \<Rightarrow>
          (if length (ps_type_counts s) \<ge> SSE_EVENT_TYPE_TELEMETRY_LIMIT then s\<lparr>ps_truncated := True\<rparr>
           else s\<lparr>ps_type_counts := dict_set (ps_type_counts s) ty 1\<rparr>))"

section \<open>Observing one event\<close>

text \<open>\<open>_observe_event\<close> in the order of its statements: the clock, the event's name, the
  payload, the event type and the terminal.\<close>

definition observe_timing :: "rat \<Rightarrow> stats \<Rightarrow> stats" where
  "observe_timing now s =
     (let s1 = (if ps_first_event_ms s = None
                then s\<lparr>ps_first_event_ms := Some (elapsed_ms (now - ps_started_at s))\<rparr> else s);
          s2 = (case ps_last_event_at s1 of
                  None \<Rightarrow> s1
                | Some last_at \<Rightarrow>
                    (let gap_ms = elapsed_ms (now - last_at) in
                     s1\<lparr>ps_last_gap_ms := Some gap_ms,
                        ps_max_gap_ms := (case ps_max_gap_ms s1 of
                            None \<Rightarrow> Some gap_ms
                          | Some m \<Rightarrow> Some (if gap_ms > m then gap_ms else m))\<rparr>))
      in s2\<lparr>ps_last_event_at := Some now\<rparr>)"

definition event_name_of :: "sse_event \<Rightarrow> string option" where
  "event_name_of ev =
     (case ev_event ev of
        None \<Rightarrow> None
      | Some e \<Rightarrow> (let n = str_strip (utf8_replace e) in if n = [] then None else Some n))"

definition has_data_field :: "sse_event \<Rightarrow> bool" where
  "has_data_field ev \<longleftrightarrow> list_ex (\<lambda>l. sl_name l = Some ''data'') (ev_lines ev)"

definition response_id_of :: "(string \<times> json) list \<Rightarrow> string option" where
  "response_id_of payload =
     (case dict_get payload ''response'' of
        None \<Rightarrow> None
      | Some response \<Rightarrow>
          (case json_object response of
             None \<Rightarrow> None
           | Some kvs \<Rightarrow> non_empty_str (dict_get kvs ''id'')))"

definition observe_payload ::
  "observers \<Rightarrow> (string \<times> json) list \<Rightarrow> string option \<Rightarrow> stats \<Rightarrow> string option \<times> stats" where
  "observe_payload ob payload event_type s =
     (let s1 = s\<lparr>ps_json_events := ps_json_events s + 1\<rparr>;
          ty = (case non_empty_str (dict_get payload ''type'') of None \<Rightarrow> event_type | Some t \<Rightarrow> Some t);
          s2 = (case ob_output ob of
                  None \<Rightarrow> s1
                | Some f \<Rightarrow> if f payload then s1\<lparr>ps_output_seen := True\<rparr> else s1);
          s3 = (case response_id_of payload of None \<Rightarrow> s2 | Some i \<Rightarrow> s2\<lparr>ps_response_id := Some i\<rparr>)
      in (ty, s3))"

text \<open>The event type and the payload (Python's \<open>None\<close> is \<open>JNull\<close>), or the error that escapes.\<close>

definition classify_event ::
  "observers \<Rightarrow> string option \<Rightarrow> bytes \<Rightarrow> stats \<Rightarrow> (string option \<times> json) option \<times> stats" where
  "classify_event ob event_name data s =
     (if data = ''[DONE]'' then
        (Some (Some (case event_name of None \<Rightarrow> ''[DONE]'' | Some n \<Rightarrow> n), JNull), s\<lparr>ps_done_seen := True\<rparr>)
      else if data \<noteq> [] then
        (case load_bytes data of
           Int_Too_Long \<Rightarrow> (None, s)
         | Bad_Json \<Rightarrow> (Some (event_name, JNull), s)
         | Loaded v \<Rightarrow>
             (case json_object v of
                None \<Rightarrow> (Some (event_name, v), s)
              | Some kvs \<Rightarrow> (let (ty, s1) = observe_payload ob kvs event_name s in (Some (ty, v), s1))))
      else (Some (event_name, JNull), s))"

definition conclude_event ::
  "observers \<Rightarrow> rat \<Rightarrow> string option \<Rightarrow> bytes \<Rightarrow> json \<Rightarrow> string \<Rightarrow> stats \<Rightarrow> stats" where
  "conclude_event ob now event_name data payload ty s =
     (let s1 = record_event_type ty (s\<lparr>ps_last_type := Some ty\<rparr>);
          s2 = (if prefix ''response.'' ty then s1\<lparr>ps_response_seen := True\<rparr> else s1);
          s3 = (if ty = ''response.completed'' then s2\<lparr>ps_completed_seen := True\<rparr> else s2)
      in case ob_terminal ob of
           None \<Rightarrow> s3
         | Some f \<Rightarrow>
             (if f event_name data payload then
                s3\<lparr>ps_terminal_seen := True,
                   ps_terminal_ms := (case ps_terminal_ms s3 of
                       None \<Rightarrow> Some (elapsed_ms (now - ps_started_at s3))
                     | Some m \<Rightarrow> Some m)\<rparr>
              else s3))"

definition observe_event :: "observers \<Rightarrow> stats \<Rightarrow> sse_event \<Rightarrow> stats \<times> stats_error option" where
  "observe_event ob s ev =
     (let now = ob_clock ob (ps_clock_reads s);
          s1 = observe_timing now (s\<lparr>ps_clock_reads := ps_clock_reads s + 1\<rparr>);
          event_name = event_name_of ev
      in if event_name = None \<and> \<not> has_data_field ev then (s1, None)
         else let s2 = s1\<lparr>ps_events := ps_events s1 + 1\<rparr>
              in case classify_event ob event_name (ev_data ev) s2 of
                   (None, s3) \<Rightarrow> (s3, Some Json_Int_Error)
                 | (Some (None, payload), s3) \<Rightarrow> (s3, None)
                 | (Some (Some ty, payload), s3) \<Rightarrow>
                     (conclude_event ob now event_name (ev_data ev) payload ty s3, None))"

section \<open>The public operations\<close>

definition stop_error :: "stats_error stop \<Rightarrow> stats_error" where
  "stop_error e = (case e of Stop_Frame f \<Rightarrow> Frame_Error f | Stop_Callback x \<Rightarrow> x)"

definition observe_bytes :: "observers \<Rightarrow> stats \<Rightarrow> bytes \<Rightarrow> stats \<times> stats_error option" where
  "observe_bytes ob s chunk =
     (if ps_eof s = Some Size_Limit then (s, None)
      else let s1 = (if chunk \<noteq> [] \<and> ps_first_byte_ms s = None
                     then s\<lparr>ps_first_byte_ms :=
                               Some (elapsed_ms (ob_clock ob (ps_clock_reads s) - ps_started_at s)),
                            ps_clock_reads := ps_clock_reads s + 1\<rparr>
                     else s)
           in case feed_with (observe_event ob) s1 (ps_assembler s1) chunk of
                (s2, None, a) \<Rightarrow> (s2\<lparr>ps_assembler := a\<rparr>, None)
              | (s2, Some (Stop_Frame (Frame_Too_Large n m)), a) \<Rightarrow>
                  (s2\<lparr>ps_assembler := a, ps_eof := Some Size_Limit\<rparr>, Some (Frame_Error (Frame_Too_Large n m)))
              | (s2, Some e, a) \<Rightarrow> (s2\<lparr>ps_assembler := a\<rparr>, Some (stop_error e)))"

definition finalize_pending :: "observers \<Rightarrow> stats \<Rightarrow> stats \<times> stats_error option" where
  "finalize_pending ob s =
     (if ps_eof s \<noteq> None then (s, None)
      else case finish (ps_assembler s) of
             (Inl e, a) \<Rightarrow> (s\<lparr>ps_assembler := a\<rparr>, Some (Frame_Error e))
           | (Inr t, a) \<Rightarrow>
               (case run_events (observe_event ob) (s\<lparr>ps_assembler := a\<rparr>) (st_events t) of
                  (s1, Some x) \<Rightarrow> (s1, Some x)
                | (s1, None) \<Rightarrow>
                    (s1\<lparr>ps_eof := Some (st_disposition t), ps_discarded := st_discarded t\<rparr>, None)))"

definition pending_completion_bytes :: "stats \<Rightarrow> stats_error + bytes" where
  "pending_completion_bytes s =
     (if ps_eof s = Some Size_Limit then Inr []
      else case completion_bytes (ps_assembler s) of Inl e \<Rightarrow> Inl (Frame_Error e) | Inr c \<Rightarrow> Inr c)"

definition json_ms :: "int option \<Rightarrow> json" where
  "json_ms v = (case v of None \<Rightarrow> JNull | Some n \<Rightarrow> JInt n)"

definition stats_fields :: "stats \<Rightarrow> (string \<times> json) list" where
  "stats_fields s =
     (let event_types = sort (map fst (ps_type_counts s)) in
      [(''sse_events_streamed'', JInt (int (ps_events s))),
       (''sse_json_events_streamed'', JInt (int (ps_json_events s))),
       (''sse_terminal_event_seen'', JBool (ps_terminal_seen s)),
       (''sse_completed_event_seen'', JBool (ps_completed_seen s)),
       (''sse_done_sentinel_seen'', JBool (ps_done_seen s)),
       (''sse_response_event_seen'', JBool (ps_response_seen s)),
       (''sse_downstream_output_seen'', JBool (ps_output_seen s)),
       (''sse_event_types'', JArr (map JStr event_types)),
       (''sse_event_type_counts'',
          JObj (map (\<lambda>k. (k, JInt (int (the (dict_get (ps_type_counts s) k))))) event_types)),
       (''upstream_connect_timing'', JStr ''not_observed''),
       (''upstream_tls_timing'', JStr ''not_observed''),
       (''sse_first_byte_elapsed_ms'', json_ms (ps_first_byte_ms s)),
       (''sse_first_event_elapsed_ms'', json_ms (ps_first_event_ms s)),
       (''sse_last_inter_event_gap_ms'', json_ms (ps_last_gap_ms s)),
       (''sse_max_inter_event_gap_ms'', json_ms (ps_max_gap_ms s)),
       (''sse_terminal_elapsed_ms'', json_ms (ps_terminal_ms s))]
      @ (case ps_last_type s of None \<Rightarrow> [] | Some t \<Rightarrow> [(''sse_last_event_type'', JStr t)])
      @ (if ps_truncated s then [(''sse_event_types_truncated'', JBool True)] else [])
      @ (if ps_eof s = Some Incomplete
         then [(''sse_eof_disposition'', JStr ''incomplete''),
               (''sse_incomplete_bytes_discarded'', JInt (int (ps_discarded s)))]
         else []))"

end
