(* ===== verification/Sse_Stats_Properties.thy ===== *)
theory Sse_Stats_Properties
  imports Sse_Stats
begin

text \<open>
  The telemetry an observer can accumulate is bounded, the callback form of \<open>feed\<close> agrees
  with the plain one, and what the observer learns does not depend on the chunking.
\<close>

section \<open>A bounded ledger\<close>

definition ms_ok :: "int option \<Rightarrow> bool" where
  "ms_ok v \<longleftrightarrow> (case v of None \<Rightarrow> True | Some n \<Rightarrow> 0 \<le> n \<and> n \<le> 604800000)"

definition table_ok :: "(string, nat) dict \<Rightarrow> bool \<Rightarrow> nat \<Rightarrow> bool" where
  "table_ok d truncated n \<longleftrightarrow> distinct (map fst d) \<and> length d \<le> SSE_EVENT_TYPE_TELEMETRY_LIMIT
     \<and> (truncated \<longrightarrow> length d = SSE_EVENT_TYPE_TELEMETRY_LIMIT)
     \<and> sum_list (map snd d) \<le> n \<and> list_all (\<lambda>x. 0 < snd x) d"

definition gaps_ok :: "int option \<Rightarrow> int option \<Rightarrow> bool" where
  "gaps_ok l m \<longleftrightarrow> (case l of None \<Rightarrow> m = None | Some g \<Rightarrow> (case m of None \<Rightarrow> False | Some h \<Rightarrow> g \<le> h))"

definition stats_ok :: "stats \<Rightarrow> bool" where
  "stats_ok s \<longleftrightarrow>
     table_ok (ps_type_counts s) (ps_truncated s) (ps_events s)
     \<and> ps_json_events s \<le> ps_events s
     \<and> ms_ok (ps_first_byte_ms s) \<and> ms_ok (ps_first_event_ms s) \<and> ms_ok (ps_max_gap_ms s)
     \<and> ms_ok (ps_last_gap_ms s) \<and> ms_ok (ps_terminal_ms s)
     \<and> gaps_ok (ps_last_gap_ms s) (ps_max_gap_ms s)
     \<and> (ps_completed_seen s \<longrightarrow> ps_response_seen s)"

lemma elapsed_ms_bounds: "0 \<le> elapsed_ms v \<and> elapsed_ms v \<le> 604800000"
proof (cases "v \<le> 0")
  case False
  then have "0 \<le> \<lfloor>v * 1000\<rfloor>" by simp
  with False show ?thesis by (simp add: elapsed_ms_def)
qed (simp add: elapsed_ms_def)

lemma ms_ok_elapsed [simp]: "ms_ok (Some (elapsed_ms v))" "ms_ok None"
  using elapsed_ms_bounds [of v] by (simp_all add: ms_ok_def)

lemma table_ok_record:
  assumes "table_ok (ps_type_counts s) (ps_truncated s) n" "ps_events s = Suc n"
  shows "table_ok (ps_type_counts (record_event_type ty s)) (ps_truncated (record_event_type ty s)) (Suc n)"
proof -
  let ?d = "ps_type_counts s"
  have ok: "distinct (map fst ?d)" "length ?d \<le> 64" "ps_truncated s \<longrightarrow> length ?d = 64"
    "sum_list (map snd ?d) \<le> n" "\<And>x. x \<in> set ?d \<Longrightarrow> 0 < snd x"
    using assms(1) by (auto simp: table_ok_def SSE_EVENT_TYPE_TELEMETRY_LIMIT_def list_all_iff)
  have pos: "0 < snd x" if "x \<in> set (dict_set ?d ty v)" "0 < v" for v x
    using snd_dict_set [of ?d "\<lambda>n. 0 < n" v ty] ok(5) that by blast
  note rules = table_ok_def record_event_type_def SSE_EVENT_TYPE_TELEMETRY_LIMIT_def
    length_dict_set distinct_dict_set list_all_iff
  show ?thesis
  proof (cases "dict_get ?d ty")
    case None
    show ?thesis
    proof (cases "64 \<le> length ?d")
      case True
      with None ok show ?thesis by (auto simp: rules)
    next
      case False
      have "sum_list (map snd (dict_set ?d ty 1)) = sum_list (map snd ?d) + 1"
        using sum_dict_set [OF ok(1), of ty 1] None by simp
      with None False ok pos [where v=1] show ?thesis by (auto simp: rules)
    qed
  next
    case (Some m)
    have "sum_list (map snd (dict_set ?d ty (m + 1))) = sum_list (map snd ?d) + 1"
      using sum_dict_set [OF ok(1), of ty "m + 1"] Some by simp
    with Some ok pos [where v="m + 1"] show ?thesis by (auto simp: rules)
  qed
qed

lemma record_event_type_fields [simp]:
  "ps_events (record_event_type ty s) = ps_events s"
  "ps_json_events (record_event_type ty s) = ps_json_events s"
  "ps_terminal_seen (record_event_type ty s) = ps_terminal_seen s"
  "ps_completed_seen (record_event_type ty s) = ps_completed_seen s"
  "ps_done_seen (record_event_type ty s) = ps_done_seen s"
  "ps_response_seen (record_event_type ty s) = ps_response_seen s"
  "ps_output_seen (record_event_type ty s) = ps_output_seen s"
  "ps_last_type (record_event_type ty s) = ps_last_type s"
  "ps_response_id (record_event_type ty s) = ps_response_id s"
  "ps_started_at (record_event_type ty s) = ps_started_at s"
  "ps_first_byte_ms (record_event_type ty s) = ps_first_byte_ms s"
  "ps_first_event_ms (record_event_type ty s) = ps_first_event_ms s"
  "ps_last_event_at (record_event_type ty s) = ps_last_event_at s"
  "ps_max_gap_ms (record_event_type ty s) = ps_max_gap_ms s"
  "ps_last_gap_ms (record_event_type ty s) = ps_last_gap_ms s"
  "ps_terminal_ms (record_event_type ty s) = ps_terminal_ms s"
  "ps_assembler (record_event_type ty s) = ps_assembler s"
  "ps_eof (record_event_type ty s) = ps_eof s"
  by (simp_all add: record_event_type_def split: option.split)

lemma stats_ok_timing: "stats_ok s \<Longrightarrow> stats_ok (observe_timing now s)"
  by (auto simp: stats_ok_def observe_timing_def gaps_ok_def Let_def split: option.split)

lemma observe_payload_eq:
  "observe_payload ob kvs ty s =
     (case non_empty_str (dict_get kvs ''type'') of None \<Rightarrow> ty | Some t \<Rightarrow> Some t,
      s\<lparr>ps_json_events := ps_json_events s + 1,
        ps_output_seen := ps_output_seen s \<or> (case ob_output ob of None \<Rightarrow> False | Some f \<Rightarrow> f kvs),
        ps_response_id := (case response_id_of kvs of None \<Rightarrow> ps_response_id s | Some i \<Rightarrow> Some i)\<rparr>)"
  by (cases "response_id_of kvs"; cases "ob_output ob") (auto simp: observe_payload_def Let_def)

lemma classify_event_fields:
  assumes "classify_event ob name data s = (r, s')"
  shows "\<exists>j d out i. s' = s\<lparr>ps_json_events := j, ps_done_seen := d, ps_output_seen := out, ps_response_id := i\<rparr>
           \<and> j \<le> ps_json_events s + 1"
proof -
  have keep: "\<exists>j d out i. s = s\<lparr>ps_json_events := j, ps_done_seen := d, ps_output_seen := out, ps_response_id := i\<rparr>
           \<and> j \<le> ps_json_events s + 1"
    by (intro exI [of _ "ps_json_events s"] exI [of _ "ps_done_seen s"] exI [of _ "ps_output_seen s"]
        exI [of _ "ps_response_id s"]) simp
  consider (sentinel) "data = ''[DONE]''" | (obj) kvs where "load_bytes data = Loaded (JObj kvs)" "data \<noteq> ''[DONE]''" "data \<noteq> []"
    | (other) "s' = s" using assms
    by (cases "load_bytes data") (auto simp: classify_event_def split: if_splits option.splits)
  then show ?thesis
  proof cases
    case sentinel
    have "s' = s\<lparr>ps_json_events := ps_json_events s, ps_done_seen := True,
            ps_output_seen := ps_output_seen s, ps_response_id := ps_response_id s\<rparr>"
      using sentinel assms by (auto simp: classify_event_def)
    then show ?thesis by (intro exI conjI) (assumption, simp)
  next
    case obj
    obtain ty s1 where op: "observe_payload ob kvs name s = (ty, s1)" by (metis prod.exhaust)
    then have "s' = s1" using obj assms by (simp add: classify_event_def)
    with op have "s' = s\<lparr>ps_json_events := ps_json_events s + 1,
        ps_done_seen := ps_done_seen s, ps_output_seen := ps_output_seen s1, ps_response_id := ps_response_id s1\<rparr>"
      by (auto simp: observe_payload_eq)
    then show ?thesis by (intro exI conjI) (assumption, simp)
  next
    case other
    with keep show ?thesis by simp
  qed
qed

lemma conclude_event_ok:
  assumes "table_ok (ps_type_counts s) (ps_truncated s) n" "ps_events s = Suc n"
    and "ps_json_events s \<le> Suc n" "ms_ok (ps_first_byte_ms s)" "ms_ok (ps_first_event_ms s)"
    "ms_ok (ps_max_gap_ms s)" "ms_ok (ps_last_gap_ms s)" "ms_ok (ps_terminal_ms s)"
    "gaps_ok (ps_last_gap_ms s) (ps_max_gap_ms s)" "ps_completed_seen s \<longrightarrow> ps_response_seen s"
  shows "stats_ok (conclude_event ob now name data payload ty s)"
proof -
  let ?s = "s\<lparr>ps_last_type := Some ty\<rparr>"
  have "table_ok (ps_type_counts (record_event_type ty ?s)) (ps_truncated (record_event_type ty ?s)) (Suc n)"
    by (rule table_ok_record) (use assms in auto)
  then show ?thesis using assms(2-)
    by (auto simp: stats_ok_def conclude_event_def Let_def split: option.split)
qed

lemma table_ok_Suc: "table_ok d tr n \<Longrightarrow> table_ok d tr (Suc n)"
  by (auto simp: table_ok_def)

lemma stats_ok_event: "stats_ok s \<Longrightarrow> stats_ok (fst (observe_event ob s ev))"
proof -
  assume ok: "stats_ok s"
  define now where "now = ob_clock ob (ps_clock_reads s)"
  define s1 where "s1 = observe_timing now (s\<lparr>ps_clock_reads := ps_clock_reads s + 1\<rparr>)"
  have "stats_ok (s\<lparr>ps_clock_reads := ps_clock_reads s + 1\<rparr>)" using ok by (simp add: stats_ok_def)
  then have s1: "stats_ok s1" unfolding s1_def by (rule stats_ok_timing)
  obtain r s3 where cl: "classify_event ob (event_name_of ev) (ev_data ev) (s1\<lparr>ps_events := ps_events s1 + 1\<rparr>) = (r, s3)"
    by (metis prod.exhaust)
  have s3: "table_ok (ps_type_counts s3) (ps_truncated s3) (ps_events s1)" "ps_events s3 = Suc (ps_events s1)"
    "ps_json_events s3 \<le> Suc (ps_events s1)" "ms_ok (ps_first_byte_ms s3)" "ms_ok (ps_first_event_ms s3)"
    "ms_ok (ps_max_gap_ms s3)" "ms_ok (ps_last_gap_ms s3)" "ms_ok (ps_terminal_ms s3)"
    "gaps_ok (ps_last_gap_ms s3) (ps_max_gap_ms s3)" "ps_completed_seen s3 \<longrightarrow> ps_response_seen s3"
    using classify_event_fields [OF cl] s1 by (auto simp: stats_ok_def)
  then have "stats_ok s3" by (simp add: stats_ok_def table_ok_Suc)
  have oe: "observe_event ob s ev =
      (if event_name_of ev = None \<and> \<not> has_data_field ev then (s1, None)
       else case (r, s3) of
              (None, s3) \<Rightarrow> (s3, Some Json_Int_Error)
            | (Some (None, payload), s3) \<Rightarrow> (s3, None)
            | (Some (Some ty, payload), s3) \<Rightarrow>
                (conclude_event ob now (event_name_of ev) (ev_data ev) payload ty s3, None))"
    unfolding observe_event_def Let_def now_def [symmetric] s1_def [symmetric] cl ..
  show ?thesis
  proof (cases r)
    case None
    with s1 \<open>stats_ok s3\<close> show ?thesis by (simp add: oe)
  next
    case (Some p)
    obtain ty payload where "p = (ty, payload)" by (metis prod.exhaust)
    with Some s1 \<open>stats_ok s3\<close> conclude_event_ok [OF s3] show ?thesis by (cases ty) (simp_all add: oe)
  qed
qed

section \<open>Feeding with a callback is feeding, then running the callback\<close>

lemma feed_with_feed:
  assumes "feed a chunk = ((evs, err), a')" and "run_events cb s evs = (s', x)"
  shows "case x of
      None \<Rightarrow> feed_with cb s a chunk = (s', map_option Stop_Frame err, a')
    | Some y \<Rightarrow> \<exists>b. feed_with cb s a chunk = (s', Some (Stop_Callback y), b)"
proof (cases "require_open a")
  case (Some e)
  have "feed_with cb s a chunk = (s, Some (Stop_Frame e), a)" "feed a chunk = (([], Some e), a)"
    using Some by (simp_all add: feed_with_def feed_def)
  with assms show ?thesis by auto
next
  case None
  obtain evs1 er a1 where d: "drain False (a\<lparr>as_buffer := as_buffer a @ chunk\<rparr>) = (evs1, er, a1)"
    by (metis prod.exhaust)
  have evs: "evs1 = evs" using assms(1) None d by (auto simp: feed_def split: option.splits)
  note dw = drain_with_drain [OF d [unfolded evs] assms(2)]
  show ?thesis
  proof (cases x)
    case (Some y)
    with dw None show ?thesis by (auto simp: feed_with_def)
  next
    case None
    with dw assms(1) \<open>require_open a = None\<close> d show ?thesis
      by (auto simp: feed_def feed_with_def split: option.splits)
  qed
qed

lemma run_events_inv:
  assumes "\<And>s ev. I s \<Longrightarrow> I (fst (cb s ev))"
  shows "I s \<Longrightarrow> I (fst (run_events cb s evs))"
proof (induction evs arbitrary: s)
  case (Cons ev evs)
  have "I (fst (cb s ev))" using Cons.prems by (rule assms)
  with Cons.IH [of "fst (cb s ev)"] show ?case by (auto split: prod.split option.split)
qed simp

lemma feed_with_inv:
  assumes "\<And>s ev. I s \<Longrightarrow> I (fst (cb s ev))" and "I s"
  shows "I (fst (feed_with cb s a chunk))"
proof -
  obtain evs err a' where f: "feed a chunk = ((evs, err), a')" by (metis prod.exhaust)
  obtain s' x where r: "run_events cb s evs = (s', x)" by (metis prod.exhaust)
  have "I s'" using run_events_inv [of I cb s evs, OF assms] r by simp
  with feed_with_feed [OF f r] show ?thesis by (cases x) auto
qed

section \<open>Reachable observers\<close>

inductive reachable_stats :: "observers \<Rightarrow> stats \<Rightarrow> bool" for ob where
  stats_created: "new_stats ob n m = Inr s \<Longrightarrow> reachable_stats ob s"
| stats_observed: "reachable_stats ob s \<Longrightarrow> reachable_stats ob (fst (observe_bytes ob s chunk))"
| stats_finalized: "reachable_stats ob s \<Longrightarrow> reachable_stats ob (fst (finalize_pending ob s))"

lemma stats_ok_flags [simp]:
  "stats_ok (s\<lparr>ps_assembler := a\<rparr>) = stats_ok s" "stats_ok (s\<lparr>ps_eof := e\<rparr>) = stats_ok s"
  "stats_ok (s\<lparr>ps_discarded := n\<rparr>) = stats_ok s" "stats_ok (s\<lparr>ps_clock_reads := n\<rparr>) = stats_ok s"
  by (simp_all add: stats_ok_def)

lemma stats_ok_first_byte [simp]:
  "stats_ok s \<Longrightarrow> stats_ok (s\<lparr>ps_first_byte_ms := Some (elapsed_ms v)\<rparr>)"
  by (simp add: stats_ok_def)

lemma stats_ok_observe:
  assumes "stats_ok s"
  shows "stats_ok (fst (observe_bytes ob s chunk))"
proof -
  define s1 where "s1 = (if chunk \<noteq> [] \<and> ps_first_byte_ms s = None
                     then s\<lparr>ps_first_byte_ms :=
                               Some (elapsed_ms (ob_clock ob (ps_clock_reads s) - ps_started_at s)),
                            ps_clock_reads := ps_clock_reads s + 1\<rparr>
                     else s)"
  have s1: "stats_ok s1" using assms by (simp add: s1_def del: Suc_eq_plus1)
  obtain s2 r a where f: "feed_with (observe_event ob) s1 (ps_assembler s1) chunk = (s2, r, a)"
    by (metis prod.exhaust)
  have "stats_ok s2"
    using feed_with_inv [of stats_ok "observe_event ob", OF stats_ok_event s1, of "ps_assembler s1" chunk]
    by (simp add: f)
  with assms show ?thesis unfolding observe_bytes_def Let_def s1_def [symmetric] f
    by (auto split: option.split stop.split sse_error.split)
qed

lemma stats_ok_finalize:
  assumes "stats_ok s"
  shows "stats_ok (fst (finalize_pending ob s))"
proof -
  obtain r a where f: "finish (ps_assembler s) = (r, a)" by (metis prod.exhaust)
  have "stats_ok (s\<lparr>ps_assembler := a\<rparr>)" using assms by simp
  then have "stats_ok (fst (run_events (observe_event ob) (s\<lparr>ps_assembler := a\<rparr>) evs))" for evs
    by (intro run_events_inv [of stats_ok] stats_ok_event)
  with assms f show ?thesis
    by (auto simp: finalize_pending_def split: sum.split prod.split option.split) (metis fst_conv)+
qed

text \<open>The telemetry an observer collects is bounded whatever the upstream sends: at most 64
  event types are counted (each once, truncation is reported only when the table is full), the
  counts never exceed the events streamed, and every duration lies within seven days, with the
  last gap at most the largest one.\<close>
theorem stats_bounded:
  assumes "reachable_stats ob s"
  shows "stats_ok s"
  using assms
proof induction
  case (stats_created n m s)
  then show ?case
    by (auto simp: new_stats_def rbind_Inr_iff stats_ok_def table_ok_def gaps_ok_def)
qed (auto intro: stats_ok_observe stats_ok_finalize)

section \<open>What the observer learns does not depend on the chunks\<close>

text \<open>Everything but the durations: the counters, the flags, the names and the tables.\<close>

definition semantic ::
  "stats \<Rightarrow> (nat \<times> nat \<times> bool \<times> bool \<times> bool \<times> bool \<times> bool) \<times> string option \<times> string option
     \<times> (string, nat) dict \<times> bool" where
  "semantic s =
     ((ps_events s, ps_json_events s, ps_terminal_seen s, ps_completed_seen s, ps_done_seen s,
       ps_response_seen s, ps_output_seen s), ps_last_type s, ps_response_id s, ps_type_counts s,
      ps_truncated s)"

lemma semantic_timing [simp]:
  "semantic (observe_timing now s) = semantic s"
  "semantic (s\<lparr>ps_clock_reads := n\<rparr>) = semantic s"
  "semantic (s\<lparr>ps_first_byte_ms := v\<rparr>) = semantic s"
  "semantic (s\<lparr>ps_assembler := a\<rparr>) = semantic s"
  "semantic (s\<lparr>ps_eof := e\<rparr>) = semantic s"
  by (simp_all add: semantic_def observe_timing_def Let_def split: option.split)

lemma semantic_payload:
  assumes "semantic s = semantic t"
  shows "fst (observe_payload ob kvs ty s) = fst (observe_payload ob kvs ty t)"
    "semantic (snd (observe_payload ob kvs ty s)) = semantic (snd (observe_payload ob kvs ty t))"
  using assms by (simp_all add: observe_payload_eq semantic_def split: option.split)

lemma semantic_classify:
  assumes "semantic s = semantic t"
  shows "fst (classify_event ob name data s) = fst (classify_event ob name data t)
       \<and> semantic (snd (classify_event ob name data s)) = semantic (snd (classify_event ob name data t))"
proof -
  consider (sentinel) "data = ''[DONE]''" | (empty) "data = []"
    | (obj) v kvs where "data \<noteq> ''[DONE]''" "data \<noteq> []" "load_bytes data = Loaded v" "json_object v = Some kvs"
    | (val) v where "data \<noteq> ''[DONE]''" "data \<noteq> []" "load_bytes data = Loaded v" "json_object v = None"
    | (bad) "data \<noteq> ''[DONE]''" "data \<noteq> []" "load_bytes data = Bad_Json"
    | (long) "data \<noteq> ''[DONE]''" "data \<noteq> []" "load_bytes data = Int_Too_Long"
    by (metis load_outcome.exhaust option.exhaust)
  then show ?thesis
  proof cases
    case sentinel
    have "semantic (s\<lparr>ps_done_seen := True\<rparr>) = semantic (t\<lparr>ps_done_seen := True\<rparr>)"
      using assms by (simp add: semantic_def)
    with sentinel show ?thesis by (simp add: classify_event_def)
  next
    case obj
    then have eq: "classify_event ob name data u = (Some (fst (observe_payload ob kvs name u), v),
        snd (observe_payload ob kvs name u))" for u
      by (simp add: classify_event_def case_prod_beta Let_def)
    from semantic_payload [OF assms] show ?thesis by (simp add: eq)
  qed (simp_all add: classify_event_def assms)
qed

lemma semantic_conclude:
  assumes "semantic s = semantic t"
  shows "semantic (conclude_event ob now name data p ty s) = semantic (conclude_event ob now' name data p ty t)"
  using assms
  by (cases "ob_terminal ob"; cases "dict_get (ps_type_counts t) ty")
     (simp_all add: conclude_event_def semantic_def record_event_type_def Let_def)

lemma semantic_event:
  assumes "semantic s = semantic t"
  shows "semantic (fst (observe_event ob s ev)) = semantic (fst (observe_event ob t ev))
       \<and> snd (observe_event ob s ev) = snd (observe_event ob t ev)"
proof -
  define ns where "ns = ob_clock ob (ps_clock_reads s)"
  define nt where "nt = ob_clock ob (ps_clock_reads t)"
  define s1 where "s1 = observe_timing ns (s\<lparr>ps_clock_reads := ps_clock_reads s + 1\<rparr>)"
  define t1 where "t1 = observe_timing nt (t\<lparr>ps_clock_reads := ps_clock_reads t + 1\<rparr>)"
  define s2 where "s2 = s1\<lparr>ps_events := ps_events s1 + 1\<rparr>"
  define t2 where "t2 = t1\<lparr>ps_events := ps_events t1 + 1\<rparr>"
  have 1: "semantic s1 = semantic t1" using assms by (simp add: s1_def t1_def)
  then have 2: "semantic s2 = semantic t2" by (simp add: s2_def t2_def semantic_def)
  obtain r s3 where cs: "classify_event ob (event_name_of ev) (ev_data ev) s2 = (r, s3)" by (metis prod.exhaust)
  obtain r' t3 where ct: "classify_event ob (event_name_of ev) (ev_data ev) t2 = (r', t3)" by (metis prod.exhaust)
  have 3: "r' = r" "semantic s3 = semantic t3" using semantic_classify [OF 2, of ob "event_name_of ev" "ev_data ev"] by (simp_all add: cs ct)
  have oe: "observe_event ob s ev = (if event_name_of ev = None \<and> \<not> has_data_field ev then (s1, None)
       else case (r, s3) of (None, s3) \<Rightarrow> (s3, Some Json_Int_Error)
            | (Some (None, payload), s3) \<Rightarrow> (s3, None)
            | (Some (Some ty, payload), s3) \<Rightarrow>
                (conclude_event ob ns (event_name_of ev) (ev_data ev) payload ty s3, None))"
    unfolding observe_event_def Let_def ns_def [symmetric] s1_def [symmetric] s2_def [symmetric] cs ..
  have ot: "observe_event ob t ev = (if event_name_of ev = None \<and> \<not> has_data_field ev then (t1, None)
       else case (r, t3) of (None, s3) \<Rightarrow> (s3, Some Json_Int_Error)
            | (Some (None, payload), s3) \<Rightarrow> (s3, None)
            | (Some (Some ty, payload), s3) \<Rightarrow>
                (conclude_event ob nt (event_name_of ev) (ev_data ev) payload ty s3, None))"
    unfolding observe_event_def Let_def nt_def [symmetric] t1_def [symmetric] t2_def [symmetric] ct 3(1) ..
  from 1 3 semantic_conclude [OF 3(2)] show ?thesis
    by (auto simp: oe ot split: option.split prod.split)
qed

lemma semantic_run:
  "semantic s = semantic t \<Longrightarrow> run_events (observe_event ob) s evs = (s1, x) \<Longrightarrow>
   run_events (observe_event ob) t evs = (t1, y) \<Longrightarrow> semantic s1 = semantic t1 \<and> x = y"
proof (induction evs arbitrary: s t)
  case (Cons ev evs)
  obtain s2 u where s2: "observe_event ob s ev = (s2, u)" by (metis prod.exhaust)
  obtain t2 v where t2: "observe_event ob t ev = (t2, v)" by (metis prod.exhaust)
  have "semantic s2 = semantic t2" "u = v" using semantic_event [OF Cons.prems(1), of ob ev] s2 t2 by auto
  with Cons.IH [of s2 t2] Cons.prems s2 t2 show ?case by (cases u) auto
qed simp

text \<open>One call as a chunked decoder that delivers no items of its own.\<close>

definition observe_call ::
  "observers \<Rightarrow> stats \<Rightarrow> bytes \<Rightarrow> (sse_event list \<times> stats_error option) \<times> stats" where
  "observe_call ob s chunk = (let (s1, e) = observe_bytes ob s chunk in (([], e), s1))"

definition observing :: "stats \<Rightarrow> bool" where
  "observing s \<longleftrightarrow> ready (ps_assembler s) \<and> ps_eof s = None"

definition learned :: "stats \<Rightarrow> _" where
  "learned s = (semantic s, obs (ps_assembler s))"

text \<open>A call of \<open>observe_bytes\<close> in terms of \<open>feed\<close> and the run over its events.\<close>

lemma observe_call_cases:
  assumes "observing s"
  obtains evs err a t s1 x where "feed (ps_assembler s) chunk = ((evs, err), a)"
    "semantic t = semantic s" "run_events (observe_event ob) t evs = (s1, x)"
    "snd (fst (observe_call ob s chunk)) = None \<longleftrightarrow> x = None \<and> err = None"
    "ps_eof s1 = None"
    "x = None \<and> err = None \<longrightarrow> observe_call ob s chunk = (([], None), s1\<lparr>ps_assembler := a\<rparr>)"
proof -
  define t where "t = (if chunk \<noteq> [] \<and> ps_first_byte_ms s = None
                     then s\<lparr>ps_first_byte_ms :=
                               Some (elapsed_ms (ob_clock ob (ps_clock_reads s) - ps_started_at s)),
                            ps_clock_reads := ps_clock_reads s + 1\<rparr>
                     else s)"
  have t: "semantic t = semantic s" "ps_assembler t = ps_assembler s" "ps_eof t = None"
    using assms by (simp_all add: t_def observing_def)
  obtain evs err a where f: "feed (ps_assembler s) chunk = ((evs, err), a)" by (metis prod.exhaust)
  obtain s1 x where r: "run_events (observe_event ob) t evs = (s1, x)" by (metis prod.exhaust)
  have oc: "observe_call ob s chunk = (let (s1, e) = (case feed_with (observe_event ob) t (ps_assembler s) chunk of
                (s2, None, a) \<Rightarrow> (s2\<lparr>ps_assembler := a\<rparr>, None)
              | (s2, Some (Stop_Frame (Frame_Too_Large n m)), a) \<Rightarrow>
                  (s2\<lparr>ps_assembler := a, ps_eof := Some Size_Limit\<rparr>, Some (Frame_Error (Frame_Too_Large n m)))
              | (s2, Some e, a) \<Rightarrow> (s2\<lparr>ps_assembler := a\<rparr>, Some (stop_error e))) in (([], e), s1))"
    using assms unfolding observe_call_def observe_bytes_def t_def [symmetric] Let_def t(2)
    by (simp add: observing_def)
  have eof: "ps_eof s1 = None"
  proof -
    have "ps_eof (observe_timing now s) = ps_eof s" for now s
      by (simp add: observe_timing_def Let_def split: option.split)
    moreover have "ps_eof s' = ps_eof s" if "classify_event ob name data s = (r, s')" for name data s r s'
      using classify_event_fields [OF that] by auto
    moreover have "ps_eof (conclude_event ob now name data p ty s) = ps_eof s" for now name data p ty s
      by (simp add: conclude_event_def Let_def split: option.split)
    ultimately have "ps_eof (fst (observe_event ob s ev)) = ps_eof s" for s ev
      by (auto simp: observe_event_def Let_def split: option.split prod.split)
    then have "ps_eof (fst (run_events (observe_event ob) t evs)) = None"
      by (intro run_events_inv [of "\<lambda>s. ps_eof s = None"]) (auto simp: t(3))
    with r show ?thesis by simp
  qed
  note fw = feed_with_feed [OF f r]
  show ?thesis
  proof (rule that [OF f t(1) r _ eof])
    show "x = None \<and> err = None \<longrightarrow> observe_call ob s chunk = (([], None), s1\<lparr>ps_assembler := a\<rparr>)"
      using fw by (auto simp: oc)
    show "snd (fst (observe_call ob s chunk)) = None \<longleftrightarrow> x = None \<and> err = None"
      using fw by (cases x; cases err) (auto simp: oc split: sse_error.split)
  qed
qed

lemma observe_call_items [simp]: "fst (fst (observe_call ob s x)) = []"
  by (simp add: observe_call_def split: prod.split)

lemma observe_call_shape: obtains r s1 where "observe_call ob s x = (([], r), s1)"
  using observe_call_items [of ob s x] by (cases "observe_call ob s x") auto

lemma observe_call_result: "observe_call ob s x = ((e, r), s1) \<Longrightarrow> e = [] \<and> snd (fst (observe_call ob s x)) = r"
  using observe_call_items [of ob s x] by simp

interpretation observer: chunked_feed "observe_call ob" learned observing for ob
proof
  fix s x evs s1 assume s: "observing s" and x: "observe_call ob s x = ((evs, None), s1)"
  from s show "observing s1"
  proof (cases rule: observe_call_cases [where ob=ob and chunk=x])
    case (1 evs err a t s2 y)
    have "y = None" "err = None" using 1(4) x by auto
    with 1 x s show ?thesis by (auto simp: observing_def dest: settled_feed_ok)
  qed
next
  fix s assume s: "observing s"
  then have a: "ready (ps_assembler s)" by (simp add: observing_def)
  from s show "\<exists>s1. observe_call ob s [] = (([], None), s1) \<and> learned s1 = learned s"
  proof (cases rule: observe_call_cases [where ob=ob and chunk="[]"])
    case (1 evs err a' t s1 x)
    from sse.feed_nil [OF a] 1(1) have "evs = []" "err = None" "obs a' = obs (ps_assembler s)" by auto
    with 1 show ?thesis by (auto simp: learned_def)
  qed
next
  fix s x e1 s1 y e2 r2 s2
  assume s: "observing s" and x: "observe_call ob s x = ((e1, None), s1)"
    and y: "observe_call ob s1 y = ((e2, r2), s2)"
  have e: "e1 = []" "e2 = []" using observe_call_result x y by blast+
  obtain v a t u where 1: "feed (ps_assembler s) x = ((v, None), a)" "semantic t = semantic s"
    "run_events (observe_event ob) t v = (u, None)" "ps_eof u = None" "s1 = u\<lparr>ps_assembler := a\<rparr>"
    using s by (cases rule: observe_call_cases [where ob=ob and chunk=x]) (use x in auto)
  have s1: "observing s1" using s 1 by (auto simp: observing_def dest: settled_feed_ok)
  have a: "ready (ps_assembler s)" using s by (simp add: observing_def)
  from s1 show "\<exists>r s3. observe_call ob s (x @ y) = ((e1 @ e2, r), s3) \<and> (r = None) = (r2 = None)
        \<and> (r2 = None \<longrightarrow> learned s3 = learned s2)"
  proof (cases rule: observe_call_cases [where ob=ob and chunk=y])
    case (1 v2 err2 a2 t2 u2 z2)
    note y' = 1
    from sse.feed_append_ok [OF a \<open>feed (ps_assembler s) x = _\<close>, of y v2 err2 a2] 1(1) \<open>s1 = _\<close>
    obtain err3 a3 where f3: "feed (ps_assembler s) (x @ y) = ((v @ v2, err3), a3)"
      "(err3 = None) = (err2 = None)" "err2 = None \<longrightarrow> obs a3 = obs a2" by auto
    from s show ?thesis
    proof (cases rule: observe_call_cases [where ob=ob and chunk="x @ y"])
      case (1 v3 e3 b t3 u3 z3)
      have eq: "v3 = v @ v2" "e3 = err3" "b = a3" using 1(1) f3(1) by auto
      have t3: "semantic t3 = semantic t" using 1(2) \<open>semantic t = semantic s\<close> by simp
      obtain w z where w: "run_events (observe_event ob) t3 v = (w, z)" by (metis prod.exhaust)
      have wz: "z = None" "semantic w = semantic u"
        using semantic_run [OF t3 w \<open>run_events _ t v = _\<close>] by auto
      have "run_events (observe_event ob) w v2 = (u3, z3)" using 1(3) w wz eq by (simp add: run_events_append)
      moreover have "semantic w = semantic t2" using wz y'(2) \<open>s1 = _\<close> by simp
      ultimately have "semantic u3 = semantic u2" "z3 = z2" using semantic_run y'(3) by blast+
      moreover obtain r s3 where call: "observe_call ob s (x @ y) = (([], r), s3)"
        by (rule observe_call_shape)
      ultimately show ?thesis using 1(4,6) y'(4,6) y e f3 eq
        by (cases "z2 = None \<and> err2 = None") (auto simp: learned_def)
    qed
  qed
next
  fix s x e1 e s1 y
  assume s: "observing s" and x: "observe_call ob s x = ((e1, Some e), s1)"
  have e: "e1 = []" using observe_call_result x by blast
  have a: "ready (ps_assembler s)" using s by (simp add: observing_def)
  from s show "\<exists>e' s3. observe_call ob s (x @ y) = ((e1, Some e'), s3)"
  proof (cases rule: observe_call_cases [where ob=ob and chunk=x])
    case (1 v err b t u z)
    note x' = 1
    have bad: "z \<noteq> None \<or> err \<noteq> None" using 1(4) x by auto
    from s show ?thesis
    proof (cases rule: observe_call_cases [where ob=ob and chunk="x @ y"])
      case (1 v3 e3 b3 t3 u3 z3)
      have t3: "semantic t3 = semantic t" using 1(2) x'(2) by simp
      have "z3 \<noteq> None \<or> e3 \<noteq> None"
      proof (cases err)
        case (Some q)
        with sse.feed_append_err [OF a x'(1) [unfolded Some], of y] 1(1) show ?thesis by auto
      next
        case None
        then have z: "z \<noteq> None" using bad by simp
        obtain v2 err2 b2 where "feed b y = ((v2, err2), b2)" by (metis prod.exhaust)
        from sse.feed_append_ok [OF a x'(1) [unfolded None] this] 1(1) have v3: "v3 = v @ v2" by auto
        obtain w k where w: "run_events (observe_event ob) t3 v = (w, k)" by (metis prod.exhaust)
        with semantic_run [OF t3 w x'(3)] z 1(3) v3 show ?thesis by (auto simp: run_events_append)
      qed
      with 1(4) have "snd (fst (observe_call ob s (x @ y))) \<noteq> None" by simp
      moreover obtain r s3 where call: "observe_call ob s (x @ y) = (([], r), s3)"
        by (rule observe_call_shape)
      ultimately show ?thesis using e by auto
    qed
  qed
qed

text \<open>C23: What the observer learns of a stream (counters, flags, last type, response id, type table)
  does not depend on how the transport cut it into chunks, nor on the clock: observing the chunks
  one by one raises if and only if observing their concatenation does, and when it does not the two
  observers have learned the same and hold the same pending bytes.\<close>
theorem observer_chunk_independent:
  assumes "observing s" and "feed_chunks (observe_call ob) s cs = ((evs, r), s1)"
  shows "\<exists>r' s2. observe_call ob s (concat cs) = ((evs, r'), s2) \<and> (r' = None \<longleftrightarrow> r = None)
           \<and> (r = None \<longrightarrow> learned s2 = learned s1)"
  using assms by (rule observer.feed_chunks_concat)

section \<open>Witnesses\<close>

definition demo_observers :: observers where
  "demo_observers = \<lparr>ob_terminal = Some (\<lambda>n d p. n = Some ''response.completed''),
     ob_output = None, ob_clock = (\<lambda>n. of_nat n / 4)\<rparr>"

definition demo_stats :: stats where
  "demo_stats = (case new_stats demo_observers 0 256 of Inr s \<Rightarrow> s | Inl _ \<Rightarrow> undefined)"

definition demo_chunks :: "bytes list" where
  "demo_chunks = [''data: [DO'', ''NE]'' @ [LF, LF]]"

lemma demo_stats_new: "new_stats demo_observers 0 256 = Inr demo_stats"
  by (simp add: demo_stats_def new_stats_def new_assembler_def)

lemma demo_observing: "observing demo_stats"
proof -
  have "ps_assembler demo_stats = \<lparr>as_max = 256, as_buffer = [], as_line_start = 0, as_scan_offset = 0,
      as_frame_raw = [], as_lines = [], as_at_start = True, as_closed = None\<rparr>" "ps_eof demo_stats = None"
    by (simp_all add: demo_stats_def new_stats_def new_assembler_def)
  moreover have "settled (ps_assembler demo_stats)"
    by (rule settled_new [of 256]) (simp add: new_assembler_def calculation)
  ultimately show ?thesis by (simp add: observing_def ready_def)
qed

theorem stats_bounded_witness: "stats_ok (fst (observe_bytes demo_observers demo_stats (concat demo_chunks)))"
  by (intro stats_bounded [of demo_observers] stats_observed stats_created [OF demo_stats_new])

theorem observer_chunk_independent_witness:
  "\<exists>s1 s2. feed_chunks (observe_call demo_observers) demo_stats demo_chunks = (([], None), s1)
     \<and> observe_call demo_observers demo_stats (concat demo_chunks) = (([], None), s2)
     \<and> learned s2 = learned s1"
proof -
  obtain evs r s1 where run: "feed_chunks (observe_call demo_observers) demo_stats demo_chunks = ((evs, r), s1)"
    by (metis prod.exhaust)
  have "snd (fst (feed_chunks (observe_call demo_observers) demo_stats demo_chunks)) = None"
    "fst (fst (feed_chunks (observe_call demo_observers) demo_stats demo_chunks)) = []"
    by code_simp+
  with observer_chunk_independent [OF demo_observing run] run show ?thesis by auto
qed

end
