(* ===== verification/Stream_Commit.thy ===== *)
theory Stream_Commit
  imports Sse_Stats_Properties
begin

text \<open>
  \<open>src-python/gateway_sse.py\<close>, second half: \<open>DownstreamStreamCommit\<close>, the owner of every
  byte written to the client of a stream, with the relay's writers that go through it
  (\<open>gateway_relay.py\<close>) and the synthetic failure writer
  (\<open>gateway_exchange_bindings.py\<close>).

  What the object does to the outside world is a trace of effects.  What the world
  answers (does the n-th write, flush or header block fail?) is given by \<open>seam_env\<close>.
  An upstream response is a handle.  The deferred-header callback is the relay's
  \<open>send_downstream_response_headers_once\<close>; its flag \<open>headers_sent\<close> is part of the state.
\<close>

section \<open>State\<close>

record os_error =
  oe_name :: string
  oe_text :: string

datatype emit_outcome = Emit_Ok | Write_Failed os_error | Flush_Failed os_error

datatype purpose = Body | Completion

record usage_context =
  uc_request_id :: "string option"
  uc_model :: "string option"
  uc_upstream :: string
  uc_upstream_format :: string
  uc_inbound_format :: string

datatype effect =
    Emit purpose bytes emit_outcome
  | Send_Headers int "os_error option"
  | Mark_Started
  | Close_Down
  | Close_Up nat
  | Shorten nat rat
  | Diagnose bool
  | Usage usage_context bytes

text \<open>The exceptions handed to \<open>commit_terminal_failure\<close>: the frame limit or any other.\<close>

datatype failure = Size_Limit_Failure | Other_Failure string

record seam_env =
  se_emit :: "nat \<Rightarrow> emit_outcome"
  se_headers :: "nat \<Rightarrow> os_error option"
  se_can_shorten :: "nat \<Rightarrow> bool"
  se_detail :: "os_error \<Rightarrow> string"

type_synonym failure_writer =
  "failure \<Rightarrow> int \<Rightarrow> string option \<Rightarrow> string \<Rightarrow> string option \<Rightarrow> bytes"

record seam =
  sc_upstream :: "nat option"
  sc_upstream_name :: string
  sc_model :: "string option"
  sc_request_id :: "string option"
  sc_inbound_format :: string
  sc_upstream_format :: string
  sc_usage_callback :: bool
  sc_synthetic :: "failure_writer option"
  sc_diagnostic :: bool
  sc_drain_timeout :: "rat option"
  sc_max_frame :: int
  sc_observers :: observers
  sc_stats :: stats
  sc_terminal_observed :: bool
  sc_terminal_committed :: bool
  sc_closed :: bool
  sc_output_started :: bool
  sc_content_exposed :: bool
  sc_timeout_shortened :: bool
  sc_lines :: nat
  sc_bytes :: nat
  sc_last_byte_at :: "rat option"
  sc_last_error :: "os_error option"
  sc_last_completion :: bytes
  sc_headers_committed :: bool
  sc_deferred :: "(int \<times> bool) option"
  sc_emits :: nat
  sc_header_sends :: nat
  sc_trace :: "effect list"

definition new_seam ::
  "nat option \<Rightarrow> string \<Rightarrow> string option \<Rightarrow> string option \<Rightarrow> string \<Rightarrow> string \<Rightarrow> bool \<Rightarrow>
   failure_writer option \<Rightarrow> bool \<Rightarrow> rat option \<Rightarrow> int \<Rightarrow> observers \<Rightarrow> sse_error + seam" where
  "new_seam upstream upstream_name model request_id inbound_format upstream_format usage_callback
     synthetic diagnostic drain_timeout max_frame ob =
     rbind (new_stats ob 0 max_frame) (\<lambda>st.
       Inr \<lparr>sc_upstream = upstream, sc_upstream_name = upstream_name, sc_model = model,
            sc_request_id = request_id, sc_inbound_format = inbound_format,
            sc_upstream_format = upstream_format, sc_usage_callback = usage_callback,
            sc_synthetic = synthetic, sc_diagnostic = diagnostic, sc_drain_timeout = drain_timeout,
            sc_max_frame = max_frame, sc_observers = ob, sc_stats = st, sc_terminal_observed = False,
            sc_terminal_committed = False, sc_closed = False, sc_output_started = False,
            sc_content_exposed = False, sc_timeout_shortened = False, sc_lines = 0, sc_bytes = 0,
            sc_last_byte_at = None, sc_last_error = None, sc_last_completion = [],
            sc_headers_committed = False, sc_deferred = None, sc_emits = 0, sc_header_sends = 0,
            sc_trace = []\<rparr>)"

section \<open>Queries\<close>

datatype close_phase = After_Terminal | During_Event | Before_Output

definition close_phase :: "seam \<Rightarrow> close_phase" where
  "close_phase s =
     (if sc_terminal_committed s then After_Terminal
      else if sc_output_started s then During_Event
      else Before_Output)"

definition content_exposed :: "seam \<Rightarrow> bool" where
  "content_exposed s \<longleftrightarrow> sc_content_exposed s \<or> sc_output_started s"

definition terminal_seen :: "seam \<Rightarrow> bool" where
  "terminal_seen s \<longleftrightarrow> ps_terminal_seen (sc_stats s)"

definition stats_of :: "seam \<Rightarrow> (stats_error + (string \<times> json) list) \<times> seam" where
  "stats_of s =
     (case finalize_pending (sc_observers s) (sc_stats s) of
        (st, Some e) \<Rightarrow> (Inl e, s\<lparr>sc_stats := st\<rparr>)
      | (st, None) \<Rightarrow> (Inr (stats_fields st), s\<lparr>sc_stats := st\<rparr>))"

definition counters :: "seam \<Rightarrow> nat \<times> nat \<times> rat option" where
  "counters s = (sc_lines s, sc_bytes s, sc_last_byte_at s)"

section \<open>Private operations\<close>

definition log_effect :: "effect \<Rightarrow> seam \<Rightarrow> seam" where
  "log_effect e s = s\<lparr>sc_trace := sc_trace s @ [e]\<rparr>"

definition emit_error :: "emit_outcome \<Rightarrow> os_error option" where
  "emit_error out = (case out of Emit_Ok \<Rightarrow> None | Write_Failed e \<Rightarrow> Some e | Flush_Failed e \<Rightarrow> Some e)"

definition emit_bytes :: "seam_env \<Rightarrow> purpose \<Rightarrow> bytes \<Rightarrow> seam \<Rightarrow> os_error option \<times> seam" where
  "emit_bytes env p data s =
     (let out = se_emit env (sc_emits s) in
      (emit_error out, log_effect (Emit p data out) (s\<lparr>sc_emits := sc_emits s + 1\<rparr>)))"

definition close_upstream :: "seam \<Rightarrow> seam" where
  "close_upstream s = (case sc_upstream s of None \<Rightarrow> s | Some r \<Rightarrow> log_effect (Close_Up r) s)"

definition close_seam :: "seam \<Rightarrow> seam" where
  "close_seam s =
     (if sc_closed s then s
      else close_upstream (log_effect Close_Down (s\<lparr>sc_closed := True\<rparr>)))"

definition cancel_seam :: "seam \<Rightarrow> seam" where
  "cancel_seam s = close_seam s"

definition fail_write :: "os_error \<Rightarrow> seam \<Rightarrow> seam" where
  "fail_write e s = close_seam (s\<lparr>sc_last_error := Some e\<rparr>)"

definition attach_upstream :: "nat \<Rightarrow> seam \<Rightarrow> seam" where
  "attach_upstream r s =
     (if sc_closed s then log_effect (Close_Up r) s else s\<lparr>sc_upstream := Some r\<rparr>)"

definition set_upstream_format :: "string \<Rightarrow> seam \<Rightarrow> seam" where
  "set_upstream_format f s =
     (if sc_output_started s \<or> sc_terminal_committed s then s else s\<lparr>sc_upstream_format := f\<rparr>)"

definition mark_downstream_content_exposed :: "seam \<Rightarrow> seam" where
  "mark_downstream_content_exposed s = s\<lparr>sc_content_exposed := True\<rparr>"

definition replace_observers :: "observers \<Rightarrow> seam \<Rightarrow> sse_error + seam" where
  "replace_observers ob s =
     rbind (new_stats ob (ps_clock_reads (sc_stats s)) (sc_max_frame s)) (\<lambda>st.
       Inr (s\<lparr>sc_observers := ob, sc_stats := st\<rparr>))"

definition set_terminal_observer ::
  "(string option \<Rightarrow> bytes \<Rightarrow> json \<Rightarrow> bool) option \<Rightarrow> seam \<Rightarrow> sse_error + seam" where
  "set_terminal_observer f s = replace_observers (sc_observers s\<lparr>ob_terminal := f\<rparr>) s"

definition set_output_observer ::
  "((string \<times> json) list \<Rightarrow> bool) option \<Rightarrow> seam \<Rightarrow> sse_error + seam" where
  "set_output_observer f s = replace_observers (sc_observers s\<lparr>ob_output := f\<rparr>) s"

definition set_usage_line_callback :: "bool \<Rightarrow> seam \<Rightarrow> seam" where
  "set_usage_line_callback present s = s\<lparr>sc_usage_callback := present\<rparr>"

definition set_synthetic_terminal_failure_callback :: "failure_writer option \<Rightarrow> seam \<Rightarrow> seam" where
  "set_synthetic_terminal_failure_callback f s = s\<lparr>sc_synthetic := f\<rparr>"

definition set_ensure_headers_committed_callback :: "(int \<times> bool) option \<Rightarrow> seam \<Rightarrow> seam" where
  "set_ensure_headers_committed_callback cb s =
     s\<lparr>sc_deferred := (if sc_headers_committed s then None else cb)\<rparr>"

definition observe_diagnostic :: "bool \<Rightarrow> seam \<Rightarrow> seam" where
  "observe_diagnostic forwarded s = (if sc_diagnostic s then log_effect (Diagnose forwarded) s else s)"

definition record_terminal :: "seam_env \<Rightarrow> seam \<Rightarrow> seam" where
  "record_terminal env s =
     (if sc_timeout_shortened s then s
      else let s1 = (case (sc_drain_timeout s, sc_upstream s) of
                       (Some timeout, Some r) \<Rightarrow>
                         if se_can_shorten env r then log_effect (Shorten r timeout) s else s
                     | _ \<Rightarrow> s)
           in s1\<lparr>sc_timeout_shortened := True\<rparr>)"

definition observe_line :: "bytes \<Rightarrow> seam \<Rightarrow> (stats_error + bool) \<times> seam" where
  "observe_line line s =
     (let st = sc_stats s;
          now = ob_clock (sc_observers s) (ps_clock_reads st);
          (st1, err) = observe_bytes (sc_observers s) (st\<lparr>ps_clock_reads := ps_clock_reads st + 1\<rparr>) line;
          s1 = s\<lparr>sc_last_byte_at := Some now, sc_stats := st1\<rparr>
      in case err of
           Some e \<Rightarrow> (Inl e, s1)
         | None \<Rightarrow>
             (if ps_terminal_seen st1 \<and> \<not> sc_terminal_observed s1
              then (Inr True, s1\<lparr>sc_terminal_observed := True\<rparr>)
              else (Inr False, s1)))"

definition seal_terminal :: "seam_env \<Rightarrow> seam \<Rightarrow> seam" where
  "seal_terminal env s =
     (let s1 = observe_diagnostic True (s\<lparr>sc_terminal_committed := True\<rparr>);
          s2 = record_terminal env s1
      in log_effect Close_Down (s2\<lparr>sc_closed := True\<rparr>))"

section \<open>Committing\<close>

definition commit_headers :: "seam_env \<Rightarrow> int \<Rightarrow> seam \<Rightarrow> bool \<times> seam" where
  "commit_headers env status s =
     (if sc_headers_committed s then (True, s\<lparr>sc_deferred := None\<rparr>)
      else if sc_closed s \<or> sc_terminal_committed s then (False, s)
      else let out = se_headers env (sc_header_sends s);
               s1 = log_effect (Send_Headers status out) (s\<lparr>sc_header_sends := sc_header_sends s + 1\<rparr>)
           in case out of
                Some e \<Rightarrow> (False, fail_write e s1)
              | None \<Rightarrow> (True, s1\<lparr>sc_headers_committed := True, sc_deferred := None\<rparr>))"

text \<open>The relay's deferred callback \<open>send_downstream_response_headers_once\<close>.\<close>

definition send_downstream_response_headers_once :: "seam_env \<Rightarrow> int \<times> bool \<Rightarrow> seam \<Rightarrow> bool \<times> seam" where
  "send_downstream_response_headers_once env cb s =
     (case cb of (status, headers_sent) \<Rightarrow>
        (if headers_sent then (True, s)
         else case commit_headers env status s of
                (False, s1) \<Rightarrow> (False, s1)
              | (True, s1) \<Rightarrow> (True, log_effect Mark_Started s1)))"

definition ensure_headers_committed_before_write :: "seam_env \<Rightarrow> seam \<Rightarrow> bool \<times> seam" where
  "ensure_headers_committed_before_write env s =
     (if sc_headers_committed s then (True, s\<lparr>sc_deferred := None\<rparr>)
      else case sc_deferred s of
             None \<Rightarrow> (True, s)
           | Some cb \<Rightarrow>
               (case send_downstream_response_headers_once env cb s of
                  (False, s1) \<Rightarrow> (False, s1)
                | (True, s1) \<Rightarrow> (True, s1\<lparr>sc_deferred := None\<rparr>)))"

definition usage_context_of :: "seam \<Rightarrow> usage_context" where
  "usage_context_of s =
     \<lparr>uc_request_id = sc_request_id s, uc_model = sc_model s, uc_upstream = sc_upstream_name s,
      uc_upstream_format = sc_upstream_format s, uc_inbound_format = sc_inbound_format s\<rparr>"

definition usage_line :: "bytes \<Rightarrow> seam \<Rightarrow> seam" where
  "usage_line line s =
     (if sc_usage_callback s then log_effect (Usage (usage_context_of s) line) s else s)"

text \<open>The part both commits share: emit, count, remember the completion, seal.\<close>

definition emit_and_count ::
  "seam_env \<Rightarrow> bool \<Rightarrow> bool \<Rightarrow> bytes \<Rightarrow> seam \<Rightarrow> (stats_error + bool) \<times> seam" where
  "emit_and_count env observe terminal_now data s =
     (case emit_bytes env Body data s of
        (Some e, s1) \<Rightarrow> (Inr False, fail_write e s1)
      | (None, s1) \<Rightarrow>
          (let s2 = s1\<lparr>sc_output_started := True, sc_lines := sc_lines s1 + 1,
                       sc_bytes := sc_bytes s1 + length data\<rparr>
           in if \<not> observe then (Inr True, if terminal_now then seal_terminal env s2 else s2)
              else case pending_completion_bytes (sc_stats s2) of
                     Inl e \<Rightarrow> (Inl e, s2)
                   | Inr c \<Rightarrow>
                       (let s3 = s2\<lparr>sc_last_completion := c\<rparr>
                        in (Inr True, if terminal_now then seal_terminal env s3 else s3))))"

definition commit_data :: "seam_env \<Rightarrow> bytes \<Rightarrow> seam \<Rightarrow> (stats_error + bool) \<times> seam" where
  "commit_data env line s =
     (if sc_closed s then (Inr False, s)
      else if line = [] then (Inr True, s)
      else if sc_terminal_committed s then (Inr False, s)
      else case ensure_headers_committed_before_write env s of
             (False, s1) \<Rightarrow> (Inr False, s1)
           | (True, s1) \<Rightarrow>
               (case observe_line line s1 of
                  (Inl e, s2) \<Rightarrow> (Inl e, s2)
                | (Inr terminal_now, s2) \<Rightarrow>
                    (let s3 = (if terminal_now then observe_diagnostic False s2 else s2)
                     in case emit_and_count env True terminal_now line s3 of
                          (Inr True, s4) \<Rightarrow> (Inr True, usage_line line s4)
                        | r \<Rightarrow> r)))"

definition commit_sse_bytes :: "seam_env \<Rightarrow> bytes \<Rightarrow> bool \<Rightarrow> seam \<Rightarrow> (stats_error + bool) \<times> seam" where
  "commit_sse_bytes env data observe s =
     (if sc_closed s then (Inr False, s)
      else if data = [] then (Inr True, s)
      else if sc_terminal_committed s then (Inr False, s)
      else case ensure_headers_committed_before_write env s of
             (False, s1) \<Rightarrow> (Inr False, s1)
           | (True, s1) \<Rightarrow>
               (if \<not> observe then emit_and_count env False False data s1
                else case observe_line data s1 of
                       (Inl e, s2) \<Rightarrow> (Inl e, s2)
                     | (Inr terminal_now, s2) \<Rightarrow>
                         emit_and_count env True terminal_now data
                           (if terminal_now then observe_diagnostic False s2 else s2)))"

type_synonym failure_result = "stats_error + (bool \<times> string option \<times> string option)"

text \<open>\<open>responses_synthetic_terminal_failure\<close>: the event goes through the same seam.\<close>

definition responses_synthetic_terminal_failure ::
  "seam_env \<Rightarrow> bytes \<Rightarrow> seam \<Rightarrow> failure_result \<times> seam" where
  "responses_synthetic_terminal_failure env event s =
     (case commit_sse_bytes env event True s of
        (Inl e, s1) \<Rightarrow> (Inl e, s1)
      | (Inr True, s1) \<Rightarrow> (Inr (True, None, None), s1)
      | (Inr False, s1) \<Rightarrow>
          (let write_exc = (case sc_last_error s1 of
                              Some e \<Rightarrow> e
                            | None \<Rightarrow> \<lparr>oe_name = ''OSError'', oe_text = ''downstream closed''\<rparr>)
           in (Inr (False, Some (oe_name write_exc), Some (se_detail env write_exc)), s1)))"

definition finish_pending_frame ::
  "seam_env \<Rightarrow> failure \<Rightarrow> seam \<Rightarrow> (stats_error + os_error option) \<times> seam" where
  "finish_pending_frame env exc s =
     (case (if exc = Size_Limit_Failure then Inr (sc_last_completion s)
            else pending_completion_bytes (sc_stats s)) of
        Inl e \<Rightarrow> (Inl e, s)
      | Inr completion \<Rightarrow>
          (if completion = [] then (Inr None, s)
           else case emit_bytes env Completion completion s of
                  (Some e, s1) \<Rightarrow> (Inr (Some e), s1)
                | (None, s1) \<Rightarrow>
                    (if exc = Size_Limit_Failure then (Inr None, s1)
                     else case observe_bytes (sc_observers s1) (sc_stats s1) completion of
                            (st, Some e) \<Rightarrow> (Inl e, s1\<lparr>sc_stats := st\<rparr>)
                          | (st, None) \<Rightarrow> (Inr None, s1\<lparr>sc_stats := st\<rparr>))))"

definition commit_terminal_failure :: "seam_env \<Rightarrow> failure \<Rightarrow> int \<Rightarrow> seam \<Rightarrow> failure_result \<times> seam" where
  "commit_terminal_failure env exc status s =
     (if sc_closed s \<or> sc_terminal_committed s then (Inr (False, None, None), s)
      else case sc_synthetic s of
        None \<Rightarrow> (Inr (False, None, None), s)
      | Some write_failure \<Rightarrow>
          (case ensure_headers_committed_before_write env s of
             (False, s1) \<Rightarrow> (Inr (False, None, None), s1)
           | (True, s1) \<Rightarrow>
               (case finish_pending_frame env exc s1 of
                  (Inl e, s2) \<Rightarrow> (Inl e, s2)
                | (Inr (Some e), s2) \<Rightarrow> (Inr (False, Some (oe_name e), Some (se_detail env e)), fail_write e s2)
                | (Inr None, s2) \<Rightarrow>
                    (case responses_synthetic_terminal_failure env
                            (write_failure exc status (ps_response_id (sc_stats s2))
                               (sc_upstream_name s2) (sc_model s2)) s2 of
                       (Inr (True, w), s3) \<Rightarrow>
                         (Inr (True, w), log_effect Close_Down (s3\<lparr>sc_terminal_committed := True, sc_closed := True\<rparr>))
                     | r \<Rightarrow> r))))"

end
