(* ===== verification/Stream_Commit_Properties.thy ===== *)
theory Stream_Commit_Properties
  imports Stream_Commit
begin

text \<open>
  The stream-commit seam as a transition system: every public operation is one step, and the
  invariants hold in every state a request can reach.
\<close>

section \<open>Steps\<close>

datatype seam_op =
    Op_Data bytes
  | Op_Bytes bytes bool
  | Op_Headers int
  | Op_Failure failure int
  | Op_Close
  | Op_Cancel
  | Op_Attach nat
  | Op_Set_Format string
  | Op_Mark_Exposed
  | Op_Set_Deferred "(int \<times> bool) option"
  | Op_Set_Usage bool
  | Op_Set_Synthetic "failure_writer option"
  | Op_Set_Terminal "(string option \<Rightarrow> bytes \<Rightarrow> json \<Rightarrow> bool) option"
  | Op_Set_Output "((string \<times> json) list \<Rightarrow> bool) option"
  | Op_Stats

definition or_same :: "sse_error + seam \<Rightarrow> seam \<Rightarrow> seam" where
  "or_same r s = (case r of Inl _ \<Rightarrow> s | Inr s' \<Rightarrow> s')"

fun seam_step :: "seam_env \<Rightarrow> seam_op \<Rightarrow> seam \<Rightarrow> seam" where
  "seam_step env (Op_Data line) s = snd (commit_data env line s)"
| "seam_step env (Op_Bytes data ob) s = snd (commit_sse_bytes env data ob s)"
| "seam_step env (Op_Headers status) s = snd (commit_headers env status s)"
| "seam_step env (Op_Failure exc status) s = snd (commit_terminal_failure env exc status s)"
| "seam_step env Op_Close s = close_seam s"
| "seam_step env Op_Cancel s = cancel_seam s"
| "seam_step env (Op_Attach r) s = attach_upstream r s"
| "seam_step env (Op_Set_Format f) s = set_upstream_format f s"
| "seam_step env Op_Mark_Exposed s = mark_downstream_content_exposed s"
| "seam_step env (Op_Set_Deferred cb) s = set_ensure_headers_committed_callback cb s"
| "seam_step env (Op_Set_Usage b) s = set_usage_line_callback b s"
| "seam_step env (Op_Set_Synthetic f) s = set_synthetic_terminal_failure_callback f s"
| "seam_step env (Op_Set_Terminal f) s = or_same (set_terminal_observer f s) s"
| "seam_step env (Op_Set_Output f) s = or_same (set_output_observer f s) s"
| "seam_step env Op_Stats s = snd (stats_of s)"

inductive reachable_seam :: "seam_env \<Rightarrow> seam \<Rightarrow> bool" for env where
  seam_created:
    "new_seam up name model rid inb upf uc syn diag dto mf ob = Inr s \<Longrightarrow> reachable_seam env s"
| seam_stepped: "reachable_seam env s \<Longrightarrow> reachable_seam env (seam_step env op s)"

section \<open>Reading the trace\<close>

text \<open>Does an effect put bytes on the client's connection?\<close>

fun writes :: "effect \<Rightarrow> bool" where
  "writes (Emit p d out) = True"
| "writes (Send_Headers st out) = True"
| "writes _ = False"

text \<open>No bytes after the connection was given up: the trace is a part without \<open>Close_Down\<close>
  followed by a part without writes.\<close>

fun quiet_after_close :: "bool \<Rightarrow> effect list \<Rightarrow> bool" where
  "quiet_after_close shut [] = True"
| "quiet_after_close shut (e # es) =
     (\<not> (shut \<and> writes e) \<and> quiet_after_close (shut \<or> Close_Down = e) es)"

fun body_bytes :: "effect \<Rightarrow> nat" where
  "body_bytes (Emit Body d Emit_Ok) = length d"
| "body_bytes _ = 0"

fun body_ok :: "effect \<Rightarrow> bool" where
  "body_ok (Emit Body d Emit_Ok) = True"
| "body_ok _ = False"

fun header_ok :: "effect \<Rightarrow> bool" where
  "header_ok (Send_Headers st None) = True"
| "header_ok _ = False"

definition headers_sent :: "effect list \<Rightarrow> nat" where
  "headers_sent tr = length (filter header_ok tr)"

lemma quiet_append [simp]:
  "quiet_after_close c (xs @ ys) \<longleftrightarrow>
     quiet_after_close c xs \<and> quiet_after_close (c \<or> Close_Down \<in> set xs) ys"
  by (induction xs arbitrary: c) (auto simp: disj_ac)

lemma headers_sent_simps [simp]:
  "headers_sent [] = 0" "headers_sent (xs @ ys) = headers_sent xs + headers_sent ys"
  "headers_sent (e # es) = (if header_ok e then 1 else 0) + headers_sent es"
  by (simp_all add: headers_sent_def)

definition seam_ok :: "seam \<Rightarrow> bool" where
  "seam_ok s \<longleftrightarrow>
     (sc_terminal_committed s \<longrightarrow> sc_closed s)
     \<and> (sc_closed s \<longleftrightarrow> Close_Down \<in> set (sc_trace s))
     \<and> quiet_after_close False (sc_trace s)
     \<and> headers_sent (sc_trace s) = (if sc_headers_committed s then 1 else 0)
     \<and> sc_bytes s = sum_list (map body_bytes (sc_trace s))
     \<and> sc_lines s = length (filter body_ok (sc_trace s))
     \<and> (sc_output_started s \<longleftrightarrow> 0 < sc_lines s)
     \<and> (sc_headers_committed s \<longrightarrow> sc_deferred s = None)
     \<and> (sc_last_error s \<noteq> None \<longrightarrow> sc_closed s)
     \<and> 0 < sc_max_frame s"

section \<open>Every operation preserves the invariant\<close>

lemma seam_ok_log:
  "seam_ok s \<Longrightarrow> \<not> writes e \<Longrightarrow> e \<noteq> Close_Down \<Longrightarrow> seam_ok (log_effect e s)"
  by (cases e) (auto simp: seam_ok_def log_effect_def)

lemma seam_ok_close: "seam_ok s \<Longrightarrow> seam_ok (close_seam s)"
  by (auto simp: seam_ok_def close_seam_def close_upstream_def log_effect_def split: option.split)

lemma seam_ok_fail: "seam_ok s \<Longrightarrow> seam_ok (fail_write e s)"
  by (auto simp: seam_ok_def fail_write_def close_seam_def close_upstream_def log_effect_def split: option.split)

lemma closed_close [simp]: "sc_closed (close_seam s)" "sc_closed (fail_write e s)"
  by (simp_all add: close_seam_def fail_write_def close_upstream_def log_effect_def split: option.split)

lemma emit_error_simps [simp]:
  "emit_error Emit_Ok = None" "emit_error (Write_Failed e) = Some e" "emit_error (Flush_Failed e) = Some e"
  by (simp_all add: emit_error_def)

lemma body_not_ok: "\<not> body_ok e \<Longrightarrow> body_bytes e = 0"
  by (cases e rule: body_ok.cases) auto

lemma seam_ok_other:
  assumes "seam_ok s" "\<not> sc_closed s" "\<not> body_ok e" "\<not> header_ok e" "e \<noteq> Close_Down"
  shows "seam_ok (s\<lparr>sc_trace := sc_trace s @ [e]\<rparr>)"
  using assms body_not_ok [OF assms(3)] by (simp add: seam_ok_def)

lemma seam_ok_body:
  assumes "seam_ok s" "\<not> sc_closed s"
  shows "seam_ok (s\<lparr>sc_trace := sc_trace s @ [Emit Body d Emit_Ok], sc_output_started := True,
            sc_lines := sc_lines s + 1, sc_bytes := sc_bytes s + length d\<rparr>)"
  using assms by (simp add: seam_ok_def)

text \<open>Fields the invariant does not read.\<close>

lemma seam_ok_fields [simp]:
  "seam_ok (s\<lparr>sc_emits := n\<rparr>) = seam_ok s" "seam_ok (s\<lparr>sc_header_sends := n\<rparr>) = seam_ok s"
  "seam_ok (s\<lparr>sc_stats := st\<rparr>) = seam_ok s" "seam_ok (s\<lparr>sc_observers := ob\<rparr>) = seam_ok s"
  "seam_ok (s\<lparr>sc_last_byte_at := t\<rparr>) = seam_ok s" "seam_ok (s\<lparr>sc_terminal_observed := b\<rparr>) = seam_ok s"
  "seam_ok (s\<lparr>sc_last_completion := c\<rparr>) = seam_ok s" "seam_ok (s\<lparr>sc_timeout_shortened := b\<rparr>) = seam_ok s"
  "seam_ok (s\<lparr>sc_upstream := u\<rparr>) = seam_ok s" "seam_ok (s\<lparr>sc_upstream_format := f\<rparr>) = seam_ok s"
  "seam_ok (s\<lparr>sc_content_exposed := b\<rparr>) = seam_ok s" "seam_ok (s\<lparr>sc_usage_callback := b\<rparr>) = seam_ok s"
  "seam_ok (s\<lparr>sc_synthetic := g\<rparr>) = seam_ok s"
  by (simp_all add: seam_ok_def)

lemma seam_ok_deferred: "seam_ok s \<Longrightarrow> \<not> sc_headers_committed s \<or> d = None \<Longrightarrow> seam_ok (s\<lparr>sc_deferred := d\<rparr>)"
  by (auto simp: seam_ok_def)

lemma seam_ok_diagnostic: "seam_ok s \<Longrightarrow> seam_ok (observe_diagnostic b s)"
  by (simp add: observe_diagnostic_def seam_ok_log)

lemma seam_ok_record: "seam_ok s \<Longrightarrow> seam_ok (record_terminal env s)"
  by (auto simp: record_terminal_def Let_def seam_ok_log split: option.split)

lemma record_terminal_closed [simp]:
  "sc_closed (record_terminal env s) = sc_closed s"
  "sc_terminal_committed (record_terminal env s) = sc_terminal_committed s"
  by (auto simp: record_terminal_def Let_def log_effect_def split: option.split)

lemma seam_ok_seal:
  assumes "seam_ok s" "\<not> sc_closed s"
  shows "seam_ok (seal_terminal env s)"
proof -
  text \<open>The two flags are set in different statements; with the same trace the state in between
    differs from a consistent one only in \<open>sc_terminal_committed\<close>.\<close>
  define mid where "mid = record_terminal env (observe_diagnostic True s)"
  have mid: "seam_ok mid" "\<not> sc_closed mid"
    using assms by (simp_all add: mid_def seam_ok_record seam_ok_diagnostic)
       (simp add: observe_diagnostic_def log_effect_def)
  have "record_terminal env (observe_diagnostic True (s\<lparr>sc_terminal_committed := True\<rparr>))
        = mid\<lparr>sc_terminal_committed := True\<rparr>"
    by (simp add: mid_def record_terminal_def observe_diagnostic_def log_effect_def Let_def split: option.split)
  then have "seal_terminal env s = log_effect Close_Down (mid\<lparr>sc_terminal_committed := True, sc_closed := True\<rparr>)"
    by (simp add: seal_terminal_def Let_def)
  with mid show ?thesis by (simp add: seam_ok_def log_effect_def)
qed

lemma seam_ok_headers: "seam_ok s \<Longrightarrow> seam_ok (snd (commit_headers env st s))"
proof -
  assume s: "seam_ok s"
  show ?thesis
  proof (cases "sc_headers_committed s \<or> sc_closed s \<or> sc_terminal_committed s")
    case True
    with s show ?thesis by (auto simp: commit_headers_def intro: seam_ok_deferred)
  next
    case False
    define s1 where "s1 = s\<lparr>sc_header_sends := sc_header_sends s + 1\<rparr>"
    have s1: "seam_ok s1" "\<not> sc_closed s1" using s False by (simp_all add: s1_def)
    show ?thesis
    proof (cases "se_headers env (sc_header_sends s)")
      case None
      have "commit_headers env st s = (True, s1\<lparr>sc_trace := sc_trace s1 @ [Send_Headers st None],
           sc_headers_committed := True, sc_deferred := None\<rparr>)"
        using False None by (simp add: commit_headers_def log_effect_def s1_def Let_def)
      with s1 False show ?thesis by (auto simp: seam_ok_def s1_def)
    next
      case (Some e)
      have "commit_headers env st s = (False, fail_write e (s1\<lparr>sc_trace := sc_trace s1 @ [Send_Headers st (Some e)]\<rparr>))"
        using False Some by (simp add: commit_headers_def log_effect_def s1_def Let_def)
      with seam_ok_other [OF s1, of "Send_Headers st (Some e)"] show ?thesis by (simp add: seam_ok_fail)
    qed
  qed
qed

lemma commit_headers_True:
  "commit_headers env st s = (True, s1) \<Longrightarrow>
     sc_headers_committed s1 \<and> sc_closed s1 = sc_closed s \<and> sc_terminal_committed s1 = sc_terminal_committed s"
  by (auto simp: commit_headers_def log_effect_def Let_def split: if_splits option.splits)

lemma seam_ok_ensure:
  assumes "seam_ok s" "ensure_headers_committed_before_write env s = (b, s1)"
  shows "seam_ok s1" "b \<Longrightarrow> sc_closed s1 = sc_closed s"
    "b \<Longrightarrow> sc_terminal_committed s1 = sc_terminal_committed s"
proof -
  have "seam_ok s1 \<and> (b \<longrightarrow> sc_closed s1 = sc_closed s \<and> sc_terminal_committed s1 = sc_terminal_committed s)"
  proof (cases "sc_headers_committed s \<or> sc_deferred s = None")
    case True
    with assms show ?thesis
      by (auto simp: ensure_headers_committed_before_write_def intro!: seam_ok_deferred split: if_splits)
  next
    case False
    then obtain st hs where d: "sc_deferred s = Some (st, hs)" by (cases "sc_deferred s") auto
    obtain b' s' where c: "commit_headers env st s = (b', s')" by (metis prod.exhaust)
    have s': "seam_ok s'" using seam_ok_headers [OF assms(1), of env st] c by simp
    have s'': "seam_ok (log_effect Mark_Started s')" by (simp add: s' seam_ok_log)
    have "seam_ok (s\<lparr>sc_deferred := None\<rparr>)" using assms(1) by (rule seam_ok_deferred) simp
    moreover have "seam_ok ((log_effect Mark_Started s')\<lparr>sc_deferred := None\<rparr>)"
      using s'' by (rule seam_ok_deferred) simp
    moreover have "s1 = (if hs then s\<lparr>sc_deferred := None\<rparr> else if b' then (log_effect Mark_Started s')\<lparr>sc_deferred := None\<rparr>
        else s')" "b \<longleftrightarrow> hs \<or> b'"
      using assms(2) False d c
      by (auto simp: ensure_headers_committed_before_write_def send_downstream_response_headers_once_def
          split: if_splits bool.splits)
    ultimately show ?thesis using s' commit_headers_True [of env st s s'] c by (auto simp: log_effect_def)
  qed
  then show "seam_ok s1" "b \<Longrightarrow> sc_closed s1 = sc_closed s"
    "b \<Longrightarrow> sc_terminal_committed s1 = sc_terminal_committed s" by auto
qed

lemma observe_line_fields:
  assumes "observe_line line s = (r, s1)"
  shows "\<exists>st t b. s1 = s\<lparr>sc_last_byte_at := t, sc_stats := st, sc_terminal_observed := b\<rparr>"
proof -
  obtain st err where ob: "observe_bytes (sc_observers s)
      (sc_stats s\<lparr>ps_clock_reads := ps_clock_reads (sc_stats s) + 1\<rparr>) line = (st, err)" by (metis prod.exhaust)
  define t where "t = Some (ob_clock (sc_observers s) (ps_clock_reads (sc_stats s)))"
  have "s1 = s\<lparr>sc_last_byte_at := t, sc_stats := st, sc_terminal_observed := sc_terminal_observed s\<rparr>
      \<or> s1 = s\<lparr>sc_last_byte_at := t, sc_stats := st, sc_terminal_observed := True\<rparr>"
    using assms ob unfolding observe_line_def t_def Let_def
    by (cases err) (auto split: if_splits)
  then show ?thesis by blast
qed

lemma seam_ok_observe_line:
  assumes "observe_line line s = (r, s1)"
  shows "seam_ok s1 = seam_ok s" "sc_closed s1 = sc_closed s"
    "sc_terminal_committed s1 = sc_terminal_committed s"
  using observe_line_fields [OF assms] by auto

lemma closed_diagnostic [simp]: "sc_closed (observe_diagnostic b s) = sc_closed s"
  by (simp add: observe_diagnostic_def log_effect_def)

lemma seam_ok_emit_count:
  assumes "seam_ok s" "\<not> sc_closed s"
  shows "seam_ok (snd (emit_and_count env ob tn data s))"
proof -
  define s0 where "s0 = s\<lparr>sc_emits := sc_emits s + 1\<rparr>"
  define out where "out = se_emit env (sc_emits s)"
  have s0: "seam_ok s0" "\<not> sc_closed s0" using assms by (simp_all add: s0_def)
  have em: "emit_bytes env Body data s = (emit_error out, s0\<lparr>sc_trace := sc_trace s0 @ [Emit Body data out]\<rparr>)"
    by (simp add: emit_bytes_def log_effect_def s0_def out_def Let_def)
  show ?thesis
  proof (cases "emit_error out")
    case (Some e)
    then have "\<not> body_ok (Emit Body data out)" by (cases out) (auto simp: emit_error_def)
    from seam_ok_other [OF s0 this] Some show ?thesis
      by (simp add: emit_and_count_def em seam_ok_fail)
  next
    case None
    then have out: "out = Emit_Ok" by (cases out) (auto simp: emit_error_def)
    define s2 where "s2 = s0\<lparr>sc_trace := sc_trace s0 @ [Emit Body data Emit_Ok], sc_output_started := True,
            sc_lines := sc_lines s0 + 1, sc_bytes := sc_bytes s0 + length data\<rparr>"
    have s2: "seam_ok s2" "\<not> sc_closed s2"
      using seam_ok_body [OF s0] s0(2) by (simp_all add: s2_def)
    have "emit_and_count env ob tn data s =
        (if \<not> ob then (Inr True, if tn then seal_terminal env s2 else s2)
              else case pending_completion_bytes (sc_stats s2) of
                     Inl e \<Rightarrow> (Inl e, s2)
                   | Inr c \<Rightarrow>
                       (let s3 = s2\<lparr>sc_last_completion := c\<rparr>
                        in (Inr True, if tn then seal_terminal env s3 else s3)))"
      by (simp add: emit_and_count_def em out s2_def Let_def split: sum.split)
    with s2 show ?thesis by (auto simp: Let_def seam_ok_seal split: sum.split)
  qed
qed

lemma seam_ok_usage: "seam_ok s \<Longrightarrow> seam_ok (usage_line l s)"
  by (simp add: usage_line_def seam_ok_log)

lemma seam_ok_data: "seam_ok s \<Longrightarrow> seam_ok (snd (commit_data env line s))"
proof -
  assume s: "seam_ok s"
  show ?thesis
  proof (cases "sc_closed s \<or> line = [] \<or> sc_terminal_committed s")
    case True
    with s show ?thesis by (auto simp: commit_data_def)
  next
    case False
    obtain b s1 where e: "ensure_headers_committed_before_write env s = (b, s1)" by (metis prod.exhaust)
    obtain r s2 where o: "observe_line line s1 = (r, s2)" by (metis prod.exhaust)
    note s1 = seam_ok_ensure [OF s e]
    note s2 = seam_ok_observe_line [OF o]
    define s3 where "s3 = (\<lambda>tn. if tn then observe_diagnostic False s2 else s2)"
    have s3: "b \<Longrightarrow> seam_ok (s3 tn) \<and> \<not> sc_closed (s3 tn)" for tn
      using s1 s2 False by (simp add: s3_def seam_ok_diagnostic)
    have "seam_ok (snd (case emit_and_count env True tn line (s3 tn) of
            (Inr True, s4) \<Rightarrow> (Inr True, usage_line line s4) | r \<Rightarrow> r))" if b for tn
      using seam_ok_emit_count [of "s3 tn" env True tn line] s3 [OF that]
      by (cases "emit_and_count env True tn line (s3 tn)") (auto simp: seam_ok_usage split: sum.split bool.split)
    with s1 s2 False e o show ?thesis
      by (auto simp: commit_data_def Let_def s3_def split: bool.split sum.split)
  qed
qed

lemma seam_ok_bytes: "seam_ok s \<Longrightarrow> seam_ok (snd (commit_sse_bytes env data ob s))"
proof -
  assume s: "seam_ok s"
  show ?thesis
  proof (cases "sc_closed s \<or> data = [] \<or> sc_terminal_committed s")
    case True
    with s show ?thesis by (auto simp: commit_sse_bytes_def)
  next
    case False
    obtain b s1 where e: "ensure_headers_committed_before_write env s = (b, s1)" by (metis prod.exhaust)
    obtain r s2 where o: "observe_line data s1 = (r, s2)" by (metis prod.exhaust)
    note s1 = seam_ok_ensure [OF s e]
    note s2 = seam_ok_observe_line [OF o]
    have "seam_ok (snd (emit_and_count env False False data s1))" if b
      using that s1 False by (intro seam_ok_emit_count) auto
    moreover have "seam_ok (snd (emit_and_count env True tn data
        (if tn then observe_diagnostic False s2 else s2)))" if b for tn
      using that s1 s2 False by (intro seam_ok_emit_count) (auto simp: seam_ok_diagnostic)
    ultimately show ?thesis using s1 s2 False e o
      by (auto simp: commit_sse_bytes_def split: bool.split sum.split)
  qed
qed

lemma seam_ok_synthetic:
  "seam_ok s \<Longrightarrow> seam_ok (snd (responses_synthetic_terminal_failure env ev s))"
  using seam_ok_bytes [of s env ev True]
  by (cases "commit_sse_bytes env ev True s")
     (auto simp: responses_synthetic_terminal_failure_def Let_def split: sum.split bool.split)

lemma seam_ok_finish_frame:
  assumes "seam_ok s" "\<not> sc_closed s" "finish_pending_frame env exc s = (r, s1)"
  shows "seam_ok s1"
proof -
  define s0 where "s0 = s\<lparr>sc_emits := sc_emits s + 1\<rparr>"
  have s0: "seam_ok s0" "\<not> sc_closed s0" using assms by (simp_all add: s0_def)
  have em: "emit_bytes env Completion c s = (emit_error (se_emit env (sc_emits s)),
      s0\<lparr>sc_trace := sc_trace s0 @ [Emit Completion c (se_emit env (sc_emits s))]\<rparr>)" for c
    by (simp add: emit_bytes_def log_effect_def s0_def Let_def)
  have s1: "seam_ok (s0\<lparr>sc_trace := sc_trace s0 @ [Emit Completion c out]\<rparr>)" for c out
    by (rule seam_ok_other [OF s0]) simp_all
  show ?thesis using assms(1,3) s1
    by (auto simp: finish_pending_frame_def em split: if_splits sum.splits option.splits prod.splits)
qed

lemma seam_ok_failure: "seam_ok s \<Longrightarrow> seam_ok (snd (commit_terminal_failure env exc st s))"
proof -
  assume s: "seam_ok s"
  show ?thesis
  proof (cases "sc_closed s \<or> sc_terminal_committed s \<or> sc_synthetic s = None")
    case True
    with s show ?thesis by (auto simp: commit_terminal_failure_def split: option.split)
  next
    case False
    then obtain w where w: "sc_synthetic s = Some w" by auto
    obtain b s1 where e: "ensure_headers_committed_before_write env s = (b, s1)" by (metis prod.exhaust)
    obtain r s2 where f: "finish_pending_frame env exc s1 = (r, s2)" by (metis prod.exhaust)
    define ev where "ev = w exc st (ps_response_id (sc_stats s2)) (sc_upstream_name s2) (sc_model s2)"
    obtain q s3 where q: "responses_synthetic_terminal_failure env ev s2 = (q, s3)" by (metis prod.exhaust)
    note s1 = seam_ok_ensure [OF s e]
    have s2: "b \<Longrightarrow> seam_ok s2" using seam_ok_finish_frame [OF s1(1) _ f] s1 False by simp
    have s3: "b \<Longrightarrow> seam_ok s3" using seam_ok_synthetic [OF s2, of env ev] q by simp
    have "b \<Longrightarrow> seam_ok (log_effect Close_Down (s3\<lparr>sc_terminal_committed := True, sc_closed := True\<rparr>))"
      using s3 by (auto simp: seam_ok_def log_effect_def)
    with s1 s2 s3 False e f q w show ?thesis
      by (auto simp: commit_terminal_failure_def seam_ok_fail simp flip: ev_def split: bool.split sum.split option.split prod.split)
  qed
qed

lemma seam_ok_stats: "seam_ok s \<Longrightarrow> seam_ok (snd (stats_of s))"
  by (auto simp: stats_of_def split: prod.split option.split)

lemma seam_ok_observers:
  "seam_ok s \<Longrightarrow> seam_ok (or_same (set_terminal_observer f s) s)"
  "seam_ok s \<Longrightarrow> seam_ok (or_same (set_output_observer g s) s)"
  by (auto simp: or_same_def set_terminal_observer_def set_output_observer_def replace_observers_def
      rbind_Inr_iff split: sum.split)

lemma seam_ok_step: "seam_ok s \<Longrightarrow> seam_ok (seam_step env op s)"
  by (cases op)
     (auto simp: seam_ok_data seam_ok_bytes seam_ok_headers seam_ok_failure seam_ok_close cancel_seam_def
        attach_upstream_def set_upstream_format_def mark_downstream_content_exposed_def
        set_ensure_headers_committed_callback_def set_usage_line_callback_def
        set_synthetic_terminal_failure_callback_def seam_ok_observers seam_ok_stats
        intro!: seam_ok_deferred seam_ok_log)

lemma reachable_seam_ok: "reachable_seam env s \<Longrightarrow> seam_ok s"
proof (induction rule: reachable_seam.induct)
  case (seam_created up name model rid inb upf uc syn diag dto mf ob s)
  then have "0 < mf" by (auto simp: new_seam_def new_stats_def new_assembler_def rbind_Inr_iff split: if_splits)
  with seam_created show ?case by (auto simp: new_seam_def rbind_Inr_iff seam_ok_def)
next
  case (seam_stepped s op)
  then show ?case by (simp add: seam_ok_step)
qed

text \<open>C24: In every state a request can reach, the stream-commit seam has written nothing after it
  gave the connection up (a terminal event, \<open>close\<close>, a failed write), it is closed once a terminal
  is committed, at most one header block went out, the byte and line counters are exactly the
  successfully written body, and a recorded write error means that it is closed.\<close>
theorem seam_invariant:
  assumes "reachable_seam env s"
  shows "seam_ok s"
  using assms by (rule reachable_seam_ok)

section \<open>Sealing\<close>

text \<open>Closing is final.  Whatever operations follow on a closed seam, in any order, no byte
  and no header block is written any more: the trace only grows by the closing of upstream
  responses that arrive late, and the seam stays closed.\<close>
theorem closed_seam_is_silent:
  assumes "sc_closed s"
  shows "\<exists>us. sc_trace (fold (seam_step env) ops s) = sc_trace s @ map Close_Up us
           \<and> sc_closed (fold (seam_step env) ops s)"
  using assms
proof (induction ops arbitrary: s)
  case Nil
  show ?case using Nil by (intro exI [of _ "[]"]) simp
next
  case (Cons op ops)
  have step: "\<exists>us. sc_trace (seam_step env op s) = sc_trace s @ map Close_Up us \<and> sc_closed (seam_step env op s)"
  proof (cases op)
    case (Op_Attach r)
    with Cons.prems show ?thesis
      by (intro exI [of _ "[r]"]) (simp add: attach_upstream_def log_effect_def)
  qed (use Cons.prems in \<open>auto intro!: exI [of _ "[]"] simp: commit_data_def commit_sse_bytes_def commit_headers_def
      commit_terminal_failure_def close_seam_def cancel_seam_def set_upstream_format_def
      mark_downstream_content_exposed_def set_ensure_headers_committed_callback_def
      set_usage_line_callback_def set_synthetic_terminal_failure_callback_def or_same_def
      set_terminal_observer_def set_output_observer_def replace_observers_def stats_of_def
      rbind_Inr_iff split: sum.split option.split prod.split\<close>)
  then obtain us where us: "sc_trace (seam_step env op s) = sc_trace s @ map Close_Up us"
    "sc_closed (seam_step env op s)" by blast
  from Cons.IH [OF us(2)] obtain vs where
    "sc_trace (fold (seam_step env) ops (seam_step env op s)) = sc_trace (seam_step env op s) @ map Close_Up vs"
    "sc_closed (fold (seam_step env) ops (seam_step env op s))" by blast
  with us show ?case by (intro exI [of _ "us @ vs"]) simp
qed

section \<open>The result of a commit is honest\<close>

fun is_emit :: "effect \<Rightarrow> bool" where
  "is_emit (Emit p d out) = True"
| "is_emit _ = False"

definition emitted :: "seam \<Rightarrow> effect list" where
  "emitted s = filter is_emit (sc_trace s)"

lemma emitted_log [simp]: "emitted (log_effect e s) = emitted s @ (if is_emit e then [e] else [])"
  by (simp add: emitted_def log_effect_def)

lemma emitted_fields [simp]:
  "emitted (s\<lparr>sc_deferred := d\<rparr>) = emitted s" "emitted (s\<lparr>sc_closed := b\<rparr>) = emitted s"
  "emitted (s\<lparr>sc_terminal_committed := b\<rparr>) = emitted s" "emitted (s\<lparr>sc_header_sends := n\<rparr>) = emitted s"
  "emitted (s\<lparr>sc_emits := n\<rparr>) = emitted s" "emitted (s\<lparr>sc_last_completion := c\<rparr>) = emitted s"
  "emitted (s\<lparr>sc_headers_committed := b\<rparr>) = emitted s" "emitted (s\<lparr>sc_timeout_shortened := b\<rparr>) = emitted s"
  "emitted (s\<lparr>sc_last_error := e\<rparr>) = emitted s" "emitted (s\<lparr>sc_last_byte_at := t, sc_stats := st\<rparr>) = emitted s"
  "emitted (s\<lparr>sc_terminal_observed := b\<rparr>) = emitted s" "emitted (s\<lparr>sc_output_started := b, sc_lines := m, sc_bytes := n\<rparr>) = emitted s"
  by (simp_all add: emitted_def)

lemma emitted_close [simp]: "emitted (close_seam s) = emitted s" "emitted (fail_write e s) = emitted s"
  by (simp_all add: close_seam_def fail_write_def close_upstream_def split: option.split)

lemma emitted_diagnostic [simp]: "emitted (observe_diagnostic b s) = emitted s"
  by (simp add: observe_diagnostic_def)

lemma emitted_seal [simp]: "emitted (seal_terminal env s) = emitted s"
  by (simp add: seal_terminal_def record_terminal_def Let_def split: option.split)

lemma emitted_usage [simp]: "emitted (usage_line l s) = emitted s"
  by (simp add: usage_line_def)

lemma emitted_headers: "emitted (snd (commit_headers env st s)) = emitted s"
  by (simp add: commit_headers_def Let_def split: option.split)

lemma headers_False_closed:
  "seam_ok s \<Longrightarrow> commit_headers env st s = (False, s1) \<Longrightarrow> sc_closed s1"
  by (auto simp: commit_headers_def seam_ok_def Let_def split: if_splits option.splits)

lemma ensure_result:
  assumes "ensure_headers_committed_before_write env s = (b, s1)" "seam_ok s"
  shows "emitted s1 = emitted s" "\<not> b \<Longrightarrow> sc_closed s1"
proof -
  show "emitted s1 = emitted s"
    using assms(1) emitted_headers [of env _ s]
    by (auto simp: ensure_headers_committed_before_write_def send_downstream_response_headers_once_def
        split: if_splits option.splits prod.splits bool.splits) (metis snd_conv)+
  show "\<not> b \<Longrightarrow> sc_closed s1"
    using assms headers_False_closed [OF assms(2)]
    by (auto simp: ensure_headers_committed_before_write_def send_downstream_response_headers_once_def
        split: if_splits option.splits prod.splits bool.splits)
qed

lemma emitted_observe_line: "observe_line line s = (r, s1) \<Longrightarrow> emitted s1 = emitted s"
  using observe_line_fields [of line s r s1] by (auto simp: emitted_def)

lemma emit_count_result:
  assumes "emit_and_count env ob tn data s = (Inr b, s1)"
  shows "b \<Longrightarrow> emitted s1 = emitted s @ [Emit Body data Emit_Ok]" "\<not> b \<Longrightarrow> sc_closed s1"
  using assms
  by (cases "se_emit env (sc_emits s)";
      auto simp: emit_and_count_def emit_bytes_def Let_def split: if_splits sum.splits)+

lemma commit_result_honest:
  assumes "seam_ok s" "commit_data env line s = (Inr b, s1) \<or> commit_sse_bytes env line obv s = (Inr b, s1)"
  shows "b \<Longrightarrow> emitted s1 = emitted s @ (if line = [] then [] else [Emit Body line Emit_Ok])"
    "\<not> b \<Longrightarrow> sc_closed s1"
proof -
  obtain h t where e: "ensure_headers_committed_before_write env s = (h, t)" by (metis prod.exhaust)
  note h = ensure_result [OF e assms(1)]
  obtain r u where o: "observe_line line t = (r, u)" by (metis prod.exhaust)
  note u = emitted_observe_line [OF o]
  have "(b \<longrightarrow> emitted s1 = emitted s @ (if line = [] then [] else [Emit Body line Emit_Ok])) \<and> (\<not> b \<longrightarrow> sc_closed s1)"
  proof (cases "sc_closed s \<or> line = [] \<or> sc_terminal_committed s \<or> \<not> h")
    case True
    with assms h e show ?thesis
      by (auto simp: commit_data_def commit_sse_bytes_def seam_ok_def split: if_splits)
  next
    case False
    have "(b \<longrightarrow> emitted s1 = emitted s @ [Emit Body line Emit_Ok]) \<and> (\<not> b \<longrightarrow> sc_closed s1)"
      using assms(2)
    proof
      assume "commit_data env line s = (Inr b, s1)"
      with False e o obtain tn where r: "r = Inr tn" and
        run: "(case emit_and_count env True tn line (if tn then observe_diagnostic False u else u) of
                 (Inr True, s4) \<Rightarrow> (Inr True, usage_line line s4) | r \<Rightarrow> r) = (Inr b, s1)"
        by (auto simp: commit_data_def Let_def split: sum.splits)
      obtain q s4 where q: "emit_and_count env True tn line (if tn then observe_diagnostic False u else u) = (q, s4)"
        by (metis prod.exhaust)
      with run obtain b' where b': "q = Inr b'" "b' = b" "s1 = (if b then usage_line line s4 else s4)"
        by (auto split: sum.splits bool.splits)
      from emit_count_result [OF q [unfolded b'(1)]] b' h(1) u show ?thesis by (cases b) auto
    next
      assume "commit_sse_bytes env line obv s = (Inr b, s1)"
      with False e o obtain tn where
        "emit_and_count env obv tn line (if obv then if tn then observe_diagnostic False u else u else t) = (Inr b, s1)"
        by (cases obv) (auto simp: commit_sse_bytes_def split: sum.splits)
      from emit_count_result [OF this] h(1) u show ?thesis by (cases b) (auto split: if_splits)
    qed
    with False show ?thesis by simp
  qed
  then show "b \<Longrightarrow> emitted s1 = emitted s @ (if line = [] then [] else [Emit Body line Emit_Ok])"
    "\<not> b \<Longrightarrow> sc_closed s1" by auto
qed

text \<open>The boolean a commit returns is honest.  \<open>True\<close>: exactly the given bytes were written,
  once, completely and in this order after everything before (nothing for an empty line).
  \<open>False\<close>: the seam is closed, so no later write can follow.\<close>
theorem commit_data_honest:
  assumes "reachable_seam env s" and "commit_data env line s = (Inr b, s1)"
  shows "if b then emitted s1 = emitted s @ (if line = [] then [] else [Emit Body line Emit_Ok])
         else sc_closed s1"
  using commit_result_honest [OF reachable_seam_ok [OF assms(1)], of env line b s1] assms(2) by auto

lemma finish_frame_result:
  assumes "finish_pending_frame env exc s = (Inr None, s1)"
  shows "\<exists>c. emitted s1 = emitted s @ (if c = [] then [] else [Emit Completion c Emit_Ok])
          \<and> sc_upstream_name s1 = sc_upstream_name s \<and> sc_model s1 = sc_model s"
proof -
  define c where "c = (if exc = Size_Limit_Failure then sc_last_completion s
      else case pending_completion_bytes (sc_stats s) of Inr c \<Rightarrow> c | Inl _ \<Rightarrow> [])"
  have "emitted s1 = emitted s @ (if c = [] then [] else [Emit Completion c Emit_Ok])
          \<and> sc_upstream_name s1 = sc_upstream_name s \<and> sc_model s1 = sc_model s"
    using assms
    by (cases "se_emit env (sc_emits s)")
       (auto simp: finish_pending_frame_def emit_bytes_def log_effect_def emitted_def Let_def c_def
         split: if_splits sum.splits option.splits prod.splits)
  then show ?thesis by blast
qed

lemma ensure_names:
  "ensure_headers_committed_before_write env s = (True, s1) \<Longrightarrow>
     sc_upstream_name s1 = sc_upstream_name s \<and> sc_model s1 = sc_model s"
  by (auto simp: ensure_headers_committed_before_write_def send_downstream_response_headers_once_def
      commit_headers_def log_effect_def Let_def split: if_splits option.splits prod.splits bool.splits)

text \<open>C19: A synthetic failure is written at most once and only on an open stream without a
  committed terminal: when the call reports that it was sent, the stream was open before, the
  bytes added are at most one completion of the pending frame followed by the rendered failure
  event, and afterwards the terminal is committed and the seam closed.\<close>
theorem failure_sent_once:
  assumes "reachable_seam env s" and "sc_synthetic s = Some render"
    and "commit_terminal_failure env exc st s = (Inr (True, w), s1)"
  shows "\<not> sc_closed s \<and> \<not> sc_terminal_committed s \<and> sc_terminal_committed s1 \<and> sc_closed s1
     \<and> (\<exists>c i. let ev = render exc st i (sc_upstream_name s) (sc_model s) in
          emitted s1 = emitted s @ (if c = [] then [] else [Emit Completion c Emit_Ok])
                         @ (if ev = [] then [] else [Emit Body ev Emit_Ok]))"
proof -
  have opn: "\<not> sc_closed s" "\<not> sc_terminal_committed s"
    using assms(2,3) by (auto simp: commit_terminal_failure_def split: if_splits)
  have ok: "seam_ok s" using assms(1) by (rule reachable_seam_ok)
  obtain b t where e: "ensure_headers_committed_before_write env s = (b, t)" by (metis prod.exhaust)
  obtain r u where f: "finish_pending_frame env exc t = (r, u)" by (metis prod.exhaust)
  from assms(2,3) opn e f have b: "b" and r: "r = Inr None"
    by (auto simp: commit_terminal_failure_def split: bool.splits sum.splits option.splits)
  define ev where "ev = render exc st (ps_response_id (sc_stats u)) (sc_upstream_name u) (sc_model u)"
  obtain q v where q: "responses_synthetic_terminal_failure env ev u = (q, v)" by (metis prod.exhaust)
  have q': "q = Inr (True, w)" "s1 = log_effect Close_Down (v\<lparr>sc_terminal_committed := True, sc_closed := True\<rparr>)"
    using assms(2,3) opn e f b r q
    by (auto simp: commit_terminal_failure_def simp flip: ev_def split: sum.splits bool.splits prod.splits)
  have commit: "commit_sse_bytes env ev True u = (Inr True, v)"
    using q q'(1) by (auto simp: responses_synthetic_terminal_failure_def Let_def split: prod.splits sum.splits bool.splits)
  have u: "seam_ok u"
    using seam_ok_finish_frame [OF _ _ f] seam_ok_ensure [OF ok e] b opn by simp
  obtain c where c: "emitted u = emitted t @ (if c = [] then [] else [Emit Completion c Emit_Ok])"
    "sc_upstream_name u = sc_upstream_name t" "sc_model u = sc_model t"
    using finish_frame_result [OF f [unfolded r]] by blast
  have "emitted s1 = emitted v" by (simp add: q'(2) emitted_def log_effect_def)
  have "emitted v = emitted u @ (if ev = [] then [] else [Emit Body ev Emit_Ok])"
    using commit_result_honest(1) [OF u, of env ev True v True] commit by simp
  then have "emitted s1 = emitted s @ (if c = [] then [] else [Emit Completion c Emit_Ok])
                         @ (if ev = [] then [] else [Emit Body ev Emit_Ok])"
    using c(1) ensure_result(1) [OF e ok] \<open>emitted s1 = emitted v\<close> by simp
  moreover have "ev = render exc st (ps_response_id (sc_stats u)) (sc_upstream_name s) (sc_model s)"
    using ensure_names [of env s t] e b c by (simp add: ev_def)
  ultimately show ?thesis using opn q'(2) by (auto simp: Let_def log_effect_def)
qed

text \<open>An observer that read its input without an error can tell how to complete the frame it is in.\<close>

lemma drain_with_open: "drain_with cb eof s a = (s', None, a') \<Longrightarrow> as_closed a' = as_closed a"
proof (induction cb eof s a rule: drain_with.induct)
  case (1 cb eof s a)
  obtain l a1 where ext: "extract_line eof a = (l, a1)" by (metis prod.exhaust)
  have a1: "as_closed a1 = as_closed a" using ext by (auto simp: extract_line_def Let_def split: scan.splits if_splits)
  show ?case
  proof (cases l)
    case None
    with 1(3) ext a1 show ?thesis by (simp add: drain_with.simps [of cb eof s a])
  next
    case (Some p)
    obtain content raw where p: "p = (content, raw)" by (metis prod.exhaust)
    note ext' = ext [unfolded Some p]
    let ?a2 = "a1\<lparr>as_frame_raw := as_frame_raw a1 @ raw, as_at_start := False\<rparr>"
    let ?c = "strip_bom (as_at_start a1) content"
    let ?a3 = "?a2\<lparr>as_lines := as_lines ?a2 @ [parse_line ?c raw]\<rparr>"
    show ?thesis
    proof (cases "?c = []")
      case False
      then have none: "check_size ?a3 (length (as_frame_raw ?a3)) = None" and run: "drain_with cb eof s ?a3 = (s', None, a')"
        using 1(3) ext' by (auto simp: drain_with.simps [of cb eof s a] Let_def split: option.splits)
      from 1(1) [OF ext' [symmetric] refl refl refl refl False refl none run] a1 show ?thesis by simp
    next
      case True
      obtain ev a3 where ce: "complete_event ?a2 = (ev, a3)" by (metis prod.exhaust)
      obtain s1 y where cb: "cb s ev = (s1, y)" by (metis prod.exhaust)
      have none: "check_size ?a2 (length (as_frame_raw ?a2)) = None" and y: "y = None"
        and run: "drain_with cb eof s1 a3 = (s', None, a')"
        using 1(3) True ext' ce cb by (auto simp: drain_with.simps [of cb eof s a] Let_def split: option.splits)
      have "as_closed a3 = as_closed ?a2" using ce by (auto simp: complete_event_def Let_def)
      with 1(2) [OF ext' [symmetric] refl refl refl refl _ none ce [symmetric] refl cb [symmetric] y run] True a1
      show ?thesis by simp
    qed
  qed
qed

lemma observed_completion:
  assumes "observe_bytes ob s b = (s', None)"
  shows "\<exists>c. pending_completion_bytes s' = Inr c"
proof (cases "ps_eof s = Some Size_Limit")
  case True
  with assms show ?thesis by (simp add: observe_bytes_def pending_completion_bytes_def)
next
  case False
  then obtain s1 s2 a where f: "feed_with (observe_event ob) s1 (ps_assembler s1) b = (s2, None, a)"
    and s': "s' = s2\<lparr>ps_assembler := a\<rparr>"
    using assms by (auto simp: observe_bytes_def Let_def split: prod.splits option.splits stop.splits sse_error.splits)
  have "as_closed (ps_assembler s1) = None"
    using f by (auto simp: feed_with_def require_open_def split: option.splits)
  with f have "as_closed a = None"
    by (auto simp: feed_with_def require_open_def compact_buffer_def Let_def
        dest!: drain_with_open split: option.splits prod.splits stop.splits if_splits)
  then show ?thesis by (simp add: s' pending_completion_bytes_def completion_bytes_def require_open_def Let_def)
qed

text \<open>The failure path on a stream whose writes work, with a frame pending.\<close>

definition failure_event :: "failure_writer \<Rightarrow> failure \<Rightarrow> int \<Rightarrow> stats \<Rightarrow> seam \<Rightarrow> bytes" where
  "failure_event render exc status st s = render exc status (ps_response_id st) (sc_upstream_name s) (sc_model s)"

lemma headers_settled:
  assumes "seam_ok s" "sc_headers_committed s \<or> sc_deferred s = None"
  shows "ensure_headers_committed_before_write env s = (True, s)"
  using assms by (cases s) (auto simp: ensure_headers_committed_before_write_def seam_ok_def)

lemma emit_counted:
  assumes "se_emit env = (\<lambda>_. Emit_Ok)" "pending_completion_bytes (sc_stats w) = Inr c"
  shows "\<exists>v. emit_and_count env True tn b w = (Inr True, v)"
  using assms by (simp add: emit_and_count_def emit_bytes_def emit_error_def Let_def log_effect_def)

lemma observed_line:
  assumes "observe_bytes (sc_observers s) ((sc_stats s)\<lparr>ps_clock_reads := ps_clock_reads (sc_stats s) + 1\<rparr>) b = (st, None)"
  shows "\<exists>tn t. observe_line b s = (Inr tn, t) \<and> sc_stats t = st"
  unfolding observe_line_def Let_def assms
  by (cases "ps_terminal_seen st \<and> \<not> sc_terminal_observed s") auto

lemma written_event:
  assumes ok: "seam_ok s" and "\<not> sc_closed s" "\<not> sc_terminal_committed s"
    and h: "sc_headers_committed s \<or> sc_deferred s = None"
    and emits: "se_emit env = (\<lambda>_. Emit_Ok)" and ev: "ev \<noteq> []"
    and quiet: "snd (observe_bytes (sc_observers s) ((sc_stats s)\<lparr>ps_clock_reads := ps_clock_reads (sc_stats s) + 1\<rparr>) ev) = None"
  shows "\<exists>v. commit_sse_bytes env ev True s = (Inr True, v) \<and> emitted v = emitted s @ [Emit Body ev Emit_Ok]"
proof -
  obtain st where st: "observe_bytes (sc_observers s) ((sc_stats s)\<lparr>ps_clock_reads := ps_clock_reads (sc_stats s) + 1\<rparr>) ev
      = (st, None)" using quiet by (metis prod.collapse)
  obtain c where c: "pending_completion_bytes st = Inr c" using observed_completion [OF st] by blast
  obtain tn t where o: "observe_line ev s = (Inr tn, t)" "sc_stats t = st"
    using observed_line [OF st] by blast
  define w where "w = (if tn then observe_diagnostic False t else t)"
  have "sc_stats w = st" by (simp add: w_def observe_diagnostic_def log_effect_def o(2))
  with emit_counted [OF emits] c obtain v where v: "emit_and_count env True tn ev w = (Inr True, v)" by blast
  have "commit_sse_bytes env ev True s = emit_and_count env True tn ev w"
    unfolding commit_sse_bytes_def headers_settled [OF ok h] using assms(2,3) ev by (simp add: o(1) w_def)
  with v have "commit_sse_bytes env ev True s = (Inr True, v)" by simp
  moreover from commit_result_honest(1) [OF ok, of env ev True v True] this
  have "emitted v = emitted s @ [Emit Body ev Emit_Ok]" using ev by simp
  ultimately show ?thesis by blast
qed

lemma synthetic_kept [simp]:
  "sc_synthetic (log_effect e s) = sc_synthetic s" "sc_synthetic (close_seam s) = sc_synthetic s"
  "sc_synthetic (fail_write x s) = sc_synthetic s" "sc_synthetic (usage_line l s) = sc_synthetic s"
  "sc_synthetic (observe_diagnostic b s) = sc_synthetic s" "sc_synthetic (seal_terminal env s) = sc_synthetic s"
  by (simp_all add: log_effect_def close_seam_def close_upstream_def fail_write_def usage_line_def
      observe_diagnostic_def seal_terminal_def record_terminal_def Let_def split: option.split)

lemma commit_data_synthetic:
  assumes "sc_deferred s = None"
  shows "sc_synthetic (snd (commit_data env line s)) = sc_synthetic s"
proof -
  obtain r u where o: "observe_line line (s\<lparr>sc_deferred := None\<rparr>) = (r, u)" by (metis prod.exhaust)
  have u: "sc_synthetic u = sc_synthetic s" using observe_line_fields [OF o] by auto
  have e: "ensure_headers_committed_before_write env s = (True, s\<lparr>sc_deferred := None\<rparr>)"
    using assms by (cases s) (simp add: ensure_headers_committed_before_write_def)
  have ec: "sc_synthetic (snd (emit_and_count env True tn line v)) = sc_synthetic v" for tn v
    by (simp add: emit_and_count_def emit_bytes_def Let_def split: option.split sum.split)
  have "sc_synthetic (snd (case emit_and_count env True tn line v of
            (Inr True, s4) \<Rightarrow> (Inr True, usage_line line s4) | r \<Rightarrow> r)) = sc_synthetic v" for tn v
    using ec [of tn v] by (cases "emit_and_count env True tn line v") (auto split: sum.split bool.split)
  with u o e show ?thesis by (auto simp: commit_data_def Let_def split: sum.split)
qed

section \<open>Witnesses\<close>

definition demo_env :: seam_env where
  "demo_env = \<lparr>se_emit = (\<lambda>n. Emit_Ok), se_headers = (\<lambda>n. None), se_can_shorten = (\<lambda>n. True),
     se_detail = oe_text\<rparr>"

definition done_observers :: observers where
  "done_observers = \<lparr>ob_terminal = Some (\<lambda>n d p. d = ''[DONE]''), ob_output = None, ob_clock = (\<lambda>n. 0)\<rparr>"

definition demo_failure :: failure_writer where
  "demo_failure exc st i u m = ''data: [DONE]'' @ [LF, LF]"

definition demo_seam :: seam where
  "demo_seam = (case new_seam (Some 7) ''openai'' None None ''chat'' ''chat'' False (Some demo_failure)
     False None 256 done_observers of Inr s \<Rightarrow> s | Inl _ \<Rightarrow> undefined)"

lemma demo_seam_reachable: "reachable_seam env demo_seam"
proof (rule seam_created)
  show "new_seam (Some 7) ''openai'' None None ''chat'' ''chat'' False (Some demo_failure)
     False None 256 done_observers = Inr demo_seam"
    by (simp add: demo_seam_def new_seam_def new_stats_def new_assembler_def)
qed

lemma demo_seam_deferred: "sc_deferred demo_seam = None"
  by (simp add: demo_seam_def new_seam_def new_stats_def new_assembler_def)

definition half_event :: bytes where
  "half_event = ''data: [DONE]'' @ [LF]"

definition demo_half :: seam where
  "demo_half = seam_step demo_env (Op_Data half_event) demo_seam"

lemma demo_half_reachable: "reachable_seam demo_env demo_half"
  unfolding demo_half_def by (intro seam_stepped demo_seam_reachable)

theorem seam_invariant_witness: "seam_ok demo_half"
  by (rule seam_invariant [OF demo_half_reachable])

theorem closed_seam_is_silent_witness:
  "\<exists>us. sc_trace (fold (seam_step demo_env) [Op_Data half_event, Op_Attach 3, Op_Headers 200] (close_seam demo_seam))
       = sc_trace (close_seam demo_seam) @ map Close_Up us"
  using closed_seam_is_silent [of "close_seam demo_seam" demo_env "[Op_Data half_event, Op_Attach 3, Op_Headers 200]"]
  by auto

theorem commit_data_honest_witness:
  "\<exists>s1. commit_data demo_env half_event demo_seam = (Inr True, s1)
     \<and> emitted s1 = emitted demo_seam @ [Emit Body half_event Emit_Ok]"
proof -
  obtain r s1 where run: "commit_data demo_env half_event demo_seam = (r, s1)" by (metis prod.exhaust)
  have "fst (commit_data demo_env half_event demo_seam) = Inr True" "half_event \<noteq> []" by code_simp+
  with run commit_data_honest [OF demo_seam_reachable, of demo_env half_event True s1] show ?thesis by auto
qed

lemma demo_half_facts:
  "sc_synthetic demo_half = Some demo_failure"
  "\<exists>w. fst (commit_terminal_failure demo_env (Other_Failure ''reset'') 502 demo_half) = Inr (True, w)"
proof -
  have "sc_synthetic demo_seam = Some demo_failure"
    by (simp add: demo_seam_def new_seam_def new_stats_def new_assembler_def)
  then show "sc_synthetic demo_half = Some demo_failure"
    by (simp add: demo_half_def commit_data_synthetic demo_seam_deferred)
  have "fst (commit_terminal_failure demo_env (Other_Failure ''reset'') 502 demo_half) = Inr (True, None, None)"
    by code_simp
  then show "\<exists>w. fst (commit_terminal_failure demo_env (Other_Failure ''reset'') 502 demo_half) = Inr (True, w)" by blast
qed

theorem failure_sent_once_witness:
  "\<exists>s1. commit_terminal_failure demo_env (Other_Failure ''reset'') 502 demo_half = (Inr (True, None, None), s1)
     \<and> sc_terminal_committed s1 \<and> sc_closed s1"
proof -
  obtain r s1 where run: "commit_terminal_failure demo_env (Other_Failure ''reset'') 502 demo_half = (r, s1)"
    by (metis prod.exhaust)
  have "fst (commit_terminal_failure demo_env (Other_Failure ''reset'') 502 demo_half) = Inr (True, None, None)"
    by code_simp
  with run failure_sent_once [OF demo_half_reachable demo_half_facts(1), of "Other_Failure ''reset''" 502 "(None, None)" s1]
  show ?thesis by auto
qed

text \<open>C39: The terminal is not always unique on the wire: on the failure path the frame in which the upstream
  broke off is completed and the failure event written behind it, whatever the completed frame is, so
  also if completing it makes it a terminal event.  On every reachable open stream without committed
  terminal, with its headers out (or none deferred), with writes that work and a frame pending,
  \<open>commit_terminal_failure\<close> reports the failure as sent and writes exactly two things: the completion
  of the pending frame and the failure event.  (The exception is not the frame limit, and the completion
  and the failure event are read without an error.)
\<close>
theorem unfinished_terminal_is_doubled:
  assumes "reachable_seam env s" "\<not> sc_closed s" "\<not> sc_terminal_committed s" "sc_synthetic s = Some render"
    and "sc_headers_committed s \<or> sc_deferred s = None"
    and "se_emit env = (\<lambda>_. Emit_Ok)"
    and "exc \<noteq> Size_Limit_Failure"
    and "pending_completion_bytes (sc_stats s) = Inr c" "c \<noteq> []"
    and "observe_bytes (sc_observers s) (sc_stats s) c = (st, None)"
    and "failure_event render exc status st s \<noteq> []"
    and "snd (observe_bytes (sc_observers s) (st\<lparr>ps_clock_reads := ps_clock_reads st + 1\<rparr>)
          (failure_event render exc status st s)) = None"
  shows "\<exists>s1. commit_terminal_failure env exc status s = (Inr (True, None, None), s1)
     \<and> emitted s1 = emitted s @ [Emit Completion c Emit_Ok, Emit Body (failure_event render exc status st s) Emit_Ok]"
proof -
  let ?ev = "failure_event render exc status st s"
  have ok: "seam_ok s" using assms(1) by (rule reachable_seam_ok)
  note e = headers_settled [OF ok assms(5)]
  define u where "u = (log_effect (Emit Completion c Emit_Ok) (s\<lparr>sc_emits := sc_emits s + 1\<rparr>))\<lparr>sc_stats := st\<rparr>"
  have f: "finish_pending_frame env exc s = (Inr None, u)"
    using assms(6-10) by (simp add: finish_pending_frame_def emit_bytes_def emit_error_def Let_def u_def log_effect_def)
  have u: "seam_ok u" using seam_ok_finish_frame [OF _ _ f] ok assms(2) by simp
  have "\<not> sc_closed u" "\<not> sc_terminal_committed u" "sc_headers_committed u \<or> sc_deferred u = None"
    "snd (observe_bytes (sc_observers u) ((sc_stats u)\<lparr>ps_clock_reads := ps_clock_reads (sc_stats u) + 1\<rparr>) ?ev) = None"
    using assms(2,3,5,12) by (simp_all add: u_def log_effect_def)
  from written_event [OF u this(1-3) assms(6,11) this(4)] obtain v where
    v: "commit_sse_bytes env ?ev True u = (Inr True, v)" "emitted v = emitted u @ [Emit Body ?ev Emit_Ok]" by blast
  have ev: "render exc status (ps_response_id (sc_stats u)) (sc_upstream_name u) (sc_model u) = ?ev"
    by (simp add: failure_event_def u_def log_effect_def)
  have "commit_terminal_failure env exc status s
      = (Inr (True, None, None), log_effect Close_Down (v\<lparr>sc_terminal_committed := True, sc_closed := True\<rparr>))"
    using assms(2-4) by (simp add: commit_terminal_failure_def e f ev responses_synthetic_terminal_failure_def v(1))
  moreover have "emitted u = emitted s @ [Emit Completion c Emit_Ok]" by (simp add: u_def emitted_def log_effect_def)
  ultimately show ?thesis using v(2) by (simp add: emitted_def log_effect_def)
qed

text \<open>A stream that broke off within \<open>data: [DONE]\<close>: both frames the client gets are terminal events.\<close>

theorem unfinished_terminal_is_doubled_witness:
  "(\<exists>s1. commit_terminal_failure demo_env (Other_Failure ''reset'') 502 demo_half = (Inr (True, None, None), s1)
     \<and> emitted s1 = [Emit Body half_event Emit_Ok, Emit Completion [LF] Emit_Ok, Emit Body (''data: [DONE]'' @ [LF, LF]) Emit_Ok])
   \<and> \<not> ps_terminal_seen (sc_stats demo_half)
   \<and> ps_terminal_seen (fst (observe_bytes (sc_observers demo_half) (sc_stats demo_half) [LF]))"
proof -
  let ?st = "fst (observe_bytes (sc_observers demo_half) (sc_stats demo_half) [LF])"
  have facts: "sc_closed demo_half = False" "sc_terminal_committed demo_half = False"
    "sc_headers_committed demo_half = False" "pending_completion_bytes (sc_stats demo_half) = Inr [LF]"
    "snd (observe_bytes (sc_observers demo_half) (sc_stats demo_half) [LF]) = None"
    "snd (observe_bytes (sc_observers demo_half) (?st\<lparr>ps_clock_reads := ps_clock_reads ?st + 1\<rparr>) (''data: [DONE]'' @ [LF, LF])) = None"
    "emitted demo_half = [Emit Body half_event Emit_Ok]"
    "\<not> ps_terminal_seen (sc_stats demo_half)" "ps_terminal_seen ?st"
    by code_simp+
  have none: "sc_deferred demo_half = None" "se_emit demo_env = (\<lambda>_. Emit_Ok)" "Other_Failure ''reset'' \<noteq> Size_Limit_Failure"
    by (code_simp, simp add: demo_env_def, simp)
  have st: "observe_bytes (sc_observers demo_half) (sc_stats demo_half) [LF] = (?st, None)" using facts(5) by (metis prod.collapse)
  have ev: "failure_event demo_failure exc status st s = ''data: [DONE]'' @ [LF, LF]" for exc status st s
    by (simp add: failure_event_def demo_failure_def)
  from unfinished_terminal_is_doubled [OF demo_half_reachable _ _ demo_half_facts(1) _ none(2,3) facts(4) _ st, of 502]
  show ?thesis using facts none(1) by (simp add: ev)
qed

end
