(* ===== verification/Request_Admission.thy ===== *)
theory Request_Admission
  imports Complex_Main Prelude
begin

text \<open>
  \<open>src-python/gateway_admission.py\<close>: admission of requests, cancellation of their upstream
  transports and the user-requested shutdown.

  The module is used by many threads.  Every section under a lock is one atomic operation;
  what a method does outside its locks is a program of actions that any other thread may
  interleave with.  Transports and listeners are handles; closing and calling them is recorded
  in the state (exceptions of either are swallowed by the code).
\<close>

section \<open>State\<close>

record admission =
  ad_cancelled :: bool
  ad_transport :: "nat option"
  ad_listeners :: "nat list"

definition new_admission :: admission where
  "new_admission = \<lparr>ad_cancelled = False, ad_transport = None, ad_listeners = []\<rparr>"

text \<open>The steps a thread still has to do after its locked section.\<close>

datatype act =
    Set_Flag nat
  | Collect nat
  | Invoke nat
  | Close_Transport nat
  | Revoke_Permissions

record gateway =
  gw_budget :: rat
  gw_open :: bool
  gw_started_at :: "rat option"
  gw_active :: "nat list"
  gw_drained :: bool
  gw_next :: nat
  gw_adm :: "nat \<Rightarrow> admission"
  gw_threads :: "act list list"
  gw_closed :: "nat list"
  gw_invoked :: "nat list"
  gw_revoked :: nat

definition USER_REQUESTED_SHUTDOWN_BUDGET :: rat where
  "USER_REQUESTED_SHUTDOWN_BUDGET = 2"

definition USER_REQUESTED_SHUTDOWN_OUTCOME :: string where
  "USER_REQUESTED_SHUTDOWN_OUTCOME = ''user_requested_shutdown''"

definition new_gateway :: "rat \<Rightarrow> gateway" where
  "new_gateway budget =
     \<lparr>gw_budget = max 0 budget, gw_open = True, gw_started_at = None, gw_active = [],
      gw_drained = True, gw_next = 0, gw_adm = (\<lambda>_. new_admission), gw_threads = [],
      gw_closed = [], gw_invoked = [], gw_revoked = 0\<rparr>"

section \<open>Operations: the locked sections\<close>

definition spawn :: "act list \<Rightarrow> gateway \<Rightarrow> gateway" where
  "spawn prog s = (if prog = [] then s else s\<lparr>gw_threads := gw_threads s @ [prog]\<rparr>)"

definition update_admission :: "nat \<Rightarrow> (admission \<Rightarrow> admission) \<Rightarrow> gateway \<Rightarrow> gateway" where
  "update_admission a f s = s\<lparr>gw_adm := (gw_adm s)(a := f (gw_adm s a))\<rparr>"

definition cancelled :: "gateway \<Rightarrow> nat \<Rightarrow> bool" where
  "cancelled s a \<longleftrightarrow> ad_cancelled (gw_adm s a)"

definition admit :: "gateway \<Rightarrow> nat option \<times> gateway" where
  "admit s =
     (if \<not> gw_open s then (None, s)
      else let a = gw_next s in
           (Some a, s\<lparr>gw_next := a + 1, gw_adm := (gw_adm s)(a := new_admission),
                      gw_active := gw_active s @ [a], gw_drained := False\<rparr>))"

definition complete :: "nat \<Rightarrow> gateway \<Rightarrow> gateway" where
  "complete a s =
     (let active = removeAll a (gw_active s) in
      s\<lparr>gw_active := active, gw_drained := (if active = [] then True else gw_drained s)\<rparr>)"

definition attach_upstream_transport :: "nat \<Rightarrow> nat \<Rightarrow> gateway \<Rightarrow> gateway" where
  "attach_upstream_transport a t s =
     (let s1 = update_admission a (\<lambda>ad. ad\<lparr>ad_transport := Some t\<rparr>) s in
      spawn (if cancelled s1 a then [Close_Transport t] else []) s1)"

definition add_cancel_listener :: "nat \<Rightarrow> nat \<Rightarrow> gateway \<Rightarrow> gateway" where
  "add_cancel_listener a l s =
     (let s1 = update_admission a (\<lambda>ad. ad\<lparr>ad_listeners := ad_listeners ad @ [l]\<rparr>) s in
      spawn (if cancelled s1 a then [Invoke l] else []) s1)"

definition cancel_program :: "nat \<Rightarrow> act list" where
  "cancel_program a = [Set_Flag a, Collect a]"

definition cancel_request :: "nat \<Rightarrow> gateway \<Rightarrow> gateway" where
  "cancel_request a s = spawn (cancel_program a) s"

definition close_admission :: "rat \<Rightarrow> gateway \<Rightarrow> nat \<times> gateway" where
  "close_admission now s =
     (let active = gw_active s;
          s1 = s\<lparr>gw_open := False,
                 gw_started_at := (case gw_started_at s of None \<Rightarrow> Some now | Some t \<Rightarrow> Some t)\<rparr>
      in (length active, spawn (concat (map cancel_program active) @ [Revoke_Permissions]) s1))"

definition remaining_shutdown_budget_seconds :: "rat \<Rightarrow> gateway \<Rightarrow> rat" where
  "remaining_shutdown_budget_seconds now s =
     (case gw_started_at s of
        None \<Rightarrow> gw_budget s
      | Some started \<Rightarrow> max 0 (gw_budget s - (now - started)))"

definition shutdown_requested :: "gateway \<Rightarrow> bool" where
  "shutdown_requested s \<longleftrightarrow> gw_started_at s \<noteq> None"

text \<open>\<open>raise_if_cancelled\<close>, and the sleep of a retry that a cancellation cuts short: \<open>woken\<close> is
  the state in which the wait returns, by the flag or by the timeout.\<close>

definition raise_if_cancelled :: "nat \<Rightarrow> gateway \<Rightarrow> string + unit" where
  "raise_if_cancelled a s =
     (if cancelled s a then Inl USER_REQUESTED_SHUTDOWN_OUTCOME else Inr ())"

definition sleep_for_retry_with_gateway_cancellation :: "nat option \<Rightarrow> gateway \<Rightarrow> string + unit" where
  "sleep_for_retry_with_gateway_cancellation current woken =
     (case current of
        None \<Rightarrow> Inr ()
      | Some a \<Rightarrow> (if cancelled woken a then raise_if_cancelled a woken else Inr ()))"

section \<open>The actions outside the locks\<close>

fun exec_act :: "act \<Rightarrow> gateway \<Rightarrow> act list \<times> gateway" where
  "exec_act (Set_Flag a) s = ([], update_admission a (\<lambda>ad. ad\<lparr>ad_cancelled := True\<rparr>) s)"
| "exec_act (Collect a) s =
     (map Invoke (ad_listeners (gw_adm s a))
        @ (case ad_transport (gw_adm s a) of None \<Rightarrow> [] | Some t \<Rightarrow> [Close_Transport t]), s)"
| "exec_act (Invoke l) s = ([], s\<lparr>gw_invoked := gw_invoked s @ [l]\<rparr>)"
| "exec_act (Close_Transport t) s = ([], s\<lparr>gw_closed := gw_closed s @ [t]\<rparr>)"
| "exec_act Revoke_Permissions s = ([], s\<lparr>gw_revoked := gw_revoked s + 1\<rparr>)"

definition run_thread :: "nat \<Rightarrow> gateway \<Rightarrow> gateway" where
  "run_thread i s =
     (if i < length (gw_threads s) then
        (case gw_threads s ! i of
           [] \<Rightarrow> s
         | x # rest \<Rightarrow>
             (let (todo, s1) = exec_act x s
              in s1\<lparr>gw_threads := (gw_threads s1)[i := todo @ rest]\<rparr>))
      else s)"

section \<open>The request of the current thread\<close>

definition activate_gateway_request :: "nat \<Rightarrow> nat option \<Rightarrow> nat option \<times> nat option" where
  "activate_gateway_request a current = (current, Some a)"

definition restore_gateway_request :: "nat option \<Rightarrow> nat option \<Rightarrow> nat option" where
  "restore_gateway_request previous current = (case previous of None \<Rightarrow> None | Some a \<Rightarrow> Some a)"

section \<open>All interleavings\<close>

datatype gw_op =
    Admit
  | Complete nat
  | Attach nat nat
  | Listen nat nat
  | Cancel nat
  | Shutdown rat
  | Run nat

fun gw_step :: "gw_op \<Rightarrow> gateway \<Rightarrow> gateway" where
  "gw_step Admit s = snd (admit s)"
| "gw_step (Complete a) s = complete a s"
| "gw_step (Attach a t) s = attach_upstream_transport a t s"
| "gw_step (Listen a l) s = add_cancel_listener a l s"
| "gw_step (Cancel a) s = cancel_request a s"
| "gw_step (Shutdown now) s = snd (close_admission now s)"
| "gw_step (Run i) s = run_thread i s"

text \<open>An admission is only known to others after \<open>admit\<close> returned it.\<close>

fun known :: "gw_op \<Rightarrow> gateway \<Rightarrow> bool" where
  "known (Complete a) s = (a < gw_next s)"
| "known (Attach a t) s = (a < gw_next s)"
| "known (Listen a l) s = (a < gw_next s)"
| "known (Cancel a) s = (a < gw_next s)"
| "known _ s = True"

inductive gw_reachable :: "gateway \<Rightarrow> bool" where
  gw_created: "gw_reachable (new_gateway budget)"
| gw_stepped: "gw_reachable s \<Longrightarrow> known op s \<Longrightarrow> gw_reachable (gw_step op s)"

inductive_cases gw_reachableE: "gw_reachable s"

definition pending_acts :: "gateway \<Rightarrow> act set" where
  "pending_acts s = (\<Union>th \<in> set (gw_threads s). set th)"

definition quiescent :: "gateway \<Rightarrow> bool" where
  "quiescent s \<longleftrightarrow> list_all (\<lambda>th. th = []) (gw_threads s)"

section \<open>Invariant\<close>

fun wf_prog :: "act list \<Rightarrow> bool" where
  "wf_prog [] = True"
| "wf_prog (Set_Flag a # r) = (Collect a \<in> set r \<and> wf_prog r)"
| "wf_prog (_ # r) = wf_prog r"

definition served :: "gateway \<Rightarrow> nat \<Rightarrow> bool" where
  "served s a \<longleftrightarrow>
     Collect a \<in> pending_acts s
     \<or> (\<forall>t. ad_transport (gw_adm s a) = Some t \<longrightarrow> t \<in> set (gw_closed s) \<or> Close_Transport t \<in> pending_acts s)
       \<and> (\<forall>l \<in> set (ad_listeners (gw_adm s a)). l \<in> set (gw_invoked s) \<or> Invoke l \<in> pending_acts s)"

definition gw_ok :: "gateway \<Rightarrow> bool" where
  "gw_ok s \<longleftrightarrow>
     0 \<le> gw_budget s
     \<and> (gw_drained s \<longleftrightarrow> gw_active s = [])
     \<and> distinct (gw_active s) \<and> (\<forall>a \<in> set (gw_active s). a < gw_next s)
     \<and> (gw_open s \<longleftrightarrow> gw_started_at s = None)
     \<and> (\<forall>th \<in> set (gw_threads s). wf_prog th)
     \<and> (\<forall>a. gw_next s \<le> a \<longrightarrow> \<not> cancelled s a)
     \<and> (\<forall>a. Set_Flag a \<in> pending_acts s \<longrightarrow> a < gw_next s)
     \<and> (\<forall>a. cancelled s a \<longrightarrow> served s a)
     \<and> (\<not> gw_open s \<longrightarrow> (\<forall>a \<in> set (gw_active s). cancelled s a \<or> Set_Flag a \<in> pending_acts s))"

lemma gw_okI:
  assumes "0 \<le> gw_budget s" "gw_drained s \<longleftrightarrow> gw_active s = []" "distinct (gw_active s)"
    "\<And>a. a \<in> set (gw_active s) \<Longrightarrow> a < gw_next s" "gw_open s \<longleftrightarrow> gw_started_at s = None"
    "\<forall>th \<in> set (gw_threads s). wf_prog th" "\<And>a. cancelled s a \<Longrightarrow> a < gw_next s"
    "\<And>a. Set_Flag a \<in> pending_acts s \<Longrightarrow> a < gw_next s"
    "\<And>a. cancelled s a \<Longrightarrow> served s a"
    "\<And>a. \<not> gw_open s \<Longrightarrow> a \<in> set (gw_active s) \<Longrightarrow> cancelled s a \<or> Set_Flag a \<in> pending_acts s"
  shows "gw_ok s"
  unfolding gw_ok_def using assms by (intro conjI allI ballI impI) (blast dest: leD)+

lemma gw_okD:
  assumes "gw_ok s"
  shows "0 \<le> gw_budget s" "gw_drained s \<longleftrightarrow> gw_active s = []" "distinct (gw_active s)"
    "\<And>a. a \<in> set (gw_active s) \<Longrightarrow> a < gw_next s" "gw_open s \<longleftrightarrow> gw_started_at s = None"
    "\<forall>th \<in> set (gw_threads s). wf_prog th" "\<And>a. cancelled s a \<Longrightarrow> a < gw_next s"
    "\<And>a. Set_Flag a \<in> pending_acts s \<Longrightarrow> a < gw_next s"
    "\<And>a. cancelled s a \<Longrightarrow> served s a"
    "\<And>a. \<not> gw_open s \<Longrightarrow> a \<in> set (gw_active s) \<Longrightarrow> cancelled s a \<or> Set_Flag a \<in> pending_acts s"
  using assms unfolding gw_ok_def by (meson not_less)+

lemma pending_spawn [simp]: "pending_acts (spawn p s) = pending_acts s \<union> set p"
  by (auto simp: spawn_def pending_acts_def)

lemma spawn_fields [simp]:
  "gw_budget (spawn p s) = gw_budget s" "gw_open (spawn p s) = gw_open s"
  "gw_started_at (spawn p s) = gw_started_at s" "gw_active (spawn p s) = gw_active s"
  "gw_drained (spawn p s) = gw_drained s" "gw_next (spawn p s) = gw_next s"
  "gw_adm (spawn p s) = gw_adm s" "gw_closed (spawn p s) = gw_closed s"
  "gw_invoked (spawn p s) = gw_invoked s" "cancelled (spawn p s) = cancelled s"
  by (auto simp: spawn_def cancelled_def fun_eq_iff)

lemma spawn_threads: "(\<forall>th \<in> set (gw_threads (spawn p s)). wf_prog th) \<longleftrightarrow>
    (\<forall>th \<in> set (gw_threads s). wf_prog th) \<and> wf_prog p"
  by (auto simp: spawn_def)

lemma wf_prog_append: "wf_prog p \<Longrightarrow> wf_prog q \<Longrightarrow> wf_prog (p @ q)"
  by (induction p rule: wf_prog.induct) auto

lemma wf_prog_plain: "\<forall>x \<in> set p. \<exists>l. x = Invoke l \<or> x = Close_Transport l \<Longrightarrow> wf_prog p"
  by (induction p rule: wf_prog.induct) auto

lemma wf_close_program: "wf_prog (concat (map cancel_program as) @ [Revoke_Permissions])"
  by (induction as) (auto simp: cancel_program_def)

lemma gw_ok_admit: "gw_ok s \<Longrightarrow> gw_ok (snd (admit s))"
  by (auto simp: gw_ok_def admit_def Let_def cancelled_def new_admission_def served_def pending_acts_def less_Suc_eq)

lemma gw_ok_complete: "gw_ok s \<Longrightarrow> gw_ok (complete a s)"
proof -
  assume ok: "gw_ok s"
  have same: "pending_acts (complete a s) = pending_acts s" "cancelled (complete a s) = cancelled s"
    "served (complete a s) = served s"
    by (auto simp: complete_def Let_def pending_acts_def cancelled_def served_def fun_eq_iff)
  have "gw_active s = [] \<Longrightarrow> removeAll a (gw_active s) = []" by simp
  with ok show ?thesis unfolding gw_ok_def same
    by (auto simp: complete_def Let_def distinct_removeAll)
qed

lemma served_spawn: "served s a \<Longrightarrow> served (spawn p s) a"
  by (auto simp: served_def)

lemma gw_ok_attach:
  assumes ok: "gw_ok s" and a: "a < gw_next s"
  shows "gw_ok (attach_upstream_transport a t s)"
proof -
  define s1 where "s1 = update_admission a (\<lambda>ad. ad\<lparr>ad_transport := Some t\<rparr>) s"
  have same: "pending_acts s1 = pending_acts s" "cancelled s1 = cancelled s"
    "gw_adm s1 = (gw_adm s)(a := gw_adm s a\<lparr>ad_transport := Some t\<rparr>)"
    by (auto simp: s1_def update_admission_def pending_acts_def cancelled_def fun_eq_iff)
  have wf: "wf_prog (if cancelled s1 a then [Close_Transport t] else [])" by simp
  have "served (spawn (if cancelled s1 a then [Close_Transport t] else []) s1) b" if c: "cancelled s b" for b
  proof -
    have b: "served s b" using ok c by (simp add: gw_ok_def)
    have keep: "gw_closed s1 = gw_closed s" "gw_invoked s1 = gw_invoked s" by (simp_all add: s1_def update_admission_def)
    show ?thesis
    proof (cases "b = a")
      case True
      with b c show ?thesis by (simp add: served_def same keep) blast
    next
      case False
      with b show ?thesis by (simp add: served_def same keep) blast
    qed
  qed
  note served = this
  define s2 where "s2 = spawn (if cancelled s1 a then [Close_Transport t] else []) s1"
  have f: "gw_budget s2 = gw_budget s" "gw_open s2 = gw_open s" "gw_started_at s2 = gw_started_at s"
    "gw_active s2 = gw_active s" "gw_drained s2 = gw_drained s" "gw_next s2 = gw_next s"
    "cancelled s2 = cancelled s" "pending_acts s2 = pending_acts s \<union> (if cancelled s a then {Close_Transport t} else {})"
    by (simp_all add: s2_def same) (simp_all add: s1_def update_admission_def)
  have "gw_threads s1 = gw_threads s" by (simp add: s1_def update_admission_def)
  then have wf: "\<forall>th \<in> set (gw_threads s2). wf_prog th"
    using gw_okD(6) [OF ok] by (simp add: s2_def spawn_threads)
  have "gw_ok s2"
  proof (rule gw_okI)
    show "served s2 b" if "cancelled s2 b" for b
      using served that by (simp add: s2_def same)
  qed (use gw_okD [OF ok] wf in \<open>auto simp: f split: if_splits\<close>)
  then show ?thesis by (simp add: attach_upstream_transport_def Let_def s2_def s1_def)
qed

lemma gw_ok_listen:
  assumes ok: "gw_ok s" and a: "a < gw_next s"
  shows "gw_ok (add_cancel_listener a l s)"
proof -
  define s1 where "s1 = update_admission a (\<lambda>ad. ad\<lparr>ad_listeners := ad_listeners ad @ [l]\<rparr>) s"
  have same: "pending_acts s1 = pending_acts s" "cancelled s1 = cancelled s"
    "gw_adm s1 = (gw_adm s)(a := gw_adm s a\<lparr>ad_listeners := ad_listeners (gw_adm s a) @ [l]\<rparr>)"
    by (auto simp: s1_def update_admission_def pending_acts_def cancelled_def fun_eq_iff)
  have "served (spawn (if cancelled s1 a then [Invoke l] else []) s1) b" if c: "cancelled s b" for b
  proof -
    have b: "served s b" using ok c by (simp add: gw_ok_def)
    have keep: "gw_closed s1 = gw_closed s" "gw_invoked s1 = gw_invoked s" by (simp_all add: s1_def update_admission_def)
    show ?thesis
    proof (cases "b = a")
      case True
      with b c show ?thesis by (simp add: served_def same keep) blast
    next
      case False
      with b show ?thesis by (simp add: served_def same keep) blast
    qed
  qed
  note served = this
  define s2 where "s2 = spawn (if cancelled s1 a then [Invoke l] else []) s1"
  have f: "gw_budget s2 = gw_budget s" "gw_open s2 = gw_open s" "gw_started_at s2 = gw_started_at s"
    "gw_active s2 = gw_active s" "gw_drained s2 = gw_drained s" "gw_next s2 = gw_next s"
    "cancelled s2 = cancelled s" "pending_acts s2 = pending_acts s \<union> (if cancelled s a then {Invoke l} else {})"
    by (simp_all add: s2_def same) (simp_all add: s1_def update_admission_def)
  have "gw_threads s1 = gw_threads s" by (simp add: s1_def update_admission_def)
  then have wf: "\<forall>th \<in> set (gw_threads s2). wf_prog th"
    using gw_okD(6) [OF ok] by (simp add: s2_def spawn_threads)
  have "gw_ok s2"
  proof (rule gw_okI)
    show "served s2 b" if "cancelled s2 b" for b
      using served that by (simp add: s2_def same)
  qed (use gw_okD [OF ok] wf in \<open>auto simp: f split: if_splits\<close>)
  then show ?thesis by (simp add: add_cancel_listener_def Let_def s2_def s1_def)
qed

lemma gw_ok_spawn:
  assumes ok: "gw_ok s" and p: "wf_prog p" "\<And>a. Set_Flag a \<in> set p \<Longrightarrow> a < gw_next s"
  shows "gw_ok (spawn p s)"
proof (rule gw_okI)
  show "served (spawn p s) a" if "cancelled (spawn p s) a" for a
    using gw_okD(9) [OF ok, of a] that by (auto simp: served_def)
  show "cancelled (spawn p s) a \<or> Set_Flag a \<in> pending_acts (spawn p s)"
    if "\<not> gw_open (spawn p s)" "a \<in> set (gw_active (spawn p s))" for a
    using gw_okD(10) [OF ok, of a] that by auto
qed (use gw_okD(1-8) [OF ok] p in \<open>auto simp: spawn_threads\<close>)

lemma set_flag_close_program:
  "Set_Flag a \<in> set (concat (map cancel_program as) @ [Revoke_Permissions]) \<longleftrightarrow> a \<in> set as"
  by (auto simp: cancel_program_def)

lemma gw_ok_shutdown: "gw_ok s \<Longrightarrow> gw_ok (snd (close_admission now s))"
proof -
  assume ok: "gw_ok s"
  define p where "p = concat (map cancel_program (gw_active s)) @ [Revoke_Permissions]"
  define s1 where "s1 = s\<lparr>gw_open := False,
     gw_started_at := (case gw_started_at s of None \<Rightarrow> Some now | Some t \<Rightarrow> Some t)\<rparr>"
  have f: "gw_budget s1 = gw_budget s" "gw_active s1 = gw_active s" "gw_drained s1 = gw_drained s"
    "gw_next s1 = gw_next s" "cancelled s1 = cancelled s" "pending_acts s1 = pending_acts s"
    "gw_threads s1 = gw_threads s" "served s1 = served s" "\<not> gw_open s1" "gw_started_at s1 \<noteq> None"
    by (auto simp: s1_def cancelled_def pending_acts_def served_def fun_eq_iff split: option.split)
  have p: "wf_prog p" "\<And>a. Set_Flag a \<in> set p \<longleftrightarrow> a \<in> set (gw_active s)"
    unfolding p_def by (simp_all only: wf_close_program set_flag_close_program)
  have "gw_ok (spawn p s1)"
  proof (rule gw_okI)
    show "served (spawn p s1) a" if "cancelled (spawn p s1) a" for a
    proof -
      have "served s1 a" using gw_okD(9) [OF ok, of a] that by (simp add: f)
      then show ?thesis by (rule served_spawn)
    qed
  qed (use gw_okD(1-8) [OF ok] p f in \<open>auto simp: spawn_threads\<close>)
  then show ?thesis by (simp add: close_admission_def Let_def p_def s1_def)
qed

text \<open>One action of one thread: what it takes from the pending actions and what it adds.\<close>

lemma pending_step:
  assumes "i < length ths" "ths ! i = x # rest"
  shows "(\<Union>th \<in> set ths. set th) \<subseteq> insert x (\<Union>th \<in> set (ths[i := p @ rest]). set th)"
    "set p \<subseteq> (\<Union>th \<in> set (ths[i := p @ rest]). set th)"
    "(\<Union>th \<in> set (ths[i := p @ rest]). set th) \<subseteq> set p \<union> (\<Union>th \<in> set ths. set th)"
    "set rest \<subseteq> (\<Union>th \<in> set (ths[i := p @ rest]). set th)"
proof -
  have i: "p @ rest \<in> set (ths[i := p @ rest])" using assms(1) by (simp add: set_update_memI)
  show "set p \<subseteq> (\<Union>th \<in> set (ths[i := p @ rest]). set th)"
    "set rest \<subseteq> (\<Union>th \<in> set (ths[i := p @ rest]). set th)" using i by auto
  show "(\<Union>th \<in> set ths. set th) \<subseteq> insert x (\<Union>th \<in> set (ths[i := p @ rest]). set th)"
  proof
    fix y assume "y \<in> (\<Union>th \<in> set ths. set th)"
    then obtain th where "th \<in> set ths" "y \<in> set th" by blast
    then obtain j where j: "j < length ths" "y \<in> set (ths ! j)" by (metis in_set_conv_nth)
    show "y \<in> insert x (\<Union>th \<in> set (ths[i := p @ rest]). set th)"
    proof (cases "j = i")
      case True
      with j assms have "y = x \<or> y \<in> set (p @ rest)" by auto
      with i show ?thesis by blast
    next
      case False
      then have "ths ! j \<in> set (ths[i := p @ rest])" using j(1)
        by (metis length_list_update nth_list_update_neq nth_mem)
      with j(2) show ?thesis by blast
    qed
  qed
  show "(\<Union>th \<in> set (ths[i := p @ rest]). set th) \<subseteq> set p \<union> (\<Union>th \<in> set ths. set th)"
  proof
    fix y assume "y \<in> (\<Union>th \<in> set (ths[i := p @ rest]). set th)"
    then obtain th where th: "th \<in> set (ths[i := p @ rest])" "y \<in> set th" by blast
    from set_update_subset_insert [of ths i "p @ rest"] th(1) have "th = p @ rest \<or> th \<in> set ths" by blast
    moreover have "set rest \<subseteq> set (ths ! i)" using assms(2) by auto
    ultimately show "y \<in> set p \<union> (\<Union>th \<in> set ths. set th)"
      using th(2) nth_mem [OF assms(1)] by auto
  qed
qed

lemma exec_act_fields:
  assumes "exec_act x s = (todo, s1)"
  shows "gw_budget s1 = gw_budget s" "gw_open s1 = gw_open s" "gw_started_at s1 = gw_started_at s"
    "gw_active s1 = gw_active s" "gw_drained s1 = gw_drained s" "gw_next s1 = gw_next s"
    "gw_threads s1 = gw_threads s" "wf_prog todo" "\<And>a. Set_Flag a \<notin> set todo" "\<And>a. Collect a \<notin> set todo"
    "cancelled s1 a \<longleftrightarrow> cancelled s a \<or> x = Set_Flag a"
    "ad_transport (gw_adm s1 a) = ad_transport (gw_adm s a)"
    "ad_listeners (gw_adm s1 a) = ad_listeners (gw_adm s a)"
    "set (gw_closed s1) = set (gw_closed s) \<union> {t. x = Close_Transport t}"
    "set (gw_invoked s1) = set (gw_invoked s) \<union> {l. x = Invoke l}"
  using assms
  by (cases x; auto simp: update_admission_def cancelled_def split: option.splits intro!: wf_prog_plain)+

lemma gw_ok_run:
  assumes ok: "gw_ok s"
  shows "gw_ok (run_thread i s)"
proof (cases "i < length (gw_threads s) \<and> gw_threads s ! i \<noteq> []")
  case False
  then have "run_thread i s = s" by (auto simp: run_thread_def split: list.split)
  with ok show ?thesis by simp
next
  case True
  then obtain x rest where th: "gw_threads s ! i = x # rest" by (auto simp: neq_Nil_conv)
  obtain todo s1 where ex: "exec_act x s = (todo, s1)" by (metis prod.exhaust)
  note f = exec_act_fields [OF ex]
  define s2 where "s2 = s1\<lparr>gw_threads := (gw_threads s1)[i := todo @ rest]\<rparr>"
  have run: "run_thread i s = s2" using True th by (simp add: run_thread_def ex s2_def)
  have f2: "gw_budget s2 = gw_budget s" "gw_open s2 = gw_open s" "gw_started_at s2 = gw_started_at s"
    "gw_active s2 = gw_active s" "gw_drained s2 = gw_drained s" "gw_next s2 = gw_next s"
    "gw_threads s2 = (gw_threads s)[i := todo @ rest]" "\<And>a. cancelled s2 a \<longleftrightarrow> cancelled s a \<or> x = Set_Flag a"
    using f by (auto simp: s2_def cancelled_def)
  note ps = pending_step [of i "gw_threads s" x rest todo]
  have pend: "pending_acts s \<subseteq> insert x (pending_acts s2)" "set todo \<subseteq> pending_acts s2"
    "pending_acts s2 \<subseteq> set todo \<union> pending_acts s" "set rest \<subseteq> pending_acts s2"
    using ps True th by (simp_all add: pending_acts_def f2)
  have thread: "wf_prog (x # rest)" using gw_okD(6) [OF ok] nth_mem [of i "gw_threads s"] True th by metis
  have "x # rest \<in> set (gw_threads s)" using True th nth_mem [of i "gw_threads s"] by metis
  then have x_pend: "x \<in> pending_acts s" unfolding pending_acts_def by (rule UN_I) simp
  have keep: "served s2 a" if s: "served s a" for a
  proof (cases "x = Collect a")
    case True
    have "set (map Invoke (ad_listeners (gw_adm s a))
        @ (case ad_transport (gw_adm s a) of None \<Rightarrow> [] | Some t \<Rightarrow> [Close_Transport t])) = set todo"
      using ex True by auto
    with pend(2) have "(\<forall>t. ad_transport (gw_adm s a) = Some t \<longrightarrow> Close_Transport t \<in> pending_acts s2)
        \<and> (\<forall>l \<in> set (ad_listeners (gw_adm s a)). Invoke l \<in> pending_acts s2)" by auto
    then show ?thesis using f(12,13) [of a] by (auto simp: served_def s2_def)
  next
    case False
    with s pend(1) f(12,13) [of a] f(14,15) show ?thesis
      by (fastforce simp: served_def s2_def)
  qed
  have "gw_ok s2"
  proof (rule gw_okI)
    show "\<forall>th \<in> set (gw_threads s2). wf_prog th"
    proof
      fix th assume "th \<in> set (gw_threads s2)"
      then have "th = todo @ rest \<or> th \<in> set (gw_threads s)"
        using set_update_subset_insert [of "gw_threads s" i "todo @ rest"] by (auto simp: f2)
      moreover have "wf_prog rest" using thread by (cases x) auto
      ultimately show "wf_prog th" using f(8) gw_okD(6) [OF ok] by (auto intro: wf_prog_append)
    qed
    show "a < gw_next s2" if "cancelled s2 a" for a
      using that gw_okD(7,8) [OF ok, of a] x_pend by (auto simp: f2)
    show "a < gw_next s2" if "Set_Flag a \<in> pending_acts s2" for a
      using that pend(3) f(9) gw_okD(8) [OF ok, of a] by (auto simp: f2)
    show "served s2 a" if "cancelled s2 a" for a
    proof (cases "x = Set_Flag a")
      case True
      then have "Collect a \<in> set rest" using thread by simp
      with pend(4) show ?thesis by (auto simp: served_def)
    next
      case False
      with that have "cancelled s a" by (simp add: f2)
      with gw_okD(9) [OF ok] keep show ?thesis by blast
    qed
    show "cancelled s2 a \<or> Set_Flag a \<in> pending_acts s2" if "\<not> gw_open s2" "a \<in> set (gw_active s2)" for a
      using gw_okD(10) [OF ok, of a] that pend(1) by (auto simp: f2)
  qed (use gw_okD [OF ok] in \<open>auto simp: f2\<close>)
  then show ?thesis by (simp add: run)
qed

lemma gw_ok_step: "gw_ok s \<Longrightarrow> known op s \<Longrightarrow> gw_ok (gw_step op s)"
  by (cases op)
     (auto simp: gw_ok_admit gw_ok_complete gw_ok_attach gw_ok_listen gw_ok_run gw_ok_shutdown
        cancel_request_def cancel_program_def intro!: gw_ok_spawn)

lemma gw_reachable_ok: "gw_reachable s \<Longrightarrow> gw_ok s"
proof (induction rule: gw_reachable.induct)
  case (gw_created budget)
  show ?case
    by (rule gw_okI) (auto simp: new_gateway_def pending_acts_def cancelled_def new_admission_def)
qed (auto intro: gw_ok_step)

end
