(* ===== verification/Request_Admission_Properties.thy ===== *)
theory Request_Admission_Properties
  imports Request_Admission
begin

text \<open>
  Cancellation and shutdown under every interleaving: nothing attached to a cancelled request
  survives, nothing is admitted after the shutdown, and the work a shutdown starts ends.
\<close>

text \<open>C32: In every reachable state the drained signal is set exactly when no request is active, the
  active requests are distinct, admission is open exactly until a shutdown starts, a cancelled
  request's transport and listeners are served or still in some thread's hands, and after the
  shutdown every active request is cancelled or about to be.\<close>
theorem gateway_invariant:
  assumes "gw_reachable s"
  shows "gw_ok s"
  using assms by (rule gw_reachable_ok)

lemma quiescent_pending: "quiescent s \<Longrightarrow> pending_acts s = {}"
  by (auto simp: quiescent_def pending_acts_def list_all_iff)

text \<open>C20: No transport and no listener escapes a cancellation, however \<open>cancel\<close>,
  \<open>attach_upstream_transport\<close> and \<open>add_cancel_listener\<close> race: once no thread has an unfinished
  action, the transport attached to a cancelled request is closed and every listener registered
  for it was called.\<close>
theorem cancellation_reaches_all:
  assumes "gw_reachable s" and "quiescent s" and "cancelled s a"
  shows "(case ad_transport (gw_adm s a) of None \<Rightarrow> True | Some t \<Rightarrow> t \<in> set (gw_closed s))
       \<and> set (ad_listeners (gw_adm s a)) \<subseteq> set (gw_invoked s)"
proof -
  have "served s a" using gw_okD(9) [OF gw_reachable_ok [OF assms(1)] assms(3)] .
  with quiescent_pending [OF assms(2)] show ?thesis by (auto simp: served_def split: option.split)
qed

text \<open>After the shutdown and once its threads have finished, every request that is still
  active is cancelled, so its \<open>raise_if_cancelled\<close> raises.\<close>
theorem shutdown_cancels_active:
  assumes "gw_reachable s" and "shutdown_requested s" and "quiescent s"
  shows "list_all (\<lambda>a. raise_if_cancelled a s = Inl USER_REQUESTED_SHUTDOWN_OUTCOME) (gw_active s)"
proof -
  note ok = gw_okD [OF gw_reachable_ok [OF assms(1)]]
  have "\<not> gw_open s" using ok(5) assms(2) by (simp add: shutdown_requested_def)
  with ok(10) quiescent_pending [OF assms(3)] show ?thesis
    by (simp add: list_all_iff raise_if_cancelled_def)
qed

lemma closed_step:
  assumes "\<not> gw_open s"
  shows "\<not> gw_open (gw_step op s) \<and> set (gw_active (gw_step op s)) \<subseteq> set (gw_active s)"
proof (cases op)
  case (Run i)
  show ?thesis
  proof (cases "i < length (gw_threads s) \<and> gw_threads s ! i \<noteq> []")
    case True
    then obtain x rest where th: "gw_threads s ! i = x # rest" by (auto simp: neq_Nil_conv)
    obtain todo s1 where ex: "exec_act x s = (todo, s1)" by (metis prod.exhaust)
    from True th exec_act_fields(2,4) [OF ex] assms show ?thesis
      by (simp add: Run run_thread_def ex)
  next
    case False
    then have "run_thread i s = s" by (auto simp: run_thread_def split: list.split)
    with assms Run show ?thesis by simp
  qed
qed (use assms in \<open>auto simp: admit_def complete_def attach_upstream_transport_def add_cancel_listener_def
      cancel_request_def close_admission_def update_admission_def Let_def\<close>)

text \<open>Admission stays closed: after a shutdown started, \<open>admit\<close> refuses, in every continuation
  of any operations the set of active requests only shrinks, and it is refused again there.\<close>
theorem no_admission_after_shutdown:
  assumes "gw_reachable s" and "shutdown_requested s"
  shows "fst (admit (fold gw_step ops s)) = None \<and> set (gw_active (fold gw_step ops s)) \<subseteq> set (gw_active s)"
proof -
  have "\<not> gw_open s" using gw_okD(5) [OF gw_reachable_ok [OF assms(1)]] assms(2)
    by (simp add: shutdown_requested_def)
  then have "\<not> gw_open (fold gw_step ops s) \<and> set (gw_active (fold gw_step ops s)) \<subseteq> set (gw_active s)"
  proof (induction ops arbitrary: s)
    case (Cons op ops)
    from Cons.IH [of "gw_step op s"] closed_step [OF Cons.prems, of op] show ?case by fastforce
  qed simp
  then show ?thesis by (simp add: admit_def)
qed

section \<open>The threads' work ends\<close>

fun act_weight :: "gateway \<Rightarrow> act \<Rightarrow> nat" where
  "act_weight s (Collect a) = 2 + length (ad_listeners (gw_adm s a))"
| "act_weight s _ = 1"

definition prog_weight :: "gateway \<Rightarrow> act list \<Rightarrow> nat" where
  "prog_weight s p = sum_list (map (act_weight s) p)"

definition work :: "gateway \<Rightarrow> nat" where
  "work s = sum_list (map (prog_weight s) (gw_threads s))"

lemma prog_weight_simps [simp]:
  "prog_weight s [] = 0" "prog_weight s (x # p) = act_weight s x + prog_weight s p"
  "prog_weight s (p @ q) = prog_weight s p + prog_weight s q"
  "prog_weight s (map Invoke ls) = length ls"
  by (simp_all add: prog_weight_def comp_def sum_list_triv)

lemma act_weight_pos: "0 < act_weight s x"
  by (cases x) auto

lemma exec_act_weight:
  assumes "exec_act x s = (todo, s1)"
  shows "prog_weight s todo < act_weight s x" "act_weight s1 = act_weight s"
proof -
  show "prog_weight s todo < act_weight s x" using assms by (cases x) (auto split: option.split)
  have "act_weight s1 y = act_weight s y" for y using exec_act_fields(13) [OF assms] by (cases y) auto
  then show "act_weight s1 = act_weight s" by blast
qed

lemma sum_list_nat_update:
  fixes f :: "'a \<Rightarrow> nat"
  shows "i < length xs \<Longrightarrow> sum_list (map f (xs[i := y])) + f (xs ! i) = sum_list (map f xs) + f y"
  by (induction xs arbitrary: i) (auto simp: nth_Cons split: nat.splits)

lemma thread_work_drops:
  assumes "i < length (gw_threads s)" and "gw_threads s ! i \<noteq> []"
  shows "work (run_thread i s) < work s"
proof -
  obtain x rest where th: "gw_threads s ! i = x # rest" using assms(2) by (auto simp: neq_Nil_conv)
  obtain todo s1 where ex: "exec_act x s = (todo, s1)" by (metis prod.exhaust)
  have run: "run_thread i s = s1\<lparr>gw_threads := (gw_threads s)[i := todo @ rest]\<rparr>"
    using assms(1) th exec_act_fields(7) [OF ex] by (simp add: run_thread_def ex)
  have "act_weight (s1\<lparr>gw_threads := ts\<rparr>) y = act_weight s y" for ts y
    using exec_act_fields(13) [OF ex] by (cases y) auto
  then have "act_weight (s1\<lparr>gw_threads := ts\<rparr>) = act_weight s" for ts by blast
  then have "prog_weight (s1\<lparr>gw_threads := ts\<rparr>) = prog_weight s" for ts
    by (intro ext) (simp add: prog_weight_def)
  then have w: "work (run_thread i s) = sum_list (map (prog_weight s) ((gw_threads s)[i := todo @ rest]))"
    by (simp add: run work_def)
  have "sum_list (map (prog_weight s) ((gw_threads s)[i := todo @ rest])) + prog_weight s (x # rest)
      = work s + prog_weight s (todo @ rest)"
    using sum_list_nat_update [OF assms(1), of "prog_weight s" "todo @ rest"] th by (simp add: work_def)
  with w exec_act_weight(1) [OF ex] show ?thesis by simp
qed

text \<open>Every action a thread executes makes the outstanding work smaller, whatever the order: the
  actions a cancellation or a shutdown started always come to an end.\<close>
theorem thread_work_decreases:
  assumes "i < length (gw_threads s)" and "gw_threads s ! i \<noteq> []"
  shows "work (run_thread i s) < work s"
  using assms by (rule thread_work_drops)

lemma finishing_schedule: "\<exists>is. quiescent (fold run_thread is s)"
proof (induction "work s" arbitrary: s rule: less_induct)
  case less
  show ?case
  proof (cases "quiescent s")
    case True
    then show ?thesis by (intro exI [of _ "[]"]) simp
  next
    case False
    then obtain i where i: "i < length (gw_threads s)" "gw_threads s ! i \<noteq> []"
      by (auto simp: quiescent_def list_all_length)
    from less.hyps [OF thread_work_drops [OF i]] obtain js where "quiescent (fold run_thread js (run_thread i s))" by blast
    then show ?thesis by (intro exI [of _ "i # js"]) simp
  qed
qed

lemma run_fold_step: "fold run_thread is s = fold gw_step (map Run is) s"
  by (induction "is" arbitrary: s) auto

lemma reachable_runs: "gw_reachable s \<Longrightarrow> gw_reachable (fold run_thread is s)"
proof (induction "is" arbitrary: s)
  case (Cons i js)
  have "gw_reachable (gw_step (Run i) s)" by (rule gw_stepped [OF Cons.prems]) simp
  with Cons.IH show ?case by simp
qed simp

lemma run_active: "gw_active (run_thread i s) = gw_active s" "gw_started_at (run_thread i s) = gw_started_at s"
proof -
  have "gw_active (run_thread i s) = gw_active s \<and> gw_started_at (run_thread i s) = gw_started_at s"
  proof (cases "i < length (gw_threads s) \<and> gw_threads s ! i \<noteq> []")
    case True
    then obtain x rest where th: "gw_threads s ! i = x # rest" by (auto simp: neq_Nil_conv)
    obtain todo s1 where ex: "exec_act x s = (todo, s1)" by (metis prod.exhaust)
    from True th exec_act_fields(3,4) [OF ex] show ?thesis by (simp add: run_thread_def ex)
  qed (auto simp: run_thread_def split: list.split)
  then show "gw_active (run_thread i s) = gw_active s" "gw_started_at (run_thread i s) = gw_started_at s" by auto
qed

lemma runs_active: "gw_active (fold run_thread is s) = gw_active s"
    "gw_started_at (fold run_thread is s) = gw_started_at s"
  by (induction "is" arbitrary: s) (auto simp: run_active)

lemma completed_all:
  "gw_active (fold complete as s) = filter (\<lambda>a. a \<notin> set as) (gw_active s)"
  "gw_open (fold complete as s) = gw_open s"
  by (induction as arbitrary: s) (auto simp: complete_def Let_def removeAll_filter_not_eq intro!: filter_cong)

lemma completed_ok: "gw_ok s \<Longrightarrow> gw_ok (fold complete as s)"
  by (induction as arbitrary: s) (auto intro: gw_ok_complete)

text \<open>C33: A shutdown completes: from every reachable state the threads can be run to the end of
  their actions, and then all requests that were active when \<open>close_admission\<close> was called are
  cancelled, their transports closed and their listeners called.  Once each of them has completed
  (in any order, whatever else is completed too), no request is active, the gateway is drained and it
  admits none.\<close>
theorem shutdown_completes:
  assumes "gw_reachable s"
  shows "\<exists>is s'. s' = fold run_thread is (snd (close_admission now s)) \<and> quiescent s'
     \<and> list_all (\<lambda>a. cancelled s' a
          \<and> (case ad_transport (gw_adm s' a) of None \<Rightarrow> True | Some t \<Rightarrow> t \<in> set (gw_closed s'))
          \<and> set (ad_listeners (gw_adm s' a)) \<subseteq> set (gw_invoked s')) (gw_active s)
     \<and> (\<forall>ended. set (gw_active s) \<subseteq> set ended \<longrightarrow>
          gw_active (fold complete ended s') = [] \<and> gw_drained (fold complete ended s')
          \<and> fst (admit (fold complete ended s')) = None)"
proof -
  define s0 where "s0 = snd (close_admission now s)"
  have "gw_reachable (gw_step (Shutdown now) s)" by (rule gw_stepped [OF assms]) simp
  then have r0: "gw_reachable s0" by (simp add: s0_def)
  obtain js where q: "quiescent (fold run_thread js s0)" using finishing_schedule by blast
  define s' where "s' = fold run_thread js s0"
  have r: "gw_reachable s'" unfolding s'_def by (rule reachable_runs [OF r0])
  have act: "gw_active s' = gw_active s" "gw_started_at s' \<noteq> None"
    by (simp_all add: s'_def runs_active s0_def close_admission_def Let_def split: option.split)
  note ok = gw_okD [OF gw_reachable_ok [OF r]]
  have p: "pending_acts s' = {}" using q by (simp add: s'_def quiescent_pending)
  have "cancelled s' a \<and> served s' a" if "a \<in> set (gw_active s)" for a
  proof -
    have "cancelled s' a" using ok(5) ok(10) [of a] act that p by auto
    with ok(9) show ?thesis by blast
  qed
  then have "list_all (\<lambda>a. cancelled s' a
          \<and> (case ad_transport (gw_adm s' a) of None \<Rightarrow> True | Some t \<Rightarrow> t \<in> set (gw_closed s'))
          \<and> set (ad_listeners (gw_adm s' a)) \<subseteq> set (gw_invoked s')) (gw_active s)"
    by (auto simp: list_all_iff served_def p split: option.split)
  moreover have "gw_active (fold complete ended s') = [] \<and> gw_drained (fold complete ended s')
      \<and> fst (admit (fold complete ended s')) = None" if "set (gw_active s) \<subseteq> set ended" for ended
  proof -
    have none: "gw_active (fold complete ended s') = []" using that by (auto simp: completed_all act filter_empty_conv)
    moreover have "gw_drained (fold complete ended s')"
      using gw_okD(2) [OF completed_ok [OF gw_reachable_ok [OF r]]] none by blast
    moreover have "\<not> gw_open (fold complete ended s')" using ok(5) act(2) by (simp add: completed_all)
    ultimately show ?thesis by (simp add: admit_def)
  qed
  ultimately show ?thesis using q unfolding s'_def s0_def by blast
qed

text \<open>The shutdown budget is never negative, never above the configured one, and only shrinks
  as the clock advances.\<close>
theorem shutdown_budget_bounds:
  assumes "gw_reachable s" and "gw_started_at s = Some started" and "started \<le> now" and "now \<le> later"
  shows "0 \<le> remaining_shutdown_budget_seconds later s
       \<and> remaining_shutdown_budget_seconds later s \<le> remaining_shutdown_budget_seconds now s
       \<and> remaining_shutdown_budget_seconds now s \<le> gw_budget s"
  using assms gw_okD(1) [OF gw_reachable_ok [OF assms(1)]]
  by (auto simp: remaining_shutdown_budget_seconds_def)

section \<open>Witnesses\<close>

text \<open>A request whose transport arrives between the flag and the collection of a cancellation.\<close>

definition demo_race :: gateway where
  "demo_race = fold gw_step [Admit, Listen 0 5, Cancel 0, Run 0, Attach 0 7, Run 1, Run 0, Run 0, Run 0]
     (new_gateway 2)"

definition demo_shutdown :: gateway where
  "demo_shutdown = fold gw_step [Admit, Attach 0 7, Admit, Shutdown 10, Run 0, Run 0, Run 0, Run 0, Run 0, Run 0]
     (new_gateway 2)"

fun all_known :: "gw_op list \<Rightarrow> gateway \<Rightarrow> bool" where
  "all_known [] s = True"
| "all_known (op # ops) s = (known op s \<and> all_known ops (gw_step op s))"

lemma reachable_fold: "gw_reachable s \<Longrightarrow> all_known ops s \<Longrightarrow> gw_reachable (fold gw_step ops s)"
  by (induction ops arbitrary: s) (auto intro: gw_stepped)

lemma demo_gateways: "gw_reachable demo_race" "gw_reachable demo_shutdown"
  unfolding demo_race_def demo_shutdown_def
  by (rule reachable_fold [OF gw_created]; code_simp)+

lemma demo_facts:
  "quiescent demo_race" "cancelled demo_race 0" "quiescent demo_shutdown" "shutdown_requested demo_shutdown"
  "gw_started_at demo_shutdown = Some 10"
  by code_simp+

theorem gateway_invariant_witness: "gw_ok demo_race"
  by (rule gateway_invariant [OF demo_gateways(1)])

theorem cancellation_reaches_all_witness:
  "7 \<in> set (gw_closed demo_race) \<and> 5 \<in> set (gw_invoked demo_race)"
proof -
  have "ad_transport (gw_adm demo_race 0) = Some 7" "ad_listeners (gw_adm demo_race 0) = [5]" by code_simp+
  with cancellation_reaches_all [OF demo_gateways(1) demo_facts(1,2)] show ?thesis by simp
qed

theorem shutdown_cancels_active_witness:
  "list_all (\<lambda>a. raise_if_cancelled a demo_shutdown = Inl USER_REQUESTED_SHUTDOWN_OUTCOME) (gw_active demo_shutdown)"
  by (rule shutdown_cancels_active [OF demo_gateways(2) demo_facts(4,3)])

theorem no_admission_after_shutdown_witness:
  "fst (admit (fold gw_step [Complete 0, Admit, Cancel 1] demo_shutdown)) = None"
  using no_admission_after_shutdown [OF demo_gateways(2) demo_facts(4), of "[Complete 0, Admit, Cancel 1]"] by blast

theorem thread_work_decreases_witness:
  "work (run_thread 0 (cancel_request 0 (new_gateway 2))) < work (cancel_request 0 (new_gateway 2))"
  by (rule thread_work_decreases) (simp_all add: cancel_request_def spawn_def cancel_program_def new_gateway_def)

theorem shutdown_completes_witness:
  "\<exists>is s'. s' = fold run_thread is (snd (close_admission 20 demo_race)) \<and> quiescent s'
     \<and> gw_active demo_race = [0] \<and> cancelled s' 0 \<and> gw_active (complete 0 s') = [] \<and> gw_drained (complete 0 s')"
proof -
  have a: "gw_active demo_race = [0]" by code_simp
  obtain "is" s' where s': "s' = fold run_thread is (snd (close_admission 20 demo_race))" "quiescent s'" "cancelled s' 0"
    and ended: "\<forall>ended. set (gw_active demo_race) \<subseteq> set ended \<longrightarrow>
          gw_active (fold complete ended s') = [] \<and> gw_drained (fold complete ended s')"
    using shutdown_completes [OF demo_gateways(1), of 20] a by auto
  from spec [OF ended, of "[0]"] a have "gw_active (complete 0 s') = [] \<and> gw_drained (complete 0 s')" by simp
  with s' a show ?thesis by blast
qed

theorem shutdown_budget_bounds_witness:
  "0 \<le> remaining_shutdown_budget_seconds 11 demo_shutdown
   \<and> remaining_shutdown_budget_seconds 11 demo_shutdown \<le> gw_budget demo_shutdown"
  using shutdown_budget_bounds [OF demo_gateways(2) demo_facts(5), of 11 11] by auto

end
