(* ===== verification/Model_Catalog.thy ===== *)
theory Model_Catalog
  imports Py_Json
begin

text \<open>
  \<open>src-python/maintained_catalog.py\<close>: the maintained model catalog.  The tables are those of
  the module, in its order; \<open>row\<close>, the index and the request-time functions are its
  functions.  Arguments that may be \<open>None\<close> are options of strings.
\<close>

section \<open>Data\<close>

definition THINKING_NONE :: string where "THINKING_NONE = ''none''"
definition THINKING_ALWAYS_ON :: string where "THINKING_ALWAYS_ON = ''always_on''"
definition THINKING_TOGGLE :: string where "THINKING_TOGGLE = ''toggle''"

definition MAINTAINED_PROVIDER_IDS :: "string list" where
  "MAINTAINED_PROVIDER_IDS = [''ollama-cloud'', ''volc'', ''minimax-cn'', ''kimi'', ''kimi-cn'', ''commandcode'', ''opencode-go'']"

definition RETIRED_MAINTAINED_MODELS :: "(string \<times> string) list" where
  "RETIRED_MAINTAINED_MODELS = [(''opencode-go'', ''omen-alpha'')]"

definition MAINTAINED_UPSTREAM_FORMATS :: "((string \<times> string) \<times> string) list" where
  "MAINTAINED_UPSTREAM_FORMATS = [((''opencode-go'', ''union-alpha''), ''anthropic_messages'')]"

definition maintained_upstream_format :: "string \<Rightarrow> string \<Rightarrow> string option" where
  "maintained_upstream_format provider_id model_id =
     dict_get MAINTAINED_UPSTREAM_FORMATS (provider_id, model_id)"

definition is_retired_maintained_model :: "string \<Rightarrow> string \<Rightarrow> bool" where
  "is_retired_maintained_model provider_id model_id \<longleftrightarrow>
     List.member RETIRED_MAINTAINED_MODELS (provider_id, model_id)"

definition FAMILY_POLICY_PROVIDER_IDS :: "string list" where
  "FAMILY_POLICY_PROVIDER_IDS = MAINTAINED_PROVIDER_IDS @ [''xai'']"

definition KIMI_PROVIDER_IDS :: "string list" where
  "KIMI_PROVIDER_IDS = [''kimi'', ''kimi-cn'']"

record family_policy =
  fp_levels :: "string list"
  fp_default_level :: "string option"
  fp_thinking_mode :: string
  fp_input_modalities :: "string list"

record maintained_model =
  mm_provider_id :: string
  mm_id :: string
  mm_display_name :: string
  mm_family :: string
  mm_context_window :: int
  mm_max_output_tokens :: int
  mm_input_modalities :: "string list"
  mm_reasoning_levels :: "string list"
  mm_default_reasoning_level :: "string option"
  mm_thinking_mode :: string
  mm_sort_order :: int
  mm_aliases :: "string list"
  mm_tool_surface_strategy :: "string option"
  mm_native_responses_tool_codec :: "string option"
  mm_multi_agent_version :: "string option"

record thinking_payload =
  tp_drop_reasoning_effort :: bool
  tp_reasoning_effort :: "string option"
  tp_thinking :: "(string \<times> string) list option"

definition policy :: "string list \<Rightarrow> string option \<Rightarrow> string \<Rightarrow> string list \<Rightarrow> family_policy" where
  "policy levels default_level mode modalities =
     \<lparr>fp_levels = levels, fp_default_level = default_level, fp_thinking_mode = mode,
      fp_input_modalities = modalities\<rparr>"

definition GENERIC :: family_policy where
  "GENERIC = policy [''low'', ''medium'', ''high'', ''xhigh'', ''max''] None THINKING_ALWAYS_ON [''text'']"

definition FAMILIES :: "(string \<times> family_policy) list" where
  "FAMILIES =
     [(''glm-5.3'', policy [''low'', ''high'', ''max''] (Some ''max'') THINKING_ALWAYS_ON [''text'']),
      (''glm-5.3-flash'', policy [''low'', ''high'', ''max''] (Some ''max'') THINKING_ALWAYS_ON [''text'', ''image'']),
      (''glm-5.2'', policy [''high'', ''max''] (Some ''max'') THINKING_ALWAYS_ON [''text'']),
      (''glm-5.1'', policy [''high''] (Some ''high'') THINKING_ALWAYS_ON [''text'']),
      (''glm-5'', policy [] (None) THINKING_TOGGLE [''text'']),
      (''kimi-k3'', policy [''low'', ''high'', ''max''] (Some ''max'') THINKING_ALWAYS_ON [''text'', ''image'']),
      (''kimi-k2.7'', policy [] (None) THINKING_ALWAYS_ON [''text'', ''image'']),
      (''kimi-k2.6'', policy [] (None) THINKING_TOGGLE [''text'', ''image'']),
      (''minimax-m3'', policy [] (None) THINKING_TOGGLE [''text'', ''image'']),
      (''minimax-m2'', policy [] (None) THINKING_ALWAYS_ON [''text'']),
      (''deepseek-v4-pro'', policy [''low'', ''high'', ''max''] (Some ''high'') THINKING_ALWAYS_ON [''text'']),
      (''deepseek-v4-flash'', policy [''low'', ''high'', ''max''] (Some ''high'') THINKING_ALWAYS_ON [''text'']),
      (''qwen3.5'', policy [''high''] (Some ''high'') THINKING_ALWAYS_ON [''text'', ''image'']),
      (''qwen3.6'', policy [] (None) THINKING_TOGGLE [''text'', ''image'']),
      (''qwen3.7'', policy [] (None) THINKING_TOGGLE [''text'', ''image'']),
      (''qwen3.8'', policy [''low'', ''medium'', ''xhigh''] (Some ''xhigh'') THINKING_ALWAYS_ON [''text'', ''image'']),
      (''claude'', policy [''low'', ''medium'', ''high'', ''xhigh'', ''max''] (Some ''high'') THINKING_ALWAYS_ON [''text'', ''image'']),
      (''gpt-5'', policy [''low'', ''medium'', ''high'', ''xhigh'', ''max''] (Some ''high'') THINKING_ALWAYS_ON [''text'', ''image'']),
      (''gemini'', policy [''low'', ''medium'', ''high''] (Some ''high'') THINKING_ALWAYS_ON [''text'', ''image'']),
      (''grok'', policy [''low'', ''medium'', ''high'', ''xhigh''] (Some ''high'') THINKING_ALWAYS_ON [''text'', ''image'']),
      (''grok-4.5'', policy [''low'', ''medium'', ''high''] (Some ''high'') THINKING_ALWAYS_ON [''text'', ''image'']),
      (''muse'', policy [''low'', ''medium'', ''high'', ''xhigh''] (Some ''xhigh'') THINKING_ALWAYS_ON [''text'', ''image'']),
      (''mimo'', policy [''low'', ''medium'', ''xhigh''] (Some ''xhigh'') THINKING_ALWAYS_ON [''text'', ''image'']),
      (''hy3'', policy [''low'', ''medium'', ''high''] (Some ''high'') THINKING_ALWAYS_ON [''text'']),
      (''hy4'', policy [''high''] (Some ''high'') THINKING_ALWAYS_ON [''text'']),
      (''longcat'', policy [] (None) THINKING_TOGGLE [''text'']),
      (''kimi-k2.5'', policy [''low'', ''high'', ''max''] (Some ''max'') THINKING_TOGGLE [''text'', ''image'']),
      (''deepseek-v4-flash-vision'', policy [''high'', ''max''] (Some ''high'') THINKING_ALWAYS_ON [''text'', ''image'']),
      (''gemma4'', policy [''high''] (Some ''high'') THINKING_ALWAYS_ON [''text'', ''image'']),
      (''gpt-oss'', policy [''low'', ''medium'', ''high''] (Some ''medium'') THINKING_ALWAYS_ON [''text'']),
      (''nemotron-3-ultra'', policy [''medium'', ''high''] (Some ''medium'') THINKING_ALWAYS_ON [''text'']),
      (''nemotron-3-super'', policy [''low'', ''high''] (Some ''low'') THINKING_ALWAYS_ON [''text'']),
      (''nemotron-3-nano'', policy [''low'', ''high''] (Some ''low'') THINKING_ALWAYS_ON [''text'']),
      (''mistral-large-3'', policy [] (None) THINKING_NONE [''text'', ''image'']),
      (''doubao'', policy [''high''] (Some ''high'') THINKING_ALWAYS_ON [''text'', ''image'']),
      (''generic'', GENERIC)]"

definition LEVEL_RANK :: "string list" where
  "LEVEL_RANK = [''low'', ''medium'', ''high'', ''xhigh'', ''max'']"

section \<open>Classification\<close>

definition level_rank :: "string \<Rightarrow> int option" where
  "level_rank level = map_of (zip LEVEL_RANK [0, 1, 2, 3, 4]) level"

text \<open>\<open>min(xs, key=...)\<close>: the first element with the smallest key.\<close>

fun min_by :: "('a \<Rightarrow> int \<times> int) \<Rightarrow> 'a \<Rightarrow> 'a list \<Rightarrow> 'a" where
  "min_by key best [] = best"
| "min_by key best (x # xs) =
     (let (a, b) = key x; (c, d) = key best
      in min_by key (if a < c \<or> (a = c \<and> b < d) then x else best) xs)"

definition level_key :: "int \<Rightarrow> string \<Rightarrow> int \<times> int" where
  "level_key target level = (\<bar>the (level_rank level) - target\<bar>, - the (level_rank level))"

definition ranked_levels :: "string list \<Rightarrow> string list" where
  "ranked_levels levels = filter (\<lambda>l. level_rank l \<noteq> None) levels"

definition valid_default :: "string option \<Rightarrow> string list \<Rightarrow> string option" where
  "valid_default default_level levels =
     (if levels = [] then None
      else case default_level of
             None \<Rightarrow> Some (hd levels)
           | Some d \<Rightarrow>
               (if List.member levels d then Some d
                else case (level_rank d, ranked_levels levels) of
                       (Some target, l # ls) \<Rightarrow> Some (min_by (level_key target) l ls)
                     | _ \<Rightarrow> Some (hd levels)))"

definition or_empty :: "string option \<Rightarrow> string" where
  "or_empty v = (case v of None \<Rightarrow> [] | Some s \<Rightarrow> s)"

definition is_maintained_provider :: "string option \<Rightarrow> bool" where
  "is_maintained_provider provider_id \<longleftrightarrow>
     List.member MAINTAINED_PROVIDER_IDS (str_strip (or_empty provider_id))"

definition ollama_model_basename :: "string \<Rightarrow> string" where
  "ollama_model_basename model_id = last (split_on (CHR ''/'') (str_strip model_id))"

definition family_for :: "string \<Rightarrow> string" where
  "family_for model_id =
     (let identity = py_lower (ollama_model_basename model_id) in
      if (prefix ''minimax-m3'' identity \<or> identity = ''minimax-m3'') then ''minimax-m3''
      else (if (prefix ''minimax-m2'' identity \<or> prefix ''minimax-m'' identity) then if prefix ''minimax-m3'' identity then ''minimax-m3''
      else ''minimax-m2'' else if prefix ''kimi-k3'' identity then ''kimi-k3''
      else if prefix ''kimi-k2.7'' identity then ''kimi-k2.7''
      else if prefix ''kimi-k2.6'' identity then ''kimi-k2.6''
      else if prefix ''kimi-k2.5'' identity then ''kimi-k2.5''
      else if prefix ''glm-5.3-flash'' identity then ''glm-5.3-flash''
      else if prefix ''glm-5.3'' identity then ''glm-5.3''
      else if prefix ''glm-5.2'' identity then ''glm-5.2''
      else if prefix ''glm-5.1'' identity then ''glm-5.1''
      else if (identity = ''glm-5'' \<or> prefix ''glm-5-'' identity) then ''glm-5''
      else if prefix ''deepseek-v4-pro'' identity then ''deepseek-v4-pro''
      else (if prefix ''deepseek-v4-flash'' identity then if contains ''vision'' identity then ''deepseek-v4-flash-vision''
      else ''deepseek-v4-flash'' else if prefix ''claude'' identity then ''claude''
      else if prefix ''gpt-5'' identity then ''gpt-5''
      else if prefix ''gemini'' identity then ''gemini''
      else if prefix ''grok-4.5'' identity then ''grok-4.5''
      else if prefix ''grok-'' identity then ''grok''
      else if prefix ''muse-'' identity then ''muse''
      else if prefix ''mimo-'' identity then ''mimo''
      else if prefix ''hy4'' identity then ''hy4''
      else if (identity = ''hy3'' \<or> prefix ''hy3-'' identity) then ''hy3''
      else if prefix ''longcat'' identity then ''longcat''
      else if prefix ''gpt-oss'' identity then ''gpt-oss''
      else if prefix ''gemma4'' identity then ''gemma4''
      else if prefix ''nemotron-3-ultra'' identity then ''nemotron-3-ultra''
      else if prefix ''nemotron-3-super'' identity then ''nemotron-3-super''
      else if prefix ''nemotron-3-nano'' identity then ''nemotron-3-nano''
      else if prefix ''qwen3.8'' identity then ''qwen3.8''
      else if prefix ''qwen3.7'' identity then ''qwen3.7''
      else if prefix ''qwen3.6'' identity then ''qwen3.6''
      else if prefix ''qwen3.5'' identity then ''qwen3.5''
      else if prefix ''mistral-large-3'' identity then ''mistral-large-3''
      else if (prefix ''doubao-seed'' identity \<or> prefix ''ark-code'' identity) then ''doubao''
      else if prefix ''minimax'' identity then (if contains ''m3'' identity then ''minimax-m3'' else ''minimax-m2'')
      else ''generic'')))"

definition family_policy_of :: "string \<Rightarrow> family_policy" where
  "family_policy_of model_id =
     (case dict_get FAMILIES (family_for model_id) of None \<Rightarrow> GENERIC | Some p \<Rightarrow> p)"

section \<open>Rows\<close>

definition row ::
  "string \<Rightarrow> string \<Rightarrow> string \<Rightarrow> int \<Rightarrow> int \<Rightarrow> int \<Rightarrow> string list \<Rightarrow> string option \<Rightarrow> string option \<Rightarrow>
   string option \<Rightarrow> string list option \<Rightarrow> string option \<Rightarrow> string option \<Rightarrow> string list option \<Rightarrow>
   maintained_model" where
  "row provider_id model_id display_name context_window max_output_tokens sort_order aliases
     tool_surface_strategy native_responses_tool_codec multi_agent_version reasoning_levels
     default_reasoning_level thinking_mode input_modalities =
     (let p = family_policy_of model_id;
          levels = (case reasoning_levels of None \<Rightarrow> fp_levels p | Some l \<Rightarrow> l);
          default_level = (case default_reasoning_level of None \<Rightarrow> fp_default_level p | Some d \<Rightarrow> Some d)
      in \<lparr>mm_provider_id = provider_id, mm_id = model_id, mm_display_name = display_name,
          mm_family = family_for model_id, mm_context_window = context_window,
          mm_max_output_tokens = max_output_tokens,
          mm_input_modalities = (case input_modalities of None \<Rightarrow> fp_input_modalities p | Some m \<Rightarrow> m),
          mm_reasoning_levels = levels,
          mm_default_reasoning_level = valid_default default_level levels,
          mm_thinking_mode = (case thinking_mode of None \<Rightarrow> fp_thinking_mode p | Some m \<Rightarrow> m),
          mm_sort_order = sort_order, mm_aliases = aliases,
          mm_tool_surface_strategy = tool_surface_strategy,
          mm_native_responses_tool_codec = native_responses_tool_codec,
          mm_multi_agent_version = multi_agent_version\<rparr>)"

definition plain_row :: "string \<Rightarrow> string \<Rightarrow> string \<Rightarrow> int \<Rightarrow> int \<Rightarrow> int \<Rightarrow> maintained_model" where
  "plain_row provider_id model_id display_name context_window max_output_tokens sort_order =
     row provider_id model_id display_name context_window max_output_tokens sort_order []
       None None None None None None None"

definition kimi_rows :: "string \<Rightarrow> maintained_model list" where
  "kimi_rows provider_id =
    [plain_row provider_id ''kimi-k3'' ''K3'' 1048576 131072 1,
     plain_row provider_id ''kimi-k2.7-code'' ''K2.7 Code'' 262144 32768 2,
     plain_row provider_id ''kimi-k2.7-code-highspeed'' ''K2.7 Code Highspeed'' 262144 32768 3,
     plain_row provider_id ''kimi-k2.6'' ''K2.6'' 262144 32768 4]"

definition LEAF_DISPLAY_NAMES :: "(string \<times> string) list" where
  "LEAF_DISPLAY_NAMES =
     [(''grok-4.6'', ''Grok 4.6''),
      (''grok-4.5'', ''Grok 4.5''),
      (''gpt-5.6-luna'', ''GPT 5.6 Luna''),
      (''gpt-5.6-sol'', ''GPT 5.6 Sol''),
      (''gpt-5.6-terra'', ''GPT 5.6 Terra''),
      (''gpt-5.5'', ''GPT 5.5''),
      (''gpt-5.4'', ''GPT 5.4''),
      (''gpt-5.4-mini'', ''GPT 5.4 Mini''),
      (''gpt-5.3-codex'', ''GPT 5.3 Codex''),
      (''muse-spark-1.1'', ''Muse Spark 1.1''),
      (''muse-spark-1.2'', ''Muse Spark 1.2''),
      (''muse-spark-1.2-contributor'', ''Muse Spark 1.2 Contributor''),
      (''muse-spark-1.3'', ''Muse Spark 1.3''),
      (''muse-spark-1.3-contributor'', ''Muse Spark 1.3 Contributor''),
      (''union-alpha'', ''Union Alpha''),
      (''glm-5.3-flash'', ''GLM-5.3 Flash''),
      (''glm-5.3'', ''GLM-5.3''),
      (''glm-5.2'', ''GLM-5.2''),
      (''kimi-k3'', ''Kimi K3''),
      (''kimi-k2.7-code'', ''Kimi K2.7 Code''),
      (''kimi-k2.7-code-highspeed'', ''Kimi K2.7 Code Highspeed''),
      (''kimi-k2.6'', ''Kimi K2.6''),
      (''kimi-k2.5'', ''Kimi K2.5''),
      (''deepseek-v4-pro'', ''DeepSeek V4 Pro''),
      (''deepseek-v4-flash'', ''DeepSeek V4 Flash''),
      (''deepseek-v4-flash-vision-exp'', ''DeepSeek V4 Flash Vision Exp''),
      (''deepseek-v4-flash-fast'', ''DeepSeek V4 Flash Fast''),
      (''mimo-v2.5'', ''MiMo V2.5''),
      (''mimo-v2.5-pro'', ''MiMo V2.5 Pro''),
      (''hy3'', ''Hy3''),
      (''hy3-preview'', ''Hy3 Preview''),
      (''hy4-preview'', ''Hy4 Preview''),
      (''minimax-m3'', ''MiniMax M3''),
      (''minimax-m2.7'', ''MiniMax M2.7''),
      (''minimax-m2.7-free'', ''MiniMax M2.7 Free''),
      (''minimax-m2.5'', ''MiniMax M2.5''),
      (''qwen3.8-max'', ''Qwen3.8 Max''),
      (''qwen3.8-flash'', ''Qwen3.8 Flash''),
      (''qwen3.8-max-0902'', ''Qwen3.8 Max 0902''),
      (''qwen3.8-27b'', ''Qwen3.8 27B''),
      (''step-3.7-flash'', ''Step 3.7 Flash''),
      (''step-3.5-flash'', ''Step 3.5 Flash''),
      (''hy3-paid'', ''Hy3 Paid''),
      (''gemini-3.8-flash'', ''Gemini 3.8 Flash''),
      (''gemini-3.7-flash'', ''Gemini 3.7 Flash''),
      (''gemini-3.6-flash'', ''Gemini 3.6 Flash''),
      (''gemini-3.5-flash'', ''Gemini 3.5 Flash''),
      (''gemini-3.5-flash-lite'', ''Gemini 3.5 Flash Lite''),
      (''gemini-3.1-flash-lite'', ''Gemini 3.1 Flash Lite''),
      (''fugu-ultra'', ''Fugu Ultra''),
      (''claude-sonnet-5'', ''Claude Sonnet 5''),
      (''claude-sonnet-4-6'', ''Claude Sonnet 4.6''),
      (''claude-fable-5'', ''Claude Fable 5''),
      (''claude-fable-5-1'', ''Claude Fable 5.1''),
      (''claude-opus-5'', ''Claude Opus 5''),
      (''claude-opus-4-8'', ''Claude Opus 4.8''),
      (''claude-opus-4-7'', ''Claude Opus 4.7''),
      (''claude-haiku-4-5-20251001'', ''Claude Haiku 4.5'')]"

definition third_party_display_name :: "string option \<Rightarrow> string" where
  "third_party_display_name model_id =
     (let leaf = last (split_on (CHR ''/'') (or_empty model_id)) in
      case dict_get LEAF_DISPLAY_NAMES leaf of
        None \<Rightarrow> leaf
      | Some n \<Rightarrow> (if n = [] then leaf else n))"

type_synonym commandcode_spec =
  "string \<times> string \<times> string list \<times> int \<times> int \<times> string list \<times> string"

definition commandcode_defaults :: "(string \<times> string) list" where
  "commandcode_defaults =
     [(''z-ai/glm-5.3-flash'', ''max''),
      (''zai-org/glm-5.3'', ''max''),
      (''zai-org/glm-5.2'', ''max''),
      (''gpt-5.6-sol'', ''high''),
      (''gpt-5.6-terra'', ''xhigh''),
      (''gpt-5.6-luna'', ''max''),
      (''xai/grok-4.5'', ''high''),
      (''xai/grok-4.6'', ''high''),
      (''xai/grok-4.7'', ''high''),
      (''claude-fable-5-1'', ''high''),
      (''moonshotai/kimi-k3'', ''high''),
      (''qwen/qwen3.8-max-0902'', ''xhigh''),
      (''deepseek/deepseek-v4-flash-fast'', ''max''),
      (''meta/muse-spark-1.3'', ''max''),
      (''meta/muse-spark-1.3-contributor'', ''xhigh'')]"

definition commandcode_specs :: "commandcode_spec list" where
  "commandcode_specs =
     [(''claude-sonnet-5'', ''Claude Sonnet 5'', [''low'', ''medium'', ''high'', ''xhigh'', ''max''], 1000000, 128000, [''text'', ''image''], ''always_on''),
      (''claude-sonnet-4-6'', ''Claude Sonnet 4.6'', [''low'', ''medium'', ''high'', ''xhigh'', ''max''], 1000000, 128000, [''text'', ''image''], ''always_on''),
      (''claude-fable-5'', ''Claude Fable 5'', [''low'', ''medium'', ''high'', ''xhigh'', ''max''], 1000000, 128000, [''text'', ''image''], ''always_on''),
      (''claude-fable-5-1'', ''Claude Fable 5.1'', [''low'', ''medium'', ''high'', ''xhigh'', ''max''], 1000000, 128000, [''text'', ''image''], ''always_on''),
      (''claude-opus-5'', ''Claude Opus 5'', [''low'', ''medium'', ''high'', ''xhigh'', ''max''], 1000000, 128000, [''text'', ''image''], ''always_on''),
      (''claude-opus-4-8'', ''Claude Opus 4.8'', [''low'', ''medium'', ''high'', ''xhigh'', ''max''], 1000000, 128000, [''text'', ''image''], ''always_on''),
      (''claude-opus-4-7'', ''Claude Opus 4.7'', [''low'', ''medium'', ''high'', ''xhigh'', ''max''], 1000000, 128000, [''text'', ''image''], ''always_on''),
      (''claude-haiku-4-5-20251001'', ''Claude Haiku 4.5'', [], 200000, 64000, [''text'', ''image''], ''always_on''),
      (''gpt-5.6-sol'', ''GPT 5.6 Sol'', [''low'', ''medium'', ''high'', ''xhigh'', ''max''], 1048576, 128000, [''text'', ''image''], ''always_on''),
      (''gpt-5.6-terra'', ''GPT 5.6 Terra'', [''low'', ''medium'', ''high'', ''xhigh'', ''max''], 1048576, 128000, [''text'', ''image''], ''always_on''),
      (''gpt-5.6-luna'', ''GPT 5.6 Luna'', [''low'', ''medium'', ''high'', ''xhigh'', ''max''], 1050000, 128000, [''text'', ''image''], ''always_on''),
      (''gpt-5.5'', ''GPT 5.5'', [''low'', ''medium'', ''high'', ''xhigh''], 256000, 128000, [''text'', ''image''], ''always_on''),
      (''gpt-5.4'', ''GPT 5.4'', [''low'', ''medium'', ''high'', ''xhigh''], 256000, 128000, [''text'', ''image''], ''always_on''),
      (''gpt-5.3-codex'', ''GPT 5.3 Codex'', [''low'', ''medium'', ''high'', ''xhigh''], 256000, 128000, [''text'', ''image''], ''always_on''),
      (''gpt-5.4-mini'', ''GPT 5.4 Mini'', [''low'', ''medium'', ''high''], 256000, 64000, [''text'', ''image''], ''always_on''),
      (''deepseek/deepseek-v4-pro'', ''DeepSeek V4 Pro'', [''high'', ''max''], 1000000, 384000, [''text''], ''always_on''),
      (''deepseek/deepseek-v4-flash'', ''DeepSeek V4 Flash'', [''high'', ''max''], 1000000, 384000, [''text''], ''always_on''),
      (''deepseek/deepseek-v4-flash-vision-exp'', ''DeepSeek V4 Flash Vision Exp'', [''high'', ''max''], 1000000, 384000, [''text'', ''image''], ''always_on''),
      (''deepseek/deepseek-v4-flash-fast'', ''DeepSeek V4 Flash Fast'', [''low'', ''high'', ''max''], 1000000, 384000, [''text''], ''always_on''),
      (''moonshotai/kimi-k3'', ''Kimi K3'', [''low'', ''high'', ''max''], 1048576, 131072, [''text'', ''image''], ''always_on''),
      (''moonshotai/kimi-k2.7-code'', ''Kimi K2.7 Code'', [], 262144, 32768, [''text'', ''image''], ''always_on''),
      (''moonshotai/kimi-k2.7-code-highspeed'', ''Kimi K2.7 Code Highspeed'', [], 262144, 32768, [''text'', ''image''], ''always_on''),
      (''moonshotai/kimi-k2.6'', ''Kimi K2.6'', [], 262144, 32768, [''text'', ''image''], ''toggle''),
      (''moonshotai/kimi-k2.5'', ''Kimi K2.5'', [], 262144, 65536, [''text'', ''image''], ''toggle''),
      (''z-ai/glm-5.3-flash'', ''GLM-5.3 Flash'', [''low'', ''high'', ''max''], 1000000, 131072, [''text'', ''image''], ''always_on''),
      (''zai-org/glm-5.3'', ''GLM-5.3'', [''low'', ''high'', ''max''], 1000000, 131072, [''text''], ''always_on''),
      (''zai-org/glm-5.2'', ''GLM-5.2'', [''high'', ''max''], 1000000, 131072, [''text''], ''always_on''),
      (''minimax/minimax-m2.7-free'', ''MiniMax M2.7 Free'', [], 204800, 131072, [''text''], ''always_on''),
      (''minimaxai/minimax-m2.5'', ''MiniMax M2.5'', [], 204800, 131072, [''text''], ''always_on''),
      (''xiaomi/mimo-v2.5-pro'', ''MiMo V2.5 Pro'', [], 1048576, 128000, [''text''], ''always_on''),
      (''xiaomi/mimo-v2.5'', ''MiMo V2.5'', [], 1000000, 128000, [''text'', ''image''], ''always_on''),
      (''qwen/qwen3.8-max'', ''Qwen3.8 Max'', [''low'', ''medium'', ''xhigh''], 1000000, 131072, [''text'', ''image''], ''always_on''),
      (''qwen/qwen3.8-max-0902'', ''Qwen3.8 Max 0902'', [''low'', ''medium'', ''xhigh''], 1000000, 131072, [''text'', ''image''], ''always_on''),
      (''qwen/qwen3.8-27b'', ''Qwen3.8 27B'', [''low'', ''medium'', ''xhigh''], 262144, 65536, [''text'', ''image''], ''always_on''),
      (''qwen/qwen3.8-flash'', ''Qwen3.8 Flash'', [''low'', ''medium'', ''xhigh''], 1000000, 65536, [''text'', ''image''], ''always_on''),
      (''stepfun/step-3.7-flash'', ''Step 3.7 Flash'', [], 256000, 64000, [''text'', ''image''], ''always_on''),
      (''stepfun/step-3.5-flash'', ''Step 3.5 Flash'', [], 256000, 64000, [''text''], ''always_on''),
      (''tencent/hy3'', ''Hy3'', [], 256000, 64000, [''text''], ''always_on''),
      (''tencent/hy3-paid'', ''Hy3 Paid'', [], 256000, 64000, [''text''], ''always_on''),
      (''tencent/hy4-preview'', ''Hy4 Preview'', [''low'', ''medium'', ''high''], 1024000, 64000, [''text''], ''always_on''),
      (''google/gemini-3.8-flash'', ''Gemini 3.8 Flash'', [''low'', ''medium'', ''high''], 1000000, 65536, [''text'', ''image''], ''always_on''),
      (''google/gemini-3.7-flash'', ''Gemini 3.7 Flash'', [''low'', ''medium'', ''high''], 1000000, 65536, [''text'', ''image''], ''always_on''),
      (''google/gemini-3.6-flash'', ''Gemini 3.6 Flash'', [''low'', ''medium'', ''high''], 1000000, 65536, [''text'', ''image''], ''always_on''),
      (''google/gemini-3.5-flash'', ''Gemini 3.5 Flash'', [''low'', ''medium'', ''high''], 1000000, 65536, [''text'', ''image''], ''always_on''),
      (''google/gemini-3.5-flash-lite'', ''Gemini 3.5 Flash Lite'', [''low'', ''medium'', ''high''], 1000000, 65536, [''text'', ''image''], ''always_on''),
      (''google/gemini-3.1-flash-lite'', ''Gemini 3.1 Flash Lite'', [''low'', ''medium'', ''high''], 1000000, 65536, [''text'', ''image''], ''always_on''),
      (''sakana/fugu-ultra'', ''Fugu Ultra'', [''high'', ''xhigh''], 256000, 64000, [''text'', ''image''], ''always_on''),
      (''meta/muse-spark-1.1'', ''Muse Spark 1.1'', [''low'', ''medium'', ''high'', ''xhigh''], 1048576, 131072, [''text'', ''image''], ''always_on''),
      (''meta/muse-spark-1.2'', ''Muse Spark 1.2'', [''low'', ''medium'', ''high'', ''xhigh''], 1048576, 131072, [''text'', ''image''], ''always_on''),
      (''meta/muse-spark-1.2-contributor'', ''Muse Spark 1.2 Contributor'', [''low'', ''medium'', ''high'', ''xhigh''], 1048576, 131072, [''text'', ''image''], ''always_on''),
      (''meta/muse-spark-1.3'', ''Muse Spark 1.3'', [''low'', ''medium'', ''high'', ''xhigh'', ''max''], 1048576, 131072, [''text'', ''image''], ''always_on''),
      (''meta/muse-spark-1.3-contributor'', ''Muse Spark 1.3 Contributor'', [''low'', ''medium'', ''high'', ''xhigh''], 1048576, 131072, [''text'', ''image''], ''always_on''),
      (''xai/grok-4.5'', ''Grok 4.5'', [''low'', ''medium'', ''high''], 500000, 500000, [''text'', ''image''], ''always_on''),
      (''xai/grok-4.6'', ''Grok 4.6'', [''low'', ''medium'', ''high'', ''xhigh''], 500000, 500000, [''text'', ''image''], ''always_on''),
      (''deepseek/deepseek-v4.1-flash'', ''DeepSeek V4.1 Flash'', [''low'', ''high'', ''max''], 1000000, 0, [''text'', ''image''], ''always_on''),
      (''z-ai/glm-5.3-flashx'', ''GLM-5.3 FlashX'', [''low'', ''high'', ''max''], 1000000, 131072, [''text'', ''image''], ''always_on''),
      (''zai-org/glm-5.2-fast'', ''GLM-5.2 Fast'', [], 1000000, 0, [''text''], ''always_on''),
      (''zai-org/glm-5.1'', ''GLM-5.1'', [], 200000, 0, [''text''], ''always_on''),
      (''zai-org/glm-5'', ''GLM-5'', [], 200000, 0, [''text''], ''toggle''),
      (''minimaxai/minimax-m3'', ''MiniMax M3'', [''low'', ''medium'', ''high''], 1000000, 0, [''text'', ''image''], ''toggle''),
      (''minimaxai/minimax-m2.7'', ''MiniMax M2.7'', [], 200000, 0, [''text''], ''always_on''),
      (''xiaomi/mimo-v2.6-pro'', ''MiMo V2.6 Pro'', [], 1048576, 0, [''text'', ''image''], ''always_on''),
      (''xiaomi/mimo-v2.6-pro-ultraspeed'', ''MiMo V2.6 Pro UltraSpeed'', [], 1048576, 0, [''text'', ''image''], ''always_on''),
      (''xiaomi/mimo-v2.6-flash'', ''MiMo V2.6 Flash'', [], 1048576, 0, [''text'', ''image''], ''always_on''),
      (''qwen/qwen3.8-omni-flash'', ''Qwen 3.8 Omni Flash'', [''low'', ''medium'', ''xhigh''], 1000000, 131072, [''text'', ''image''], ''always_on''),
      (''qwen/qwen3.7-max'', ''Qwen 3.7 Max'', [], 1000000, 0, [''text''], ''toggle''),
      (''qwen/qwen3.7-plus'', ''Qwen 3.7 Plus'', [], 1000000, 0, [''text'', ''image''], ''toggle''),
      (''qwen/qwen3.7-flash'', ''Qwen 3.7 Flash'', [], 1000000, 0, [''text'', ''image''], ''toggle''),
      (''qwen/qwen3.6-max-preview'', ''Qwen 3.6 Max Preview'', [], 200000, 0, [''text''], ''toggle''),
      (''qwen/qwen3.6-plus'', ''Qwen 3.6 Plus'', [], 200000, 0, [''text'', ''image''], ''toggle''),
      (''meituan/longcat-2.0'', ''LongCat 2.0'', [], 1048576, 0, [''text''], ''toggle''),
      (''stepfun/step-5-preview'', ''Step 5 Preview'', [''low'', ''medium'', ''high''], 1000000, 0, [''text'', ''image''], ''always_on''),
      (''nvidia/nemotron-3-ultra-550b-a55b'', ''Nemotron 3 Ultra'', [], 1000000, 0, [''text''], ''always_on''),
      (''thinkingmachines/inkling'', ''Inkling'', [], 256000, 0, [''text'', ''image''], ''always_on''),
      (''thinkingmachines/inkling-small'', ''Inkling Small'', [], 1000000, 0, [''text'', ''image''], ''always_on''),
      (''poolside/laguna-s-2.1-free'', ''Laguna S 2.1'', [], 256000, 32768, [''text''], ''always_on''),
      (''inclusionai/ling-3.0-flash-sante:free'', ''Ling 3.0 Flash Sante'', [], 262144, 32768, [''text''], ''always_on''),
      (''xai/grok-4.7'', ''Grok 4.7'', [''low'', ''medium'', ''high'', ''xhigh''], 500000, 0, [''text'', ''image''], ''always_on'')]"

fun enumerate_rows :: "(int \<Rightarrow> 'a \<Rightarrow> 'b) \<Rightarrow> int \<Rightarrow> 'a list \<Rightarrow> 'b list" where
  "enumerate_rows f i [] = []"
| "enumerate_rows f i (x # xs) = f i x # enumerate_rows f (i + 1) xs"

definition last_level :: "string list \<Rightarrow> string option" where
  "last_level levels = (if levels = [] then None else Some (last levels))"

definition commandcode_row :: "int \<Rightarrow> commandcode_spec \<Rightarrow> maintained_model" where
  "commandcode_row index spec =
     (case spec of (model_id, name, levels, context_window, max_output_tokens, modalities, mode) \<Rightarrow>
        row ''commandcode'' model_id name context_window max_output_tokens index [] None None None
          (Some levels)
          (valid_default (case dict_get commandcode_defaults model_id of
                            None \<Rightarrow> last_level levels | Some d \<Rightarrow> Some d) levels)
          (Some mode) (Some modalities))"

definition commandcode_rows :: "maintained_model list" where
  "commandcode_rows = enumerate_rows commandcode_row 1 commandcode_specs"

type_synonym opencode_spec = "string \<times> string \<times> int \<times> int \<times> bool \<times> string option"

definition opencode_specs :: "opencode_spec list" where
  "opencode_specs =
     [(''grok-4.7'', ''Grok 4.7'', 500000, 500000, True, Some ''high''),
      (''grok-4.6'', ''Grok 4.6'', 500000, 500000, True, Some ''high''),
      (''grok-4.5'', ''Grok 4.5'', 500000, 500000, True, Some ''high''),
      (''gpt-5.6-luna'', ''GPT 5.6 Luna'', 1050000, 128000, True, Some ''max''),
      (''muse-spark-1.2-contributor'', ''Muse Spark 1.2 Contributor'', 1048576, 131072, True, Some ''xhigh''),
      (''muse-spark-1.3-contributor'', ''Muse Spark 1.3 Contributor'', 1048576, 131072, True, Some ''xhigh''),
      (''glm-5.3-flash'', ''GLM-5.3 Flash'', 1000000, 131072, True, None),
      (''glm-5.3'', ''GLM-5.3'', 1000000, 131072, False, None),
      (''glm-5.2'', ''GLM-5.2'', 1000000, 131072, False, None),
      (''glm-5.1'', ''GLM-5.1'', 202752, 32768, False, None),
      (''glm-5'', ''GLM-5'', 202752, 131072, False, None),
      (''kimi-k3'', ''Kimi K3'', 1048576, 131072, True, None),
      (''kimi-k2.7-code'', ''Kimi K2.7 Code'', 262144, 262144, True, None),
      (''kimi-k2.6'', ''Kimi K2.6'', 262144, 65536, True, None),
      (''kimi-k2.5'', ''Kimi K2.5'', 262144, 65536, True, None),
      (''longcat-2.0'', ''LongCat 2.0'', 1000000, 131072, False, None),
      (''deepseek-v4-pro'', ''DeepSeek V4 Pro'', 1000000, 384000, False, Some ''max''),
      (''deepseek-v4.1-flash'', ''DeepSeek V4.1 Flash'', 1000000, 384000, True, Some ''max''),
      (''deepseek-v4-flash'', ''DeepSeek V4 Flash'', 1000000, 384000, False, Some ''max''),
      (''deepseek-v4-flash-vision-exp'', ''DeepSeek V4 Flash Vision Exp'', 1000000, 384000, True, Some ''max''),
      (''mimo-v2.5'', ''MiMo V2.5'', 1000000, 128000, True, None),
      (''mimo-v2.6-flash'', ''MiMo V2.6 Flash'', 1048576, 131072, True, None),
      (''mimo-v2.6-pro'', ''MiMo V2.6 Pro'', 1048576, 131072, True, None),
      (''mimo-v2.5-pro'', ''MiMo V2.5 Pro'', 1048576, 128000, False, None),
      (''mimo-v2-pro'', ''MiMo V2 Pro'', 1048576, 131072, False, None),
      (''mimo-v2-omni'', ''MiMo V2 Omni'', 262144, 65536, True, None),
      (''hy3'', ''Hy3'', 256000, 64000, False, None),
      (''hy3-preview'', ''Hy3 Preview'', 256000, 64000, False, None),
      (''hy4-preview'', ''Hy4 Preview'', 1024000, 64000, False, None),
      (''minimax-m3'', ''MiniMax M3'', 1000000, 131072, True, None),
      (''minimax-m2.7'', ''MiniMax M2.7'', 204800, 131072, False, None),
      (''minimax-m2.5'', ''MiniMax M2.5'', 196608, 131072, False, None),
      (''qwen3.8-max'', ''Qwen3.8 Max'', 1000000, 131072, True, None),
      (''qwen3.8-flash'', ''Qwen3.8 Flash'', 1000000, 131072, True, None),
      (''qwen3.7-max'', ''Qwen3.7 Max'', 1000000, 65536, False, None),
      (''qwen3.7-plus'', ''Qwen3.7 Plus'', 1000000, 65536, True, None),
      (''qwen3.6-plus'', ''Qwen3.6 Plus'', 1000000, 65536, True, None),
      (''qwen3.5-plus'', ''Qwen3.5 Plus'', 1000000, 65536, True, None),
      (''union-alpha'', ''Union Alpha'', 262144, 131072, True, Some ''medium'')]"

definition opencode_extra_levels :: "(string \<times> string list) list" where
  "opencode_extra_levels = [(''muse-spark-1.3-contributor'', [''low'', ''medium'', ''high'', ''xhigh'']), (''deepseek-v4-pro'', [''low'', ''high'', ''max'']), (''deepseek-v4.1-flash'', [''low'', ''high'', ''max'']), (''deepseek-v4-flash'', [''low'', ''high'', ''max'']), (''union-alpha'', [''low'', ''medium'', ''high'', ''xhigh'', ''max''])]"

definition opencode_row :: "int \<Rightarrow> opencode_spec \<Rightarrow> maintained_model" where
  "opencode_row index spec =
     (case spec of (model_id, name, context_window, max_output_tokens, vision, default_level) \<Rightarrow>
        row ''opencode-go'' model_id name context_window max_output_tokens index [] None None None
          (if prefix ''mimo-'' model_id then Some [] else dict_get opencode_extra_levels model_id)
          default_level None
          (Some (if vision then [''text'', ''image''] else [''text''])))"

definition opencode_rows :: "maintained_model list" where
  "opencode_rows = enumerate_rows opencode_row 1 opencode_specs"

definition OFFICIAL :: "maintained_model list" where
  "OFFICIAL =
    [
     plain_row ''ollama-cloud'' ''glm-5.3'' ''GLM-5.3'' 1048576 131072 1,
     plain_row ''ollama-cloud'' ''glm-5.3-flash'' ''GLM-5.3 Flash'' 1000000 131072 2,
     row ''ollama-cloud'' ''glm-5.2'' ''GLM-5.2'' 1000000 131072 3 [] (Some ''deferred_core'') (Some ''strict_apply_patch'') (Some ''v2'') None None None None,
     plain_row ''ollama-cloud'' ''glm-5.1'' ''GLM-5.1'' 202752 131072 4,
     plain_row ''ollama-cloud'' ''kimi-k3'' ''Kimi K3'' 1048576 131072 5,
     plain_row ''ollama-cloud'' ''kimi-k2.7-code'' ''Kimi K2.7 Code'' 262144 262144 6,
     plain_row ''ollama-cloud'' ''kimi-k2.6'' ''Kimi K2.6'' 262144 262144 7,
     plain_row ''ollama-cloud'' ''minimax-m3'' ''MiniMax-M3'' 512000 524288 8,
     plain_row ''ollama-cloud'' ''minimax-m2.7'' ''MiniMax-M2.7'' 196608 196608 9,
     plain_row ''ollama-cloud'' ''deepseek-v4-pro'' ''DeepSeek V4 Pro'' 1048576 1048576 10,
     plain_row ''ollama-cloud'' ''deepseek-v4-flash'' ''DeepSeek V4 Flash'' 1048576 1048576 11,
     plain_row ''ollama-cloud'' ''qwen3.5:397b'' ''Qwen 3.5 397B'' 262144 65536 12,
     plain_row ''ollama-cloud'' ''gemma4:31b'' ''Gemma 4 31B'' 262144 262144 13,
     plain_row ''ollama-cloud'' ''gpt-oss:120b'' ''GPT-OSS 120B'' 131072 32768 14,
     plain_row ''ollama-cloud'' ''gpt-oss:20b'' ''GPT-OSS 20B'' 131072 32768 15,
     plain_row ''ollama-cloud'' ''nemotron-3-ultra'' ''Nemotron 3 Ultra'' 262144 128000 16,
     plain_row ''ollama-cloud'' ''nemotron-3-super'' ''Nemotron 3 Super'' 262144 65536 17,
     plain_row ''ollama-cloud'' ''nemotron-3-nano:30b'' ''Nemotron 3 Nano 30B'' 1048576 131072 18,
     plain_row ''ollama-cloud'' ''mistral-large-3:675b'' ''Mistral Large 3'' 262144 262144 19,
     plain_row ''volc'' ''glm-5.3'' ''GLM-5.3'' 128000 32000 1,
     plain_row ''volc'' ''doubao-seed-2.1-turbo'' ''Doubao Seed 2.1 Turbo'' 256000 256000 2,
     plain_row ''volc'' ''doubao-seed-evolving'' ''Doubao Seed Evolving'' 1000000 256000 3,
     plain_row ''volc'' ''kimi-k2.7-code'' ''Kimi K2.7 Code'' 256000 32000 4,
     plain_row ''volc'' ''minimax-m3'' ''MiniMax-M3'' 512000 128000 5,
     plain_row ''volc'' ''deepseek-v4-pro'' ''DeepSeek V4 Pro'' 1024000 384000 6,
     plain_row ''volc'' ''deepseek-v4-flash'' ''DeepSeek V4 Flash'' 1024000 384000 7,
     plain_row ''volc'' ''doubao-seed-2.0-code'' ''Doubao Seed 2.0 Code'' 256000 256000 8,
     plain_row ''volc'' ''doubao-seed-2.0-pro'' ''Doubao Seed 2.0 Pro'' 256000 256000 9,
     plain_row ''volc'' ''doubao-seed-2.0-lite'' ''Doubao Seed 2.0 Lite'' 256000 128000 10,
     row ''minimax-cn'' ''MiniMax-M3'' ''MiniMax M3'' 1000000 524288 1 [''minimax-m3''] (None) (None) (None) None None None None,
     plain_row ''minimax-cn'' ''MiniMax-M2.7'' ''MiniMax M2.7'' 204800 204800 2,
     plain_row ''minimax-cn'' ''MiniMax-M2.7-highspeed'' ''MiniMax M2.7 Highspeed'' 204800 204800 3,
     plain_row ''minimax-cn'' ''MiniMax-M2.5'' ''MiniMax M2.5'' 204800 204800 4,
     plain_row ''minimax-cn'' ''MiniMax-M2.5-highspeed'' ''MiniMax M2.5 Highspeed'' 204800 204800 5,
     plain_row ''minimax-cn'' ''MiniMax-M2.1'' ''MiniMax M2.1'' 204800 204800 6,
     plain_row ''minimax-cn'' ''MiniMax-M2.1-highspeed'' ''MiniMax M2.1 Highspeed'' 204800 204800 7,
     plain_row ''minimax-cn'' ''MiniMax-M2'' ''MiniMax M2'' 204800 204800 8]
    @ kimi_rows ''kimi-cn''
    @ kimi_rows ''kimi''
    @ commandcode_rows
    @ opencode_rows"

section \<open>Index and lookup\<close>

definition add_to_index ::
  "((string \<times> string), maintained_model) dict \<Rightarrow> maintained_model \<Rightarrow> ((string \<times> string), maintained_model) dict" where
  "add_to_index index m =
     foldl (\<lambda>d a. dict_set d (mm_provider_id m, a) m)
       (dict_set index (mm_provider_id m, mm_id m) m) (mm_aliases m)"

definition index_of :: "maintained_model list \<Rightarrow> ((string \<times> string), maintained_model) dict" where
  "index_of models = foldl add_to_index [] models"

definition OFFICIAL_INDEX :: "((string \<times> string), maintained_model) dict" where
  "OFFICIAL_INDEX = index_of OFFICIAL"

definition official_models :: "string option \<Rightarrow> maintained_model list" where
  "official_models provider_id =
     filter (\<lambda>m. mm_provider_id m = str_strip (or_empty provider_id)) OFFICIAL"

definition resolve_model :: "string option \<Rightarrow> string option \<Rightarrow> maintained_model option" where
  "resolve_model provider_id model_id =
     (let provider = str_strip (or_empty provider_id);
          wire_id = str_strip (or_empty model_id)
      in if provider = [] \<or> wire_id = [] then None
         else case dict_get OFFICIAL_INDEX (provider, wire_id) of
                Some exact \<Rightarrow> Some exact
              | None \<Rightarrow>
                  (if \<not> List.member FAMILY_POLICY_PROVIDER_IDS provider then None
                   else if family_for wire_id = ''generic'' then None
                   else let p = family_policy_of wire_id
                        in Some \<lparr>mm_provider_id = provider, mm_id = wire_id, mm_display_name = wire_id,
                              mm_family = family_for wire_id, mm_context_window = 0,
                              mm_max_output_tokens = 0, mm_input_modalities = fp_input_modalities p,
                              mm_reasoning_levels = fp_levels p,
                              mm_default_reasoning_level = valid_default (fp_default_level p) (fp_levels p),
                              mm_thinking_mode = fp_thinking_mode p, mm_sort_order = 0, mm_aliases = [],
                              mm_tool_surface_strategy = None, mm_native_responses_tool_codec = None,
                              mm_multi_agent_version = None\<rparr>))"

definition reasoning_levels_for :: "string option \<Rightarrow> string option \<Rightarrow> string list" where
  "reasoning_levels_for provider_id model_id =
     (case resolve_model provider_id model_id of None \<Rightarrow> [] | Some m \<Rightarrow> mm_reasoning_levels m)"

section \<open>The thinking payload\<close>

definition drop_effort :: "(string \<times> string) list option \<Rightarrow> thinking_payload" where
  "drop_effort thinking =
     \<lparr>tp_drop_reasoning_effort = True, tp_reasoning_effort = None, tp_thinking = thinking\<rparr>"

definition requested_effort :: "string option \<Rightarrow> string option" where
  "requested_effort effort =
     (let r = py_lower (str_strip (or_empty effort)) in if r = [] then None else Some r)"

definition thinking_payload_of ::
  "string option \<Rightarrow> maintained_model option \<Rightarrow> string option \<Rightarrow> bool option \<Rightarrow> thinking_payload" where
  "thinking_payload_of provider_id resolved effort thinking_enabled =
     (case resolved of
        None \<Rightarrow> \<lparr>tp_drop_reasoning_effort = False, tp_reasoning_effort = None, tp_thinking = None\<rparr>
      | Some m \<Rightarrow>
          (let family = mm_family m;
               enabled = (case thinking_enabled of None \<Rightarrow> True | Some b \<Rightarrow> b)
           in if mm_thinking_mode m = THINKING_NONE then drop_effort None
              else if family = ''kimi-k2.7'' then
                drop_effort (Some [(''type'', ''enabled''), (''keep'', ''all'')])
              else if family = ''minimax-m2'' then drop_effort None
              else if family = ''minimax-m3'' \<and> provider_id \<noteq> Some ''commandcode'' then
                drop_effort (Some [(''type'', if enabled then ''adaptive'' else ''disabled'')])
              else if family = ''kimi-k2.6'' \<or> family = ''glm-5'' \<or> family = ''longcat'' then
                drop_effort (Some [(''type'', if enabled then ''enabled'' else ''disabled'')])
              else case mm_reasoning_levels m of
                [] \<Rightarrow> drop_effort None
              | first # _ \<Rightarrow>
                  (let chosen = (case requested_effort effort of
                         Some r \<Rightarrow> (if List.member (mm_reasoning_levels m) r then r
                                    else case mm_default_reasoning_level m of
                                           None \<Rightarrow> first | Some d \<Rightarrow> (if d = [] then first else d))
                       | None \<Rightarrow> (case mm_default_reasoning_level m of
                                    None \<Rightarrow> first | Some d \<Rightarrow> (if d = [] then first else d)))
                   in \<lparr>tp_drop_reasoning_effort = False, tp_reasoning_effort = Some chosen,
                       tp_thinking = None\<rparr>)))"

definition thinking_payload ::
  "string option \<Rightarrow> string option \<Rightarrow> string option \<Rightarrow> bool option \<Rightarrow> thinking_payload" where
  "thinking_payload provider_id model_id effort thinking_enabled =
     thinking_payload_of provider_id (resolve_model provider_id model_id) effort thinking_enabled"

section \<open>Lists for the catalog policy\<close>

definition slug :: "string \<Rightarrow> string \<Rightarrow> string" where
  "slug provider_id model_id = provider_id @ ''/'' @ model_id"

definition model_slugs :: "maintained_model \<Rightarrow> string list" where
  "model_slugs m = map (slug (mm_provider_id m)) (mm_id m # mm_aliases m)"

definition allowed_provider_slugs :: "string list" where
  "allowed_provider_slugs = concat (map model_slugs OFFICIAL)"

definition allowed_ollama_cloud_model_ids :: "string list" where
  "allowed_ollama_cloud_model_ids = map mm_id (official_models (Some ''ollama-cloud''))"

definition display_names :: "(string \<times> string) list" where
  "display_names =
     foldl (\<lambda>names m.
        let n1 = dict_set names (slug (mm_provider_id m) (mm_id m)) (mm_display_name m);
            n2 = (if mm_provider_id m = ''ollama-cloud'' then dict_set n1 (mm_id m) (mm_display_name m) else n1)
        in foldl (\<lambda>d a. dict_set d (slug (mm_provider_id m) a) (mm_display_name m)) n2 (mm_aliases m))
       [] OFFICIAL"

definition json_opt :: "string option \<Rightarrow> json" where
  "json_opt v = (case v of None \<Rightarrow> JNull | Some s \<Rightarrow> JStr s)"

definition optional_field :: "string \<Rightarrow> string option \<Rightarrow> (string \<times> json) list" where
  "optional_field name v = (case v of None \<Rightarrow> [] | Some s \<Rightarrow> (if s = [] then [] else [(name, JStr s)]))"

definition as_provider_model_fields :: "maintained_model \<Rightarrow> (string \<times> json) list" where
  "as_provider_model_fields m =
     [(''id'', JStr (mm_id m)), (''display_name'', JStr (mm_display_name m)),
      (''context_window'', JInt (mm_context_window m)),
      (''max_output_tokens'', JInt (mm_max_output_tokens m)),
      (''input_modalities'', JArr (map JStr (mm_input_modalities m))),
      (''supported_reasoning_levels'', JArr (map JStr (mm_reasoning_levels m))),
      (''default_reasoning_level'', json_opt (mm_default_reasoning_level m)),
      (''thinking_mode'', JStr (mm_thinking_mode m)), (''sort_order'', JInt (mm_sort_order m)),
      (''enabled'', JBool True)]
     @ (if mm_aliases m = [] then [] else [(''aliases'', JArr (map JStr (mm_aliases m)))])
     @ optional_field ''tool_surface_strategy'' (mm_tool_surface_strategy m)
     @ optional_field ''native_responses_tool_codec'' (mm_native_responses_tool_codec m)
     @ optional_field ''multi_agent_version'' (mm_multi_agent_version m)"

end
