(* ===== verification/Model_Limits.thy ===== *)
theory Model_Limits
  imports Model_Catalog
begin

text \<open>
  \<open>src-python/model_limits.py\<close>: the context budget of an official model and the resolved
  limits.  A parameter of type \<open>Any\<close> is a \<open>json\<close> value, Python's \<open>None\<close> being \<open>JNull\<close>.
\<close>

section \<open>Context budgets\<close>

definition CURRENT_DIRECT_OFFICIAL_SOURCE :: string where
  "CURRENT_DIRECT_OFFICIAL_SOURCE = ''current_direct_official''"

definition FRESH_DIRECT_OFFICIAL_CACHE_AUTHORITY_SOURCE :: string where
  "FRESH_DIRECT_OFFICIAL_CACHE_AUTHORITY_SOURCE = ''fresh_direct_official_cache_authority''"

definition DEGRADED_LAST_KNOWN_OFFICIAL_SOURCE :: string where
  "DEGRADED_LAST_KNOWN_OFFICIAL_SOURCE = ''degraded_last_known_official''"

definition NATIVE_AUTO_COMPACT_PERCENT :: int where "NATIVE_AUTO_COMPACT_PERCENT = 90"
definition XAI_AUTO_COMPACT_PERCENT :: int where "XAI_AUTO_COMPACT_PERCENT = 70"

definition TRUSTED_FRESH_OFFICIAL_CONTEXT_SOURCES :: "string list" where
  "TRUSTED_FRESH_OFFICIAL_CONTEXT_SOURCES =
     [CURRENT_DIRECT_OFFICIAL_SOURCE, FRESH_DIRECT_OFFICIAL_CACHE_AUTHORITY_SOURCE]"

record context_budget =
  cb_context_window :: int
  cb_max_context_window :: int
  cb_effective_percent :: int
  cb_effective_window :: int
  cb_model_context_window :: int
  cb_auto_compact_limit :: int
  cb_source :: string
  cb_freshness :: string

definition positive_int :: "json \<Rightarrow> int option" where
  "positive_int v = (case v of JInt n \<Rightarrow> (if n > 0 then Some n else None) | _ \<Rightarrow> None)"

definition GROK_PROMPT_METER_FAMILIES :: "string list" where
  "GROK_PROMPT_METER_FAMILIES = [''grok'', ''grok-4.5'']"

definition uses_xai_prompt_meter :: "string option \<Rightarrow> bool" where
  "uses_xai_prompt_meter upstream_model \<longleftrightarrow>
     List.member GROK_PROMPT_METER_FAMILIES (family_for (or_empty upstream_model))"

definition catalog_auto_compact_token_limit :: "int \<Rightarrow> string option \<Rightarrow> int option" where
  "catalog_auto_compact_token_limit context_window upstream_model =
     (if context_window \<le> 0 \<or> \<not> uses_xai_prompt_meter upstream_model then None
      else let native_cap = context_window * NATIVE_AUTO_COMPACT_PERCENT div 100;
               xai_limit = max 1 (context_window * XAI_AUTO_COMPACT_PERCENT div 100)
           in Some (min xai_limit native_cap))"

definition context_percent :: "json \<Rightarrow> int option" where
  "context_percent v =
     (case positive_int v of None \<Rightarrow> None | Some n \<Rightarrow> (if n \<le> 100 then Some n else None))"

definition auto_compact_limit :: "int \<Rightarrow> int \<Rightarrow> int option \<Rightarrow> int" where
  "auto_compact_limit context_window effective_window requested =
     (let native_limit = context_window * NATIVE_AUTO_COMPACT_PERCENT div 100 in
      min (case requested of None \<Rightarrow> native_limit | Some r \<Rightarrow> r) (min native_limit effective_window))"

definition min_option :: "int option \<Rightarrow> int option \<Rightarrow> int option" where
  "min_option a b =
     (case a of None \<Rightarrow> b | Some x \<Rightarrow> (case b of None \<Rightarrow> Some x | Some y \<Rightarrow> Some (min x y)))"

text \<open>The direct snapshot as given, and the tests the function makes on it.\<close>

record direct_snapshot =
  ds_context :: json
  ds_max :: json
  ds_percent :: json
  ds_auto_compact :: json
  ds_freshness :: string
  ds_source :: string

definition direct_is_contradictory :: "direct_snapshot \<Rightarrow> bool" where
  "direct_is_contradictory d \<longleftrightarrow>
     (case (positive_int (ds_context d), positive_int (ds_max d)) of
        (Some c, Some m) \<Rightarrow> m < c | _ \<Rightarrow> False)
     \<or> (ds_percent d \<noteq> JNull \<and> context_percent (ds_percent d) = None)
     \<or> (ds_auto_compact d \<noteq> JNull \<and> positive_int (ds_auto_compact d) = None)"

definition known_freshness :: "string \<Rightarrow> string" where
  "known_freshness f =
     (if List.member [''fresh'', ''missing'', ''stale'', ''contradictory''] f then f else ''missing'')"

definition trusted_fresh_direct :: "direct_snapshot \<Rightarrow> bool" where
  "trusted_fresh_direct d \<longleftrightarrow>
     List.member TRUSTED_FRESH_OFFICIAL_CONTEXT_SOURCES (ds_source d)
     \<and> known_freshness (ds_freshness d) = ''fresh''
     \<and> positive_int (ds_context d) \<noteq> None
     \<and> context_percent (ds_percent d) \<noteq> None
     \<and> \<not> direct_is_contradictory d"

definition make_budget :: "int \<Rightarrow> int \<Rightarrow> int option \<Rightarrow> string \<Rightarrow> string \<Rightarrow> context_budget" where
  "make_budget window percent requested source freshness =
     (let effective = max 1 (window * percent div 100) in
      \<lparr>cb_context_window = window, cb_max_context_window = window, cb_effective_percent = percent,
       cb_effective_window = effective, cb_model_context_window = window,
       cb_auto_compact_limit = auto_compact_limit window effective requested,
       cb_source = source, cb_freshness = freshness\<rparr>)"

definition resolve_official_context_budget ::
  "direct_snapshot \<Rightarrow> json \<Rightarrow> json \<Rightarrow> json \<Rightarrow> context_budget option" where
  "resolve_official_context_budget d fallback_context fallback_percent fallback_auto =
     (if trusted_fresh_direct d then
        Some (make_budget (the (positive_int (ds_context d))) (the (context_percent (ds_percent d)))
                (positive_int (ds_auto_compact d)) (ds_source d) ''fresh'')
      else case positive_int fallback_context of
        None \<Rightarrow> None
      | Some fallback \<Rightarrow>
          (let freshness = (if direct_is_contradictory d then ''contradictory''
                            else if known_freshness (ds_freshness d) = ''fresh'' then ''missing''
                            else known_freshness (ds_freshness d));
               window = the (min_option (min_option (Some fallback) (positive_int (ds_context d)))
                               (positive_int (ds_max d)))
           in case context_percent fallback_percent of
                None \<Rightarrow> None
              | Some fp \<Rightarrow>
                  Some (make_budget window (the (min_option (Some fp) (context_percent (ds_percent d))))
                          (min_option (positive_int fallback_auto) (positive_int (ds_auto_compact d)))
                          DEGRADED_LAST_KNOWN_OFFICIAL_SOURCE freshness)))"

section \<open>Resolved limits\<close>

record resolved_limits =
  rl_provider_id :: json
  rl_model_id :: json
  rl_effective_context_window :: json
  rl_max_context_window :: json
  rl_max_output_tokens :: json
  rl_effective_source :: json
  rl_max_source :: json
  rl_confidence :: json
  rl_verified_at :: json
  rl_probe_cli_version :: json

datatype limits_error = Unsupported_Schema | Not_A_Mapping | Not_Iterable | Unhashable_Key

definition get_or_null :: "(string \<times> json) list \<Rightarrow> string \<Rightarrow> json" where
  "get_or_null d k = (case dict_get d k of None \<Rightarrow> JNull | Some v \<Rightarrow> v)"

definition limits_from_dict :: "(string \<times> json) list \<Rightarrow> resolved_limits" where
  "limits_from_dict d =
     \<lparr>rl_provider_id = get_or_null d ''provider_id'', rl_model_id = get_or_null d ''model_id'',
      rl_effective_context_window = get_or_null d ''effective_context_window'',
      rl_max_context_window = get_or_null d ''max_context_window'',
      rl_max_output_tokens = get_or_null d ''max_output_tokens'',
      rl_effective_source = get_or_null d ''effective_source'',
      rl_max_source = get_or_null d ''max_source'', rl_confidence = get_or_null d ''confidence'',
      rl_verified_at = get_or_null d ''verified_at'',
      rl_probe_cli_version = get_or_null d ''probe_cli_version''\<rparr>"

fun limits_of_items :: "json list \<Rightarrow> limits_error + resolved_limits list" where
  "limits_of_items [] = Inr []"
| "limits_of_items (v # vs) =
     (case json_object v of
        None \<Rightarrow> Inl Not_A_Mapping
      | Some d \<Rightarrow> rbind (limits_of_items vs) (\<lambda>ls. Inr (limits_from_dict d # ls)))"

fun limits_table ::
  "((json \<times> json), resolved_limits) dict \<Rightarrow> resolved_limits list \<Rightarrow>
   limits_error + ((json \<times> json), resolved_limits) dict" where
  "limits_table d [] = Inr d"
| "limits_table d (l # ls) =
     (if hashable (rl_provider_id l) \<and> hashable (rl_model_id l)
      then limits_table (dict_set d (rl_provider_id l, rl_model_id l) l) ls
      else Inl Unhashable_Key)"

text \<open>
  \<open>None\<close> is a missing file; a file is its decoded JSON value.  What depends on the rounding of a
  decimal text to a float (is it one, is it zero) is a parameter.  Keys are compared as JSON
  values.
\<close>

definition equals_one :: "(string \<Rightarrow> bool) \<Rightarrow> json \<Rightarrow> bool" where
  "equals_one float_one v \<longleftrightarrow>
     (case v of JInt n \<Rightarrow> n = 1 | JBool b \<Rightarrow> b | JFloat t \<Rightarrow> float_one t | _ \<Rightarrow> False)"

definition load_resolved_model_limits ::
  "(string \<Rightarrow> bool) \<Rightarrow> json option \<Rightarrow> limits_error + ((json \<times> json), resolved_limits) dict" where
  "load_resolved_model_limits float_one file =
     (case file of
        None \<Rightarrow> Inr []
      | Some v \<Rightarrow>
          (case json_object v of
             None \<Rightarrow> Inl Not_A_Mapping
           | Some payload \<Rightarrow>
               (if \<not> equals_one float_one (get_or_null payload ''schema_version'') then Inl Unsupported_Schema
                else case (case dict_get payload ''entries'' of None \<Rightarrow> JArr [] | Some e \<Rightarrow> e) of
                       JArr items \<Rightarrow> rbind (limits_of_items items) (limits_table [])
                     | JObj kvs \<Rightarrow> (if kvs = [] then Inr [] else Inl Not_A_Mapping)
                     | JStr t \<Rightarrow> (if t = [] then Inr [] else Inl Not_A_Mapping)
                     | _ \<Rightarrow> Inl Not_Iterable)))"

definition set_or_pop :: "string \<Rightarrow> json \<Rightarrow> (string \<times> json) list \<Rightarrow> (string \<times> json) list" where
  "set_or_pop k v d = (if v \<noteq> JNull then dict_set d k v else dict_pop d k)"

definition set_default :: "string \<Rightarrow> json \<Rightarrow> (string \<times> json) list \<Rightarrow> (string \<times> json) list" where
  "set_default k v d = (if dict_has d k then d else dict_set d k v)"

definition truthy :: "(string \<Rightarrow> bool) \<Rightarrow> json \<Rightarrow> bool" where
  "truthy float_zero v \<longleftrightarrow>
     (case v of JNull \<Rightarrow> False | JBool b \<Rightarrow> b | JInt n \<Rightarrow> n \<noteq> 0 | JStr s \<Rightarrow> s \<noteq> [] | JArr vs \<Rightarrow> vs \<noteq> []
      | JObj kvs \<Rightarrow> kvs \<noteq> [] | JFloat t \<Rightarrow> \<not> float_zero t)"

definition apply_resolved_model_limits ::
  "(string \<Rightarrow> bool) \<Rightarrow> resolved_limits option \<Rightarrow> (string \<times> json) list \<Rightarrow> (string \<times> json) list" where
  "apply_resolved_model_limits float_zero limits model =
     (case limits of
        None \<Rightarrow> model
      | Some l \<Rightarrow>
          (let m1 = set_or_pop ''context_window'' (rl_effective_context_window l) model;
               m2 = set_or_pop ''max_context_window'' (rl_max_context_window l) m1;
               m3 = (if rl_max_output_tokens l \<noteq> JNull
                     then set_default ''max_output_tokens'' (rl_max_output_tokens l) m2 else m2);
               m4 = dict_set m3 ''effective_source'' (rl_effective_source l);
               m5 = dict_set m4 ''max_source'' (rl_max_source l);
               m6 = dict_set m5 ''confidence'' (rl_confidence l);
               m7 = dict_set m6 ''verified_at'' (rl_verified_at l)
           in if truthy float_zero (rl_probe_cli_version l)
              then dict_set m7 ''probe_cli_version'' (rl_probe_cli_version l) else m7))"

end
