(* ===== verification/Model_Properties.thy ===== *)
theory Model_Properties
  imports Model_Limits
begin

text \<open>
  The catalog never offers a level it does not have, the thinking payload is well formed and
  stable, and a context budget is bounded and never grows on degraded evidence.
\<close>

section \<open>Defaults\<close>

lemma min_by_in: "min_by key b xs \<in> insert b (set xs)"
  by (induction xs arbitrary: b) (force simp: Let_def split: prod.split)+

lemma ranked_in: "l \<in> set (ranked_levels levels) \<longleftrightarrow> l \<in> set levels \<and> level_rank l \<noteq> None"
  by (auto simp: ranked_levels_def)

lemma valid_default_None_iff: "valid_default d levels = None \<longleftrightarrow> levels = []"
  by (auto simp: valid_default_def split: option.split list.split)

lemma valid_default_member: "valid_default d levels = Some l \<Longrightarrow> l \<in> set levels"
proof -
  assume l: "valid_default d levels = Some l"
  have "min_by (level_key n) x xs \<in> set levels" if "ranked_levels levels = x # xs" for n x xs
    using min_by_in [of "level_key n" x xs] ranked_in [of _ levels] that by auto
  with l show ?thesis
    by (auto simp: valid_default_def split: list.splits option.splits if_splits)
qed

lemma min_by_least:
  assumes "x \<in> insert b (set xs)"
  shows "fst (key (min_by key b xs)) < fst (key x)
     \<or> fst (key (min_by key b xs)) = fst (key x) \<and> snd (key (min_by key b xs)) \<le> snd (key x)"
  using assms
proof (induction xs arbitrary: b x)
  case (Cons y ys)
  define b' where "b' = (if fst (key y) < fst (key b) \<or> fst (key y) = fst (key b) \<and> snd (key y) < snd (key b) then y else b)"
  have m: "min_by key b (y # ys) = min_by key b' ys" by (simp add: b'_def Let_def case_prod_beta)
  consider "x \<in> insert b' (set ys)" | "x = b" | "x = y" using Cons.prems by auto
  then show ?case
  proof cases
    case 1
    from Cons.IH [OF this] show ?thesis unfolding m .
  next
    case 2
    from Cons.IH [of b' b'] 2 show ?thesis unfolding m by (auto simp: b'_def split: if_splits)
  next
    case 3
    from Cons.IH [of b' b'] 3 show ?thesis unfolding m by (auto simp: b'_def split: if_splits)
  qed
qed simp

text \<open>When the wanted default is a known level that the model does not offer, the level chosen
  instead is offered, is at the smallest distance in rank, and is the higher one of two equally
  near levels.\<close>
theorem valid_default_nearest:
  assumes "level_rank d = Some r" and "\<not> List.member levels d"
    and "List.member levels l" and "level_rank l = Some k"
  shows "\<exists>c rc. valid_default (Some d) levels = Some c \<and> List.member levels c \<and> level_rank c = Some rc
           \<and> \<bar>rc - r\<bar> \<le> \<bar>k - r\<bar> \<and> (\<bar>rc - r\<bar> = \<bar>k - r\<bar> \<longrightarrow> k \<le> rc)"
proof -
  have l: "l \<in> set (ranked_levels levels)" using assms(3,4) by (simp add: ranked_in)
  then obtain h t where ht: "ranked_levels levels = h # t" by (cases "ranked_levels levels") auto
  define c where "c = min_by (level_key r) h t"
  have vd: "valid_default (Some d) levels = Some c"
    using assms(1-3) ht by (cases levels) (auto simp: valid_default_def c_def)
  have "c \<in> set (ranked_levels levels)" using min_by_in [of "level_key r" h t] ht by (simp add: c_def)
  then obtain rc where rc: "level_rank c = Some rc" "c \<in> set levels" by (auto simp: ranked_in)
  have "fst (level_key r c) < fst (level_key r l)
     \<or> fst (level_key r c) = fst (level_key r l) \<and> snd (level_key r c) \<le> snd (level_key r l)"
    using min_by_least [of l h t "level_key r"] l ht by (simp add: c_def)
  with rc assms(4) have "\<bar>rc - r\<bar> \<le> \<bar>k - r\<bar> \<and> (\<bar>rc - r\<bar> = \<bar>k - r\<bar> \<longrightarrow> k \<le> rc)" by (auto simp: level_key_def)
  with rc vd show ?thesis by auto
qed

section \<open>Every row is well formed\<close>

definition known_levels :: "string list \<Rightarrow> bool" where
  "known_levels levels \<longleftrightarrow> list_all (List.member LEVEL_RANK) levels"

definition model_ok :: "maintained_model \<Rightarrow> bool" where
  "model_ok m \<longleftrightarrow>
     (case mm_default_reasoning_level m of
        None \<Rightarrow> mm_reasoning_levels m = []
      | Some d \<Rightarrow> List.member (mm_reasoning_levels m) d)
     \<and> known_levels (mm_reasoning_levels m)
     \<and> mm_family m = family_for (mm_id m)"

lemma default_ok:
  "(case valid_default d levels of None \<Rightarrow> levels = [] | Some l \<Rightarrow> List.member levels l)"
  using valid_default_None_iff [of d levels] valid_default_member [of d levels] by (auto split: option.split)

lemma model_okI:
  assumes "mm_default_reasoning_level m = valid_default d (mm_reasoning_levels m)"
    and "known_levels (mm_reasoning_levels m)" "mm_family m = family_for (mm_id m)"
  shows "model_ok m"
  unfolding model_ok_def assms(1) using assms(2,3) default_ok by auto

lemma families_known: "list_all (\<lambda>(k, p). known_levels (fp_levels p)) FAMILIES"
  by code_simp

lemma policy_known: "known_levels (fp_levels (family_policy_of m))"
proof (cases "dict_get FAMILIES (family_for m)")
  case None
  have "known_levels (fp_levels GENERIC)" by code_simp
  with None show ?thesis by (simp add: family_policy_of_def)
next
  case (Some p)
  then have "(family_for m, p) \<in> set FAMILIES" by (rule map_of_SomeD)
  with families_known Some show ?thesis by (auto simp: family_policy_of_def list_all_iff)
qed

lemma row_ok: "(case rl of None \<Rightarrow> True | Some l \<Rightarrow> known_levels l) \<Longrightarrow>
    model_ok (row p i n c m s al ts nc ma rl d tm im)"
proof -
  assume rl: "case rl of None \<Rightarrow> True | Some l \<Rightarrow> known_levels l"
  let ?m = "row p i n c m s al ts nc ma rl d tm im"
  have f: "mm_reasoning_levels ?m = (case rl of None \<Rightarrow> fp_levels (family_policy_of i) | Some l \<Rightarrow> l)"
    "mm_default_reasoning_level ?m = valid_default (case d of None \<Rightarrow> fp_default_level (family_policy_of i)
        | Some d \<Rightarrow> Some d) (mm_reasoning_levels ?m)"
    "mm_family ?m = family_for i" "mm_id ?m = i"
    by (simp_all add: row_def Let_def)
  have "known_levels (mm_reasoning_levels ?m)" unfolding f(1) using rl policy_known by (cases rl) simp_all
  then show ?thesis unfolding model_ok_def f(2-) using default_ok by auto
qed

lemma enumerate_all: "list_all P xs \<Longrightarrow> (\<And>i x. P x \<Longrightarrow> Q (f i x)) \<Longrightarrow> list_all Q (enumerate_rows f i xs)"
  by (induction xs arbitrary: i) auto

lemma commandcode_known: "list_all (\<lambda>(i, n, levels, rest). known_levels levels) commandcode_specs"
  by code_simp

lemma opencode_known: "list_all (\<lambda>(k, levels). known_levels levels) opencode_extra_levels"
  by code_simp

lemma rows_ok:
  "list_all model_ok (kimi_rows p)" "list_all model_ok commandcode_rows" "list_all model_ok opencode_rows"
proof -
  show "list_all model_ok (kimi_rows p)" by (simp add: kimi_rows_def plain_row_def row_ok)
  show "list_all model_ok commandcode_rows"
    unfolding commandcode_rows_def
    by (rule enumerate_all [OF commandcode_known]) (auto simp: commandcode_row_def row_ok)
  have "known_levels l" if "dict_get opencode_extra_levels m = Some l" for m l
    using opencode_known map_of_SomeD [OF that] by (auto simp: list_all_iff)
  then have "model_ok (opencode_row i x)" for i x
    by (auto simp: opencode_row_def known_levels_def intro!: row_ok split: prod.split option.split)
  then show "list_all model_ok opencode_rows"
    unfolding opencode_rows_def by (intro enumerate_all [of "\<lambda>_. True"]) (simp_all add: list_all_iff)
qed

lemma official_ok: "list_all model_ok OFFICIAL"
  unfolding OFFICIAL_def list_all_append using rows_ok
  by (simp add: plain_row_def row_ok)

section \<open>The index\<close>

definition keys_of :: "maintained_model \<Rightarrow> (string \<times> string) list" where
  "keys_of m = map (Pair (mm_provider_id m)) (mm_id m # mm_aliases m)"

definition head_keys :: "(string \<times> string) list" where
  "head_keys =
     [(''ollama-cloud'', ''glm-5.3''),
      (''ollama-cloud'', ''glm-5.3-flash''),
      (''ollama-cloud'', ''glm-5.2''),
      (''ollama-cloud'', ''glm-5.1''),
      (''ollama-cloud'', ''kimi-k3''),
      (''ollama-cloud'', ''kimi-k2.7-code''),
      (''ollama-cloud'', ''kimi-k2.6''),
      (''ollama-cloud'', ''minimax-m3''),
      (''ollama-cloud'', ''minimax-m2.7''),
      (''ollama-cloud'', ''deepseek-v4-pro''),
      (''ollama-cloud'', ''deepseek-v4-flash''),
      (''ollama-cloud'', ''qwen3.5:397b''),
      (''ollama-cloud'', ''gemma4:31b''),
      (''ollama-cloud'', ''gpt-oss:120b''),
      (''ollama-cloud'', ''gpt-oss:20b''),
      (''ollama-cloud'', ''nemotron-3-ultra''),
      (''ollama-cloud'', ''nemotron-3-super''),
      (''ollama-cloud'', ''nemotron-3-nano:30b''),
      (''ollama-cloud'', ''mistral-large-3:675b''),
      (''volc'', ''glm-5.3''),
      (''volc'', ''doubao-seed-2.1-turbo''),
      (''volc'', ''doubao-seed-evolving''),
      (''volc'', ''kimi-k2.7-code''),
      (''volc'', ''minimax-m3''),
      (''volc'', ''deepseek-v4-pro''),
      (''volc'', ''deepseek-v4-flash''),
      (''volc'', ''doubao-seed-2.0-code''),
      (''volc'', ''doubao-seed-2.0-pro''),
      (''volc'', ''doubao-seed-2.0-lite''),
      (''minimax-cn'', ''MiniMax-M3''),
      (''minimax-cn'', ''minimax-m3''),
      (''minimax-cn'', ''MiniMax-M2.7''),
      (''minimax-cn'', ''MiniMax-M2.7-highspeed''),
      (''minimax-cn'', ''MiniMax-M2.5''),
      (''minimax-cn'', ''MiniMax-M2.5-highspeed''),
      (''minimax-cn'', ''MiniMax-M2.1''),
      (''minimax-cn'', ''MiniMax-M2.1-highspeed''),
      (''minimax-cn'', ''MiniMax-M2'')]"

definition kimi_ids :: "string list" where
  "kimi_ids = [''kimi-k3'', ''kimi-k2.7-code'', ''kimi-k2.7-code-highspeed'', ''kimi-k2.6'']"

lemma row_keys [simp]: "keys_of (row p i n c m s al ts nc ma rl d tm im) = map (Pair p) (i # al)"
  by (simp add: keys_of_def row_def Let_def)

lemma enumerate_keys:
  "(\<And>i x. keys_of (f i x) = [(p, fst x)]) \<Longrightarrow>
   concat (map keys_of (enumerate_rows f i xs)) = map (Pair p) (map fst xs)"
  by (induction xs arbitrary: i) auto

lemma table_keys:
  "concat (map keys_of commandcode_rows) = map (Pair ''commandcode'') (map fst commandcode_specs)"
  "concat (map keys_of opencode_rows) = map (Pair ''opencode-go'') (map fst opencode_specs)"
  "concat (map keys_of (kimi_rows p)) = map (Pair p) kimi_ids"
proof -
  show "concat (map keys_of commandcode_rows) = map (Pair ''commandcode'') (map fst commandcode_specs)"
    unfolding commandcode_rows_def by (rule enumerate_keys) (simp add: commandcode_row_def split: prod.split)
  show "concat (map keys_of opencode_rows) = map (Pair ''opencode-go'') (map fst opencode_specs)"
    unfolding opencode_rows_def by (rule enumerate_keys) (simp add: opencode_row_def split: prod.split)
  show "concat (map keys_of (kimi_rows p)) = map (Pair p) kimi_ids"
    by (simp add: kimi_rows_def plain_row_def kimi_ids_def)
qed

lemma official_keys:
  "concat (map keys_of OFFICIAL) = head_keys @ map (Pair ''kimi-cn'') kimi_ids @ map (Pair ''kimi'') kimi_ids
     @ map (Pair ''commandcode'') (map fst commandcode_specs) @ map (Pair ''opencode-go'') (map fst opencode_specs)"
  unfolding OFFICIAL_def map_append concat_append table_keys
  by (simp add: plain_row_def head_keys_def)

lemma table_distinct:
  "distinct head_keys" "distinct (map fst commandcode_specs)" "distinct (map fst opencode_specs)" "distinct kimi_ids"
  by code_simp+

lemma head_providers:
  "list_all (\<lambda>(p, i). List.member [''ollama-cloud'', ''volc'', ''minimax-cn''] p \<and> trimmed i) head_keys"
  by (simp add: head_keys_def trimmed_def ascii_text_def space_code_def)

lemma table_trimmed:
  "list_all trimmed (map fst commandcode_specs)" "list_all trimmed (map fst opencode_specs)" "list_all trimmed kimi_ids"
  by (simp_all add: commandcode_specs_def opencode_specs_def kimi_ids_def trimmed_def ascii_text_def space_code_def)

lemma distinct_map_Pair [simp]: "distinct (map (Pair p) xs) = distinct xs"
  by (simp add: distinct_map inj_on_def)

lemma official_distinct: "distinct (concat (map keys_of OFFICIAL))"
proof -
  have h: "fst x = ''ollama-cloud'' \<or> fst x = ''volc'' \<or> fst x = ''minimax-cn''" if "x \<in> set head_keys" for x
    using head_providers that by (auto simp: list_all_iff)
  show ?thesis unfolding official_keys using table_distinct
    by (auto simp del: map_map dest!: h)
qed

lemma keys_trimmed: "(p, i) \<in> set (concat (map keys_of OFFICIAL)) \<Longrightarrow> trimmed p \<and> trimmed i \<and> p \<noteq> []"
proof -
  assume k: "(p, i) \<in> set (concat (map keys_of OFFICIAL))"
  have "trimmed ''ollama-cloud''" "trimmed ''volc''" "trimmed ''minimax-cn''" "trimmed ''kimi-cn''"
    "trimmed ''kimi''" "trimmed ''commandcode''" "trimmed ''opencode-go''"
    by (simp_all add: trimmed_def ascii_text_def space_code_def)
  with k head_providers table_trimmed show ?thesis
    unfolding official_keys by (fastforce simp: list_all_iff)
qed

lemma fold_dict_set_get:
  "dict_get (foldl (\<lambda>d a. dict_set d (f a) m) d0 as) k = (if k \<in> f ` set as then Some m else dict_get d0 k)"
  by (induction "as" arbitrary: d0) (auto simp: dict_simps)

lemma add_to_index_get:
  "dict_get (add_to_index d m) k = (if k \<in> set (keys_of m) then Some m else dict_get d k)"
  by (auto simp: add_to_index_def fold_dict_set_get keys_of_def dict_simps)

lemma index_get_Some: "dict_get (foldl add_to_index d ms) k = Some m \<Longrightarrow>
    dict_get d k = Some m \<or> (m \<in> set ms \<and> k \<in> set (keys_of m))"
  by (induction ms arbitrary: d) (fastforce simp: add_to_index_get split: if_splits)+

lemma index_keep: "k \<notin> set (concat (map keys_of ms)) \<Longrightarrow> dict_get (foldl add_to_index d ms) k = dict_get d k"
  by (induction ms arbitrary: d) (auto simp: add_to_index_get)

lemma index_get: "distinct (concat (map keys_of ms)) \<Longrightarrow> m \<in> set ms \<Longrightarrow> k \<in> set (keys_of m) \<Longrightarrow>
    dict_get (foldl add_to_index d ms) k = Some m"
proof (induction ms arbitrary: d)
  case (Cons x xs)
  show ?case
  proof (cases "m = x")
    case True
    have "k \<notin> set (concat (map keys_of xs))" using Cons.prems True by auto
    from index_keep [OF this] True Cons.prems(3) show ?thesis by (simp add: add_to_index_get)
  next
    case False
    with Cons show ?thesis by simp
  qed
qed simp

lemma official_lookup:
  assumes "List.member OFFICIAL m" and "List.member (mm_id m # mm_aliases m) i" and "i \<noteq> []"
  shows "resolve_model (Some (mm_provider_id m)) (Some i) = Some m"
proof -
  have k: "(mm_provider_id m, i) \<in> set (keys_of m)" using assms(2) by (auto simp: keys_of_def)
  then have all: "(mm_provider_id m, i) \<in> set (concat (map keys_of OFFICIAL))" using assms(1) by auto
  have "dict_get OFFICIAL_INDEX (mm_provider_id m, i) = Some m"
    unfolding OFFICIAL_INDEX_def index_of_def using assms(1) k by (intro index_get official_distinct) simp_all
  with keys_trimmed [OF all] assms(3) show ?thesis
    by (simp add: resolve_model_def Let_def or_empty_def str_strip_trimmed)
qed

text \<open>Every official row is found under its own id and under each of its aliases; the keys of the
  catalog are pairwise distinct, so no row hides another.\<close>
theorem official_row_resolves:
  assumes "List.member OFFICIAL m" and "List.member (mm_id m # mm_aliases m) i" and "i \<noteq> []"
  shows "resolve_model (Some (mm_provider_id m)) (Some i) = Some m"
  using assms by (rule official_lookup)

section \<open>Resolution\<close>

lemma resolved_helper:
  assumes "resolve_model provider_id model_id = Some m"
  shows "model_ok m"
proof (cases "dict_get OFFICIAL_INDEX (str_strip (or_empty provider_id), str_strip (or_empty model_id))")
  case (Some exact)
  then have "exact \<in> set OFFICIAL"
    using index_get_Some [of "[]" OFFICIAL] by (auto simp: OFFICIAL_INDEX_def index_of_def)
  with official_ok assms Some show ?thesis
    by (auto simp: resolve_model_def Let_def list_all_iff split: if_splits)
next
  case None
  then have "mm_reasoning_levels m = fp_levels (family_policy_of (mm_id m))"
    "mm_default_reasoning_level m = valid_default (fp_default_level (family_policy_of (mm_id m))) (mm_reasoning_levels m)"
    "mm_family m = family_for (mm_id m)"
    using assms by (auto simp: resolve_model_def Let_def split: if_splits)
  then show ?thesis by (auto intro: model_okI simp: policy_known)
qed

text \<open>C40: Whatever \<open>resolve_model\<close> returns is well formed: the default reasoning level is one of the
  offered levels (and there is none exactly when no level is offered), all levels are known ones,
  and the family is the family of its id.\<close>
theorem resolved_model_ok:
  assumes "resolve_model provider_id model_id = Some m"
  shows "model_ok m"
  using assms by (rule resolved_helper)

text \<open>Every classification is a documented family.\<close>
lemma family_for_documented: "dict_get FAMILIES (family_for model_id) \<noteq> None"
proof -
  have if_prop: "P x \<Longrightarrow> P y \<Longrightarrow> P (if c then x else y)" for P :: "string \<Rightarrow> bool" and c x y by simp
  show ?thesis
    unfolding family_for_def Let_def
    by (intro if_prop [where P="\<lambda>f. dict_get FAMILIES f \<noteq> None"]; code_simp)
qed

section \<open>The thinking payload\<close>

lemma valid_helper:
  assumes "thinking_payload provider_id model_id effort enabled = p"
  shows "(case tp_reasoning_effort p of
            None \<Rightarrow> True
          | Some e \<Rightarrow> \<not> tp_drop_reasoning_effort p \<and> List.member (reasoning_levels_for provider_id model_id) e)"
proof (cases "resolve_model provider_id model_id")
  case None
  with assms show ?thesis by (auto simp: thinking_payload_def thinking_payload_of_def)
next
  case (Some m)
  have "model_ok m" by (rule resolved_helper [OF Some])
  then have d: "mm_reasoning_levels m = l # ls \<Longrightarrow> \<exists>d. mm_default_reasoning_level m = Some d \<and> d \<in> set (mm_reasoning_levels m)" for l ls
    by (auto simp: model_ok_def split: option.splits)
  show ?thesis
  proof (cases "mm_reasoning_levels m")
    case Nil
    with Some assms show ?thesis
      by (auto simp: thinking_payload_def thinking_payload_of_def Let_def drop_effort_def split: if_splits)
  next
    case (Cons l ls)
    from d [OF this] obtain d where "mm_default_reasoning_level m = Some d" "d \<in> set (mm_reasoning_levels m)" by blast
    with Some assms Cons show ?thesis
      by (auto simp: thinking_payload_def thinking_payload_of_def Let_def drop_effort_def reasoning_levels_for_def
          split: if_splits option.splits)
  qed
qed

text \<open>The thinking payload never both drops and sets an effort, and an effort it sets is one of the
  levels the model offers.\<close>
theorem thinking_payload_valid:
  "case tp_reasoning_effort (thinking_payload provider_id model_id effort enabled) of
     None \<Rightarrow> True
   | Some e \<Rightarrow> \<not> tp_drop_reasoning_effort (thinking_payload provider_id model_id effort enabled)
       \<and> List.member (reasoning_levels_for provider_id model_id) e"
  by (rule valid_helper [OF refl])

lemma known_level_request: "List.member LEVEL_RANK l \<Longrightarrow> requested_effort (Some l) = Some l"
proof -
  have "list_all (\<lambda>l. requested_effort (Some l) = Some l) LEVEL_RANK"
    by (simp add: LEVEL_RANK_def requested_effort_def or_empty_def str_strip_trimmed trimmed_def
        ascii_text_def space_code_def py_lower_def lower_char_def Let_def)
  then show "List.member LEVEL_RANK l \<Longrightarrow> ?thesis" by (simp add: list_all_iff)
qed

text \<open>The mapping is stable: asking again with the effort the payload chose gives the same
  payload, so normalising twice changes nothing.\<close>
theorem thinking_payload_stable:
  "thinking_payload provider_id model_id
     (tp_reasoning_effort (thinking_payload provider_id model_id effort enabled)) enabled
   = thinking_payload provider_id model_id effort enabled"
proof (cases "resolve_model provider_id model_id")
  case None
  then show ?thesis by (simp add: thinking_payload_def thinking_payload_of_def)
next
  case (Some m)
  have ok: "model_ok m" by (rule resolved_helper [OF Some])
  define p where "p = thinking_payload provider_id model_id effort enabled"
  show ?thesis
  proof (cases "tp_reasoning_effort p")
    case None
    with Some show ?thesis unfolding p_def
      by (auto simp: thinking_payload_def thinking_payload_of_def Let_def drop_effort_def
          split: list.splits option.splits if_splits)
  next
    case e: (Some e)
    have mem: "List.member (mm_reasoning_levels m) e"
      using valid_helper [OF p_def [symmetric]] e Some by (simp add: reasoning_levels_for_def)
    then have "List.member LEVEL_RANK e" using ok by (auto simp: model_ok_def known_levels_def list_all_iff)
    then have r: "requested_effort (Some e) = Some e" by (rule known_level_request)
    have p: "p = \<lparr>tp_drop_reasoning_effort = False, tp_reasoning_effort = Some e, tp_thinking = None\<rparr>"
      using e Some unfolding p_def
      by (auto simp: thinking_payload_def thinking_payload_of_def Let_def drop_effort_def
          split: list.splits option.splits if_splits)
    have "thinking_payload provider_id model_id (Some e) enabled = p"
      using Some e r mem p unfolding p_def
      by (auto simp: thinking_payload_def thinking_payload_of_def Let_def drop_effort_def
          split: list.splits if_splits)
    with e show ?thesis by (simp flip: p_def)
  qed
qed

section \<open>Witnesses\<close>

theorem valid_default_nearest_witness:
  "\<exists>c rc. valid_default (Some ''medium'') [''low'', ''high''] = Some c \<and> level_rank c = Some rc
     \<and> \<bar>rc - 1\<bar> \<le> \<bar>0 - (1::int)\<bar> \<and> (\<bar>rc - 1\<bar> = \<bar>0 - (1::int)\<bar> \<longrightarrow> 0 \<le> rc)"
proof -
  have "level_rank ''medium'' = Some 1" "level_rank ''low'' = Some 0" by code_simp+
  from valid_default_nearest [OF this(1) _ _ this(2), of "[''low'', ''high'']"] show ?thesis by auto
qed

definition demo_row :: maintained_model where
  "demo_row = row ''minimax-cn'' ''MiniMax-M3'' ''MiniMax M3'' 1000000 524288 1 [''minimax-m3''] None None None None None None None"

lemma demo_row_official: "List.member OFFICIAL demo_row" by (simp add: OFFICIAL_def demo_row_def)

lemma demo_row_ids: "mm_provider_id demo_row = ''minimax-cn''"
  "List.member (mm_id demo_row # mm_aliases demo_row) ''minimax-m3''"
  by (simp_all add: demo_row_def row_def Let_def)

theorem official_row_resolves_witness:
  "resolve_model (Some ''minimax-cn'') (Some ''minimax-m3'') = Some demo_row"
  using official_row_resolves [OF demo_row_official demo_row_ids(2)] by (simp add: demo_row_ids)

theorem resolved_model_ok_witness: "model_ok demo_row"
  using official_lookup [OF demo_row_official demo_row_ids(2)] by (rule resolved_model_ok) simp

end
