(* ===== verification/Model_Limits_Properties.thy ===== *)
theory Model_Limits_Properties
  imports Model_Limits
begin

text \<open>
  A context budget is well formed and, on degraded evidence, never larger than the fallback it
  starts from; applying resolved limits to a catalog row is idempotent and local.
\<close>

section \<open>Context budgets\<close>

lemma positive_int_pos: "positive_int v = Some n \<Longrightarrow> 0 < n"
  by (simp add: positive_int_def split: json.splits if_splits)

lemma context_percent_range: "context_percent v = Some p \<Longrightarrow> 1 \<le> p \<and> p \<le> 100"
  by (auto simp: context_percent_def dest: positive_int_pos split: option.splits if_splits)

lemma min_option_Some: "min_option (Some x) v = Some (case v of None \<Rightarrow> x | Some y \<Rightarrow> min x y)"
  by (simp add: min_option_def split: option.split)

definition budget_ok :: "context_budget \<Rightarrow> bool" where
  "budget_ok b \<longleftrightarrow>
     0 < cb_context_window b
     \<and> cb_max_context_window b = cb_context_window b
     \<and> cb_model_context_window b = cb_context_window b
     \<and> 1 \<le> cb_effective_percent b \<and> cb_effective_percent b \<le> 100
     \<and> 1 \<le> cb_effective_window b \<and> cb_effective_window b \<le> cb_context_window b
     \<and> 0 \<le> cb_auto_compact_limit b \<and> cb_auto_compact_limit b \<le> cb_effective_window b
     \<and> 100 * cb_auto_compact_limit b \<le> NATIVE_AUTO_COMPACT_PERCENT * cb_context_window b"

lemma percent_window:
  fixes w p :: int
  assumes "0 < w" and "1 \<le> p" and "p \<le> 100"
  shows "1 \<le> max 1 (w * p div 100) \<and> max 1 (w * p div 100) \<le> w"
proof -
  have "w * p \<le> w * 100" using assms by (intro mult_left_mono) simp_all
  then have "w * p div 100 \<le> w * 100 div 100" by (rule zdiv_mono1) simp
  with assms show ?thesis by simp
qed

lemma make_budget_ok:
  assumes "0 < w" and "1 \<le> p \<and> p \<le> 100" and "\<And>r. requested = Some r \<Longrightarrow> 0 < r"
  shows "budget_ok (make_budget w p requested source freshness)"
proof -
  note e = percent_window [of w p]
  have z: "0 \<le> max 1 (w * p div 100)" by simp
  have n: "0 \<le> w * 90 div 100" "100 * (w * 90 div 100) \<le> 90 * w" using assms(1) by linarith+
  show ?thesis
    using assms e n z
    by (cases requested) (auto simp: budget_ok_def make_budget_def auto_compact_limit_def Let_def
        NATIVE_AUTO_COMPACT_PERCENT_def min_def split: if_splits)
qed

lemma trusted_budget:
  assumes "trusted_fresh_direct d"
  obtains c p where "positive_int (ds_context d) = Some c" "context_percent (ds_percent d) = Some p"
    "resolve_official_context_budget d fc fp fa
       = Some (make_budget c p (positive_int (ds_auto_compact d)) (ds_source d) ''fresh'')"
proof -
  from assms obtain c p where "positive_int (ds_context d) = Some c" "context_percent (ds_percent d) = Some p"
    by (auto simp: trusted_fresh_direct_def)
  with assms that show ?thesis by (simp add: resolve_official_context_budget_def)
qed

definition tightened :: "int \<Rightarrow> int option \<Rightarrow> int" where
  "tightened x v = (case v of None \<Rightarrow> x | Some y \<Rightarrow> min x y)"

lemma tightened_le: "tightened x v \<le> x" by (simp add: tightened_def split: option.split)

lemma tightened_pos: "0 < x \<Longrightarrow> (\<And>y. v = Some y \<Longrightarrow> 0 < y) \<Longrightarrow> 0 < tightened x v"
  by (simp add: tightened_def split: option.split)

definition degraded_freshness :: "direct_snapshot \<Rightarrow> string" where
  "degraded_freshness d =
     (if direct_is_contradictory d then ''contradictory''
      else if known_freshness (ds_freshness d) = ''fresh'' then ''missing''
      else known_freshness (ds_freshness d))"

lemma degraded_budget:
  assumes "\<not> trusted_fresh_direct d" and "resolve_official_context_budget d fc fp fa = Some b"
  obtains f p where "positive_int fc = Some f" "context_percent fp = Some p"
    "b = make_budget (tightened (tightened f (positive_int (ds_context d))) (positive_int (ds_max d)))
           (tightened p (context_percent (ds_percent d)))
           (min_option (positive_int fa) (positive_int (ds_auto_compact d)))
           DEGRADED_LAST_KNOWN_OFFICIAL_SOURCE (degraded_freshness d)"
proof -
  from assms obtain f where f: "positive_int fc = Some f"
    by (cases "positive_int fc") (simp_all add: resolve_official_context_budget_def)
  from assms f obtain p where p: "context_percent fp = Some p"
    by (cases "context_percent fp") (simp_all add: resolve_official_context_budget_def Let_def)
  from assms f p that show ?thesis
    by (simp add: resolve_official_context_budget_def Let_def min_option_Some tightened_def degraded_freshness_def)
qed

lemma min_option_pos:
  "(\<And>x. a = Some x \<Longrightarrow> 0 < x) \<Longrightarrow> (\<And>x. b = Some x \<Longrightarrow> 0 < x) \<Longrightarrow> min_option a b = Some r \<Longrightarrow> (0::int) < r"
  by (auto simp: min_option_def split: option.splits)

lemma degraded_ok:
  assumes "\<not> trusted_fresh_direct d" and "resolve_official_context_budget d fc fp fa = Some b"
  shows "budget_ok b"
proof -
  from degraded_budget [OF assms] obtain f p where f: "positive_int fc = Some f" and p: "context_percent fp = Some p"
    and b: "b = make_budget (tightened (tightened f (positive_int (ds_context d))) (positive_int (ds_max d)))
           (tightened p (context_percent (ds_percent d)))
           (min_option (positive_int fa) (positive_int (ds_auto_compact d)))
           DEGRADED_LAST_KNOWN_OFFICIAL_SOURCE (degraded_freshness d)" .
  have "0 < tightened p (context_percent (ds_percent d))"
    using context_percent_range [OF p] by (intro tightened_pos) (auto dest: context_percent_range)
  moreover have "tightened p (context_percent (ds_percent d)) \<le> 100"
    using tightened_le [of p] context_percent_range [OF p] by (rule order_trans [OF _ conjunct2])
  ultimately show ?thesis unfolding b
    using positive_int_pos [OF f]
    by (intro make_budget_ok tightened_pos) (auto dest: positive_int_pos min_option_pos [rotated 2])
qed

text \<open>Every budget that is resolved is well formed: the windows agree, the effective window lies
  between one token and the window, and the auto-compact limit exceeds neither the effective
  window nor 90 percent of the window.\<close>
theorem budget_well_formed:
  assumes "resolve_official_context_budget d fc fp fa = Some b"
  shows "budget_ok b"
proof (cases "trusted_fresh_direct d")
  case True
  from trusted_budget [OF this] obtain c p where "positive_int (ds_context d) = Some c"
    "context_percent (ds_percent d) = Some p"
    "resolve_official_context_budget d fc fp fa
       = Some (make_budget c p (positive_int (ds_auto_compact d)) (ds_source d) ''fresh'')" .
  with assms show ?thesis
    by (auto intro!: make_budget_ok dest: positive_int_pos context_percent_range)
next
  case False
  from degraded_ok [OF this assms] show ?thesis .
qed

lemma make_budget_mono:
  assumes "0 < w" and "w \<le> w'" and "0 < p" and "p \<le> p'"
  shows "cb_effective_window (make_budget w p r s f) \<le> max 1 (w' * p' div 100)"
proof -
  have "w * p \<le> w' * p'" using assms by (intro mult_mono) simp_all
  then have "w * p div 100 \<le> w' * p' div 100" by (rule zdiv_mono1) simp
  then show ?thesis by (simp add: make_budget_def Let_def max_def)
qed

lemma make_budget_requested: "cb_auto_compact_limit (make_budget w p (Some r) s f) \<le> r"
  by (simp add: make_budget_def auto_compact_limit_def Let_def)

lemma known_freshness_not_fresh: "degraded_freshness d \<noteq> ''fresh''"
  by (simp add: degraded_freshness_def)

text \<open>Degraded evidence never expands a budget: without a trusted fresh snapshot a budget exists
  only with a usable fallback, and the window, the percentage, the effective window and the
  auto-compact limit are at most what the fallback allows; the result never calls itself fresh.\<close>
theorem degraded_never_expands:
  assumes "\<not> trusted_fresh_direct d" and "resolve_official_context_budget d fc fp fa = Some b"
  shows "\<exists>f p. positive_int fc = Some f \<and> context_percent fp = Some p
    \<and> cb_context_window b \<le> f \<and> cb_effective_percent b \<le> p
    \<and> cb_effective_window b \<le> max 1 (f * p div 100)
    \<and> (case positive_int fa of None \<Rightarrow> True | Some a \<Rightarrow> cb_auto_compact_limit b \<le> a)
    \<and> cb_source b = DEGRADED_LAST_KNOWN_OFFICIAL_SOURCE \<and> cb_freshness b \<noteq> ''fresh''"
proof -
  from degraded_budget [OF assms] obtain f p where f: "positive_int fc = Some f" and p: "context_percent fp = Some p"
    and b: "b = make_budget (tightened (tightened f (positive_int (ds_context d))) (positive_int (ds_max d)))
           (tightened p (context_percent (ds_percent d)))
           (min_option (positive_int fa) (positive_int (ds_auto_compact d)))
           DEGRADED_LAST_KNOWN_OFFICIAL_SOURCE (degraded_freshness d)" .
  let ?w = "tightened (tightened f (positive_int (ds_context d))) (positive_int (ds_max d))"
  let ?p = "tightened p (context_percent (ds_percent d))"
  have w: "?w \<le> f" by (rule order_trans [OF tightened_le tightened_le])
  have ok: "budget_ok b" by (rule degraded_ok [OF assms])
  then have pos: "0 < ?w" "0 < ?p" by (simp_all add: budget_ok_def b make_budget_def Let_def)
  have "cb_effective_window b \<le> max 1 (f * p div 100)"
    unfolding b by (rule make_budget_mono [OF pos(1) w pos(2) tightened_le])
  moreover have "case positive_int fa of None \<Rightarrow> True | Some a \<Rightarrow> cb_auto_compact_limit b \<le> a"
  proof (cases "positive_int fa")
    case (Some a)
    have "tightened a (positive_int (ds_auto_compact d)) \<le> a" by (rule tightened_le)
    with Some show ?thesis unfolding b
      by (simp add: min_option_Some flip: tightened_def) (rule order_trans [OF make_budget_requested])
  qed simp
  ultimately show ?thesis
    using f p w tightened_le [of p] known_freshness_not_fresh
    by (simp add: b make_budget_def Let_def)
qed

lemma fails_closed:
  "resolve_official_context_budget d fc fp fa = None \<longleftrightarrow>
     \<not> trusted_fresh_direct d \<and> (positive_int fc = None \<or> context_percent fp = None)"
  by (auto simp: resolve_official_context_budget_def Let_def split: option.splits)

lemma compact_limit_below_native:
  assumes "catalog_auto_compact_token_limit w m = Some l"
  shows "0 \<le> l \<and> l \<le> w * 90 div 100 \<and> (4 \<le> w \<longrightarrow> 1 \<le> l \<and> l < w * 90 div 100)"
proof -
  from assms have "0 < w" "l = min (max 1 (w * 70 div 100)) (w * 90 div 100)"
    by (auto simp: catalog_auto_compact_token_limit_def Let_def NATIVE_AUTO_COMPACT_PERCENT_def
        XAI_AUTO_COMPACT_PERCENT_def split: if_splits)
  moreover have "0 \<le> w * 90 div 100" using \<open>0 < w\<close> by linarith
  moreover have "4 \<le> w \<Longrightarrow> max 1 (w * 70 div 100) < w * 90 div 100"
  proof (cases "w = 4")
    case False
    assume "4 \<le> w"
    with False have "5 \<le> w" by simp
    then show ?thesis by linarith
  qed simp
  moreover have "1 \<le> max 1 (w * 70 div 100)" by simp
  ultimately show ?thesis by (auto simp: min_def)
qed

section \<open>Applying limits\<close>

lemma dict_pop_absent: "dict_get d k = None \<Longrightarrow> dict_pop d k = d"
  by (induction d) (auto simp: dict_pop_def AList.delete_eq split: if_splits)

lemma set_or_pop_get: "dict_get (set_or_pop k v d) k' = (if k' = k then (if v = JNull then None else Some v) else dict_get d k')"
  by (simp add: set_or_pop_def dict_simps)

lemma set_or_pop_same: "dict_get d k = (if v = JNull then None else Some v) \<Longrightarrow> set_or_pop k v d = d"
  by (simp add: set_or_pop_def dict_set_same dict_pop_absent)

lemma set_default_get: "dict_get (set_default k v d) k' = (if k' = k \<and> dict_get d k = None then Some v else dict_get d k')"
  by (simp add: set_default_def dict_has_def dict_simps)

definition limit_fields :: "string list" where
  "limit_fields = [''context_window'', ''max_context_window'', ''max_output_tokens'', ''effective_source'',
     ''max_source'', ''confidence'', ''verified_at'', ''probe_cli_version'']"

lemma limits_get:
  "dict_get (apply_resolved_model_limits z (Some l) m) k =
     (if k = ''context_window'' then (if rl_effective_context_window l = JNull then None else Some (rl_effective_context_window l))
      else if k = ''max_context_window'' then (if rl_max_context_window l = JNull then None else Some (rl_max_context_window l))
      else if k = ''max_output_tokens'' then
        (if dict_get m k = None \<and> rl_max_output_tokens l \<noteq> JNull then Some (rl_max_output_tokens l) else dict_get m k)
      else if k = ''effective_source'' then Some (rl_effective_source l)
      else if k = ''max_source'' then Some (rl_max_source l)
      else if k = ''confidence'' then Some (rl_confidence l)
      else if k = ''verified_at'' then Some (rl_verified_at l)
      else if k = ''probe_cli_version'' \<and> truthy z (rl_probe_cli_version l) then Some (rl_probe_cli_version l)
      else dict_get m k)"
  by (simp add: apply_resolved_model_limits_def Let_def dict_simps set_or_pop_get set_default_get)

lemma limits_fixed:
  assumes "dict_get m ''context_window'' = (if rl_effective_context_window l = JNull then None else Some (rl_effective_context_window l))"
    and "dict_get m ''max_context_window'' = (if rl_max_context_window l = JNull then None else Some (rl_max_context_window l))"
    and "rl_max_output_tokens l \<noteq> JNull \<Longrightarrow> dict_get m ''max_output_tokens'' \<noteq> None"
    and "dict_get m ''effective_source'' = Some (rl_effective_source l)"
    and "dict_get m ''max_source'' = Some (rl_max_source l)"
    and "dict_get m ''confidence'' = Some (rl_confidence l)"
    and "dict_get m ''verified_at'' = Some (rl_verified_at l)"
    and "truthy z (rl_probe_cli_version l) \<Longrightarrow> dict_get m ''probe_cli_version'' = Some (rl_probe_cli_version l)"
  shows "apply_resolved_model_limits z (Some l) m = m"
  using assms(3-8)
  by (simp add: apply_resolved_model_limits_def Let_def set_or_pop_same [OF assms(1)]
      set_or_pop_same [OF assms(2)] set_default_def dict_has_def dict_set_same)

text \<open>Applying the resolved limits twice is the same as applying them once, and a field of the row
  that no limit names keeps its value.\<close>
theorem limits_idempotent:
  "apply_resolved_model_limits z (Some l) (apply_resolved_model_limits z (Some l) m)
     = apply_resolved_model_limits z (Some l) m
   \<and> (List.member limit_fields k
      \<or> dict_get (apply_resolved_model_limits z (Some l) m) k = dict_get m k)"
  by (intro conjI limits_fixed) (auto simp: limits_get limit_fields_def)

section \<open>Witnesses\<close>

definition demo_direct :: direct_snapshot where
  "demo_direct = \<lparr>ds_context = JInt 400000, ds_max = JInt 300000, ds_percent = JInt 95,
     ds_auto_compact = JNull, ds_freshness = ''fresh'', ds_source = ''current_direct_official''\<rparr>"

lemma demo_budget:
  "\<not> trusted_fresh_direct demo_direct"
  "resolve_official_context_budget demo_direct (JInt 272000) (JInt 90) JNull
     = Some \<lparr>cb_context_window = 272000, cb_max_context_window = 272000, cb_effective_percent = 90,
         cb_effective_window = 244800, cb_model_context_window = 272000, cb_auto_compact_limit = 244800,
         cb_source = DEGRADED_LAST_KNOWN_OFFICIAL_SOURCE, cb_freshness = ''contradictory''\<rparr>"
  by (code_simp, code_simp)

theorem budget_well_formed_witness:
  "budget_ok \<lparr>cb_context_window = 272000, cb_max_context_window = 272000, cb_effective_percent = 90,
     cb_effective_window = 244800, cb_model_context_window = 272000, cb_auto_compact_limit = 244800,
     cb_source = DEGRADED_LAST_KNOWN_OFFICIAL_SOURCE, cb_freshness = ''contradictory''\<rparr>"
  by (rule budget_well_formed [OF demo_budget(2)])

theorem degraded_never_expands_witness:
  "\<exists>f p. positive_int (JInt 272000) = Some f \<and> context_percent (JInt 90) = Some p
     \<and> 272000 \<le> f \<and> 244800 \<le> max 1 (f * p div 100)"
  using degraded_never_expands [OF demo_budget] by auto

end
