(* ===== verification/Event_Size.thy ===== *)
theory Event_Size
  imports Py_Json
begin

text \<open>
  Serialization of \<open>src-python/bounded_event_writer.py\<close>: the JSONL line of an event record and
  the admission pass that measures it first.

  A text is the list of its code points (surrogates included), since the measuring pass looks at
  code points.  A float is \<open>nan\<close>, an infinity or finite with its \<open>repr\<close>.  Values are trees, so
  the tests for cyclic containers have nothing to find.
\<close>

section \<open>Event values\<close>

type_synonym pystr = "nat list"

datatype pyfloat = Not_A_Number | Positive_Inf | Negative_Inf | Finite_Repr string

datatype event_key = KStr pystr | KNone | KBool bool | KInt int | KFloat pyfloat | KOther

datatype event_value =
    ENone
  | EBool bool
  | EStr pystr
  | EInt int
  | EFloat pyfloat
  | EMap "(event_key \<times> event_value) list"
  | ESeq "event_value list"
  | EOther

text \<open>\<open>_RecordTooLarge\<close>, the \<open>TypeError\<close> for a value JSON does not have, and the \<open>ValueError\<close> of
  \<open>str\<close> for an integer of more than 4300 digits.\<close>

datatype size_error = Record_Too_Large | Not_Json_Value | Digits_Limit

definition MAX_STR_DIGITS :: nat where "MAX_STR_DIGITS = 4300"

definition render_int :: "int \<Rightarrow> size_error + string" where
  "render_int i =
     (if length (nat_text (nat \<bar>i\<bar>)) > MAX_STR_DIGITS then Inl Digits_Limit else Inr (int_text i))"

section \<open>What \<open>json.dumps\<close> writes\<close>

definition render_text :: "pystr \<Rightarrow> string" where
  "render_text s = [QUOTE] @ concat (map escape_code s) @ [QUOTE]"

definition render_float :: "pyfloat \<Rightarrow> string" where
  "render_float f =
     (case f of Not_A_Number \<Rightarrow> ''NaN'' | Positive_Inf \<Rightarrow> ''Infinity'' | Negative_Inf \<Rightarrow> ''-Infinity''
      | Finite_Repr r \<Rightarrow> r)"

definition quoted :: "string \<Rightarrow> string" where "quoted t = [QUOTE] @ t @ [QUOTE]"

definition render_key :: "event_key \<Rightarrow> size_error + string" where
  "render_key k =
     (case k of
        KStr s \<Rightarrow> Inr (render_text s)
      | KNone \<Rightarrow> Inr (quoted ''null'')
      | KBool b \<Rightarrow> Inr (quoted (if b then ''true'' else ''false''))
      | KInt i \<Rightarrow> rbind (render_int i) (\<lambda>t. Inr (quoted t))
      | KFloat f \<Rightarrow> Inr (quoted (render_float f))
      | KOther \<Rightarrow> Inl Not_Json_Value)"

fun render_value :: "event_value \<Rightarrow> size_error + string"
  and render_fields :: "bool \<Rightarrow> (event_key \<times> event_value) list \<Rightarrow> size_error + string"
  and render_items :: "bool \<Rightarrow> event_value list \<Rightarrow> size_error + string" where
  "render_value ENone = Inr ''null''"
| "render_value (EBool b) = Inr (if b then ''true'' else ''false'')"
| "render_value (EStr s) = Inr (render_text s)"
| "render_value (EInt i) = render_int i"
| "render_value (EFloat f) = Inr (render_float f)"
| "render_value (EMap kvs) = rbind (render_fields True kvs) (\<lambda>t. Inr (''{'' @ t @ ''}''))"
| "render_value (ESeq vs) = rbind (render_items True vs) (\<lambda>t. Inr (''['' @ t @ '']''))"
| "render_value EOther = Inl Not_Json_Value"
| "render_fields first [] = Inr []"
| "render_fields first ((k, v) # kvs) =
     rbind (render_key k) (\<lambda>kt. rbind (render_value v) (\<lambda>vt. rbind (render_fields False kvs) (\<lambda>r.
       Inr ((if first then [] else '','') @ kt @ '':'' @ vt @ r))))"
| "render_items first [] = Inr []"
| "render_items first (v # vs) =
     rbind (render_value v) (\<lambda>vt. rbind (render_items False vs) (\<lambda>r.
       Inr ((if first then [] else '','') @ vt @ r)))"

section \<open>The admission pass\<close>

text \<open>\<open>_JsonSizeBudget\<close>: the bytes that remain.\<close>

definition budget_consume :: "nat \<Rightarrow> nat \<Rightarrow> size_error + nat" where
  "budget_consume byte_count remaining =
     (if byte_count > remaining then Inl Record_Too_Large else Inr (remaining - byte_count))"

definition char_cost :: "nat \<Rightarrow> nat" where
  "char_cost n =
     (if n = 0x22 \<or> n = 0x5C then 2
      else if n = 0x08 \<or> n = 0x09 \<or> n = 0x0A \<or> n = 0x0C \<or> n = 0x0D then 2
      else if n < 0x20 then 6 else if n \<le> 0x7F then 1 else if n \<le> 0xFFFF then 6 else 12)"

fun consume_chars :: "pystr \<Rightarrow> nat \<Rightarrow> size_error + nat" where
  "consume_chars [] r = Inr r"
| "consume_chars (c # cs) r = rbind (budget_consume (char_cost c) r) (consume_chars cs)"

definition measure_json_string :: "pystr \<Rightarrow> nat \<Rightarrow> size_error + nat" where
  "measure_json_string s r = rbind (budget_consume 2 r) (consume_chars s)"

fun bit_length :: "nat \<Rightarrow> nat" where
  "bit_length n = (if n = 0 then 0 else Suc (bit_length (n div 2)))"

declare bit_length.simps [simp del]

definition digit_upper_bound :: "int \<Rightarrow> nat" where
  "digit_upper_bound i = (if i = 0 then 1 else bit_length (nat \<bar>i\<bar>) * 30103 div 100000 + 2)"

definition measure_json_integer :: "bool \<Rightarrow> int \<Rightarrow> nat \<Rightarrow> size_error + nat" where
  "measure_json_integer quote i r =
     (if (if i < 0 then 1 else 0) + digit_upper_bound i > r + 2 then Inl Record_Too_Large
      else rbind (render_int i) (\<lambda>t. budget_consume (length t + (if quote then 2 else 0)) r))"

definition measure_json_float :: "bool \<Rightarrow> pyfloat \<Rightarrow> nat \<Rightarrow> size_error + nat" where
  "measure_json_float quote f r =
     budget_consume
       ((case f of Not_A_Number \<Rightarrow> 3 | Negative_Inf \<Rightarrow> 9 | Positive_Inf \<Rightarrow> 8 | Finite_Repr t \<Rightarrow> length t)
        + (if quote then 2 else 0)) r"

definition measure_json_key :: "event_key \<Rightarrow> nat \<Rightarrow> size_error + nat" where
  "measure_json_key k r =
     (case k of
        KStr s \<Rightarrow> measure_json_string s r
      | KNone \<Rightarrow> budget_consume 6 r
      | KBool b \<Rightarrow> budget_consume (if b then 6 else 7) r
      | KInt i \<Rightarrow> measure_json_integer True i r
      | KFloat f \<Rightarrow> measure_json_float True f r
      | KOther \<Rightarrow> Inl Not_Json_Value)"

fun measure_json_value :: "event_value \<Rightarrow> nat \<Rightarrow> size_error + nat"
  and measure_json_fields :: "bool \<Rightarrow> (event_key \<times> event_value) list \<Rightarrow> nat \<Rightarrow> size_error + nat"
  and measure_json_items :: "bool \<Rightarrow> event_value list \<Rightarrow> nat \<Rightarrow> size_error + nat" where
  "measure_json_value ENone r = budget_consume 4 r"
| "measure_json_value (EBool b) r = budget_consume (if b then 4 else 5) r"
| "measure_json_value (EStr s) r = measure_json_string s r"
| "measure_json_value (EInt i) r = measure_json_integer False i r"
| "measure_json_value (EFloat f) r = measure_json_float False f r"
| "measure_json_value (EMap kvs) r =
     rbind (budget_consume 1 r) (\<lambda>r. rbind (measure_json_fields True kvs r) (budget_consume 1))"
| "measure_json_value (ESeq vs) r =
     rbind (budget_consume 1 r) (\<lambda>r. rbind (measure_json_items True vs r) (budget_consume 1))"
| "measure_json_value EOther r = Inl Not_Json_Value"
| "measure_json_fields first [] r = Inr r"
| "measure_json_fields first ((k, v) # kvs) r =
     rbind (if first then Inr r else budget_consume 1 r) (\<lambda>r. rbind (measure_json_key k r) (\<lambda>r.
       rbind (budget_consume 1 r) (\<lambda>r. rbind (measure_json_value v r) (measure_json_fields False kvs))))"
| "measure_json_items first [] r = Inr r"
| "measure_json_items first (v # vs) r =
     rbind (if first then Inr r else budget_consume 1 r) (\<lambda>r.
       rbind (measure_json_value v r) (measure_json_items False vs))"

definition admit_record_size :: "(event_key \<times> event_value) list \<Rightarrow> nat \<Rightarrow> size_error + unit" where
  "admit_record_size record max_bytes =
     (if max_bytes < 3 then Inl Record_Too_Large
      else rbind (measure_json_value (EMap record) (max_bytes - 1)) (\<lambda>_. Inr ()))"

definition serialize_record ::
  "nat option \<Rightarrow> (event_key \<times> event_value) list \<Rightarrow> size_error + bytes" where
  "serialize_record max_bytes record =
     rbind (case max_bytes of None \<Rightarrow> Inr () | Some m \<Rightarrow> admit_record_size record m) (\<lambda>_.
       rbind (render_value (EMap record)) (\<lambda>text.
         let data = text @ [LF]
         in if (case max_bytes of None \<Rightarrow> False | Some m \<Rightarrow> length data > m)
            then Inl Record_Too_Large else Inr data))"


end
