(* ===== verification/Event_Writer.thy ===== *)
theory Event_Writer
  imports Event_Size "HOL-Library.List_Lexorder" "HOL-Library.Char_ord" Complex_Main
begin

text \<open>
  \<open>src-python/bounded_event_writer.py\<close>: the bounded queue, its background listener, failure and
  recovery accounting, rotation fences and shutdown.

  Every section under the condition's lock is one atomic operation; the listener thread is a
  program counter that one step moves.  The clock, the exceptions of the sink and of the recovery
  factory and the rotation operation are inputs of the steps.  \<open>QueueListener._sentinel\<close> is
  \<open>None\<close>, so a sentinel kept as \<open>pending\<close> is the same as no pending record.

  The fields \<open>gh_\<dots>\<close> are not in the program: they count what the properties speak of (records
  offered, refused after shutdown, failed recovery attempts), hold the accepted lines, the lines
  the sink took, the reported summaries and the calls that are under way.
\<close>

section \<open>Recovery summaries\<close>

record recovery =
  rc_overflow_records :: nat
  rc_overflow_bytes :: nat
  rc_failed_records :: nat
  rc_failure_count :: nat
  rc_categories :: "(string, nat) dict"

definition no_recovery :: recovery where
  "no_recovery = \<lparr>rc_overflow_records = 0, rc_overflow_bytes = 0, rc_failed_records = 0,
     rc_failure_count = 0, rc_categories = []\<rparr>"

definition has_data :: "recovery \<Rightarrow> bool" where
  "has_data p \<longleftrightarrow> rc_overflow_records p \<noteq> 0 \<or> rc_overflow_bytes p \<noteq> 0 \<or> rc_failed_records p \<noteq> 0
     \<or> rc_failure_count p \<noteq> 0"

definition recovery_snapshot :: "recovery \<Rightarrow> recovery" where
  "recovery_snapshot p = p\<lparr>rc_categories := sort_key fst (rc_categories p)\<rparr>"

definition count_of :: "(string, nat) dict \<Rightarrow> string \<Rightarrow> nat" where
  "count_of d k = (case dict_get d k of None \<Rightarrow> 0 | Some n \<Rightarrow> n)"

fun subtract_categories :: "(string \<times> nat) list \<Rightarrow> (string, nat) dict \<Rightarrow> (string, nat) dict" where
  "subtract_categories [] d = d"
| "subtract_categories ((k, n) # r) d =
     subtract_categories r (if count_of d k > n then dict_set d k (count_of d k - n) else dict_pop d k)"

definition subtract_recovery :: "recovery \<Rightarrow> recovery \<Rightarrow> recovery" where
  "subtract_recovery s p =
     \<lparr>rc_overflow_records = rc_overflow_records p - rc_overflow_records s,
      rc_overflow_bytes = rc_overflow_bytes p - rc_overflow_bytes s,
      rc_failed_records = rc_failed_records p - rc_failed_records s,
      rc_failure_count = rc_failure_count p - rc_failure_count s,
      rc_categories = subtract_categories (rc_categories s) (rc_categories p)\<rparr>"

definition add_failure :: "string \<Rightarrow> nat \<Rightarrow> recovery \<Rightarrow> recovery" where
  "add_failure category record_count p =
     p\<lparr>rc_failed_records := rc_failed_records p + record_count,
       rc_failure_count := rc_failure_count p + 1,
       rc_categories :=
         (if dict_has (rc_categories p) category \<or> length (rc_categories p) < 8
          then dict_set (rc_categories p) category (count_of (rc_categories p) category + 1)
          else rc_categories p)\<rparr>"

section \<open>State\<close>

record queued =
  qr_sequence :: nat
  qr_data :: bytes

abbreviation queued_bytes :: "queued \<Rightarrow> nat" where "queued_bytes q \<equiv> length (qr_data q)"

datatype queue_item = Queued queued | Sentinel

datatype listener =
    L_Fetch "queued option"
  | L_Fence queued
  | L_Gather "queued list" nat
  | L_Candidate "queued list" nat queued
  | L_Write "queued list" "queued option"
  | L_Recover recovery "queued option"
  | L_Stopped
  | L_Not_Started

datatype shutdown_state = Running | Stopping | Halted

datatype rotation_phase = No_Rotation | Fencing nat | Operating nat

datatype sink_line = Event_Line bytes | Recovery_Line bytes

record writer_config =
  wc_max_records :: nat
  wc_max_bytes :: nat
  wc_batch_max_records :: nat
  wc_batch_max_bytes :: nat

text \<open>The checks of the constructor; each is a \<open>ValueError\<close>.\<close>

definition check_config :: "writer_config \<Rightarrow> string + unit" where
  "check_config c =
     rbind (require (1 \<le> wc_max_records c) ''max_records must be positive'') (\<lambda>_.
     rbind (require (1 \<le> wc_max_bytes c) ''max_bytes must be positive'') (\<lambda>_.
     rbind (require (1 \<le> wc_batch_max_records c) ''batch_max_records must be positive'') (\<lambda>_.
       require (1 \<le> wc_batch_max_bytes c) ''batch_max_bytes must be positive'')))"

record writer =
  w_pending_records :: nat
  w_pending_bytes :: nat
  w_next_sequence :: nat
  w_completed_sequence :: nat
  w_accepted :: nat
  w_written :: nat
  w_dropped :: nat
  w_dropped_bytes :: nat
  w_failure_count :: nat
  w_last_category :: "string option"
  w_last_time :: "rat option"
  w_recovery_events :: nat
  w_recovery :: recovery
  w_recovery_inflight :: bool
  w_unresolved :: bool
  w_state :: shutdown_state
  w_generation :: nat
  w_rotation :: "nat option"
  w_queue :: "queue_item list"
  w_listener :: listener
  w_rotating :: rotation_phase
  w_stopping :: "nat list"
  gh_calls :: "(event_key \<times> event_value) list list"
  gh_offered :: nat
  gh_refused :: nat
  gh_history :: "bytes list"
  gh_log :: "sink_line list"
  gh_reported :: "recovery list"
  gh_emit_failed :: nat

section \<open>Failure accounting\<close>

definition record_failure :: "rat \<Rightarrow> string \<Rightarrow> nat \<Rightarrow> nat \<Rightarrow> bool \<Rightarrow> writer \<Rightarrow> writer" where
  "record_failure now category record_count byte_count include_recovery w =
     w\<lparr>w_dropped := w_dropped w + record_count,
       w_dropped_bytes := w_dropped_bytes w + byte_count,
       w_failure_count := w_failure_count w + 1,
       w_last_category := Some category,
       w_last_time := Some now,
       w_unresolved := True,
       w_recovery := (if include_recovery then add_failure category record_count (w_recovery w)
                      else w_recovery w)\<rparr>"

definition record_overflow :: "nat \<Rightarrow> writer \<Rightarrow> writer" where
  "record_overflow byte_count w =
     w\<lparr>w_dropped := w_dropped w + 1,
       w_dropped_bytes := w_dropped_bytes w + byte_count,
       w_recovery := (w_recovery w)
         \<lparr>rc_overflow_records := rc_overflow_records (w_recovery w) + 1,
          rc_overflow_bytes := rc_overflow_bytes (w_recovery w) + byte_count\<rparr>\<rparr>"

definition refuse :: "nat \<Rightarrow> writer \<Rightarrow> writer" where
  "refuse byte_count w =
     w\<lparr>w_dropped := w_dropped w + 1, w_dropped_bytes := w_dropped_bytes w + byte_count,
       gh_refused := gh_refused w + 1\<rparr>"

definition fresh_writer :: "listener \<Rightarrow> nat \<Rightarrow> writer" where
  "fresh_writer l generation =
     \<lparr>w_pending_records = 0, w_pending_bytes = 0, w_next_sequence = 1, w_completed_sequence = 0,
      w_accepted = 0, w_written = 0, w_dropped = 0, w_dropped_bytes = 0, w_failure_count = 0,
      w_last_category = None, w_last_time = None, w_recovery_events = 0, w_recovery = no_recovery,
      w_recovery_inflight = False, w_unresolved = False, w_state = Running,
      w_generation = generation, w_rotation = None, w_queue = [], w_listener = l,
      w_rotating = No_Rotation, w_stopping = [],
      gh_calls = [], gh_offered = 0, gh_refused = 0, gh_history = [], gh_log = [],
      gh_reported = [], gh_emit_failed = 0\<rparr>"

text \<open>The constructor; \<open>None\<close> is a listener thread that started.\<close>

definition new_writer :: "rat option \<Rightarrow> writer" where
  "new_writer start_failed =
     (case start_failed of
        None \<Rightarrow> fresh_writer (L_Fetch None) 1
      | Some now \<Rightarrow> record_failure now ''writer_start_failed'' 0 0 True (fresh_writer L_Not_Started 0))"

section \<open>Enqueueing\<close>

text \<open>The first locked section of \<open>enqueue\<close>: \<open>False\<close> when the record is dropped at once.\<close>

definition enqueue_admit :: "writer_config \<Rightarrow> writer \<Rightarrow> bool \<times> writer" where
  "enqueue_admit c w =
     (if w_state w \<noteq> Running then (False, refuse 0 w)
      else if w_pending_records w \<ge> wc_max_records c then (False, record_overflow 0 w)
      else (True, w))"

text \<open>The sections of the two exception handlers around the serialization.\<close>

definition enqueue_rejected :: "rat \<Rightarrow> size_error \<Rightarrow> writer \<Rightarrow> writer" where
  "enqueue_rejected now e w =
     (if e = Record_Too_Large then (if w_state w = Running then record_overflow 0 w else refuse 0 w)
      else record_failure now ''serialization_rejected'' 1 0 True w)"

definition enqueue_commit :: "writer_config \<Rightarrow> bytes \<Rightarrow> writer \<Rightarrow> bool \<times> writer" where
  "enqueue_commit c data w =
     (if w_state w \<noteq> Running then (False, refuse (length data) w)
      else if w_pending_records w \<ge> wc_max_records c
              \<or> w_pending_bytes w + length data > wc_max_bytes c
      then (False, record_overflow (length data) w)
      else (True,
        w\<lparr>w_queue := w_queue w @ [Queued \<lparr>qr_sequence = w_next_sequence w, qr_data = data\<rparr>],
          w_next_sequence := w_next_sequence w + 1,
          w_pending_records := w_pending_records w + 1,
          w_pending_bytes := w_pending_bytes w + length data,
          w_accepted := w_accepted w + 1,
          gh_history := gh_history w @ [data]\<rparr>))"

definition enqueue_serialized :: "writer_config \<Rightarrow> rat \<Rightarrow> (event_key \<times> event_value) list \<Rightarrow> writer \<Rightarrow> bool \<times> writer" where
  "enqueue_serialized c now record w =
     (case serialize_record (Some (wc_max_bytes c)) record of
        Inl e \<Rightarrow> (False, enqueue_rejected now e w)
      | Inr data \<Rightarrow> enqueue_commit c data w)"

text \<open>The whole call, when no other thread comes between.\<close>

definition enqueue :: "writer_config \<Rightarrow> rat \<Rightarrow> (event_key \<times> event_value) list \<Rightarrow> writer \<Rightarrow> bool \<times> writer" where
  "enqueue c now record w =
     (case enqueue_admit c w of
        (False, w1) \<Rightarrow> (False, w1)
      | (True, w1) \<Rightarrow> enqueue_serialized c now record w1)"

text \<open>The same call as two steps, between which other threads may run.\<close>

definition begin_call :: "writer_config \<Rightarrow> (event_key \<times> event_value) list \<Rightarrow> writer \<Rightarrow> writer" where
  "begin_call c record w =
     (let w0 = w\<lparr>gh_offered := gh_offered w + 1\<rparr>
      in case enqueue_admit c w0 of
           (False, w1) \<Rightarrow> w1
         | (True, w1) \<Rightarrow> w1\<lparr>gh_calls := gh_calls w1 @ [record]\<rparr>)"

definition end_call :: "writer_config \<Rightarrow> rat \<Rightarrow> nat \<Rightarrow> writer \<Rightarrow> writer" where
  "end_call c now i w =
     (if i < length (gh_calls w) then
        snd (enqueue_serialized c now (gh_calls w ! i)
               (w\<lparr>gh_calls := take i (gh_calls w) @ drop (Suc i) (gh_calls w)\<rparr>))
      else w)"

section \<open>The listener thread\<close>

definition rotation_blocks :: "nat \<Rightarrow> writer \<Rightarrow> bool" where
  "rotation_blocks sequence w = (case w_rotation w of None \<Rightarrow> False | Some t \<Rightarrow> sequence > t)"

definition complete_batch :: "queued list \<Rightarrow> writer \<Rightarrow> writer" where
  "complete_batch batch w =
     (if batch = [] then w
      else w\<lparr>w_pending_records := w_pending_records w - length batch,
             w_pending_bytes := w_pending_bytes w - sum_list (map queued_bytes batch),
             w_completed_sequence := max (w_completed_sequence w) (qr_sequence (last batch))\<rparr>)"

datatype errno = ENOSPC | EDQUOT | Other_Errno

datatype sink_error = Permission_Error | Os_Error errno | Other_Exception | Base_Exception

definition failure_category :: "sink_error \<Rightarrow> string" where
  "failure_category e =
     (case e of
        Permission_Error \<Rightarrow> ''permission_denied''
      | Os_Error n \<Rightarrow> (if n = ENOSPC \<or> n = EDQUOT then ''disk_full'' else ''sink_error'')
      | Other_Exception \<Rightarrow> ''sink_error''
      | Base_Exception \<Rightarrow> ''writer_crash'')"

text \<open>\<open>write_batch\<close>: \<open>None\<close> is a sink that took the batch.\<close>

definition write_batch :: "rat \<Rightarrow> sink_error option \<Rightarrow> queued list \<Rightarrow> queued option \<Rightarrow> writer \<Rightarrow> writer" where
  "write_batch now outcome inflight pending w =
     (case outcome of
        Some e \<Rightarrow>
          (record_failure now (failure_category e) (length inflight) (sum_list (map queued_bytes inflight)) True
             (complete_batch inflight w))\<lparr>w_listener := L_Fetch pending\<rparr>
      | None \<Rightarrow>
          (let w1 = complete_batch inflight w;
               w2 = w1\<lparr>w_written := w_written w1 + length inflight,
                       gh_log := gh_log w1 @ map (Event_Line \<circ> qr_data) inflight\<rparr>
           in if has_data (w_recovery w2)
              then w2\<lparr>w_recovery_inflight := True,
                      w_listener := L_Recover (recovery_snapshot (w_recovery w2)) pending\<rparr>
              else w2\<lparr>w_recovery_inflight := False, w_listener := L_Fetch pending\<rparr>))"

text \<open>
  \<open>emit_recovery\<close>: the factory may raise (\<open>None\<close>), its record may not be serializable, and the
  sink may raise.
\<close>

definition emit_recovery ::
  "rat \<Rightarrow> (recovery \<Rightarrow> (event_key \<times> event_value) list option) \<Rightarrow> sink_error option \<Rightarrow>
   recovery \<Rightarrow> queued option \<Rightarrow> writer \<Rightarrow> writer" where
  "emit_recovery now factory outcome summary pending w =
     (let line = (case factory summary of
                    None \<Rightarrow> None
                  | Some record \<Rightarrow>
                      (case serialize_record None record of Inl _ \<Rightarrow> None | Inr data \<Rightarrow> Some data))
      in case (line, outcome) of
           (Some data, None) \<Rightarrow>
             (let p = subtract_recovery summary (w_recovery w)
              in w\<lparr>w_recovery := p, w_recovery_events := w_recovery_events w + 1,
                   w_unresolved := (if has_data p then w_unresolved w else False),
                   w_recovery_inflight := False, w_listener := L_Fetch pending,
                   gh_log := gh_log w @ [Recovery_Line data], gh_reported := gh_reported w @ [summary]\<rparr>)
         | _ \<Rightarrow>
             (record_failure now ''recovery_emit_failed'' 0 0 False w)
               \<lparr>w_recovery_inflight := False, w_listener := L_Fetch pending,
                gh_emit_failed := gh_emit_failed w + 1\<rparr>)"

definition default_recovery_record :: "recovery \<Rightarrow> (event_key \<times> event_value) list option" where
  "default_recovery_record s =
     (let key = (\<lambda>k. KStr (map of_char k)); number = (\<lambda>n. EInt (int n)) in
      Some [(key ''event'', EStr (map of_char ''telemetry_writer_recovered'')),
            (key ''overflow_records'', number (rc_overflow_records s)),
            (key ''overflow_bytes'', number (rc_overflow_bytes s)),
            (key ''failed_records'', number (rc_failed_records s)),
            (key ''failure_count'', number (rc_failure_count s)),
            (key ''failure_categories'', ESeq (map (\<lambda>(k, n). EStr (map of_char k)) (rc_categories s)))])"

record step_env =
  se_now :: rat
  se_sink :: "sink_error option"
  se_factory :: "recovery \<Rightarrow> (event_key \<times> event_value) list option"

text \<open>One step of \<open>_monitor\<close>.\<close>

definition listener_step :: "writer_config \<Rightarrow> step_env \<Rightarrow> writer \<Rightarrow> writer" where
  "listener_step c e w =
     (case w_listener w of
        L_Fetch (Some q) \<Rightarrow> w\<lparr>w_listener := L_Fence q\<rparr>
      | L_Fetch None \<Rightarrow>
          (case w_queue w of
             [] \<Rightarrow> w
           | Sentinel # r \<Rightarrow> w\<lparr>w_queue := r, w_listener := L_Stopped\<rparr>
           | Queued q # r \<Rightarrow> w\<lparr>w_queue := r, w_listener := L_Fence q\<rparr>)
      | L_Fence q \<Rightarrow>
          (if rotation_blocks (qr_sequence q) w then w
           else w\<lparr>w_listener := L_Gather [q] (queued_bytes q)\<rparr>)
      | L_Gather batch n \<Rightarrow>
          (if length batch < wc_batch_max_records c then
             (case w_queue w of
                [] \<Rightarrow> w\<lparr>w_listener := L_Write batch None\<rparr>
              | Sentinel # r \<Rightarrow> w\<lparr>w_queue := r, w_listener := L_Write batch None\<rparr>
              | Queued q # r \<Rightarrow> w\<lparr>w_queue := r, w_listener := L_Candidate batch n q\<rparr>)
           else w\<lparr>w_listener := L_Write batch None\<rparr>)
      | L_Candidate batch n q \<Rightarrow>
          (if rotation_blocks (qr_sequence q) w \<or> n + queued_bytes q > wc_batch_max_bytes c
           then w\<lparr>w_listener := L_Write batch (Some q)\<rparr>
           else w\<lparr>w_listener := L_Gather (batch @ [q]) (n + queued_bytes q)\<rparr>)
      | L_Write batch pending \<Rightarrow> write_batch (se_now e) (se_sink e) batch pending w
      | L_Recover s pending \<Rightarrow> emit_recovery (se_now e) (se_factory e) (se_sink e) s pending w
      | _ \<Rightarrow> w)"

section \<open>Waiting, rotation and shutdown\<close>

datatype wait_outcome = Drained | Timed_Out | Failed

definition result_outcome :: "writer \<Rightarrow> wait_outcome" where
  "result_outcome w = (if w_unresolved w then Failed else Drained)"

definition wait_done :: "nat \<Rightarrow> writer \<Rightarrow> bool" where
  "wait_done target w \<longleftrightarrow> \<not> (w_completed_sequence w < target \<or> w_recovery_inflight w)"

text \<open>One look of \<open>_wait_for\<close> at the state: \<open>None\<close> is to go on waiting.\<close>

definition wait_for :: "nat \<Rightarrow> bool \<Rightarrow> writer \<Rightarrow> wait_outcome option" where
  "wait_for target deadline_passed w =
     (if wait_done target w then Some (result_outcome w)
      else if deadline_passed then Some Timed_Out else None)"

definition flush_target :: "writer \<Rightarrow> nat" where "flush_target w = w_next_sequence w - 1"

definition rotate_begin :: "writer \<Rightarrow> nat option \<times> writer" where
  "rotate_begin w =
     (if w_state w \<noteq> Running \<or> w_rotation w \<noteq> None then (None, w)
      else (let target = w_next_sequence w - 1
            in (Some target, w\<lparr>w_rotation := Some target, w_rotating := Fencing target\<rparr>)))"

text \<open>\<open>rotate\<close> after its wait: the fence is lifted after a timeout, otherwise the operation runs.\<close>

definition rotate_wait :: "bool \<Rightarrow> writer \<Rightarrow> writer" where
  "rotate_wait deadline_passed w =
     (case w_rotating w of
        Fencing target \<Rightarrow>
          (case wait_for target deadline_passed w of
             None \<Rightarrow> w
           | Some Timed_Out \<Rightarrow> w\<lparr>w_rotation := None, w_rotating := No_Rotation\<rparr>
           | Some _ \<Rightarrow> w\<lparr>w_rotating := Operating target\<rparr>)
      | _ \<Rightarrow> w)"

definition rotate_end :: "rat option \<Rightarrow> writer \<Rightarrow> writer" where
  "rotate_end raised_at w =
     (case w_rotating w of
        Operating target \<Rightarrow>
          (let w1 = (case raised_at of None \<Rightarrow> w
                     | Some now \<Rightarrow> record_failure now ''rotation_failed'' 0 0 True w)
           in w1\<lparr>w_rotation := None, w_rotating := No_Rotation\<rparr>)
      | _ \<Rightarrow> w)"

text \<open>\<open>shutdown\<close>: its first section, the stop once its wait is over, and the last section after the
  listener thread was joined.  A call under way is its target.\<close>

definition shutdown_begin :: "writer \<Rightarrow> writer" where
  "shutdown_begin w =
     (let w1 = (if w_state w = Running then w\<lparr>w_state := Stopping\<rparr> else w)
      in w1\<lparr>w_stopping := w_stopping w1 @ [w_next_sequence w1 - 1]\<rparr>)"

definition shutdown_stop :: "nat \<Rightarrow> writer \<Rightarrow> writer" where
  "shutdown_stop target w =
     (if List.member (w_stopping w) target \<and> wait_done target w \<and> w_listener w \<noteq> L_Not_Started
      then w\<lparr>w_queue := w_queue w @ [Sentinel]\<rparr> else w)"

definition shutdown_end :: "nat \<Rightarrow> writer \<Rightarrow> writer" where
  "shutdown_end target w =
     (if List.member (w_stopping w) target
         \<and> (w_listener w = L_Stopped \<or> w_listener w = L_Not_Started) \<and> w_pending_records w = 0
      then w\<lparr>w_state := Halted\<rparr> else w)"

record writer_status =
  ws_queued_records :: nat
  ws_queued_bytes :: nat
  ws_accepted :: nat
  ws_written :: nat
  ws_dropped :: nat
  ws_dropped_bytes :: nat
  ws_failure_count :: nat
  ws_last_category :: "string option"
  ws_last_time :: "rat option"
  ws_recovery_events :: nat
  ws_recovery_pending :: bool
  ws_state :: shutdown_state
  ws_alive :: bool
  ws_generation :: nat

definition status :: "writer \<Rightarrow> writer_status" where
  "status w =
     \<lparr>ws_queued_records = w_pending_records w, ws_queued_bytes = w_pending_bytes w,
      ws_accepted = w_accepted w, ws_written = w_written w, ws_dropped = w_dropped w,
      ws_dropped_bytes = w_dropped_bytes w, ws_failure_count = w_failure_count w,
      ws_last_category = w_last_category w, ws_last_time = w_last_time w,
      ws_recovery_events = w_recovery_events w,
      ws_recovery_pending = (has_data (w_recovery w) \<or> w_recovery_inflight w),
      ws_state = w_state w,
      ws_alive = (w_listener w \<noteq> L_Stopped \<and> w_listener w \<noteq> L_Not_Started),
      ws_generation = w_generation w\<rparr>"

section \<open>One writer per sink\<close>

text \<open>The class-wide registries: sinks that can be weakly referenced are keyed by themselves, the
  others by their identity.  Writers are handles.\<close>

record sink_owners =
  so_weak :: "(nat, nat) dict"
  so_strong :: "(nat, nat) dict"

definition owner_of :: "bool \<Rightarrow> nat \<Rightarrow> sink_owners \<Rightarrow> nat option" where
  "owner_of weak sink owners = dict_get (if weak then so_weak owners else so_strong owners) sink"

definition claim_sink_ownership ::
  "bool \<Rightarrow> nat \<Rightarrow> nat \<Rightarrow> (nat \<Rightarrow> shutdown_state) \<Rightarrow> sink_owners \<Rightarrow> string + sink_owners" where
  "claim_sink_ownership weak sink me state_of owners =
     (case owner_of weak sink owners of
        Some w \<Rightarrow>
          (if state_of w \<noteq> Halted then Inl ''an active BoundedEventWriter already owns this sink''
           else Inr (if weak then owners\<lparr>so_weak := dict_set (so_weak owners) sink me\<rparr>
                     else owners\<lparr>so_strong := dict_set (so_strong owners) sink me\<rparr>))
      | None \<Rightarrow>
          Inr (if weak then owners\<lparr>so_weak := dict_set (so_weak owners) sink me\<rparr>
               else owners\<lparr>so_strong := dict_set (so_strong owners) sink me\<rparr>))"

definition release_sink_ownership :: "bool \<Rightarrow> nat \<Rightarrow> nat \<Rightarrow> sink_owners \<Rightarrow> sink_owners" where
  "release_sink_ownership weak sink me owners =
     (if owner_of weak sink owners = Some me
      then (if weak then owners\<lparr>so_weak := dict_pop (so_weak owners) sink\<rparr>
            else owners\<lparr>so_strong := dict_pop (so_strong owners) sink\<rparr>)
      else owners)"

section \<open>All interleavings\<close>

datatype writer_op =
    Begin_Call "(event_key \<times> event_value) list"
  | End_Call rat nat
  | Listener step_env
  | Rotate_Begin
  | Rotate_Wait bool
  | Rotate_End "rat option"
  | Shutdown_Begin
  | Shutdown_Stop nat
  | Shutdown_End nat

fun writer_step :: "writer_config \<Rightarrow> writer_op \<Rightarrow> writer \<Rightarrow> writer" where
  "writer_step c (Begin_Call record) w = begin_call c record w"
| "writer_step c (End_Call now i) w = end_call c now i w"
| "writer_step c (Listener e) w = listener_step c e w"
| "writer_step c Rotate_Begin w = snd (rotate_begin w)"
| "writer_step c (Rotate_Wait b) w = rotate_wait b w"
| "writer_step c (Rotate_End r) w = rotate_end r w"
| "writer_step c Shutdown_Begin w = shutdown_begin w"
| "writer_step c (Shutdown_Stop t) w = shutdown_stop t w"
| "writer_step c (Shutdown_End t) w = shutdown_end t w"

inductive writer_reachable :: "writer_config \<Rightarrow> writer \<Rightarrow> bool" for c where
  writer_created: "check_config c = Inr () \<Longrightarrow> writer_reachable c (new_writer failed)"
| writer_stepped: "writer_reachable c w \<Longrightarrow> writer_reachable c (writer_step c op w)"

inductive_cases writer_reachableE: "writer_reachable c w"

end
