(* ===== verification/Event_Writer_Invariant.thy ===== *)
theory Event_Writer_Invariant
  imports Event_Writer
begin

text \<open>
  The invariant of the bounded event writer: the custody of the accepted records, the accounting of
  drops and failures, and the fences of rotation and shutdown; every step preserves it.
\<close>

section \<open>Custody: the records the writer still holds\<close>

fun in_hand :: "listener \<Rightarrow> queued list" where
  "in_hand (L_Fetch p) = (case p of None \<Rightarrow> [] | Some q \<Rightarrow> [q])"
| "in_hand (L_Fence q) = [q]"
| "in_hand (L_Gather b n) = b"
| "in_hand (L_Candidate b n q) = b @ [q]"
| "in_hand (L_Write b p) = b @ (case p of None \<Rightarrow> [] | Some q \<Rightarrow> [q])"
| "in_hand (L_Recover s p) = (case p of None \<Rightarrow> [] | Some q \<Rightarrow> [q])"
| "in_hand L_Stopped = []"
| "in_hand L_Not_Started = []"

fun waiting :: "queue_item list \<Rightarrow> queued list" where
  "waiting [] = []"
| "waiting (Queued q # r) = q # waiting r"
| "waiting (Sentinel # r) = waiting r"

lemma waiting_append [simp]: "waiting (xs @ ys) = waiting xs @ waiting ys"
  by (induction xs rule: waiting.induct) auto

definition custody :: "writer \<Rightarrow> queued list" where
  "custody w = in_hand (w_listener w) @ waiting (w_queue w)"

fun batch_of :: "listener \<Rightarrow> queued list" where
  "batch_of (L_Gather b n) = b"
| "batch_of (L_Candidate b n q) = b"
| "batch_of (L_Write b p) = b"
| "batch_of _ = []"

definition event_lines :: "sink_line list \<Rightarrow> bytes list" where
  "event_lines ls = concat (map (\<lambda>l. case l of Event_Line d \<Rightarrow> [d] | Recovery_Line _ \<Rightarrow> []) ls)"

lemma event_lines_simps [simp]:
  "event_lines [] = []" "event_lines (xs @ ys) = event_lines xs @ event_lines ys"
  "event_lines (Recovery_Line d # xs) = event_lines xs" "event_lines (Event_Line d # xs) = d # event_lines xs"
  "event_lines (map (Event_Line \<circ> f) qs) = map f qs"
proof -
  show "event_lines (map (Event_Line \<circ> f) qs) = map f qs" by (induction qs) (simp_all add: event_lines_def)
qed (simp_all add: event_lines_def)

text \<open>Records are held in the order of their numbers, without a gap, and are the accepted lines.\<close>

definition custody_ok :: "writer_config \<Rightarrow> writer \<Rightarrow> bool" where
  "custody_ok c w \<longleftrightarrow>
     map qr_sequence (custody w) = [Suc (w_completed_sequence w) ..< w_next_sequence w]
     \<and> w_completed_sequence w < w_next_sequence w
     \<and> map qr_data (custody w) = drop (w_completed_sequence w) (gh_history w)
     \<and> length (gh_history w) = w_next_sequence w - 1
     \<and> w_accepted w = w_next_sequence w - 1
     \<and> w_pending_records w = length (custody w)
     \<and> w_pending_bytes w = sum_list (map queued_bytes (custody w))
     \<and> w_pending_records w \<le> wc_max_records c \<and> w_pending_bytes w \<le> wc_max_bytes c
     \<and> subseq (event_lines (gh_log w)) (take (w_completed_sequence w) (gh_history w))
     \<and> w_written w = length (event_lines (gh_log w))
     \<and> (case w_listener w of L_Gather b n \<Rightarrow> b \<noteq> [] \<and> n = sum_list (map queued_bytes b)
        | L_Candidate b n q \<Rightarrow> b \<noteq> [] \<and> n = sum_list (map queued_bytes b)
        | L_Write b p \<Rightarrow> b \<noteq> [] | _ \<Rightarrow> True)"

text \<open>What a step may change without touching custody.\<close>

lemma custody_ok_cong:
  assumes "custody_ok c w"
    and "w_listener w' = w_listener w" "w_queue w' = w_queue w"
    and "w_next_sequence w' = w_next_sequence w" "w_completed_sequence w' = w_completed_sequence w"
    and "gh_history w' = gh_history w" "gh_log w' = gh_log w" "w_accepted w' = w_accepted w"
    and "w_written w' = w_written w" "w_pending_records w' = w_pending_records w"
    and "w_pending_bytes w' = w_pending_bytes w"
  shows "custody_ok c w'"
  using assms unfolding custody_ok_def custody_def by simp

lemma custody_record_failure [simp]: "custody_ok c (record_failure now k n b i w) = custody_ok c w"
  by (simp add: custody_ok_def custody_def record_failure_def)

lemma custody_record_overflow [simp]: "custody_ok c (record_overflow b w) = custody_ok c w"
  by (simp add: custody_ok_def custody_def record_overflow_def)

lemma custody_refuse [simp]: "custody_ok c (refuse b w) = custody_ok c w"
  by (simp add: custody_ok_def custody_def refuse_def)

lemma custody_ghosts [simp]:
  "custody_ok c (w\<lparr>gh_calls := a\<rparr>) = custody_ok c w"
  "custody_ok c (w\<lparr>gh_offered := b\<rparr>) = custody_ok c w"
  by (simp_all add: custody_ok_def custody_def)

lemma custody_new: "custody_ok c (new_writer failed)"
  by (cases failed) (simp_all add: new_writer_def, simp_all add: custody_ok_def custody_def fresh_writer_def)

lemma custody_commit: assumes "custody_ok c w" shows "custody_ok c (snd (enqueue_commit c data w))"
proof (cases "w_state w \<noteq> Running \<or> w_pending_records w \<ge> wc_max_records c \<or> w_pending_bytes w + length data > wc_max_bytes c")
  case True
  then have "snd (enqueue_commit c data w) = refuse (length data) w \<or> snd (enqueue_commit c data w) = record_overflow (length data) w"
    by (auto simp: enqueue_commit_def)
  with assms show ?thesis by (elim disjE) simp_all
next
  case False
  let ?q = "\<lparr>qr_sequence = w_next_sequence w, qr_data = data\<rparr>"
  have e: "snd (enqueue_commit c data w) = w\<lparr>w_queue := w_queue w @ [Queued ?q],
          w_next_sequence := w_next_sequence w + 1, w_pending_records := w_pending_records w + 1,
          w_pending_bytes := w_pending_bytes w + length data, w_accepted := w_accepted w + 1,
          gh_history := gh_history w @ [data]\<rparr>"
    using False by (simp add: enqueue_commit_def)
  have len: "length (gh_history w) = w_next_sequence w - 1" "w_completed_sequence w < w_next_sequence w"
    using assms by (simp_all add: custody_ok_def)
  show ?thesis
    unfolding e using assms False len
    by (simp add: custody_ok_def custody_def)
qed

lemma custody_serialized: assumes "custody_ok c w" shows "custody_ok c (snd (enqueue_serialized c now record w))"
  using custody_commit [OF assms] assms
  by (auto simp: enqueue_serialized_def enqueue_rejected_def split: sum.split)

lemma custody_begin: "custody_ok c w \<Longrightarrow> custody_ok c (begin_call c record w)"
  by (auto simp: begin_call_def enqueue_admit_def Let_def)

lemma custody_end: "custody_ok c w \<Longrightarrow> custody_ok c (end_call c now i w)"
  by (auto simp: end_call_def intro: custody_serialized)

lemma custody_move:
  assumes "custody_ok c w" and "w_listener w' = l" and "in_hand l @ waiting (w_queue w') = custody w"
    and "case l of L_Gather b n \<Rightarrow> b \<noteq> [] \<and> n = sum_list (map queued_bytes b)
        | L_Candidate b n q \<Rightarrow> b \<noteq> [] \<and> n = sum_list (map queued_bytes b)
        | L_Write b p \<Rightarrow> b \<noteq> [] | _ \<Rightarrow> True"
    and "w_next_sequence w' = w_next_sequence w" "w_completed_sequence w' = w_completed_sequence w"
    and "gh_history w' = gh_history w" "gh_log w' = gh_log w" "w_accepted w' = w_accepted w"
    and "w_written w' = w_written w" "w_pending_records w' = w_pending_records w"
    and "w_pending_bytes w' = w_pending_bytes w"
  shows "custody_ok c w'"
proof -
  have "custody w' = custody w" using assms(2,3) by (simp add: custody_def)
  with assms show ?thesis by (simp add: custody_ok_def)
qed

lemma split_numbers:
  assumes "map f (b @ r) = [Suc m ..< n]" and "b \<noteq> []"
  shows "map f b = [Suc m ..< Suc m + length b]" "map f r = [Suc (m + length b) ..< n]"
    "m + length b < n"
proof -
  have l: "length b + length r = n - Suc m" using arg_cong [OF assms(1), of length] by simp
  then have le: "Suc m + length b \<le> n" using assms(2) by (cases b) auto
  from assms(1) have "map f b = take (length b) [Suc m ..< n]" by (metis length_map map_append append_eq_conv_conj)
  with le show "map f b = [Suc m ..< Suc m + length b]" by simp
  from assms(1) have "map f r = drop (length b) [Suc m ..< n]" by (metis length_map map_append append_eq_conv_conj)
  then show "map f r = [Suc (m + length b) ..< n]" by (simp add: drop_upt)
  from le show "m + length b < n" by simp
qed

lemma last_number:
  assumes "map f b = [k ..< k + length b]" and "b \<noteq> []"
  shows "f (last b) = k + length b - 1"
proof -
  have "f (last b) = last (map f b)" using assms(2) by (simp add: last_map)
  also have "\<dots> = k + length b - 1" unfolding assms(1) using assms(2) by (simp add: last_upt del: upt_Suc)
  finally show ?thesis .
qed

text \<open>Completing the batch in hand: the rest of the custody moves up.\<close>

lemma complete_batch_eq:
  assumes "custody_ok c w" and "w_listener w = L_Write b p"
  shows "complete_batch b w =
    w\<lparr>w_pending_records := w_pending_records w - length b,
      w_pending_bytes := w_pending_bytes w - sum_list (map queued_bytes b),
      w_completed_sequence := w_completed_sequence w + length b\<rparr>"
proof -
  have b: "b \<noteq> []" using assms by (simp add: custody_ok_def)
  have "map qr_sequence (b @ (in_hand (L_Fetch p) @ waiting (w_queue w))) = [Suc (w_completed_sequence w) ..< w_next_sequence w]"
    using assms by (simp add: custody_ok_def custody_def)
  from split_numbers(1) [OF this b] have "qr_sequence (last b) = w_completed_sequence w + length b"
    using last_number [OF _ b, of qr_sequence "Suc (w_completed_sequence w)"] by simp
  with b show ?thesis by (simp add: complete_batch_def)
qed

lemma custody_completed:
  assumes ok: "custody_ok c w" and l: "w_listener w = L_Write b p"
    and l': "w_listener w' = L_Fetch p \<or> (\<exists>s. w_listener w' = L_Recover s p)"
    and q': "w_queue w' = w_queue w" "w_next_sequence w' = w_next_sequence w"
      "w_completed_sequence w' = w_completed_sequence w + length b"
      "gh_history w' = gh_history w" "w_accepted w' = w_accepted w"
      "w_pending_records w' = w_pending_records w - length b"
      "w_pending_bytes w' = w_pending_bytes w - sum_list (map queued_bytes b)"
    and log': "w_written w' = length (event_lines (gh_log w'))"
      "event_lines (gh_log w') = event_lines (gh_log w)
       \<or> event_lines (gh_log w') = event_lines (gh_log w) @ map qr_data b"
  shows "custody_ok c w'"
proof -
  let ?r = "in_hand (L_Fetch p) @ waiting (w_queue w)"
  have cu: "custody w = b @ ?r" using l by (simp add: custody_def)
  have cu': "custody w' = ?r" using l' q' by (auto simp: custody_def)
  have b: "b \<noteq> []" using ok l by (simp add: custody_ok_def)
  have n: "map qr_sequence (b @ ?r) = [Suc (w_completed_sequence w) ..< w_next_sequence w]"
    and d: "map qr_data (b @ ?r) = drop (w_completed_sequence w) (gh_history w)"
    using ok by (simp_all add: custody_ok_def cu)
  note s = split_numbers [OF n b]
  have d1: "map qr_data ?r = drop (w_completed_sequence w + length b) (gh_history w)"
  proof -
    have "map qr_data ?r = drop (length b) (drop (w_completed_sequence w) (gh_history w))"
      unfolding d [symmetric] by simp
    then show ?thesis by (simp add: add.commute)
  qed
  have t1: "take (w_completed_sequence w + length b) (gh_history w)
      = take (w_completed_sequence w) (gh_history w) @ map qr_data b"
  proof -
    have "take (length b) (drop (w_completed_sequence w) (gh_history w)) = map qr_data b"
      unfolding d [symmetric] by simp
    then show ?thesis by (simp add: take_add)
  qed
  have sub: "subseq (event_lines (gh_log w')) (take (w_completed_sequence w + length b) (gh_history w))"
    using log'(2) ok unfolding t1 by (auto simp: custody_ok_def intro: list_emb_append_mono subseq_append')
  have pend: "w_pending_records w - length b = length ?r" "w_pending_records w - length b \<le> wc_max_records c"
    "w_pending_bytes w - sum_list (map queued_bytes b) = sum_list (map queued_bytes ?r)"
    "w_pending_bytes w - sum_list (map queued_bytes b) \<le> wc_max_bytes c"
    using ok by (simp_all add: custody_ok_def cu)
  have acc: "length (gh_history w) = w_next_sequence w - 1" "w_accepted w = w_next_sequence w - 1"
    using ok by (simp_all add: custody_ok_def)
  have shape: "case w_listener w' of L_Gather b n \<Rightarrow> b \<noteq> [] \<and> n = sum_list (map queued_bytes b)
        | L_Candidate b n q \<Rightarrow> b \<noteq> [] \<and> n = sum_list (map queued_bytes b)
        | L_Write b p \<Rightarrow> b \<noteq> [] | _ \<Rightarrow> True" using l' by auto
  show ?thesis
    unfolding custody_ok_def cu' q' using s d1 sub log'(1) pend acc shape
    by (intro conjI) assumption+
qed

lemma custody_write:
  assumes "custody_ok c w" and "w_listener w = L_Write b p"
  shows "custody_ok c (write_batch now out b p w)"
proof -
  note e = complete_batch_eq [OF assms]
  have wr: "w_written w = length (event_lines (gh_log w))" using assms(1) by (simp add: custody_ok_def)
  show ?thesis
    by (rule custody_completed [OF assms])
       (auto simp: write_batch_def e record_failure_def Let_def wr split: option.split)
qed

lemma custody_recover:
  assumes "custody_ok c w" and "w_listener w = L_Recover s p"
  shows "custody_ok c (emit_recovery now f out s p w)"
proof (cases "\<exists>data. emit_recovery now f out s p w =
    (let q = subtract_recovery s (w_recovery w)
     in w\<lparr>w_recovery := q, w_recovery_events := w_recovery_events w + 1,
           w_unresolved := (if has_data q then w_unresolved w else False),
           w_recovery_inflight := False, w_listener := L_Fetch p,
           gh_log := gh_log w @ [Recovery_Line data], gh_reported := gh_reported w @ [s]\<rparr>)")
  case True
  with assms show ?thesis by (auto simp: Let_def custody_ok_def custody_def)
next
  case False
  then have "emit_recovery now f out s p w = (record_failure now ''recovery_emit_failed'' 0 0 False w)
      \<lparr>w_recovery_inflight := False, w_listener := L_Fetch p, gh_emit_failed := gh_emit_failed w + 1\<rparr>"
    by (auto simp: emit_recovery_def Let_def split: option.splits sum.splits)
  with assms show ?thesis by (simp add: record_failure_def custody_ok_def custody_def)
qed

lemma listener_shape:
  assumes "custody_ok c w"
  shows "w_listener w = L_Gather b n \<Longrightarrow> b \<noteq> [] \<and> n = sum_list (map queued_bytes b)"
    and "w_listener w = L_Candidate b n q \<Longrightarrow> b \<noteq> [] \<and> n = sum_list (map queued_bytes b)"
    and "w_listener w = L_Write b p \<Longrightarrow> b \<noteq> []"
  using assms by (simp_all add: custody_ok_def)

lemma custody_listener:
  assumes ok: "custody_ok c w"
  shows "custody_ok c (listener_step c e w)"
proof (cases "w_listener w")
  case (L_Fetch p)
  then show ?thesis
    by (cases p; cases "w_queue w" rule: waiting.cases)
       (auto simp: listener_step_def custody_def ok intro: custody_move [OF ok refl])
next
  case (L_Fence q)
  then show ?thesis by (auto simp: listener_step_def custody_def ok intro: custody_move [OF ok refl])
next
  case (L_Gather b n)
  with listener_shape(1) [OF ok this] show ?thesis
    by (cases "w_queue w" rule: waiting.cases)
       (auto simp: listener_step_def custody_def intro!: custody_move [OF ok refl])
next
  case (L_Candidate b n q)
  with listener_shape(2) [OF ok this] show ?thesis
    by (auto simp: listener_step_def custody_def intro!: custody_move [OF ok refl])
next
  case (L_Write b p)
  from custody_write [OF ok this] L_Write show ?thesis by (simp add: listener_step_def)
next
  case (L_Recover s p)
  from custody_recover [OF ok this] L_Recover show ?thesis by (simp add: listener_step_def)
qed (simp_all add: listener_step_def ok)

lemma waiting_sentinel [simp]: "waiting [Sentinel] = []" by simp

lemma custody_fences:
  assumes "custody_ok c w"
  shows "custody_ok c (snd (rotate_begin w))" "custody_ok c (rotate_wait b w)" "custody_ok c (rotate_end r w)"
    "custody_ok c (shutdown_begin w)" "custody_ok c (shutdown_stop t w)" "custody_ok c (shutdown_end t w)"
  using assms
  by (auto simp: rotate_begin_def rotate_wait_def rotate_end_def shutdown_begin_def shutdown_stop_def
      shutdown_end_def record_failure_def Let_def custody_ok_def custody_def
      split: option.splits rotation_phase.splits wait_outcome.splits)

lemma custody_step: "custody_ok c w \<Longrightarrow> custody_ok c (writer_step c op w)"
  by (cases op) (simp_all add: custody_begin custody_end custody_listener custody_fences)

lemma custody_reachable: "writer_reachable c w \<Longrightarrow> custody_ok c w"
  by (induction rule: writer_reachable.induct) (auto intro: custody_new custody_step)

section \<open>Accounting\<close>

definition reported :: "(recovery \<Rightarrow> nat) \<Rightarrow> writer \<Rightarrow> nat" where
  "reported f w = sum_list (map f (gh_reported w))"

definition covers :: "recovery \<Rightarrow> recovery \<Rightarrow> bool" where
  "covers p s \<longleftrightarrow> rc_overflow_records s \<le> rc_overflow_records p
     \<and> rc_overflow_bytes s \<le> rc_overflow_bytes p \<and> rc_failed_records s \<le> rc_failed_records p
     \<and> rc_failure_count s \<le> rc_failure_count p"

text \<open>The failures of the sink, of the serialization and of a rotation.\<close>

definition accounted :: "writer \<Rightarrow> bool" where
  "accounted w \<longleftrightarrow>
     w_dropped w = gh_refused w
         + reported rc_overflow_records w + rc_overflow_records (w_recovery w)
         + reported rc_failed_records w + rc_failed_records (w_recovery w)
     \<and> w_failure_count w = gh_emit_failed w + reported rc_failure_count w + rc_failure_count (w_recovery w)
     \<and> w_recovery_events w = length (gh_reported w)
     \<and> (w_unresolved w \<longrightarrow> has_data (w_recovery w))"

lemma accounted_cong:
  assumes "w_dropped w' = w_dropped w" "gh_refused w' = gh_refused w" "w_recovery w' = w_recovery w"
    "w_failure_count w' = w_failure_count w" "gh_emit_failed w' = gh_emit_failed w"
    "gh_reported w' = gh_reported w" "w_recovery_events w' = w_recovery_events w"
    "w_unresolved w' = w_unresolved w"
  shows "accounted w' = accounted w"
  using assms by (simp add: accounted_def reported_def)

lemma accounted_failure: "accounted w \<Longrightarrow> accounted (record_failure now k n b True w)"
  by (simp add: accounted_def record_failure_def reported_def add_failure_def has_data_def)

lemma accounted_overflow: "accounted w \<Longrightarrow> accounted (record_overflow b w)"
  by (auto simp: accounted_def record_overflow_def reported_def has_data_def)

lemma accounted_refuse: "accounted w \<Longrightarrow> accounted (refuse b w)"
  by (simp add: accounted_def refuse_def reported_def)

lemma covers_data: "covers p s \<Longrightarrow> has_data s \<Longrightarrow> has_data p"
  by (auto simp: covers_def has_data_def)

lemma covers_failure: "covers p s \<Longrightarrow> covers (add_failure k n p) s"
  by (simp add: covers_def add_failure_def)

lemma covers_snapshot: "covers p (recovery_snapshot p)" "has_data (recovery_snapshot p) = has_data p"
  by (simp_all add: covers_def recovery_snapshot_def has_data_def)

definition recovering_ok :: "writer \<Rightarrow> bool" where
  "recovering_ok w \<longleftrightarrow>
     (w_recovery_inflight w \<longleftrightarrow> (\<exists>s p. w_listener w = L_Recover s p))
     \<and> (\<forall>s p. w_listener w = L_Recover s p \<longrightarrow> covers (w_recovery w) s \<and> has_data s)"

lemma recovering_failure: "recovering_ok w \<Longrightarrow> recovering_ok (record_failure now k n b i w)"
  by (auto simp: recovering_ok_def record_failure_def covers_failure)

lemma recovering_overflow: "recovering_ok w \<Longrightarrow> recovering_ok (record_overflow b w)"
  by (auto simp: recovering_ok_def record_overflow_def covers_def)

lemma recovering_cong:
  assumes "w_recovery_inflight w' = w_recovery_inflight w" "w_listener w' = w_listener w"
    "w_recovery w' = w_recovery w"
  shows "recovering_ok w' = recovering_ok w"
  using assms by (simp add: recovering_ok_def)

definition conserved :: "writer \<Rightarrow> bool" where
  "conserved w \<longleftrightarrow> gh_offered w = w_written w + w_dropped w + w_pending_records w + length (gh_calls w)"

text \<open>All three together, and the steps of a caller.\<close>

definition counts_ok :: "writer \<Rightarrow> bool" where
  "counts_ok w \<longleftrightarrow> accounted w \<and> recovering_ok w \<and> conserved w"

lemma counts_new: "counts_ok (new_writer failed)"
  by (cases failed)
     (simp_all add: new_writer_def counts_ok_def accounted_def recovering_ok_def conserved_def fresh_writer_def
        record_failure_def add_failure_def has_data_def no_recovery_def reported_def)

text \<open>One record leaves the hands of its caller: dropped or accepted.\<close>

lemma conserved_simps [simp]:
  "conserved (record_failure now k n b i w) \<longleftrightarrow>
     gh_offered w = w_written w + w_dropped w + n + w_pending_records w + length (gh_calls w)"
  "conserved (record_overflow b w) \<longleftrightarrow>
     gh_offered w = w_written w + w_dropped w + 1 + w_pending_records w + length (gh_calls w)"
  "conserved (refuse b w) \<longleftrightarrow>
     gh_offered w = w_written w + w_dropped w + 1 + w_pending_records w + length (gh_calls w)"
  by (simp_all add: conserved_def record_failure_def record_overflow_def refuse_def algebra_simps)

lemma side_ghosts [simp]:
  "accounted (w\<lparr>gh_offered := n\<rparr>) = accounted w" "recovering_ok (w\<lparr>gh_offered := n\<rparr>) = recovering_ok w"
  "accounted (w\<lparr>gh_calls := cs\<rparr>) = accounted w" "recovering_ok (w\<lparr>gh_calls := cs\<rparr>) = recovering_ok w"
  "recovering_ok (refuse b w) = recovering_ok w"
  by (simp_all add: accounted_def reported_def recovering_ok_def refuse_def)

lemma commit_cases:
  obtains "snd (enqueue_commit c data w) = refuse (length data) w"
  | "snd (enqueue_commit c data w) = record_overflow (length data) w"
  | "w_state w = Running" "w_pending_records w < wc_max_records c" "w_pending_bytes w + length data \<le> wc_max_bytes c"
    "snd (enqueue_commit c data w) =
      w\<lparr>w_queue := w_queue w @ [Queued \<lparr>qr_sequence = w_next_sequence w, qr_data = data\<rparr>],
          w_next_sequence := w_next_sequence w + 1, w_pending_records := w_pending_records w + 1,
          w_pending_bytes := w_pending_bytes w + length data, w_accepted := w_accepted w + 1,
          gh_history := gh_history w @ [data]\<rparr>"
proof (cases "w_state w \<noteq> Running")
  case True
  then have "snd (enqueue_commit c data w) = refuse (length data) w" by (simp add: enqueue_commit_def)
  then show thesis by (rule that(1))
next
  case running: False
  show thesis
  proof (cases "w_pending_records w \<ge> wc_max_records c \<or> w_pending_bytes w + length data > wc_max_bytes c")
    case True
    with running have "snd (enqueue_commit c data w) = record_overflow (length data) w"
      by (simp add: enqueue_commit_def)
    then show thesis by (rule that(2))
  next
    case False
    with running show thesis by (intro that(3)) (simp_all add: enqueue_commit_def)
  qed
qed

lemma rejected_cases:
  obtains "enqueue_rejected now e w = record_overflow 0 w" | "enqueue_rejected now e w = refuse 0 w"
  | "enqueue_rejected now e w = record_failure now ''serialization_rejected'' 1 0 True w"
  by (cases "e = Record_Too_Large"; cases "w_state w = Running") (simp_all add: enqueue_rejected_def)

lemma side_commit:
  assumes "accounted w" and "recovering_ok w"
  shows "accounted (snd (enqueue_commit c data w)) \<and> recovering_ok (snd (enqueue_commit c data w))"
proof (cases rule: commit_cases [of c data w])
  case 3
  with assms show ?thesis by (simp add: accounted_def reported_def recovering_ok_def)
qed (simp_all add: assms accounted_refuse accounted_overflow recovering_overflow)

lemma side_rejected:
  assumes "accounted w" and "recovering_ok w"
  shows "accounted (enqueue_rejected now e w) \<and> recovering_ok (enqueue_rejected now e w)"
  by (cases rule: rejected_cases [of now e w])
     (simp_all add: assms accounted_refuse accounted_overflow recovering_overflow accounted_failure recovering_failure)

lemma side_serialized:
  assumes "accounted w" and "recovering_ok w"
  shows "accounted (snd (enqueue_serialized c now r w)) \<and> recovering_ok (snd (enqueue_serialized c now r w))"
  using side_commit [OF assms] side_rejected [OF assms]
  by (cases "serialize_record (Some (wc_max_bytes c)) r") (simp_all add: enqueue_serialized_def)

lemma conserved_serialized:
  assumes "gh_offered w = w_written w + w_dropped w + w_pending_records w + Suc (length (gh_calls w))"
  shows "conserved (snd (enqueue_serialized c now r w))"
proof (cases "serialize_record (Some (wc_max_bytes c)) r")
  case (Inl e)
  with assms show ?thesis by (simp add: enqueue_serialized_def enqueue_rejected_def)
next
  case (Inr data)
  have "conserved (snd (enqueue_commit c data w))"
    by (cases rule: commit_cases [of c data w]) (simp_all add: assms, simp add: conserved_def assms)
  with Inr show ?thesis by (simp add: enqueue_serialized_def)
qed

lemma counts_begin: "counts_ok w \<Longrightarrow> counts_ok (begin_call c r w)"
proof -
  assume ok: "counts_ok w"
  let ?w = "w\<lparr>gh_offered := gh_offered w + 1\<rparr>"
  have s: "accounted ?w" "recovering_ok ?w" using ok by (simp_all add: counts_ok_def)
  have o: "gh_offered ?w = w_written w + w_dropped w + w_pending_records w + Suc (length (gh_calls w))"
    using ok by (simp add: counts_ok_def conserved_def)
  consider "begin_call c r w = refuse 0 ?w" | "begin_call c r w = record_overflow 0 ?w"
    | "begin_call c r w = ?w\<lparr>gh_calls := gh_calls w @ [r]\<rparr>"
    by (cases "w_state w = Running"; cases "w_pending_records w \<ge> wc_max_records c")
       (simp_all add: begin_call_def enqueue_admit_def Let_def)
  then show ?thesis
  proof cases
    case 1
    with s accounted_refuse [OF s(1), of 0] o show ?thesis by (simp add: counts_ok_def)
  next
    case 2
    with accounted_overflow [OF s(1), of 0] recovering_overflow [OF s(2), of 0] o show ?thesis
      by (simp add: counts_ok_def)
  next
    case 3
    with s o show ?thesis by (simp add: counts_ok_def conserved_def)
  qed
qed

lemma counts_end: assumes ok: "counts_ok w" shows "counts_ok (end_call c now i w)"
proof (cases "i < length (gh_calls w)")
  case True
  let ?w = "w\<lparr>gh_calls := take i (gh_calls w) @ drop (Suc i) (gh_calls w)\<rparr>"
  have "accounted ?w" "recovering_ok ?w" using ok by (simp_all add: counts_ok_def)
  moreover have "gh_offered ?w = w_written ?w + w_dropped ?w + w_pending_records ?w + Suc (length (gh_calls ?w))"
    using ok True by (simp add: counts_ok_def conserved_def)
  ultimately show ?thesis
    using True side_serialized [of ?w] conserved_serialized [of ?w] by (simp add: end_call_def counts_ok_def)
qed (simp add: end_call_def ok)

lemma side_listener [simp]:
  "accounted (w\<lparr>w_listener := l\<rparr>) = accounted w" "conserved (w\<lparr>w_listener := l\<rparr>) = conserved w"
  "accounted (w\<lparr>w_queue := q\<rparr>) = accounted w" "conserved (w\<lparr>w_queue := q\<rparr>) = conserved w"
  "recovering_ok (w\<lparr>w_queue := q\<rparr>) = recovering_ok w"
  by (simp_all add: accounted_def reported_def conserved_def recovering_ok_def)

lemma recovering_moved:
  "recovering_ok w \<Longrightarrow> (\<And>s p. w_listener w \<noteq> L_Recover s p) \<Longrightarrow> (\<And>s p. l \<noteq> L_Recover s p)
     \<Longrightarrow> recovering_ok (w\<lparr>w_listener := l\<rparr>)"
  by (simp add: recovering_ok_def)

lemma batch_fits: "custody_ok c w \<Longrightarrow> w_listener w = L_Write b p \<Longrightarrow> length b \<le> w_pending_records w"
  by (simp add: custody_ok_def custody_def)

lemma counts_write:
  assumes ok: "counts_ok w" and cu: "custody_ok c w" and l: "w_listener w = L_Write b p"
  shows "counts_ok (write_batch now out b p w)"
proof -
  note e = complete_batch_eq [OF cu l]
  let ?w = "complete_batch b w"
  have r: "\<not> w_recovery_inflight w" using ok l by (simp add: counts_ok_def recovering_ok_def)
  have side: "accounted ?w" "recovering_ok ?w" "w_listener ?w = L_Write b p"
    using ok l by (simp_all add: e counts_ok_def accounted_def reported_def recovering_ok_def)
  have con: "gh_offered ?w = w_written ?w + w_dropped ?w + length b + w_pending_records ?w + length (gh_calls ?w)"
    using ok batch_fits [OF cu l] by (simp add: e counts_ok_def conserved_def)
  show ?thesis
  proof (cases out)
    case (Some x)
    let ?f = "record_failure now (failure_category x) (length b) (sum_list (map queued_bytes b)) True ?w"
    have "w_listener ?f = L_Write b p" using side(3) by (simp add: record_failure_def)
    with side con Some show ?thesis
      by (simp add: write_batch_def counts_ok_def accounted_failure recovering_moved recovering_failure)
  next
    case None
    from side(1) con r show ?thesis
      by (auto simp: write_batch_def None Let_def counts_ok_def accounted_def reported_def conserved_def
          recovering_ok_def covers_snapshot e)
  qed
qed

lemma counts_recover:
  assumes ok: "counts_ok w" and l: "w_listener w = L_Recover s p"
  shows "counts_ok (emit_recovery now f out s p w)"
proof -
  from ok l have cov: "covers (w_recovery w) s" "has_data s" by (simp_all add: counts_ok_def recovering_ok_def)
  let ?q = "subtract_recovery s (w_recovery w)"
  consider data where "emit_recovery now f out s p w =
      w\<lparr>w_recovery := ?q, w_recovery_events := w_recovery_events w + 1,
           w_unresolved := (if has_data ?q then w_unresolved w else False),
           w_recovery_inflight := False, w_listener := L_Fetch p,
           gh_log := gh_log w @ [Recovery_Line data], gh_reported := gh_reported w @ [s]\<rparr>"
    | "emit_recovery now f out s p w = (record_failure now ''recovery_emit_failed'' 0 0 False w)
      \<lparr>w_recovery_inflight := False, w_listener := L_Fetch p, gh_emit_failed := gh_emit_failed w + 1\<rparr>"
    by (cases "f s"; cases out; cases "serialize_record None (the (f s))") (auto simp: emit_recovery_def Let_def)
  then show ?thesis
  proof cases
    case 1
    with ok cov show ?thesis
      by (simp add: counts_ok_def accounted_def reported_def conserved_def recovering_ok_def covers_def
          subtract_recovery_def)
  next
    case 2
    with ok covers_data [OF cov] show ?thesis
      by (simp add: counts_ok_def accounted_def reported_def conserved_def recovering_ok_def record_failure_def)
  qed
qed

lemma counts_listener:
  assumes ok: "counts_ok w" and cu: "custody_ok c w"
  shows "counts_ok (listener_step c e w)"
proof (cases "w_listener w")
  case (L_Fetch p)
  with ok show ?thesis
    by (cases p; cases "w_queue w" rule: waiting.cases)
       (auto simp: listener_step_def counts_ok_def intro: recovering_moved)
next
  case (L_Fence q)
  with ok show ?thesis by (auto simp: listener_step_def counts_ok_def intro: recovering_moved)
next
  case (L_Gather b n)
  with ok show ?thesis
    by (cases "w_queue w" rule: waiting.cases)
       (auto simp: listener_step_def counts_ok_def intro!: recovering_moved)
next
  case (L_Candidate b n q)
  with ok show ?thesis by (auto simp: listener_step_def counts_ok_def intro!: recovering_moved)
next
  case (L_Write b p)
  with counts_write [OF ok cu this] show ?thesis by (simp add: listener_step_def)
next
  case (L_Recover s p)
  with counts_recover [OF ok this] show ?thesis by (simp add: listener_step_def)
qed (simp_all add: listener_step_def ok)

lemma side_fences [simp]:
  "counts_ok (w\<lparr>w_rotation := a\<rparr>) = counts_ok w" "counts_ok (w\<lparr>w_rotating := b\<rparr>) = counts_ok w"
  "counts_ok (w\<lparr>w_state := d\<rparr>) = counts_ok w" "counts_ok (w\<lparr>w_stopping := e\<rparr>) = counts_ok w"
  "counts_ok (w\<lparr>w_queue := q\<rparr>) = counts_ok w"
  by (simp_all add: counts_ok_def accounted_def reported_def conserved_def recovering_ok_def)

lemma counts_failure: "counts_ok w \<Longrightarrow> counts_ok (record_failure now k 0 b True w)"
  by (simp add: counts_ok_def accounted_failure recovering_failure) (simp add: conserved_def)

lemma counts_fences:
  assumes "counts_ok w"
  shows "counts_ok (snd (rotate_begin w))" "counts_ok (rotate_wait b w)" "counts_ok (rotate_end r w)"
    "counts_ok (shutdown_begin w)" "counts_ok (shutdown_stop t w)" "counts_ok (shutdown_end t w)"
  using assms
  by (auto simp: rotate_begin_def rotate_wait_def rotate_end_def shutdown_begin_def shutdown_stop_def
      shutdown_end_def Let_def counts_failure
      split: option.splits rotation_phase.splits wait_outcome.splits)

lemma counts_step: "counts_ok w \<Longrightarrow> custody_ok c w \<Longrightarrow> counts_ok (writer_step c op w)"
  by (cases op) (simp_all add: counts_begin counts_end counts_listener counts_fences)

lemma counts_reachable: "writer_reachable c w \<Longrightarrow> counts_ok w"
  by (induction rule: writer_reachable.induct) (auto intro: counts_new counts_step custody_reachable)

section \<open>Fences: rotation and shutdown\<close>

definition sentinel_ok :: "writer \<Rightarrow> bool" where
  "sentinel_ok w \<longleftrightarrow>
     (Sentinel \<in> set (w_queue w) \<or> w_listener w = L_Stopped \<longrightarrow>
        w_state w \<noteq> Running \<and> custody w = [] \<and> (w_listener w = L_Fetch None \<or> w_listener w = L_Stopped))
     \<and> (\<forall>t \<in> set (w_stopping w). w_state w \<noteq> Running \<and> t = w_next_sequence w - 1)
     \<and> (w_state w = Halted \<longrightarrow> custody w = [] \<and> (w_listener w = L_Stopped \<or> w_listener w = L_Not_Started))"

definition at_rest :: "listener \<Rightarrow> bool" where
  "at_rest l \<longleftrightarrow> (case l of L_Gather _ _ \<Rightarrow> False | L_Candidate _ _ _ \<Rightarrow> False | L_Write _ _ \<Rightarrow> False
     | L_Recover _ _ \<Rightarrow> False | _ \<Rightarrow> True)"

definition rotation_ok :: "writer \<Rightarrow> bool" where
  "rotation_ok w \<longleftrightarrow>
     (w_rotating w = No_Rotation \<longrightarrow> w_rotation w = None)
     \<and> (\<forall>t. w_rotating w = Fencing t \<longrightarrow> w_rotation w = Some t \<and> t < w_next_sequence w
          \<and> (\<forall>q \<in> set (batch_of (w_listener w)). qr_sequence q \<le> t))
     \<and> (\<forall>t. w_rotating w = Operating t \<longrightarrow>
          w_rotation w = Some t \<and> t \<le> w_completed_sequence w \<and> at_rest (w_listener w))"

lemma custody_numbers:
  assumes "custody_ok c w" and "q \<in> set (custody w)"
  shows "w_completed_sequence w < qr_sequence q \<and> qr_sequence q < w_next_sequence w"
proof -
  have "qr_sequence q \<in> set (map qr_sequence (custody w))" using assms(2) by simp
  also have "map qr_sequence (custody w) = [Suc (w_completed_sequence w) ..< w_next_sequence w]"
    using assms(1) by (simp add: custody_ok_def)
  finally show ?thesis by auto
qed

lemma custody_empty: "custody_ok c w \<Longrightarrow> custody w = [] \<longleftrightarrow> w_next_sequence w \<le> Suc (w_completed_sequence w)"
proof -
  assume "custody_ok c w"
  then have "length (custody w) = w_next_sequence w - Suc (w_completed_sequence w)"
    by (metis custody_ok_def length_map length_upt)
  then show ?thesis by (metis diff_is_0_eq length_0_conv)
qed

lemma batch_in_custody: "set (batch_of (w_listener w)) \<subseteq> set (custody w)"
  by (cases "w_listener w") (auto simp: custody_def)

lemma rotation_failure [simp]:
  "rotation_ok (record_failure now k n b i w) = rotation_ok w"
  "rotation_ok (record_overflow b w) = rotation_ok w"
  "rotation_ok (refuse b w) = rotation_ok w"
  "rotation_ok (w\<lparr>gh_calls := cs\<rparr>) = rotation_ok w" "rotation_ok (w\<lparr>gh_offered := m\<rparr>) = rotation_ok w"
  "sentinel_ok (record_failure now k n b i w) = sentinel_ok w"
  "sentinel_ok (record_overflow b w) = sentinel_ok w"
  "sentinel_ok (refuse b w) = sentinel_ok w"
  "sentinel_ok (w\<lparr>gh_calls := cs\<rparr>) = sentinel_ok w" "sentinel_ok (w\<lparr>gh_offered := m\<rparr>) = sentinel_ok w"
  by (simp_all add: rotation_ok_def sentinel_ok_def custody_def record_failure_def record_overflow_def refuse_def)

lemma fences_new: "rotation_ok (new_writer f)" "sentinel_ok (new_writer f)"
  by (cases f; simp add: new_writer_def rotation_ok_def sentinel_ok_def fresh_writer_def custody_def record_failure_def)+

lemma fences_commit:
  assumes "rotation_ok w \<and> sentinel_ok w"
  shows "rotation_ok (snd (enqueue_commit c d w)) \<and> sentinel_ok (snd (enqueue_commit c d w))"
proof (cases rule: commit_cases [of c d w])
  case 3
  with assms show ?thesis
    by (auto simp: rotation_ok_def sentinel_ok_def)
qed (simp_all add: assms)

lemma fences_serialized:
  assumes "rotation_ok w \<and> sentinel_ok w"
  shows "rotation_ok (snd (enqueue_serialized c now r w)) \<and> sentinel_ok (snd (enqueue_serialized c now r w))"
  using fences_commit [OF assms] assms
  by (cases "serialize_record (Some (wc_max_bytes c)) r")
     (simp_all add: enqueue_serialized_def enqueue_rejected_def)

lemma fences_calls:
  assumes "rotation_ok w \<and> sentinel_ok w"
  shows "rotation_ok (begin_call c r w) \<and> sentinel_ok (begin_call c r w)"
    "rotation_ok (end_call c now i w) \<and> sentinel_ok (end_call c now i w)"
proof -
  show "rotation_ok (begin_call c r w) \<and> sentinel_ok (begin_call c r w)"
    using assms by (auto simp: begin_call_def enqueue_admit_def Let_def)
  show "rotation_ok (end_call c now i w) \<and> sentinel_ok (end_call c now i w)"
    using assms by (cases "i < length (gh_calls w)") (auto simp: end_call_def fences_serialized)
qed

lemma idle_in_hand:
  assumes "custody_ok c w" and "custody w = []" and "\<not> w_recovery_inflight w" and "recovering_ok w"
    and "w_listener w \<noteq> L_Not_Started"
  shows "w_listener w = L_Fetch None \<or> w_listener w = L_Stopped"
  using assms listener_shape [OF assms(1)]
  by (cases "w_listener w") (auto simp: custody_def recovering_ok_def split: option.splits)

lemma fences_shutdown:
  assumes ok: "rotation_ok w \<and> sentinel_ok w" and cu: "custody_ok c w" and rec: "recovering_ok w"
  shows "rotation_ok (shutdown_begin w) \<and> sentinel_ok (shutdown_begin w)"
    "rotation_ok (shutdown_stop t w) \<and> sentinel_ok (shutdown_stop t w)"
    "rotation_ok (shutdown_end t w) \<and> sentinel_ok (shutdown_end t w)"
proof -
  show "rotation_ok (shutdown_begin w) \<and> sentinel_ok (shutdown_begin w)"
    using ok by (auto simp: shutdown_begin_def Let_def rotation_ok_def sentinel_ok_def custody_def)
  show "rotation_ok (shutdown_stop t w) \<and> sentinel_ok (shutdown_stop t w)"
  proof (cases "List.member (w_stopping w) t \<and> wait_done t w \<and> w_listener w \<noteq> L_Not_Started")
    case True
    then have t: "t = w_next_sequence w - 1" "w_state w \<noteq> Running" using ok by (auto simp: sentinel_ok_def)
    with True have "custody w = []" using custody_empty [OF cu] by (auto simp: wait_done_def)
    moreover have "w_listener w = L_Fetch None \<or> w_listener w = L_Stopped"
      using idle_in_hand [OF cu \<open>custody w = []\<close> _ rec] True by (simp add: wait_done_def)
    ultimately show ?thesis
      using True ok t by (auto simp: shutdown_stop_def rotation_ok_def sentinel_ok_def custody_def)
  qed (auto simp: shutdown_stop_def ok)
  have p: "w_pending_records w = 0 \<Longrightarrow> custody w = []" using cu by (simp add: custody_ok_def)
  show "rotation_ok (shutdown_end t w) \<and> sentinel_ok (shutdown_end t w)"
    using ok p by (auto simp: shutdown_end_def rotation_ok_def sentinel_ok_def custody_def)
qed

lemma fences_rotation:
  assumes ok: "rotation_ok w \<and> sentinel_ok w" and cu: "custody_ok c w" and rec: "recovering_ok w"
  shows "rotation_ok (snd (rotate_begin w)) \<and> sentinel_ok (snd (rotate_begin w))"
    "rotation_ok (rotate_wait b w) \<and> sentinel_ok (rotate_wait b w)"
    "rotation_ok (rotate_end r w) \<and> sentinel_ok (rotate_end r w)"
proof -
  have n: "qr_sequence q < w_next_sequence w" "w_completed_sequence w < qr_sequence q"
    if "q \<in> set (batch_of (w_listener w))" for q
    using custody_numbers [OF cu] batch_in_custody that by blast+
  have pos: "0 < w_next_sequence w" using cu by (simp add: custody_ok_def)
  have num: "\<forall>q \<in> set (batch_of (w_listener w)). qr_sequence q \<le> w_next_sequence w - 1"
    using n(1) by fastforce
  show "rotation_ok (snd (rotate_begin w)) \<and> sentinel_ok (snd (rotate_begin w))"
    using ok num pos by (auto simp: rotate_begin_def Let_def rotation_ok_def sentinel_ok_def custody_def)
  have lift: "rotation_ok (w\<lparr>w_rotation := None, w_rotating := No_Rotation\<rparr>) \<and> sentinel_ok (w\<lparr>w_rotation := None, w_rotating := No_Rotation\<rparr>)"
    using ok by (simp add: rotation_ok_def sentinel_ok_def custody_def)
  have op: "rotation_ok (w\<lparr>w_rotating := Operating t\<rparr>) \<and> sentinel_ok (w\<lparr>w_rotating := Operating t\<rparr>)"
    if t: "w_rotating w = Fencing t" "wait_done t w" for t
  proof -
    have rot: "w_rotation w = Some t" "\<forall>q \<in> set (batch_of (w_listener w)). qr_sequence q \<le> t" "t \<le> w_completed_sequence w"
      "\<not> w_recovery_inflight w"
      using ok t by (auto simp: rotation_ok_def wait_done_def)
    have "batch_of (w_listener w) = []"
    proof (rule ccontr)
      assume "batch_of (w_listener w) \<noteq> []"
      then obtain q where q: "q \<in> set (batch_of (w_listener w))" by (cases "batch_of (w_listener w)") auto
      from n(2) [OF q] rot(2,3) q show False by fastforce
    qed
    then have "at_rest (w_listener w)"
      using listener_shape [OF cu] rec rot(4)
      by (cases "w_listener w") (auto simp: at_rest_def recovering_ok_def)
    with ok rot show ?thesis by (simp add: rotation_ok_def sentinel_ok_def custody_def)
  qed
  show "rotation_ok (rotate_wait b w) \<and> sentinel_ok (rotate_wait b w)"
    using ok lift op
    by (cases "w_rotating w") (auto simp: rotate_wait_def wait_for_def result_outcome_def)
  have "rotation_ok (w\<lparr>w_rotation := None, w_rotating := No_Rotation\<rparr>)" by (simp add: rotation_ok_def)
  then show "rotation_ok (rotate_end r w) \<and> sentinel_ok (rotate_end r w)"
    using ok by (cases "w_rotating w"; cases r)
      (auto simp: rotate_end_def Let_def rotation_ok_def sentinel_ok_def custody_def record_failure_def)
qed

text \<open>A listener that is at rest under a running rotation stays so: whatever it holds is beyond the fence.\<close>

lemma rotation_moved:
  assumes ok: "rotation_ok w"
    and keep: "w_rotation w' = w_rotation w" "w_rotating w' = w_rotating w"
      "w_next_sequence w' = w_next_sequence w" "w_completed_sequence w \<le> w_completed_sequence w'"
    and fenced: "\<And>t q. w_rotating w = Fencing t \<Longrightarrow> q \<in> set (batch_of (w_listener w')) \<Longrightarrow> qr_sequence q \<le> t"
    and rest: "\<And>t. w_rotating w = Operating t \<Longrightarrow> at_rest (w_listener w')"
  shows "rotation_ok w'"
  using ok fenced rest by (auto simp: rotation_ok_def keep intro: order_trans [OF _ keep(4)])

lemma write_batch_fields:
  "w_rotation (write_batch now out b p w) = w_rotation w" "w_rotating (write_batch now out b p w) = w_rotating w"
  "w_next_sequence (write_batch now out b p w) = w_next_sequence w"
  "w_completed_sequence w \<le> w_completed_sequence (write_batch now out b p w)"
  "batch_of (w_listener (write_batch now out b p w)) = []"
  "w_state (write_batch now out b p w) = w_state w" "w_queue (write_batch now out b p w) = w_queue w"
  "w_stopping (write_batch now out b p w) = w_stopping w"
  by (auto simp: write_batch_def complete_batch_def record_failure_def Let_def split: option.split)

lemma emit_recovery_fields:
  "w_rotation (emit_recovery now f out s p w) = w_rotation w" "w_rotating (emit_recovery now f out s p w) = w_rotating w"
  "w_next_sequence (emit_recovery now f out s p w) = w_next_sequence w"
  "w_completed_sequence (emit_recovery now f out s p w) = w_completed_sequence w"
  "w_listener (emit_recovery now f out s p w) = L_Fetch p"
  "w_state (emit_recovery now f out s p w) = w_state w" "w_queue (emit_recovery now f out s p w) = w_queue w"
  "w_stopping (emit_recovery now f out s p w) = w_stopping w"
  by (auto simp: emit_recovery_def record_failure_def Let_def split: option.split sum.split)

lemma fence_holds:
  assumes "rotation_ok w" and "\<not> rotation_blocks n w" and "w_rotating w = Fencing t"
  shows "n \<le> t"
  using assms by (auto simp: rotation_ok_def rotation_blocks_def)

lemma fence_closed:
  assumes "rotation_ok w" and "custody_ok c w" and "w_rotating w = Operating t" and "q \<in> set (custody w)"
  shows "rotation_blocks (qr_sequence q) w"
  using assms custody_numbers [OF assms(2,4)] by (auto simp: rotation_ok_def rotation_blocks_def)

lemma rotation_listener:
  assumes ok: "rotation_ok w" and cu: "custody_ok c w"
  shows "rotation_ok (listener_step c e w)"
proof (cases "w_listener w")
  case (L_Fetch p)
  then show ?thesis
    by (cases p; cases "w_queue w" rule: waiting.cases)
       (auto simp: listener_step_def ok at_rest_def intro: rotation_moved [OF ok])
next
  case (L_Fence q)
  then have "q \<in> set (custody w)" by (simp add: custody_def)
  from L_Fence fence_closed [OF ok cu _ this] fence_holds [OF ok] show ?thesis
    by (auto simp: listener_step_def ok intro!: rotation_moved [OF ok])
next
  case (L_Gather b n)
  then have "w_rotating w \<noteq> Operating t" for t using ok by (auto simp: rotation_ok_def at_rest_def)
  moreover have "w_rotating w = Fencing t \<Longrightarrow> q \<in> set b \<Longrightarrow> qr_sequence q \<le> t" for t q
    using ok L_Gather by (auto simp: rotation_ok_def)
  ultimately show ?thesis using L_Gather
    by (cases "w_queue w" rule: waiting.cases)
       (auto simp: listener_step_def intro!: rotation_moved [OF ok])
next
  case (L_Candidate b n q)
  then have "w_rotating w \<noteq> Operating t" for t using ok by (auto simp: rotation_ok_def at_rest_def)
  moreover have "w_rotating w = Fencing t \<Longrightarrow> q \<in> set b \<Longrightarrow> qr_sequence q \<le> t" for t q
    using ok L_Candidate by (auto simp: rotation_ok_def)
  ultimately show ?thesis using L_Candidate fence_holds [OF ok]
    by (auto simp: listener_step_def intro!: rotation_moved [OF ok])
next
  case (L_Write b p)
  then have "w_rotating w \<noteq> Operating t" for t using ok by (auto simp: rotation_ok_def at_rest_def)
  with L_Write show ?thesis
    by (auto simp: listener_step_def write_batch_fields intro!: rotation_moved [OF ok])
next
  case (L_Recover s p)
  then show ?thesis
    by (auto simp: listener_step_def emit_recovery_fields at_rest_def intro!: rotation_moved [OF ok])
qed (simp_all add: listener_step_def ok)

lemma sentinel_moved:
  assumes ok: "sentinel_ok w" and no: "Sentinel \<notin> set (w_queue w)" "w_listener w \<noteq> L_Stopped" "w_state w \<noteq> Halted"
    and keep: "w_state w' = w_state w" "w_stopping w' = w_stopping w" "w_next_sequence w' = w_next_sequence w"
      "set (w_queue w') \<subseteq> set (w_queue w)" "w_listener w' \<noteq> L_Stopped"
  shows "sentinel_ok w'"
  using assms by (auto simp: sentinel_ok_def)

lemma listener_sentinel:
  assumes "sentinel_ok w" and "w_listener w \<noteq> L_Fetch None" and "w_listener w \<noteq> L_Stopped" and "w_listener w \<noteq> L_Not_Started"
  shows "Sentinel \<notin> set (w_queue w)" "w_state w \<noteq> Halted"
  using assms by (auto simp: sentinel_ok_def)

lemma sentinel_listener:
  assumes ok: "sentinel_ok w"
  shows "sentinel_ok (listener_step c e w)"
proof (cases "w_listener w = L_Fetch None")
  case True
  show ?thesis
  proof (cases "w_queue w" rule: waiting.cases)
    case (2 q r)
    then have "Sentinel \<notin> set (w_queue w)" using ok by (auto simp: sentinel_ok_def custody_def)
    with True 2 ok show ?thesis by (auto simp: listener_step_def sentinel_ok_def)
  next
    case (3 r)
    then have "w_state w \<noteq> Running" "custody w = []" using ok by (simp_all add: sentinel_ok_def)
    with True 3 ok show ?thesis by (auto simp: listener_step_def sentinel_ok_def custody_def)
  qed (simp add: listener_step_def True ok)
next
  case notidle: False
  show ?thesis
  proof (cases "w_listener w = L_Stopped \<or> w_listener w = L_Not_Started")
    case True
    then show ?thesis by (auto simp: listener_step_def ok)
  next
    case False
    then have no: "Sentinel \<notin> set (w_queue w)" "w_state w \<noteq> Halted" "w_listener w \<noteq> L_Stopped"
      using listener_sentinel [OF ok notidle] by auto
    note m = sentinel_moved [OF ok no(1,3,2)]
    show ?thesis
      using notidle no(1) False
      by (cases "w_listener w"; cases "w_queue w" rule: waiting.cases)
         (auto simp: listener_step_def write_batch_fields emit_recovery_fields ok
           split: option.splits intro!: m,
          auto simp: write_batch_def record_failure_def complete_batch_def Let_def split: option.splits if_splits)
  qed
qed

definition writer_ok :: "writer_config \<Rightarrow> writer \<Rightarrow> bool" where
  "writer_ok c w \<longleftrightarrow> custody_ok c w \<and> counts_ok w \<and> rotation_ok w \<and> sentinel_ok w"

lemma writer_ok_step:
  assumes "writer_ok c w"
  shows "writer_ok c (writer_step c op w)"
proof -
  from assms have a: "custody_ok c w" "counts_ok w" "rotation_ok w \<and> sentinel_ok w" "recovering_ok w"
    by (simp_all add: writer_ok_def counts_ok_def)
  have "rotation_ok (writer_step c op w) \<and> sentinel_ok (writer_step c op w)"
    using a fences_calls [OF a(3)] fences_shutdown [OF a(3,1,4)] fences_rotation [OF a(3,1,4)]
      rotation_listener [OF _ a(1)] sentinel_listener
    by (cases op) simp_all
  with custody_step [OF a(1)] counts_step [OF a(2,1)] show ?thesis by (simp add: writer_ok_def)
qed

lemma writer_reachable_ok: "writer_reachable c w \<Longrightarrow> writer_ok c w"
  by (induction rule: writer_reachable.induct)
     (simp_all add: writer_ok_step, simp add: writer_ok_def custody_new counts_new fences_new)

end
