(* ===== verification/Event_Size_Properties.thy ===== *)
theory Event_Size_Properties
  imports Event_Size
begin

text \<open>
  The admission pass accepts exactly the records whose line fits, as long as no text holds a
  DEL character; every serialized record is one line.
\<close>

section \<open>Digits\<close>

lemma bit_length_lower: "0 < n \<Longrightarrow> 2 ^ (bit_length n - 1) \<le> n"
proof (induction n rule: bit_length.induct)
  case (1 n)
  show ?case
  proof (cases "n div 2 = 0")
    case True
    with 1 show ?thesis by (simp add: bit_length.simps [of n] bit_length.simps [of 0])
  next
    case False
    with 1 have le: "2 ^ (bit_length (n div 2) - 1) \<le> n div 2" by simp
    from False have pos: "bit_length (n div 2) = Suc (bit_length (n div 2 div 2))"
      by (subst bit_length.simps) (rule if_not_P)
    from 1(2) have "bit_length n - 1 = Suc (bit_length (n div 2) - 1)"
      by (subst bit_length.simps) (simp add: pos)
    then show ?thesis using le by simp
  qed
qed

lemma nat_text_length: "n < 10 ^ length (nat_text n)"
proof (induction n rule: nat_text.induct)
  case (1 n)
  show ?case
  proof (cases "n < 10")
    case True
    then show ?thesis by (subst nat_text.simps) simp
  next
    case False
    with 1 have "n div 10 < 10 ^ length (nat_text (n div 10))" by simp
    with False show ?thesis by (subst nat_text.simps) simp
  qed
qed

lemma pow_643: "(10::nat) ^ 643 \<le> 2 ^ 2136"
  by simp

text \<open>\<open>30103 / 100000\<close> is close enough to the logarithm: the estimate exceeds the number of digits
  by at most two.\<close>

lemma digits_estimate:
  assumes "0 < n" and "length (nat_text n) \<le> MAX_STR_DIGITS"
  shows "bit_length n * 30103 div 100000 \<le> length (nat_text n)"
proof (rule ccontr)
  define b k d where "b = bit_length n" and "k = bit_length n * 30103 div 100000" and "d = length (nat_text n)"
  assume "\<not> bit_length n * 30103 div 100000 \<le> length (nat_text n)"
  then have kd: "d < k" by (simp add: k_def d_def)
  have "(2::nat) ^ (b - 1) \<le> n" unfolding b_def by (rule bit_length_lower [OF assms(1)])
  also have "n < 10 ^ d" unfolding d_def by (rule nat_text_length)
  finally have lt: "(2::nat) ^ (b - 1) < 10 ^ d" .
  have "(10::nat) ^ (643 * d) \<le> 2 ^ (2136 * d)"
    using power_mono [OF pow_643, of d] by (simp only: power_mult zero_le)
  moreover have "((2::nat) ^ (b - 1)) ^ 643 < (10 ^ d) ^ 643" by (rule power_strict_mono [OF lt]) simp_all
  then have "(2::nat) ^ (643 * (b - 1)) < 10 ^ (643 * d)" by (simp only: power_mult [symmetric] mult.commute)
  ultimately have "(2::nat) ^ (643 * (b - 1)) < 2 ^ (2136 * d)" by (rule order.strict_trans2 [rotated])
  then have "643 * (b - 1) < 2136 * d" by (rule power_less_imp_less_exp [rotated]) simp
  moreover have "100000 * k \<le> b * 30103" unfolding k_def b_def by simp
  moreover have "d \<le> 4300" using assms(2) by (simp add: d_def MAX_STR_DIGITS_def)
  ultimately show False using kd by linarith
qed

lemma int_estimate:
  assumes "render_int i = Inr t"
  shows "(if i < 0 then 1 else 0) + digit_upper_bound i \<le> length t + 2"
proof -
  from assms have t: "t = int_text i" and d: "length (nat_text (nat \<bar>i\<bar>)) \<le> MAX_STR_DIGITS"
    by (auto simp: render_int_def split: if_splits)
  have l: "length (int_text i) = (if i < 0 then 1 else 0) + length (nat_text (nat \<bar>i\<bar>))"
    by (simp add: int_text_def)
  show ?thesis
  proof (cases "i = 0")
    case False
    with digits_estimate [OF _ d] show ?thesis by (auto simp: t l digit_upper_bound_def)
  qed (simp add: digit_upper_bound_def)
qed

section \<open>Exactness\<close>

definition exact :: "(size_error + string) \<Rightarrow> (nat \<Rightarrow> size_error + nat) \<Rightarrow> bool" where
  "exact d m \<longleftrightarrow> (\<forall>r r'. m r = Inr r' \<longleftrightarrow> (\<exists>t. d = Inr t \<and> r = length t + r'))"

lemma exact_consume [intro]: "length t = n \<Longrightarrow> exact (Inr t) (budget_consume n)"
  by (auto simp: exact_def budget_consume_def)

lemma exact_nil [intro]: "exact (Inr []) Inr"
  by (auto simp: exact_def)

lemma exact_error [intro]: "exact (Inl e) (\<lambda>r. Inl e')"
  by (simp add: exact_def)

lemma exactD: "exact d m \<Longrightarrow> m r = Inr r' \<longleftrightarrow> (\<exists>t. d = Inr t \<and> r = length t + r')"
  by (simp add: exact_def)

lemma exact_bind:
  assumes "exact d1 m1" and "exact d2 m2"
  shows "exact (rbind d1 (\<lambda>a. rbind d2 (\<lambda>b. Inr (a @ b)))) (\<lambda>r. rbind (m1 r) m2)"
proof (cases d1)
  case (Inl e)
  then show ?thesis by (simp add: exact_def rbind_Inr_iff exactD [OF assms(1)])
next
  case d1: (Inr a)
  show ?thesis
  proof (cases d2)
    case (Inl e)
    with d1 show ?thesis by (simp add: exact_def rbind_Inr_iff exactD [OF assms(2)])
  next
    case (Inr b)
    with d1 show ?thesis
      by (auto simp: exact_def rbind_Inr_iff exactD [OF assms(1)] exactD [OF assms(2)])
  qed
qed

lemma exact_cong: "exact d m \<Longrightarrow> d = d' \<Longrightarrow> (\<And>r. m r = m' r) \<Longrightarrow> exact d' m'"
  by (simp add: exact_def)

text \<open>Texts without the character \<open>0x7F\<close>, which the pass counts as one byte.\<close>

definition del_free_text :: "pystr \<Rightarrow> bool" where "del_free_text s \<longleftrightarrow> list_all (\<lambda>c. c \<noteq> 0x7F) s"

definition del_free_key :: "event_key \<Rightarrow> bool" where
  "del_free_key k \<longleftrightarrow> (case k of KStr s \<Rightarrow> del_free_text s | _ \<Rightarrow> True)"

fun del_free :: "event_value \<Rightarrow> bool"
  and del_free_fields :: "(event_key \<times> event_value) list \<Rightarrow> bool"
  and del_free_items :: "event_value list \<Rightarrow> bool" where
  "del_free (EStr s) = del_free_text s"
| "del_free (EMap kvs) = del_free_fields kvs"
| "del_free (ESeq vs) = del_free_items vs"
| "del_free ENone = True"
| "del_free (EBool b) = True"
| "del_free (EInt i) = True"
| "del_free (EFloat f) = True"
| "del_free EOther = True"
| "del_free_fields [] = True"
| "del_free_fields ((k, v) # kvs) = (del_free_key k \<and> del_free v \<and> del_free_fields kvs)"
| "del_free_items [] = True"
| "del_free_items (v # vs) = (del_free v \<and> del_free_items vs)"

lemma length_escape_code: "c \<noteq> 0x7F \<Longrightarrow> length (escape_code c) = char_cost c"
  by (simp add: escape_code_def char_cost_def hex4_def)

lemma exact_chars: "del_free_text s \<Longrightarrow> exact (Inr (concat (map escape_code s))) (consume_chars s)"
proof (induction s)
  case Nil
  show ?case by (rule exact_cong [OF exact_nil]) simp_all
next
  case (Cons c s)
  then have "exact (Inr (escape_code c)) (budget_consume (char_cost c))"
    "exact (Inr (concat (map escape_code s))) (consume_chars s)"
    by (auto simp: del_free_text_def length_escape_code)
  from exact_bind [OF this] show ?case by (rule exact_cong) simp_all
qed

lemma consume_split: "budget_consume (a + b) r = rbind (budget_consume a r) (budget_consume b)"
  by (auto simp: budget_consume_def)

lemma exact_string: assumes "del_free_text s" shows "exact (Inr (render_text s)) (measure_json_string s)"
  unfolding exact_def
proof (intro allI)
  fix r r'
  have c: "consume_chars s x = Inr r' \<longleftrightarrow> x = length (concat (map escape_code s)) + r'" for x
    using exact_chars [OF assms] by (simp add: exact_def)
  show "measure_json_string s r = Inr r' \<longleftrightarrow> (\<exists>t. Inr (render_text s) = Inr t \<and> r = length t + r')"
    by (auto simp: measure_json_string_def rbind_Inr_iff c budget_consume_def render_text_def)
qed

lemma exact_integer:
  "exact (rbind (render_int i) (\<lambda>t. Inr (if q then quoted t else t))) (measure_json_integer q i)"
  unfolding exact_def
proof (intro allI)
  fix r r'
  show "measure_json_integer q i r = Inr r' \<longleftrightarrow>
    (\<exists>t. rbind (render_int i) (\<lambda>t. Inr (if q then quoted t else t)) = Inr t \<and> r = length t + r')"
  proof (cases "render_int i")
    case (Inr t)
    from int_estimate [OF this] Inr show ?thesis
      by (auto simp: measure_json_integer_def budget_consume_def quoted_def)
  qed (simp add: measure_json_integer_def)
qed

lemma exact_float: "exact (Inr (if q then quoted (render_float f) else render_float f)) (measure_json_float q f)"
proof -
  have l: "length (if q then quoted (render_float f) else render_float f) =
    (case f of Not_A_Number \<Rightarrow> 3 | Negative_Inf \<Rightarrow> 9 | Positive_Inf \<Rightarrow> 8 | Finite_Repr t \<Rightarrow> length t) + (if q then 2 else 0)"
    by (simp add: render_float_def quoted_def split: pyfloat.splits)
  show ?thesis using exact_consume [OF l] by (simp add: exact_def measure_json_float_def)
qed

lemma exact_key: assumes "del_free_key k" shows "exact (render_key k) (measure_json_key k)"
proof (cases k)
  case (KStr s)
  with assms exact_string [of s] show ?thesis
    by (auto simp: del_free_key_def render_key_def measure_json_key_def intro: exact_cong)
next
  case (KInt i)
  from exact_integer [of i True] KInt show ?thesis
    by (auto simp: render_key_def measure_json_key_def intro: exact_cong)
next
  case (KFloat f)
  from exact_float [of True f] KFloat show ?thesis
    by (auto simp: render_key_def measure_json_key_def intro: exact_cong)
next
  case KNone
  have "exact (Inr (quoted ''null'')) (budget_consume 6)" by (rule exact_consume) (simp add: quoted_def)
  with KNone show ?thesis by (simp add: exact_def render_key_def measure_json_key_def)
next
  case (KBool b)
  have "exact (Inr (quoted (if b then ''true'' else ''false''))) (budget_consume (if b then 6 else 7))"
    by (rule exact_consume) (simp add: quoted_def)
  with KBool show ?thesis by (simp add: exact_def render_key_def measure_json_key_def)
next
  case KOther
  then show ?thesis by (auto simp: render_key_def measure_json_key_def intro: exact_cong [OF exact_error])
qed

lemma exact_separator:
  "exact (Inr (if first then [] else '','')) (\<lambda>r. if first then Inr r else budget_consume 1 r)"
  by (auto simp: exact_def budget_consume_def)

lemma exact_char: "exact (Inr [c]) (budget_consume 1)"
  by (rule exact_consume) simp

lemma exact_brackets:
  assumes "exact d m"
  shows "exact (rbind d (\<lambda>t. Inr ([a] @ t @ [b]))) (\<lambda>r. rbind (budget_consume 1 r) (\<lambda>r. rbind (m r) (budget_consume 1)))"
  by (rule exact_cong [OF exact_bind [OF exact_char exact_bind [OF assms exact_char [of b]]]])
     (cases d; simp)+

lemma exact_field:
  assumes "exact dk mk" and "exact dv mv" and "exact dr mr"
  shows "exact (rbind dk (\<lambda>kt. rbind dv (\<lambda>vt. rbind dr (\<lambda>r.
             Inr ((if first then [] else '','') @ kt @ '':'' @ vt @ r)))))
           (\<lambda>r. rbind (if first then Inr r else budget_consume 1 r) (\<lambda>r. rbind (mk r) (\<lambda>r.
             rbind (budget_consume 1 r) (\<lambda>r. rbind (mv r) mr))))"
proof (rule exact_cong)
  show "exact (rbind (Inr (if first then [] else '','')) (\<lambda>a. rbind (rbind dk (\<lambda>a. rbind (rbind (Inr '':'') (\<lambda>a.
          rbind (rbind dv (\<lambda>a. rbind dr (\<lambda>b. Inr (a @ b)))) (\<lambda>b. Inr (a @ b)))) (\<lambda>b. Inr (a @ b)))) (\<lambda>b. Inr (a @ b))))
        (\<lambda>r. rbind (if first then Inr r else budget_consume 1 r) (\<lambda>r. rbind (mk r) (\<lambda>r.
          rbind (budget_consume 1 r) (\<lambda>r. rbind (mv r) mr))))"
    by (rule exact_bind [OF exact_separator exact_bind [OF assms(1) exact_bind [OF exact_char exact_bind [OF assms(2,3)]]]])
qed (cases dk; cases dv; cases dr; simp)+

lemma exact_item:
  assumes "exact dv mv" and "exact dr mr"
  shows "exact (rbind dv (\<lambda>vt. rbind dr (\<lambda>r. Inr ((if first then [] else '','') @ vt @ r))))
           (\<lambda>r. rbind (if first then Inr r else budget_consume 1 r) (\<lambda>r. rbind (mv r) mr))"
  by (rule exact_cong [OF exact_bind [OF exact_separator exact_bind [OF assms]]]) (cases dv; cases dr; simp)+

lemma exact_values:
  "del_free v \<longrightarrow> exact (render_value v) (measure_json_value v)"
  "del_free_fields kvs \<longrightarrow> (\<forall>first. exact (render_fields first kvs) (measure_json_fields first kvs))"
  "del_free_items vs \<longrightarrow> (\<forall>first. exact (render_items first vs) (measure_json_items first vs))"
proof (induction v and kvs and vs rule: del_free_del_free_fields_del_free_items.induct)
  case (1 s)
  then show ?case using exact_string [of s] by (simp add: exact_def)
next
  case (2 kvs)
  have "exact (render_value (EMap kvs)) (measure_json_value (EMap kvs))" if "del_free_fields kvs"
  proof -
    have "exact (render_fields True kvs) (measure_json_fields True kvs)" using 2 that by simp
    from exact_brackets [OF this] show ?thesis by (rule exact_cong) simp_all
  qed
  then show ?case unfolding del_free.simps by blast
next
  case (3 vs)
  have "exact (render_value (ESeq vs)) (measure_json_value (ESeq vs))" if "del_free_items vs"
  proof -
    have "exact (render_items True vs) (measure_json_items True vs)" using 3 that by simp
    from exact_brackets [OF this] show ?thesis by (rule exact_cong) simp_all
  qed
  then show ?case unfolding del_free.simps by blast
next
  case 4
  have "exact (Inr ''null'') (budget_consume 4)" by (rule exact_consume) simp
  then show ?case by (simp add: exact_def)
next
  case (5 b)
  have "exact (Inr (if b then ''true'' else ''false'')) (budget_consume (if b then 4 else 5))"
    by (rule exact_consume) simp
  then show ?case by (simp add: exact_def)
next
  case (6 i)
  have "rbind (render_int i) (\<lambda>t. Inr t) = render_int i" by (cases "render_int i") simp_all
  then show ?case using exact_integer [of i False] by (simp add: exact_def)
next
  case (7 f)
  then show ?case using exact_float [of False f] by (simp add: exact_def)
next
  case 8
  show ?case by (simp add: exact_def)
next
  case 9
  show ?case by (simp add: exact_def)
next
  case (10 k v kvs)
  have "exact (render_fields first ((k, v) # kvs)) (measure_json_fields first ((k, v) # kvs))"
    if "del_free_fields ((k, v) # kvs)" for first
  proof -
    have "exact (render_key k) (measure_json_key k)" "exact (render_value v) (measure_json_value v)"
      "exact (render_fields False kvs) (measure_json_fields False kvs)"
      using 10 that by (simp_all add: exact_key)
    from exact_field [OF this, of first] show ?thesis by (rule exact_cong) simp_all
  qed
  then show ?case by blast
next
  case 11
  show ?case by (simp add: exact_def)
next
  case (12 v vs)
  have "exact (render_items first (v # vs)) (measure_json_items first (v # vs))"
    if "del_free_items (v # vs)" for first
  proof -
    have "exact (render_value v) (measure_json_value v)"
      "exact (render_items False vs) (measure_json_items False vs)" using 12 that by simp_all
    from exact_item [OF this, of first] show ?thesis by (rule exact_cong) simp_all
  qed
  then show ?case by blast
qed

lemma render_map_length: "render_value (EMap kvs) = Inr t \<Longrightarrow> 2 \<le> length t"
  by (auto simp: rbind_Inr_iff)

text \<open>C31: The admission pass is exact: a record without DEL characters is admitted if and only if it
  can be serialized and its line, newline included, fits in the bound.  The estimate of the digits
  of an integer refuses none that would fit.\<close>
theorem admission_exact:
  assumes "del_free_fields record"
  shows "admit_record_size record max_bytes = Inr () \<longleftrightarrow>
    (\<exists>data. serialize_record None record = Inr data \<and> length data \<le> max_bytes)"
proof -
  have e: "measure_json_value (EMap record) r = Inr r' \<longleftrightarrow>
      (\<exists>t. render_value (EMap record) = Inr t \<and> r = length t + r')" for r r'
    using exact_values(1) [of "EMap record"] assms exactD by (metis del_free.simps(2))
  have "admit_record_size record max_bytes = Inr () \<longleftrightarrow>
      3 \<le> max_bytes \<and> (\<exists>r' t. render_value (EMap record) = Inr t \<and> max_bytes - 1 = length t + r')"
    by (simp add: admit_record_size_def rbind_Inr_iff e del: render_value.simps measure_json_value.simps)
  also have "\<dots> \<longleftrightarrow> (\<exists>t. render_value (EMap record) = Inr t \<and> length t + 1 \<le> max_bytes)"
  proof (intro iffI; elim conjE exE)
    fix r' t assume "3 \<le> max_bytes" "render_value (EMap record) = Inr t" "max_bytes - 1 = length t + r'"
    then show "\<exists>t. render_value (EMap record) = Inr t \<and> length t + 1 \<le> max_bytes"
      by (intro exI [of _ t]) simp
  next
    fix t assume t: "render_value (EMap record) = Inr t" and l: "length t + 1 \<le> max_bytes"
    from render_map_length [OF t] l t
    show "3 \<le> max_bytes \<and> (\<exists>r' t. render_value (EMap record) = Inr t \<and> max_bytes - 1 = length t + r')"
      by (intro conjI exI [of _ "max_bytes - 1 - length t"] exI [of _ t]) simp_all
  qed
  also have "\<dots> \<longleftrightarrow> (\<exists>data. serialize_record None record = Inr data \<and> length data \<le> max_bytes)"
    by (auto simp: serialize_record_def rbind_Inr_iff Let_def simp del: render_value.simps)
  finally show ?thesis .
qed

text \<open>The pass is not exact on DEL: it counts the character as one byte although the serializer
  writes it as the six bytes of a unicode escape, so a record is admitted whose line does not fit.
  Only the check after the serialization refuses it.\<close>
theorem admission_undercounts_del:
  "\<exists>record data. admit_record_size record 10 = Inr () \<and> serialize_record None record = Inr data
     \<and> 10 < length data \<and> serialize_record (Some 10) record = Inl Record_Too_Large"
proof -
  let ?entry = "[(KStr [0x61], EStr [0x7F])]"
  have e: "length (escape_code 0x61) = 1" "length (escape_code 0x7F) = 6"
    by (simp_all add: escape_code_def hex4_def)
  have a: "admit_record_size ?entry 10 = Inr ()"
    by (simp add: admit_record_size_def measure_json_key_def measure_json_string_def char_cost_def budget_consume_def)
  obtain data where d: "render_value (EMap ?entry) = Inr data" "length data = 14"
    by (simp add: render_key_def render_text_def e)
  with a show ?thesis
    by (intro exI [of _ ?entry] exI [of _ "data @ [LF]"])
       (simp add: serialize_record_def Let_def del: render_value.simps)
qed

lemma serialized_bound: "serialize_record (Some m) record = Inr data \<Longrightarrow> length data \<le> m"
  by (auto simp: serialize_record_def rbind_Inr_iff Let_def simp del: render_value.simps split: if_splits)

theorem admission_exact_witness:
  "admit_record_size [(KStr [0x61], EInt 5)] 8 = Inr () \<longleftrightarrow>
    (\<exists>data. serialize_record None [(KStr [0x61], EInt 5)] = Inr data \<and> length data \<le> 8)"
  by (rule admission_exact) (simp add: del_free_key_def del_free_text_def)

end
