(* ===== verification/Event_Writer_Properties.thy ===== *)
theory Event_Writer_Properties
  imports Event_Writer_Invariant Event_Size_Properties
begin

text \<open>
  The queue is bounded and first in, first out; every offered record is written, dropped and
  counted, or still in custody; every drop is reported; nothing is written while a rotation
  operation runs; the sentinel is never lost.
\<close>

section \<open>What the writer promises\<close>

text \<open>C28: The queue is bounded: under every interleaving the records and bytes the writer holds, the
  batch being written included, stay within the configured bounds, and the status reports exactly
  what it holds.\<close>
theorem writer_bounded:
  assumes "writer_reachable c w"
  shows "ws_queued_records (status w) \<le> wc_max_records c \<and> ws_queued_bytes (status w) \<le> wc_max_bytes c
    \<and> ws_queued_records (status w) = length (custody w)
    \<and> ws_queued_bytes (status w) = sum_list (map queued_bytes (custody w))"
  using writer_reachable_ok [OF assms] by (simp add: writer_ok_def custody_ok_def status_def)

text \<open>C2: No record disappears: every record offered to \<open>enqueue\<close> is written, held, still in its
  call, or counted as dropped; and every dropped record was refused after the shutdown, reported
  in a recovery event, or is pending to be reported.\<close>
theorem no_record_disappears:
  assumes "writer_reachable c w"
  shows "gh_offered w = w_written w + w_dropped w + length (custody w) + length (gh_calls w)
    \<and> w_dropped w = gh_refused w
        + sum_list (map rc_overflow_records (gh_reported w)) + rc_overflow_records (w_recovery w)
        + sum_list (map rc_failed_records (gh_reported w)) + rc_failed_records (w_recovery w)"
  using writer_reachable_ok [OF assms]
  by (simp add: writer_ok_def custody_ok_def counts_ok_def conserved_def accounted_def reported_def)

text \<open>C22: First in, first out: the lines the sink took are accepted lines in the order of acceptance,
  none twice; the lines still held are exactly the accepted lines after the last completed one.\<close>
theorem first_in_first_out:
  assumes "writer_reachable c w"
  shows "subseq (event_lines (gh_log w)) (take (w_completed_sequence w) (gh_history w))
    \<and> map qr_data (custody w) = drop (w_completed_sequence w) (gh_history w)
    \<and> w_written w = length (event_lines (gh_log w)) \<and> w_accepted w = length (gh_history w)"
  using writer_reachable_ok [OF assms] by (simp add: writer_ok_def custody_ok_def)

text \<open>While a rotation operation runs the sink is untouched: whatever the listener does next, it
  appends nothing, and all records it holds are newer than the fence.\<close>
theorem rotation_is_exclusive:
  assumes "writer_reachable c w" and "w_rotating w = Operating target"
  shows "gh_log (listener_step c e w) = gh_log w
    \<and> (\<forall>q \<in> set (custody w). target < qr_sequence q)"
proof
  from writer_reachable_ok [OF assms(1)] assms(2)
  have ok: "custody_ok c w" "at_rest (w_listener w)" "target \<le> w_completed_sequence w"
    by (simp_all add: writer_ok_def rotation_ok_def)
  then show "\<forall>q \<in> set (custody w). target < qr_sequence q"
    using custody_numbers [OF ok(1)] by fastforce
  from ok(2) show "gh_log (listener_step c e w) = gh_log w"
    by (auto simp: listener_step_def at_rest_def split: listener.splits option.splits list.splits queue_item.splits)
qed

text \<open>The sentinel is never swallowed by a batch: when it is in the queue nothing is held any more
  and the very next step of a running listener stops it.\<close>
theorem sentinel_stops_listener:
  assumes "writer_reachable c w" and "Sentinel \<in> set (w_queue w)"
  shows "custody w = [] \<and> w_listener (listener_step c e w) = L_Stopped"
proof -
  from writer_reachable_ok [OF assms(1)] assms(2)
  have ok: "custody w = []" "w_listener w = L_Fetch None \<or> w_listener w = L_Stopped"
    by (simp_all add: writer_ok_def sentinel_ok_def)
  then have "waiting (w_queue w) = []" by (simp add: custody_def)
  with assms(2) ok show ?thesis
    by (cases "w_queue w" rule: waiting.cases) (auto simp: listener_step_def)
qed

section \<open>Progress\<close>

text \<open>The steps the listener has left.\<close>

fun item_work :: "queue_item \<Rightarrow> nat" where
  "item_work (Queued q) = 6"
| "item_work Sentinel = 1"

fun hand_work :: "listener \<Rightarrow> nat" where
  "hand_work (L_Fetch p) = (if p = None then 0 else 5)"
| "hand_work (L_Fence q) = 4"
| "hand_work (L_Gather b n) = 3"
| "hand_work (L_Candidate b n q) = 8"
| "hand_work (L_Write b p) = 2 + (if p = None then 0 else 5)"
| "hand_work (L_Recover s p) = 1 + (if p = None then 0 else 5)"
| "hand_work _ = 0"

definition listener_work :: "writer \<Rightarrow> nat" where
  "listener_work w = hand_work (w_listener w) + sum_list (map item_work (w_queue w))"

lemma write_batch_work: "hand_work (w_listener (write_batch now out b p w)) < hand_work (L_Write b p)"
  by (auto simp: write_batch_def Let_def split: option.split)

lemma listener_work_decreases:
  assumes "w_rotation w = None" and "listener_work w \<noteq> 0" and "w_listener w \<noteq> L_Stopped" and "w_listener w \<noteq> L_Not_Started"
  shows "listener_work (listener_step c e w) < listener_work w"
proof (cases "w_listener w")
  case (L_Fetch p)
  with assms show ?thesis
    by (cases p; cases "w_queue w" rule: waiting.cases) (auto simp: listener_step_def listener_work_def)
next
  case (L_Gather b n)
  then show ?thesis
    by (cases "w_queue w" rule: waiting.cases) (auto simp: listener_step_def listener_work_def)
next
  case (L_Write b p)
  then show ?thesis
    using write_batch_work [of "se_now e" "se_sink e" b p w]
    by (simp add: listener_step_def listener_work_def write_batch_fields)
next
  case (L_Recover s p)
  then show ?thesis by (simp add: listener_step_def listener_work_def emit_recovery_fields)
qed (use assms in \<open>auto simp: listener_step_def listener_work_def rotation_blocks_def\<close>)

lemma listener_started:
  "w_listener w \<noteq> L_Not_Started \<Longrightarrow> w_listener (listener_step c e w) \<noteq> L_Not_Started"
  by (auto simp: listener_step_def write_batch_def emit_recovery_def Let_def
      split: listener.splits option.splits list.splits queue_item.splits sum.splits)

lemma listener_keeps:
  "w_rotation (listener_step c e w) = w_rotation w" "w_next_sequence (listener_step c e w) = w_next_sequence w"
  by (auto simp: listener_step_def write_batch_fields emit_recovery_fields
      split: listener.splits option.splits list.splits queue_item.splits)

lemma no_work_done:
  assumes ok: "writer_ok c w" and "listener_work w = 0 \<or> w_listener w = L_Stopped" and "w_listener w \<noteq> L_Not_Started"
  shows "wait_done (w_next_sequence w - 1) w"
proof -
  have cu: "custody_ok c w" and rec: "recovering_ok w" and s: "sentinel_ok w"
    using ok by (simp_all add: writer_ok_def counts_ok_def)
  have e: "custody w = []"
  proof (cases "w_listener w = L_Stopped")
    case False
    with assms(2) have z: "hand_work (w_listener w) = 0" "sum_list (map item_work (w_queue w)) = 0"
      by (simp_all add: listener_work_def)
    have "waiting (w_queue w) = []" using z(2) by (cases "w_queue w" rule: waiting.cases) simp_all
    with z(1) False show ?thesis by (cases "w_listener w") (auto simp: custody_def split: if_splits)
  qed (use s in \<open>simp add: sentinel_ok_def\<close>)
  have "\<not> w_recovery_inflight w"
    using assms(2,3) rec by (auto simp: recovering_ok_def listener_work_def)
  with e custody_empty [OF cu] show ?thesis by (simp add: wait_done_def)
qed

lemma idle_stays:
  assumes "writer_ok c w" and "w_listener w = L_Stopped \<or> listener_work w = 0" and "w_listener w \<noteq> L_Not_Started"
  shows "listener_step c e w = w"
proof (cases "w_listener w = L_Stopped")
  case False
  with assms(2) have "hand_work (w_listener w) = 0" "sum_list (map item_work (w_queue w)) = 0"
    by (simp_all add: listener_work_def)
  then have "w_listener w = L_Fetch None" using False assms(3) by (cases "w_listener w") (auto split: if_splits)
  moreover have "w_queue w = []"
    using \<open>sum_list (map item_work (w_queue w)) = 0\<close> by (cases "w_queue w" rule: waiting.cases) simp_all
  ultimately show ?thesis by (simp add: listener_step_def)
qed (simp add: listener_step_def)

lemma listener_drains:
  assumes "writer_ok c w" and "w_rotation w = None" and "w_listener w \<noteq> L_Not_Started" and "listener_work w \<le> length es"
  shows "wait_done (w_next_sequence w - 1) (fold (listener_step c) es w)"
  using assms
proof (induction es arbitrary: w)
  case Nil
  then show ?case using no_work_done by simp
next
  case (Cons e es)
  show ?case
  proof (cases "w_listener w = L_Stopped \<or> listener_work w = 0")
    case True
    from idle_stays [OF Cons.prems(1) True Cons.prems(3)] have step: "listener_step c x w = w" for x .
    then have "fold (listener_step c) xs w = w" for xs by (induction xs) simp_all
    with step no_work_done [OF Cons.prems(1) _ Cons.prems(3)] True show ?thesis by auto
  next
    case False
    then have "listener_work (listener_step c e w) < listener_work w"
      using Cons.prems by (intro listener_work_decreases) auto
    moreover have "writer_ok c (listener_step c e w)"
      using writer_ok_step [OF Cons.prems(1), of "Listener e"] by simp
    ultimately show ?thesis
      using Cons.prems Cons.IH [of "listener_step c e w"] by (simp add: listener_keeps listener_started)
  qed
qed

text \<open>C34: A flush completes: without a rotation fence, a started listener that is left alone finishes
  every record accepted before the flush within \<open>listener_work\<close> steps, whether or not the sink and
  the recovery factory fail, and the wait of the flush is then over.\<close>
theorem flush_completes:
  assumes "writer_reachable c w" and "w_rotation w = None" and "w_listener w \<noteq> L_Not_Started"
    and "listener_work w \<le> length es"
  shows "wait_for (flush_target w) False (fold (listener_step c) es w) \<noteq> None"
  using listener_drains [OF writer_reachable_ok [OF assms(1)] assms(2-4)]
  by (simp add: wait_for_def flush_target_def)

section \<open>Ownership of a sink\<close>

text \<open>A claimed sink has no other writer that is not halted.\<close>

lemma claim_exclusive:
  assumes "claim_sink_ownership weak sink me state_of owners = Inr owners'"
  shows "owner_of weak sink owners' = Some me
    \<and> (\<forall>other. owner_of weak sink owners = Some other \<longrightarrow> state_of other = Halted)"
  using assms by (auto simp: claim_sink_ownership_def owner_of_def dict_simps split: option.splits if_splits)

lemma release_other: "owner_of weak sink owners \<noteq> Some me \<Longrightarrow> release_sink_ownership weak sink me owners = owners"
  by (simp add: release_sink_ownership_def)

section \<open>Witnesses\<close>

definition demo_config :: writer_config where
  "demo_config = \<lparr>wc_max_records = 2, wc_max_bytes = 30, wc_batch_max_records = 2, wc_batch_max_bytes = 20\<rparr>"

definition demo_env :: step_env where
  "demo_env = \<lparr>se_now = 1, se_sink = None, se_factory = default_recovery_record\<rparr>"

text \<open>Two records are offered, one of them is fenced off by a rotation that runs its operation.\<close>

definition demo_ops :: "writer_op list" where
  "demo_ops = [Begin_Call [], End_Call 1 0, Listener demo_env, Listener demo_env, Listener demo_env, Rotate_Begin,
     Listener demo_env, Rotate_Wait False, Begin_Call [], End_Call 2 0]"

definition demo_writer :: writer where "demo_writer = fold (writer_step demo_config) demo_ops (new_writer None)"

definition demo_stop :: writer where
  "demo_stop = fold (writer_step demo_config) [Shutdown_Begin, Shutdown_Stop 0] (new_writer None)"

lemma fold_reachable: "writer_reachable c w \<Longrightarrow> writer_reachable c (fold (writer_step c) ops w)"
  by (induction ops arbitrary: w) (simp_all add: writer_stepped)

lemma demo_writer_reachable: "writer_reachable demo_config demo_writer" "writer_reachable demo_config demo_stop"
  unfolding demo_writer_def demo_stop_def
  by (rule fold_reachable, rule writer_created, simp add: check_config_def demo_config_def require_def)+

lemma serialize_empty: "serialize_record (Some 30) [] = Inr [CHR ''{'', CHR ''}'', LF]"
proof -
  have a: "admit_record_size [] 30 = Inr ()" by (simp add: admit_record_size_def budget_consume_def)
  have b: "render_value (EMap []) = Inr ''{}''" by simp
  show ?thesis unfolding serialize_record_def option.case a b rbind.simps Let_def by simp
qed

lemma demo_writer_value:
  "demo_writer = (fresh_writer (L_Fetch None) 1)
     \<lparr>w_pending_records := 1, w_pending_bytes := 3, w_next_sequence := 3, w_completed_sequence := 1,
      w_accepted := 2, w_written := 1, w_rotation := Some 1,
      w_queue := [Queued \<lparr>qr_sequence = 2, qr_data = [CHR ''{'', CHR ''}'', LF]\<rparr>],
      w_rotating := Operating 1, gh_offered := 2, gh_history := [[CHR ''{'', CHR ''}'', LF], [CHR ''{'', CHR ''}'', LF]],
      gh_log := [Event_Line [CHR ''{'', CHR ''}'', LF]]\<rparr>"
  by (simp add: demo_writer_def demo_ops_def new_writer_def fresh_writer_def begin_call_def enqueue_admit_def Let_def
      demo_config_def end_call_def enqueue_serialized_def serialize_empty enqueue_commit_def listener_step_def demo_env_def
      rotation_blocks_def write_batch_def complete_batch_def no_recovery_def has_data_def rotate_begin_def rotate_wait_def
      wait_for_def wait_done_def result_outcome_def)

lemma demo_stop_value: "w_queue demo_stop = [Sentinel]"
  by (simp add: demo_stop_def new_writer_def fresh_writer_def shutdown_begin_def shutdown_stop_def Let_def wait_done_def)

theorem writer_bounded_witness: "ws_queued_records (status demo_writer) \<le> 2 \<and> ws_queued_bytes (status demo_writer) \<le> 30"
  using writer_bounded [OF demo_writer_reachable(1)] by (simp add: demo_config_def)

theorem no_record_disappears_witness:
  "gh_offered demo_writer = w_written demo_writer + w_dropped demo_writer + length (custody demo_writer) + length (gh_calls demo_writer)"
  using no_record_disappears [OF demo_writer_reachable(1)] by blast

theorem first_in_first_out_witness:
  "subseq (event_lines (gh_log demo_writer)) (take (w_completed_sequence demo_writer) (gh_history demo_writer))"
  using first_in_first_out [OF demo_writer_reachable(1)] by blast

theorem rotation_is_exclusive_witness:
  "gh_log (listener_step demo_config demo_env demo_writer) = gh_log demo_writer \<and> custody demo_writer \<noteq> []"
proof -
  have "w_rotating demo_writer = Operating 1" "custody demo_writer \<noteq> []"
    by (simp_all add: demo_writer_value fresh_writer_def custody_def)
  with rotation_is_exclusive [OF demo_writer_reachable(1) this(1)] show ?thesis by blast
qed

theorem sentinel_stops_listener_witness: "w_listener (listener_step demo_config demo_env demo_stop) = L_Stopped"
  using sentinel_stops_listener [OF demo_writer_reachable(2)] demo_stop_value by simp

definition demo_queue :: writer where
  "demo_queue = fold (writer_step demo_config) [Begin_Call [], End_Call 1 0] (new_writer None)"

lemma demo_queue_facts: "writer_reachable demo_config demo_queue" "w_rotation demo_queue = None"
  "w_listener demo_queue = L_Fetch None" "listener_work demo_queue = 6" "flush_target demo_queue = 1"
proof -
  show "writer_reachable demo_config demo_queue"
    unfolding demo_queue_def
    by (rule fold_reachable, rule writer_created) (simp add: check_config_def demo_config_def require_def)
qed (simp_all add: demo_queue_def new_writer_def fresh_writer_def begin_call_def enqueue_admit_def Let_def
      demo_config_def end_call_def enqueue_serialized_def serialize_empty enqueue_commit_def listener_work_def flush_target_def)

theorem flush_completes_witness:
  "wait_for 1 False (fold (listener_step demo_config) (replicate 6 demo_env) demo_queue) \<noteq> None"
  using flush_completes [OF demo_queue_facts(1,2), of "replicate 6 demo_env"] by (simp add: demo_queue_facts)

end
