(* ===== verification/Jsonl_Sink.thy ===== *)
theory Jsonl_Sink
  imports Event_Size
begin

text \<open>
  \<open>JsonlFileSink\<close> of \<open>src-python/bounded_event_writer.py\<close>: appending complete JSONL records to a
  file after cutting off a partial last line.

  The file is its bytes.  What the operating system does (opening, how much one \<open>write\<close> takes,
  what reached the file when it fails) is an input of \<open>append\<close>.
\<close>

section \<open>The file\<close>

definition TAIL_SCAN_BYTES :: nat where "TAIL_SCAN_BYTES = 64 * 1024"

fun rfind :: "char \<Rightarrow> bytes \<Rightarrow> nat option" where
  "rfind c [] = None"
| "rfind c (x # xs) =
     (case rfind c xs of Some n \<Rightarrow> Some (Suc n) | None \<Rightarrow> (if x = c then Some 0 else None))"

text \<open>The loop of \<open>_repair_partial_tail\<close>: the file is searched backwards, one window at a time.\<close>

function last_newline :: "nat \<Rightarrow> bytes \<Rightarrow> nat \<Rightarrow> nat option" where
  "last_newline window content cursor =
     (if cursor = 0 \<or> window = 0 then None
      else (let start = cursor - window;
                chunk = take (cursor - start) (drop start content)
            in case rfind LF chunk of
                 Some n \<Rightarrow> Some (start + n)
               | None \<Rightarrow> last_newline window content start))"
  by pat_completeness auto
termination by (relation "measure (\<lambda>(w, f, c). c)") auto

declare last_newline.simps [simp del]

definition repair_with :: "nat \<Rightarrow> bytes \<Rightarrow> bytes" where
  "repair_with window content =
     (if content = [] then content
      else if last content = LF then content
      else case last_newline window content (length content) of
             Some n \<Rightarrow> take (n + 1) content
           | None \<Rightarrow> [])"

definition repair_partial_tail :: "bytes \<Rightarrow> bytes" where
  "repair_partial_tail = repair_with TAIL_SCAN_BYTES"

section \<open>Writing\<close>

text \<open>One \<open>handle.write\<close>: the number it returns, a value that is no positive number, or an exception
  after some bytes.\<close>

datatype write_result = Wrote nat | No_Progress | Write_Raised nat

text \<open>The bytes the handle took and whether \<open>_write_all\<close> returned.  When the given results are used
  up the handle takes the rest at once.\<close>

fun write_all :: "write_result list \<Rightarrow> bytes \<Rightarrow> bytes \<times> bool" where
  "write_all rs [] = ([], True)"
| "write_all [] payload = (payload, True)"
| "write_all (Wrote n # rs) payload =
     (if n = 0 then ([], False)
      else (let rest = write_all rs (drop n payload) in (take n payload @ fst rest, snd rest)))"
| "write_all (No_Progress # rs) payload = ([], False)"
| "write_all (Write_Raised n # rs) payload = (take n payload, False)"

record append_env =
  ae_open_fails :: bool
  ae_repair_fails :: bool
  ae_writes :: "write_result list"
  ae_flush_fails :: bool
  ae_reached :: nat

datatype append_result = Appended | Record_Rejected | Append_Failed

definition one_line :: "bytes \<Rightarrow> bool" where
  "one_line record \<longleftrightarrow> record \<noteq> [] \<and> last record = LF \<and> LF \<notin> set (butlast record)"

definition sink_append :: "append_env \<Rightarrow> bytes list \<Rightarrow> bytes \<Rightarrow> append_result \<times> bytes" where
  "sink_append e records content =
     (if records = [] then (Appended, content)
      else if \<not> list_all one_line records then (Record_Rejected, content)
      else if ae_open_fails e \<or> ae_repair_fails e then (Append_Failed, content)
      else (let repaired = repair_partial_tail content;
                (taken, returned) = write_all (ae_writes e) (concat records)
            in if returned \<and> \<not> ae_flush_fails e then (Appended, repaired @ taken)
               else (Append_Failed, repaired @ take (ae_reached e) taken)))"

section \<open>The interface of a sink\<close>

text \<open>What the writer relies on: a sink holds records; a successful append adds exactly the given
  records, a failed one adds a prefix of them.\<close>

locale event_sink =
  fixes append :: "'env \<Rightarrow> bytes list \<Rightarrow> 's \<Rightarrow> append_result \<times> 's"
    and records_of :: "'s \<Rightarrow> bytes list"
  assumes append_ok: "list_all one_line rs \<Longrightarrow> append e rs s = (Appended, s') \<Longrightarrow>
      records_of s' = records_of s @ rs"
    and append_fails: "list_all one_line rs \<Longrightarrow> append e rs s = (Append_Failed, s') \<Longrightarrow>
      \<exists>k. records_of s' = records_of s @ take k rs"
    and append_total: "list_all one_line rs \<Longrightarrow> fst (append e rs s) \<noteq> Record_Rejected"
begin

fun run :: "('env \<times> bytes list) list \<Rightarrow> 's \<Rightarrow> 's" where
  "run [] s = s"
| "run ((e, rs) # batches) s = run batches (snd (append e rs s))"

fun taken :: "('env \<times> bytes list) list \<Rightarrow> 's \<Rightarrow> bytes list" where
  "taken [] s = []"
| "taken ((e, rs) # batches) s =
     (if fst (append e rs s) = Appended then rs else []) @ taken batches (snd (append e rs s))"

lemma append_adds:
  assumes "list_all one_line rs"
  obtains k where "records_of (snd (append e rs s)) = records_of s @ take k rs"
    and "fst (append e rs s) = Appended \<Longrightarrow> take k rs = rs"
proof -
  obtain r s' where a: "append e rs s = (r, s')" by (cases "append e rs s")
  show thesis
  proof (cases r)
    case Appended
    with append_ok [OF assms] a have "records_of s' = records_of s @ take (length rs) rs" by simp
    with a that [of "length rs"] show ?thesis by simp
  next
    case Record_Rejected
    with append_total [OF assms, of e s] a show ?thesis by simp
  next
    case Append_Failed
    with append_fails [OF assms] a obtain k where "records_of s' = records_of s @ take k rs" by blast
    with a Append_Failed that [of k] show ?thesis by simp
  qed
qed

text \<open>Whatever fails on the way, the sink gains a subsequence of the offered records, in order, that
  contains every batch whose append succeeded.\<close>

lemma run_keeps_order:
  assumes "\<forall>(e, rs) \<in> set batches. list_all one_line rs"
  shows "\<exists>added. records_of (run batches s) = records_of s @ added
    \<and> subseq added (concat (map snd batches)) \<and> subseq (taken batches s) added"
  using assms
proof (induction batches arbitrary: s)
  case (Cons b batches)
  obtain e rs where b: "b = (e, rs)" by (cases b)
  with Cons.prems have rs: "list_all one_line rs" by simp
  obtain k where k: "records_of (snd (append e rs s)) = records_of s @ take k rs"
    "fst (append e rs s) = Appended \<Longrightarrow> take k rs = rs" using append_adds [OF rs] by blast
  from Cons.IH [of "snd (append e rs s)"] Cons.prems obtain added where
    a: "records_of (run batches (snd (append e rs s))) = records_of s @ take k rs @ added"
      "subseq added (concat (map snd batches))" "subseq (taken batches (snd (append e rs s))) added"
    using k(1) by auto
  have "subseq (take k rs) rs" by (metis append_take_drop_id subseq_order.refl subseq_rev_drop_many list_emb_append2 subseq_drop_many prefix_imp_subseq take_is_prefix)
  then have "subseq (take k rs @ added) (rs @ concat (map snd batches))"
    by (intro list_emb_append_mono a(2))
  moreover have "subseq (if fst (append e rs s) = Appended then rs else []) (take k rs)" using k(2) by auto
  then have "subseq (taken (b # batches) s) (take k rs @ added)"
    unfolding b taken.simps by (intro list_emb_append_mono a(3))
  ultimately show ?case using a(1) b by (intro exI [of _ "take k rs @ added"]) simp
qed simp

end

end
