(* ===== verification/Jsonl_Sink_Properties.thy ===== *)
theory Jsonl_Sink_Properties
  imports Jsonl_Sink
begin

text \<open>
  The JSONL file implements the sink: seen as its complete lines, a successful append adds the
  records and a failed one a prefix of them, whatever reached the file.
\<close>

section \<open>The complete lines of a file\<close>

fun lines_aux :: "bytes \<Rightarrow> bytes \<Rightarrow> bytes list" where
  "lines_aux acc [] = []"
| "lines_aux acc (c # cs) = (if c = LF then (acc @ [c]) # lines_aux [] cs else lines_aux (acc @ [c]) cs)"

definition complete_lines :: "bytes \<Rightarrow> bytes list" where "complete_lines = lines_aux []"

lemma lines_aux_line: "LF \<notin> set u \<Longrightarrow> lines_aux acc (u @ LF # t) = (acc @ u @ [LF]) # lines_aux [] t"
  by (induction u arbitrary: acc) auto

lemma lines_aux_tail: "LF \<notin> set u \<Longrightarrow> lines_aux acc u = []"
  by (induction u arbitrary: acc) auto

lemma one_lineE:
  assumes "one_line r"
  obtains u where "r = u @ [LF]" "LF \<notin> set u"
  using assms append_butlast_last_id [of r] by (metis one_line_def)

lemma complete_lines_records: "list_all one_line rs \<Longrightarrow> complete_lines (concat rs @ t) = rs @ complete_lines t"
proof (induction rs)
  case (Cons r rs)
  then obtain u where "r = u @ [LF]" "LF \<notin> set u" by (auto elim: one_lineE)
  with Cons lines_aux_line [of u "[]" "concat rs @ t"] show ?case by (simp add: complete_lines_def)
qed simp

lemma file_split:
  obtains rs tail where "content = concat rs @ tail" "list_all one_line rs" "LF \<notin> set tail"
proof (induction content arbitrary: thesis rule: length_induct)
  case (1 content)
  show ?case
  proof (cases "LF \<in> set content")
    case False
    then show ?thesis by (intro "1.prems" [of "[]" content]) simp_all
  next
    case True
    then obtain u t where s: "content = u @ LF # t" "LF \<notin> set u" by (meson split_list_first)
    with "1.IH" obtain rs tail where "t = concat rs @ tail" "list_all one_line rs" "LF \<notin> set tail"
      by (metis add_Suc_right length_Cons length_append less_add_Suc2)
    moreover have "one_line (u @ [LF])" using s(2) by (simp add: one_line_def)
    ultimately show ?thesis using s by (intro "1.prems" [of "(u @ [LF]) # rs" tail]) simp_all
  qed
qed

lemma complete_lines_split:
  "list_all one_line rs \<Longrightarrow> LF \<notin> set tail \<Longrightarrow> complete_lines (concat rs @ tail) = rs"
  by (simp add: complete_lines_records) (simp add: complete_lines_def lines_aux_tail)

section \<open>Repairing the tail\<close>

lemma rfind_append: "rfind c (xs @ ys) = (case rfind c ys of Some n \<Rightarrow> Some (length xs + n) | None \<Rightarrow> rfind c xs)"
  by (induction xs) (auto split: option.split)

lemma rfind_None: "c \<notin> set xs \<Longrightarrow> rfind c xs = None"
  by (induction xs) auto

lemma last_newline_rfind:
  "0 < window \<Longrightarrow> cursor \<le> length content \<Longrightarrow> last_newline window content cursor = rfind LF (take cursor content)"
proof (induction window content cursor rule: last_newline.induct)
  case (1 window content cursor)
  show ?case
  proof (cases "cursor = 0")
    case True
    then show ?thesis by (simp add: last_newline.simps [of window content 0])
  next
    case False
    define start where "start = cursor - window"
    have s: "take cursor content = take start content @ take (cursor - start) (drop start content)"
      by (simp add: start_def take_add [symmetric])
    have l: "length (take start content) = start" using 1(3) by (simp add: start_def)
    have e: "last_newline window content cursor =
      (case rfind LF (take (cursor - start) (drop start content)) of Some n \<Rightarrow> Some (start + n)
       | None \<Rightarrow> last_newline window content start)"
      unfolding start_def using False 1(2) by (subst last_newline.simps) (simp add: Let_def)
    have "last_newline window content start = rfind LF (take start content)"
      if "rfind LF (take (cursor - start) (drop start content)) = None"
      using 1(1) [of start "take (cursor - start) (drop start content)"] 1(2,3) False that by (simp add: start_def)
    with e s l show ?thesis by (auto simp: rfind_append split: option.split)
  qed
qed

lemma repair_lines: "0 < window \<Longrightarrow> repair_with window content = concat (complete_lines content)"
proof -
  assume w: "0 < window"
  obtain rs tail where s: "content = concat rs @ tail" "list_all one_line rs" "LF \<notin> set tail" by (rule file_split)
  then have lines: "complete_lines content = rs" using complete_lines_split by blast
  show ?thesis
  proof (cases "tail = []")
    case True
    have "rs = [] \<or> last content = LF"
    proof (cases rs rule: rev_cases)
      case (snoc rs' r)
      with s True show ?thesis by (auto simp: one_line_def)
    qed simp
    with s True lines show ?thesis by (auto simp: repair_with_def)
  next
    case False
    then have l: "content \<noteq> []" "last content \<noteq> LF" using s(1,3) by (auto simp: last_append) (metis last_in_set)
    have f: "last_newline window content (length content) = rfind LF (concat rs)"
      using last_newline_rfind [OF w, of "length content" content] s rfind_None [OF s(3)]
      by (simp add: rfind_append)
    show ?thesis
    proof (cases rs rule: rev_cases)
      case Nil
      with f l lines show ?thesis by (simp add: repair_with_def)
    next
      case (snoc rs' r)
      with s(2) obtain u where u: "r = u @ [LF]" by (auto elim: one_lineE)
      with snoc have "rfind LF (concat rs) = Some (length (concat rs) - 1)" by (simp add: rfind_append)
      moreover have "take (length (concat rs) - 1 + 1) content = concat rs" using s(1) snoc u by simp
      ultimately show ?thesis using f l lines by (simp add: repair_with_def)
    qed
  qed
qed

text \<open>The backward search for the last newline, window by window, cuts off exactly the partial last
  line: whatever the window, what remains are the complete lines of the file.\<close>
theorem repair_keeps_complete_lines:
  "repair_partial_tail content = concat (complete_lines content)"
  unfolding repair_partial_tail_def by (rule repair_lines) (simp add: TAIL_SCAN_BYTES_def)

lemma repaired: "repair_partial_tail content = concat (complete_lines content)"
  unfolding repair_partial_tail_def by (rule repair_lines) (simp add: TAIL_SCAN_BYTES_def)

section \<open>Appending\<close>

lemma write_all_prefix: "prefix (fst (write_all rs payload)) payload"
proof (induction rs payload rule: write_all.induct)
  case (3 n rs c cs)
  show ?case
  proof (cases "n = 0")
    case False
    with 3 have "prefix (take n (c # cs) @ fst (write_all rs (drop n (c # cs)))) (take n (c # cs) @ drop n (c # cs))"
      unfolding same_prefix_prefix by simp
    with False show ?thesis unfolding append_take_drop_id by (simp add: Let_def)
  qed simp
qed (simp_all add: take_is_prefix)

lemma write_all_returns: "snd (write_all rs payload) \<Longrightarrow> fst (write_all rs payload) = payload"
proof (induction rs payload rule: write_all.induct)
  case (3 n rs c cs)
  then show ?case by (cases "n = 0") (auto simp: Let_def)
qed simp_all

lemma complete_lines_prefix:
  "list_all one_line rs \<Longrightarrow> prefix p (concat rs) \<Longrightarrow> \<exists>k. complete_lines p = take k rs"
proof (induction rs arbitrary: p)
  case Nil
  then show ?case by (simp add: complete_lines_def)
next
  case (Cons r rs)
  then obtain u where u: "r = u @ [LF]" "LF \<notin> set u" by (auto elim: one_lineE)
  from Cons.prems(2) consider "prefix p u" | q where "p = r @ q" "prefix q (concat rs)"
    unfolding u(1) by (auto simp: prefix_append prefix_Cons)
  then show ?case
  proof cases
    case 1
    with u(2) have "LF \<notin> set p" by (meson in_mono set_mono_prefix)
    then show ?thesis by (intro exI [of _ 0]) (simp add: complete_lines_def lines_aux_tail)
  next
    case 2
    from Cons.IH [OF _ 2(2)] Cons.prems(1) obtain k where "complete_lines q = take k rs" by auto
    with 2(1) complete_lines_records [of "[r]" q] Cons.prems(1) show ?thesis
      by (intro exI [of _ "Suc k"]) simp
  qed
qed

lemma complete_lines_lines: "list_all one_line (complete_lines content)"
  by (metis complete_lines_split file_split)

lemma appended_lines:
  assumes "list_all one_line rs" and "prefix p (concat rs)"
  shows "\<exists>k. complete_lines (repair_partial_tail content @ p) = complete_lines content @ take k rs"
  unfolding repaired complete_lines_records [OF complete_lines_lines]
  using complete_lines_prefix [OF assms] by simp

lemma sink_append_cases:
  assumes "list_all one_line rs"
  obtains (unchanged) "snd (sink_append e rs content) = content" "fst (sink_append e rs content) = Append_Failed \<or> rs = [] \<and> fst (sink_append e rs content) = Appended"
  | (appended) "sink_append e rs content = (Appended, repair_partial_tail content @ concat rs)"
  | (failed) p where "sink_append e rs content = (Append_Failed, repair_partial_tail content @ p)" "prefix p (concat rs)"
proof -
  obtain taken returned where w: "write_all (ae_writes e) (concat rs) = (taken, returned)"
    by (cases "write_all (ae_writes e) (concat rs)")
  then have p: "prefix taken (concat rs)" "returned \<Longrightarrow> taken = concat rs"
    using write_all_prefix [of "ae_writes e" "concat rs"] write_all_returns [of "ae_writes e" "concat rs"] by simp_all
  show thesis
  proof (cases "rs = [] \<or> ae_open_fails e \<or> ae_repair_fails e")
    case True
    with assms show ?thesis by (intro unchanged) (auto simp: sink_append_def)
  next
    case False
    show ?thesis
    proof (cases "returned \<and> \<not> ae_flush_fails e")
      case True
      with False assms w p(2) show ?thesis by (intro appended) (simp add: sink_append_def)
    next
      case no: False
      have "prefix (take (ae_reached e) taken) (concat rs)" using p(1) take_is_prefix prefix_order.trans by blast
      moreover have "sink_append e rs content = (Append_Failed, repair_partial_tail content @ take (ae_reached e) taken)"
        using False no assms w by (auto simp: sink_append_def)
      ultimately show ?thesis by (intro failed)
    qed
  qed
qed

interpretation jsonl: event_sink sink_append complete_lines
proof
  fix rs e content content'
  assume rs: "list_all one_line rs" and a: "sink_append e rs content = (Appended, content')"
  show "complete_lines content' = complete_lines content @ rs"
  proof (cases rule: sink_append_cases [OF rs, of e content])
    case 2
    with a have "content' = concat (complete_lines content @ rs) @ []" by (simp add: repaired)
    with rs complete_lines_split [of "complete_lines content @ rs" "[]"] show ?thesis
      by (simp add: complete_lines_lines)
  qed (use a in auto)
next
  fix rs e content content'
  assume rs: "list_all one_line rs" and a: "sink_append e rs content = (Append_Failed, content')"
  show "\<exists>k. complete_lines content' = complete_lines content @ take k rs"
  proof (cases rule: sink_append_cases [OF rs, of e content])
    case 1
    with a show ?thesis by (intro exI [of _ 0]) simp
  next
    case (3 p)
    with a appended_lines [OF rs 3(2), of content] show ?thesis by simp
  qed (use a in auto)
next
  fix rs e content
  assume rs: "list_all one_line rs"
  show "fst (sink_append e rs content) \<noteq> Record_Rejected"
    by (cases rule: sink_append_cases [OF rs, of e content]) auto
qed

text \<open>C18: The file is a log of whole records: after any sequence of appends, each of which may fail at any
  byte, the complete lines of the file are those it had followed by offered records in their
  order, none cut or doubled, among them every batch whose append returned normally.\<close>
theorem jsonl_log_of_records:
  assumes "\<forall>(e, rs) \<in> set batches. list_all one_line rs"
  shows "\<exists>added. complete_lines (jsonl.run batches content) = complete_lines content @ added
    \<and> subseq added (concat (map snd batches)) \<and> subseq (jsonl.taken batches content) added"
  by (rule jsonl.run_keeps_order [OF assms])

section \<open>Every serialized record is one line\<close>

lemma hex_digit_not_LF: "n < 16 \<Longrightarrow> hex_digit n \<noteq> LF"
proof -
  assume "n < 16"
  then have "(of_char (hex_digit n) :: nat) \<noteq> of_char LF" by (auto simp: hex_digit_def of_char_small)
  then show ?thesis by metis
qed

lemma hex4_no_newline: "LF \<notin> set (hex4 n)"
proof -
  have "LF \<noteq> hex_digit (m mod 16)" for m using hex_digit_not_LF [of "m mod 16"] by auto
  then show ?thesis unfolding hex4_def list.set insert_iff empty_iff by blast
qed

lemma printable_not_LF: "0x20 \<le> n \<Longrightarrow> n \<le> 0x7E \<Longrightarrow> LF \<noteq> char_of (n::nat)"
proof -
  assume "0x20 \<le> n" "n \<le> 0x7E"
  then have "(of_char (char_of n :: char) :: nat) \<noteq> of_char LF" by (simp add: of_char_small)
  then show ?thesis by metis
qed

lemma escape_code_no_newline: "LF \<notin> set (escape_code n)"
  by (simp add: escape_code_def hex4_no_newline printable_not_LF)

lemma nat_text_no_newline: "LF \<notin> set (nat_text n)"
proof (induction n rule: nat_text.induct)
  case (1 n)
  have d: "m < 10 \<Longrightarrow> LF \<noteq> char_of (48 + m)" for m :: nat by (rule printable_not_LF) simp_all
  show ?case
  proof (cases "n < 10")
    case True
    with d show ?thesis by (subst nat_text.simps) simp
  next
    case False
    have "LF \<noteq> char_of (48 + n mod 10)" by (rule d) simp
    with False 1 show ?thesis by (subst nat_text.simps) simp
  qed
qed

text \<open>A float's \<open>repr\<close> has no newline.\<close>

definition plain_float :: "pyfloat \<Rightarrow> bool" where
  "plain_float f \<longleftrightarrow> (case f of Finite_Repr r \<Rightarrow> LF \<notin> set r | _ \<Rightarrow> True)"

definition plain_key :: "event_key \<Rightarrow> bool" where
  "plain_key k \<longleftrightarrow> (case k of KFloat f \<Rightarrow> plain_float f | _ \<Rightarrow> True)"

fun plain_value :: "event_value \<Rightarrow> bool"
  and plain_fields :: "(event_key \<times> event_value) list \<Rightarrow> bool"
  and plain_items :: "event_value list \<Rightarrow> bool" where
  "plain_value (EFloat f) = plain_float f"
| "plain_value (EMap kvs) = plain_fields kvs"
| "plain_value (ESeq vs) = plain_items vs"
| "plain_value _ = True"
| "plain_fields [] = True"
| "plain_fields ((k, v) # kvs) = (plain_key k \<and> plain_value v \<and> plain_fields kvs)"
| "plain_items [] = True"
| "plain_items (v # vs) = (plain_value v \<and> plain_items vs)"

definition lineless :: "size_error + string \<Rightarrow> bool" where
  "lineless r \<longleftrightarrow> (\<forall>t. r = Inr t \<longrightarrow> LF \<notin> set t)"

lemma lineless_simps [simp]: "lineless (Inl e)" "lineless (Inr t) = (LF \<notin> set t)"
  by (simp_all add: lineless_def)

lemma lineless_bind: "lineless (rbind m f) \<longleftrightarrow> (\<forall>a. m = Inr a \<longrightarrow> lineless (f a))"
  by (cases m) simp_all

lemma render_text_lineless: "LF \<notin> set (render_text s)"
  by (auto simp: render_text_def escape_code_no_newline)

lemma render_int_lineless: "lineless (render_int i)"
  by (auto simp: render_int_def int_text_def nat_text_no_newline)

lemma render_float_lineless: "plain_float f \<Longrightarrow> LF \<notin> set (render_float f)"
  by (auto simp: plain_float_def render_float_def split: pyfloat.splits)

lemma render_key_lineless: "plain_key k \<Longrightarrow> lineless (render_key k)"
  using render_int_lineless
  by (cases k) (auto simp: plain_key_def render_key_def render_text_lineless quoted_def render_float_lineless rbind_Inr_iff
      lineless_def split: if_splits)

lemma render_lineless:
  "plain_value v \<longrightarrow> lineless (render_value v)"
  "plain_fields kvs \<longrightarrow> (\<forall>first. lineless (render_fields first kvs))"
  "plain_items vs \<longrightarrow> (\<forall>first. lineless (render_items first vs))"
proof (induction v and kvs and vs rule: plain_value_plain_fields_plain_items.induct)
  case (6 k v kvs)
  then show ?case using render_key_lineless [of k] by (auto simp: rbind_Inr_iff lineless_def)
next
  case (8 v vs)
  then show ?case by (auto simp: rbind_Inr_iff lineless_def)
qed (auto simp: render_float_lineless render_text_lineless rbind_Inr_iff lineless_def
    dest: render_int_lineless [unfolded lineless_def, rule_format])

lemma serialized_one_line:
  assumes "plain_fields record" and "serialize_record m record = Inr data"
  shows "one_line data"
proof -
  from assms(2) obtain body where t: "render_value (EMap record) = Inr body" "data = body @ [LF]"
    by (auto simp: serialize_record_def rbind_Inr_iff Let_def simp del: render_value.simps split: if_splits)
  with render_lineless(1) [of "EMap record"] assms(1) have "LF \<notin> set body" by (simp add: lineless_def del: render_value.simps)
  with t(2) show ?thesis by (simp add: one_line_def)
qed

text \<open>C35: The writer and its file fit: whatever records are serialized, the file never refuses their
  lines, and a batch of them that was appended is read back as the next lines of the file.\<close>
theorem serialized_batch_is_read_back:
  assumes "\<forall>r \<in> set records. plain_fields r"
    and "map (serialize_record m) records = map Inr batch"
  shows "fst (sink_append e batch content) \<noteq> Record_Rejected
    \<and> (fst (sink_append e batch content) = Appended
        \<longrightarrow> complete_lines (snd (sink_append e batch content)) = complete_lines content @ batch)"
proof -
  have "list_all one_line batch"
    using assms
  proof (induction records arbitrary: batch)
    case (Cons r records)
    then show ?case by (cases batch) (auto intro: serialized_one_line)
  qed simp
  from jsonl.append_total [OF this] jsonl.append_ok [OF this] show ?thesis by (metis prod.collapse)
qed

section \<open>Witnesses\<close>

definition demo_append :: append_env where
  "demo_append = \<lparr>ae_open_fails = False, ae_repair_fails = False, ae_writes = [Wrote 1, Write_Raised 2],
     ae_flush_fails = False, ae_reached = 3\<rparr>"

theorem jsonl_log_of_records_witness:
  "\<exists>added. complete_lines (jsonl.run [(demo_append, [[CHR ''a'', LF], [CHR ''b'', LF]])] ''x'') = complete_lines ''x'' @ added
     \<and> subseq added [[CHR ''a'', LF], [CHR ''b'', LF]]"
  using jsonl_log_of_records [of "[(demo_append, [[CHR ''a'', LF], [CHR ''b'', LF]])]" "''x''"]
  by (auto simp: one_line_def)

theorem serialized_batch_is_read_back_witness:
  "fst (sink_append demo_append [[CHR ''{'', CHR ''}'', LF]] ''x'') \<noteq> Record_Rejected"
  using serialized_batch_is_read_back [of "[[]]" None "[[CHR ''{'', CHR ''}'', LF]]" demo_append "''x''"]
  by (simp add: serialize_record_def Let_def)

end
