(* ===== verification/Action.thy ===== *)
theory Action
  imports Prelude
begin

text \<open>
  Methods of a stateful object: an action raises an error or returns a value, and leaves the object
  as it then is.  The rules \<open>action_ok\<close> say when an action returns, the elimination rules take a
  returning sequence of actions apart.
\<close>

type_synonym ('s, 'e, 'a) action = "'s \<Rightarrow> ('e + 'a) \<times> 's"

definition ret :: "'a \<Rightarrow> ('s, 'e, 'a) action" where "ret a s = (Inr a, s)"

definition bind :: "('s, 'e, 'a) action \<Rightarrow> ('a \<Rightarrow> ('s, 'e, 'b) action) \<Rightarrow> ('s, 'e, 'b) action" where
  "bind m f s = (case m s of (Inl e, s') \<Rightarrow> (Inl e, s') | (Inr a, s') \<Rightarrow> f a s')"

definition change :: "('s \<Rightarrow> 's) \<Rightarrow> ('s, 'e, unit) action" where "change f s = (Inr (), f s)"

definition lift_result :: "'e + 'a \<Rightarrow> ('s, 'e, 'a) action" where "lift_result r s = (r, s)"

named_theorems action_ok \<open>when an action returns normally\<close>

lemma bind_ok [action_ok]: "bind m f s = (Inr b, s'') \<longleftrightarrow> (\<exists>a s'. m s = (Inr a, s') \<and> f a s' = (Inr b, s''))"
  by (auto simp: bind_def split: prod.splits sum.splits)

lemma ret_ok [action_ok]: "ret a s = (Inr b, s') \<longleftrightarrow> b = a \<and> s' = s"
  by (auto simp: ret_def)

lemma change_ok [action_ok]: "change f s = (Inr u, s') \<longleftrightarrow> s' = f s"
  by (auto simp: change_def)

lemma lift_result_ok [action_ok]: "lift_result r s = (Inr a, s') \<longleftrightarrow> r = Inr a \<and> s' = s"
  by (auto simp: lift_result_def)

lemma bindE:
  assumes "bind m f s = (Inr b, s'')"
  obtains a s' where "m s = (Inr a, s')" "f a s' = (Inr b, s'')"
  using assms by (auto simp: bind_ok)

lemma bind_changeE:
  assumes "bind (change g) f s = (Inr b, s'')"
  obtains "f () (g s) = (Inr b, s'')"
  using assms by (auto elim!: bindE simp: change_ok)

lemma bind_liftE:
  assumes "bind (lift_result r) f s = (Inr b, s'')"
  obtains a where "r = Inr a" "f a s = (Inr b, s'')"
  using assms by (auto elim!: bindE simp: lift_result_ok)

lemma bind_step: "m s = (Inr a, s1) \<Longrightarrow> bind m f s = f a s1"
  by (simp add: bind_def)

lemma bind_ret: "bind (ret a) f s = f a s"
  by (simp add: bind_def ret_def)

lemma bind_change: "bind (change g) f s = f () (g s)"
  by (simp add: bind_def change_def)

lemma bind_lift: "bind (lift_result (Inr a)) f s = f a s"
  by (simp add: bind_def lift_result_def)

end
