(* ===== verification/Apply_Patch.thy ===== *)
theory Apply_Patch
  imports Py_Json Action
begin

text \<open>
  \<open>src-python/apply_patch_adapter.py\<close>: third-party function calls of \<open>apply_patch\<close> are shown to the
  client as custom tool calls whose input is the bare patch, in response bodies and in streams,
  and the client's history is turned back into function calls.

  Items and events are JSON objects.  A rejection is \<open>Failure\<close> with its reason; \<open>Type_Error\<close> is the
  \<open>TypeError\<close> Python raises when a list or a dictionary is looked up in a set, which nothing in the
  module catches.  The telemetry the module writes is a list of events.
\<close>

section \<open>Constants and checks\<close>

datatype adapter_error = Failure string | Type_Error

definition APPLY_PATCH_FUNCTION_NAME :: string where "APPLY_PATCH_FUNCTION_NAME = ''apply_patch''"

definition APPLY_PATCH_FUNCTION_CALL_FIELDS :: "string list" where
  "APPLY_PATCH_FUNCTION_CALL_FIELDS = [''id'', ''type'', ''status'', ''call_id'', ''name'', ''arguments'']"

definition CUSTOM_TOOL_HISTORY_CALL_FIELDS :: "string list" where
  "CUSTOM_TOOL_HISTORY_CALL_FIELDS = [''type'', ''status'', ''call_id'', ''name'', ''input'']"

definition CUSTOM_TOOL_HISTORY_OUTPUT_FIELDS :: "string list" where
  "CUSTOM_TOOL_HISTORY_OUTPUT_FIELDS = [''type'', ''call_id'', ''output'']"

definition CUSTOM_TOOL_HISTORY_NATIVE_FIELDS :: "string list" where
  "CUSTOM_TOOL_HISTORY_NATIVE_FIELDS = [''id'']"

definition TERMINAL_EVENT_TYPES :: "string list" where
  "TERMINAL_EVENT_TYPES = [''response.completed'', ''response.failed'', ''response.incomplete'', ''error'']"

definition is_call_of :: "string \<Rightarrow> json \<Rightarrow> bool" where
  "is_call_of item_type item =
     (case json_object item of
        None \<Rightarrow> False
      | Some d \<Rightarrow> text_field d ''type'' = Some item_type
                  \<and> text_field d ''name'' = Some APPLY_PATCH_FUNCTION_NAME)"

definition is_function_call :: "json \<Rightarrow> bool" where
  "is_function_call = is_call_of ''function_call''"

definition is_custom_tool_call :: "json \<Rightarrow> bool" where
  "is_custom_tool_call = is_call_of ''custom_tool_call''"

definition fields_are :: "obj \<Rightarrow> string list \<Rightarrow> bool" where
  "fields_are item names \<longleftrightarrow>
     list_all (\<lambda>k. List.member names k) (map fst item) \<and> list_all (\<lambda>k. dict_has item k) names"

definition require_exact_fields :: "obj \<Rightarrow> string option \<Rightarrow> adapter_error + unit" where
  "require_exact_fields item expected_status =
     (if \<not> fields_are item APPLY_PATCH_FUNCTION_CALL_FIELDS
      then Inl (Failure ''function_call_fields_not_exact'')
      else case dict_get item ''status'' of
             None \<Rightarrow> Inr ()
           | Some st \<Rightarrow>
               (if \<not> hashable st then Inl Type_Error
                else if st \<noteq> JStr ''in_progress'' \<and> st \<noteq> JStr ''completed''
                then Inl (Failure ''function_call_status_not_supported'')
                else (case expected_status of
                        None \<Rightarrow> Inr ()
                      | Some e \<Rightarrow> (if st \<noteq> JStr e then Inl (Failure ''function_call_status_not_expected'')
                                  else Inr ()))))"

section \<open>Arguments\<close>

definition argument_hooks :: "string json_hooks" where
  "argument_hooks =
     \<lparr>h_object = (\<lambda>kvs. if distinct (map fst kvs) then Inr (JObj kvs) else Inl ''duplicate_argument_key''),
      h_float = (\<lambda>t. Inr (JFloat t)), h_constant = (\<lambda>t. Inl ''invalid_arguments'')\<rparr>"

definition parse_arguments :: "string \<Rightarrow> adapter_error + json" where
  "parse_arguments s =
     (case loads_with argument_hooks s of
        Inr v \<Rightarrow> Inr v
      | Inl (Json_Hook r) \<Rightarrow> Inl (Failure r)
      | Inl _ \<Rightarrow> Inl (Failure ''invalid_arguments''))"

definition patch_of :: "json \<Rightarrow> adapter_error + string" where
  "patch_of parsed =
     (case json_object parsed of
        None \<Rightarrow> Inl (Failure ''arguments_not_exact'')
      | Some d \<Rightarrow>
          (if \<not> fields_are d [''patch''] then Inl (Failure ''arguments_not_exact'')
           else case text_field d ''patch'' of
                  None \<Rightarrow> Inl (Failure ''patch_not_string'')
                | Some patch \<Rightarrow>
                    (if str_strip patch = [] then Inl (Failure ''patch_empty'') else Inr patch)))"

definition arguments_text_and_input :: "json option \<Rightarrow> adapter_error + string \<times> string" where
  "arguments_text_and_input arguments =
     (case arguments of
        Some (JObj d) \<Rightarrow> rbind (patch_of (JObj d)) (\<lambda>patch. Inr (dumps (JObj d), patch))
      | Some (JStr s) \<Rightarrow>
          rbind (parse_arguments s) (\<lambda>parsed. rbind (patch_of parsed) (\<lambda>patch. Inr (s, patch)))
      | _ \<Rightarrow> Inl (Failure ''missing_arguments''))"

definition item_identity :: "obj \<Rightarrow> adapter_error + string \<times> string" where
  "item_identity item =
     (case (non_empty_str (dict_get item ''id''), non_empty_str (dict_get item ''call_id'')) of
        (None, _) \<Rightarrow> Inl (Failure ''missing_item_id'')
      | (Some i, None) \<Rightarrow> Inl (Failure ''missing_call_id'')
      | (Some i, Some c) \<Rightarrow> Inr (i, c))"

definition custom_apply_patch_item :: "obj \<Rightarrow> string \<Rightarrow> obj" where
  "custom_apply_patch_item item patch =
     dict_pop (dict_set (dict_set item ''type'' (JStr ''custom_tool_call'')) ''input'' (JStr patch)) ''arguments''"

section \<open>History\<close>

datatype telemetry =
    Adapter_Event string string nat "string option"
  | History_Event string nat

definition exact_history_fields :: "obj \<Rightarrow> string list \<Rightarrow> bool" where
  "exact_history_fields item required \<longleftrightarrow>
     fields_are item required
     \<or> (fields_are item (required @ CUSTOM_TOOL_HISTORY_NATIVE_FIELDS)
        \<and> non_empty_str (dict_get item ''id'') \<noteq> None)"

record history =
  hs_rewritten :: "json list"
  hs_pending :: "string list"
  hs_adapted_ids :: "string list"
  hs_foreign :: "string list"
  hs_unmatched :: "string list"
  hs_native :: "string list"
  hs_adapted :: nat
  hs_untouched :: nat

definition empty_history :: history where
  "empty_history = \<lparr>hs_rewritten = [], hs_pending = [], hs_adapted_ids = [], hs_foreign = [],
     hs_unmatched = [], hs_native = [], hs_adapted = 0, hs_untouched = 0\<rparr>"

definition HISTORY_REJECTED :: adapter_error where "HISTORY_REJECTED = Failure ''history''"

definition history_call_item :: "obj \<Rightarrow> string \<Rightarrow> string \<Rightarrow> json" where
  "history_call_item item call_id patch =
     JObj ([(''type'', JStr ''function_call'')]
       @ (case text_field item ''id'' of None \<Rightarrow> [] | Some i \<Rightarrow> [(''id'', JStr i)])
       @ [(''call_id'', JStr call_id), (''name'', JStr APPLY_PATCH_FUNCTION_NAME),
          (''arguments'', JStr (dumps (JObj [(''patch'', JStr patch)])))])"

definition history_call :: "obj \<Rightarrow> history \<Rightarrow> adapter_error + history" where
  "history_call item h =
     (case (text_field item ''call_id'', text_field item ''input'') of
        (Some call_id, Some patch) \<Rightarrow>
          (if \<not> exact_history_fields item CUSTOM_TOOL_HISTORY_CALL_FIELDS
              \<or> text_field item ''status'' \<noteq> Some ''completed''
              \<or> call_id = [] \<or> str_strip patch = []
              \<or> List.member (hs_pending h) call_id \<or> List.member (hs_adapted_ids h) call_id
              \<or> List.member (hs_foreign h) call_id \<or> List.member (hs_unmatched h) call_id
           then Inl HISTORY_REJECTED
           else Inr (h\<lparr>hs_pending := call_id # hs_pending h,
                       hs_adapted_ids := call_id # hs_adapted_ids h,
                       hs_rewritten := hs_rewritten h @ [history_call_item item call_id patch],
                       hs_adapted := hs_adapted h + 1\<rparr>))
      | _ \<Rightarrow> Inl HISTORY_REJECTED)"

definition keep_item :: "json \<Rightarrow> history \<Rightarrow> history" where
  "keep_item raw h = h\<lparr>hs_rewritten := hs_rewritten h @ [raw]\<rparr>"

definition history_output :: "obj \<Rightarrow> history \<Rightarrow> adapter_error + history" where
  "history_output item h =
     (case text_field item ''call_id'' of
        None \<Rightarrow> Inr (keep_item (JObj item) h)
      | Some call_id \<Rightarrow>
          (if List.member (hs_pending h) call_id then
             (if \<not> exact_history_fields item CUSTOM_TOOL_HISTORY_OUTPUT_FIELDS then Inl HISTORY_REJECTED
              else Inr (keep_item
                (JObj [(''type'', JStr ''function_call_output''), (''call_id'', JStr call_id),
                       (''output'', (case dict_get item ''output'' of None \<Rightarrow> JNull | Some v \<Rightarrow> v))])
                (h\<lparr>hs_pending := removeAll call_id (hs_pending h)\<rparr>)))
           else if List.member (hs_adapted_ids h) call_id then Inl HISTORY_REJECTED
           else Inr (keep_item (JObj item) (h\<lparr>hs_unmatched := call_id # hs_unmatched h\<rparr>))))"

definition history_other :: "obj \<Rightarrow> history \<Rightarrow> adapter_error + history" where
  "history_other item h =
     (if (case text_field item ''call_id'' of None \<Rightarrow> False | Some c \<Rightarrow> List.member (hs_adapted_ids h) c)
      then Inl HISTORY_REJECTED
      else (let foreign = (case non_empty_str (dict_get item ''call_id'') of
                             None \<Rightarrow> hs_foreign h | Some c \<Rightarrow> c # hs_foreign h);
                kind = text_field item ''type''
            in Inr (keep_item (JObj item)
                 (if kind = Some ''function_call'' \<or> kind = Some ''function_call_output''
                  then h\<lparr>hs_foreign := foreign\<rparr>
                  else if kind = Some ''custom_tool_call''
                  then h\<lparr>hs_foreign := foreign, hs_untouched := hs_untouched h + 1\<rparr>
                  else h))))"

definition history_item :: "json \<Rightarrow> history \<Rightarrow> adapter_error + history" where
  "history_item raw h =
     (case json_object raw of
        None \<Rightarrow> Inr (keep_item raw h)
      | Some item \<Rightarrow>
          (if \<not> hashable (case dict_get item ''type'' of None \<Rightarrow> JNull | Some v \<Rightarrow> v) then Inl Type_Error
           else
             (let kind = text_field item ''type'';
                  native = (if kind = Some ''custom_tool_call'' \<or> kind = Some ''custom_tool_call_output''
                            then text_field item ''id'' else None)
              in if (case native of None \<Rightarrow> False | Some i \<Rightarrow> List.member (hs_native h) i)
                 then Inl HISTORY_REJECTED
                 else
                   (let h1 = (case native of None \<Rightarrow> h | Some i \<Rightarrow> h\<lparr>hs_native := i # hs_native h\<rparr>)
                    in if is_custom_tool_call raw then history_call item h1
                       else if kind = Some ''custom_tool_call_output'' then history_output item h1
                       else history_other item h1))))"

fun history_items :: "json list \<Rightarrow> history \<Rightarrow> adapter_error + history" where
  "history_items [] h = Inr h"
| "history_items (v # vs) h = rbind (history_item v h) (history_items vs)"

text \<open>The rewritten items, the adapted call ids, whether anything was adapted, and the telemetry; a
  rejection writes one event of its own.\<close>

definition adapt_custom_tool_history ::
  "bool \<Rightarrow> json list \<Rightarrow> (adapter_error + json list \<times> string list \<times> bool) \<times> telemetry list" where
  "adapt_custom_tool_history enabled items =
     (if \<not> enabled then (Inr (items, [], False), [])
      else case rbind (history_items items empty_history)
                  (\<lambda>h. if hs_pending h = [] then Inr h else Inl HISTORY_REJECTED) of
             Inl e \<Rightarrow> (Inl e, if e = Type_Error then [] else [History_Event ''rejected'' 1])
           | Inr h \<Rightarrow>
               (Inr (hs_rewritten h, hs_adapted_ids h, 0 < hs_adapted h),
                (if 0 < hs_adapted h then [History_Event ''adapted'' (hs_adapted h)] else [])
                @ (if 0 < hs_untouched h then [History_Event ''untouched'' (hs_untouched h)] else [])))"

section \<open>Response bodies\<close>

record body_scan =
  bs_items :: "string list"
  bs_calls :: "string list"
  bs_custom_items :: "string list"
  bs_custom_calls :: "string list"
  bs_custom_keys :: "string list"
  bs_adapted :: nat
  bs_untouched :: nat

definition empty_scan :: body_scan where
  "empty_scan = \<lparr>bs_items = [], bs_calls = [], bs_custom_items = [], bs_custom_calls = [],
     bs_custom_keys = [], bs_adapted = 0, bs_untouched = 0\<rparr>"

definition body_call :: "obj \<Rightarrow> body_scan \<Rightarrow> adapter_error + json \<times> body_scan" where
  "body_call item b =
     rbind (require_exact_fields item (Some ''completed'')) (\<lambda>_.
     rbind (item_identity item) (\<lambda>(item_id, call_id).
     rbind (arguments_text_and_input (dict_get item ''arguments'')) (\<lambda>(_, patch).
       if List.member (bs_items b) item_id \<or> List.member (bs_custom_items b) item_id
       then Inl (Failure ''duplicate_item_id'')
       else if List.member (bs_calls b) call_id \<or> List.member (bs_custom_calls b) call_id
       then Inl (Failure ''duplicate_call_id'')
       else Inr (JObj (custom_apply_patch_item item patch),
                 b\<lparr>bs_items := item_id # bs_items b, bs_calls := call_id # bs_calls b,
                   bs_adapted := bs_adapted b + 1\<rparr>))))"

definition untouched_key :: "obj \<Rightarrow> string \<Rightarrow> string" where
  "untouched_key item fallback =
     (case (non_empty_str (dict_get item ''id''), non_empty_str (dict_get item ''call_id'')) of
        (Some i, _) \<Rightarrow> ''item:'' @ i
      | (None, Some c) \<Rightarrow> ''call:'' @ c
      | (None, None) \<Rightarrow> fallback)"

definition body_custom :: "nat \<Rightarrow> obj \<Rightarrow> body_scan \<Rightarrow> adapter_error + body_scan" where
  "body_custom index item b =
     (let i = non_empty_str (dict_get item ''id''); c = non_empty_str (dict_get item ''call_id'');
          key = untouched_key item (''index:'' @ nat_text index)
      in if (case i of None \<Rightarrow> False | Some i \<Rightarrow> List.member (bs_items b) i)
         then Inl (Failure ''duplicate_item_id'')
         else if (case c of None \<Rightarrow> False | Some c \<Rightarrow> List.member (bs_calls b) c)
         then Inl (Failure ''duplicate_call_id'')
         else (let b1 = b\<lparr>bs_custom_items := (case i of None \<Rightarrow> bs_custom_items b | Some i \<Rightarrow> i # bs_custom_items b),
                           bs_custom_calls := (case c of None \<Rightarrow> bs_custom_calls b | Some c \<Rightarrow> c # bs_custom_calls b)\<rparr>
               in Inr (if List.member (bs_custom_keys b1) key then b1
                       else b1\<lparr>bs_custom_keys := key # bs_custom_keys b1, bs_untouched := bs_untouched b1 + 1\<rparr>)))"

definition body_item :: "nat \<Rightarrow> json \<Rightarrow> body_scan \<Rightarrow> adapter_error + json \<times> body_scan" where
  "body_item index raw b =
     (case json_object raw of
        None \<Rightarrow> Inr (raw, b)
      | Some item \<Rightarrow>
          (if is_function_call raw then body_call item b
           else if is_custom_tool_call raw then rbind (body_custom index item b) (\<lambda>b1. Inr (raw, b1))
           else Inr (raw, b)))"

fun body_items :: "nat \<Rightarrow> json list \<Rightarrow> body_scan \<Rightarrow> adapter_error + json list \<times> body_scan" where
  "body_items index [] b = Inr ([], b)"
| "body_items index (v # vs) b =
     rbind (body_item index v b) (\<lambda>(w, b1).
       rbind (body_items (index + 1) vs b1) (\<lambda>(ws, b2). Inr (w # ws, b2)))"

text \<open>What \<open>raise_adapter_failure\<close> writes before it raises.\<close>

definition rejection :: "string \<Rightarrow> adapter_error \<Rightarrow> telemetry list" where
  "rejection surface e =
     (case e of Failure reason \<Rightarrow> [Adapter_Event surface ''rejected'' 1 (Some reason)] | Type_Error \<Rightarrow> [])"

definition outcome_events :: "string \<Rightarrow> nat \<Rightarrow> nat \<Rightarrow> telemetry list" where
  "outcome_events surface adapted untouched =
     (if 0 < adapted then [Adapter_Event surface ''adapted'' adapted None] else [])
     @ (if 0 < untouched then [Adapter_Event surface ''untouched'' untouched None] else [])"

definition adapt_response_body ::
  "bool \<Rightarrow> json \<Rightarrow> (adapter_error + json \<times> bool) \<times> telemetry list" where
  "adapt_response_body enabled payload =
     (case (enabled, json_object payload) of
        (True, Some d) \<Rightarrow>
          (case dict_get d ''output'' of
             Some (JArr output) \<Rightarrow>
               (case body_items 0 output empty_scan of
                  Inl e \<Rightarrow> (Inl e, rejection ''body'' e)
                | Inr (rewritten, b) \<Rightarrow>
                    (Inr (if 0 < bs_adapted b then JObj (dict_set d ''output'' (JArr rewritten)) else payload,
                          0 < bs_adapted b),
                     outcome_events ''body'' (bs_adapted b) (bs_untouched b)))
           | _ \<Rightarrow> (Inr (payload, False), []))
      | _ \<Rightarrow> (Inr (payload, False), []))"

section \<open>The stream adapter\<close>

record call_state =
  cs_item_id :: string
  cs_call_id :: string
  cs_output_index :: int
  cs_initial :: "string option"
  cs_arguments :: "string option"
  cs_patch :: "string option"
  cs_delta :: string
  cs_arguments_done :: bool
  cs_item_done :: bool

record adapter =
  pa_surface :: string
  pa_states :: "(string, call_state) dict"
  pa_item_by_call :: "(string, string) dict"
  pa_adapted :: "string set"
  pa_custom_items :: "string set"
  pa_custom_calls :: "string set"
  pa_untouched :: "string set"
  pa_terminal_seen :: bool
  pa_finished :: bool
  pa_events :: "telemetry list"

definition new_adapter :: "string \<Rightarrow> adapter" where
  "new_adapter surface =
     \<lparr>pa_surface = surface, pa_states = [], pa_item_by_call = [], pa_adapted = {}, pa_custom_items = {},
      pa_custom_calls = {}, pa_untouched = {}, pa_terminal_seen = False, pa_finished = False,
      pa_events = []\<rparr>"

text \<open>A method of the adapter: it raises or returns a value, and leaves the adapter as it then is.\<close>

type_synonym 'a adapting = "(adapter, adapter_error, 'a) action"

abbreviation return :: "'a \<Rightarrow> 'a adapting" where "return \<equiv> ret"

text \<open>\<open>_fail\<close>, and \<open>except _ApplyPatchAdapterFailure\<close> around a check.\<close>

definition raise_error :: "adapter_error \<Rightarrow> 'a adapting" where
  "raise_error e s = (Inl e, s\<lparr>pa_events := pa_events s @ rejection (pa_surface s) e\<rparr>)"

definition fail :: "string \<Rightarrow> 'a adapting" where "fail reason = raise_error (Failure reason)"

definition fail_if :: "bool \<Rightarrow> string \<Rightarrow> unit adapting" where
  "fail_if b reason = (if b then fail reason else return ())"

definition checked :: "adapter_error + 'a \<Rightarrow> 'a adapting" where
  "checked r = (case r of Inl e \<Rightarrow> raise_error e | Inr a \<Rightarrow> return a)"

definition the_or_fail :: "'a option \<Rightarrow> string \<Rightarrow> 'a adapting" where
  "the_or_fail v reason = (case v of None \<Rightarrow> fail reason | Some a \<Rightarrow> return a)"

definition output_index_of :: "obj \<Rightarrow> int adapting" where
  "output_index_of event =
     (case dict_get event ''output_index'' of
        Some (JInt n) \<Rightarrow> (if n < 0 then fail ''missing_output_index'' else return n)
      | _ \<Rightarrow> fail ''missing_output_index'')"

definition remember_untouched :: "obj \<Rightarrow> string \<Rightarrow> unit adapting" where
  "remember_untouched item fallback s =
     (let i = non_empty_str (dict_get item ''id''); c = non_empty_str (dict_get item ''call_id'')
      in bind (case i of None \<Rightarrow> return ()
               | Some i \<Rightarrow> bind (fail_if (dict_has (pa_states s) i) ''duplicate_item_id'')
                             (\<lambda>_. change (\<lambda>s. s\<lparr>pa_custom_items := insert i (pa_custom_items s)\<rparr>)))
           (\<lambda>_. bind (case c of None \<Rightarrow> return ()
               | Some c \<Rightarrow> bind (fail_if (dict_has (pa_item_by_call s) c) ''duplicate_call_id'')
                             (\<lambda>_. change (\<lambda>s. s\<lparr>pa_custom_calls := insert c (pa_custom_calls s)\<rparr>)))
           (\<lambda>_. change (\<lambda>s. s\<lparr>pa_untouched := insert (untouched_key item fallback) (pa_untouched s)\<rparr>))) s)"

definition initial_arguments_of :: "json option \<Rightarrow> adapter_error + string option" where
  "initial_arguments_of arguments =
     (if arguments = Some (JStr []) then Inr None
      else rbind (arguments_text_and_input arguments) (\<lambda>(text, _). Inr (Some text)))"

definition added_item :: "obj \<Rightarrow> adapter_error + string \<times> string \<times> string option" where
  "added_item item =
     rbind (require_exact_fields item (Some ''in_progress'')) (\<lambda>_.
     rbind (item_identity item) (\<lambda>(item_id, call_id).
     rbind (initial_arguments_of (dict_get item ''arguments'')) (\<lambda>initial.
       Inr (item_id, call_id, initial))))"

definition state_from_added_item :: "obj \<Rightarrow> int \<Rightarrow> unit adapting" where
  "state_from_added_item item output_index =
     bind (checked (added_item item)) (\<lambda>(item_id, call_id, initial) s.
       bind (fail_if (dict_has (pa_states s) item_id \<or> item_id \<in> pa_custom_items s) ''duplicate_item_added'')
         (\<lambda>_. bind (fail_if (dict_has (pa_item_by_call s) call_id \<or> call_id \<in> pa_custom_calls s) ''duplicate_call_id'')
         (\<lambda>_. change (\<lambda>s. s\<lparr>pa_states := dict_set (pa_states s) item_id
                   \<lparr>cs_item_id = item_id, cs_call_id = call_id, cs_output_index = output_index,
                    cs_initial = initial, cs_arguments = None, cs_patch = None, cs_delta = [],
                    cs_arguments_done = False, cs_item_done = False\<rparr>,
                 pa_item_by_call := dict_set (pa_item_by_call s) call_id item_id\<rparr>))) s)"

definition state_for_event :: "obj \<Rightarrow> call_state adapting" where
  "state_for_event event s =
     bind (the_or_fail (non_empty_str (dict_get event ''item_id'')) ''missing_item_id'') (\<lambda>item_id.
     bind (the_or_fail (dict_get (pa_states s) item_id) ''unpaired_stream_event'') (\<lambda>state.
     bind (output_index_of event) (\<lambda>output_index.
     bind (fail_if (output_index \<noteq> cs_output_index state) ''conflicting_output_index'') (\<lambda>_.
       return state)))) s"

definition completed_item ::
  "obj \<Rightarrow> adapter_error + (string \<times> string) \<times> string \<times> string" where
  "completed_item item =
     rbind (require_exact_fields item (Some ''completed'')) (\<lambda>_.
     rbind (item_identity item) (\<lambda>ids.
     rbind (arguments_text_and_input (dict_get item ''arguments'')) (\<lambda>args. Inr (ids, args))))"

definition check_completed_item :: "obj \<Rightarrow> call_state \<Rightarrow> unit adapting" where
  "check_completed_item item state =
     bind (checked (completed_item item)) (\<lambda>((item_id, call_id), arguments, patch).
     bind (fail_if (item_id \<noteq> cs_item_id state \<or> call_id \<noteq> cs_call_id state) ''conflicting_item_identity'') (\<lambda>_.
     bind (fail_if (\<not> cs_arguments_done state \<or> cs_arguments state = None \<or> cs_patch state = None)
             ''missing_arguments_done'') (\<lambda>_.
       fail_if (Some arguments \<noteq> cs_arguments state \<or> Some patch \<noteq> cs_patch state) ''conflicting_arguments'')))"

definition store :: "call_state \<Rightarrow> adapter \<Rightarrow> adapter" where
  "store state s = s\<lparr>pa_states := dict_set (pa_states s) (cs_item_id state) state\<rparr>"

text \<open>The items of a terminal response: the rewritten list and whether anything changed.\<close>

definition terminal_call :: "obj \<Rightarrow> string set \<Rightarrow> (string \<times> json) adapting" where
  "terminal_call item seen =
     bind (checked (rbind (require_exact_fields item None) (\<lambda>_.
                    rbind (item_identity item) (\<lambda>ids.
                    rbind (arguments_text_and_input (dict_get item ''arguments'')) (\<lambda>args. Inr (ids, args))))))
       (\<lambda>((item_id, call_id), arguments, patch).
     bind (fail_if (item_id \<in> seen) ''duplicate_terminal_item'') (\<lambda>_ s.
     bind (the_or_fail (dict_get (pa_states s) item_id) ''unpaired_terminal_item'') (\<lambda>state.
     bind (fail_if (call_id \<noteq> cs_call_id state \<or> \<not> cs_item_done state
                    \<or> cs_arguments state \<noteq> Some arguments \<or> cs_patch state \<noteq> Some patch)
             ''conflicting_terminal_item'') (\<lambda>_.
       return (item_id, JObj (custom_apply_patch_item item patch)))) s))"

fun rewrite_output :: "nat \<Rightarrow> json list \<Rightarrow> string set \<Rightarrow> (json list \<times> bool) adapting" where
  "rewrite_output index [] seen s = return ([], False) s"
| "rewrite_output index (raw # rest) seen s =
     (case json_object raw of
        None \<Rightarrow> bind (rewrite_output (index + 1) rest seen) (\<lambda>(ws, c). return (raw # ws, c)) s
      | Some item \<Rightarrow>
          (if is_function_call raw then
             bind (terminal_call item seen) (\<lambda>(item_id, rewritten).
             bind (rewrite_output (index + 1) rest (insert item_id seen)) (\<lambda>(ws, c).
               return (rewritten # ws, True))) s
           else if is_custom_tool_call raw then
             bind (remember_untouched item (''terminal:'' @ nat_text index)) (\<lambda>_.
             bind (rewrite_output (index + 1) rest seen) (\<lambda>(ws, c). return (raw # ws, c))) s
           else bind (rewrite_output (index + 1) rest seen) (\<lambda>(ws, c). return (raw # ws, c)) s))"

definition rewrite_terminal_response :: "obj \<Rightarrow> (obj \<times> bool) adapting" where
  "rewrite_terminal_response event =
     (case (case dict_get event ''response'' of None \<Rightarrow> None | Some v \<Rightarrow> json_object v) of
        None \<Rightarrow> return (event, False)
      | Some response \<Rightarrow>
          (case dict_get response ''output'' of
             Some (JArr output) \<Rightarrow>
               bind (rewrite_output 0 output {}) (\<lambda>(rewritten, changed).
                 return (if changed
                      then (dict_set event ''response'' (JObj (dict_set response ''output'' (JArr rewritten))), True)
                      else (event, False)))
           | _ \<Rightarrow> return (event, False)))"

definition ensure_terminal_lifecycle :: "unit adapting" where
  "ensure_terminal_lifecycle s =
     fail_if (\<not> list_all (\<lambda>(k, state). cs_item_done state) (pa_states s)) ''incomplete_tool_lifecycle'' s"

section \<open>Events\<close>

definition json_object_field :: "obj \<Rightarrow> string \<Rightarrow> obj option" where
  "json_object_field d k = (case dict_get d k of None \<Rightarrow> None | Some v \<Rightarrow> json_object v)"

text \<open>\<open>response.output_item.added\<close>\<close>

definition on_item_added :: "obj \<Rightarrow> (obj list \<times> bool) adapting" where
  "on_item_added event =
     (case json_object_field event ''item'' of
        None \<Rightarrow> return ([event], False)
      | Some item \<Rightarrow>
          (if is_function_call (JObj item) then
             bind (output_index_of event) (\<lambda>output_index.
             bind (state_from_added_item item output_index) (\<lambda>_.
               return ([dict_set event ''item'' (JObj (custom_apply_patch_item item []))], True)))
           else if is_custom_tool_call (JObj item) then
             bind (remember_untouched item ''added'') (\<lambda>_. return ([event], False))
           else return ([event], False)))"

definition known_item :: "obj \<Rightarrow> adapter \<Rightarrow> bool" where
  "known_item event s =
     (case text_field event ''item_id'' of None \<Rightarrow> False | Some i \<Rightarrow> dict_has (pa_states s) i)"

text \<open>\<open>response.function_call_arguments.delta\<close>: nothing is passed on.\<close>

definition on_arguments_delta :: "obj \<Rightarrow> (obj list \<times> bool) adapting" where
  "on_arguments_delta event s =
     (if \<not> known_item event s then return ([event], False) s
      else bind (state_for_event event) (\<lambda>state.
           bind (fail_if (cs_arguments_done state \<or> cs_item_done state) ''invalid_arguments_delta'') (\<lambda>_.
           bind (the_or_fail (text_field event ''delta'') ''invalid_arguments_delta'') (\<lambda>delta.
           bind (change (store (state\<lparr>cs_delta := cs_delta state @ delta\<rparr>))) (\<lambda>_. return ([], True))))) s)"

text \<open>\<open>response.function_call_arguments.done\<close>\<close>

definition on_arguments_done :: "obj \<Rightarrow> (obj list \<times> bool) adapting" where
  "on_arguments_done event s =
     (if \<not> known_item event s then return ([event], False) s
      else bind (state_for_event event) (\<lambda>state.
           bind (fail_if (cs_arguments_done state \<or> cs_item_done state) ''duplicate_arguments_done'') (\<lambda>_.
           bind (checked (arguments_text_and_input (dict_get event ''arguments''))) (\<lambda>(arguments, patch).
           bind (fail_if (cs_initial state \<noteq> None \<and> cs_initial state \<noteq> Some arguments) ''conflicting_arguments'') (\<lambda>_.
           bind (fail_if (cs_delta state \<noteq> [] \<and> arguments \<noteq> cs_delta state) ''conflicting_arguments'') (\<lambda>_.
           bind (change (\<lambda>s. (store (state\<lparr>cs_arguments := Some arguments, cs_patch := Some patch,
                                        cs_arguments_done := True\<rparr>) s)
                              \<lparr>pa_adapted := insert (cs_item_id state) (pa_adapted s)\<rparr>)) (\<lambda>_.
             return ([dict_pop (dict_set (dict_set event ''type'' (JStr ''response.custom_tool_call_input.done''))
                     ''input'' (JStr patch)) ''arguments''], True))))))) s)"

text \<open>\<open>response.output_item.done\<close>\<close>

definition on_item_done :: "obj \<Rightarrow> (obj list \<times> bool) adapting" where
  "on_item_done event =
     (case json_object_field event ''item'' of
        None \<Rightarrow> return ([event], False)
      | Some item \<Rightarrow>
          (if is_function_call (JObj item) then
             bind (checked (rbind (require_exact_fields item (Some ''completed'')) (\<lambda>_. item_identity item)))
               (\<lambda>(item_id, call_id) s.
                bind (the_or_fail (dict_get (pa_states s) item_id) ''unpaired_stream_item'') (\<lambda>state.
                bind (fail_if (cs_item_done state) ''duplicate_item_done'') (\<lambda>_.
                bind (output_index_of event) (\<lambda>output_index.
                bind (fail_if (output_index \<noteq> cs_output_index state) ''conflicting_output_index'') (\<lambda>_.
                bind (check_completed_item item state) (\<lambda>_.
                bind (change (store (state\<lparr>cs_item_done := True\<rparr>))) (\<lambda>_.
                  return ([dict_set event ''item'' (JObj (custom_apply_patch_item item
                         (case cs_patch state of None \<Rightarrow> [] | Some p \<Rightarrow> p)))], True))))))) s)
           else if is_custom_tool_call (JObj item) then
             bind (remember_untouched item ''done'') (\<lambda>_. return ([event], False))
           else return ([event], False)))"

definition on_terminal :: "obj \<Rightarrow> (obj list \<times> bool) adapting" where
  "on_terminal event =
     bind (rewrite_terminal_response event) (\<lambda>(rewritten, changed).
     bind ensure_terminal_lifecycle (\<lambda>_.
     bind (change (\<lambda>s. s\<lparr>pa_terminal_seen := True\<rparr>)) (\<lambda>_. return ([rewritten], changed))))"

definition dispatch_event :: "obj \<Rightarrow> (obj list \<times> bool) adapting" where
  "dispatch_event event =
     (case text_field event ''type'' of
        None \<Rightarrow> return ([event], False)
      | Some kind \<Rightarrow>
          (if kind = ''response.output_item.added'' then on_item_added event
           else if kind = ''response.function_call_arguments.delta'' then on_arguments_delta event
           else if kind = ''response.function_call_arguments.done'' then on_arguments_done event
           else if kind = ''response.output_item.done'' then on_item_done event
           else if List.member TERMINAL_EVENT_TYPES kind then on_terminal event
           else return ([event], False)))"

definition semantic_event :: "obj \<Rightarrow> bool" where
  "semantic_event event \<longleftrightarrow>
     (case text_field event ''type'' of
        None \<Rightarrow> False | Some kind \<Rightarrow> prefix ''response.'' kind \<or> kind = ''error'')"

definition events_for_event :: "obj \<Rightarrow> (obj list \<times> bool) adapting" where
  "events_for_event event s =
     bind (fail_if (pa_terminal_seen s \<and> semantic_event event) ''post_terminal_semantic_event'')
       (\<lambda>_. dispatch_event event) s"

definition set_size :: "string set \<Rightarrow> nat" where "set_size = card"

definition finish_stream :: "bool \<Rightarrow> unit adapting" where
  "finish_stream allow_missing_terminal s =
     (if pa_finished s then return () s
      else
        bind (change (\<lambda>s. s\<lparr>pa_finished := True\<rparr>)) (\<lambda>_.
        bind (if pa_states s \<noteq> [] \<and> \<not> pa_terminal_seen s
              then bind (fail_if (\<not> allow_missing_terminal) ''missing_terminal_event'') (\<lambda>_. ensure_terminal_lifecycle)
              else return ()) (\<lambda>_.
        change (\<lambda>s. s\<lparr>pa_events := pa_events s
          @ outcome_events (pa_surface s) (set_size (pa_adapted s)) (set_size (pa_untouched s))\<rparr>))) s)"

fun adapt_events :: "obj list \<Rightarrow> (obj list \<times> bool) adapting" where
  "adapt_events [] s = return ([], False) s"
| "adapt_events (e # es) s =
     bind (events_for_event e) (\<lambda>(out, c).
       bind (adapt_events es) (\<lambda>(outs, c'). return (out @ outs, c \<or> c'))) s"

definition adapt_stream_events ::
  "bool \<Rightarrow> obj list \<Rightarrow> (adapter_error + obj list \<times> bool) \<times> telemetry list" where
  "adapt_stream_events enabled events =
     (if \<not> enabled then (Inr (events, False), [])
      else (case bind (adapt_events events) (\<lambda>(rewritten, changed).
                   bind (finish_stream False) (\<lambda>_. return (if changed then rewritten else events, changed)))
                   (new_adapter ''stream'') of
              (r, s) \<Rightarrow> (r, pa_events s)))"

end
