(* ===== verification/Apply_Patch_Properties.thy ===== *)
theory Apply_Patch_Properties
  imports Apply_Patch
begin

text \<open>
  A patch survives the way into a function call and back; the rewritten history consists of
  complete pairs; the stream adapter shows the client one consistent life of each adapted call.
\<close>

section \<open>A patch there and back\<close>

lemma skip_ws_stays: "\<not> json_ws c \<Longrightarrow> skip_ws (c # s) = c # s"
  by (simp add: skip_ws_def)

lemma skip_ws_nil [simp]: "skip_ws [] = []"
  by (simp add: skip_ws_def)

lemma json_ws_not [simp]: "\<not> json_ws QUOTE" "\<not> json_ws (CHR ''{'')" "\<not> json_ws (CHR ''}'')" "\<not> json_ws (CHR '':'')"
  by (simp_all add: json_ws_def)

lemma patch_chars: "char_of (112::nat) = CHR ''p''" "char_of (97::nat) = CHR ''a''" "char_of (116::nat) = CHR ''t''"
  "char_of (99::nat) = CHR ''c''" "char_of (104::nat) = CHR ''h''"
  by code_simp+

lemma escape_patch: "escape_text ''patch'' = ''patch''"
  by (simp add: escape_text.simps [of "c # cs" for c cs] escape_text.simps [of "[]"] utf8_next_def
      escape_code_def patch_chars)

lemma scan_patch_key: "scan_string (''patch'' @ QUOTE # r) = Some (''patch'', r)"
proof -
  have u: "utf8_of (map of_char ''patch'') = ''patch''" by (rule utf8_of_ascii) (simp add: ascii_text_def)
  have "list_all scalar_value (map of_char ''patch'')" by (simp add: scalar_value_def)
  from scan_escape_text [OF this, of r] show ?thesis unfolding u escape_patch .
qed

lemma loads_patch:
  assumes "list_all scalar_value cps"
  shows "loads_with argument_hooks (dumps (JObj [(''patch'', JStr (utf8_of cps))]))
    = Inr (JObj [(''patch'', JStr (utf8_of cps))])"
proof -
  define body where "body = escape_text (utf8_of cps)"
  have d: "dumps (JObj [(''patch'', JStr (utf8_of cps))])
      = CHR ''{'' # QUOTE # ''patch'' @ QUOTE # CHR '':'' # QUOTE # body @ QUOTE # [CHR ''}'']"
    by (simp add: dumps_str_def join_with_def body_def escape_patch)
  have s: "scan_string (body @ QUOTE # r) = Some (utf8_of cps, r)" for r
    unfolding body_def by (rule scan_escape_text [OF assms])
  have k: "scan_string (CHR ''p'' # CHR ''a'' # CHR ''t'' # CHR ''c'' # CHR ''h'' # QUOTE # r) = Some (''patch'', r)" for r
    using scan_patch_key [of r] by simp
  obtain m where m: "2 * length (dumps (JObj [(''patch'', JStr (utf8_of cps))])) + 1 = Suc (Suc (Suc m))"
    unfolding d by simp
  show ?thesis
    unfolding loads_with_def m unfolding d
    by (simp add: skip_ws_stays k s close_object_def argument_hooks_def)
qed

text \<open>The patch survives: the arguments that the history adapter writes for a patch are read back by
  the argument parser as exactly that patch, whatever characters it has.\<close>
theorem patch_roundtrip:
  assumes "list_all scalar_value cps" and "str_strip (utf8_of cps) \<noteq> []"
  shows "arguments_text_and_input (Some (JStr (dumps (JObj [(''patch'', JStr (utf8_of cps))]))))
    = Inr (dumps (JObj [(''patch'', JStr (utf8_of cps))]), utf8_of cps)"
proof -
  have "patch_of (JObj [(''patch'', JStr (utf8_of cps))]) = Inr (utf8_of cps)"
    using assms(2) by (simp add: patch_of_def fields_are_def dict_has_def text_field_def)
  with loads_patch [OF assms(1)] show ?thesis
    by (simp add: arguments_text_and_input_def parse_arguments_def del: dumps.simps)
qed

section \<open>The rewritten history\<close>

text \<open>What an item of a history is to a provider of function calls: a call or a result of a call id.\<close>

definition call_event :: "json \<Rightarrow> (bool \<times> string) list" where
  "call_event v =
     (case json_object v of
        None \<Rightarrow> []
      | Some d \<Rightarrow>
          (case (text_field d ''type'', text_field d ''call_id'') of
             (Some kind, Some c) \<Rightarrow>
               (if kind = ''function_call'' then [(True, c)]
                else if kind = ''function_call_output'' then [(False, c)] else [])
           | _ \<Rightarrow> []))"

definition call_events :: "json list \<Rightarrow> (bool \<times> string) list" where
  "call_events vs = concat (map call_event vs)"

definition events_of :: "string \<Rightarrow> json list \<Rightarrow> (bool \<times> string) list" where
  "events_of c vs = filter (\<lambda>e. snd e = c) (call_events vs)"

lemma events_of_simps [simp]:
  "events_of c [] = []" "events_of c (xs @ ys) = events_of c xs @ events_of c ys"
  "events_of c [v] = filter (\<lambda>e. snd e = c) (call_event v)"
  by (simp_all add: events_of_def call_events_def)

text \<open>The call ids of the custom calls of \<open>apply_patch\<close> in a history, the ids its custom outputs answer,
  and the history rewritten for a set of adapted ids: every custom call of \<open>apply_patch\<close>, and the
  outputs of the adapted ids and no other.\<close>

definition item_called :: "json \<Rightarrow> string list" where
  "item_called v =
     (case json_object v of
        None \<Rightarrow> []
      | Some d \<Rightarrow> (if is_custom_tool_call v then (case text_field d ''call_id'' of None \<Rightarrow> [] | Some c \<Rightarrow> [c]) else []))"

definition called :: "json list \<Rightarrow> string list" where
  "called vs = concat (map item_called vs)"

definition item_answers :: "json \<Rightarrow> string list" where
  "item_answers v =
     (case json_object v of
        None \<Rightarrow> []
      | Some d \<Rightarrow> (if text_field d ''type'' = Some ''custom_tool_call_output''
                  then (case text_field d ''call_id'' of None \<Rightarrow> [] | Some c \<Rightarrow> [c]) else []))"

definition rewrite_with :: "string set \<Rightarrow> json \<Rightarrow> json" where
  "rewrite_with ids v =
     (case json_object v of
        None \<Rightarrow> v
      | Some d \<Rightarrow>
          (if is_custom_tool_call v then
             (case (text_field d ''call_id'', text_field d ''input'') of
                (Some c, Some patch) \<Rightarrow> history_call_item d c patch
              | _ \<Rightarrow> v)
           else
             (case item_answers v of
                [c] \<Rightarrow> (if c \<in> ids
                       then JObj [(''type'', JStr ''function_call_output''), (''call_id'', JStr c),
                                  (''output'', (case dict_get d ''output'' of None \<Rightarrow> JNull | Some out \<Rightarrow> out))]
                       else v)
              | _ \<Rightarrow> v)))"

definition history_ok :: "history \<Rightarrow> bool" where
  "history_ok h \<longleftrightarrow>
     set (hs_pending h) \<subseteq> set (hs_adapted_ids h)
     \<and> (\<forall>c \<in> set (hs_adapted_ids h). events_of c (hs_rewritten h)
           = (True, c) # (if c \<in> set (hs_pending h) then [] else [(False, c)]))
     \<and> (\<forall>c. c \<notin> set (hs_adapted_ids h) \<longrightarrow> c = [] \<or> events_of c (hs_rewritten h) = [] \<or> c \<in> set (hs_foreign h))"

lemma call_event_call_item: "call_event (history_call_item d c patch) = [(True, c)]"
  by (auto simp: call_event_def history_call_item_def text_field_def split: option.split)

lemma call_event_output_item:
  "call_event (JObj [(''type'', JStr ''function_call_output''), (''call_id'', JStr c), (''output'', v)]) = [(False, c)]"
  by (simp add: call_event_def text_field_def)

lemma call_event_kind:
  assumes "text_field d ''type'' \<noteq> Some ''function_call''" and "text_field d ''type'' \<noteq> Some ''function_call_output''"
  shows "call_event (JObj d) = []"
  using assms by (auto simp: call_event_def split: option.splits)

lemma call_event_id:
  assumes "e \<in> set (call_event (JObj d))"
  shows "text_field d ''call_id'' = Some (snd e)"
  using assms by (auto simp: call_event_def split: option.splits if_splits)

lemma non_empty_text: "non_empty_str (dict_get d k) = Some c \<longleftrightarrow> text_field d k = Some c \<and> c \<noteq> []"
  by (auto simp: non_empty_str_def text_field_def split: option.splits json.splits)

lemma history_ok_call:
  assumes ok: "history_ok h" and r: "history_call d h = Inr h'"
  shows "history_ok h'"
proof -
  from r obtain c patch where t: "text_field d ''call_id'' = Some c" "text_field d ''input'' = Some patch"
    by (cases "text_field d ''call_id''"; cases "text_field d ''input''") (simp_all add: history_call_def)
  from r t have n: "c \<noteq> []" "c \<notin> set (hs_pending h)" "c \<notin> set (hs_adapted_ids h)" "c \<notin> set (hs_foreign h)"
    and h': "h' = h\<lparr>hs_pending := c # hs_pending h, hs_adapted_ids := c # hs_adapted_ids h,
      hs_rewritten := hs_rewritten h @ [history_call_item d c patch], hs_adapted := hs_adapted h + 1\<rparr>"
    by (auto simp: history_call_def split: if_splits)
  from ok n have none: "events_of c (hs_rewritten h) = []" by (auto simp: history_ok_def)
  show ?thesis
    using ok n none t unfolding h' by (auto simp: history_ok_def call_event_call_item)
qed

lemma history_ok_keep:
  assumes ok: "history_ok h" and none: "call_event v = []"
  shows "history_ok (keep_item v h)"
  using assms by (simp add: history_ok_def keep_item_def)

lemma history_ok_output:
  assumes ok: "history_ok h" and r: "history_output d h = Inr h'" and k: "text_field d ''type'' = Some ''custom_tool_call_output''"
  shows "history_ok h'"
proof -
  have none: "call_event (JObj d) = []" using k by (intro call_event_kind) simp_all
  show ?thesis
  proof (cases "text_field d ''call_id''")
    case None
    with r history_ok_keep [OF ok none] show ?thesis by (auto simp: history_output_def keep_item_def)
  next
    case (Some c)
    show ?thesis
    proof (cases "c \<in> set (hs_pending h)")
      case False
      have "history_ok (h\<lparr>hs_unmatched := c # hs_unmatched h\<rparr>)" using ok by (simp add: history_ok_def)
      from history_ok_keep [OF this none] False Some r show ?thesis
        by (auto simp: history_output_def keep_item_def split: if_splits)
    next
      case True
      with Some r have f: "exact_history_fields d CUSTOM_TOOL_HISTORY_OUTPUT_FIELDS"
        by (simp add: history_output_def split: if_splits)
      then obtain v where v: "dict_get d ''output'' = Some v"
        by (auto simp: exact_history_fields_def fields_are_def CUSTOM_TOOL_HISTORY_OUTPUT_FIELDS_def dict_has_def)
      from True Some r f v have h': "h' = keep_item (JObj [(''type'', JStr ''function_call_output''), (''call_id'', JStr c), (''output'', v)])
          (h\<lparr>hs_pending := removeAll c (hs_pending h)\<rparr>)"
        by (simp add: history_output_def)
      have "events_of c (hs_rewritten h) = [(True, c)]" using ok True by (auto simp: history_ok_def)
      with ok True Some v show ?thesis
        unfolding h' by (auto simp: history_ok_def keep_item_def call_event_output_item)
    qed
  qed
qed

lemma history_ok_other:
  assumes ok: "history_ok h" and r: "history_other d h = Inr h'"
  shows "history_ok h'"
proof -
  from r have na: "text_field d ''call_id'' = Some c \<Longrightarrow> c \<notin> set (hs_adapted_ids h)" for c
    by (auto simp: history_other_def split: if_splits)
  have kept: "hs_rewritten h' = hs_rewritten h @ [JObj d]" "hs_pending h' = hs_pending h" "hs_adapted_ids h' = hs_adapted_ids h"
    and sup: "set (hs_foreign h) \<subseteq> set (hs_foreign h')"
    using r by (auto simp: history_other_def keep_item_def Let_def split: if_splits option.splits)
  have own: "c \<in> set (hs_foreign h')" if c: "c \<noteq> []" "filter (\<lambda>e. snd e = c) (call_event (JObj d)) \<noteq> []" for c
  proof -
    from c obtain e where e: "e \<in> set (call_event (JObj d))" "snd e = c" by (meson filter_empty_conv)
    then have i: "text_field d ''call_id'' = Some c" using call_event_id by blast
    then have n: "non_empty_str (dict_get d ''call_id'') = Some c" using c(1) by (simp add: non_empty_text)
    have "text_field d ''type'' = Some ''function_call'' \<or> text_field d ''type'' = Some ''function_call_output''"
      using call_event_kind [of d] e(1) by (metis empty_iff empty_set)
    with r n show ?thesis by (auto simp: history_other_def keep_item_def Let_def split: if_splits)
  qed
  have "filter (\<lambda>e. snd e = c) (call_event (JObj d)) = []" if "c \<in> set (hs_adapted_ids h)" for c
    using na that call_event_id by (fastforce simp: filter_empty_conv)
  with ok own sup show ?thesis by (auto simp: history_ok_def kept)
qed

lemma hs_native_ok [simp]: "history_ok (h\<lparr>hs_native := n\<rparr>) = history_ok h"
  by (simp add: history_ok_def)

lemma custom_kind: "is_custom_tool_call (JObj d) \<Longrightarrow> text_field d ''type'' = Some ''custom_tool_call''"
  by (simp add: is_custom_tool_call_def is_call_of_def)

text \<open>The three ways a history object is handled, after the check of native ids.\<close>

lemma history_item_cases:
  assumes r: "history_item (JObj d) h = Inr h'"
  obtains h1 where "h1 = h \<or> (\<exists>i. h1 = h\<lparr>hs_native := i # hs_native h\<rparr>)"
    "is_custom_tool_call (JObj d) \<and> history_call d h1 = Inr h'
     \<or> \<not> is_custom_tool_call (JObj d) \<and> text_field d ''type'' = Some ''custom_tool_call_output'' \<and> history_output d h1 = Inr h'
     \<or> \<not> is_custom_tool_call (JObj d) \<and> text_field d ''type'' \<noteq> Some ''custom_tool_call_output'' \<and> history_other d h1 = Inr h'"
proof -
  define n where "n = (if text_field d ''type'' = Some ''custom_tool_call'' \<or> text_field d ''type'' = Some ''custom_tool_call_output''
      then text_field d ''id'' else None)"
  define h1 where "h1 = (case n of None \<Rightarrow> h | Some i \<Rightarrow> h\<lparr>hs_native := i # hs_native h\<rparr>)"
  from r have r1: "(if is_custom_tool_call (JObj d) then history_call d h1
      else if text_field d ''type'' = Some ''custom_tool_call_output'' then history_output d h1
      else history_other d h1) = Inr h'"
    by (simp add: history_item_def Let_def flip: n_def h1_def split: if_splits)
  show thesis by (rule that [of h1]) (use r1 in \<open>auto simp: h1_def split: option.split if_splits\<close>)
qed

lemma history_ok_item:
  assumes ok: "history_ok h" and r: "history_item raw h = Inr h'"
  shows "history_ok h'"
proof (cases "json_object raw")
  case None
  then have "call_event raw = []" by (simp add: call_event_def)
  with None r history_ok_keep [OF ok] show ?thesis by (auto simp: history_item_def)
next
  case (Some d)
  then have "raw = JObj d" by simp
  with r obtain h1 where "h1 = h \<or> (\<exists>i. h1 = h\<lparr>hs_native := i # hs_native h\<rparr>)"
    and c: "history_call d h1 = Inr h' \<or> text_field d ''type'' = Some ''custom_tool_call_output'' \<and> history_output d h1 = Inr h'
      \<or> history_other d h1 = Inr h'"
    by (auto elim!: history_item_cases)
  then have "history_ok h1" using ok by auto
  with c show ?thesis by (auto intro: history_ok_call history_ok_output history_ok_other)
qed

text \<open>What has been rewritten of the items seen so far.\<close>

definition history_exact :: "json list \<Rightarrow> history \<Rightarrow> bool" where
  "history_exact seen h \<longleftrightarrow>
     hs_adapted_ids h = rev (called seen) \<and> distinct (called seen) \<and> hs_adapted h = length (called seen)
     \<and> hs_rewritten h = map (rewrite_with (set (called seen))) seen
     \<and> (\<forall>v \<in> set seen. set (item_answers v) \<subseteq> set (called seen) \<union> set (hs_unmatched h))"

lemma called_simps [simp]: "called [] = []" "called (xs @ ys) = called xs @ called ys" "called [v] = item_called v"
  by (simp_all add: called_def)

lemma hs_native_exact [simp]: "history_exact seen (h\<lparr>hs_native := n\<rparr>) = history_exact seen h"
  by (simp add: history_exact_def)

lemma rewrite_with_insert: "c \<notin> set (item_answers v) \<Longrightarrow> rewrite_with (insert c ids) v = rewrite_with ids v"
  by (auto simp: rewrite_with_def split: option.split list.split)

lemma rewrite_others:
  assumes "history_exact seen h" and "c \<notin> set (called seen)" and "c \<notin> set (hs_unmatched h)"
  shows "map (rewrite_with (insert c (set (called seen)))) seen = hs_rewritten h"
  using assms by (auto simp: history_exact_def intro!: rewrite_with_insert)

lemma exact_call:
  assumes e: "history_exact seen h" and k: "is_custom_tool_call (JObj d)" and r: "history_call d h = Inr h'"
  shows "history_exact (seen @ [JObj d]) h'"
proof -
  from r obtain c patch where t: "text_field d ''call_id'' = Some c" "text_field d ''input'' = Some patch"
    by (cases "text_field d ''call_id''"; cases "text_field d ''input''") (simp_all add: history_call_def)
  from r t have n: "c \<notin> set (hs_adapted_ids h)" "c \<notin> set (hs_unmatched h)"
    and h': "h' = h\<lparr>hs_pending := c # hs_pending h, hs_adapted_ids := c # hs_adapted_ids h,
      hs_rewritten := hs_rewritten h @ [history_call_item d c patch], hs_adapted := hs_adapted h + 1\<rparr>"
    by (auto simp: history_call_def split: if_splits)
  have i: "item_called (JObj d) = [c]" "item_answers (JObj d) = []"
    using k t custom_kind [OF k] by (simp_all add: item_called_def item_answers_def)
  have w: "rewrite_with ids (JObj d) = history_call_item d c patch" for ids
    using k t by (simp add: rewrite_with_def)
  from e n(1) have nc: "c \<notin> set (called seen)" by (simp add: history_exact_def)
  from e nc rewrite_others [OF e nc n(2)] i w show ?thesis
    unfolding h' by (auto simp: history_exact_def)
qed

lemma exact_keep:
  assumes "history_exact seen h" and "item_called v = []" and "set (item_answers v) \<subseteq> set (called seen) \<union> set (hs_unmatched h')"
    and "rewrite_with (set (called seen)) v = w"
    and "hs_adapted_ids h' = hs_adapted_ids h" "hs_adapted h' = hs_adapted h" "hs_rewritten h' = hs_rewritten h @ [w]"
      "set (hs_unmatched h) \<subseteq> set (hs_unmatched h')"
  shows "history_exact (seen @ [v]) h'"
  using assms by (auto simp: history_exact_def)

lemma exact_output:
  assumes e: "history_exact seen h" and ok: "history_ok h" and k: "\<not> is_custom_tool_call (JObj d)"
    "text_field d ''type'' = Some ''custom_tool_call_output''" and r: "history_output d h = Inr h'"
  shows "history_exact (seen @ [JObj d]) h'"
proof (cases "text_field d ''call_id''")
  case None
  with r k show ?thesis
    by (intro exact_keep [OF e, where w = "JObj d"])
       (auto simp: history_output_def keep_item_def item_called_def item_answers_def rewrite_with_def)
next
  case (Some c)
  have i: "item_called (JObj d) = []" "item_answers (JObj d) = [c]"
    using k Some by (simp_all add: item_called_def item_answers_def)
  show ?thesis
  proof (cases "c \<in> set (hs_pending h)")
    case True
    with ok e have "c \<in> set (called seen)" by (auto simp: history_ok_def history_exact_def)
    with True Some r i k show ?thesis
      by (intro exact_keep [OF e i(1)]) (auto simp: history_output_def keep_item_def rewrite_with_def split: if_splits)
  next
    case False
    with Some r have "c \<notin> set (hs_adapted_ids h)" and h': "h' = keep_item (JObj d) (h\<lparr>hs_unmatched := c # hs_unmatched h\<rparr>)"
      by (auto simp: history_output_def split: if_splits)
    then have "c \<notin> set (called seen)" using e by (simp add: history_exact_def)
    with i k show ?thesis
      unfolding h' by (intro exact_keep [OF e i(1), where w = "JObj d"]) (auto simp: keep_item_def rewrite_with_def)
  qed
qed

lemma exact_other:
  assumes e: "history_exact seen h" and k: "\<not> is_custom_tool_call (JObj d)"
    "text_field d ''type'' \<noteq> Some ''custom_tool_call_output''" and r: "history_other d h = Inr h'"
  shows "history_exact (seen @ [JObj d]) h'"
proof -
  have i: "item_called (JObj d) = []" "item_answers (JObj d) = []" "rewrite_with ids (JObj d) = JObj d" for ids
    using k by (simp_all add: item_called_def item_answers_def rewrite_with_def)
  with r show ?thesis
    by (intro exact_keep [OF e i(1)]) (auto simp: history_other_def keep_item_def Let_def split: if_splits)
qed

lemma exact_pair_item:
  assumes e: "history_exact seen h" and ok: "history_ok h" and r: "history_item raw h = Inr h'"
  shows "history_exact (seen @ [raw]) h'"
proof (cases "json_object raw")
  case None
  with r show ?thesis
    by (intro exact_keep [OF e, where w = raw])
       (auto simp: history_item_def keep_item_def item_called_def item_answers_def rewrite_with_def)
next
  case (Some d)
  then have raw: "raw = JObj d" by simp
  from r [unfolded raw] show ?thesis
  proof (rule history_item_cases)
    fix h1
    assume "h1 = h \<or> (\<exists>i. h1 = h\<lparr>hs_native := i # hs_native h\<rparr>)"
    then have "history_exact seen h1" "history_ok h1" using e ok by auto
    moreover assume "is_custom_tool_call (JObj d) \<and> history_call d h1 = Inr h'
     \<or> \<not> is_custom_tool_call (JObj d) \<and> text_field d ''type'' = Some ''custom_tool_call_output'' \<and> history_output d h1 = Inr h'
     \<or> \<not> is_custom_tool_call (JObj d) \<and> text_field d ''type'' \<noteq> Some ''custom_tool_call_output'' \<and> history_other d h1 = Inr h'"
    ultimately show ?thesis unfolding raw by (auto intro: exact_call exact_output exact_other)
  qed
qed

lemma history_items_ok:
  "history_ok h \<Longrightarrow> history_exact seen h \<Longrightarrow> history_items vs h = Inr h' \<Longrightarrow>
     history_ok h' \<and> history_exact (seen @ vs) h'"
proof (induction vs arbitrary: h seen)
  case (Cons v vs)
  then obtain h1 where h1: "history_item v h = Inr h1" "history_items vs h1 = Inr h'" by (auto simp: rbind_Inr_iff)
  from Cons.IH [OF history_ok_item [OF Cons.prems(1) h1(1)] exact_pair_item [OF Cons.prems(2,1) h1(1)] h1(2)] show ?case by simp
qed simp

text \<open>C21: The rewritten history is item for item the given one with the custom calls of \<open>apply_patch\<close>
  turned into function calls of the same id and patch, the outputs of exactly these calls into function
  outputs, and every other item as it was, the outputs of other custom tools included.  The ids handed
  back are the ids of these calls, each once, and for each of them the new history has exactly one
  function call, followed by exactly one output.\<close>
theorem history_pairs_complete:
  assumes "adapt_custom_tool_history True items = (Inr (out, ids, changed), events)"
  shows "out = map (rewrite_with (set ids)) items \<and> ids = rev (called items) \<and> distinct ids
    \<and> (changed \<longleftrightarrow> called items \<noteq> []) \<and> (\<forall>c \<in> set ids. events_of c out = [(True, c), (False, c)])"
proof -
  from assms obtain h where h: "history_items items empty_history = Inr h" "hs_pending h = []" "out = hs_rewritten h"
      "ids = hs_adapted_ids h" "changed \<longleftrightarrow> 0 < hs_adapted h"
    by (auto simp: adapt_custom_tool_history_def rbind_Inr_iff split: sum.splits if_splits)
  have "history_ok empty_history" "history_exact [] empty_history"
    by (simp_all add: history_ok_def history_exact_def empty_history_def)
  from history_items_ok [OF this h(1)] h show ?thesis by (auto simp: history_ok_def history_exact_def)
qed

definition sample_history :: "json list" where
  "sample_history =
     [JObj [(''type'', JStr ''custom_tool_call''), (''status'', JStr ''completed''), (''call_id'', JStr ''c1''),
            (''name'', JStr ''apply_patch''), (''input'', JStr ''*** A'')],
      JObj [(''type'', JStr ''custom_tool_call_output''), (''call_id'', JStr ''c1''), (''output'', JStr ''Done'')]]"

lemma str_strip_sample: "str_strip ''*** A'' \<noteq> []"
  by (subst str_strip_trimmed) (simp_all add: trimmed_def ascii_text_def space_code_def)

lemma sample_history_adapts:
  "case adapt_custom_tool_history True sample_history of (Inl _, _) \<Rightarrow> False | (Inr (out, ids, changed), _) \<Rightarrow> ids = [''c1'']"
  by (simp add: sample_history_def adapt_custom_tool_history_def history_item_def is_custom_tool_call_def is_call_of_def
      text_field_def hashable_def history_call_def history_output_def history_call_item_def exact_history_fields_def
      fields_are_def keep_item_def empty_history_def dict_has_def str_strip_sample APPLY_PATCH_FUNCTION_NAME_def
      CUSTOM_TOOL_HISTORY_CALL_FIELDS_def CUSTOM_TOOL_HISTORY_OUTPUT_FIELDS_def CUSTOM_TOOL_HISTORY_NATIVE_FIELDS_def
      non_empty_str_def del: dumps.simps)

theorem history_pairs_complete_witness:
  "\<exists>out changed events. adapt_custom_tool_history True sample_history = (Inr (out, [''c1''], changed), events)
     \<and> out = map (rewrite_with {''c1''}) sample_history \<and> events_of ''c1'' out = [(True, ''c1''), (False, ''c1'')]"
proof -
  from sample_history_adapts obtain out changed events
    where a: "adapt_custom_tool_history True sample_history = (Inr (out, [''c1''], changed), events)"
    by (auto split: prod.splits sum.splits)
  from history_pairs_complete [OF a] have "out = map (rewrite_with {''c1''}) sample_history"
    "events_of ''c1'' out = [(True, ''c1''), (False, ''c1'')]" by (simp, blast intro: list.set_intros)
  with a show ?thesis by blast
qed

definition sample_patch :: "nat list" where "sample_patch = map of_char ''*** A''"

lemma sample_patch_text: "utf8_of sample_patch = ''*** A''"
  unfolding sample_patch_def by (rule utf8_of_ascii) (simp add: ascii_text_def)

theorem patch_roundtrip_witness:
  "arguments_text_and_input (Some (JStr (dumps (JObj [(''patch'', JStr (utf8_of sample_patch))]))))
    = Inr (dumps (JObj [(''patch'', JStr (utf8_of sample_patch))]), ''*** A'')"
proof -
  have "list_all scalar_value sample_patch" by (simp add: sample_patch_def scalar_value_def)
  from patch_roundtrip [OF this] str_strip_sample show ?thesis
    unfolding sample_patch_text by simp
qed

end
