(* ===== verification/Apply_Patch_Stream.thy ===== *)
theory Apply_Patch_Stream
  imports Apply_Patch_Properties
begin

text \<open>
  The stream adapter of \<open>src-python/apply_patch_adapter.py\<close>: its invariant over all streams it
  accepts, and what the client is shown of each adapted call.
\<close>

section \<open>Actions that return\<close>

lemma raise_error_ok [action_ok]: "raise_error e s = (Inr b, s') \<longleftrightarrow> False"
  by (simp add: raise_error_def)

lemma fail_ok [action_ok]: "fail r s = (Inr b, s') \<longleftrightarrow> False"
  by (simp add: fail_def raise_error_def)

lemma fail_if_ok [action_ok]: "fail_if c r s = (Inr u, s') \<longleftrightarrow> \<not> c \<and> s' = s"
  by (auto simp: fail_if_def action_ok)

lemma checked_ok [action_ok]: "checked r s = (Inr a, s') \<longleftrightarrow> r = Inr a \<and> s' = s"
  by (cases r) (auto simp: checked_def action_ok)

lemma the_or_fail_ok [action_ok]: "the_or_fail v r s = (Inr a, s') \<longleftrightarrow> v = Some a \<and> s' = s"
  by (cases v) (auto simp: the_or_fail_def action_ok)

lemma output_index_ok [action_ok]:
  "output_index_of event s = (Inr n, s') \<longleftrightarrow> dict_get event ''output_index'' = Some (JInt n) \<and> 0 \<le> n \<and> s' = s"
  by (auto simp: output_index_of_def action_ok split: option.splits json.splits)

section \<open>Invariant\<close>

definition call_ok :: "adapter \<Rightarrow> string \<Rightarrow> call_state \<Rightarrow> bool" where
  "call_ok s i st \<longleftrightarrow>
     i \<noteq> [] \<and> cs_item_id st = i \<and> dict_get (pa_item_by_call s) (cs_call_id st) = Some i \<and> i \<notin> pa_custom_items s
     \<and> (if cs_arguments_done st
        then \<exists>a p v. cs_arguments st = Some a \<and> cs_patch st = Some p \<and> arguments_text_and_input v = Inr (a, p)
             \<and> (cs_initial st = None \<or> cs_initial st = Some a) \<and> (cs_delta st = [] \<or> cs_delta st = a)
        else cs_arguments st = None \<and> cs_patch st = None \<and> \<not> cs_item_done st)"

definition adapter_ok :: "adapter \<Rightarrow> bool" where
  "adapter_ok s \<longleftrightarrow>
     (\<forall>i st. dict_get (pa_states s) i = Some st \<longrightarrow> call_ok s i st)
     \<and> distinct (map fst (pa_states s))
     \<and> (pa_terminal_seen s \<longrightarrow> (\<forall>i st. dict_get (pa_states s) i = Some st \<longrightarrow> cs_item_done st))"

lemma call_ok_terminal [simp]: "call_ok (s\<lparr>pa_terminal_seen := b\<rparr>) = call_ok s"
  by (intro ext) (simp add: call_ok_def)

lemma adapter_okD:
  assumes "adapter_ok s" and "dict_get (pa_states s) i = Some st"
  shows "call_ok s i st" "pa_terminal_seen s \<Longrightarrow> cs_item_done st"
  using assms by (simp_all add: adapter_ok_def)

lemma adapter_ok_new: "adapter_ok (new_adapter surface)"
  by (simp add: adapter_ok_def new_adapter_def)

lemma remember_untouched_ok:
  assumes "remember_untouched item fallback s = (Inr u, s')"
  shows "pa_states s' = pa_states s" "pa_item_by_call s' = pa_item_by_call s" "pa_terminal_seen s' = pa_terminal_seen s"
    "\<exists>new. pa_custom_items s' = new \<union> pa_custom_items s \<and> (\<forall>i \<in> new. dict_get (pa_states s) i = None)"
    "text_field item ''id'' = Some i \<Longrightarrow> i \<noteq> [] \<Longrightarrow> i \<in> pa_custom_items s' \<and> dict_get (pa_states s) i = None"
proof -
  define m1 where "m1 = (case non_empty_str (dict_get item ''id'') of None \<Rightarrow> return ()
               | Some i \<Rightarrow> bind (fail_if (dict_has (pa_states s) i) ''duplicate_item_id'')
                             (\<lambda>_. change (\<lambda>s. s\<lparr>pa_custom_items := insert i (pa_custom_items s)\<rparr>)))"
  define m2 where "m2 = (case non_empty_str (dict_get item ''call_id'') of None \<Rightarrow> return ()
               | Some c \<Rightarrow> bind (fail_if (dict_has (pa_item_by_call s) c) ''duplicate_call_id'')
                             (\<lambda>_. change (\<lambda>s. s\<lparr>pa_custom_calls := insert c (pa_custom_calls s)\<rparr>)))"
  from assms obtain s1 s2 where m: "m1 s = (Inr (), s1)" "m2 s1 = (Inr (), s2)"
    "s' = s2\<lparr>pa_untouched := insert (untouched_key item fallback) (pa_untouched s2)\<rparr>"
    by (auto simp: remember_untouched_def Let_def m1_def m2_def action_ok)
  from m(1) have 1: "s1 = s \<or> (\<exists>i. s1 = s\<lparr>pa_custom_items := insert i (pa_custom_items s)\<rparr> \<and> dict_get (pa_states s) i = None)"
    by (auto simp: m1_def action_ok dict_has_def split: option.splits)
  from m(2) have 2: "s2 = s1 \<or> (\<exists>c. s2 = s1\<lparr>pa_custom_calls := insert c (pa_custom_calls s1)\<rparr>)"
    by (auto simp: m2_def action_ok split: option.splits)
  show "pa_states s' = pa_states s" "pa_item_by_call s' = pa_item_by_call s" "pa_terminal_seen s' = pa_terminal_seen s"
    using 1 2 m(3) by auto
  show "\<exists>new. pa_custom_items s' = new \<union> pa_custom_items s \<and> (\<forall>i \<in> new. dict_get (pa_states s) i = None)"
    using 1
  proof (elim disjE exE conjE)
    assume "s1 = s"
    with 2 m(3) show ?thesis by (intro exI [of _ "{}"]) auto
  next
    fix i assume "s1 = s\<lparr>pa_custom_items := insert i (pa_custom_items s)\<rparr>" "dict_get (pa_states s) i = None"
    with 2 m(3) show ?thesis by (intro exI [of _ "{i}"]) auto
  qed
  show "i \<in> pa_custom_items s' \<and> dict_get (pa_states s) i = None" if "text_field item ''id'' = Some i" "i \<noteq> []"
  proof -
    from that have "non_empty_str (dict_get item ''id'') = Some i" by (simp add: non_empty_text)
    with m(1) have "s1 = s\<lparr>pa_custom_items := insert i (pa_custom_items s)\<rparr> \<and> dict_get (pa_states s) i = None"
      by (simp add: m1_def action_ok dict_has_def)
    with 2 m(3) show ?thesis by auto
  qed
qed

text \<open>Steps that only note custom items.\<close>

definition noted :: "adapter \<Rightarrow> adapter \<Rightarrow> bool" where
  "noted s s' \<longleftrightarrow> pa_states s' = pa_states s \<and> pa_item_by_call s' = pa_item_by_call s
     \<and> pa_terminal_seen s' = pa_terminal_seen s \<and> pa_custom_items s \<subseteq> pa_custom_items s'
     \<and> (\<forall>i \<in> pa_custom_items s'. i \<in> pa_custom_items s \<or> dict_get (pa_states s) i = None)"

lemma noted_refl: "noted s s" by (simp add: noted_def)

lemma noted_trans: "noted s s' \<Longrightarrow> noted s' s'' \<Longrightarrow> noted s s''"
  unfolding noted_def by (metis subset_trans)

lemma noted_remember: "remember_untouched item fallback s = (Inr u, s') \<Longrightarrow> noted s s'"
  using remember_untouched_ok [of item fallback s u s'] by (auto simp: noted_def)

lemma call_ok_cong:
  assumes "call_ok s i st" and "dict_get (pa_item_by_call s') (cs_call_id st) = dict_get (pa_item_by_call s) (cs_call_id st)"
    and "i \<notin> pa_custom_items s'"
  shows "call_ok s' i st"
  using assms by (simp only: call_ok_def simp_thms) blast

lemma call_ok_simps: "call_ok s i st \<Longrightarrow> i \<notin> pa_custom_items s" "call_ok s i st \<Longrightarrow> cs_item_id st = i"
  by (simp_all add: call_ok_def)

lemma adapter_ok_noted:
  assumes "adapter_ok s" and "noted s s'"
  shows "adapter_ok s'"
proof -
  from assms(2) have n: "pa_states s' = pa_states s" "pa_item_by_call s' = pa_item_by_call s"
    "pa_terminal_seen s' = pa_terminal_seen s"
    "\<And>i. i \<in> pa_custom_items s' \<Longrightarrow> i \<in> pa_custom_items s \<or> dict_get (pa_states s) i = None"
    by (simp_all add: noted_def)
  have "call_ok s' i st" if st: "dict_get (pa_states s) i = Some st" for i st
  proof (rule call_ok_cong)
    show "call_ok s i st" by (rule adapter_okD [OF assms(1) st])
    then show "i \<notin> pa_custom_items s'" using n(4) [of i] st by (auto simp: call_ok_def)
  qed (simp add: n)
  with assms(1) show ?thesis by (simp add: adapter_ok_def n)
qed

lemma bind_bothE:
  assumes "bind (checked r) f s = (Inr b, s'')"
  obtains a where "r = Inr a" "f a s = (Inr b, s'')"
  using assms by (auto elim!: bindE simp: checked_ok)

lemma bind_failE:
  assumes "bind (fail_if c r) f s = (Inr b, s'')"
  obtains "\<not> c" "f () s = (Inr b, s'')"
  using assms by (auto elim!: bindE simp: fail_if_ok)

lemma bind_theE:
  assumes "bind (the_or_fail v r) f s = (Inr b, s'')"
  obtains a where "v = Some a" "f a s = (Inr b, s'')"
  using assms by (auto elim!: bindE simp: the_or_fail_ok)

lemma bind_indexE:
  assumes "bind (output_index_of event) f s = (Inr b, s'')"
  obtains n where "dict_get event ''output_index'' = Some (JInt n)" "0 \<le> n" "f n s = (Inr b, s'')"
  using assms by (auto elim!: bindE simp: output_index_ok)

lemma terminal_call_ok:
  assumes "terminal_call item seen s = (Inr (i, w), s')"
  shows "s' = s \<and> (\<exists>st patch. dict_get (pa_states s) i = Some st \<and> cs_item_done st \<and> cs_patch st = Some patch
    \<and> item_identity item = Inr (i, cs_call_id st) \<and> w = JObj (custom_apply_patch_item item patch))"
proof -
  define m where "m = rbind (require_exact_fields item None) (\<lambda>_. rbind (item_identity item) (\<lambda>ids.
      rbind (arguments_text_and_input (dict_get item ''arguments'')) (\<lambda>args. Inr (ids, args))))"
  from assms obtain x where x: "m = Inr x" and r: "(\<lambda>((item_id, call_id), arguments, patch).
     bind (fail_if (item_id \<in> seen) ''duplicate_terminal_item'') (\<lambda>_ s.
     bind (the_or_fail (dict_get (pa_states s) item_id) ''unpaired_terminal_item'') (\<lambda>state.
     bind (fail_if (call_id \<noteq> cs_call_id state \<or> \<not> cs_item_done state
                    \<or> cs_arguments state \<noteq> Some arguments \<or> cs_patch state \<noteq> Some patch)
             ''conflicting_terminal_item'') (\<lambda>_.
       return (item_id, JObj (custom_apply_patch_item item patch)))) s)) x s = (Inr (i, w), s')"
    unfolding terminal_call_def m_def [symmetric] by (rule bind_bothE)
  obtain item_id call_id arguments patch where xe: "x = ((item_id, call_id), arguments, patch)" by (metis prod.exhaust)
  have ids: "item_identity item = Inr (item_id, call_id)"
  proof -
    from x obtain args where "item_identity item = Inr (fst x)" unfolding m_def
      by (cases "require_exact_fields item None"; cases "item_identity item";
          cases "arguments_text_and_input (dict_get item ''arguments'')") auto
    then show ?thesis by (simp add: xe)
  qed
  from r have r1: "bind (fail_if (item_id \<in> seen) ''duplicate_terminal_item'') (\<lambda>_ s.
     bind (the_or_fail (dict_get (pa_states s) item_id) ''unpaired_terminal_item'') (\<lambda>state.
     bind (fail_if (call_id \<noteq> cs_call_id state \<or> \<not> cs_item_done state
                    \<or> cs_arguments state \<noteq> Some arguments \<or> cs_patch state \<noteq> Some patch)
             ''conflicting_terminal_item'') (\<lambda>_.
       return (item_id, JObj (custom_apply_patch_item item patch)))) s) s = (Inr (i, w), s')"
    unfolding xe prod.case .
  from r1 show ?thesis
  proof (elim bind_failE bind_theE)
    fix st
    assume st: "dict_get (pa_states s) item_id = Some st"
      "\<not> (call_id \<noteq> cs_call_id st \<or> \<not> cs_item_done st \<or> cs_arguments st \<noteq> Some arguments \<or> cs_patch st \<noteq> Some patch)"
      "return (item_id, JObj (custom_apply_patch_item item patch)) s = (Inr (i, w), s')"
    then have "i = item_id" "w = JObj (custom_apply_patch_item item patch)" "s' = s" by (simp_all add: ret_ok)
    with st ids show ?thesis by auto
  qed
qed

lemma terminal_call_noted: "terminal_call item seen s = (Inr r, s') \<Longrightarrow> s' = s"
  by (cases r) (auto dest: terminal_call_ok)

lemma rewrite_output_noted: "rewrite_output n items seen s = (Inr r, s') \<Longrightarrow> noted s s'"
proof (induction items arbitrary: n seen s s' r)
  case Nil
  then show ?case by (simp add: action_ok noted_refl)
next
  case (Cons raw rest)
  have plain: "noted s0 s'" if "bind (rewrite_output (n + 1) rest seen0) (\<lambda>(ws, c). return (f ws c)) s0 = (Inr r, s')" for s0 seen0 f
  proof -
    from that obtain a s1 where a: "rewrite_output (n + 1) rest seen0 s0 = (Inr a, s1)" "(\<lambda>(ws, c). return (f ws c)) a s1 = (Inr r, s')"
      by (rule bindE)
    from a(2) have "s' = s1" by (cases a) (simp add: action_ok)
    with Cons.IH [OF a(1)] show ?thesis by simp
  qed
  show ?case
  proof (cases "json_object raw")
    case None
    with Cons.prems show ?thesis by (auto intro: plain)
  next
    case (Some item)
    show ?thesis
    proof (cases "is_function_call raw")
      case True
      with Some Cons.prems obtain a s1 where a: "terminal_call item seen s = (Inr a, s1)"
        "(\<lambda>(item_id, rewritten). bind (rewrite_output (n + 1) rest (insert item_id seen)) (\<lambda>(ws, c). return (rewritten # ws, True))) a s1 = (Inr r, s')"
        by (auto simp: bind_ok)
      from a(2) have "noted s1 s'" by (cases a) (auto intro: plain)
      with terminal_call_noted [OF a(1)] show ?thesis by simp
    next
      case nofun: False
      show ?thesis
      proof (cases "is_custom_tool_call raw")
        case True
        with Some nofun Cons.prems obtain s1 u where a: "remember_untouched item (''terminal:'' @ nat_text n) s = (Inr u, s1)"
          "bind (rewrite_output (n + 1) rest seen) (\<lambda>(ws, c). return (raw # ws, c)) s1 = (Inr r, s')"
          by (auto simp: bind_ok)
        from noted_trans [OF noted_remember [OF a(1)] plain [OF a(2)]] show ?thesis .
      next
        case False
        with Some nofun Cons.prems show ?thesis by (auto intro: plain)
      qed
    qed
  qed
qed

lemma rewrite_terminal_noted: "rewrite_terminal_response event s = (Inr r, s') \<Longrightarrow> noted s s'"
  by (auto simp: rewrite_terminal_response_def action_ok noted_refl
      dest!: rewrite_output_noted split: option.splits json.splits prod.splits)

lemma on_terminal_ok:
  assumes ok: "adapter_ok s" and r: "on_terminal event s = (Inr (out, c), s')"
  shows "adapter_ok s'" "pa_states s' = pa_states s" "pa_terminal_seen s'" "pa_custom_items s \<subseteq> pa_custom_items s'"
proof -
  from r obtain s1 where s1: "noted s s1" "list_all (\<lambda>(k, state). cs_item_done state) (pa_states s1)"
    "s' = s1\<lparr>pa_terminal_seen := True\<rparr>"
    by (auto simp: on_terminal_def action_ok ensure_terminal_lifecycle_def dest!: rewrite_terminal_noted split: prod.splits)
  have "dict_get (pa_states s1) i = Some st \<Longrightarrow> cs_item_done st" for i st
    using s1(2) map_of_SomeD [of "pa_states s1" i st] by (fastforce simp: list_all_iff)
  with adapter_ok_noted [OF ok s1(1)] s1(3) show "adapter_ok s'"
    by (simp add: adapter_ok_def)
  show "pa_states s' = pa_states s" "pa_terminal_seen s'" "pa_custom_items s \<subseteq> pa_custom_items s'"
    using s1 by (simp_all add: noted_def)
qed

section \<open>What the client is shown\<close>

text \<open>The input the client reads of the item \<open>i\<close> in an event: where, and which.\<close>

definition ITEM_ADDED :: string where "ITEM_ADDED = ''response.output_item.added''"
definition ITEM_DONE :: string where "ITEM_DONE = ''response.output_item.done''"
definition INPUT_DONE :: string where "INPUT_DONE = ''response.custom_tool_call_input.done''"

lemmas kind_defs = ITEM_ADDED_def ITEM_DONE_def INPUT_DONE_def

definition input_of :: "obj \<Rightarrow> string" where
  "input_of d = (case text_field d ''input'' of None \<Rightarrow> [] | Some t \<Rightarrow> t)"

definition shown :: "string \<Rightarrow> obj \<Rightarrow> (string \<times> string) list" where
  "shown i event =
     (case text_field event ''type'' of
        None \<Rightarrow> []
      | Some kind \<Rightarrow>
          (if kind = ITEM_ADDED \<or> kind = ITEM_DONE then
             (case json_object_field event ''item'' of
                None \<Rightarrow> []
              | Some item \<Rightarrow>
                  (if is_custom_tool_call (JObj item) \<and> text_field item ''id'' = Some i
                   then [(kind, input_of item)] else []))
           else if kind = INPUT_DONE then
             (if text_field event ''item_id'' = Some i then [(kind, input_of event)] else [])
           else []))"

definition life :: "call_state option \<Rightarrow> (string \<times> string) list" where
  "life st =
     (case st of
        None \<Rightarrow> []
      | Some c \<Rightarrow> (ITEM_ADDED, []) #
          (case cs_patch c of
             None \<Rightarrow> []
           | Some p \<Rightarrow> (INPUT_DONE, p) # (if cs_item_done c then [(ITEM_DONE, p)] else [])))"

lemma text_field_set: "text_field (dict_set d k v) k' = (if k' = k then (case v of JStr t \<Rightarrow> Some t | _ \<Rightarrow> None) else text_field d k')"
  by (simp add: text_field_def dict_simps)

lemma text_field_pop: "text_field (dict_pop d k) k' = (if k' = k then None else text_field d k')"
  by (simp add: text_field_def dict_simps)

lemma custom_item_facts:
  assumes "is_function_call (JObj item)"
  shows "is_custom_tool_call (JObj (custom_apply_patch_item item p))"
    "text_field (custom_apply_patch_item item p) ''id'' = text_field item ''id''"
    "input_of (custom_apply_patch_item item p) = p"
  using assms
  by (simp_all add: is_function_call_def is_custom_tool_call_def is_call_of_def custom_apply_patch_item_def
      text_field_set text_field_pop input_of_def)

lemma json_object_field_set: "json_object_field (dict_set d k (JObj v)) k = Some v"
  by (simp add: json_object_field_def dict_simps)

lemma identity_text: "item_identity item = Inr (i, c) \<Longrightarrow> text_field item ''id'' = Some i"
  by (auto simp: item_identity_def non_empty_str_def text_field_def split: option.splits json.splits if_splits)

lemma identity_some: "item_identity item = Inr (i, c) \<Longrightarrow> i \<noteq> []"
  by (auto simp: item_identity_def non_empty_str_def split: option.splits json.splits if_splits)

lemma shown_item:
  assumes "is_function_call (JObj item)" and "text_field event ''type'' = Some kind" and "kind = ITEM_ADDED \<or> kind = ITEM_DONE"
    and "item_identity item = Inr (i, c)"
  shows "shown j (dict_set event ''item'' (JObj (custom_apply_patch_item item p))) = (if j = i then [(kind, p)] else [])"
proof -
  have t: "text_field (dict_set event ''item'' (JObj (custom_apply_patch_item item p))) ''type'' = Some kind"
    using assms(2) by (simp add: text_field_set)
  from identity_text [OF assms(4)] custom_item_facts [OF assms(1), of p] assms(3) show ?thesis
    by (auto simp: shown_def t json_object_field_set)
qed

text \<open>What the upstream says of the item \<open>i\<close> in an event: the announcement, a piece of its arguments, its
  whole arguments.\<close>

definition ARGUMENTS_DELTA :: string where "ARGUMENTS_DELTA = ''response.function_call_arguments.delta''"
definition ARGUMENTS_DONE :: string where "ARGUMENTS_DONE = ''response.function_call_arguments.done''"

lemmas upstream_kinds = ARGUMENTS_DELTA_def ARGUMENTS_DONE_def

definition patch_item :: "string \<Rightarrow> string \<Rightarrow> obj \<Rightarrow> obj option" where
  "patch_item kind i event =
     (if text_field event ''type'' = Some kind
      then (case json_object_field event ''item'' of
              None \<Rightarrow> None
            | Some item \<Rightarrow>
                (if is_function_call (JObj item) \<and> text_field item ''id'' = Some i then Some item else None))
      else None)"

definition announces :: "string \<Rightarrow> obj \<Rightarrow> bool" where
  "announces i event \<longleftrightarrow> patch_item ITEM_ADDED i event \<noteq> None"

definition about_item :: "string \<Rightarrow> string \<Rightarrow> obj \<Rightarrow> bool" where
  "about_item kind i event \<longleftrightarrow> text_field event ''type'' = Some kind \<and> text_field event ''item_id'' = Some i"

definition delta_given :: "string \<Rightarrow> obj \<Rightarrow> string" where
  "delta_given i event =
     (if about_item ARGUMENTS_DELTA i event
      then (case text_field event ''delta'' of None \<Rightarrow> [] | Some t \<Rightarrow> t) else [])"

definition values_given :: "string \<Rightarrow> obj \<Rightarrow> json option list" where
  "values_given i event =
     (if about_item ARGUMENTS_DONE i event then [dict_get event ''arguments'']
      else case patch_item ITEM_DONE i event of None \<Rightarrow> [] | Some item \<Rightarrow> [dict_get item ''arguments''])"

lemmas upstream_defs = patch_item_def announces_def about_item_def delta_given_def values_given_def

text \<open>How the arguments recorded so far were read.\<close>

definition answers :: "call_state \<Rightarrow> (adapter_error + string \<times> string) list" where
  "answers c =
     (case (cs_arguments c, cs_patch c) of
        (Some a, Some p) \<Rightarrow> Inr (a, p) # (if cs_item_done c then [Inr (a, p)] else [])
      | _ \<Rightarrow> [])"

lemma answers_none: "cs_patch c = None \<Longrightarrow> answers c = []"
  by (simp add: answers_def split: option.split)

text \<open>What a handler owes of an event and of everything it hands on for it, changed or not: each life
  advances by exactly what is shown, the pieces and the arguments recorded are the upstream's, and a
  life begins with its announcement.\<close>

definition advances :: "string \<Rightarrow> obj \<Rightarrow> adapter \<Rightarrow> adapter \<Rightarrow> obj list \<Rightarrow> bool" where
  "advances i event s s' out \<longleftrightarrow>
     (case (dict_get (pa_states s) i, dict_get (pa_states s') i) of
        (None, None) \<Rightarrow> \<not> announces i event
            \<and> (concat (map (shown i) out) = [] \<or> i = [] \<or> i \<in> pa_custom_items s')
      | (None, Some c) \<Rightarrow> announces i event \<and> i \<noteq> [] \<and> i \<notin> pa_custom_items s
            \<and> concat (map (shown i) out) = life (Some c) \<and> cs_delta c = [] \<and> answers c = []
      | (Some b, Some c) \<Rightarrow> life (Some c) = life (Some b) @ concat (map (shown i) out)
            \<and> cs_delta c = cs_delta b @ delta_given i event
            \<and> answers c = answers b @ map arguments_text_and_input (values_given i event)
      | (Some b, None) \<Rightarrow> False)"

definition keeps_life :: "obj \<Rightarrow> adapter \<Rightarrow> adapter \<Rightarrow> obj list \<Rightarrow> bool" where
  "keeps_life event s s' out \<longleftrightarrow>
     pa_custom_items s \<subseteq> pa_custom_items s' \<and> (\<forall>i. \<not> about_item INPUT_DONE i event \<longrightarrow> advances i event s s' out)"

lemma quiet:
  assumes "adapter_ok s'" and "pa_states s' = pa_states s" and "pa_custom_items s \<subseteq> pa_custom_items s'"
    and "\<And>i. \<not> announces i event"
    and "\<And>i. \<not> about_item INPUT_DONE i event \<Longrightarrow> concat (map (shown i) out) = []
           \<or> dict_get (pa_states s) i = None \<and> (i = [] \<or> i \<in> pa_custom_items s')"
    and "\<And>i. dict_get (pa_states s) i \<noteq> None \<Longrightarrow> delta_given i event = [] \<and> values_given i event = []"
  shows "adapter_ok s' \<and> keeps_life event s s' out"
proof -
  have "advances i event s s' out" if "\<not> about_item INPUT_DONE i event" for i
    using assms(2,4) assms(5) [OF that] assms(6) [of i] by (auto simp: advances_def split: option.splits)
  with assms(1,3) show ?thesis by (simp add: keeps_life_def)
qed

text \<open>The one item whose life an event advances.\<close>

lemma advanced:
  assumes "adapter_ok s'" and states: "pa_states s' = dict_set (pa_states s) i c" and "pa_custom_items s' = pa_custom_items s"
    and "\<And>j. j \<noteq> i \<Longrightarrow> \<not> announces j event \<and> delta_given j event = [] \<and> values_given j event = []
           \<and> concat (map (shown j) out) = []"
    and here: "advances i event s s' out"
  shows "adapter_ok s' \<and> keeps_life event s s' out"
proof -
  have "advances j event s s' out" for j
  proof (cases "j = i")
    case False
    with assms(4) [OF False] show ?thesis by (simp add: advances_def states dict_simps split: option.splits)
  qed (use here in simp)
  with assms(1,3) show ?thesis by (simp add: keeps_life_def)
qed

lemma terminal_kind_not_shown:
  assumes "text_field e ''type'' = Some kind" and "List.member TERMINAL_EVENT_TYPES kind"
  shows "shown i e = []"
proof -
  have "kind \<noteq> ITEM_ADDED" "kind \<noteq> ITEM_DONE" "kind \<noteq> INPUT_DONE"
    using assms(2) by (auto simp: TERMINAL_EVENT_TYPES_def kind_defs)
  with assms(1) show ?thesis by (simp add: shown_def)
qed

text \<open>Events that say nothing of an item: no announcement, no arguments.\<close>

lemma not_about:
  assumes "text_field event ''type'' = Some kind" and "kind \<noteq> ARGUMENTS_DELTA" and "kind \<noteq> ARGUMENTS_DONE"
    and "\<And>item. json_object_field event ''item'' = Some item \<Longrightarrow> kind = ITEM_ADDED \<or> kind = ITEM_DONE \<Longrightarrow>
      \<not> is_function_call (JObj item)"
  shows "\<not> announces i event" "delta_given i event = []" "values_given i event = []"
  using assms by (auto simp: upstream_defs split: option.splits)

lemma passed_item:
  assumes ok: "adapter_ok s" and kind: "text_field event ''type'' = Some kind" "kind = ITEM_ADDED \<or> kind = ITEM_DONE"
    and no: "\<And>item. json_object_field event ''item'' = Some item \<Longrightarrow>
      \<not> is_function_call (JObj item) \<and> \<not> is_custom_tool_call (JObj item)"
  shows "adapter_ok s \<and> keeps_life event s s [event]"
proof (rule quiet [OF ok refl])
  have k: "kind \<noteq> ARGUMENTS_DELTA" "kind \<noteq> ARGUMENTS_DONE" using kind(2) by (auto simp: kind_defs upstream_kinds)
  note n = not_about [OF kind(1) k] no
  show "\<not> announces i event" "delta_given i event = [] \<and> values_given i event = []" for i using n by auto
  have "shown i event = []" for i using kind no by (auto simp: shown_def split: option.splits)
  then show "concat (map (shown i) [event]) = [] \<or> dict_get (pa_states s) i = None \<and> (i = [] \<or> i \<in> pa_custom_items s)" for i
    by simp
qed simp

lemma untouched_passed:
  assumes ok: "adapter_ok s" and kind: "text_field event ''type'' = Some kind" "kind = ITEM_ADDED \<or> kind = ITEM_DONE"
    and item: "json_object_field event ''item'' = Some item" "\<not> is_function_call (JObj item)"
    and "bind (remember_untouched item fallback) (\<lambda>_. return ([event], False)) s = (Inr (out, c), s')"
  shows "adapter_ok s' \<and> keeps_life event s s' out"
  using assms(6)
proof (rule bindE)
  fix u s1
  assume r: "remember_untouched item fallback s = (Inr u, s1)" and e: "return ([event], False) s1 = (Inr (out, c), s')"
  from e have s': "s' = s1" "out = [event]" by (simp_all add: ret_ok)
  have k: "kind \<noteq> ARGUMENTS_DELTA" "kind \<noteq> ARGUMENTS_DONE" using kind(2) by (auto simp: kind_defs upstream_kinds)
  have n: "\<not> announces i event" "delta_given i event = []" "values_given i event = []" for i
    using not_about [OF kind(1) k, of i] item by auto
  have "shown i event = [] \<or> text_field item ''id'' = Some i" for i
    using kind item by (auto simp: shown_def)
  with remember_untouched_ok(5) [OF r] have sh: "shown i event = [] \<or> dict_get (pa_states s) i = None \<and> i \<in> pa_custom_items s'
      \<or> i = []" for i using s' by blast
  have "dict_get (pa_states s) [] = None"
  proof (rule ccontr)
    assume "dict_get (pa_states s) [] \<noteq> None"
    then obtain c where "dict_get (pa_states s) [] = Some c" by blast
    with ok have "call_ok s [] c" by (rule adapter_okD(1))
    then show False by (simp add: call_ok_def)
  qed
  with sh have "concat (map (shown i) out) = [] \<or> dict_get (pa_states s) i = None \<and> (i = [] \<or> i \<in> pa_custom_items s')" for i
    using s' by auto
  with n adapter_ok_noted [OF ok noted_remember [OF r]] noted_remember [OF r] s' show ?thesis
    by (intro quiet) (simp_all add: noted_def)
qed

lemma added_item_ok:
  assumes "added_item item = Inr (i, c, initial)"
  shows "item_identity item = Inr (i, c)"
    "initial = None \<or> (\<exists>v p t. initial = Some t \<and> arguments_text_and_input v = Inr (t, p))"
proof -
  from assms show "item_identity item = Inr (i, c)"
    by (cases "require_exact_fields item (Some ''in_progress'')"; cases "item_identity item";
        cases "initial_arguments_of (dict_get item ''arguments'')") (auto simp: added_item_def)
  from assms show "initial = None \<or> (\<exists>v p t. initial = Some t \<and> arguments_text_and_input v = Inr (t, p))"
    by (cases "require_exact_fields item (Some ''in_progress'')"; cases "item_identity item";
        cases "arguments_text_and_input (dict_get item ''arguments'')")
       (auto simp: added_item_def initial_arguments_of_def split: if_splits)
qed

lemma state_added:
  assumes ok: "adapter_ok s" and live: "\<not> pa_terminal_seen s" and r: "state_from_added_item item n s = (Inr u, s')"
  obtains i c initial where "added_item item = Inr (i, c, initial)" "dict_get (pa_states s) i = None"
    "pa_states s' = dict_set (pa_states s) i \<lparr>cs_item_id = i, cs_call_id = c, cs_output_index = n,
        cs_initial = initial, cs_arguments = None, cs_patch = None, cs_delta = [],
        cs_arguments_done = False, cs_item_done = False\<rparr>"
    "adapter_ok s'" "i \<notin> pa_custom_items s" "pa_custom_items s' = pa_custom_items s"
proof -
  from r obtain x where x: "added_item item = Inr x" and r1: "(\<lambda>(item_id, call_id, initial) s.
       bind (fail_if (dict_has (pa_states s) item_id \<or> item_id \<in> pa_custom_items s) ''duplicate_item_added'')
         (\<lambda>_. bind (fail_if (dict_has (pa_item_by_call s) call_id \<or> call_id \<in> pa_custom_calls s) ''duplicate_call_id'')
         (\<lambda>_. change (\<lambda>s. s\<lparr>pa_states := dict_set (pa_states s) item_id
                   \<lparr>cs_item_id = item_id, cs_call_id = call_id, cs_output_index = n,
                    cs_initial = initial, cs_arguments = None, cs_patch = None, cs_delta = [],
                    cs_arguments_done = False, cs_item_done = False\<rparr>,
                 pa_item_by_call := dict_set (pa_item_by_call s) call_id item_id\<rparr>))) s) x s = (Inr u, s')"
    unfolding state_from_added_item_def by (rule bind_bothE)
  obtain i c initial where xe: "x = (i, c, initial)" by (metis prod.exhaust)
  define st where "st = \<lparr>cs_item_id = i, cs_call_id = c, cs_output_index = n,
        cs_initial = initial, cs_arguments = None, cs_patch = None, cs_delta = [],
        cs_arguments_done = False, cs_item_done = False\<rparr>"
  from r1 have new: "dict_get (pa_states s) i = None" "i \<notin> pa_custom_items s" "dict_get (pa_item_by_call s) c = None"
    and s': "s' = s\<lparr>pa_states := dict_set (pa_states s) i st, pa_item_by_call := dict_set (pa_item_by_call s) c i\<rparr>"
    unfolding xe st_def by (auto elim!: bind_failE simp: change_ok dict_has_def)
  have "call_ok s' j sj" if sj: "dict_get (pa_states s') j = Some sj" for j sj
  proof (cases "j = i")
    case True
    with sj have "sj = st" by (simp add: s' dict_simps)
    with True new(2) identity_some [OF added_item_ok(1) [OF x [unfolded xe]]] show ?thesis
      by (simp add: call_ok_def s' dict_simps st_def)
  next
    case False
    with sj have old: "dict_get (pa_states s) j = Some sj" by (simp add: s' dict_simps)
    then have c: "call_ok s j sj" by (rule adapter_okD [OF ok])
    then have "cs_call_id sj \<noteq> c" "j \<notin> pa_custom_items s" using new(3) by (auto simp: call_ok_def)
    with c show ?thesis by (intro call_ok_cong [OF c]) (simp_all add: s' dict_simps)
  qed
  moreover have "distinct (map fst (pa_states s'))" using ok by (simp add: s' adapter_ok_def distinct_dict_set)
  ultimately have "adapter_ok s'" using live by (simp add: adapter_ok_def) (simp add: s')
  with that [of i c initial] x new(1,2) show thesis by (simp add: xe s' st_def)
qed

lemma added_ok:
  assumes ok: "adapter_ok s" and live: "\<not> pa_terminal_seen s" and kind: "text_field event ''type'' = Some ITEM_ADDED"
    and r: "on_item_added event s = (Inr (out, ch), s')"
  shows "adapter_ok s' \<and> keeps_life event s s' out"
proof (cases "json_object_field event ''item''")
  case None
  with r passed_item [OF ok kind] show ?thesis by (simp add: on_item_added_def ret_ok)
next
  case (Some item)
  show ?thesis
  proof (cases "is_function_call (JObj item)")
    case False
    show ?thesis
    proof (cases "is_custom_tool_call (JObj item)")
      case True
      with Some r False have "bind (remember_untouched item ''added'') (\<lambda>_. return ([event], False)) s = (Inr (out, ch), s')"
        by (simp add: on_item_added_def)
      from untouched_passed [OF ok kind _ Some False this] show ?thesis by simp
    qed (use Some False r passed_item [OF ok kind] in \<open>simp add: on_item_added_def ret_ok\<close>)
  next
    case True
    with Some r have "bind (output_index_of event) (\<lambda>output_index. bind (state_from_added_item item output_index) (\<lambda>_.
        return ([dict_set event ''item'' (JObj (custom_apply_patch_item item []))], True))) s = (Inr (out, ch), s')"
      by (simp add: on_item_added_def)
    then obtain n u s1 where st: "state_from_added_item item n s = (Inr u, s1)"
      and e: "return ([dict_set event ''item'' (JObj (custom_apply_patch_item item []))], True) s1 = (Inr (out, ch), s')"
      by (elim bind_indexE bindE)
    from e have out: "out = [dict_set event ''item'' (JObj (custom_apply_patch_item item []))]" "s' = s1"
      by (simp_all add: ret_ok)
    from state_added [OF ok live st] obtain i c initial where a: "added_item item = Inr (i, c, initial)"
      "dict_get (pa_states s) i = None" "adapter_ok s1" "i \<notin> pa_custom_items s" "pa_custom_items s1 = pa_custom_items s"
      and states: "pa_states s1 = dict_set (pa_states s) i \<lparr>cs_item_id = i, cs_call_id = c, cs_output_index = n,
        cs_initial = initial, cs_arguments = None, cs_patch = None, cs_delta = [],
        cs_arguments_done = False, cs_item_done = False\<rparr>" by metis
    note id = added_item_ok(1) [OF a(1)]
    have sh: "shown j (dict_set event ''item'' (JObj (custom_apply_patch_item item []))) = (if j = i then [(ITEM_ADDED, [])] else [])" for j
      by (rule shown_item [OF True kind _ id]) simp
    have an: "announces j event \<longleftrightarrow> j = i" for j
      using Some True kind identity_text [OF id] by (auto simp: upstream_defs)
    have "delta_given j event = []" "values_given j event = []" for j
      using kind by (auto simp: upstream_defs upstream_kinds kind_defs)
    with a sh an states show ?thesis unfolding out
      by (intro advanced [where i = i]) (simp_all add: advances_def dict_simps life_def answers_def identity_some [OF id])
  qed
qed

lemma state_for_event_ok:
  assumes "state_for_event event s = (Inr st, s')"
  shows "s' = s \<and> (\<exists>i. text_field event ''item_id'' = Some i \<and> dict_get (pa_states s) i = Some st)"
  using assms unfolding state_for_event_def
  by (auto elim!: bind_theE bind_indexE bind_failE simp: ret_ok non_empty_text)

lemma stored_ok:
  assumes ok: "adapter_ok s" and live: "\<not> pa_terminal_seen s" and st: "dict_get (pa_states s) i = Some st"
    and st': "call_ok s i st'"
    and s': "pa_states s' = dict_set (pa_states s) (cs_item_id st') st'" "pa_item_by_call s' = pa_item_by_call s"
      "pa_custom_items s' = pa_custom_items s" "pa_terminal_seen s' = pa_terminal_seen s"
  shows "adapter_ok s'"
proof -
  note i = call_ok_simps(2) [OF st']
  have "call_ok s' j sj" if "dict_get (pa_states s') j = Some sj" for j sj
  proof (cases "j = i")
    case True
    with that have "sj = st'" by (simp add: s' i dict_simps)
    with True call_ok_cong [OF st', of s'] call_ok_simps(1) [OF st'] show ?thesis by (simp add: s')
  next
    case False
    with that have "dict_get (pa_states s) j = Some sj" by (simp add: s' i dict_simps)
    then have c: "call_ok s j sj" by (rule adapter_okD [OF ok])
    from call_ok_cong [OF c, of s'] call_ok_simps(1) [OF c] show ?thesis by (simp add: s')
  qed
  moreover have "distinct (map fst (pa_states s'))" using ok by (simp add: s' adapter_ok_def distinct_dict_set)
  ultimately show ?thesis using live by (simp add: adapter_ok_def s'(4))
qed

lemma known_item_iff: "known_item event s \<longleftrightarrow> (\<exists>i. text_field event ''item_id'' = Some i \<and> dict_get (pa_states s) i \<noteq> None)"
  by (simp add: known_item_def dict_has_def split: option.split)

lemma unknown_passed:
  assumes ok: "adapter_ok s" and kind: "text_field event ''type'' = Some kind" "kind = ARGUMENTS_DELTA \<or> kind = ARGUMENTS_DONE"
    and unknown: "\<not> known_item event s"
  shows "adapter_ok s \<and> keeps_life event s s [event]"
proof (rule quiet [OF ok refl])
  have k: "kind \<noteq> ITEM_ADDED" "kind \<noteq> ITEM_DONE" "kind \<noteq> INPUT_DONE" using kind(2) by (auto simp: kind_defs upstream_kinds)
  show "\<not> announces i event" for i using k(1) by (simp add: announces_def patch_item_def kind(1))
  have "shown i event = []" for i using k by (simp add: shown_def kind(1))
  then show "concat (map (shown i) [event]) = [] \<or> dict_get (pa_states s) i = None \<and> (i = [] \<or> i \<in> pa_custom_items s)" for i
    by simp
  show "delta_given i event = [] \<and> values_given i event = []" if "dict_get (pa_states s) i \<noteq> None" for i
  proof -
    from that unknown have "\<not> about_item k i event" for k by (auto simp: known_item_iff about_item_def)
    moreover have "patch_item ITEM_DONE i event = None" using k(2) by (simp add: patch_item_def kind(1))
    ultimately show ?thesis by (simp add: delta_given_def values_given_def)
  qed
qed simp

lemma delta_ok:
  assumes ok: "adapter_ok s" and live: "\<not> pa_terminal_seen s" and kind: "text_field event ''type'' = Some ARGUMENTS_DELTA"
    and r: "on_arguments_delta event s = (Inr (out, ch), s')"
  shows "adapter_ok s' \<and> keeps_life event s s' out"
proof (cases "known_item event s")
  case False
  with r unknown_passed [OF ok kind] show ?thesis by (simp add: on_arguments_delta_def ret_ok)
next
  case True
  with r have "bind (state_for_event event) (\<lambda>state.
           bind (fail_if (cs_arguments_done state \<or> cs_item_done state) ''invalid_arguments_delta'') (\<lambda>_.
           bind (the_or_fail (text_field event ''delta'') ''invalid_arguments_delta'') (\<lambda>delta.
           bind (change (store (state\<lparr>cs_delta := cs_delta state @ delta\<rparr>))) (\<lambda>_. return ([], True))))) s = (Inr (out, ch), s')"
    by (simp add: on_arguments_delta_def)
  then obtain st delta s1 where st1: "state_for_event event s = (Inr st, s1)"
    and open_call: "\<not> (cs_arguments_done st \<or> cs_item_done st)"
    and delta: "text_field event ''delta'' = Some delta"
    and e: "return ([], True) (store (st\<lparr>cs_delta := cs_delta st @ delta\<rparr>) s1) = (Inr (out, ch), s')"
    by (elim bindE bind_failE bind_theE bind_changeE)
  from state_for_event_ok [OF st1] obtain i where i: "s1 = s" "dict_get (pa_states s) i = Some st"
    and about: "text_field event ''item_id'' = Some i" by blast
  let ?st = "st\<lparr>cs_delta := cs_delta st @ delta\<rparr>"
  from e i have s': "s' = store ?st s" "out = []" by (simp_all add: ret_ok)
  have c: "call_ok s i st" by (rule adapter_okD [OF ok i(2)])
  then have c': "call_ok s i ?st" using open_call by (simp add: call_ok_def)
  have id: "cs_item_id st = i" "cs_patch st = None" using c open_call by (auto simp: call_ok_def)
  have "adapter_ok s'" by (rule stored_ok [OF ok live i(2) c']) (simp_all add: s' store_def)
  moreover have "\<not> announces j event" "values_given j event = []" "delta_given j event = (if j = i then delta else [])" for j
    using kind about delta by (auto simp: upstream_defs upstream_kinds kind_defs)
  ultimately show ?thesis using i(2) id
    by (intro advanced [where i = i and c = ?st]) (simp_all add: advances_def s' store_def dict_simps life_def answers_none)
qed

lemma arguments_done_ok:
  assumes ok: "adapter_ok s" and live: "\<not> pa_terminal_seen s" and kind: "text_field event ''type'' = Some ARGUMENTS_DONE"
    and r: "on_arguments_done event s = (Inr (out, ch), s')"
  shows "adapter_ok s' \<and> keeps_life event s s' out"
proof (cases "known_item event s")
  case False
  with r unknown_passed [OF ok kind] show ?thesis by (simp add: on_arguments_done_def ret_ok)
next
  case True
  define rest where "rest = (\<lambda>state (arguments, patch).
           bind (fail_if (cs_initial state \<noteq> None \<and> cs_initial state \<noteq> Some arguments) ''conflicting_arguments'') (\<lambda>_.
           bind (fail_if (cs_delta state \<noteq> [] \<and> arguments \<noteq> cs_delta state) ''conflicting_arguments'') (\<lambda>_.
           bind (change (\<lambda>s. (store (state\<lparr>cs_arguments := Some arguments, cs_patch := Some patch,
                                        cs_arguments_done := True\<rparr>) s)
                              \<lparr>pa_adapted := insert (cs_item_id state) (pa_adapted s)\<rparr>)) (\<lambda>_.
             return ([dict_pop (dict_set (dict_set event ''type'' (JStr ''response.custom_tool_call_input.done''))
                     ''input'' (JStr patch)) ''arguments''], True)))))"
  from True r have "bind (state_for_event event) (\<lambda>state.
           bind (fail_if (cs_arguments_done state \<or> cs_item_done state) ''duplicate_arguments_done'') (\<lambda>_.
           bind (checked (arguments_text_and_input (dict_get event ''arguments''))) (rest state))) s = (Inr (out, ch), s')"
    by (simp add: on_arguments_done_def rest_def)
  then obtain st x s1 where st1: "state_for_event event s = (Inr st, s1)"
    and open_call: "\<not> (cs_arguments_done st \<or> cs_item_done st)"
    and x: "arguments_text_and_input (dict_get event ''arguments'') = Inr x" and e: "rest st x s1 = (Inr (out, ch), s')"
    by (elim bindE bind_failE bind_bothE)
  from state_for_event_ok [OF st1] obtain i where i: "s1 = s" "text_field event ''item_id'' = Some i" "dict_get (pa_states s) i = Some st"
    by blast
  obtain a p where xe: "x = (a, p)" by (cases x)
  let ?st = "st\<lparr>cs_arguments := Some a, cs_patch := Some p, cs_arguments_done := True\<rparr>"
  let ?out = "dict_pop (dict_set (dict_set event ''type'' (JStr ''response.custom_tool_call_input.done'')) ''input'' (JStr p)) ''arguments''"
  from e have agree: "cs_initial st = None \<or> cs_initial st = Some a" "cs_delta st = [] \<or> cs_delta st = a"
    and s': "s' = (store ?st s)\<lparr>pa_adapted := insert (cs_item_id st) (pa_adapted s)\<rparr>" "out = [?out]"
    unfolding rest_def xe i(1) by (auto elim!: bind_failE bind_changeE simp: ret_ok)
  have c: "call_ok s i st" by (rule adapter_okD [OF ok i(3)])
  have id: "cs_item_id st = i" "cs_patch st = None" "\<not> cs_item_done st" using c open_call by (auto simp: call_ok_def)
  from c have c': "call_ok s i ?st" using agree x unfolding xe call_ok_def by auto
  have "adapter_ok s'" by (rule stored_ok [OF ok live i(3) c']) (simp_all add: s' store_def)
  moreover have "shown j ?out = (if j = i then [(INPUT_DONE, p)] else [])" for j
    using i(2) by (simp add: shown_def text_field_pop text_field_set kind_defs input_of_def)
  moreover have "\<not> announces j event" "delta_given j event = []"
    "values_given j event = (if j = i then [dict_get event ''arguments''] else [])" for j
    using kind i(2) by (auto simp: upstream_defs upstream_kinds kind_defs)
  moreover have "answers ?st = answers st @ [Inr (a, p)]" using id answers_none [of st] by (simp add: answers_def)
  ultimately show ?thesis using i(3) id x xe
    by (intro advanced [where i = i and c = ?st]) (simp_all add: advances_def s' store_def dict_simps life_def)
qed

lemma completed_item_ok:
  assumes "completed_item item = Inr (ids, args)"
  shows "item_identity item = Inr ids" "arguments_text_and_input (dict_get item ''arguments'') = Inr args"
  using assms
  by (cases "require_exact_fields item (Some ''completed'')"; cases "item_identity item";
      cases "arguments_text_and_input (dict_get item ''arguments'')"; simp add: completed_item_def)+

lemma check_completed_ok:
  assumes "check_completed_item item st s = (Inr u, s')"
  obtains a p where "s' = s" "item_identity item = Inr (cs_item_id st, cs_call_id st)"
    "cs_arguments_done st" "cs_arguments st = Some a" "cs_patch st = Some p"
    "arguments_text_and_input (dict_get item ''arguments'') = Inr (a, p)"
proof -
  from assms obtain x where x: "completed_item item = Inr x"
    and r: "(\<lambda>((item_id, call_id), arguments, patch).
     bind (fail_if (item_id \<noteq> cs_item_id st \<or> call_id \<noteq> cs_call_id st) ''conflicting_item_identity'') (\<lambda>_.
     bind (fail_if (\<not> cs_arguments_done st \<or> cs_arguments st = None \<or> cs_patch st = None)
             ''missing_arguments_done'') (\<lambda>_.
       fail_if (Some arguments \<noteq> cs_arguments st \<or> Some patch \<noteq> cs_patch st) ''conflicting_arguments''))) x s = (Inr u, s')"
    unfolding check_completed_item_def by (rule bind_bothE)
  obtain i c a p where xe: "x = ((i, c), a, p)" by (metis prod.exhaust)
  from r show thesis unfolding xe prod.case
    using that completed_item_ok [OF x [unfolded xe]]
    by (elim bind_failE) (auto simp: fail_if_ok)
qed

lemma item_done_ok:
  assumes ok: "adapter_ok s" and live: "\<not> pa_terminal_seen s" and kind: "text_field event ''type'' = Some ITEM_DONE"
    and r: "on_item_done event s = (Inr (out, ch), s')"
  shows "adapter_ok s' \<and> keeps_life event s s' out"
proof (cases "json_object_field event ''item''")
  case None
  with r passed_item [OF ok kind] show ?thesis by (simp add: on_item_done_def ret_ok)
next
  case (Some item)
  show ?thesis
  proof (cases "is_function_call (JObj item)")
    case False
    show ?thesis
    proof (cases "is_custom_tool_call (JObj item)")
      case True
      with Some r False have "bind (remember_untouched item ''done'') (\<lambda>_. return ([event], False)) s = (Inr (out, ch), s')"
        by (simp add: on_item_done_def)
      from untouched_passed [OF ok kind _ Some False this] show ?thesis by simp
    qed (use Some False r passed_item [OF ok kind] in \<open>simp add: on_item_done_def ret_ok\<close>)
  next
    case True
    define body where "body = (\<lambda>(item_id :: string, call_id :: string) s.
                bind (the_or_fail (dict_get (pa_states s) item_id) ''unpaired_stream_item'') (\<lambda>state.
                bind (fail_if (cs_item_done state) ''duplicate_item_done'') (\<lambda>_.
                bind (output_index_of event) (\<lambda>output_index.
                bind (fail_if (output_index \<noteq> cs_output_index state) ''conflicting_output_index'') (\<lambda>_.
                bind (check_completed_item item state) (\<lambda>_.
                bind (change (store (state\<lparr>cs_item_done := True\<rparr>))) (\<lambda>_.
                  return ([dict_set event ''item'' (JObj (custom_apply_patch_item item
                         (case cs_patch state of None \<Rightarrow> [] | Some p \<Rightarrow> p)))], True))))))) s)"
    from True Some r have "bind (checked (rbind (require_exact_fields item (Some ''completed'')) (\<lambda>_. item_identity item)))
        body s = (Inr (out, ch), s')"
      by (simp add: on_item_done_def body_def)
    then obtain x where "rbind (require_exact_fields item (Some ''completed'')) (\<lambda>_. item_identity item) = Inr x"
      and b: "body x s = (Inr (out, ch), s')" by (rule bind_bothE)
    then have x: "item_identity item = Inr x" by (cases "require_exact_fields item (Some ''completed'')") simp_all
    obtain i c where xe: "x = (i, c)" by (cases x)
    from b obtain st u s1 where st: "dict_get (pa_states s) i = Some st" "\<not> cs_item_done st"
      and chk: "check_completed_item item st s = (Inr u, s1)"
      and e: "return ([dict_set event ''item'' (JObj (custom_apply_patch_item item
             (case cs_patch st of None \<Rightarrow> [] | Some p \<Rightarrow> p)))], True) (store (st\<lparr>cs_item_done := True\<rparr>) s1) = (Inr (out, ch), s')"
      unfolding body_def xe prod.case by (elim bind_theE bind_failE bind_indexE bindE bind_changeE)
    from check_completed_ok [OF chk] obtain a p where p: "s1 = s" "cs_arguments_done st" "cs_patch st = Some p"
      "cs_arguments st = Some a" "arguments_text_and_input (dict_get item ''arguments'') = Inr (a, p)" by metis
    let ?st = "st\<lparr>cs_item_done := True\<rparr>"
    let ?out = "dict_set event ''item'' (JObj (custom_apply_patch_item item p))"
    from e p have s': "s' = store ?st s" "out = [?out]" by (simp_all add: ret_ok)
    have c: "call_ok s i st" by (rule adapter_okD [OF ok st(1)])
    then have c': "call_ok s i ?st" using p(2) by (simp add: call_ok_def)
    have "adapter_ok s'" by (rule stored_ok [OF ok live st(1) c']) (simp_all add: s' store_def)
    moreover have "shown j ?out = (if j = i then [(ITEM_DONE, p)] else [])" for j
      by (rule shown_item [OF True kind _ x [unfolded xe]]) simp
    moreover have "\<not> announces j event" "delta_given j event = []"
      "values_given j event = (if j = i then [dict_get item ''arguments''] else [])" for j
      using kind Some True identity_text [OF x [unfolded xe]] by (auto simp: upstream_defs upstream_kinds kind_defs)
    moreover have "answers ?st = answers st @ [Inr (a, p)]" using p st(2) by (simp add: answers_def)
    ultimately show ?thesis using st p call_ok_simps(2) [OF c]
      by (intro advanced [where i = i and c = ?st]) (simp_all add: advances_def s' store_def dict_simps life_def)
  qed
qed

section \<open>Streams\<close>

lemma rewrite_terminal_type:
  assumes "rewrite_terminal_response event s = (Inr (e, c), s')"
  shows "text_field e ''type'' = text_field event ''type''"
proof -
  have "e = event \<or> (\<exists>v. e = dict_set event ''response'' v)"
    using assms by (auto simp: rewrite_terminal_response_def action_ok split: option.splits json.splits prod.splits if_splits)
  then show ?thesis by (auto simp: text_field_set)
qed

lemma terminal_ok:
  assumes ok: "adapter_ok s" and kind: "text_field event ''type'' = Some kind" "List.member TERMINAL_EVENT_TYPES kind"
    and r: "on_terminal event s = (Inr (out, ch), s')"
  shows "adapter_ok s' \<and> keeps_life event s s' out"
proof -
  from r obtain e s1 where "rewrite_terminal_response event s = (Inr (e, ch), s1)" "out = [e]"
    by (auto simp: on_terminal_def action_ok split: prod.splits)
  then have sh: "concat (map (shown i) out) = []" for i
    using terminal_kind_not_shown [of e kind i] rewrite_terminal_type kind by simp
  have "kind \<noteq> ITEM_ADDED" "kind \<noteq> ITEM_DONE" "kind \<noteq> ARGUMENTS_DELTA" "kind \<noteq> ARGUMENTS_DONE"
    using kind(2) by (auto simp: TERMINAL_EVENT_TYPES_def kind_defs upstream_kinds)
  with not_about [OF kind(1)] sh on_terminal_ok [OF ok r] show ?thesis by (intro quiet) auto
qed

lemma other_passed:
  assumes ok: "adapter_ok s" and kind: "\<And>k. text_field event ''type'' = Some k \<Longrightarrow>
      k \<noteq> ITEM_ADDED \<and> k \<noteq> ITEM_DONE \<and> k \<noteq> ARGUMENTS_DELTA \<and> k \<noteq> ARGUMENTS_DONE"
  shows "adapter_ok s \<and> keeps_life event s s [event]"
proof (rule quiet [OF ok refl])
  show "\<not> announces i event" "delta_given i event = [] \<and> values_given i event = []" for i
    using kind by (auto simp: upstream_defs)
  show "concat (map (shown i) [event]) = [] \<or> dict_get (pa_states s) i = None \<and> (i = [] \<or> i \<in> pa_custom_items s)"
    if "\<not> about_item INPUT_DONE i event" for i
    using kind that by (auto simp: shown_def about_item_def split: option.split)
qed simp

lemma event_ok:
  assumes ok: "adapter_ok s" and r: "events_for_event event s = (Inr (out, ch), s')"
  shows "adapter_ok s' \<and> keeps_life event s s' out"
proof -
  from r have late: "\<not> (pa_terminal_seen s \<and> semantic_event event)" and d: "dispatch_event event s = (Inr (out, ch), s')"
    unfolding events_for_event_def by (auto elim!: bind_failE)
  show ?thesis
  proof (cases "text_field event ''type''")
    case None
    with d other_passed [OF ok, of event] show ?thesis by (simp add: dispatch_event_def ret_ok)
  next
    case (Some kind)
    have live: "\<not> pa_terminal_seen s" if "prefix ''response.'' kind"
      using late that Some by (simp add: semantic_event_def)
    consider "kind = ITEM_ADDED" "on_item_added event s = (Inr (out, ch), s')"
      | "kind = ARGUMENTS_DELTA" "on_arguments_delta event s = (Inr (out, ch), s')"
      | "kind = ARGUMENTS_DONE" "on_arguments_done event s = (Inr (out, ch), s')"
      | "kind = ITEM_DONE" "on_item_done event s = (Inr (out, ch), s')"
      | "List.member TERMINAL_EVENT_TYPES kind" "on_terminal event s = (Inr (out, ch), s')"
      | "kind \<noteq> ITEM_ADDED" "kind \<noteq> ITEM_DONE" "kind \<noteq> ARGUMENTS_DELTA" "kind \<noteq> ARGUMENTS_DONE"
        "return ([event], False) s = (Inr (out, ch), s')"
      using d Some by (auto simp: dispatch_event_def kind_defs upstream_kinds split: if_splits)
    then show ?thesis
    proof cases
      case 1
      with Some live show ?thesis by (intro added_ok [OF ok _ _ 1(2)]) (simp_all add: kind_defs)
    next
      case 2
      with Some live show ?thesis by (intro delta_ok [OF ok _ _ 2(2)]) (simp_all add: upstream_kinds)
    next
      case 3
      with Some live show ?thesis by (intro arguments_done_ok [OF ok _ _ 3(2)]) (simp_all add: upstream_kinds)
    next
      case 4
      with Some live show ?thesis by (intro item_done_ok [OF ok _ _ 4(2)]) (simp_all add: kind_defs)
    next
      case 5
      with Some show ?thesis by (intro terminal_ok [OF ok])
    next
      case 6
      with Some other_passed [OF ok, of event] show ?thesis by (simp add: ret_ok)
    qed
  qed
qed

text \<open>A stream the adapter accepts: its states, the upstream's events, and all events handed on for
  them, the unchanged ones included.\<close>

inductive stream_run :: "adapter \<Rightarrow> obj list \<Rightarrow> obj list \<Rightarrow> bool" where
  stream_start: "stream_run (new_adapter surface) [] []"
| stream_event: "stream_run s events L \<Longrightarrow> events_for_event event s = (Inr (out, ch), s') \<Longrightarrow>
    stream_run s' (events @ [event]) (L @ out)"

text \<open>The upstream's events from the announcement of the item \<open>i\<close> on.\<close>

definition since_announced :: "string \<Rightarrow> obj list \<Rightarrow> obj list" where
  "since_announced i = dropWhile (\<lambda>event. \<not> announces i event)"

definition follows :: "string \<Rightarrow> adapter \<Rightarrow> obj list \<Rightarrow> obj list \<Rightarrow> bool" where
  "follows i s events L \<longleftrightarrow>
     (case dict_get (pa_states s) i of
        None \<Rightarrow> list_all (\<lambda>event. \<not> announces i event) events
            \<and> (concat (map (shown i) L) = [] \<or> i = [] \<or> i \<in> pa_custom_items s)
      | Some c \<Rightarrow> \<not> list_all (\<lambda>event. \<not> announces i event) events
            \<and> concat (map (shown i) L) = life (Some c)
            \<and> cs_delta c = concat (map (delta_given i) (since_announced i events))
            \<and> answers c = map arguments_text_and_input (concat (map (values_given i) (since_announced i events))))"

lemma since_announced_simps:
  "list_all (\<lambda>event. \<not> announces i event) events \<Longrightarrow> since_announced i events = []"
  "list_all (\<lambda>event. \<not> announces i event) events \<Longrightarrow> announces i event \<Longrightarrow> since_announced i (events @ [event]) = [event]"
  "\<not> list_all (\<lambda>event. \<not> announces i event) events \<Longrightarrow> since_announced i (events @ [event]) = since_announced i events @ [event]"
  by (simp_all add: since_announced_def list_all_iff dropWhile_append1 dropWhile_append2 dropWhile_eq_Nil_conv) (auto intro: dropWhile_append1)

lemma follows_step:
  assumes f: "follows i s events L" and a: "advances i event s s' out" and sub: "pa_custom_items s \<subseteq> pa_custom_items s'"
    and ok: "adapter_ok s'"
  shows "follows i s' (events @ [event]) (L @ out)"
proof (cases "dict_get (pa_states s) i")
  case None
  show ?thesis
  proof (cases "dict_get (pa_states s') i")
    case none': None
    from f a None none' sub show ?thesis by (auto simp: follows_def advances_def)
  next
    case (Some c)
    from f a None Some have "announces i event" "list_all (\<lambda>event. \<not> announces i event) events"
      "concat (map (shown i) L) = []" "concat (map (shown i) out) = life (Some c)" "cs_delta c = []" "answers c = []"
      by (auto simp: follows_def advances_def)
    moreover from this have "delta_given i event = []" "values_given i event = []"
      by (auto simp: upstream_defs upstream_kinds kind_defs split: if_splits)
    ultimately show ?thesis using Some by (simp add: follows_def since_announced_simps)
  qed
next
  case (Some b)
  with a obtain c where "dict_get (pa_states s') i = Some c" by (auto simp: advances_def split: option.splits)
  with f a Some show ?thesis by (simp add: follows_def advances_def since_announced_simps)
qed

lemma stream_run_ok:
  assumes "stream_run s events L"
  shows "adapter_ok s \<and> (\<forall>i. list_all (\<lambda>event. \<not> about_item INPUT_DONE i event) events \<longrightarrow> follows i s events L)"
  using assms
proof (induction rule: stream_run.induct)
  case (stream_start surface)
  show ?case by (simp add: adapter_ok_new follows_def) (simp add: new_adapter_def)
next
  case (stream_event s events L event out ch s')
  then have "adapter_ok s'" "keeps_life event s s' out" using event_ok by blast+
  with stream_event.IH show ?case by (auto simp: keeps_life_def intro: follows_step)
qed

text \<open>C3: Of each call of \<open>apply_patch\<close> an accepted stream announces, until its terminal event the client is
  shown, in all that the adapter hands on, exactly one life: the item with an empty input, the input, and
  the completed item with the same input, in this order.  The upstream has then given the call's
  arguments exactly twice after the announcement, whole and in the completed item, both times they read as
  this input, and the pieces it sent were none or together the same arguments.  A stream that itself
  carries an input event of the item is left out: it is handed on as it is.\<close>
theorem stream_shows_one_life:
  assumes "stream_run s events L" and "pa_terminal_seen s"
    and "event \<in> set events" and "announces i event"
    and "list_all (\<lambda>event. \<not> about_item INPUT_DONE i event) events"
  shows "\<exists>a p v w. concat (map (shown i) L) = [(ITEM_ADDED, []), (INPUT_DONE, p), (ITEM_DONE, p)]
    \<and> concat (map (values_given i) (since_announced i events)) = [v, w]
    \<and> arguments_text_and_input v = Inr (a, p) \<and> arguments_text_and_input w = Inr (a, p)
    \<and> (let d = concat (map (delta_given i) (since_announced i events)) in d = [] \<or> d = a)"
proof -
  from stream_run_ok [OF assms(1)] assms(5) have ok: "adapter_ok s" and f: "follows i s events L" by auto
  from f assms(3,4) obtain c where c: "dict_get (pa_states s) i = Some c" "concat (map (shown i) L) = life (Some c)"
      "cs_delta c = concat (map (delta_given i) (since_announced i events))"
      "answers c = map arguments_text_and_input (concat (map (values_given i) (since_announced i events)))"
    by (auto simp: follows_def list_all_iff split: option.splits)
  from adapter_okD [OF ok c(1)] assms(2) have k: "call_ok s i c" "cs_item_done c" by simp_all
  then obtain a p where p: "cs_arguments c = Some a" "cs_patch c = Some p" "cs_delta c = [] \<or> cs_delta c = a"
    by (auto simp: call_ok_def split: if_splits)
  with k(2) c(4) have "map arguments_text_and_input (concat (map (values_given i) (since_announced i events)))
      = [Inr (a, p), Inr (a, p)]" by (simp add: answers_def)
  then obtain v w where "concat (map (values_given i) (since_announced i events)) = [v, w]"
      "arguments_text_and_input v = Inr (a, p)" "arguments_text_and_input w = Inr (a, p)"
    by (auto simp: map_eq_Cons_conv)
  moreover have "concat (map (shown i) L) = [(ITEM_ADDED, []), (INPUT_DONE, p), (ITEM_DONE, p)]"
    using c(2) p(2) k(2) by (simp add: life_def)
  ultimately show ?thesis using p(3) c(3) by (auto simp: Let_def)
qed

definition sample_call :: "string \<Rightarrow> string \<Rightarrow> obj" where
  "sample_call status arguments =
     [(''id'', JStr ''i1''), (''type'', JStr ''function_call''), (''status'', JStr status), (''call_id'', JStr ''c1''),
           (''name'', JStr ''apply_patch''), (''arguments'', JStr arguments)]"

definition sample_arguments :: string where
  "sample_arguments = dumps (JObj [(''patch'', JStr ''*** A'')])"

lemma sample_arguments_read: "arguments_text_and_input (Some (JStr sample_arguments)) = Inr (sample_arguments, ''*** A'')"
proof -
  define cps :: "nat list" where "cps = map of_char ''*** A''"
  have u: "utf8_of cps = ''*** A''" unfolding cps_def by (rule utf8_of_ascii) (simp add: ascii_text_def)
  have "list_all scalar_value cps" by (simp add: cps_def scalar_value_def)
  from loads_patch [OF this] have l: "loads_with argument_hooks sample_arguments = Inr (JObj [(''patch'', JStr ''*** A'')])"
    unfolding u sample_arguments_def .
  have "patch_of (JObj [(''patch'', JStr ''*** A'')]) = Inr ''*** A''"
    by (simp add: patch_of_def fields_are_def dict_has_def text_field_def str_strip_sample)
  with l show ?thesis by (simp add: arguments_text_and_input_def parse_arguments_def)
qed

lemma sample_arguments_some: "sample_arguments \<noteq> []"
  by (simp add: sample_arguments_def)

lemmas method_run = ret_def bind_def raise_error_def fail_def fail_if_def checked_def the_or_fail_def change_def
  store_def output_index_of_def state_for_event_def check_completed_item_def completed_item_def
  state_from_added_item_def added_item_def initial_arguments_of_def terminal_call_def
  rewrite_terminal_response_def ensure_terminal_lifecycle_def

lemmas handler_run = events_for_event_def semantic_event_def dispatch_event_def on_item_added_def on_arguments_delta_def
  on_arguments_done_def on_item_done_def on_terminal_def known_item_def json_object_field_def

lemma sample_call_kind [simp]:
  "is_function_call (JObj (sample_call st a))"
  by (simp add: sample_call_def is_function_call_def is_call_of_def text_field_def APPLY_PATCH_FUNCTION_NAME_def)

lemma sample_call_fields [simp]:
  "dict_get (sample_call st a) ''id'' = Some (JStr ''i1'')" "dict_get (sample_call st a) ''call_id'' = Some (JStr ''c1'')"
  "dict_get (sample_call st a) ''arguments'' = Some (JStr a)" "item_identity (sample_call st a) = Inr (''i1'', ''c1'')"
  by (simp_all add: sample_call_def item_identity_def non_empty_str_def)

lemma sample_call_exact [simp]:
  "st = ''in_progress'' \<or> st = ''completed'' \<Longrightarrow> e = None \<or> e = Some st \<Longrightarrow> require_exact_fields (sample_call st a) e = Inr ()"
  by (auto simp: sample_call_def require_exact_fields_def fields_are_def APPLY_PATCH_FUNCTION_CALL_FIELDS_def dict_has_def hashable_def)

definition sample_event :: "string \<Rightarrow> obj \<Rightarrow> obj" where
  "sample_event kind kvs = (''type'', JStr kind) # (''output_index'', JInt 0) # kvs"

lemma sample_event_type [simp]: "text_field (sample_event kind kvs) ''type'' = Some kind"
  by (simp add: sample_event_def text_field_def)

lemma sample_event_get [simp]: "dict_get (sample_event kind kvs) ''output_index'' = Some (JInt 0)"
  "k \<noteq> ''type'' \<Longrightarrow> k \<noteq> ''output_index'' \<Longrightarrow> dict_get (sample_event kind kvs) k = dict_get kvs k"
  "k \<noteq> ''type'' \<Longrightarrow> k \<noteq> ''output_index'' \<Longrightarrow> text_field (sample_event kind kvs) k = text_field kvs k"
  by (simp_all add: sample_event_def text_field_def)

lemma text_field_cons [simp]: "text_field ((k, JStr v) # d) k' = (if k' = k then Some v else text_field d k')"
  by (simp add: text_field_def)

definition sample_state :: "string option \<Rightarrow> string \<Rightarrow> bool \<Rightarrow> call_state" where
  "sample_state arguments delta finished =
     \<lparr>cs_item_id = ''i1'', cs_call_id = ''c1'', cs_output_index = 0, cs_initial = None, cs_arguments = arguments,
      cs_patch = map_option (\<lambda>_. ''*** A'') arguments, cs_delta = delta, cs_arguments_done = (arguments \<noteq> None),
      cs_item_done = finished\<rparr>"

definition holds_sample :: "adapter \<Rightarrow> string option \<Rightarrow> string \<Rightarrow> bool \<Rightarrow> bool" where
  "holds_sample s arguments delta finished \<longleftrightarrow>
     pa_states s = [(''i1'', sample_state arguments delta finished)] \<and> \<not> pa_terminal_seen s"

text \<open>Single steps of a method that returns.\<close>

lemma method_step_unit:
  "bind (fail_if c r) f s = (if c then (Inl (Failure r), snd (fail_if c r s)) else f () s)"
  "bind (change g) f s = f () (g s)"
  by (simp_all add: bind_def fail_if_def fail_def raise_error_def ret_def change_def)

lemma method_step_value:
  "bind (checked (Inr a)) f s = f a s" "bind (return a) f s = f a s" "bind (the_or_fail (Some a) r) f s = f a s"
  by (simp_all add: bind_def ret_def checked_def the_or_fail_def)

lemmas method_steps = method_step_unit method_step_value

lemma sample_index: "bind (output_index_of (sample_event kind kvs)) f s = f 0 s"
  by (simp add: output_index_of_def bind_def ret_def)

lemma sample_state_fields [simp]:
  "cs_item_id (sample_state a d b) = ''i1''" "cs_call_id (sample_state a d b) = ''c1''" "cs_output_index (sample_state a d b) = 0"
  "cs_initial (sample_state a d b) = None" "cs_arguments (sample_state a d b) = a"
  "cs_patch (sample_state a d b) = map_option (\<lambda>_. ''*** A'') a" "cs_delta (sample_state a d b) = d"
  "cs_arguments_done (sample_state a d b) = (a \<noteq> None)" "cs_item_done (sample_state a d b) = b"
  "sample_state a d b\<lparr>cs_delta := d'\<rparr> = sample_state a d' b" "sample_state a d b\<lparr>cs_item_done := b'\<rparr> = sample_state a d b'"
  "sample_state a d b\<lparr>cs_arguments := Some v, cs_patch := Some ''*** A'', cs_arguments_done := True\<rparr> = sample_state (Some v) d b"
  by (simp_all add: sample_state_def)

lemma holds_sample_store:
  assumes "holds_sample s a d b"
  shows "holds_sample (store (sample_state a' d' b') s) a' d' b'"
    "holds_sample (store (sample_state a' d' b') s\<lparr>pa_adapted := x\<rparr>) a' d' b'"
  using assms by (simp_all add: holds_sample_def store_def dict_set_def)

lemma sample_dispatch:
  assumes "holds_sample s a d b"
  shows "events_for_event (sample_event kind kvs) s = dispatch_event (sample_event kind kvs) s"
  using assms by (simp add: events_for_event_def method_steps holds_sample_def)

lemma sample_known:
  assumes "holds_sample s arguments delta finished" and "dict_get kvs ''item_id'' = Some (JStr ''i1'')"
  shows "known_item (sample_event kind kvs) s"
    "state_for_event (sample_event kind kvs) s = (Inr (sample_state arguments delta finished), s)"
proof -
  have "text_field kvs ''item_id'' = Some ''i1''" using assms(2) by (simp add: text_field_def)
  with assms show "known_item (sample_event kind kvs) s"
    by (simp add: known_item_def holds_sample_def dict_has_def)
  show "state_for_event (sample_event kind kvs) s = (Inr (sample_state arguments delta finished), s)"
    using assms
    by (simp add: method_run non_empty_str_def holds_sample_def)
qed

lemma sample_added:
  "\<exists>out s. events_for_event (sample_event ''response.output_item.added'' [(''item'', JObj (sample_call ''in_progress'' []))])
     (new_adapter ''stream'') = (Inr (out, True), s) \<and> holds_sample s None [] False"
proof -
  have a: "added_item (sample_call ''in_progress'' []) = Inr (''i1'', ''c1'', None)"
    by (simp add: added_item_def initial_arguments_of_def)
  show ?thesis
    by (simp add: events_for_event_def method_steps dispatch_event_def on_item_added_def json_object_field_def sample_index
        state_from_added_item_def a bind_def [of "checked _"] checked_def ret_def bind_def [of "bind _ _"] new_adapter_def
        dict_has_def dict_set_def holds_sample_def sample_state_def change_def)
qed

lemma sample_delta:
  assumes "holds_sample s None [] False"
  shows "\<exists>out s'. events_for_event (sample_event ''response.function_call_arguments.delta'' [(''item_id'', JStr ''i1''), (''delta'', JStr sample_arguments)])
     s = (Inr (out, True), s') \<and> holds_sample s' None sample_arguments False"
  by (simp add: sample_dispatch [OF assms] dispatch_event_def on_arguments_delta_def sample_known [OF assms] bind_step
      method_steps ret_def holds_sample_store [OF assms])

lemma sample_arguments_done:
  assumes "holds_sample s None sample_arguments False"
  shows "\<exists>out s'. events_for_event (sample_event ''response.function_call_arguments.done'' [(''item_id'', JStr ''i1''), (''arguments'', JStr sample_arguments)])
     s = (Inr (out, True), s') \<and> holds_sample s' (Some sample_arguments) sample_arguments False"
  by (simp add: sample_dispatch [OF assms] dispatch_event_def on_arguments_done_def sample_known [OF assms] bind_step
      method_steps ret_def holds_sample_store [OF assms] sample_arguments_read)

lemma sample_get:
  "holds_sample s a d b \<Longrightarrow> dict_get (pa_states s) ''i1'' = Some (sample_state a d b)"
  by (simp add: holds_sample_def)

lemma sample_completed:
  "check_completed_item (sample_call ''completed'' sample_arguments) (sample_state (Some sample_arguments) d b) s = (Inr (), s)"
  by (simp add: check_completed_item_def completed_item_def method_steps sample_arguments_read fail_if_def ret_def)

lemma sample_done:
  assumes "holds_sample s (Some sample_arguments) sample_arguments False"
  shows "\<exists>out s'. events_for_event (sample_event ''response.output_item.done'' [(''item'', JObj (sample_call ''completed'' sample_arguments))])
     s = (Inr (out, True), s') \<and> holds_sample s' (Some sample_arguments) sample_arguments True"
  by (simp add: sample_dispatch [OF assms] dispatch_event_def on_item_done_def json_object_field_def sample_index
      method_steps ret_def holds_sample_store [OF assms] sample_get [OF assms] sample_completed [THEN bind_step]
      sample_arguments_read)

lemma sample_terminal:
  assumes "holds_sample s (Some sample_arguments) sample_arguments True"
  shows "\<exists>out s'. events_for_event (sample_event ''response.completed'' [(''response'', JObj [(''output'', JArr [JObj (sample_call ''completed'' sample_arguments)])])])
     s = (Inr (out, True), s') \<and> pa_terminal_seen s' \<and> pa_states s' = pa_states s"
proof -
  have c: "terminal_call (sample_call ''completed'' sample_arguments) {} s
     = (Inr (''i1'', JObj (custom_apply_patch_item (sample_call ''completed'' sample_arguments) ''*** A'')), s)"
    by (simp add: terminal_call_def method_steps ret_def sample_get [OF assms] sample_arguments_read)
  have l: "ensure_terminal_lifecycle s = (Inr (), s)"
    using assms by (simp add: ensure_terminal_lifecycle_def holds_sample_def fail_if_def ret_def)
  show ?thesis
    by (simp add: sample_dispatch [OF assms] dispatch_event_def on_terminal_def rewrite_terminal_response_def
        TERMINAL_EVENT_TYPES_def method_steps ret_def bind_def c l change_def)
qed

definition sample_stream :: "obj list" where
  "sample_stream =
     [sample_event ''response.output_item.added'' [(''item'', JObj (sample_call ''in_progress'' []))],
      sample_event ''response.function_call_arguments.delta'' [(''item_id'', JStr ''i1''), (''delta'', JStr sample_arguments)],
      sample_event ''response.function_call_arguments.done'' [(''item_id'', JStr ''i1''), (''arguments'', JStr sample_arguments)],
      sample_event ''response.output_item.done'' [(''item'', JObj (sample_call ''completed'' sample_arguments))],
      sample_event ''response.completed'' [(''response'', JObj [(''output'', JArr [JObj (sample_call ''completed'' sample_arguments)])])]]"

lemma sample_stream_run: "\<exists>s L. stream_run s sample_stream L \<and> pa_terminal_seen s"
proof -
  obtain L1 s1 where 1: "stream_run s1 (take 1 sample_stream) L1" "holds_sample s1 None [] False"
    using sample_added stream_event [OF stream_start] unfolding sample_stream_def by (simp del: sample_event_get) blast
  obtain L2 s2 where 2: "stream_run s2 (take 2 sample_stream) L2" "holds_sample s2 None sample_arguments False"
    using sample_delta [OF 1(2)] stream_event [OF 1(1)] unfolding sample_stream_def by (simp del: sample_event_get) blast
  obtain L3 s3 where 3: "stream_run s3 (take 3 sample_stream) L3" "holds_sample s3 (Some sample_arguments) sample_arguments False"
    using sample_arguments_done [OF 2(2)] stream_event [OF 2(1)] unfolding sample_stream_def by (simp del: sample_event_get) blast
  obtain L4 s4 where 4: "stream_run s4 (take 4 sample_stream) L4" "holds_sample s4 (Some sample_arguments) sample_arguments True"
    using sample_done [OF 3(2)] stream_event [OF 3(1)] unfolding sample_stream_def by (simp del: sample_event_get) blast
  show ?thesis
    using sample_terminal [OF 4(2)] stream_event [OF 4(1)] unfolding sample_stream_def by (simp del: sample_event_get) blast
qed

lemma sample_announces: "announces ''i1'' (hd sample_stream)"
  by (simp add: sample_stream_def upstream_defs kind_defs json_object_field_def) (simp add: sample_call_def)

lemma sample_no_input: "list_all (\<lambda>event. \<not> about_item INPUT_DONE i event) sample_stream"
  by (simp add: sample_stream_def upstream_defs kind_defs)

theorem stream_shows_one_life_witness:
  "\<exists>s L p. stream_run s sample_stream L
     \<and> concat (map (shown ''i1'') L) = [(ITEM_ADDED, []), (INPUT_DONE, p), (ITEM_DONE, p)]"
proof -
  obtain s L where r: "stream_run s sample_stream L" "pa_terminal_seen s" using sample_stream_run by blast
  have "hd sample_stream \<in> set sample_stream" by (simp add: sample_stream_def)
  from stream_shows_one_life [OF r this sample_announces sample_no_input] r(1) show ?thesis by blast
qed

end
