(* ===== verification/Py_Number.thy ===== *)
theory Py_Number
  imports Py_Json Complex_Main
begin

text \<open>
  What the program does with numbers of JSON values: the double a float text denotes (round to
  nearest, ties to even, overflow to an infinity), \<open>int\<close> of it, and comparison with an integer.
\<close>

datatype pyfloat = Finite rat | Infinite bool | Not_A_Number

text \<open>The decimal number a JSON float text denotes.\<close>

definition digits_int :: "string \<Rightarrow> int" where
  "digits_int ds = foldl (\<lambda>n c. n * 10 + (of_char c - 48)) 0 ds"

definition pow10 :: "int \<Rightarrow> rat" where
  "pow10 e = (if 0 \<le> e then 10 ^ nat e else 1 / 10 ^ nat (- e))"

definition exponent_value :: "string \<Rightarrow> int" where
  "exponent_value s =
     (case s of
        c # CHR ''-'' # ds \<Rightarrow> - digits_int ds
      | c # CHR ''+'' # ds \<Rightarrow> digits_int ds
      | c # ds \<Rightarrow> digits_int ds
      | [] \<Rightarrow> 0)"

definition decimal_value :: "string \<Rightarrow> rat" where
  "decimal_value t =
     (case scan_number t of
        None \<Rightarrow> 0
      | Some (neg, ip, rest, _) \<Rightarrow>
          (let (frac, expo) = scan_fraction rest;
               ds = drop 1 frac;
               m = rat_of_int (digits_int (ip @ ds)) * pow10 (exponent_value expo - int (length ds))
           in if neg then - m else m))"

text \<open>The nearest double of a positive rational: its exponent, and the rounded multiple.\<close>

definition pow2 :: "int \<Rightarrow> rat" where
  "pow2 e = (if 0 \<le> e then 2 ^ nat e else 1 / 2 ^ nat (- e))"

function int_bits :: "int \<Rightarrow> int" where
  "int_bits n = (if n \<le> 0 then 0 else 1 + int_bits (n div 2))"
  by pat_completeness auto
termination by (relation "measure nat") auto

declare int_bits.simps [simp del]

definition binary_exponent :: "rat \<Rightarrow> int" where
  "binary_exponent q =
     (let (n, d) = quotient_of q;
          l = int_bits n - int_bits d
      in if pow2 l \<le> q then l else l - 1)"

definition round_half_even :: "rat \<Rightarrow> int" where
  "round_half_even q =
     (let n = \<lfloor>q\<rfloor>; r = q - of_int n
      in if r > 1 / 2 \<or> (r = 1 / 2 \<and> odd n) then n + 1 else n)"

definition nearest_double :: "rat \<Rightarrow> pyfloat" where
  "nearest_double q =
     (if q = 0 then Finite 0
      else let e = max (binary_exponent \<bar>q\<bar> - 52) (- 1074);
               v = of_int (round_half_even (\<bar>q\<bar> / pow2 e)) * pow2 e
           in if pow2 1024 \<le> v then Infinite (q < 0)
              else Finite (if q < 0 then - v else v))"

definition float_of_text :: "string \<Rightarrow> pyfloat" where
  "float_of_text t =
     (if t = ''NaN'' then Not_A_Number
      else if t = ''Infinity'' then Infinite False
      else if t = ''-Infinity'' then Infinite True
      else nearest_double (decimal_value t))"

text \<open>\<open>int(f)\<close>, which raises for infinities and \<open>nan\<close>.\<close>

definition int_of_float :: "pyfloat \<Rightarrow> int option" where
  "int_of_float f = (case f of Finite q \<Rightarrow> Some (if 0 \<le> q then \<lfloor>q\<rfloor> else - \<lfloor>- q\<rfloor>) | _ \<Rightarrow> None)"

text \<open>\<open>isinstance(v, int)\<close> and the integer (\<open>True\<close> and \<open>False\<close> are integers); \<open>v == n\<close>.\<close>

definition py_int :: "json \<Rightarrow> int option" where
  "py_int v = (case v of JInt n \<Rightarrow> Some n | JBool b \<Rightarrow> Some (if b then 1 else 0) | _ \<Rightarrow> None)"

definition equals_int :: "json \<Rightarrow> int \<Rightarrow> bool" where
  "equals_int v n =
     (case v of
        JFloat t \<Rightarrow> float_of_text t = Finite (of_int n)
      | _ \<Rightarrow> py_int v = Some n)"

text \<open>Truth of a value: \<open>bool(v)\<close>.\<close>

definition truthy :: "json \<Rightarrow> bool" where
  "truthy v =
     (case v of
        JNull \<Rightarrow> False | JBool b \<Rightarrow> b | JInt n \<Rightarrow> n \<noteq> 0
      | JFloat t \<Rightarrow> float_of_text t \<noteq> Finite 0
      | JStr s \<Rightarrow> s \<noteq> [] | JArr vs \<Rightarrow> vs \<noteq> [] | JObj kvs \<Rightarrow> kvs \<noteq> [])"

text \<open>\<open>v in (None, "", [], {})\<close>\<close>

definition blank :: "json option \<Rightarrow> bool" where
  "blank v = (case v of None \<Rightarrow> True | Some JNull \<Rightarrow> True | Some (JStr s) \<Rightarrow> s = [] | Some (JArr vs) \<Rightarrow> vs = []
      | Some (JObj kvs) \<Rightarrow> kvs = [] | Some _ \<Rightarrow> False)"

end
