(* ===== verification/Protocol_Base.thy ===== *)
theory Protocol_Base
  imports Action Py_Number
begin

text \<open>
  Shared parts of \<open>src-python/protocol_translation.py\<close>: the error of a shape that cannot cross the
  seam, field checks, creation timestamps and usage counters.

  \<open>Unsupported code\<close> is \<open>UnsupportedProtocolTranslationError\<close> (its text for the client is left out),
  \<open>Unhashable\<close> the \<open>TypeError\<close> of a list or dictionary looked up in a set, \<open>Not_Iterable\<close> that of a loop over
  a value that is no container, \<open>Not_Integral\<close> what \<open>int\<close> raises for an infinity or \<open>nan\<close>.
\<close>

datatype wire_error = Unsupported string | Unhashable | Not_Iterable | Not_Integral

definition UNSUPPORTED_SEMANTICS :: wire_error where
  "UNSUPPORTED_SEMANTICS = Unsupported ''unsupported_protocol_semantics''"

definition UNPAIRED :: wire_error where "UNPAIRED = Unsupported ''unpaired_tool_call''"

definition guard :: "bool \<Rightarrow> wire_error \<Rightarrow> wire_error + unit" where
  "guard b e = (if b then Inr () else Inl e)"

lemma guard_Inr [simp]: "guard b e = Inr u \<longleftrightarrow> b"
  by (simp add: guard_def)

definition require_supported_fields :: "obj \<Rightarrow> string list \<Rightarrow> wire_error + unit" where
  "require_supported_fields value allowed =
     guard (list_all (\<lambda>k. List.member allowed k) (map fst value)) UNSUPPORTED_SEMANTICS"

text \<open>A mapping member, and \<open>d.get(k)\<close> with \<open>None\<close> for a missing key.\<close>

definition object_field :: "obj \<Rightarrow> string \<Rightarrow> obj option" where
  "object_field d k = (case dict_get d k of Some (JObj kvs) \<Rightarrow> Some kvs | _ \<Rightarrow> None)"

definition get_or_null :: "obj \<Rightarrow> string \<Rightarrow> json" where
  "get_or_null d k = (case dict_get d k of None \<Rightarrow> JNull | Some v \<Rightarrow> v)"

definition optional_text :: "string option \<Rightarrow> json" where
  "optional_text t = (case t of None \<Rightarrow> JNull | Some s \<Rightarrow> JStr s)"

section \<open>Timestamps\<close>

text \<open>\<open>int(value)\<close> if \<open>value\<close> is a number that is not a boolean.\<close>

definition created_value :: "json \<Rightarrow> wire_error + int option" where
  "created_value v =
     (case v of
        JInt n \<Rightarrow> Inr (Some n)
      | JFloat t \<Rightarrow> (case int_of_float (float_of_text t) of None \<Rightarrow> Inl Not_Integral | Some n \<Rightarrow> Inr (Some n))
      | _ \<Rightarrow> Inr None)"

fun first_created :: "json list \<Rightarrow> wire_error + int option" where
  "first_created [] = Inr None"
| "first_created (v # vs) =
     rbind (created_value v) (\<lambda>n. case n of None \<Rightarrow> first_created vs | Some k \<Rightarrow> Inr (Some k))"

definition unix_created_from_mappings :: "obj option list \<Rightarrow> wire_error + int option" where
  "unix_created_from_mappings sources =
     first_created (concat (map (\<lambda>source. case source of
         None \<Rightarrow> [] | Some d \<Rightarrow> [get_or_null d ''created_at'', get_or_null d ''created'']) sources))"

definition unix_created_timestamp :: "int \<Rightarrow> obj option list \<Rightarrow> wire_error + int" where
  "unix_created_timestamp now sources =
     rbind (unix_created_from_mappings sources) (\<lambda>n. Inr (case n of None \<Rightarrow> now | Some k \<Rightarrow> k))"

definition remember_unix_created :: "int option \<Rightarrow> obj option list \<Rightarrow> wire_error + int option" where
  "remember_unix_created current sources =
     (case current of None \<Rightarrow> unix_created_from_mappings sources | Some n \<Rightarrow> Inr (Some n))"

definition stable_unix_created :: "int \<Rightarrow> int option \<Rightarrow> obj option list \<Rightarrow> wire_error + int" where
  "stable_unix_created now current sources =
     rbind (remember_unix_created current sources) (\<lambda>n.
       case n of Some k \<Rightarrow> Inr k | None \<Rightarrow> unix_created_timestamp now [])"

definition is_number :: "json option \<Rightarrow> bool" where
  "is_number v = (case v of Some (JInt _) \<Rightarrow> True | Some (JFloat _) \<Rightarrow> True | _ \<Rightarrow> False)"

definition stamp_created_field :: "int \<Rightarrow> obj \<Rightarrow> string \<Rightarrow> obj option \<Rightarrow> wire_error + obj \<times> bool" where
  "stamp_created_field now payload key fallback =
     (if is_number (dict_get payload key) then Inr (payload, False)
      else rbind (unix_created_timestamp now [Some payload, fallback])
             (\<lambda>n. Inr (dict_set payload key (JInt n), True)))"

definition stamp_nested :: "int \<Rightarrow> obj \<Rightarrow> obj option \<Rightarrow> wire_error + obj \<times> bool" where
  "stamp_nested now payload fallback =
     (case (object_field payload ''response'', text_field payload ''type'') of
        (Some nested, Some kind) \<Rightarrow>
          (if prefix ''response.'' kind
           then rbind (stamp_created_field now nested ''created_at'' fallback)
                  (\<lambda>(nested', c). Inr (if c then dict_set payload ''response'' (JObj nested') else payload, c))
           else Inr (payload, False))
      | _ \<Rightarrow> Inr (payload, False))"

definition stamp_wire_timestamps :: "int \<Rightarrow> obj \<Rightarrow> obj option \<Rightarrow> wire_error + obj \<times> bool" where
  "stamp_wire_timestamps now payload fallback =
     rbind (stamp_nested now payload fallback) (\<lambda>(p, c).
       if dict_get payload ''object'' = Some (JStr ''response'')
       then rbind (stamp_created_field now p ''created_at'' fallback) (\<lambda>(p', c'). Inr (p', c' \<or> c))
       else if \<not> hashable (get_or_null payload ''object'') then Inl Unhashable
       else if text_field payload ''object'' = Some ''chat.completion''
               \<or> text_field payload ''object'' = Some ''chat.completion.chunk''
       then rbind (stamp_created_field now p ''created'' fallback) (\<lambda>(p', c'). Inr (p', c' \<or> c))
       else Inr (p, c))"

section \<open>Usage and function arguments\<close>

definition USAGE_NAMES :: "(string \<times> string) list" where
  "USAGE_NAMES =
     [(''prompt_tokens'', ''input_tokens''), (''completion_tokens'', ''output_tokens''),
      (''total_tokens'', ''total_tokens''), (''prompt_tokens_details'', ''input_tokens_details''),
      (''completion_tokens_details'', ''output_tokens_details'')]"

definition rename_usage :: "(string \<times> string) list \<Rightarrow> obj \<Rightarrow> obj" where
  "rename_usage names usage =
     concat (map (\<lambda>(source, target). case dict_get usage source of None \<Rightarrow> [] | Some v \<Rightarrow> [(target, v)]) names)"

definition chat_completion_usage_to_responses_usage :: "obj \<Rightarrow> obj" where
  "chat_completion_usage_to_responses_usage = rename_usage USAGE_NAMES"

definition responses_usage_to_chat_usage :: "obj \<Rightarrow> obj" where
  "responses_usage_to_chat_usage = rename_usage (map (\<lambda>(a, b). (b, a)) USAGE_NAMES)"

definition function_arguments :: "obj \<Rightarrow> wire_error + string" where
  "function_arguments value =
     (case dict_get value ''arguments'' of
        None \<Rightarrow> Inr []
      | Some (JStr s) \<Rightarrow> Inr s
      | Some _ \<Rightarrow> Inl UNSUPPORTED_SEMANTICS)"

text \<open>The gateway's converters map the seam's errors onto transport errors.\<close>

datatype gateway_error = Upstream_Protocol_Translation wire_error | Escaped wire_error

definition gateway_result :: "wire_error + 'a \<Rightarrow> gateway_error + 'a" where
  "gateway_result r =
     (case r of
        Inr a \<Rightarrow> Inr a
      | Inl (Unsupported code) \<Rightarrow> Inl (Upstream_Protocol_Translation (Unsupported code))
      | Inl e \<Rightarrow> Inl (Escaped e))"

end
