(* ===== verification/Chat_Stream.thy ===== *)
theory Chat_Stream
  imports Protocol_Base
begin

text \<open>
  \<open>ChatToResponsesStreamConverter\<close> of \<open>src-python/protocol_translation.py\<close>: Chat Completions chunks
  become Responses events, one chunk at a time.

  The converter is a record, its methods are actions on it.  The three identifiers drawn at its
  construction are arguments, \<open>now\<close> is the clock reading of the one call of \<open>time.time\<close> a converter
  can make (a creation time is remembered).  Events and chunks are JSON objects.
\<close>

section \<open>State\<close>

record tool_state =
  ts_output_index :: nat
  ts_item_id :: string
  ts_call_id :: string
  ts_name :: string
  ts_arguments :: "string list"
  ts_added :: bool
  ts_done :: bool

record chat_converter =
  cv_now :: int
  cv_response_id :: string
  cv_model :: "string option"
  cv_item_id :: string
  cv_text_parts :: "string list"
  cv_reasoning_item_id :: string
  cv_reasoning_parts :: "string list"
  cv_reasoning_output_index :: "nat option"
  cv_reasoning_started :: bool
  cv_message_output_index :: "nat option"
  cv_next_output_index :: nat
  cv_tool_states :: "(int, tool_state) dict"
  cv_created_emitted :: bool
  cv_message_started :: bool
  cv_completed :: bool
  cv_pending_incomplete :: "bool option"
  cv_usage :: "obj option"
  cv_created_at :: "int option"

definition new_chat_converter :: "int \<Rightarrow> string \<Rightarrow> string \<Rightarrow> string \<Rightarrow> chat_converter" where
  "new_chat_converter now response_id item_id reasoning_id =
     \<lparr>cv_now = now, cv_response_id = response_id, cv_model = None, cv_item_id = item_id, cv_text_parts = [],
      cv_reasoning_item_id = reasoning_id, cv_reasoning_parts = [], cv_reasoning_output_index = None,
      cv_reasoning_started = False, cv_message_output_index = None, cv_next_output_index = 0,
      cv_tool_states = [], cv_created_emitted = False, cv_message_started = False, cv_completed = False,
      cv_pending_incomplete = None, cv_usage = None, cv_created_at = None\<rparr>"

type_synonym 'a converting = "(chat_converter, wire_error, 'a) action"

abbreviation give :: "'a \<Rightarrow> 'a converting" where "give \<equiv> ret"

definition attempt :: "wire_error + 'a \<Rightarrow> 'a converting" where "attempt = lift_result"

definition update :: "(chat_converter \<Rightarrow> chat_converter) \<Rightarrow> unit converting" where "update = change"

section \<open>Events\<close>

definition reasoning_item :: "chat_converter \<Rightarrow> string \<Rightarrow> json list \<Rightarrow> obj" where
  "reasoning_item s status summary =
     [(''id'', JStr (cv_reasoning_item_id s)), (''type'', JStr ''reasoning''), (''status'', JStr status),
      (''summary'', JArr summary)]"

definition message_item :: "chat_converter \<Rightarrow> string \<Rightarrow> json list \<Rightarrow> obj" where
  "message_item s status content =
     [(''id'', JStr (cv_item_id s)), (''type'', JStr ''message''), (''status'', JStr status),
      (''role'', JStr ''assistant''), (''content'', JArr content)]"

definition call_item :: "tool_state \<Rightarrow> string \<Rightarrow> string \<Rightarrow> obj" where
  "call_item t status arguments =
     [(''id'', JStr (ts_item_id t)), (''type'', JStr ''function_call''), (''status'', JStr status),
      (''call_id'', JStr (ts_call_id t)), (''name'', JStr (ts_name t)), (''arguments'', JStr arguments)]"

definition text_part :: "string \<Rightarrow> json" where
  "text_part t = JObj [(''type'', JStr ''output_text''), (''text'', JStr t), (''annotations'', JArr [])]"

definition item_event :: "string \<Rightarrow> nat \<Rightarrow> obj \<Rightarrow> obj" where
  "item_event kind index item =
     [(''type'', JStr kind), (''output_index'', JInt (int index)), (''item'', JObj item)]"

text \<open>\<open>_stamp_response\<close>\<close>

definition stamp_response :: "obj \<Rightarrow> obj converting" where
  "stamp_response response s =
     (let r = (case cv_created_at s of None \<Rightarrow> response | Some n \<Rightarrow> dict_set response ''created_at'' (JInt n))
      in bind (attempt (stamp_wire_timestamps (cv_now s) r None)) (\<lambda>(r', _).
           (case dict_get r' ''created_at'' of
              Some (JInt n) \<Rightarrow> bind (update (\<lambda>s. s\<lparr>cv_created_at := Some n\<rparr>)) (\<lambda>_. give r')
            | _ \<Rightarrow> give r'))) s"

definition allocate_output_index :: "nat converting" where
  "allocate_output_index s = (Inr (cv_next_output_index s), s\<lparr>cv_next_output_index := cv_next_output_index s + 1\<rparr>)"

definition response_object :: "chat_converter \<Rightarrow> string \<Rightarrow> json list \<Rightarrow> obj" where
  "response_object s status output =
     [(''id'', JStr (cv_response_id s)), (''object'', JStr ''response''), (''status'', JStr status),
      (''model'', optional_text (cv_model s)), (''output'', JArr output)]"

definition response_event :: "string \<Rightarrow> obj \<Rightarrow> obj" where
  "response_event kind response = [(''type'', JStr kind), (''response'', JObj response)]"

definition created_events :: "obj list converting" where
  "created_events s =
     (if cv_created_emitted s then give [] s
      else bind (update (\<lambda>s. s\<lparr>cv_created_emitted := True\<rparr>)) (\<lambda>_.
           bind (stamp_response (response_object s ''in_progress'' [])) (\<lambda>response.
             give [response_event ''response.created'' response, response_event ''response.in_progress'' response])) s)"

definition content_part_event :: "nat \<Rightarrow> string \<Rightarrow> obj" where
  "content_part_event index item_id =
     [(''type'', JStr ''response.content_part.added''), (''output_index'', JInt (int index)),
      (''item_id'', JStr item_id), (''content_index'', JInt 0), (''part'', text_part [])]"

text \<open>The first index an item is given is kept.\<close>

definition message_index :: "nat converting" where
  "message_index s =
     (case cv_message_output_index s of
        Some i \<Rightarrow> give i s
      | None \<Rightarrow> bind allocate_output_index (\<lambda>i.
                bind (update (\<lambda>s. s\<lparr>cv_message_output_index := Some i\<rparr>)) (\<lambda>_. give i)) s)"

definition message_start_events :: "obj list converting" where
  "message_start_events =
     bind created_events (\<lambda>events s.
       (if cv_message_started s then give events s
        else bind message_index (\<lambda>i.
             bind (update (\<lambda>s. s\<lparr>cv_message_started := True\<rparr>)) (\<lambda>_.
               give (events @ [item_event ''response.output_item.added'' i (message_item s ''in_progress'' []),
                              content_part_event i (cv_item_id s)]))) s))"

definition put_tool :: "int \<Rightarrow> tool_state \<Rightarrow> unit converting" where
  "put_tool index t = update (\<lambda>s. s\<lparr>cv_tool_states := dict_set (cv_tool_states s) index t\<rparr>)"

definition tool_state_for :: "int \<Rightarrow> tool_state converting" where
  "tool_state_for index s =
     (case dict_get (cv_tool_states s) index of
        Some t \<Rightarrow> give t s
      | None \<Rightarrow>
          bind allocate_output_index (\<lambda>i.
            let t = \<lparr>ts_output_index = i, ts_item_id = [], ts_call_id = [], ts_name = [], ts_arguments = [],
                     ts_added = False, ts_done = False\<rparr>
            in bind (put_tool index t) (\<lambda>_. give t)) s)"

definition tool_added_events :: "int \<Rightarrow> tool_state \<Rightarrow> (tool_state \<times> obj list) converting" where
  "tool_added_events index t =
     (if ts_added t \<or> ts_call_id t = [] \<or> ts_name t = [] then give (t, [])
      else bind created_events (\<lambda>events.
           let t' = t\<lparr>ts_item_id := ''fc_'' @ ts_call_id t, ts_added := True\<rparr>
           in bind (put_tool index t') (\<lambda>_.
                give (t', events @ [item_event ''response.output_item.added'' (ts_output_index t')
                                      (call_item t' ''in_progress'' [])]))))"

definition reasoning_delta_event :: "string \<Rightarrow> nat \<Rightarrow> string \<Rightarrow> obj" where
  "reasoning_delta_event item_id index text =
     [(''type'', JStr ''response.reasoning_summary_text.delta''), (''item_id'', JStr item_id),
      (''output_index'', JInt (int index)), (''summary_index'', JInt 0), (''delta'', JStr text)]"

definition reasoning_index :: "nat converting" where
  "reasoning_index s =
     (case cv_reasoning_output_index s of
        Some i \<Rightarrow> give i s
      | None \<Rightarrow> bind allocate_output_index (\<lambda>i.
                bind (update (\<lambda>s. s\<lparr>cv_reasoning_output_index := Some i\<rparr>)) (\<lambda>_. give i)) s)"

definition reasoning_events :: "string \<Rightarrow> obj list converting" where
  "reasoning_events text s =
     (if text = [] \<or> List.member (cv_reasoning_parts s) text then give [] s
      else bind (update (\<lambda>s. s\<lparr>cv_reasoning_parts := cv_reasoning_parts s @ [text]\<rparr>)) (\<lambda>_.
           bind created_events (\<lambda>events.
           bind reasoning_index (\<lambda>i s.
             bind (update (\<lambda>s. s\<lparr>cv_reasoning_started := True\<rparr>)) (\<lambda>_.
               give (events
                 @ (if cv_reasoning_started s then []
                    else [item_event ''response.output_item.added'' i (reasoning_item s ''in_progress'' [])])
                 @ [reasoning_delta_event (cv_reasoning_item_id s) i text])) s))) s)"

section \<open>Completion\<close>

definition reasoning_done_event :: "string \<Rightarrow> nat \<Rightarrow> string \<Rightarrow> obj" where
  "reasoning_done_event item_id index text =
     [(''type'', JStr ''response.reasoning_summary_text.done''), (''item_id'', JStr item_id),
      (''output_index'', JInt (int index)), (''summary_index'', JInt 0), (''text'', JStr text)]"

definition arguments_done_event :: "string \<Rightarrow> nat \<Rightarrow> string \<Rightarrow> obj" where
  "arguments_done_event item_id index arguments =
     [(''type'', JStr ''response.function_call_arguments.done''), (''item_id'', JStr item_id),
      (''output_index'', JInt (int index)), (''arguments'', JStr arguments)]"

definition text_done_event :: "string \<Rightarrow> nat \<Rightarrow> string \<Rightarrow> obj" where
  "text_done_event item_id index text =
     [(''type'', JStr ''response.output_text.done''), (''item_id'', JStr item_id),
      (''output_index'', JInt (int index)), (''content_index'', JInt 0), (''text'', JStr text)]"

text \<open>Each part of the completion: its events, and the items by output index.\<close>

type_synonym output_items = "(nat, json) dict"

definition complete_reasoning :: "(obj list \<times> output_items) converting" where
  "complete_reasoning s =
     (if \<not> cv_reasoning_started s then give ([], []) s
      else case cv_reasoning_output_index s of
             None \<Rightarrow> attempt (Inl UNSUPPORTED_SEMANTICS) s
           | Some i \<Rightarrow>
               (if cv_reasoning_parts s = [] then attempt (Inl UNSUPPORTED_SEMANTICS) s
                else let item = reasoning_item s ''completed''
                       (map (\<lambda>t. JObj [(''type'', JStr ''summary_text''), (''text'', JStr t)]) (cv_reasoning_parts s))
                     in give ([reasoning_done_event (cv_reasoning_item_id s) i (join_with [CHR 0x0A] (cv_reasoning_parts s)),
                               item_event ''response.output_item.done'' i item], [(i, JObj item)]) s))"

definition complete_tool :: "int \<times> tool_state \<Rightarrow> output_items \<Rightarrow> (obj list \<times> output_items) converting" where
  "complete_tool entry items =
     (let (index, t) = entry
      in bind (attempt (rbind (guard (ts_call_id t \<noteq> []) UNPAIRED) (\<lambda>_. guard (ts_name t \<noteq> []) UNSUPPORTED_SEMANTICS))) (\<lambda>_.
         bind (tool_added_events index t) (\<lambda>(t', events).
           if ts_done t' then give (events, items)
           else let arguments = concat (ts_arguments t'); item = call_item t' ''completed'' arguments
                in bind (put_tool index (t'\<lparr>ts_done := True\<rparr>)) (\<lambda>_.
                     give (events @ [arguments_done_event (ts_item_id t') (ts_output_index t') arguments,
                                     item_event ''response.output_item.done'' (ts_output_index t') item],
                           dict_set items (ts_output_index t') (JObj item))))))"

fun complete_tools :: "(int \<times> tool_state) list \<Rightarrow> output_items \<Rightarrow> (obj list \<times> output_items) converting" where
  "complete_tools [] items = give ([], items)"
| "complete_tools (entry # rest) items =
     bind (complete_tool entry items) (\<lambda>(events, items').
     bind (complete_tools rest items') (\<lambda>(later, items''). give (events @ later, items'')))"

definition complete_message :: "output_items \<Rightarrow> (obj list \<times> output_items) converting" where
  "complete_message items s =
     (if \<not> cv_message_started s then give ([], items) s
      else let text = concat (cv_text_parts s);
               i = (case cv_message_output_index s of None \<Rightarrow> 0 | Some i \<Rightarrow> i);
               item = message_item s ''completed'' [text_part text]
           in give ([text_done_event (cv_item_id s) i text, item_event ''response.output_item.done'' i item],
                    dict_set items i (JObj item)) s)"

definition by_index :: "output_items \<Rightarrow> json list" where
  "by_index items = map snd (sort_key fst items)"

definition terminal_response :: "chat_converter \<Rightarrow> bool \<Rightarrow> json list \<Rightarrow> obj" where
  "terminal_response s incomplete output =
     (let r = response_object s (if incomplete then ''incomplete'' else ''completed'') output;
          r1 = (if incomplete
                then dict_set r ''incomplete_details'' (JObj [(''reason'', JStr ''max_output_tokens'')]) else r)
      in case cv_usage s of None \<Rightarrow> r1 | Some usage \<Rightarrow> dict_set r1 ''usage'' (JObj usage))"

definition complete_events :: "bool \<Rightarrow> obj list converting" where
  "complete_events incomplete s =
     (if cv_completed s then give [] s
      else
        bind (update (\<lambda>s. s\<lparr>cv_completed := True\<rparr>)) (\<lambda>_.
        bind created_events (\<lambda>e1.
        bind complete_reasoning (\<lambda>(e2, items1) s1.
        bind (complete_tools (sort_key (\<lambda>(_, t). ts_output_index t) (cv_tool_states s1)) items1) (\<lambda>(e3, items2).
        bind (complete_message items2) (\<lambda>(e4, items3) s2.
        bind (stamp_response (terminal_response s2 incomplete (by_index items3))) (\<lambda>response.
          give (e1 @ e2 @ e3 @ e4 @ [response_event
             (if incomplete then ''response.incomplete'' else ''response.completed'') response])) s2)) s1))) s)"

definition events_for_done :: "obj list converting" where
  "events_for_done s = complete_events (cv_pending_incomplete s = Some True) s"

section \<open>Chunks\<close>

definition validate_chat_stream_choices :: "obj \<Rightarrow> wire_error + unit" where
  "validate_chat_stream_choices chunk =
     (case dict_get chunk ''choices'' of
        None \<Rightarrow> Inr ()
      | Some (JArr choices) \<Rightarrow>
          (case choices of
             [] \<Rightarrow> Inr ()
           | [JObj choice] \<Rightarrow>
               guard (case dict_get choice ''index'' of None \<Rightarrow> True | Some v \<Rightarrow> equals_int v 0) UNSUPPORTED_SEMANTICS
           | _ \<Rightarrow> Inl UNSUPPORTED_SEMANTICS)
      | _ \<Rightarrow> Inl UNSUPPORTED_SEMANTICS)"

definition is_usage_only_chunk :: "obj \<Rightarrow> bool" where
  "is_usage_only_chunk chunk \<longleftrightarrow> dict_get chunk ''choices'' = Some (JArr []) \<and> dict_has chunk ''usage''"

definition raise_for_unsupported_semantics :: "obj \<Rightarrow> wire_error + unit" where
  "raise_for_unsupported_semantics message =
     guard (list_all (\<lambda>k. blank (dict_get message k)) [''refusal'', ''audio'', ''annotations'']) UNSUPPORTED_SEMANTICS"

definition validate_chat_stream_source :: "obj \<Rightarrow> wire_error + unit" where
  "validate_chat_stream_source source =
     rbind (require_supported_fields source
       [''role'', ''content'', ''tool_calls'', ''refusal'', ''audio'', ''annotations'', ''reasoning'',
        ''reasoning_content'', ''reasoning_details'']) (\<lambda>_. raise_for_unsupported_semantics source)"

definition carry_reasoning :: "obj \<Rightarrow> obj \<Rightarrow> string \<Rightarrow> obj" where
  "carry_reasoning message merged field =
     (case dict_get message field of
        Some v \<Rightarrow> (if blank (dict_get merged field) then dict_set merged field v else merged)
      | None \<Rightarrow> merged)"

definition chat_stream_source :: "obj \<Rightarrow> obj option" where
  "chat_stream_source choice =
     (case (object_field choice ''delta'', object_field choice ''message'') of
        (Some delta, Some message) \<Rightarrow>
          Some (if delta = [] then message
                else foldl (carry_reasoning message) delta [''reasoning'', ''reasoning_content'', ''reasoning_details''])
      | (Some delta, None) \<Rightarrow> Some delta
      | (None, message) \<Rightarrow> message)"

text \<open>\<open>_chat_reasoning_output\<close>: the distinct non-empty texts.\<close>

definition add_text :: "string list \<Rightarrow> json \<Rightarrow> string list" where
  "add_text texts v =
     (case v of
        JStr t \<Rightarrow> (let s = str_strip t in if s = [] \<or> List.member texts s then texts else texts @ [s])
      | _ \<Rightarrow> texts)"

definition detail_text :: "json \<Rightarrow> json" where
  "detail_text part =
     (case part of
        JObj d \<Rightarrow> (if truthy (get_or_null d ''text'') then get_or_null d ''text'' else get_or_null d ''summary'')
      | v \<Rightarrow> v)"

definition reasoning_texts :: "obj \<Rightarrow> string list" where
  "reasoning_texts message =
     (let texts = add_text (add_text [] (get_or_null message ''reasoning'')) (get_or_null message ''reasoning_content'')
      in case dict_get message ''reasoning_details'' of
           Some (JArr details) \<Rightarrow> foldl (\<lambda>ts part. add_text ts (detail_text part)) texts details
         | _ \<Rightarrow> texts)"

definition text_delta_event :: "string \<Rightarrow> nat \<Rightarrow> string \<Rightarrow> obj" where
  "text_delta_event item_id index delta =
     [(''type'', JStr ''response.output_text.delta''), (''item_id'', JStr item_id),
      (''output_index'', JInt (int index)), (''content_index'', JInt 0), (''delta'', JStr delta)]"

definition content_events :: "obj \<Rightarrow> obj list converting" where
  "content_events source =
     (case dict_get source ''content'' of
        None \<Rightarrow> give []
      | Some JNull \<Rightarrow> give []
      | Some (JStr content) \<Rightarrow>
          (if content = [] then give []
           else bind (update (\<lambda>s. s\<lparr>cv_text_parts := cv_text_parts s @ [content]\<rparr>)) (\<lambda>_.
                bind message_start_events (\<lambda>events s.
                  give (events @ [text_delta_event (cv_item_id s)
                    (case cv_message_output_index s of None \<Rightarrow> 0 | Some i \<Rightarrow> i) content]) s)))
      | Some _ \<Rightarrow> attempt (Inl UNSUPPORTED_SEMANTICS))"

text \<open>One fragment of a tool call: the call id, the name and the arguments it brings.\<close>

definition merge_call_id :: "json \<Rightarrow> tool_state \<Rightarrow> wire_error + tool_state" where
  "merge_call_id v t =
     (case v of
        JNull \<Rightarrow> Inr t
      | JStr c \<Rightarrow>
          (if c = [] then Inr t
           else if ts_call_id t \<noteq> [] \<and> ts_call_id t \<noteq> c then Inl UNPAIRED
           else Inr (t\<lparr>ts_call_id := c\<rparr>))
      | _ \<Rightarrow> Inl UNPAIRED)"

definition merge_name :: "json \<Rightarrow> tool_state \<Rightarrow> wire_error + tool_state" where
  "merge_name v t =
     (case v of
        JNull \<Rightarrow> Inr t
      | JStr n \<Rightarrow>
          (if n = [] \<or> (ts_name t \<noteq> [] \<and> ts_name t \<noteq> n) then Inl UNSUPPORTED_SEMANTICS
           else Inr (t\<lparr>ts_name := n\<rparr>))
      | _ \<Rightarrow> Inl UNSUPPORTED_SEMANTICS)"

definition merge_function :: "int \<Rightarrow> json \<Rightarrow> tool_state \<Rightarrow> (tool_state \<times> string) converting" where
  "merge_function index v t =
     (case v of
        JNull \<Rightarrow> give (t, [])
      | JObj function \<Rightarrow>
          bind (attempt (require_supported_fields function [''name'', ''arguments''])) (\<lambda>_.
          bind (attempt (merge_name (get_or_null function ''name'') t)) (\<lambda>t1.
          bind (put_tool index t1) (\<lambda>_.
          bind (attempt (function_arguments function)) (\<lambda>arguments.
            if arguments = [] then give (t1, [])
            else let t2 = t1\<lparr>ts_arguments := ts_arguments t1 @ [arguments]\<rparr>
                 in bind (put_tool index t2) (\<lambda>_. give (t2, arguments))))))
      | _ \<Rightarrow> attempt (Inl UNSUPPORTED_SEMANTICS))"

definition tool_call_index :: "obj \<Rightarrow> nat \<Rightarrow> wire_error + int" where
  "tool_call_index tool_call fallback =
     rbind (require_supported_fields tool_call [''index'', ''id'', ''type'', ''function'']) (\<lambda>_.
     rbind (guard (get_or_null tool_call ''type'' = JNull \<or> get_or_null tool_call ''type'' = JStr ''function'')
              UNSUPPORTED_SEMANTICS) (\<lambda>_.
       case dict_get tool_call ''index'' of
         None \<Rightarrow> Inr (int fallback)
       | Some v \<Rightarrow> (case py_int v of None \<Rightarrow> Inl UNSUPPORTED_SEMANTICS | Some n \<Rightarrow> Inr n)))"

definition arguments_delta_event :: "string \<Rightarrow> nat \<Rightarrow> string \<Rightarrow> obj" where
  "arguments_delta_event item_id index delta =
     [(''type'', JStr ''response.function_call_arguments.delta''), (''item_id'', JStr item_id),
      (''output_index'', JInt (int index)), (''delta'', JStr delta)]"

definition tool_call_events :: "obj \<Rightarrow> nat \<Rightarrow> obj list converting" where
  "tool_call_events tool_call fallback =
     bind (attempt (tool_call_index tool_call fallback)) (\<lambda>index.
     bind (tool_state_for index) (\<lambda>t.
     bind (attempt (merge_call_id (get_or_null tool_call ''id'') t)) (\<lambda>t1.
     bind (put_tool index t1) (\<lambda>_.
     bind (merge_function index (get_or_null tool_call ''function'') t1) (\<lambda>(t2, arguments).
     bind (tool_added_events index t2) (\<lambda>(t3, events).
       give (events @ (if ts_added t3 \<and> arguments \<noteq> []
                       then [arguments_delta_event (ts_item_id t3) (ts_output_index t3) arguments] else []))))))))"

fun tool_calls_events :: "json list \<Rightarrow> nat \<Rightarrow> obj list converting" where
  "tool_calls_events [] n = give []"
| "tool_calls_events (v # vs) n =
     (case json_object v of
        None \<Rightarrow> attempt (Inl UNSUPPORTED_SEMANTICS)
      | Some tool_call \<Rightarrow>
          bind (tool_call_events tool_call n) (\<lambda>e1.
          bind (tool_calls_events vs (n + 1)) (\<lambda>e2. give (e1 @ e2))))"

definition source_events :: "obj \<Rightarrow> obj list converting" where
  "source_events source =
     bind (attempt (validate_chat_stream_source source)) (\<lambda>_.
     bind (case reasoning_texts source of [] \<Rightarrow> give [] | text # _ \<Rightarrow> reasoning_events text) (\<lambda>e1.
     bind (content_events source) (\<lambda>e2.
     bind (case get_or_null source ''tool_calls'' of
             JNull \<Rightarrow> give []
           | JArr tool_calls \<Rightarrow> tool_calls_events tool_calls 0
           | _ \<Rightarrow> attempt (Inl UNSUPPORTED_SEMANTICS)) (\<lambda>e3.
       give (e1 @ e2 @ e3)))))"

definition note_finish :: "json \<Rightarrow> unit converting" where
  "note_finish finish_reason =
     (case finish_reason of
        JNull \<Rightarrow> give ()
      | JStr r \<Rightarrow>
          (if r = ''length'' then update (\<lambda>s. s\<lparr>cv_pending_incomplete := Some True\<rparr>)
           else if r = ''stop'' \<or> r = ''tool_calls'' then update (\<lambda>s. s\<lparr>cv_pending_incomplete := Some False\<rparr>)
           else attempt (Inl UNSUPPORTED_SEMANTICS))
      | v \<Rightarrow> attempt (Inl (if hashable v then UNSUPPORTED_SEMANTICS else Unhashable)))"

fun choices_events :: "json list \<Rightarrow> obj list converting" where
  "choices_events [] = give []"
| "choices_events (v # vs) =
     (case json_object v of
        None \<Rightarrow> choices_events vs
      | Some choice \<Rightarrow>
          bind (case chat_stream_source choice of None \<Rightarrow> give [] | Some source \<Rightarrow> source_events source) (\<lambda>e1.
          bind (note_finish (get_or_null choice ''finish_reason'')) (\<lambda>_.
          bind (choices_events vs) (\<lambda>e2. give (e1 @ e2)))))"

definition record_usage :: "obj \<Rightarrow> unit converting" where
  "record_usage chunk =
     (case object_field chunk ''usage'' of
        None \<Rightarrow> attempt (Inl UNSUPPORTED_SEMANTICS)
      | Some usage \<Rightarrow> update (\<lambda>s. s\<lparr>cv_usage := Some (chat_completion_usage_to_responses_usage usage)\<rparr>))"

definition note_envelope :: "obj \<Rightarrow> unit converting" where
  "note_envelope chunk =
     bind (update (\<lambda>s. case text_field chunk ''model'' of None \<Rightarrow> s | Some m \<Rightarrow> s\<lparr>cv_model := Some m\<rparr>)) (\<lambda>_ s.
     bind (attempt (remember_unix_created (cv_created_at s) [Some chunk])) (\<lambda>n.
       update (\<lambda>s. s\<lparr>cv_created_at := n\<rparr>)) s)"

definition events_for_chunk :: "obj \<Rightarrow> obj list converting" where
  "events_for_chunk chunk =
     bind (attempt (validate_chat_stream_choices chunk)) (\<lambda>_ s.
       (if cv_completed s then
          attempt (if is_usage_only_chunk chunk then Inr [] else Inl UNSUPPORTED_SEMANTICS) s
        else if is_usage_only_chunk chunk then bind (record_usage chunk) (\<lambda>_. give []) s
        else if cv_pending_incomplete s \<noteq> None then attempt (Inl UNSUPPORTED_SEMANTICS) s
        else bind (note_envelope chunk) (\<lambda>_.
               case dict_get chunk ''choices'' of
                 Some (JArr choices) \<Rightarrow> choices_events choices
               | _ \<Rightarrow> give []) s))"

text \<open>\<open>GatewayChatToResponsesStreamConverter\<close> maps the seam's errors onto transport errors.\<close>

definition gateway_events_for_chunk :: "obj \<Rightarrow> (chat_converter, gateway_error, obj list) action" where
  "gateway_events_for_chunk chunk s = (case events_for_chunk chunk s of (r, s') \<Rightarrow> (gateway_result r, s'))"

definition gateway_events_for_done :: "(chat_converter, gateway_error, obj list) action" where
  "gateway_events_for_done s = (case events_for_done s of (r, s') \<Rightarrow> (gateway_result r, s'))"

end
