(* ===== verification/Responses_Protocol.thy ===== *)
theory Responses_Protocol
  imports Chat_Stream
begin

text \<open>
  The contract of a Responses event stream, as an automaton a client can run: the response is
  created once and first; an output item is added at an index not used before, gets deltas, one
  final value that agrees with its deltas, and is done with that value; the terminal event comes
  when no item is open and repeats the items that are done, by index; nothing follows it.
\<close>

record open_item =
  oi_id :: string
  oi_kind :: string
  oi_deltas :: "string list"
  oi_final :: "string option"

record protocol =
  pr_created :: bool
  pr_open :: "(nat, open_item) dict"
  pr_items :: output_items
  pr_ended :: bool

definition stream_begin :: protocol where
  "stream_begin = \<lparr>pr_created = False, pr_open = [], pr_items = [], pr_ended = False\<rparr>"

definition event_index :: "obj \<Rightarrow> nat option" where
  "event_index event =
     (case dict_get event ''output_index'' of Some (JInt n) \<Rightarrow> (if 0 \<le> n then Some (nat n) else None) | _ \<Rightarrow> None)"

definition newline :: string where "newline = [CHR 0x0A]"

text \<open>The final value against the deltas; a call may have had arguments before it was added.\<close>

definition final_agrees :: "open_item \<Rightarrow> string \<Rightarrow> bool" where
  "final_agrees it text \<longleftrightarrow>
     (if oi_kind it = ''message'' then text = concat (oi_deltas it)
      else if oi_kind it = ''reasoning'' then text = join_with newline (oi_deltas it)
      else suffix (concat (oi_deltas it)) text)"

definition part_text :: "json \<Rightarrow> string" where
  "part_text v = (case v of JObj d \<Rightarrow> (case text_field d ''text'' of None \<Rightarrow> [] | Some t \<Rightarrow> t) | _ \<Rightarrow> [])"

definition item_text :: "obj \<Rightarrow> string option" where
  "item_text item =
     (if text_field item ''type'' = Some ''message''
      then (case dict_get item ''content'' of Some (JArr parts) \<Rightarrow> Some (concat (map part_text parts)) | _ \<Rightarrow> None)
      else if text_field item ''type'' = Some ''reasoning''
      then (case dict_get item ''summary'' of Some (JArr parts) \<Rightarrow> Some (join_with newline (map part_text parts)) | _ \<Rightarrow> None)
      else text_field item ''arguments'')"

definition DELTA_EVENTS :: "(string \<times> string) list" where
  "DELTA_EVENTS =
     [(''response.output_text.delta'', ''message''), (''response.reasoning_summary_text.delta'', ''reasoning''),
      (''response.function_call_arguments.delta'', ''function_call'')]"

definition FINAL_EVENTS :: "(string \<times> string \<times> string) list" where
  "FINAL_EVENTS =
     [(''response.output_text.done'', ''message'', ''text''), (''response.reasoning_summary_text.done'', ''reasoning'', ''text''),
      (''response.function_call_arguments.done'', ''function_call'', ''arguments'')]"

definition accept_added :: "nat \<Rightarrow> obj \<Rightarrow> protocol \<Rightarrow> protocol option" where
  "accept_added i event p =
     (case object_field event ''item'' of
        None \<Rightarrow> None
      | Some item \<Rightarrow>
          (case (text_field item ''id'', text_field item ''type'') of
             (Some item_id, Some kind) \<Rightarrow>
               (if dict_has (pr_open p) i \<or> dict_has (pr_items p) i then None
                else Some (p\<lparr>pr_open := dict_set (pr_open p) i
                       \<lparr>oi_id = item_id, oi_kind = kind, oi_deltas = [], oi_final = None\<rparr>\<rparr>))
           | _ \<Rightarrow> None))"

definition accept_done :: "nat \<Rightarrow> obj \<Rightarrow> protocol \<Rightarrow> protocol option" where
  "accept_done i event p =
     (case (object_field event ''item'', dict_get (pr_open p) i) of
        (Some item, Some it) \<Rightarrow>
          (if oi_final it \<noteq> None \<and> item_text item = oi_final it \<and> text_field item ''id'' = Some (oi_id it)
              \<and> text_field item ''type'' = Some (oi_kind it) \<and> text_field item ''status'' = Some ''completed''
           then Some (p\<lparr>pr_open := dict_pop (pr_open p) i, pr_items := dict_set (pr_items p) i (JObj item)\<rparr>)
           else None)
      | _ \<Rightarrow> None)"

definition accept_text :: "string \<Rightarrow> nat \<Rightarrow> obj \<Rightarrow> protocol \<Rightarrow> protocol option" where
  "accept_text event_kind i event p =
     (case dict_get (pr_open p) i of
        None \<Rightarrow> None
      | Some it \<Rightarrow>
          (if text_field event ''item_id'' \<noteq> Some (oi_id it) \<or> oi_final it \<noteq> None then None
           else if event_kind = ''response.content_part.added''
           then (if oi_kind it = ''message'' then Some p else None)
           else case dict_get DELTA_EVENTS event_kind of
             Some kind \<Rightarrow>
               (case text_field event ''delta'' of
                  Some d \<Rightarrow>
                    (if oi_kind it = kind
                     then Some (p\<lparr>pr_open := dict_set (pr_open p) i (it\<lparr>oi_deltas := oi_deltas it @ [d]\<rparr>)\<rparr>)
                     else None)
                | None \<Rightarrow> None)
           | None \<Rightarrow>
               (case dict_get FINAL_EVENTS event_kind of
                  Some (kind, field) \<Rightarrow>
                    (case text_field event field of
                       Some t \<Rightarrow>
                         (if oi_kind it = kind \<and> final_agrees it t
                          then Some (p\<lparr>pr_open := dict_set (pr_open p) i (it\<lparr>oi_final := Some t\<rparr>)\<rparr>)
                          else None)
                     | None \<Rightarrow> None)
                | None \<Rightarrow> None)))"

definition accept_terminal :: "obj \<Rightarrow> protocol \<Rightarrow> protocol option" where
  "accept_terminal event p =
     (case object_field event ''response'' of
        None \<Rightarrow> None
      | Some response \<Rightarrow>
          (if pr_open p = [] \<and> dict_get response ''output'' = Some (JArr (by_index (pr_items p)))
           then Some (p\<lparr>pr_ended := True\<rparr>) else None))"

definition accept :: "obj \<Rightarrow> protocol \<Rightarrow> protocol option" where
  "accept event p =
     (case text_field event ''type'' of
        None \<Rightarrow> None
      | Some kind \<Rightarrow>
          (if pr_ended p then None
           else if kind = ''response.created'' then (if pr_created p then None else Some (p\<lparr>pr_created := True\<rparr>))
           else if \<not> pr_created p then None
           else if kind = ''response.in_progress'' then Some p
           else if kind = ''response.completed'' \<or> kind = ''response.incomplete'' then accept_terminal event p
           else case event_index event of
                  None \<Rightarrow> None
                | Some i \<Rightarrow>
                    (if kind = ''response.output_item.added'' then accept_added i event p
                     else if kind = ''response.output_item.done'' then accept_done i event p
                     else accept_text kind i event p)))"

fun run :: "protocol \<Rightarrow> obj list \<Rightarrow> protocol option" where
  "run p [] = Some p"
| "run p (e # es) = (case accept e p of None \<Rightarrow> None | Some p' \<Rightarrow> run p' es)"

lemma run_append: "run p (es @ es') = (case run p es of None \<Rightarrow> None | Some p' \<Rightarrow> run p' es')"
  by (induction es arbitrary: p) (auto split: option.split)

text \<open>A stream is in progress between its creation and its end.\<close>

definition flowing :: "protocol \<Rightarrow> bool" where "flowing p \<longleftrightarrow> pr_created p \<and> \<not> pr_ended p"

lemma flowing_open [simp]: "flowing (p\<lparr>pr_open := x\<rparr>) = flowing p" "flowing (p\<lparr>pr_items := y\<rparr>) = flowing p"
  by (simp_all add: flowing_def)

section \<open>The events of the converter\<close>

named_theorems accepts \<open>what the automaton does with an event of the converter\<close>

lemma text_field_Cons [simp]:
  "text_field ((k, v) # d) k' = (if k' = k then (case v of JStr t \<Rightarrow> Some t | _ \<Rightarrow> None) else text_field d k')"
  by (simp add: text_field_def)

lemma text_field_Nil [simp]: "text_field [] k = None"
  by (simp add: text_field_def)

lemma object_field_Cons [simp]:
  "object_field ((k, v) # d) k' = (if k' = k then (case v of JObj kvs \<Rightarrow> Some kvs | _ \<Rightarrow> None) else object_field d k')"
  by (simp add: object_field_def)

lemma accept_created [accepts]:
  "\<not> pr_ended p \<Longrightarrow> \<not> pr_created p \<Longrightarrow> accept (response_event ''response.created'' r) p = Some (p\<lparr>pr_created := True\<rparr>)"
  "flowing p \<Longrightarrow> accept (response_event ''response.in_progress'' r) p = Some p"
  by (simp_all add: accept_def response_event_def flowing_def)

lemma accept_item_added [accepts]:
  "flowing p \<Longrightarrow> text_field item ''id'' = Some item_id \<Longrightarrow> text_field item ''type'' = Some kind \<Longrightarrow>
     dict_get (pr_open p) i = None \<Longrightarrow> dict_get (pr_items p) i = None \<Longrightarrow>
     accept (item_event ''response.output_item.added'' i item) p
       = Some (p\<lparr>pr_open := dict_set (pr_open p) i \<lparr>oi_id = item_id, oi_kind = kind, oi_deltas = [], oi_final = None\<rparr>\<rparr>)"
  by (simp add: accept_def item_event_def flowing_def event_index_def accept_added_def dict_has_def)

lemma accept_item_done [accepts]:
  "flowing p \<Longrightarrow> dict_get (pr_open p) i = Some it \<Longrightarrow> oi_final it = Some t \<Longrightarrow> item_text item = Some t \<Longrightarrow>
     text_field item ''id'' = Some (oi_id it) \<Longrightarrow> text_field item ''type'' = Some (oi_kind it) \<Longrightarrow>
     text_field item ''status'' = Some ''completed'' \<Longrightarrow>
     accept (item_event ''response.output_item.done'' i item) p
       = Some (p\<lparr>pr_open := dict_pop (pr_open p) i, pr_items := dict_set (pr_items p) i (JObj item)\<rparr>)"
  by (simp add: accept_def item_event_def flowing_def event_index_def accept_done_def)

lemma accept_part [accepts]:
  "flowing p \<Longrightarrow> dict_get (pr_open p) i = Some it \<Longrightarrow> oi_id it = item_id \<Longrightarrow> oi_kind it = ''message'' \<Longrightarrow> oi_final it = None \<Longrightarrow>
     accept (content_part_event i item_id) p = Some p"
  by (simp add: accept_def content_part_event_def flowing_def event_index_def accept_text_def)

lemma accept_delta [accepts]:
  "flowing p \<Longrightarrow> dict_get (pr_open p) i = Some it \<Longrightarrow> oi_id it = item_id \<Longrightarrow> oi_kind it = ''message'' \<Longrightarrow> oi_final it = None \<Longrightarrow>
     accept (text_delta_event item_id i d) p
       = Some (p\<lparr>pr_open := dict_set (pr_open p) i (it\<lparr>oi_deltas := oi_deltas it @ [d]\<rparr>)\<rparr>)"
  "flowing p \<Longrightarrow> dict_get (pr_open p) i = Some it \<Longrightarrow> oi_id it = item_id \<Longrightarrow> oi_kind it = ''reasoning'' \<Longrightarrow> oi_final it = None \<Longrightarrow>
     accept (reasoning_delta_event item_id i d) p
       = Some (p\<lparr>pr_open := dict_set (pr_open p) i (it\<lparr>oi_deltas := oi_deltas it @ [d]\<rparr>)\<rparr>)"
  "flowing p \<Longrightarrow> dict_get (pr_open p) i = Some it \<Longrightarrow> oi_id it = item_id \<Longrightarrow> oi_kind it = ''function_call'' \<Longrightarrow> oi_final it = None \<Longrightarrow>
     accept (arguments_delta_event item_id i d) p
       = Some (p\<lparr>pr_open := dict_set (pr_open p) i (it\<lparr>oi_deltas := oi_deltas it @ [d]\<rparr>)\<rparr>)"
  by (simp_all add: accept_def text_delta_event_def reasoning_delta_event_def arguments_delta_event_def flowing_def
      event_index_def accept_text_def DELTA_EVENTS_def)

lemma accept_final [accepts]:
  "flowing p \<Longrightarrow> dict_get (pr_open p) i = Some it \<Longrightarrow> oi_id it = item_id \<Longrightarrow> oi_kind it = ''message'' \<Longrightarrow> oi_final it = None \<Longrightarrow>
     t = concat (oi_deltas it) \<Longrightarrow>
     accept (text_done_event item_id i t) p = Some (p\<lparr>pr_open := dict_set (pr_open p) i (it\<lparr>oi_final := Some t\<rparr>)\<rparr>)"
  "flowing p \<Longrightarrow> dict_get (pr_open p) i = Some it \<Longrightarrow> oi_id it = item_id \<Longrightarrow> oi_kind it = ''reasoning'' \<Longrightarrow> oi_final it = None \<Longrightarrow>
     t = join_with newline (oi_deltas it) \<Longrightarrow>
     accept (reasoning_done_event item_id i t) p = Some (p\<lparr>pr_open := dict_set (pr_open p) i (it\<lparr>oi_final := Some t\<rparr>)\<rparr>)"
  "flowing p \<Longrightarrow> dict_get (pr_open p) i = Some it \<Longrightarrow> oi_id it = item_id \<Longrightarrow> oi_kind it = ''function_call'' \<Longrightarrow> oi_final it = None \<Longrightarrow>
     suffix (concat (oi_deltas it)) t \<Longrightarrow>
     accept (arguments_done_event item_id i t) p = Some (p\<lparr>pr_open := dict_set (pr_open p) i (it\<lparr>oi_final := Some t\<rparr>)\<rparr>)"
  by (simp_all add: accept_def text_done_event_def reasoning_done_event_def arguments_done_event_def flowing_def
      event_index_def accept_text_def DELTA_EVENTS_def FINAL_EVENTS_def final_agrees_def)

lemma accept_end [accepts]:
  "flowing p \<Longrightarrow> pr_open p = [] \<Longrightarrow> dict_get response ''output'' = Some (JArr (by_index (pr_items p))) \<Longrightarrow>
     kind = ''response.completed'' \<or> kind = ''response.incomplete'' \<Longrightarrow>
     accept (response_event kind response) p = Some (p\<lparr>pr_ended := True\<rparr>)"
  by (auto simp: accept_def response_event_def flowing_def accept_terminal_def)

end
