(* ===== verification/Chat_Stream_Properties.thy ===== *)
theory Chat_Stream_Properties
  imports Responses_Protocol
begin

text \<open>
  The stream converter keeps the contract of a Responses stream: a simulation between the state of
  the converter and the automaton of the contract, step by step.
\<close>

section \<open>The simulation\<close>

datatype slot = Reasoning_Slot | Message_Slot | Tool_Slot int

type_synonym shown_item = "string \<times> string \<times> string list"

text \<open>What an open item shows: all parts of a text; of arguments possibly only the last ones.\<close>

definition matches :: "shown_item \<Rightarrow> open_item \<Rightarrow> bool" where
  "matches x it \<longleftrightarrow>
     (case x of (item_id, kind, parts) \<Rightarrow>
        oi_id it = item_id \<and> oi_kind it = kind \<and> oi_final it = None
        \<and> (if kind = ''function_call'' then suffix (concat (oi_deltas it)) (concat parts) else oi_deltas it = parts))"

text \<open>The indices given to slots, the items shown of them, and the open items of the automaton.\<close>

definition sim :: "(slot \<Rightarrow> nat option) \<Rightarrow> (slot \<Rightarrow> shown_item option) \<Rightarrow> nat \<Rightarrow> protocol \<Rightarrow> bool" where
  "sim ix c n p \<longleftrightarrow>
     (\<forall>a b i. ix a = Some i \<longrightarrow> ix b = Some i \<longrightarrow> a = b)
     \<and> (\<forall>a i. ix a = Some i \<longrightarrow> i < n)
     \<and> (\<forall>a x. c a = Some x \<longrightarrow> (\<exists>i it. ix a = Some i \<and> dict_get (pr_open p) i = Some it \<and> matches x it))
     \<and> (\<forall>i it. dict_get (pr_open p) i = Some it \<longrightarrow> (\<exists>a. ix a = Some i \<and> c a \<noteq> None))"

lemma simI:
  assumes "\<And>a b i. ix a = Some i \<Longrightarrow> ix b = Some i \<Longrightarrow> a = b" and "\<And>a i. ix a = Some i \<Longrightarrow> i < n"
    and "\<And>a x. c a = Some x \<Longrightarrow> \<exists>i it. ix a = Some i \<and> dict_get (pr_open p) i = Some it \<and> matches x it"
    and "\<And>i it. dict_get (pr_open p) i = Some it \<Longrightarrow> \<exists>a. ix a = Some i \<and> c a \<noteq> None"
  shows "sim ix c n p"
  using assms unfolding sim_def by blast

lemma simD:
  assumes "sim ix c n p"
  shows "ix a = Some i \<Longrightarrow> ix b = Some i \<Longrightarrow> a = b" "ix a = Some i \<Longrightarrow> i < n"
    "c a = Some x \<Longrightarrow> \<exists>i it. ix a = Some i \<and> dict_get (pr_open p) i = Some it \<and> matches x it"
    "dict_get (pr_open p) i = Some it \<Longrightarrow> \<exists>a. ix a = Some i \<and> c a \<noteq> None"
  using assms unfolding sim_def by blast+

lemma sim_alloc:
  assumes s: "sim ix c n p" and new: "ix a = None"
  shows "sim (ix(a \<mapsto> n)) c (n + 1) p"
proof (rule simI)
  fix b b' i assume "(ix(a \<mapsto> n)) b = Some i" "(ix(a \<mapsto> n)) b' = Some i"
  then show "b = b'" using simD(1) [OF s, of b i b'] simD(2) [OF s, of b n] simD(2) [OF s, of b' n]
    by (auto split: if_splits)
next
  fix b i assume "(ix(a \<mapsto> n)) b = Some i"
  then show "i < n + 1" using simD(2) [OF s, of b i] by (auto split: if_splits)
next
  fix b x assume "c b = Some x"
  with simD(3) [OF s this] new show "\<exists>i it. (ix(a \<mapsto> n)) b = Some i \<and> dict_get (pr_open p) i = Some it \<and> matches x it"
    by (cases "b = a") auto
next
  fix i it assume "dict_get (pr_open p) i = Some it"
  from simD(4) [OF s this] obtain b where "ix b = Some i" "c b \<noteq> None" by blast
  with new show "\<exists>a'. (ix(a \<mapsto> n)) a' = Some i \<and> c a' \<noteq> None" by (intro exI [of _ b]) auto
qed

lemma sim_put:
  assumes s: "sim ix c n p" and a: "ix a = Some i" and m: "matches x it"
  shows "sim ix (c(a \<mapsto> x)) n (p\<lparr>pr_open := dict_set (pr_open p) i it\<rparr>)"
proof (rule simI)
  fix b y assume b: "(c(a \<mapsto> x)) b = Some y"
  show "\<exists>j jt. ix b = Some j \<and> dict_get (pr_open (p\<lparr>pr_open := dict_set (pr_open p) i it\<rparr>)) j = Some jt \<and> matches y jt"
  proof (cases "b = a")
    case True
    with a m b show ?thesis by (auto simp: dict_simps)
  next
    case False
    with b have cb: "c b = Some y" by simp
    from simD(3) [OF s this] obtain j jt where j: "ix b = Some j" "dict_get (pr_open p) j = Some jt" "matches y jt" by blast
    moreover have "j \<noteq> i" using simD(1) [OF s _ a, of b] j(1) False by auto
    ultimately show ?thesis by (auto simp: dict_simps)
  qed
next
  fix j jt assume "dict_get (pr_open (p\<lparr>pr_open := dict_set (pr_open p) i it\<rparr>)) j = Some jt"
  then have "j = i \<or> dict_get (pr_open p) j = Some jt" by (auto simp: dict_simps split: if_splits)
  then show "\<exists>b. ix b = Some j \<and> (c(a \<mapsto> x)) b \<noteq> None"
  proof
    assume "j = i"
    with a show ?thesis by (intro exI [of _ a]) simp
  next
    assume "dict_get (pr_open p) j = Some jt"
    from simD(4) [OF s this] obtain b where "ix b = Some j" "c b \<noteq> None" by blast
    then show ?thesis by (intro exI [of _ b]) (simp del: split_paired_Ex not_None_eq)
  qed
qed (use simD(1,2) [OF s] in auto)

lemma sim_get:
  assumes s: "sim ix c n p" and "ix a = Some i" and "c a = Some x"
  obtains it where "dict_get (pr_open p) i = Some it" "matches x it"
  using simD(3) [OF s assms(3)] assms(2) by auto

lemma sim_closed:
  assumes s: "sim ix c n p" and "ix a = Some i" and "c a = None"
  shows "dict_get (pr_open p) i = None"
proof (rule ccontr)
  assume "dict_get (pr_open p) i \<noteq> None"
  then obtain it where "dict_get (pr_open p) i = Some it" by auto
  from simD(4) [OF s this] obtain b where "ix b = Some i" "c b \<noteq> None" by blast
  with simD(1) [OF s _ assms(2), of b] assms(3) show False by auto
qed

lemma sim_pop:
  assumes s: "sim ix c n p" and a: "ix a = Some i"
  shows "sim ix (c(a := None)) n (p\<lparr>pr_open := dict_pop (pr_open p) i, pr_items := items\<rparr>)"
proof (rule simI)
  fix b y assume "(c(a := None)) b = Some y"
  then have b: "b \<noteq> a" "c b = Some y" by (auto split: if_splits)
  from simD(3) [OF s b(2)] obtain j jt where j: "ix b = Some j" "dict_get (pr_open p) j = Some jt" "matches y jt" by blast
  moreover have "j \<noteq> i" using simD(1) [OF s _ a, of b] j(1) b(1) by auto
  ultimately show "\<exists>j jt. ix b = Some j \<and> dict_get (pr_open (p\<lparr>pr_open := dict_pop (pr_open p) i, pr_items := items\<rparr>)) j = Some jt \<and> matches y jt"
    by (auto simp: dict_simps)
next
  fix j jt assume "dict_get (pr_open (p\<lparr>pr_open := dict_pop (pr_open p) i, pr_items := items\<rparr>)) j = Some jt"
  then have j: "j \<noteq> i" "dict_get (pr_open p) j = Some jt" by (auto simp: dict_simps split: if_splits)
  from simD(4) [OF s j(2)] obtain b where b: "ix b = Some j" "c b \<noteq> None" by blast
  with a j(1) show "\<exists>b. ix b = Some j \<and> (c(a := None)) b \<noteq> None" by (intro exI [of _ b]) auto
qed (use simD(1,2) [OF s] in auto)

lemma sim_empty:
  assumes "sim ix Map.empty n p"
  shows "pr_open p = []"
proof (cases "pr_open p")
  case (Cons x xs)
  then have "dict_get (pr_open p) (fst x) = Some (snd x)" by (cases x) simp
  from simD(4) [OF assms this] show ?thesis by simp
qed simp

lemma sim_frame: "pr_open p' = pr_open p \<Longrightarrow> sim ix c n p' = sim ix c n p"
  by (simp add: sim_def)

fun index_of :: "chat_converter \<Rightarrow> slot \<Rightarrow> nat option" where
  "index_of s Reasoning_Slot = cv_reasoning_output_index s"
| "index_of s Message_Slot = cv_message_output_index s"
| "index_of s (Tool_Slot k) = map_option ts_output_index (dict_get (cv_tool_states s) k)"

definition shown_tool :: "tool_state \<Rightarrow> shown_item option" where
  "shown_tool t = (if ts_added t then Some (ts_item_id t, ''function_call'', ts_arguments t) else None)"

fun content_of :: "chat_converter \<Rightarrow> slot \<Rightarrow> shown_item option" where
  "content_of s Reasoning_Slot =
     (if cv_reasoning_started s then Some (cv_reasoning_item_id s, ''reasoning'', cv_reasoning_parts s) else None)"
| "content_of s Message_Slot =
     (if cv_message_started s then Some (cv_item_id s, ''message'', cv_text_parts s) else None)"
| "content_of s (Tool_Slot k) = Option.bind (dict_get (cv_tool_states s) k) shown_tool"

definition tool_ok :: "tool_state \<Rightarrow> bool" where
  "tool_ok t \<longleftrightarrow> \<not> ts_done t \<and> (ts_added t \<longleftrightarrow> ts_call_id t \<noteq> [] \<and> ts_name t \<noteq> [])"

definition converter_ok :: "chat_converter \<Rightarrow> bool" where
  "converter_ok s \<longleftrightarrow>
     \<not> cv_completed s \<and> distinct (map fst (cv_tool_states s))
     \<and> (\<forall>k t. dict_get (cv_tool_states s) k = Some t \<longrightarrow> tool_ok t \<and> (ts_added t \<longrightarrow> cv_created_emitted s))
     \<and> (cv_reasoning_output_index s = None \<longleftrightarrow> \<not> cv_reasoning_started s)
     \<and> (cv_reasoning_parts s = [] \<longleftrightarrow> \<not> cv_reasoning_started s)
     \<and> (cv_message_output_index s = None \<longleftrightarrow> \<not> cv_message_started s)
     \<and> (cv_text_parts s = [] \<longleftrightarrow> \<not> cv_message_started s)
     \<and> (cv_reasoning_started s \<or> cv_message_started s \<longrightarrow> cv_created_emitted s)"

definition simulates :: "chat_converter \<Rightarrow> protocol \<Rightarrow> bool" where
  "simulates s p \<longleftrightarrow>
     converter_ok s \<and> sim (index_of s) (content_of s) (cv_next_output_index s) p
     \<and> pr_items p = [] \<and> \<not> pr_ended p \<and> (pr_created p \<longleftrightarrow> cv_created_emitted s)"

lemma simulates_begin: "simulates (new_chat_converter now r m g) stream_begin"
proof -
  have "index_of (new_chat_converter now r m g) a = None" "content_of (new_chat_converter now r m g) a = None" for a
    by (cases a; simp add: new_chat_converter_def)+
  then show ?thesis
    by (simp add: simulates_def sim_def stream_begin_def converter_ok_def) (simp add: new_chat_converter_def)
qed

text \<open>Changes the automaton does not see.\<close>

lemma index_of_frame [simp]:
  "index_of (s\<lparr>cv_created_emitted := b\<rparr>) = index_of s" "index_of (s\<lparr>cv_created_at := x\<rparr>) = index_of s"
  "index_of (s\<lparr>cv_model := y\<rparr>) = index_of s" "index_of (s\<lparr>cv_usage := u\<rparr>) = index_of s"
  "index_of (s\<lparr>cv_pending_incomplete := z\<rparr>) = index_of s" "index_of (s\<lparr>cv_text_parts := ts\<rparr>) = index_of s"
  "index_of (s\<lparr>cv_reasoning_parts := ts\<rparr>) = index_of s" "index_of (s\<lparr>cv_message_started := b\<rparr>) = index_of s"
  "index_of (s\<lparr>cv_reasoning_started := b\<rparr>) = index_of s" "index_of (s\<lparr>cv_next_output_index := n\<rparr>) = index_of s"
  "index_of (s\<lparr>cv_completed := b\<rparr>) = index_of s"
  by (intro ext; rename_tac a; case_tac a; simp)+

lemma content_of_frame [simp]:
  "content_of (s\<lparr>cv_created_emitted := b\<rparr>) = content_of s" "content_of (s\<lparr>cv_created_at := x\<rparr>) = content_of s"
  "content_of (s\<lparr>cv_model := y\<rparr>) = content_of s" "content_of (s\<lparr>cv_usage := u\<rparr>) = content_of s"
  "content_of (s\<lparr>cv_pending_incomplete := z\<rparr>) = content_of s" "content_of (s\<lparr>cv_next_output_index := n\<rparr>) = content_of s"
  "content_of (s\<lparr>cv_message_output_index := mi\<rparr>) = content_of s" "content_of (s\<lparr>cv_reasoning_output_index := ri\<rparr>) = content_of s"
  "content_of (s\<lparr>cv_completed := b\<rparr>) = content_of s"
  by (intro ext; rename_tac a; case_tac a; simp)+

section \<open>The steps of the converter\<close>

text \<open>What the helpers return, and which fields they leave alone.\<close>

lemma stamp_created_ok:
  assumes "stamp_created_field now payload key fallback = Inr (payload', b)"
  shows "k \<noteq> key \<Longrightarrow> dict_get payload' k = dict_get payload k"
  using assms by (auto simp: stamp_created_field_def res_simps dict_simps split: if_splits)

lemma stamp_wire_ok:
  assumes "stamp_wire_timestamps now payload fallback = Inr (payload', b)"
    and "k \<noteq> ''created_at''" "k \<noteq> ''created''" "k \<noteq> ''response''"
  shows "dict_get payload' k = dict_get payload k"
proof -
  from assms(1) obtain q b1 where q: "stamp_nested now payload fallback = Inr (q, b1)"
    and r: "payload' = q \<or> (\<exists>key b2. (key = ''created_at'' \<or> key = ''created'') \<and> stamp_created_field now q key fallback = Inr (payload', b2))"
    by (auto simp: stamp_wire_timestamps_def res_simps split: if_splits)
  have "dict_get q k = dict_get payload k"
    using q assms(4) by (auto simp: stamp_nested_def res_simps dict_simps split: option.splits if_splits)
  with r stamp_created_ok [of now q _ fallback payload' _ k] assms(2,3) show ?thesis by metis
qed

lemma attempt_ok [action_ok]: "attempt r s = (Inr a, s') \<longleftrightarrow> r = Inr a \<and> s' = s"
  by (auto simp: attempt_def lift_result_def)

lemma update_ok [action_ok]: "update f s = (Inr u, s') \<longleftrightarrow> s' = f s"
  by (auto simp: update_def change_def)

lemma bind_attemptE:
  assumes "bind (attempt r) f s = (Inr b, s'')"
  obtains a where "r = Inr a" "f a s = (Inr b, s'')"
  using assms by (auto elim!: bindE simp: attempt_ok)

lemma bind_updateE:
  assumes "bind (update g) f s = (Inr b, s'')"
  obtains "f () (g s) = (Inr b, s'')"
  using assms by (auto elim!: bindE simp: update_ok)

lemma stamp_response_ok:
  assumes "stamp_response r s = (Inr r', s')"
  shows "\<exists>c. s' = s\<lparr>cv_created_at := c\<rparr>" "dict_get r' ''output'' = dict_get r ''output''"
proof -
  define r0 where "r0 = (case cv_created_at s of None \<Rightarrow> r | Some n \<Rightarrow> dict_set r ''created_at'' (JInt n))"
  define after :: "obj \<Rightarrow> obj converting" where "after = (\<lambda>r'. case dict_get r' ''created_at'' of
        Some (JInt n) \<Rightarrow> bind (update (\<lambda>s. s\<lparr>cv_created_at := Some n\<rparr>)) (\<lambda>_. give r') | _ \<Rightarrow> give r')"
  from assms have "bind (attempt (stamp_wire_timestamps (cv_now s) r0 None)) (\<lambda>(r', _). after r') s = (Inr r', s')"
    by (simp add: stamp_response_def Let_def r0_def after_def)
  then obtain x where x: "stamp_wire_timestamps (cv_now s) r0 None = Inr x" and af: "(\<lambda>(r', _). after r') x s = (Inr r', s')"
    by (rule bind_attemptE)
  obtain r1 b where xe: "x = (r1, b)" by (cases x)
  have noop: "\<exists>c. s = s\<lparr>cv_created_at := c\<rparr>" by (rule exI [of _ "cv_created_at s"]) simp
  have "r1 = r' \<and> (\<exists>c. s' = s\<lparr>cv_created_at := c\<rparr>)"
  proof (cases "\<exists>n. dict_get r1 ''created_at'' = Some (JInt n)")
    case True
    then obtain n where "dict_get r1 ''created_at'' = Some (JInt n)" by blast
    with af have "r1 = r'" "s' = s\<lparr>cv_created_at := Some n\<rparr>"
      unfolding xe after_def by (auto elim!: bind_updateE simp: ret_ok)
    then show ?thesis by blast
  next
    case False
    then have "after r1 = give r1" unfolding after_def by (auto split: option.split json.split)
    with af noop show ?thesis unfolding xe by (simp add: ret_ok)
  qed
  then show "\<exists>c. s' = s\<lparr>cv_created_at := c\<rparr>" by simp
  have "dict_get r1 ''output'' = dict_get r0 ''output''" by (rule stamp_wire_ok [OF x [unfolded xe]]) simp_all
  with \<open>r1 = r' \<and> _\<close> show "dict_get r' ''output'' = dict_get r ''output''"
    by (simp add: r0_def dict_simps split: option.split)
qed

lemma created_events_ok:
  assumes "created_events s = (Inr es, s')"
  shows "\<exists>c. s' = s\<lparr>cv_created_emitted := True, cv_created_at := c\<rparr>"
    "if cv_created_emitted s then es = [] \<and> s' = s
     else \<exists>r. es = [response_event ''response.created'' r, response_event ''response.in_progress'' r]"
proof -
  have "(\<exists>c. s' = s\<lparr>cv_created_emitted := True, cv_created_at := c\<rparr>) \<and>
    (if cv_created_emitted s then es = [] \<and> s' = s
     else \<exists>r. es = [response_event ''response.created'' r, response_event ''response.in_progress'' r])"
  proof (cases "cv_created_emitted s")
    case True
    with assms have "es = []" "s' = s" by (simp_all add: created_events_def ret_ok)
    with True show ?thesis by (auto intro!: exI [of _ "cv_created_at s"])
  next
    case False
    with assms have "bind (update (\<lambda>s. s\<lparr>cv_created_emitted := True\<rparr>)) (\<lambda>_.
           bind (stamp_response (response_object s ''in_progress'' [])) (\<lambda>response.
             give [response_event ''response.created'' response, response_event ''response.in_progress'' response])) s = (Inr es, s')"
      by (simp add: created_events_def)
    then obtain r s1 where r: "stamp_response (response_object s ''in_progress'' []) (s\<lparr>cv_created_emitted := True\<rparr>) = (Inr r, s1)"
      and e: "give [response_event ''response.created'' r, response_event ''response.in_progress'' r] s1 = (Inr es, s')"
      by (elim bind_updateE bindE)
    from stamp_response_ok(1) [OF r] e False show ?thesis by (auto simp: ret_ok)
  qed
  then show "\<exists>c. s' = s\<lparr>cv_created_emitted := True, cv_created_at := c\<rparr>"
    "if cv_created_emitted s then es = [] \<and> s' = s
     else \<exists>r. es = [response_event ''response.created'' r, response_event ''response.in_progress'' r]"
    by blast+
qed

lemma converter_ok_created:
  "converter_ok s \<Longrightarrow> converter_ok (s\<lparr>cv_created_emitted := True, cv_created_at := c\<rparr>)"
  by (auto simp: converter_ok_def)

lemma run_created:
  assumes "\<not> pr_ended p" and "pr_created p \<longleftrightarrow> cv_created_emitted s" and c: "created_events s = (Inr es, s')"
  shows "run p es = Some (p\<lparr>pr_created := True\<rparr>)" "flowing (p\<lparr>pr_created := True\<rparr>)"
proof -
  show f: "flowing (p\<lparr>pr_created := True\<rparr>)" using assms(1) by (simp add: flowing_def)
  have "pr_created p \<Longrightarrow> p\<lparr>pr_created := True\<rparr> = p" by simp
  with created_events_ok(2) [OF c] f assms(1,2) show "run p es = Some (p\<lparr>pr_created := True\<rparr>)"
    by (auto simp: accepts split: if_splits)
qed

lemma sim_created [simp]: "sim ix c n (p\<lparr>pr_created := b\<rparr>) = sim ix c n p"
  by (rule sim_frame) simp

lemma run_open:
  assumes "flowing p" and s: "sim ix c n p" and a: "ix a = Some i" "c a = None" and "pr_items p = []"
    and item: "text_field item ''id'' = Some item_id" "text_field item ''type'' = Some kind"
    and parts: "kind = ''function_call'' \<or> parts = []"
  obtains p' where "run p [item_event ''response.output_item.added'' i item] = Some p'" "flowing p'" "pr_items p' = []"
    "sim ix (c(a \<mapsto> (item_id, kind, parts))) n p'"
proof -
  let ?it = "\<lparr>oi_id = item_id, oi_kind = kind, oi_deltas = [], oi_final = None\<rparr>"
  have "run p [item_event ''response.output_item.added'' i item] = Some (p\<lparr>pr_open := dict_set (pr_open p) i ?it\<rparr>)"
    using assms(1,5) item sim_closed [OF s a] by (simp add: accepts)
  moreover have "matches (item_id, kind, parts) ?it" using parts by (auto simp: matches_def)
  from sim_put [OF s a(1) this] have "sim ix (c(a \<mapsto> (item_id, kind, parts))) n (p\<lparr>pr_open := dict_set (pr_open p) i ?it\<rparr>)" .
  ultimately show thesis using assms(1,5) by (intro that) simp_all
qed

lemma run_delta:
  assumes "flowing p" and s: "sim ix c n p" and a: "ix a = Some i" "c a = Some (item_id, kind, parts)"
    and e: "\<And>it. dict_get (pr_open p) i = Some it \<Longrightarrow> oi_id it = item_id \<Longrightarrow> oi_kind it = kind \<Longrightarrow> oi_final it = None \<Longrightarrow>
      accept e p = Some (p\<lparr>pr_open := dict_set (pr_open p) i (it\<lparr>oi_deltas := oi_deltas it @ [d]\<rparr>)\<rparr>)"
  obtains p' where "run p [e] = Some p'" "flowing p'" "pr_items p' = pr_items p"
    "sim ix (c(a \<mapsto> (item_id, kind, parts @ [d]))) n p'"
proof -
  from sim_get [OF s a] obtain it where it: "dict_get (pr_open p) i = Some it" "matches (item_id, kind, parts) it" .
  let ?it = "it\<lparr>oi_deltas := oi_deltas it @ [d]\<rparr>"
  have "run p [e] = Some (p\<lparr>pr_open := dict_set (pr_open p) i ?it\<rparr>)"
    using e it by (simp add: matches_def)
  moreover have "matches (item_id, kind, parts @ [d]) ?it"
    using it(2) by (auto simp: matches_def suffix_def)
  from sim_put [OF s a(1) this] have "sim ix (c(a \<mapsto> (item_id, kind, parts @ [d]))) n (p\<lparr>pr_open := dict_set (pr_open p) i ?it\<rparr>)" .
  ultimately show thesis using assms(1) by (intro that) simp_all
qed

lemma simulatesD:
  assumes "simulates s p"
  shows "converter_ok s" "sim (index_of s) (content_of s) (cv_next_output_index s) p" "pr_items p = []"
    "\<not> pr_ended p" "pr_created p \<longleftrightarrow> cv_created_emitted s"
  using assms unfolding simulates_def by blast+

lemma simulatesI:
  assumes "converter_ok s" and "sim (index_of s) (content_of s) (cv_next_output_index s) p" and "pr_items p = []"
    and "flowing p" and "cv_created_emitted s"
  shows "simulates s p"
  using assms by (simp add: simulates_def flowing_def)

text \<open>Text.\<close>

lemma message_index_ok:
  assumes "message_index s = (Inr i, s')"
  shows "if cv_message_output_index s = None
         then i = cv_next_output_index s \<and> s' = s\<lparr>cv_next_output_index := i + 1, cv_message_output_index := Some i\<rparr>
         else cv_message_output_index s = Some i \<and> s' = s"
  using assms
  by (auto simp: message_index_def ret_ok allocate_output_index_def bind_def update_def change_def ret_def split: option.splits)

lemma message_start_ok:
  assumes "message_start_events s = (Inr es, s')"
  obtains ec s1 where "created_events s = (Inr ec, s1)"
    "if cv_message_started s then es = ec \<and> s' = s1
     else \<exists>i s2. message_index s1 = (Inr i, s2) \<and> s' = s2\<lparr>cv_message_started := True\<rparr>
       \<and> es = ec @ [item_event ''response.output_item.added'' i (message_item s2 ''in_progress'' []), content_part_event i (cv_item_id s2)]"
proof -
  from assms obtain ec s1 where c: "created_events s = (Inr ec, s1)"
    and r: "(if cv_message_started s1 then give ec s1
        else bind message_index (\<lambda>i.
             bind (update (\<lambda>s. s\<lparr>cv_message_started := True\<rparr>)) (\<lambda>_.
               give (ec @ [item_event ''response.output_item.added'' i (message_item s1 ''in_progress'' []),
                              content_part_event i (cv_item_id s1)]))) s1) = (Inr es, s')"
    unfolding message_start_events_def by (rule bindE)
  from created_events_ok(1) [OF c] have st: "cv_message_started s1 = cv_message_started s" by auto
  show thesis
  proof (cases "cv_message_started s")
    case True
    with r st show thesis by (intro that [OF c]) (simp add: ret_ok)
  next
    case False
    with r st obtain i s2 where i: "message_index s1 = (Inr i, s2)"
      and e: "give (ec @ [item_event ''response.output_item.added'' i (message_item s1 ''in_progress'' []),
                 content_part_event i (cv_item_id s1)]) (s2\<lparr>cv_message_started := True\<rparr>) = (Inr es, s')"
      by (auto elim!: bindE bind_updateE simp: update_ok)
    have "cv_item_id s2 = cv_item_id s1" using message_index_ok [OF i] by (auto split: if_splits)
    with e i False show thesis by (intro that [OF c]) (auto simp: ret_ok message_item_def)
  qed
qed

lemma run_append_Some: "run p es = Some p' \<Longrightarrow> run p (es @ es') = run p' es'"
  by (simp add: run_append)

lemma content_Message:
  assumes "cv_item_id s' = cv_item_id s" "cv_message_started s'" "cv_text_parts s' = ts"
    "cv_reasoning_started s' = cv_reasoning_started s" "cv_reasoning_item_id s' = cv_reasoning_item_id s"
    "cv_reasoning_parts s' = cv_reasoning_parts s" "cv_tool_states s' = cv_tool_states s"
  shows "content_of s' = (content_of s)(Message_Slot \<mapsto> (cv_item_id s, ''message'', ts))"
proof
  fix a show "content_of s' a = ((content_of s)(Message_Slot \<mapsto> (cv_item_id s, ''message'', ts))) a"
    using assms by (cases a) simp_all
qed

lemma run_text:
  assumes sim: "simulates s p" and c: "c \<noteq> []"
    and st: "message_start_events (s\<lparr>cv_text_parts := cv_text_parts s @ [c]\<rparr>) = (Inr e1, s')"
    and e2: "e2 = text_delta_event (cv_item_id s') (case cv_message_output_index s' of None \<Rightarrow> 0 | Some i \<Rightarrow> i) c"
  shows "\<exists>p'. run p (e1 @ [e2]) = Some p' \<and> simulates s' p'"
proof -
  note S = simulatesD [OF sim]
  let ?s0 = "s\<lparr>cv_text_parts := cv_text_parts s @ [c]\<rparr>"
  let ?x = "\<lambda>ts. (cv_item_id s, ''message'', ts)"
  from st obtain ec s1 where cr: "created_events ?s0 = (Inr ec, s1)" and branch: "if cv_message_started ?s0 then e1 = ec \<and> s' = s1
     else \<exists>i s2. message_index s1 = (Inr i, s2) \<and> s' = s2\<lparr>cv_message_started := True\<rparr>
       \<and> e1 = ec @ [item_event ''response.output_item.added'' i (message_item s2 ''in_progress'' []), content_part_event i (cv_item_id s2)]"
    by (rule message_start_ok)
  obtain t where s1: "s1 = ?s0\<lparr>cv_created_emitted := True, cv_created_at := t\<rparr>" using created_events_ok(1) [OF cr] by blast
  let ?p1 = "p\<lparr>pr_created := True\<rparr>"
  have p1: "run p ec = Some ?p1" "flowing ?p1" using run_created [OF _ _ cr, of p] S(4,5) by simp_all
  show ?thesis
  proof (cases "cv_message_started s")
    case True
    with branch have e1: "e1 = ec" "s' = s1" by simp_all
    from S(1) True obtain i where i: "cv_message_output_index s = Some i" by (auto simp: converter_ok_def)
    have "sim (index_of s) (content_of s) (cv_next_output_index s) ?p1" using S(2) by simp
    moreover have "index_of s Message_Slot = Some i" "content_of s Message_Slot = Some (?x (cv_text_parts s))" using i True by simp_all
    moreover have "accept e2 ?p1 = Some (?p1\<lparr>pr_open := dict_set (pr_open ?p1) i (it\<lparr>oi_deltas := oi_deltas it @ [c]\<rparr>)\<rparr>)"
      if "dict_get (pr_open ?p1) i = Some it" "oi_id it = cv_item_id s" "oi_kind it = ''message''" "oi_final it = None" for it
      using accept_delta(1) [OF p1(2) that] i by (simp add: e2 e1 s1)
    ultimately obtain p' where p': "run ?p1 [e2] = Some p'" "flowing p'" "pr_items p' = pr_items ?p1"
      "sim (index_of s) ((content_of s)(Message_Slot \<mapsto> ?x (cv_text_parts s @ [c]))) (cv_next_output_index s) p'"
      by (rule run_delta [OF p1(2), where e = e2 and d = c])
    have "simulates s' p'"
    proof (rule simulatesI)
      have "content_of s' = (content_of s)(Message_Slot \<mapsto> ?x (cv_text_parts s @ [c]))"
        by (rule content_Message) (simp_all add: e1 s1 True)
      then show "sim (index_of s') (content_of s') (cv_next_output_index s') p'" using p'(4) by (simp add: e1 s1)
      show "converter_ok s'" using S(1) True by (auto simp: converter_ok_def e1 s1)
    qed (use p' S(3) in \<open>simp_all add: e1 s1\<close>)
    then show ?thesis using run_append_Some [OF p1(1)] p'(1) by (auto simp: e1)
  next
    case False
    with S(1) have none: "cv_message_output_index s = None" "cv_text_parts s = []" by (simp_all add: converter_ok_def)
    let ?n = "cv_next_output_index s"
    from branch False obtain i s2 where "message_index s1 = (Inr i, s2)" and s': "s' = s2\<lparr>cv_message_started := True\<rparr>"
      and e1: "e1 = ec @ [item_event ''response.output_item.added'' i (message_item s2 ''in_progress'' []), content_part_event i (cv_item_id s2)]"
      by auto
    from message_index_ok [OF this(1)] none have i: "i = ?n"
      and s2: "s2 = s1\<lparr>cv_next_output_index := ?n + 1, cv_message_output_index := Some ?n\<rparr>" by (simp_all add: s1)
    let ?ix = "(index_of s)(Message_Slot \<mapsto> ?n)"
    have sm: "sim ?ix (content_of s) (?n + 1) ?p1" using sim_alloc [OF S(2), of Message_Slot] none by simp
    have "?ix Message_Slot = Some ?n" "content_of s Message_Slot = None" "pr_items ?p1 = []"
      using False S(3) by simp_all
    moreover have "text_field (message_item s2 ''in_progress'' []) ''id'' = Some (cv_item_id s)"
      "text_field (message_item s2 ''in_progress'' []) ''type'' = Some ''message''" by (simp_all add: message_item_def s2 s1)
    ultimately obtain p2 where p2: "run ?p1 [item_event ''response.output_item.added'' ?n (message_item s2 ''in_progress'' [])] = Some p2"
      "flowing p2" "pr_items p2 = []" "sim ?ix ((content_of s)(Message_Slot \<mapsto> ?x [])) (?n + 1) p2"
      by (rule run_open [OF p1(2) sm, where parts = "[]" and kind = "''message''"]) simp
    have "?ix Message_Slot = Some ?n" "((content_of s)(Message_Slot \<mapsto> ?x [])) Message_Slot = Some (?x [])" by simp_all
    from sim_get [OF p2(4) this] obtain it where it: "dict_get (pr_open p2) ?n = Some it" "matches (?x []) it" .
    have p2': "run p2 [content_part_event ?n (cv_item_id s2)] = Some p2"
      using p2(2) it by (simp add: accepts matches_def s2 s1)
    have "?ix Message_Slot = Some ?n" "((content_of s)(Message_Slot \<mapsto> ?x [])) Message_Slot = Some (?x [])" by simp_all
    moreover have "accept e2 p2 = Some (p2\<lparr>pr_open := dict_set (pr_open p2) ?n (it\<lparr>oi_deltas := oi_deltas it @ [c]\<rparr>)\<rparr>)"
      if "dict_get (pr_open p2) ?n = Some it" "oi_id it = cv_item_id s" "oi_kind it = ''message''" "oi_final it = None" for it
      using accept_delta(1) [OF p2(2) that] by (simp add: e2 s' s2 s1)
    ultimately obtain p3 where p3: "run p2 [e2] = Some p3" "flowing p3" "pr_items p3 = pr_items p2"
      "sim ?ix ((content_of s)(Message_Slot \<mapsto> ?x [], Message_Slot \<mapsto> ?x ([] @ [c]))) (?n + 1) p3"
      by (rule run_delta [OF p2(2,4), where e = e2 and d = c])
    have r: "run p (e1 @ [e2]) = Some p3"
      using run_append_Some [OF p1(1)] run_append_Some [OF p2(1)] run_append_Some [OF p2'] p3(1) by (simp add: e1 i)
    have "simulates s' p3"
    proof (rule simulatesI)
      have ix: "index_of s' = ?ix"
      proof
        fix a show "index_of s' a = ?ix a" by (cases a) (simp_all add: s' s2 s1)
      qed
      have "content_of s' = (content_of s)(Message_Slot \<mapsto> ?x [c])"
        by (rule content_Message) (simp_all add: s' s2 s1 none)
      then show "sim (index_of s') (content_of s') (cv_next_output_index s') p3" using p3(4) by (simp add: ix) (simp add: s' s2)
      show "converter_ok s'" using S(1) by (auto simp: converter_ok_def s' s2 s1)
    qed (use p3 p2(3) in \<open>simp_all add: s' s2 s1\<close>)
    with r show ?thesis by blast
  qed
qed

lemma run_content:
  assumes sim: "simulates s p" and r: "content_events source s = (Inr es, s')"
  shows "\<exists>p'. run p es = Some p' \<and> simulates s' p'"
proof (cases "\<exists>c. dict_get source ''content'' = Some (JStr c) \<and> c \<noteq> []")
  case True
  then obtain c where c: "dict_get source ''content'' = Some (JStr c)" "c \<noteq> []" by blast
  with r have "bind (update (\<lambda>s. s\<lparr>cv_text_parts := cv_text_parts s @ [c]\<rparr>)) (\<lambda>_.
                bind message_start_events (\<lambda>events s.
                  give (events @ [text_delta_event (cv_item_id s)
                    (case cv_message_output_index s of None \<Rightarrow> 0 | Some i \<Rightarrow> i) c]) s)) s = (Inr es, s')"
    by (simp add: content_events_def)
  then obtain e1 s1 where m: "message_start_events (s\<lparr>cv_text_parts := cv_text_parts s @ [c]\<rparr>) = (Inr e1, s1)"
    and e: "give (e1 @ [text_delta_event (cv_item_id s1) (case cv_message_output_index s1 of None \<Rightarrow> 0 | Some i \<Rightarrow> i) c]) s1 = (Inr es, s')"
    by (elim bind_updateE bindE)
  from run_text [OF sim c(2) m refl] e show ?thesis by (simp add: ret_ok)
next
  case False
  with r have "es = []" "s' = s"
    by (auto simp: content_events_def action_ok split: option.splits json.splits if_splits)
  with sim show ?thesis by simp
qed

text \<open>Reasoning.\<close>

lemma reasoning_index_ok:
  assumes "reasoning_index s = (Inr i, s')"
  shows "if cv_reasoning_output_index s = None
         then i = cv_next_output_index s \<and> s' = s\<lparr>cv_next_output_index := i + 1, cv_reasoning_output_index := Some i\<rparr>
         else cv_reasoning_output_index s = Some i \<and> s' = s"
  using assms
  by (auto simp: reasoning_index_def ret_ok allocate_output_index_def bind_def update_def change_def ret_def split: option.splits)

lemma reasoning_events_ok:
  assumes "reasoning_events text s = (Inr es, s')" and "text \<noteq> []" "text \<notin> set (cv_reasoning_parts s)"
  obtains ec s1 i s2 where
    "created_events (s\<lparr>cv_reasoning_parts := cv_reasoning_parts s @ [text]\<rparr>) = (Inr ec, s1)" "reasoning_index s1 = (Inr i, s2)"
    "s' = s2\<lparr>cv_reasoning_started := True\<rparr>"
    "es = ec @ (if cv_reasoning_started s2 then []
                else [item_event ''response.output_item.added'' i (reasoning_item s2 ''in_progress'' [])])
             @ [reasoning_delta_event (cv_reasoning_item_id s2) i text]"
proof -
  from assms have "bind (update (\<lambda>s. s\<lparr>cv_reasoning_parts := cv_reasoning_parts s @ [text]\<rparr>)) (\<lambda>_.
           bind created_events (\<lambda>events.
           bind reasoning_index (\<lambda>i s.
             bind (update (\<lambda>s. s\<lparr>cv_reasoning_started := True\<rparr>)) (\<lambda>_.
               give (events
                 @ (if cv_reasoning_started s then []
                    else [item_event ''response.output_item.added'' i (reasoning_item s ''in_progress'' [])])
                 @ [reasoning_delta_event (cv_reasoning_item_id s) i text])) s))) s = (Inr es, s')"
    by (simp add: reasoning_events_def)
  then show thesis by (elim bind_updateE bindE) (auto simp: action_ok intro: that)
qed

lemma content_Reasoning:
  assumes "cv_reasoning_item_id s' = cv_reasoning_item_id s" "cv_reasoning_started s'" "cv_reasoning_parts s' = ts"
    "cv_message_started s' = cv_message_started s" "cv_item_id s' = cv_item_id s"
    "cv_text_parts s' = cv_text_parts s" "cv_tool_states s' = cv_tool_states s"
  shows "content_of s' = (content_of s)(Reasoning_Slot \<mapsto> (cv_reasoning_item_id s, ''reasoning'', ts))"
proof
  fix a show "content_of s' a = ((content_of s)(Reasoning_Slot \<mapsto> (cv_reasoning_item_id s, ''reasoning'', ts))) a"
    using assms by (cases a) simp_all
qed

lemma run_reasoning:
  assumes sim: "simulates s p" and r: "reasoning_events text s = (Inr es, s')"
  shows "\<exists>p'. run p es = Some p' \<and> simulates s' p'"
proof (cases "text = [] \<or> text \<in> set (cv_reasoning_parts s)")
  case True
  with r sim show ?thesis by (auto simp: reasoning_events_def ret_ok)
next
  case new: False
  note S = simulatesD [OF sim]
  let ?s0 = "s\<lparr>cv_reasoning_parts := cv_reasoning_parts s @ [text]\<rparr>"
  let ?x = "\<lambda>ts. (cv_reasoning_item_id s, ''reasoning'', ts)"
  have n: "text \<noteq> []" "text \<notin> set (cv_reasoning_parts s)" using new by simp_all
  obtain ec s1 i s2 where cr: "created_events ?s0 = (Inr ec, s1)" and ri: "reasoning_index s1 = (Inr i, s2)"
    and s': "s' = s2\<lparr>cv_reasoning_started := True\<rparr>"
    and es: "es = ec @ (if cv_reasoning_started s2 then []
                else [item_event ''response.output_item.added'' i (reasoning_item s2 ''in_progress'' [])])
             @ [reasoning_delta_event (cv_reasoning_item_id s2) i text]"
    by (rule reasoning_events_ok [OF r n])
  obtain t where s1: "s1 = ?s0\<lparr>cv_created_emitted := True, cv_created_at := t\<rparr>" using created_events_ok(1) [OF cr] by blast
  let ?p1 = "p\<lparr>pr_created := True\<rparr>" and ?e2 = "reasoning_delta_event (cv_reasoning_item_id s2) i text"
  have p1: "run p ec = Some ?p1" "flowing ?p1" using run_created [OF _ _ cr, of p] S(4,5) by simp_all
  have sm: "sim (index_of s) (content_of s) (cv_next_output_index s) ?p1" using S(2) by simp
  show ?thesis
  proof (cases "cv_reasoning_started s")
    case True
    with S(1) obtain j where "cv_reasoning_output_index s = Some j" by (auto simp: converter_ok_def)
    with reasoning_index_ok [OF ri] have i: "cv_reasoning_output_index s = Some i" and s2: "s2 = s1" by (auto simp: s1)
    have es': "es = ec @ [?e2]" using True by (simp add: es s2 s1)
    have "index_of s Reasoning_Slot = Some i" "content_of s Reasoning_Slot = Some (?x (cv_reasoning_parts s))" using i True by simp_all
    moreover have "accept ?e2 ?p1 = Some (?p1\<lparr>pr_open := dict_set (pr_open ?p1) i (it\<lparr>oi_deltas := oi_deltas it @ [text]\<rparr>)\<rparr>)"
      if "dict_get (pr_open ?p1) i = Some it" "oi_id it = cv_reasoning_item_id s" "oi_kind it = ''reasoning''" "oi_final it = None" for it
      using accept_delta(2) [OF p1(2) that] by (simp add: s2 s1)
    ultimately obtain p' where p': "run ?p1 [?e2] = Some p'" "flowing p'" "pr_items p' = pr_items ?p1"
      "sim (index_of s) ((content_of s)(Reasoning_Slot \<mapsto> ?x (cv_reasoning_parts s @ [text]))) (cv_next_output_index s) p'"
      by (rule run_delta [OF p1(2) sm, where e = ?e2 and d = "text"])
    have "simulates s' p'"
    proof (rule simulatesI)
      have "content_of s' = (content_of s)(Reasoning_Slot \<mapsto> ?x (cv_reasoning_parts s @ [text]))"
        by (rule content_Reasoning) (simp_all add: s' s2 s1)
      then show "sim (index_of s') (content_of s') (cv_next_output_index s') p'" using p'(4) by (simp add: s' s2 s1)
      show "converter_ok s'" using S(1) True by (auto simp: converter_ok_def s' s2 s1)
    qed (use p' S(3) in \<open>simp_all add: s' s2 s1\<close>)
    then show ?thesis using run_append_Some [OF p1(1)] p'(1) by (auto simp: es')
  next
    case False
    with S(1) have none: "cv_reasoning_output_index s = None" "cv_reasoning_parts s = []" by (simp_all add: converter_ok_def)
    let ?n = "cv_next_output_index s"
    from reasoning_index_ok [OF ri] none have i: "i = ?n"
      and s2: "s2 = s1\<lparr>cv_next_output_index := ?n + 1, cv_reasoning_output_index := Some ?n\<rparr>" by (simp_all add: s1)
    let ?ix = "(index_of s)(Reasoning_Slot \<mapsto> ?n)"
    have sm2: "sim ?ix (content_of s) (?n + 1) ?p1" using sim_alloc [OF sm, of Reasoning_Slot] none by simp
    have "?ix Reasoning_Slot = Some ?n" "content_of s Reasoning_Slot = None" "pr_items ?p1 = []"
      using False S(3) by simp_all
    moreover have "text_field (reasoning_item s2 ''in_progress'' []) ''id'' = Some (cv_reasoning_item_id s)"
      "text_field (reasoning_item s2 ''in_progress'' []) ''type'' = Some ''reasoning''" by (simp_all add: reasoning_item_def s2 s1)
    ultimately obtain p2 where p2: "run ?p1 [item_event ''response.output_item.added'' ?n (reasoning_item s2 ''in_progress'' [])] = Some p2"
      "flowing p2" "pr_items p2 = []" "sim ?ix ((content_of s)(Reasoning_Slot \<mapsto> ?x [])) (?n + 1) p2"
      by (rule run_open [OF p1(2) sm2, where parts = "[]" and kind = "''reasoning''"]) simp
    have "?ix Reasoning_Slot = Some ?n" "((content_of s)(Reasoning_Slot \<mapsto> ?x [])) Reasoning_Slot = Some (?x [])" by simp_all
    moreover have "accept ?e2 p2 = Some (p2\<lparr>pr_open := dict_set (pr_open p2) ?n (it\<lparr>oi_deltas := oi_deltas it @ [text]\<rparr>)\<rparr>)"
      if "dict_get (pr_open p2) ?n = Some it" "oi_id it = cv_reasoning_item_id s" "oi_kind it = ''reasoning''" "oi_final it = None" for it
      using accept_delta(2) [OF p2(2) that] by (simp add: i s2 s1)
    ultimately obtain p3 where p3: "run p2 [?e2] = Some p3" "flowing p3" "pr_items p3 = pr_items p2"
      "sim ?ix ((content_of s)(Reasoning_Slot \<mapsto> ?x [], Reasoning_Slot \<mapsto> ?x ([] @ [text]))) (?n + 1) p3"
      by (rule run_delta [OF p2(2,4), where e = ?e2 and d = "text"])
    have "es = ec @ [item_event ''response.output_item.added'' i (reasoning_item s2 ''in_progress'' [])] @ [?e2]"
      using False by (simp add: es s2 s1)
    then have rr: "run p es = Some p3"
      using run_append_Some [OF p1(1)] run_append_Some [OF p2(1)] p3(1) by (simp add: i)
    have "simulates s' p3"
    proof (rule simulatesI)
      have ix: "index_of s' = ?ix"
      proof
        fix a show "index_of s' a = ?ix a" by (cases a) (simp_all add: s' s2 s1)
      qed
      have "content_of s' = (content_of s)(Reasoning_Slot \<mapsto> ?x [text])"
        by (rule content_Reasoning) (simp_all add: s' s2 s1 none)
      then show "sim (index_of s') (content_of s') (cv_next_output_index s') p3" using p3(4) by (simp add: ix) (simp add: s' s2)
      show "converter_ok s'" using S(1) by (auto simp: converter_ok_def s' s2 s1)
    qed (use p3 p2(3) in \<open>simp_all add: s' s2 s1\<close>)
    with rr show ?thesis by blast
  qed
qed

text \<open>Tool calls.  The states of the other calls and the rest of the converter stay as they are.\<close>

definition tool_put :: "chat_converter \<Rightarrow> int \<Rightarrow> tool_state \<Rightarrow> chat_converter \<Rightarrow> bool" where
  "tool_put s k t s' \<longleftrightarrow> s' = s\<lparr>cv_tool_states := dict_set (cv_tool_states s) k t\<rparr>"

lemma tool_putE:
  assumes "tool_put s k t s'"
  obtains tl where "s' = s\<lparr>cv_tool_states := tl\<rparr>" "dict_get tl = (dict_get (cv_tool_states s))(k \<mapsto> t)"
    "distinct (map fst (cv_tool_states s)) \<longrightarrow> distinct (map fst tl)"
  using assms by (intro that [of "dict_set (cv_tool_states s) k t"]) (auto simp: tool_put_def dict_simps distinct_dict_set)

lemma put_tool_ok: "put_tool k t s = (Inr u, s') \<Longrightarrow> tool_put s k t s'"
  by (simp add: tool_put_def put_tool_def update_ok)

lemma dict_set_twice: "dict_set (dict_set d k v) k w = dict_set d k w"
  by (induction d) (auto simp: dict_set_def)

lemma tool_put_trans: "tool_put s k t s' \<Longrightarrow> tool_put s' k t' s'' \<Longrightarrow> tool_put s k t' s''"
  by (simp add: tool_put_def dict_set_twice)

lemma tool_put_refl: "dict_get (cv_tool_states s) k = Some t \<Longrightarrow> tool_put s k t s"
  by (simp add: tool_put_def dict_set_same)

lemma tool_put_get: "tool_put s k t s' \<Longrightarrow> dict_get (cv_tool_states s') k = Some t"
  by (simp add: tool_put_def dict_simps)

lemma merge_call_id_ok:
  assumes "merge_call_id v t = Inr t'"
  shows "t' = t\<lparr>ts_call_id := ts_call_id t'\<rparr>" "ts_call_id t \<noteq> [] \<Longrightarrow> ts_call_id t' = ts_call_id t"
  using assms by (auto simp: merge_call_id_def split: json.splits if_splits)

lemma merge_name_ok:
  assumes "merge_name v t = Inr t'"
  shows "t' = t\<lparr>ts_name := ts_name t'\<rparr>" "ts_name t \<noteq> [] \<Longrightarrow> ts_name t' = ts_name t"
  using assms by (auto simp: merge_name_def split: json.splits if_splits)

definition more_arguments :: "string \<Rightarrow> string list" where
  "more_arguments a = (if a = [] then [] else [a])"

lemma merge_function_ok:
  assumes "merge_function k v t s = (Inr (t', a), s')" and "dict_get (cv_tool_states s) k = Some t"
  shows "tool_put s k t' s' \<and> t' = t\<lparr>ts_name := ts_name t', ts_arguments := ts_arguments t @ more_arguments a\<rparr>
    \<and> (ts_name t \<noteq> [] \<longrightarrow> ts_name t' = ts_name t)"
proof (cases "\<exists>f. v = JObj f")
  case False
  with assms(1) have "t' = t" "a = []" "s' = s" by (cases v; auto simp: merge_function_def action_ok)+
  with tool_put_refl [OF assms(2)] show ?thesis by (simp add: more_arguments_def)
next
  case True
  then obtain f where f: "v = JObj f" by blast
  from assms(1) have "bind (attempt (require_supported_fields f [''name'', ''arguments''])) (\<lambda>_.
          bind (attempt (merge_name (get_or_null f ''name'') t)) (\<lambda>t1.
          bind (put_tool k t1) (\<lambda>_.
          bind (attempt (function_arguments f)) (\<lambda>arguments.
            if arguments = [] then give (t1, [])
            else let t2 = t1\<lparr>ts_arguments := ts_arguments t1 @ [arguments]\<rparr>
                 in bind (put_tool k t2) (\<lambda>_. give (t2, arguments)))))) s = (Inr (t', a), s')"
    by (simp add: merge_function_def f)
  then obtain t1 u s1 arguments where n: "merge_name (get_or_null f ''name'') t = Inr t1" and p1: "put_tool k t1 s = (Inr u, s1)"
    and rest: "(if arguments = [] then give (t1, [])
            else let t2 = t1\<lparr>ts_arguments := ts_arguments t1 @ [arguments]\<rparr>
                 in bind (put_tool k t2) (\<lambda>_. give (t2, arguments))) s1 = (Inr (t', a), s')"
    by (elim bind_attemptE bindE)
  note n1 = merge_name_ok [OF n] and p1' = put_tool_ok [OF p1]
  show ?thesis
  proof (cases "arguments = []")
    case True
    with rest have "t' = t1" "a = []" "s' = s1" by (simp_all add: ret_ok)
    with n1 p1' show ?thesis by (auto simp: more_arguments_def) (metis tool_state.surjective tool_state.update_convs)
  next
    case False
    let ?t2 = "t1\<lparr>ts_arguments := ts_arguments t1 @ [arguments]\<rparr>"
    from False rest obtain u2 where "put_tool k ?t2 s1 = (Inr u2, s')" and e: "t' = ?t2" "a = arguments"
      by (auto simp: Let_def elim!: bindE simp: ret_ok)
    from tool_put_trans [OF p1' put_tool_ok [OF this(1)]] have "tool_put s k t' s'" by (simp add: e)
    moreover have "ts_arguments t1 = ts_arguments t" using n1(1) by (metis tool_state.select_convs(5) tool_state.surjective tool_state.update_convs(4))
    ultimately show ?thesis using n1 False by (auto simp: e more_arguments_def)
  qed
qed

lemma tool_state_for_ok:
  assumes sim: "simulates s p" and r: "tool_state_for k s = (Inr t, s')"
  shows "simulates s' p \<and> dict_get (cv_tool_states s') k = Some t \<and> cv_created_emitted s' = cv_created_emitted s"
proof (cases "dict_get (cv_tool_states s) k")
  case (Some t0)
  with r sim show ?thesis by (simp add: tool_state_for_def ret_ok)
next
  case None
  note S = simulatesD [OF sim]
  let ?n = "cv_next_output_index s"
  let ?t = "\<lparr>ts_output_index = ?n, ts_item_id = [], ts_call_id = [], ts_name = [], ts_arguments = [],
                     ts_added = False, ts_done = False\<rparr>"
  from r None have t: "t = ?t" and "put_tool k ?t (s\<lparr>cv_next_output_index := ?n + 1\<rparr>) = (Inr (), s')"
    by (auto simp: tool_state_for_def Let_def allocate_output_index_def action_ok)
  from put_tool_ok [OF this(2)] obtain tl where s': "s' = s\<lparr>cv_next_output_index := ?n + 1, cv_tool_states := tl\<rparr>"
    and tl: "dict_get tl = (dict_get (cv_tool_states s))(k \<mapsto> ?t)" "distinct (map fst tl)"
    using S(1) by (elim tool_putE) (simp add: converter_ok_def, blast)
  have "index_of s' = (index_of s)(Tool_Slot k \<mapsto> ?n)"
  proof
    fix a show "index_of s' a = ((index_of s)(Tool_Slot k \<mapsto> ?n)) a" by (cases a) (simp_all add: s' tl)
  qed
  moreover have "content_of s' = content_of s"
  proof
    fix a show "content_of s' a = content_of s a" using None by (cases a) (simp_all add: s' tl shown_tool_def)
  qed
  moreover have "sim ((index_of s)(Tool_Slot k \<mapsto> ?n)) (content_of s) (?n + 1) p"
    using sim_alloc [OF S(2), of "Tool_Slot k"] None by simp
  moreover have "converter_ok s'" using S(1) tl by (auto simp: converter_ok_def s' tool_ok_def)
  ultimately show ?thesis using S by (simp add: simulates_def tl t) (simp add: s' tl t)
qed

lemma tool_added_ok:
  assumes "tool_added_events k t s = (Inr (t', es), s')"
  shows "if ts_added t \<or> ts_call_id t = [] \<or> ts_name t = [] then t' = t \<and> es = [] \<and> s' = s
     else \<exists>ec s1. created_events s = (Inr ec, s1) \<and> tool_put s1 k t' s'
       \<and> t' = t\<lparr>ts_item_id := ''fc_'' @ ts_call_id t, ts_added := True\<rparr>
       \<and> es = ec @ [item_event ''response.output_item.added'' (ts_output_index t') (call_item t' ''in_progress'' [])]"
proof (cases "ts_added t \<or> ts_call_id t = [] \<or> ts_name t = []")
  case True
  with assms show ?thesis by (auto simp: tool_added_events_def ret_ok)
next
  case False
  let ?t = "t\<lparr>ts_item_id := ''fc_'' @ ts_call_id t, ts_added := True\<rparr>"
  from False assms have "bind created_events (\<lambda>events. bind (put_tool k ?t) (\<lambda>_.
      give (?t, events @ [item_event ''response.output_item.added'' (ts_output_index ?t) (call_item ?t ''in_progress'' [])]))) s
    = (Inr (t', es), s')"
    by (simp add: tool_added_events_def Let_def)
  then obtain ec s1 u s2 where c: "created_events s = (Inr ec, s1)" and p: "put_tool k ?t s1 = (Inr u, s2)"
    and e: "give (?t, ec @ [item_event ''response.output_item.added'' (ts_output_index ?t) (call_item ?t ''in_progress'' [])]) s2 = (Inr (t', es), s')"
    by (elim bindE)
  from put_tool_ok [OF p] e c False show ?thesis by (auto simp: ret_ok)
qed

lemma content_Tool:
  assumes "tool_put s k t s'" and "ts_added t"
  shows "content_of s' = (content_of s)(Tool_Slot k \<mapsto> (ts_item_id t, ''function_call'', ts_arguments t))"
proof -
  from assms(1) obtain tl where s': "s' = s\<lparr>cv_tool_states := tl\<rparr>" "dict_get tl = (dict_get (cv_tool_states s))(k \<mapsto> t)"
    by (auto elim!: tool_putE)
  show ?thesis
  proof
    fix a show "content_of s' a = ((content_of s)(Tool_Slot k \<mapsto> (ts_item_id t, ''function_call'', ts_arguments t))) a"
      using assms(2) by (cases a) (simp_all add: s' shown_tool_def)
  qed
qed

lemma content_Tool_hidden:
  assumes "tool_put s k t s'" and "\<not> ts_added t" and "content_of s (Tool_Slot k) = None"
  shows "content_of s' = content_of s"
proof -
  from assms(1) obtain tl where s': "s' = s\<lparr>cv_tool_states := tl\<rparr>" "dict_get tl = (dict_get (cv_tool_states s))(k \<mapsto> t)"
    by (auto elim!: tool_putE)
  show ?thesis
  proof
    fix a show "content_of s' a = content_of s a"
      using assms(2,3) by (cases a) (auto simp: s' shown_tool_def)
  qed
qed

lemma index_Tool:
  assumes "tool_put s k t s'" and "index_of s (Tool_Slot k) = Some (ts_output_index t)"
  shows "index_of s' = index_of s"
proof -
  from assms(1) obtain tl where s': "s' = s\<lparr>cv_tool_states := tl\<rparr>" "dict_get tl = (dict_get (cv_tool_states s))(k \<mapsto> t)"
    by (auto elim!: tool_putE)
  show ?thesis
  proof
    fix a show "index_of s' a = index_of s a"
      using assms(2) by (cases a) (auto simp: s')
  qed
qed

lemma converter_ok_tool:
  assumes ok: "converter_ok s" and put: "tool_put s k t s'" and t: "tool_ok t" "ts_added t \<longrightarrow> cv_created_emitted s"
  shows "converter_ok s'"
proof -
  from put obtain tl where s': "s' = s\<lparr>cv_tool_states := tl\<rparr>" "dict_get tl = (dict_get (cv_tool_states s))(k \<mapsto> t)"
    "distinct (map fst (cv_tool_states s)) \<longrightarrow> distinct (map fst tl)"
    by (auto elim!: tool_putE)
  have "\<forall>k' t'. dict_get tl k' = Some t' \<longrightarrow> tool_ok t' \<and> (ts_added t' \<longrightarrow> cv_created_emitted s)"
    using ok t by (simp add: converter_ok_def s'(2))
  moreover have "distinct (map fst tl)" using ok s'(3) by (simp add: converter_ok_def)
  ultimately show ?thesis using ok unfolding converter_ok_def by (simp add: s'(1))
qed

text \<open>What one fragment contributes, and the arguments a call has collected.\<close>

lemma tool_call_ok:
  assumes "tool_call_events tc n s = (Inr es, s')"
  obtains k t s1 t1 s2 t2 a s3 t3 e3 where "tool_call_index tc n = Inr k" "tool_state_for k s = (Inr t, s1)"
    "merge_call_id (get_or_null tc ''id'') t = Inr t1" "tool_put s1 k t1 s2"
    "merge_function k (get_or_null tc ''function'') t1 s2 = (Inr (t2, a), s3)"
    "tool_added_events k t2 s3 = (Inr (t3, e3), s')"
    "es = e3 @ (if ts_added t3 \<and> a \<noteq> [] then [arguments_delta_event (ts_item_id t3) (ts_output_index t3) a] else [])"
  using assms unfolding tool_call_events_def
  by (elim bind_attemptE bindE) (auto simp: ret_ok elim!: bindE dest!: put_tool_ok intro: that)

lemma run_tool_call:
  assumes sim: "simulates s p" and r: "tool_call_events tc n s = (Inr es, s')"
  shows "\<exists>p'. run p es = Some p' \<and> simulates s' p'"
proof -
  from r obtain k t s1 t1 s2 t2 a s3 t3 e3 where t: "tool_state_for k s = (Inr t, s1)"
    and c1: "merge_call_id (get_or_null tc ''id'') t = Inr t1" and p1: "tool_put s1 k t1 s2"
    and f: "merge_function k (get_or_null tc ''function'') t1 s2 = (Inr (t2, a), s3)"
    and ta: "tool_added_events k t2 s3 = (Inr (t3, e3), s')"
    and es: "es = e3 @ (if ts_added t3 \<and> a \<noteq> [] then [arguments_delta_event (ts_item_id t3) (ts_output_index t3) a] else [])"
    by (rule tool_call_ok)
  from tool_state_for_ok [OF sim t] have sim1: "simulates s1 p" and t0: "dict_get (cv_tool_states s1) k = Some t" by simp_all
  note S = simulatesD [OF sim1]
  have tok: "tool_ok t" "ts_added t \<longrightarrow> cv_created_emitted s1" using S(1) t0 by (simp_all add: converter_ok_def)
  note m = merge_function_ok [OF f tool_put_get [OF p1]]
  have put2: "tool_put s1 k t2 s3" using tool_put_trans [OF p1] m by blast
  have t2: "ts_output_index t2 = ts_output_index t" "ts_item_id t2 = ts_item_id t" "ts_added t2 = ts_added t" "ts_done t2 = ts_done t"
    "ts_arguments t2 = ts_arguments t @ more_arguments a"
    "ts_call_id t \<noteq> [] \<Longrightarrow> ts_call_id t2 = ts_call_id t" "ts_name t \<noteq> [] \<Longrightarrow> ts_name t2 = ts_name t"
    using m merge_call_id_ok [OF c1] by (metis tool_state.select_convs tool_state.surjective tool_state.update_convs)+
  have ix: "index_of s1 (Tool_Slot k) = Some (ts_output_index t)" using t0 by simp
  have fields: "cv_created_emitted s3 = cv_created_emitted s1" "cv_next_output_index s3 = cv_next_output_index s1"
    using put2 by (auto elim!: tool_putE)
  have conv: "converter_ok s3" if "tool_ok t2"
    by (rule converter_ok_tool [OF S(1) put2 that]) (simp add: t2 tok)
  have ix3: "index_of s3 = index_of s1" by (rule index_Tool [OF put2]) (simp add: t0 t2)
  note ta' = tool_added_ok [OF ta]
  show ?thesis
  proof (cases "ts_added t")
    case True
    let ?x = "\<lambda>args. (ts_item_id t, ''function_call'', args)"
    from True ta' have e: "t3 = t2" "e3 = []" "s' = s3" by (simp_all add: t2)
    have tok2: "tool_ok t2" using tok(1) True t2 by (simp add: tool_ok_def)
    have fl: "flowing p" using True tok(2) S(4,5) by (simp add: flowing_def)
    have old: "content_of s1 (Tool_Slot k) = Some (?x (ts_arguments t))" using True t0 by (simp add: shown_tool_def)
    have cont: "content_of s3 = (content_of s1)(Tool_Slot k \<mapsto> ?x (ts_arguments t @ more_arguments a))"
      using content_Tool [OF put2] True by (simp add: t2)
    have concl: "simulates s' p'" if "flowing p'" "pr_items p' = []"
      "sim (index_of s1) ((content_of s1)(Tool_Slot k \<mapsto> ?x (ts_arguments t @ more_arguments a))) (cv_next_output_index s1) p'" for p'
      using that True tok(2) conv [OF tok2] by (intro simulatesI) (simp_all add: e ix3 cont fields)
    show ?thesis
    proof (cases "a = []")
      case True
      have "(content_of s1)(Tool_Slot k \<mapsto> ?x (ts_arguments t @ more_arguments a)) = content_of s1"
        using old True by (auto simp: more_arguments_def)
      with True e concl [OF fl S(3)] S(2) show ?thesis by (simp add: es)
    next
      case False
      let ?e = "arguments_delta_event (ts_item_id t2) (ts_output_index t2) a"
      have "accept ?e p = Some (p\<lparr>pr_open := dict_set (pr_open p) (ts_output_index t) (it\<lparr>oi_deltas := oi_deltas it @ [a]\<rparr>)\<rparr>)"
        if "dict_get (pr_open p) (ts_output_index t) = Some it" "oi_id it = ts_item_id t" "oi_kind it = ''function_call''" "oi_final it = None" for it
        using accept_delta(3) [OF fl that] by (simp add: t2)
      with ix old obtain p' where "run p [?e] = Some p'" "flowing p'" "pr_items p' = pr_items p"
        "sim (index_of s1) ((content_of s1)(Tool_Slot k \<mapsto> ?x (ts_arguments t @ [a]))) (cv_next_output_index s1) p'"
        by (rule run_delta [OF fl S(2), where e = ?e and d = a])
      with concl [of p'] False e True S(3) show ?thesis by (auto simp: es t2 more_arguments_def)
    qed
  next
    case hidden: False
    have old: "content_of s1 (Tool_Slot k) = None" using hidden t0 by (simp add: shown_tool_def)
    show ?thesis
    proof (cases "ts_call_id t2 = [] \<or> ts_name t2 = []")
      case True
      with ta' have e: "t3 = t2" "e3 = []" "s' = s3" by auto
      have tok2: "tool_ok t2" using tok(1) True t2(3,4) hidden by (auto simp: tool_ok_def)
      have "content_of s3 = content_of s1" by (rule content_Tool_hidden [OF put2 _ old]) (simp add: t2 hidden)
      then have "simulates s' p" using S conv [OF tok2] by (simp add: simulates_def e ix3 fields)
      then show ?thesis by (simp add: es e t2 hidden)
    next
      case False
      with ta' hidden obtain ec s4 where cr: "created_events s3 = (Inr ec, s4)" and put3: "tool_put s4 k t3 s'"
        and t3: "t3 = t2\<lparr>ts_item_id := ''fc_'' @ ts_call_id t2, ts_added := True\<rparr>"
        and e3: "e3 = ec @ [item_event ''response.output_item.added'' (ts_output_index t3) (call_item t3 ''in_progress'' [])]"
        by (auto simp: t2)
      obtain c where s4: "s4 = s3\<lparr>cv_created_emitted := True, cv_created_at := c\<rparr>" using created_events_ok(1) [OF cr] by blast
      let ?p1 = "p\<lparr>pr_created := True\<rparr>" and ?x = "\<lambda>args. (ts_item_id t3, ''function_call'', args)"
      let ?e = "arguments_delta_event (ts_item_id t3) (ts_output_index t3) a"
      have p1: "run p ec = Some ?p1" "flowing ?p1" using run_created [OF _ _ cr, of p] S(4,5) by (simp_all add: fields)
      have sm: "sim (index_of s1) (content_of s1) (cv_next_output_index s1) ?p1" using S(2) by simp
      have ix': "index_of s1 (Tool_Slot k) = Some (ts_output_index t3)" by (simp add: t0 t3 t2)
      moreover have "text_field (call_item t3 ''in_progress'' []) ''id'' = Some (ts_item_id t3)"
        "text_field (call_item t3 ''in_progress'' []) ''type'' = Some ''function_call''" "pr_items ?p1 = []"
        by (simp_all add: call_item_def S(3))
      ultimately obtain p2 where p2: "run ?p1 [item_event ''response.output_item.added'' (ts_output_index t3) (call_item t3 ''in_progress'' [])] = Some p2"
        "flowing p2" "pr_items p2 = []" "sim (index_of s1) ((content_of s1)(Tool_Slot k \<mapsto> ?x (ts_arguments t))) (cv_next_output_index s1) p2"
        using run_open [OF p1(2) sm _ old, where parts = "ts_arguments t" and kind = "''function_call''"] by metis
      let ?s1 = "s1\<lparr>cv_created_emitted := True, cv_created_at := c\<rparr>"
      have put4: "tool_put ?s1 k t3 s'" using put2 put3 by (simp add: tool_put_def s4 dict_set_twice)
      have "tool_ok t3" using tok(1) t2 False by (simp add: tool_ok_def t3)
      then have conv': "converter_ok s'" using converter_ok_tool [OF converter_ok_created [OF S(1)] put4] by simp
      have ix4: "index_of s' = index_of s1" using index_Tool [OF put4] by (simp add: t0 t2 t3)
      have cont: "content_of s' = (content_of s1)(Tool_Slot k \<mapsto> ?x (ts_arguments t @ more_arguments a))"
        using content_Tool [OF put4] by (simp add: t3 t2)
      have fields': "cv_created_emitted s'" "cv_next_output_index s' = cv_next_output_index s1" using put4 by (auto elim!: tool_putE)
      have concl: "simulates s' p'" if "flowing p'" "pr_items p' = []"
        "sim (index_of s1) ((content_of s1)(Tool_Slot k \<mapsto> ?x (ts_arguments t @ more_arguments a))) (cv_next_output_index s1) p'" for p'
        using that conv' by (intro simulatesI) (simp_all add: ix4 cont fields')
      have run2: "run p e3 = Some p2" unfolding e3 using run_append_Some [OF p1(1)] p2(1) by simp
      show ?thesis
      proof (cases "a = []")
        case True
        with concl [OF p2(2,3)] p2(4) run2 show ?thesis by (simp add: es more_arguments_def)
      next
        case False
        have "accept ?e p2 = Some (p2\<lparr>pr_open := dict_set (pr_open p2) (ts_output_index t3) (it\<lparr>oi_deltas := oi_deltas it @ [a]\<rparr>)\<rparr>)"
          if "dict_get (pr_open p2) (ts_output_index t3) = Some it" "oi_id it = ts_item_id t3" "oi_kind it = ''function_call''" "oi_final it = None" for it
          using accept_delta(3) [OF p2(2) that] by simp
        moreover have "((content_of s1)(Tool_Slot k \<mapsto> ?x (ts_arguments t))) (Tool_Slot k) = Some (?x (ts_arguments t))" by simp
        ultimately obtain p3 where p3: "run p2 [?e] = Some p3" "flowing p3" "pr_items p3 = pr_items p2"
          "sim (index_of s1) ((content_of s1)(Tool_Slot k \<mapsto> ?x (ts_arguments t), Tool_Slot k \<mapsto> ?x (ts_arguments t @ [a]))) (cv_next_output_index s1) p3"
          using run_delta [OF p2(2,4) ix', where e = ?e and d = a] by metis
        have "ts_added t3" by (simp add: t3)
        with False run_append_Some [OF run2] p3(1) have "run p es = Some p3" by (simp add: es)
        with concl [OF p3(2)] p3(3,4) p2(3) False show ?thesis by (simp add: more_arguments_def)
      qed
    qed
  qed
qed

section \<open>Chunks\<close>

lemma run_tool_calls:
  "simulates s p \<Longrightarrow> tool_calls_events vs n s = (Inr es, s') \<Longrightarrow> \<exists>p'. run p es = Some p' \<and> simulates s' p'"
proof (induction vs arbitrary: n s p es)
  case Nil
  then show ?case by (simp add: ret_ok)
next
  case (Cons v vs)
  from Cons.prems(2) obtain tc where "v = JObj tc" by (cases v) (auto simp: json_object_def attempt_ok)
  with Cons.prems(2) obtain e1 e2 s1 where 1: "tool_call_events tc n s = (Inr e1, s1)" "tool_calls_events vs (n + 1) s1 = (Inr e2, s')"
    and es: "es = e1 @ e2"
    by (auto elim!: bindE simp: ret_ok)
  from run_tool_call [OF Cons.prems(1) 1(1)] obtain p1 where p1: "run p e1 = Some p1" "simulates s1 p1" by blast
  from Cons.IH [OF p1(2) 1(2)] run_append_Some [OF p1(1)] show ?case by (simp add: es)
qed

lemma simulates_frame [simp]:
  "simulates (s\<lparr>cv_model := m\<rparr>) p = simulates s p" "simulates (s\<lparr>cv_created_at := c\<rparr>) p = simulates s p"
  "simulates (s\<lparr>cv_usage := u\<rparr>) p = simulates s p" "simulates (s\<lparr>cv_pending_incomplete := b\<rparr>) p = simulates s p"
  by (simp_all add: simulates_def converter_ok_def)

lemma run_source:
  assumes sim: "simulates s p" and r: "source_events source s = (Inr es, s')"
  shows "\<exists>p'. run p es = Some p' \<and> simulates s' p'"
proof -
  from r obtain e1 s1 e2 s2 e3 where
    1: "(case reasoning_texts source of [] \<Rightarrow> give [] | text # _ \<Rightarrow> reasoning_events text) s = (Inr e1, s1)"
    and 2: "content_events source s1 = (Inr e2, s2)"
    and 3: "(case get_or_null source ''tool_calls'' of JNull \<Rightarrow> give []
           | JArr tool_calls \<Rightarrow> tool_calls_events tool_calls 0 | _ \<Rightarrow> attempt (Inl UNSUPPORTED_SEMANTICS)) s2 = (Inr e3, s')"
    and es: "es = e1 @ e2 @ e3"
    unfolding source_events_def by (elim bind_attemptE bindE) (simp add: ret_ok)
  obtain p1 where p1: "run p e1 = Some p1" "simulates s1 p1"
    using 1 sim run_reasoning [OF sim] by (auto simp: ret_ok split: list.splits)
  from run_content [OF p1(2) 2] obtain p2 where p2: "run p1 e2 = Some p2" "simulates s2 p2" by blast
  obtain p3 where p3: "run p2 e3 = Some p3" "simulates s' p3"
    using 3 p2(2) by (auto simp: action_ok split: json.splits dest: run_tool_calls [OF p2(2)])
  with run_append_Some [OF p1(1)] run_append_Some [OF p2(1)] show ?thesis by (simp add: es)
qed

lemma note_finish_frame: "note_finish v s = (Inr u, s') \<Longrightarrow> s' = s \<or> (\<exists>b. s' = s\<lparr>cv_pending_incomplete := b\<rparr>)"
  by (auto simp: note_finish_def action_ok split: json.splits if_splits)

lemma run_choices:
  "simulates s p \<Longrightarrow> choices_events vs s = (Inr es, s') \<Longrightarrow> \<exists>p'. run p es = Some p' \<and> simulates s' p'"
proof (induction vs arbitrary: s p es)
  case Nil
  then show ?case by (simp add: ret_ok)
next
  case (Cons v vs)
  show ?case
  proof (cases "json_object v")
    case None
    with Cons show ?thesis by simp
  next
    case (Some choice)
    with Cons.prems(2) obtain e1 s1 u s2 e2 where
      1: "(case chat_stream_source choice of None \<Rightarrow> give [] | Some source \<Rightarrow> source_events source) s = (Inr e1, s1)"
      and 2: "note_finish (get_or_null choice ''finish_reason'') s1 = (Inr u, s2)"
      and 3: "choices_events vs s2 = (Inr e2, s')" and es: "es = e1 @ e2"
      by (auto elim!: bindE simp: ret_ok)
    obtain p1 where p1: "run p e1 = Some p1" "simulates s1 p1"
      using 1 Cons.prems(1) run_source [OF Cons.prems(1)] by (auto simp: ret_ok split: option.splits)
    have "simulates s2 p1" using note_finish_frame [OF 2] p1(2) by auto
    from Cons.IH [OF this 3] run_append_Some [OF p1(1)] show ?thesis by (simp add: es)
  qed
qed

lemma note_envelope_frame:
  "note_envelope chunk s = (Inr u, s') \<Longrightarrow> \<exists>m c. s' = s\<lparr>cv_model := m, cv_created_at := c\<rparr>"
proof -
  assume "note_envelope chunk s = (Inr u, s')"
  then obtain c where "s' = (case text_field chunk ''model'' of None \<Rightarrow> s | Some m \<Rightarrow> s\<lparr>cv_model := Some m\<rparr>)\<lparr>cv_created_at := c\<rparr>"
    unfolding note_envelope_def by (elim bind_updateE bind_attemptE) (simp add: update_ok)
  then show ?thesis by (intro exI [of _ "cv_model s'"] exI [of _ c]) (simp split: option.split)
qed

definition chunk_choices :: "obj \<Rightarrow> json list" where
  "chunk_choices chunk = (case dict_get chunk ''choices'' of Some (JArr vs) \<Rightarrow> vs | _ \<Rightarrow> [])"

text \<open>An accepted chunk only reports usage, or its choices are worked through.\<close>

lemma events_for_chunkE:
  assumes "events_for_chunk chunk s = (Inr es, s')" and live: "\<not> cv_completed s"
  obtains (usage) u where "chunk_choices chunk = []" "es = []" "s' = s\<lparr>cv_usage := u\<rparr>"
  | (choices) m c where "choices_events (chunk_choices chunk) (s\<lparr>cv_model := m, cv_created_at := c\<rparr>) = (Inr es, s')"
proof -
  from assms have "(if is_usage_only_chunk chunk then bind (record_usage chunk) (\<lambda>_. give []) s
        else if cv_pending_incomplete s \<noteq> None then attempt (Inl UNSUPPORTED_SEMANTICS) s
        else bind (note_envelope chunk) (\<lambda>_. case dict_get chunk ''choices'' of
                 Some (JArr choices) \<Rightarrow> choices_events choices | _ \<Rightarrow> give []) s) = (Inr es, s')"
    unfolding events_for_chunk_def by (elim bind_attemptE) simp
  then consider (1) "is_usage_only_chunk chunk" "bind (record_usage chunk) (\<lambda>_. give []) s = (Inr es, s')"
    | (2) "bind (note_envelope chunk) (\<lambda>_. case dict_get chunk ''choices'' of
                 Some (JArr choices) \<Rightarrow> choices_events choices | _ \<Rightarrow> give []) s = (Inr es, s')"
    by (auto simp: attempt_ok split: if_splits)
  then show thesis
  proof cases
    case 1
    then have "es = []" "\<exists>u. s' = s\<lparr>cv_usage := u\<rparr>"
      by (auto simp: record_usage_def action_ok split: option.splits)
    with 1(1) usage show thesis by (auto simp: is_usage_only_chunk_def chunk_choices_def)
  next
    case 2
    then obtain u s1 where 3: "note_envelope chunk s = (Inr u, s1)"
      and 4: "(case dict_get chunk ''choices'' of Some (JArr choices) \<Rightarrow> choices_events choices | _ \<Rightarrow> give []) s1 = (Inr es, s')"
      by (rule bindE)
    from note_envelope_frame [OF 3] obtain m c where "s1 = s\<lparr>cv_model := m, cv_created_at := c\<rparr>" by blast
    with 4 show thesis by (intro choices [where m = m and c = c]) (auto simp: chunk_choices_def split: option.splits json.splits)
  qed
qed

lemma run_chunk:
  assumes sim: "simulates s p" and r: "events_for_chunk chunk s = (Inr es, s')"
  shows "\<exists>p'. run p es = Some p' \<and> simulates s' p'"
proof -
  have "\<not> cv_completed s" using simulatesD(1) [OF sim] by (simp add: converter_ok_def)
  with r show ?thesis
  proof (cases rule: events_for_chunkE)
    case (choices m c)
    then show ?thesis using sim by (intro run_choices) simp_all
  qed (use sim in simp)
qed

section \<open>Completion\<close>

definition closing :: "(slot \<Rightarrow> nat option) \<Rightarrow> (slot \<Rightarrow> shown_item option) \<Rightarrow> nat \<Rightarrow> protocol \<Rightarrow> output_items \<Rightarrow> bool" where
  "closing ix c n p items \<longleftrightarrow> sim ix c n p \<and> flowing p \<and> pr_items p = items"

lemma run_close:
  assumes cl: "closing ix c n p items" and a: "ix a = Some i" "c a = Some (item_id, kind, parts)"
    and e: "\<And>it. dict_get (pr_open p) i = Some it \<Longrightarrow> matches (item_id, kind, parts) it \<Longrightarrow>
      accept e p = Some (p\<lparr>pr_open := dict_set (pr_open p) i (it\<lparr>oi_final := Some t\<rparr>)\<rparr>)"
    and item: "item_text item = Some t" "text_field item ''id'' = Some item_id" "text_field item ''type'' = Some kind"
      "text_field item ''status'' = Some ''completed''"
  obtains p' where "run p [e, item_event ''response.output_item.done'' i item] = Some p'"
    "closing ix (c(a := None)) n p' (dict_set items i (JObj item))"
proof -
  from cl have s: "sim ix c n p" and fl: "flowing p" and it: "pr_items p = items" by (simp_all add: closing_def)
  from sim_get [OF s a] obtain o' where o': "dict_get (pr_open p) i = Some o'" "matches (item_id, kind, parts) o'" .
  let ?p1 = "p\<lparr>pr_open := dict_set (pr_open p) i (o'\<lparr>oi_final := Some t\<rparr>)\<rparr>"
  let ?p2 = "?p1\<lparr>pr_open := dict_pop (pr_open ?p1) i, pr_items := dict_set (pr_items ?p1) i (JObj item)\<rparr>"
  have fl1: "flowing ?p1" using fl by simp
  have get1: "dict_get (pr_open ?p1) i = Some (o'\<lparr>oi_final := Some t\<rparr>)" by (simp add: dict_simps)
  have "accept (item_event ''response.output_item.done'' i item) ?p1 = Some ?p2"
    using accept_item_done [OF fl1 get1, of t item] item o'(2) by (simp add: matches_def)
  with e [OF o'] have "run p [e, item_event ''response.output_item.done'' i item] = Some ?p2" by simp
  moreover have "sim ix (c(a := None)) n ?p2"
  proof (rule simI)
    note pop = sim_pop [OF s a(1), of "dict_set (pr_items ?p1) i (JObj item)"]
    have eq: "dict_get (pr_open ?p2) j = dict_get (dict_pop (pr_open p) i) j" for j by (simp add: dict_simps)
    show "ix b = Some j \<Longrightarrow> ix b' = Some j \<Longrightarrow> b = b'" for b b' j by (rule simD(1) [OF s])
    show "ix b = Some j \<Longrightarrow> j < n" for b j by (rule simD(2) [OF s])
    show "\<exists>j jt. ix b = Some j \<and> dict_get (pr_open ?p2) j = Some jt \<and> matches x jt" if "(c(a := None)) b = Some x" for b x
      using simD(3) [OF pop that] unfolding eq by simp
    show "\<exists>b. ix b = Some j \<and> (c(a := None)) b \<noteq> None" if "dict_get (pr_open ?p2) j = Some jt" for j jt
      by (rule simD(4) [OF pop]) (use that eq in simp)
  qed
  ultimately show thesis using fl by (intro that [of ?p2]) (simp_all add: closing_def it)
qed

lemma run_complete_reasoning:
  assumes cl: "closing (index_of s) (content_of s) n p []" and ok: "cv_reasoning_parts s = [] \<longleftrightarrow> \<not> cv_reasoning_started s"
    and r: "complete_reasoning s = (Inr (es, items), s')"
  shows "s' = s \<and> (\<exists>p'. run p es = Some p' \<and> closing (index_of s) ((content_of s)(Reasoning_Slot := None)) n p' items)"
proof (cases "cv_reasoning_started s")
  case False
  with r have e: "es = []" "items = []" "s' = s" by (simp_all add: complete_reasoning_def ret_ok)
  have "(content_of s)(Reasoning_Slot := None) = content_of s" using False by auto
  with cl e show ?thesis by simp
next
  case True
  let ?item = "\<lambda>s. reasoning_item s ''completed'' (map (\<lambda>t. JObj [(''type'', JStr ''summary_text''), (''text'', JStr t)]) (cv_reasoning_parts s))"
  from True r obtain i where i: "cv_reasoning_output_index s = Some i"
    and es: "es = [reasoning_done_event (cv_reasoning_item_id s) i (join_with newline (cv_reasoning_parts s)),
                   item_event ''response.output_item.done'' i (?item s)]" and items: "items = [(i, JObj (?item s))]" and s': "s' = s"
    by (auto simp: complete_reasoning_def action_ok Let_def newline_def split: option.splits if_splits)
  let ?x = "(cv_reasoning_item_id s, ''reasoning'', cv_reasoning_parts s)"
  have acc: "accept (reasoning_done_event (cv_reasoning_item_id s) i (join_with newline (cv_reasoning_parts s))) p
      = Some (p\<lparr>pr_open := dict_set (pr_open p) i (it\<lparr>oi_final := Some (join_with newline (cv_reasoning_parts s))\<rparr>)\<rparr>)"
    if "dict_get (pr_open p) i = Some it" "matches ?x it" for it
    using that cl by (intro accept_final(2)) (simp_all add: matches_def closing_def)
  have "map part_text (map (\<lambda>t. JObj [(''type'', JStr ''summary_text''), (''text'', JStr t)]) ts) = ts" for ts
    by (induction ts) (simp_all add: part_text_def)
  then have itext: "item_text (?item s) = Some (join_with newline (cv_reasoning_parts s))"
    by (simp add: item_text_def reasoning_item_def del: map_map)
  obtain p' where "run p es = Some p'" "closing (index_of s) ((content_of s)(Reasoning_Slot := None)) n p' (dict_set [] i (JObj (?item s)))"
    unfolding es
    by (rule run_close [OF cl, of Reasoning_Slot i, OF _ _ acc itext])
       (use i True in \<open>simp_all add: reasoning_item_def\<close>)
  then show ?thesis by (simp add: s' items dict_set_def)
qed

lemma complete_tool_ok:
  assumes "complete_tool (k, t) items s = (Inr (es, items'), s')" and t: "tool_ok t"
  shows "ts_added t" "es = [arguments_done_event (ts_item_id t) (ts_output_index t) (concat (ts_arguments t)),
       item_event ''response.output_item.done'' (ts_output_index t) (call_item t ''completed'' (concat (ts_arguments t)))]"
    "items' = dict_set items (ts_output_index t) (JObj (call_item t ''completed'' (concat (ts_arguments t))))"
    "\<exists>tl. s' = s\<lparr>cv_tool_states := tl\<rparr>"
proof -
  from assms(1) obtain x where "rbind (guard (ts_call_id t \<noteq> []) UNPAIRED) (\<lambda>_. guard (ts_name t \<noteq> []) UNSUPPORTED_SEMANTICS) = Inr x"
    and b: "bind (tool_added_events k t) (\<lambda>(t', events).
           if ts_done t' then give (events, items)
           else let arguments = concat (ts_arguments t'); item = call_item t' ''completed'' arguments
                in bind (put_tool k (t'\<lparr>ts_done := True\<rparr>)) (\<lambda>_.
                     give (events @ [arguments_done_event (ts_item_id t') (ts_output_index t') arguments,
                                     item_event ''response.output_item.done'' (ts_output_index t') item],
                           dict_set items (ts_output_index t') (JObj item)))) s = (Inr (es, items'), s')"
    by (auto simp: complete_tool_def elim!: bind_attemptE)
  then have "ts_call_id t \<noteq> []" "ts_name t \<noteq> []" by (auto simp: res_simps)
  with t show added: "ts_added t" by (simp add: tool_ok_def)
  have "\<not> ts_done t" using t by (simp add: tool_ok_def)
  with b added obtain u where u: "put_tool k (t\<lparr>ts_done := True\<rparr>) s = (Inr u, s')"
    and e: "es = [arguments_done_event (ts_item_id t) (ts_output_index t) (concat (ts_arguments t)),
       item_event ''response.output_item.done'' (ts_output_index t) (call_item t ''completed'' (concat (ts_arguments t)))]"
    "items' = dict_set items (ts_output_index t) (JObj (call_item t ''completed'' (concat (ts_arguments t))))"
    by (auto simp: tool_added_events_def bind_ret Let_def elim!: bindE simp: ret_ok)
  show "es = [arguments_done_event (ts_item_id t) (ts_output_index t) (concat (ts_arguments t)),
       item_event ''response.output_item.done'' (ts_output_index t) (call_item t ''completed'' (concat (ts_arguments t)))]"
    "items' = dict_set items (ts_output_index t) (JObj (call_item t ''completed'' (concat (ts_arguments t))))" by (rule e)+
  from put_tool_ok [OF u] show "\<exists>tl. s' = s\<lparr>cv_tool_states := tl\<rparr>" by (auto elim!: tool_putE)
qed

lemma complete_tools_ConsE:
  assumes "complete_tools (kt # ents) items s = (Inr (es, items'), s')"
  obtains e1 items1 s1 e2 where "complete_tool kt items s = (Inr (e1, items1), s1)"
    "complete_tools ents items1 s1 = (Inr (e2, items'), s')" "es = e1 @ e2"
proof -
  from assms obtain x s1 where x: "complete_tool kt items s = (Inr x, s1)"
    and r: "(\<lambda>(events, items1). bind (complete_tools ents items1) (\<lambda>(later, items2). give (events @ later, items2))) x s1
      = (Inr (es, items'), s')"
    unfolding complete_tools.simps by (rule bindE)
  obtain e1 items1 where xe: "x = (e1, items1)" by (cases x)
  from r obtain y s2 where y: "complete_tools ents items1 s1 = (Inr y, s2)"
    and e: "(\<lambda>(later, items2). give (e1 @ later, items2)) y s2 = (Inr (es, items'), s')"
    unfolding xe prod.case by (rule bindE)
  obtain e2 items2 where ye: "y = (e2, items2)" by (cases y)
  from e have "items' = items2" "es = e1 @ e2" "s' = s2" unfolding ye by (simp_all add: ret_ok)
  with x y show thesis unfolding xe ye by (intro that) simp_all
qed

lemma run_complete_tools:
  assumes "complete_tools ents items s = (Inr (es, items'), s')" and "closing ix c n p items" and "distinct (map fst ents)"
    and "\<And>k t. (k, t) \<in> set ents \<Longrightarrow> tool_ok t \<and> ix (Tool_Slot k) = Some (ts_output_index t) \<and> c (Tool_Slot k) = shown_tool t"
  shows "(\<exists>p'. run p es = Some p' \<and> closing ix (\<lambda>a. if a \<in> Tool_Slot ` fst ` set ents then None else c a) n p' items')
    \<and> (\<exists>tl. s' = s\<lparr>cv_tool_states := tl\<rparr>)"
  using assms
proof (induction ents arbitrary: items s es c p)
  case Nil
  then have "es = []" "items' = items" "s' = s" by (simp_all add: ret_ok)
  moreover have "\<exists>tl. s = s\<lparr>cv_tool_states := tl\<rparr>" by (rule exI [of _ "cv_tool_states s"]) simp
  ultimately show ?case using Nil(2) by simp
next
  case (Cons kt ents)
    obtain k t where kt: "kt = (k, t)" by (cases kt)
    from Cons.prems(1) obtain e1 items1 s1 e2 where 1: "complete_tool (k, t) items s = (Inr (e1, items1), s1)"
      and 2: "complete_tools ents items1 s1 = (Inr (e2, items'), s')" and es: "es = e1 @ e2"
      unfolding kt by (rule complete_tools_ConsE)
    have t: "tool_ok t" "ix (Tool_Slot k) = Some (ts_output_index t)" "c (Tool_Slot k) = shown_tool t"
      using Cons.prems(4) [of k t] by (simp_all add: kt)
    note ok = complete_tool_ok [OF 1 t(1)]
    let ?x = "(ts_item_id t, ''function_call'', ts_arguments t)" and ?a = "concat (ts_arguments t)"
    have acc: "accept (arguments_done_event (ts_item_id t) (ts_output_index t) ?a) p
        = Some (p\<lparr>pr_open := dict_set (pr_open p) (ts_output_index t) (it\<lparr>oi_final := Some ?a\<rparr>)\<rparr>)"
      if "dict_get (pr_open p) (ts_output_index t) = Some it" "matches ?x it" for it
      using that Cons.prems(2) by (intro accept_final(3)) (simp_all add: matches_def closing_def)
    have x: "c (Tool_Slot k) = Some ?x" using t(3) ok(1) by (simp add: shown_tool_def)
    have itext: "item_text (call_item t ''completed'' ?a) = Some ?a" by (simp add: item_text_def call_item_def)
    obtain p1 where p1: "run p e1 = Some p1" "closing ix (c(Tool_Slot k := None)) n p1 items1"
      unfolding ok(2,3)
      by (rule run_close [OF Cons.prems(2) t(2) x acc itext]) (simp_all add: call_item_def)
    have "k \<notin> fst ` set ents" using Cons.prems(3) by (auto simp: kt)
    then have "\<And>k' t'. (k', t') \<in> set ents \<Longrightarrow> k' \<noteq> k" by force
    then have "tool_ok t' \<and> ix (Tool_Slot k') = Some (ts_output_index t') \<and> (c(Tool_Slot k := None)) (Tool_Slot k') = shown_tool t'"
      if "(k', t') \<in> set ents" for k' t' using Cons.prems(4) [of k' t'] that by simp
    moreover have "distinct (map fst ents)" using Cons.prems(3) by simp
    ultimately have "(\<exists>p'. run p1 e2 = Some p' \<and> closing ix (\<lambda>a. if a \<in> Tool_Slot ` fst ` set ents then None else (c(Tool_Slot k := None)) a) n p' items')
      \<and> (\<exists>tl. s' = s1\<lparr>cv_tool_states := tl\<rparr>)"
      by (intro Cons.IH [OF 2 p1(2)])
    then obtain p2 where p2: "run p1 e2 = Some p2"
      "closing ix (\<lambda>a. if a \<in> Tool_Slot ` fst ` set ents then None else (c(Tool_Slot k := None)) a) n p2 items'"
      and tl: "\<exists>tl. s' = s1\<lparr>cv_tool_states := tl\<rparr>"
      by (blast dest: conjunct1 conjunct2)
    have "(\<lambda>a. if a \<in> Tool_Slot ` fst ` set ents then None else (c(Tool_Slot k := None)) a)
        = (\<lambda>a. if a \<in> Tool_Slot ` fst ` set (kt # ents) then None else c a)"
      by (auto simp: kt fun_eq_iff)
    with p2(2) have "closing ix (\<lambda>a. if a \<in> Tool_Slot ` fst ` set (kt # ents) then None else c a) n p2 items'" by simp
    moreover have "run p es = Some p2" using p2(1) run_append_Some [OF p1(1)] by (simp add: es)
    moreover have "\<exists>tl. s' = s\<lparr>cv_tool_states := tl\<rparr>" using tl ok(4) by auto
    ultimately show ?case by blast
qed

lemma run_complete_message:
  assumes cl: "closing ix c n p items" and r: "complete_message items s = (Inr (es, items'), s')"
    and ix: "ix Message_Slot = cv_message_output_index s"
    and c: "c Message_Slot = (if cv_message_started s then Some (cv_item_id s, ''message'', cv_text_parts s) else None)"
    and ok: "cv_message_started s \<Longrightarrow> cv_message_output_index s \<noteq> None"
  shows "s' = s \<and> (\<exists>p'. run p es = Some p' \<and> closing ix (c(Message_Slot := None)) n p' items')"
proof (cases "cv_message_started s")
  case False
  with r have "es = []" "items' = items" "s' = s" by (simp_all add: complete_message_def ret_ok)
  moreover have "c(Message_Slot := None) = c" using False c by auto
  ultimately show ?thesis using cl by simp
next
  case True
  with ok obtain i where i: "cv_message_output_index s = Some i" by auto
  let ?t = "concat (cv_text_parts s)" and ?x = "(cv_item_id s, ''message'', cv_text_parts s)"
  let ?item = "message_item s ''completed'' [text_part ?t]"
  from r True i have e: "es = [text_done_event (cv_item_id s) i ?t, item_event ''response.output_item.done'' i ?item]"
    "items' = dict_set items i (JObj ?item)" "s' = s"
    by (simp_all add: complete_message_def Let_def ret_ok)
  have acc: "accept (text_done_event (cv_item_id s) i ?t) p = Some (p\<lparr>pr_open := dict_set (pr_open p) i (it\<lparr>oi_final := Some ?t\<rparr>)\<rparr>)"
    if "dict_get (pr_open p) i = Some it" "matches ?x it" for it
    using that cl by (intro accept_final(1)) (simp_all add: matches_def closing_def)
  have itext: "item_text ?item = Some ?t" by (simp add: item_text_def message_item_def text_part_def part_text_def)
  have "ix Message_Slot = Some i" "c Message_Slot = Some ?x" using ix i c True by simp_all
  from run_close [OF cl this acc itext] show ?thesis unfolding e by (force simp: message_item_def)
qed

lemma distinct_sort_fst: "distinct (map fst xs) \<Longrightarrow> distinct (map fst (sort_key f xs))"
  by (simp add: distinct_map)

lemma events_for_doneE:
  assumes "events_for_done s = (Inr es, s')" and live: "\<not> cv_completed s"
  obtains e1 s1 e2 items1 s2 e3 items2 s3 e4 items3 s4 response where
    "created_events (s\<lparr>cv_completed := True\<rparr>) = (Inr e1, s1)" "complete_reasoning s1 = (Inr (e2, items1), s2)"
    "complete_tools (sort_key (\<lambda>(_, t). ts_output_index t) (cv_tool_states s2)) items1 s2 = (Inr (e3, items2), s3)"
    "complete_message items2 s3 = (Inr (e4, items3), s4)"
    "stamp_response (terminal_response s4 (cv_pending_incomplete s = Some True) (by_index items3)) s4 = (Inr response, s')"
    "es = e1 @ e2 @ e3 @ e4 @ [response_event
       (if cv_pending_incomplete s = Some True then ''response.incomplete'' else ''response.completed'') response]"
proof -
  define b where "b \<longleftrightarrow> cv_pending_incomplete s = Some True"
  from assms(1) obtain e1 s1 e2 items1 s2 where 1: "created_events (s\<lparr>cv_completed := True\<rparr>) = (Inr e1, s1)"
    "complete_reasoning s1 = (Inr (e2, items1), s2)"
    and rest: "bind (complete_tools (sort_key (\<lambda>(_, t). ts_output_index t) (cv_tool_states s2)) items1) (\<lambda>(e3, items2).
        bind (complete_message items2) (\<lambda>(e4, items3) s2.
        bind (stamp_response (terminal_response s2 b (by_index items3))) (\<lambda>response.
          give (e1 @ e2 @ e3 @ e4 @ [response_event
             (if b then ''response.incomplete'' else ''response.completed'') response])) s2)) s2 = (Inr es, s')"
    unfolding events_for_done_def complete_events_def b_def [symmetric] if_not_P [OF live]
    by (elim bind_updateE bindE) auto
  from rest obtain e3 items2 s3 where 2: "complete_tools (sort_key (\<lambda>(_, t). ts_output_index t) (cv_tool_states s2)) items1 s2 = (Inr (e3, items2), s3)"
    and rest2: "bind (complete_message items2) (\<lambda>(e4, items3) s2.
        bind (stamp_response (terminal_response s2 b (by_index items3))) (\<lambda>response.
          give (e1 @ e2 @ e3 @ e4 @ [response_event
             (if b then ''response.incomplete'' else ''response.completed'') response])) s2) s3 = (Inr es, s')"
    by (elim bindE) auto
  from rest2 obtain e4 items3 s4 where 3: "complete_message items2 s3 = (Inr (e4, items3), s4)"
    and rest3: "bind (stamp_response (terminal_response s4 b (by_index items3))) (\<lambda>response.
          give (e1 @ e2 @ e3 @ e4 @ [response_event
             (if b then ''response.incomplete'' else ''response.completed'') response])) s4 = (Inr es, s')"
    by (elim bindE) auto
  from rest3 obtain response where 4: "stamp_response (terminal_response s4 b (by_index items3)) s4 = (Inr response, s')"
    "es = e1 @ e2 @ e3 @ e4 @ [response_event (if b then ''response.incomplete'' else ''response.completed'') response]"
    by (auto elim!: bindE simp: ret_ok)
  show thesis by (rule that [OF 1 2 3 4 [unfolded b_def]])
qed

lemma run_end:
  assumes sim: "simulates s p" and r: "events_for_done s = (Inr es, s')"
  shows "\<exists>p'. run p es = Some p' \<and> pr_ended p'"
proof -
  note S = simulatesD [OF sim]
  define b where "b \<longleftrightarrow> cv_pending_incomplete s = Some True"
  have live: "\<not> cv_completed s" using S(1) by (simp add: converter_ok_def)
  obtain e1 s1 e2 items1 s2 e3 items2 s3 e4 items3 s4 response where cr: "created_events (s\<lparr>cv_completed := True\<rparr>) = (Inr e1, s1)"
    and re: "complete_reasoning s1 = (Inr (e2, items1), s2)"
    and to2: "complete_tools (sort_key (\<lambda>(_, t). ts_output_index t) (cv_tool_states s2)) items1 s2 = (Inr (e3, items2), s3)"
    and me: "complete_message items2 s3 = (Inr (e4, items3), s4)"
    and st: "stamp_response (terminal_response s4 b (by_index items3)) s4 = (Inr response, s')"
    and es: "es = e1 @ e2 @ e3 @ e4 @ [response_event (if b then ''response.incomplete'' else ''response.completed'') response]"
    unfolding b_def by (rule events_for_doneE [OF r live])
  obtain c where s1: "s1 = s\<lparr>cv_completed := True, cv_created_emitted := True, cv_created_at := c\<rparr>"
    using created_events_ok(1) [OF cr] by auto
  let ?p1 = "p\<lparr>pr_created := True\<rparr>" and ?n = "cv_next_output_index s"
  have p1: "run p e1 = Some ?p1" "flowing ?p1" using run_created [OF _ _ cr, of p] S(4,5) by simp_all
  have ix: "index_of s1 = index_of s" "content_of s1 = content_of s" by (simp_all add: s1)
  have cl1: "closing (index_of s1) (content_of s1) ?n ?p1 []" using p1(2) S(2,3) by (simp add: closing_def ix)
  have "cv_reasoning_parts s1 = [] \<longleftrightarrow> \<not> cv_reasoning_started s1" using S(1) by (simp add: converter_ok_def s1)
  from run_complete_reasoning [OF cl1 this re] obtain p2 where s2: "s2 = s1" and p2: "run ?p1 e2 = Some p2"
    "closing (index_of s) ((content_of s)(Reasoning_Slot := None)) ?n p2 items1" unfolding ix by blast
  let ?ents = "sort_key (\<lambda>(_, t). ts_output_index t) (cv_tool_states s)"
  have tools: "cv_tool_states s2 = cv_tool_states s" by (simp add: s2 s1)
  have to: "complete_tools ?ents items1 s2 = (Inr (e3, items2), s3)" using to2 unfolding tools .
  have dist: "distinct (map fst (cv_tool_states s))" using S(1) by (simp add: converter_ok_def)
  have ents: "tool_ok t \<and> index_of s (Tool_Slot k) = Some (ts_output_index t)
      \<and> ((content_of s)(Reasoning_Slot := None)) (Tool_Slot k) = shown_tool t" if "(k, t) \<in> set ?ents" for k t
  proof -
    from that dist have "dict_get (cv_tool_states s) k = Some t" by simp
    with S(1) show ?thesis by (simp add: converter_ok_def)
  qed
  from run_complete_tools [OF to p2(2) distinct_sort_fst [OF dist] ents] obtain p3 tl where p3: "run p2 e3 = Some p3"
    "closing (index_of s) (\<lambda>a. if a \<in> Tool_Slot ` fst ` set ?ents then None else ((content_of s)(Reasoning_Slot := None)) a) ?n p3 items2"
    and s3: "s3 = s2\<lparr>cv_tool_states := tl\<rparr>" by blast
  let ?c = "\<lambda>a. if a \<in> Tool_Slot ` fst ` set ?ents then None else ((content_of s)(Reasoning_Slot := None)) a"
  have msg: "index_of s Message_Slot = cv_message_output_index s3"
    "?c Message_Slot = (if cv_message_started s3 then Some (cv_item_id s3, ''message'', cv_text_parts s3) else None)"
    "cv_message_started s3 \<Longrightarrow> cv_message_output_index s3 \<noteq> None"
    using S(1) by (auto simp: s3 s2 s1 converter_ok_def)
  from run_complete_message [OF p3(2) me msg] obtain p4 where p4: "run p3 e4 = Some p4"
    "closing (index_of s) (?c(Message_Slot := None)) ?n p4 items3" by blast
  have "?c(Message_Slot := None) = Map.empty"
  proof
    fix a show "(?c(Message_Slot := None)) a = None"
    proof (cases a)
      case (Tool_Slot k)
      show ?thesis
      proof (cases "k \<in> fst ` set (cv_tool_states s)")
        case False
        then have "dict_get (cv_tool_states s) k = None" by (simp add: map_of_eq_None_iff)
        then show ?thesis by (simp add: Tool_Slot)
      qed (simp add: Tool_Slot)
    qed simp_all
  qed
  with p4(2) have "closing (index_of s) Map.empty ?n p4 items3" by simp
  then have p4': "pr_open p4 = []" "flowing p4" "pr_items p4 = items3"
    using sim_empty [of "index_of s" ?n p4] by (simp_all add: closing_def)
  have "dict_get response ''output'' = Some (JArr (by_index (pr_items p4)))"
    by (simp add: stamp_response_ok(2) [OF st] terminal_response_def response_object_def Let_def dict_simps p4'(3) split: option.split)
  from accept_end [OF p4'(2,1) this, of "if b then ''response.incomplete'' else ''response.completed''"]
  have "run p4 [response_event (if b then ''response.incomplete'' else ''response.completed'') response] = Some (p4\<lparr>pr_ended := True\<rparr>)"
    by simp
  then show ?thesis
    using run_append_Some [OF p1(1)] run_append_Some [OF p2(1)] run_append_Some [OF p3(1)] run_append_Some [OF p4(1)]
    by (simp add: es)
qed

section \<open>Whole streams\<close>

text \<open>The relay's use of a converter: a chunk at a time, and the completion at the end.\<close>

fun convert_chunks :: "obj list \<Rightarrow> obj list converting" where
  "convert_chunks [] = give []"
| "convert_chunks (chunk # chunks) =
     bind (events_for_chunk chunk) (\<lambda>e1. bind (convert_chunks chunks) (\<lambda>e2. give (e1 @ e2)))"

lemma convert_ConsE:
  assumes "convert_chunks (chunk # chunks) s = (Inr es, s')"
  obtains e1 s1 e2 where "events_for_chunk chunk s = (Inr e1, s1)" "convert_chunks chunks s1 = (Inr e2, s')" "es = e1 @ e2"
  using assms by (auto elim!: bindE simp: ret_ok)

lemma run_chunks:
  "simulates s p \<Longrightarrow> convert_chunks chunks s = (Inr es, s') \<Longrightarrow> \<exists>p'. run p es = Some p' \<and> simulates s' p'"
proof (induction chunks arbitrary: s p es)
  case Nil
  then show ?case by (simp add: ret_ok)
next
  case (Cons chunk chunks)
  obtain e1 s1 e2 where 1: "events_for_chunk chunk s = (Inr e1, s1)" "convert_chunks chunks s1 = (Inr e2, s')" and es: "es = e1 @ e2"
    by (rule convert_ConsE [OF Cons.prems(2)])
  from run_chunk [OF Cons.prems(1) 1(1)] obtain p1 where p1: "run p e1 = Some p1" "simulates s1 p1" by blast
  from Cons.IH [OF p1(2) 1(2)] run_append_Some [OF p1(1)] show ?case by (simp add: es)
qed

text \<open>C4: Whatever chunks the converter accepts, the Responses events it makes of them, with those of its
  completion, are a complete Responses stream: created once and first, every item added at a fresh
  index, its deltas in between, one final value that agrees with the deltas, done with that value,
  and one terminal event at the end that repeats the done items by index; and already the events
  before the completion are accepted one by one.\<close>
theorem chat_stream_refines_protocol:
  assumes "convert_chunks chunks (new_chat_converter now response_id item_id reasoning_id) = (Inr es, s)"
  shows "\<exists>p. run stream_begin es = Some p \<and> \<not> pr_ended p
    \<and> (\<forall>final s'. events_for_done s = (Inr final, s') \<longrightarrow> (\<exists>p'. run stream_begin (es @ final) = Some p' \<and> pr_ended p'))"
proof -
  from run_chunks [OF simulates_begin assms] obtain p where p: "run stream_begin es = Some p" "simulates s p" by blast
  moreover have "\<not> pr_ended p" by (rule simulatesD(4) [OF p(2)])
  moreover have "\<exists>p'. run stream_begin (es @ final) = Some p' \<and> pr_ended p'" if "events_for_done s = (Inr final, s')" for final s'
    using run_end [OF p(2) that] run_append_Some [OF p(1)] by simp
  ultimately show ?thesis by blast
qed

text \<open>Two chunks, a text and a call, and the completion.\<close>

definition text_chunk :: obj where
  "text_chunk = [(''choices'', JArr [JObj [(''index'', JInt 0), (''delta'', JObj [(''content'', JStr ''Hi'')])]])]"

definition call_chunk :: obj where
  "call_chunk = [(''choices'', JArr [JObj [(''index'', JInt 0), (''delta'', JObj [(''tool_calls'', JArr [JObj
     [(''index'', JInt 0), (''id'', JStr ''a''), (''function'', JObj [(''name'', JStr ''f''), (''arguments'', JStr ''{}'')])]])])]])]"

definition sample_stream :: "obj list \<Rightarrow> nat option" where
  "sample_stream chunks =
     (case convert_chunks chunks (new_chat_converter 5 ''r'' ''m'' ''g'') of
        (Inr es, s) \<Rightarrow> (case events_for_done s of (Inr final, _) \<Rightarrow> Some (length (es @ final)) | _ \<Rightarrow> None)
      | _ \<Rightarrow> None)"

lemma sample_events: "sample_stream [text_chunk, call_chunk] = Some 12"
  by code_simp

lemma sample_streamE:
  assumes "sample_stream chunks = Some n"
  obtains es s final s' where "convert_chunks chunks (new_chat_converter 5 ''r'' ''m'' ''g'') = (Inr es, s)"
    "events_for_done s = (Inr final, s')" "length (es @ final) = n"
proof -
  obtain r s where 1: "convert_chunks chunks (new_chat_converter 5 ''r'' ''m'' ''g'') = (r, s)"
    by (cases "convert_chunks chunks (new_chat_converter 5 ''r'' ''m'' ''g'')")
  with assms obtain es where r: "r = Inr es" by (cases r) (simp_all add: sample_stream_def)
  obtain q s' where 2: "events_for_done s = (q, s')" by (cases "events_for_done s")
  with assms 1 r obtain final where q: "q = Inr final" by (cases q) (simp_all add: sample_stream_def)
  from assms 1 2 r q have "length (es @ final) = n" by (simp add: sample_stream_def)
  with 1 2 r q show thesis by (intro that) simp_all
qed

theorem chat_stream_refines_protocol_witness:
  "\<exists>es s final s' p. convert_chunks [text_chunk, call_chunk] (new_chat_converter 5 ''r'' ''m'' ''g'') = (Inr es, s)
    \<and> events_for_done s = (Inr final, s') \<and> length (es @ final) = 12
    \<and> run stream_begin (es @ final) = Some p \<and> pr_ended p"
proof -
  obtain es s final s' where 1: "convert_chunks [text_chunk, call_chunk] (new_chat_converter 5 ''r'' ''m'' ''g'') = (Inr es, s)"
    "events_for_done s = (Inr final, s')" "length (es @ final) = 12"
    by (rule sample_streamE [OF sample_events])
  with chat_stream_refines_protocol [OF 1(1)] obtain p where "run stream_begin (es @ final) = Some p" "pr_ended p" by auto
  with 1 show ?thesis by blast
qed

end
