(* ===== verification/Chat_Stream_Content.thy ===== *)
theory Chat_Stream_Content
  imports Chat_Stream_Properties
begin

text \<open>
  What the converter of Chat Completions chunks does with the content of a stream: the text and the
  calls, with ids, names and arguments, come out as exactly the items they came in as; of the
  reasoning some is lost.
\<close>

section \<open>The content of chunks\<close>

text \<open>Read off the chunks alone: the pieces of text in order, and the calls in the order of their first
  fragments.  A fragment names its call by index; its id and name replace the call's where it has
  any, its arguments are added at the end.\<close>

type_synonym call = "string \<times> string \<times> string"

type_synonym content = "string list \<times> (int, call) dict"

definition text_or_empty :: "obj \<Rightarrow> string \<Rightarrow> string" where
  "text_or_empty d k = (case text_field d k of None \<Rightarrow> [] | Some t \<Rightarrow> t)"

definition function_part :: "obj \<Rightarrow> string \<Rightarrow> string" where
  "function_part tool_call k =
     (case object_field tool_call ''function'' of None \<Rightarrow> [] | Some f \<Rightarrow> text_or_empty f k)"

definition hear_fragment :: "obj \<Rightarrow> call \<Rightarrow> call" where
  "hear_fragment tool_call c =
     (case c of (call_id, name, arguments) \<Rightarrow>
        (if text_or_empty tool_call ''id'' = [] then call_id else text_or_empty tool_call ''id'',
         if function_part tool_call ''name'' = [] then name else function_part tool_call ''name'',
         arguments @ function_part tool_call ''arguments''))"

definition hear_call :: "obj \<Rightarrow> nat \<Rightarrow> (int, call) dict \<Rightarrow> (int, call) dict" where
  "hear_call tool_call n calls =
     (case tool_call_index tool_call n of
        Inl e \<Rightarrow> calls
      | Inr k \<Rightarrow> dict_set calls k (hear_fragment tool_call
                  (case dict_get calls k of None \<Rightarrow> ([], [], []) | Some c \<Rightarrow> c)))"

fun hear_calls :: "json list \<Rightarrow> nat \<Rightarrow> (int, call) dict \<Rightarrow> (int, call) dict" where
  "hear_calls [] n calls = calls"
| "hear_calls (v # vs) n calls =
     hear_calls vs (n + 1) (case v of JObj tool_call \<Rightarrow> hear_call tool_call n calls | _ \<Rightarrow> calls)"

definition hear_text :: "string \<Rightarrow> string list" where
  "hear_text t = (if t = [] then [] else [t])"

definition hear_source :: "obj \<Rightarrow> content \<Rightarrow> content" where
  "hear_source source h =
     (fst h @ hear_text (text_or_empty source ''content''),
      case dict_get source ''tool_calls'' of Some (JArr vs) \<Rightarrow> hear_calls vs 0 (snd h) | _ \<Rightarrow> snd h)"

fun hear_choices :: "json list \<Rightarrow> content \<Rightarrow> content" where
  "hear_choices [] h = h"
| "hear_choices (v # vs) h =
     hear_choices vs
       (case Option.bind (json_object v) chat_stream_source of None \<Rightarrow> h | Some source \<Rightarrow> hear_source source h)"

definition hear_chunks :: "obj list \<Rightarrow> content \<Rightarrow> content" where
  "hear_chunks chunks h = foldl (\<lambda>h chunk. hear_choices (chunk_choices chunk) h) h chunks"

definition text_said :: "obj list \<Rightarrow> string" where
  "text_said chunks = concat (fst (hear_chunks chunks ([], [])))"

definition calls_said :: "obj list \<Rightarrow> call list" where
  "calls_said chunks = map snd (snd (hear_chunks chunks ([], [])))"

text \<open>What a converter has collected.\<close>

definition call_of :: "tool_state \<Rightarrow> call" where
  "call_of t = (ts_call_id t, ts_name t, concat (ts_arguments t))"

definition calls_of :: "(int, tool_state) dict \<Rightarrow> (int, call) dict" where
  "calls_of d = map (\<lambda>(k, t). (k, call_of t)) d"

definition gathered :: "chat_converter \<Rightarrow> content" where
  "gathered s = (cv_text_parts s, calls_of (cv_tool_states s))"

lemma calls_of_set: "calls_of (dict_set d k t) = dict_set (calls_of d) k (call_of t)"
  by (induction d) (auto simp: calls_of_def dict_set_def)

lemma calls_of_get: "dict_get (calls_of d) k = map_option call_of (dict_get d k)"
  by (simp add: calls_of_def map_of_map)

text \<open>The calls stand in the order of their output indices, all given out already.\<close>

definition ordered :: "chat_converter \<Rightarrow> bool" where
  "ordered s \<longleftrightarrow> sorted (map (ts_output_index \<circ> snd) (cv_tool_states s))
     \<and> (\<forall>t \<in> snd ` set (cv_tool_states s). ts_output_index t < cv_next_output_index s)"

definition gathers :: "chat_converter \<Rightarrow> content \<Rightarrow> chat_converter \<Rightarrow> bool" where
  "gathers s h s' \<longleftrightarrow> gathered s' = h \<and> (ordered s \<longrightarrow> ordered s')"

lemma gathers_refl [simp]: "gathers s (gathered s) s"
  by (simp add: gathers_def)

lemma gathers_trans: "gathers s h s' \<Longrightarrow> gathers s' h' s'' \<Longrightarrow> gathers s h' s''"
  by (simp add: gathers_def)

lemma gathers_same:
  assumes "cv_text_parts s' = cv_text_parts s" and "cv_tool_states s' = cv_tool_states s"
    and "cv_next_output_index s \<le> cv_next_output_index s'"
  shows "gathers s (gathered s) s'"
  using assms by (auto simp: gathers_def gathered_def ordered_def)

lemma gathers_silent: "gathers s (gathered s) s1 \<Longrightarrow> gathers s1 h s' \<Longrightarrow> gathers s h s'"
  by (rule gathers_trans)

lemma gathers_calls: "gathers s (gathered s) s1 \<Longrightarrow> gathered s1 = gathered s"
  by (simp add: gathers_def)

lemma set_index_kept:
  "dict_get d k = Some t \<Longrightarrow> ts_output_index t' = ts_output_index t \<Longrightarrow>
   map (ts_output_index \<circ> snd) (dict_set d k t') = map (ts_output_index \<circ> snd) d"
  by (induction d) (auto simp: dict_set_def)

lemma dict_set_absent: "dict_get d k = None \<Longrightarrow> dict_set d k v = d @ [(k, v)]"
  by (induction d) (auto simp: dict_set_def split: if_splits)

lemma ordered_bound:
  "ordered s \<longleftrightarrow> (let is = map (ts_output_index \<circ> snd) (cv_tool_states s)
     in sorted is \<and> (\<forall>i \<in> set is. i < cv_next_output_index s))"
  by (auto simp: ordered_def)

lemma gathers_put:
  assumes "tool_put s k t' s'" and "dict_get (cv_tool_states s) k = Some t" and "ts_output_index t' = ts_output_index t"
  shows "gathers s (cv_text_parts s, dict_set (calls_of (cv_tool_states s)) k (call_of t')) s'"
  using assms set_index_kept [OF assms(2,3)]
  by (simp add: tool_put_def gathers_def gathered_def calls_of_set ordered_bound del: list.set_map)

section \<open>Every step\<close>

lemma gathers_created: "created_events s = (Inr es, s') \<Longrightarrow> gathers s (gathered s) s'"
  by (drule created_events_ok(1)) (auto intro: gathers_same)

lemma gathers_message_start:
  assumes "message_start_events s = (Inr es, s')"
  shows "gathers s (gathered s) s'"
proof -
  from assms obtain ec s1 where c: "created_events s = (Inr ec, s1)" and
    r: "if cv_message_started s then es = ec \<and> s' = s1
     else \<exists>i s2. message_index s1 = (Inr i, s2) \<and> s' = s2\<lparr>cv_message_started := True\<rparr>
       \<and> es = ec @ [item_event ''response.output_item.added'' i (message_item s2 ''in_progress'' []), content_part_event i (cv_item_id s2)]"
    by (rule message_start_ok)
  have "gathers s1 (gathered s1) s'"
    using r by (auto dest!: message_index_ok intro!: gathers_same split: if_splits)
  with gathers_created [OF c] show ?thesis by (simp add: gathers_def)
qed

lemma gathers_content:
  assumes "content_events source s = (Inr es, s')"
  shows "gathers s (cv_text_parts s @ hear_text (text_or_empty source ''content''), calls_of (cv_tool_states s)) s'"
proof (cases "text_or_empty source ''content'' = []")
  case True
  with assms have "s' = s"
    by (auto simp: content_events_def text_or_empty_def text_field_def action_ok split: option.splits json.splits if_splits)
  then show ?thesis by (simp add: True hear_text_def gathers_def gathered_def)
next
  case False
  let ?t = "text_or_empty source ''content''"
  from False have t: "dict_get source ''content'' = Some (JStr ?t)"
    by (auto simp: text_or_empty_def text_field_def split: option.splits json.splits)
  let ?s = "s\<lparr>cv_text_parts := cv_text_parts s @ [?t]\<rparr>"
  from assms t False obtain e where "message_start_events ?s = (Inr e, s')"
    by (auto simp: content_events_def update_ok elim!: bindE simp: ret_ok)
  from gathers_message_start [OF this] False show ?thesis
    by (simp add: hear_text_def gathers_def gathered_def ordered_def)
qed

lemma gathers_reasoning:
  assumes "reasoning_events text s = (Inr es, s')"
  shows "gathers s (gathered s) s'"
proof (cases "text = [] \<or> text \<in> set (cv_reasoning_parts s)")
  case True
  with assms have "s' = s" by (simp add: reasoning_events_def ret_ok)
  then show ?thesis by simp
next
  case False
  then have "text \<noteq> []" "text \<notin> set (cv_reasoning_parts s)" by simp_all
  from reasoning_events_ok [OF assms this] obtain ec s1 i s2 where
    c: "created_events (s\<lparr>cv_reasoning_parts := cv_reasoning_parts s @ [text]\<rparr>) = (Inr ec, s1)"
    and i: "reasoning_index s1 = (Inr i, s2)" and s': "s' = s2\<lparr>cv_reasoning_started := True\<rparr>" by metis
  have "gathers s1 (gathered s1) s'" unfolding s' using reasoning_index_ok [OF i]
    by (auto intro!: gathers_same split: if_splits)
  moreover have "gathers s (gathered s) s1"
    using gathers_created [OF c] by (simp add: gathers_def gathered_def ordered_def)
  ultimately show ?thesis by (simp add: gathers_def)
qed

text \<open>The state of a call that is mentioned for the first time is added at the end.\<close>

lemma gathers_state:
  assumes "tool_state_for k s = (Inr t, s')"
  shows "dict_get (cv_tool_states s') k = Some t"
    "call_of t = (case dict_get (calls_of (cv_tool_states s)) k of None \<Rightarrow> ([], [], []) | Some c \<Rightarrow> c)"
    "\<exists>c. gathers s (cv_text_parts s, if dict_get (cv_tool_states s) k = None
        then dict_set (calls_of (cv_tool_states s)) k c else calls_of (cv_tool_states s)) s'"
proof -
  have "dict_get (cv_tool_states s') k = Some t
    \<and> call_of t = (case dict_get (calls_of (cv_tool_states s)) k of None \<Rightarrow> ([], [], []) | Some c \<Rightarrow> c)
    \<and> (\<exists>c. gathers s (cv_text_parts s, if dict_get (cv_tool_states s) k = None
        then dict_set (calls_of (cv_tool_states s)) k c else calls_of (cv_tool_states s)) s')"
  proof (cases "dict_get (cv_tool_states s) k")
    case (Some t0)
    with assms show ?thesis
      by (simp add: tool_state_for_def ret_ok calls_of_get) (simp add: gathers_def gathered_def)
  next
    case None
    let ?n = "cv_next_output_index s"
    let ?t = "\<lparr>ts_output_index = ?n, ts_item_id = [], ts_call_id = [], ts_name = [], ts_arguments = [],
                     ts_added = False, ts_done = False\<rparr>"
    from assms None have t: "t = ?t" and "put_tool k ?t (s\<lparr>cv_next_output_index := ?n + 1\<rparr>) = (Inr (), s')"
      by (auto simp: tool_state_for_def Let_def allocate_output_index_def action_ok)
    from put_tool_ok [OF this(2)] have s': "s' = s\<lparr>cv_next_output_index := ?n + 1, cv_tool_states := cv_tool_states s @ [(k, ?t)]\<rparr>"
      by (simp add: tool_put_def dict_set_absent [OF None])
    have "gathered s' = (cv_text_parts s, dict_set (calls_of (cv_tool_states s)) k (call_of ?t))"
      by (simp add: gathered_def s' calls_of_set [symmetric] dict_set_absent [OF None])
    moreover have "ordered s \<longrightarrow> ordered s'"
      by (auto simp: ordered_def s' sorted_append less_imp_le)
    ultimately show ?thesis using None
      by (auto simp: gathers_def t calls_of_get call_of_def s' map_add_def intro!: exI)
  qed
  then show "dict_get (cv_tool_states s') k = Some t"
    "call_of t = (case dict_get (calls_of (cv_tool_states s)) k of None \<Rightarrow> ([], [], []) | Some c \<Rightarrow> c)"
    "\<exists>c. gathers s (cv_text_parts s, if dict_get (cv_tool_states s) k = None
        then dict_set (calls_of (cv_tool_states s)) k c else calls_of (cv_tool_states s)) s'" by blast+
qed

lemma merged_call_id:
  assumes "merge_call_id (get_or_null tc ''id'') t = Inr t'"
  shows "t' = t\<lparr>ts_call_id := (if text_or_empty tc ''id'' = [] then ts_call_id t else text_or_empty tc ''id'')\<rparr>"
  using assms
  by (auto simp: merge_call_id_def text_or_empty_def text_field_def get_or_null_def split: option.splits json.splits if_splits)

lemma merged_function:
  assumes "merge_function k (get_or_null tc ''function'') t s = (Inr (t', a), s')"
  shows "a = function_part tc ''arguments''
    \<and> ts_name t' = (if function_part tc ''name'' = [] then ts_name t else function_part tc ''name'')"
proof (cases "object_field tc ''function''")
  case None
  with assms show ?thesis
    by (cases "get_or_null tc ''function''")
      (auto simp: merge_function_def function_part_def object_field_def get_or_null_def action_ok split: option.splits json.splits)
next
  case (Some f)
  then have v: "get_or_null tc ''function'' = JObj f"
    by (auto simp: object_field_def get_or_null_def split: option.splits json.splits)
  from assms obtain t1 s1 arguments where m: "merge_name (get_or_null f ''name'') t = Inr t1"
    and fa: "function_arguments f = Inr arguments"
    and rest: "(if arguments = [] then give (t1, [])
            else let t2 = t1\<lparr>ts_arguments := ts_arguments t1 @ [arguments]\<rparr>
                 in bind (put_tool k t2) (\<lambda>_. give (t2, arguments))) s1 = (Inr (t', a), s')"
    unfolding v merge_function_def json.case by (elim bind_attemptE bindE)
  have "a = arguments \<and> ts_name t' = ts_name t1"
  proof (cases "arguments = []")
    case True
    with rest show ?thesis by (simp add: ret_ok)
  next
    case False
    with rest show ?thesis by (auto simp: Let_def elim!: bindE simp: ret_ok)
  qed
  moreover have "ts_name t1 = (if function_part tc ''name'' = [] then ts_name t else function_part tc ''name'')"
    using m Some
    by (auto simp: merge_name_def function_part_def text_or_empty_def text_field_def get_or_null_def split: option.splits json.splits if_splits)
  moreover have "arguments = function_part tc ''arguments''"
    using fa Some by (auto simp: function_arguments_def function_part_def text_or_empty_def text_field_def split: option.splits json.splits)
  ultimately show ?thesis by simp
qed

lemma gathers_tool_call:
  assumes "tool_call_events tc n s = (Inr es, s')"
  shows "gathers s (cv_text_parts s, hear_call tc n (calls_of (cv_tool_states s))) s'"
proof -
  from assms obtain k t s1 t1 s2 t2 a s3 t3 e3 where k: "tool_call_index tc n = Inr k" and t: "tool_state_for k s = (Inr t, s1)"
    and c1: "merge_call_id (get_or_null tc ''id'') t = Inr t1" and p1: "tool_put s1 k t1 s2"
    and f: "merge_function k (get_or_null tc ''function'') t1 s2 = (Inr (t2, a), s3)"
    and ta: "tool_added_events k t2 s3 = (Inr (t3, e3), s')"
    by (rule tool_call_ok)
  note T = gathers_state [OF t]
  note m = merge_function_ok [OF f tool_put_get [OF p1]] and M = merged_function [OF f]
  have put2: "tool_put s1 k t2 s3" using tool_put_trans [OF p1] m by blast
  have t2: "t2 = t\<lparr>ts_call_id := ts_call_id t1, ts_name := ts_name t2, ts_arguments := ts_arguments t @ more_arguments a\<rparr>"
    using m merged_call_id [OF c1] by (cases t; cases t2) auto
  have ix: "ts_output_index t2 = ts_output_index t" by (subst t2) simp
  have call: "call_of t2 = hear_fragment tc (call_of t)"
    using M merged_call_id [OF c1] by (subst t2) (simp add: call_of_def hear_fragment_def more_arguments_def)
  obtain c where g1: "gathers s (cv_text_parts s, if dict_get (cv_tool_states s) k = None
        then dict_set (calls_of (cv_tool_states s)) k c else calls_of (cv_tool_states s)) s1" using T(3) by blast
  have "gathers s1 (cv_text_parts s1, dict_set (calls_of (cv_tool_states s1)) k (call_of t2)) s3"
    by (rule gathers_put [OF put2 T(1) ix])
  with g1 have g3: "gathers s (cv_text_parts s, dict_set (calls_of (cv_tool_states s)) k (call_of t2)) s3"
    by (auto simp: gathers_def gathered_def dict_set_twice split: if_splits)
  have "gathers s3 (gathered s3) s'"
  proof (cases "ts_added t2 \<or> ts_call_id t2 = [] \<or> ts_name t2 = []")
    case True
    with tool_added_ok [OF ta] show ?thesis by simp
  next
    case False
    with tool_added_ok [OF ta] obtain ec s4 where c: "created_events s3 = (Inr ec, s4)" and p: "tool_put s4 k t3 s'"
      and t3: "t3 = t2\<lparr>ts_item_id := ''fc_'' @ ts_call_id t2, ts_added := True\<rparr>" by auto
    have g4: "cv_tool_states s4 = cv_tool_states s3" "cv_text_parts s4 = cv_text_parts s3"
      using created_events_ok(1) [OF c] by auto
    have get: "dict_get (cv_tool_states s4) k = Some t2" using tool_put_get [OF put2] g4 by simp
    have "call_of t3 = call_of t2" by (simp add: t3 call_of_def)
    then have "dict_set (calls_of (cv_tool_states s4)) k (call_of t3) = calls_of (cv_tool_states s4)"
      using get by (intro dict_set_same) (simp add: calls_of_get)
    with gathers_put [OF p get] have "gathers s4 (cv_text_parts s4, calls_of (cv_tool_states s4)) s'" by (simp add: t3)
    with gathers_created [OF c] g4 show ?thesis by (simp add: gathers_def gathered_def)
  qed
  with g3 have "gathers s (cv_text_parts s, dict_set (calls_of (cv_tool_states s)) k (call_of t2)) s'"
    by (simp add: gathers_def)
  then show ?thesis by (simp add: hear_call_def k call T(2))
qed

lemma gathers_tool_calls:
  "tool_calls_events vs n s = (Inr es, s') \<Longrightarrow>
   gathers s (cv_text_parts s, hear_calls vs n (calls_of (cv_tool_states s))) s'"
proof (induction vs arbitrary: n s es)
  case Nil
  then show ?case by (simp add: ret_ok gathers_def gathered_def)
next
  case (Cons v vs)
  from Cons.prems obtain tc where v: "v = JObj tc" by (cases v) (auto simp: json_object_def attempt_ok)
  with Cons.prems obtain e1 e2 s1 where 1: "tool_call_events tc n s = (Inr e1, s1)" "tool_calls_events vs (n + 1) s1 = (Inr e2, s')"
    by (auto elim!: bindE simp: ret_ok)
  from gathers_tool_call [OF 1(1)] Cons.IH [OF 1(2)] show ?case by (simp add: v gathers_def gathered_def)
qed

lemma gathers_source:
  assumes "source_events source s = (Inr es, s')"
  shows "gathers s (hear_source source (gathered s)) s'"
proof -
  from assms obtain e1 s1 e2 s2 e3 where
    1: "(case reasoning_texts source of [] \<Rightarrow> give [] | text # _ \<Rightarrow> reasoning_events text) s = (Inr e1, s1)"
    and 2: "content_events source s1 = (Inr e2, s2)"
    and 3: "(case get_or_null source ''tool_calls'' of JNull \<Rightarrow> give []
           | JArr tool_calls \<Rightarrow> tool_calls_events tool_calls 0 | _ \<Rightarrow> attempt (Inl UNSUPPORTED_SEMANTICS)) s2 = (Inr e3, s')"
    unfolding source_events_def by (elim bind_attemptE bindE) (simp add: ret_ok)
  have "gathers s (gathered s) s1" using 1 by (auto simp: ret_ok gathers_reasoning split: list.splits)
  with gathers_content [OF 2] have s2: "gathers s (cv_text_parts s @ hear_text (text_or_empty source ''content''), calls_of (cv_tool_states s)) s2"
    by (simp add: gathers_def gathered_def)
  show ?thesis
  proof (cases "dict_get source ''tool_calls''")
    case None
    with 3 have "s' = s2" by (simp add: get_or_null_def ret_ok)
    with s2 None show ?thesis by (simp add: hear_source_def gathered_def)
  next
    case (Some v)
    with 3 consider "v = JNull" "s' = s2" | vs where "v = JArr vs" "tool_calls_events vs 0 s2 = (Inr e3, s')"
      by (cases v) (auto simp: get_or_null_def action_ok)
    then show ?thesis
    proof cases
      case 1
      with s2 Some show ?thesis by (simp add: hear_source_def gathered_def)
    next
      case 2
      with gathers_tool_calls [OF 2(2)] s2 Some show ?thesis
        by (simp add: hear_source_def gathers_def gathered_def)
    qed
  qed
qed

lemma gathers_choices: "choices_events vs s = (Inr es, s') \<Longrightarrow> gathers s (hear_choices vs (gathered s)) s'"
proof (induction vs arbitrary: s es)
  case Nil
  then show ?case by (simp add: ret_ok)
next
  case (Cons v vs)
  show ?case
  proof (cases "json_object v")
    case None
    with Cons show ?thesis by simp
  next
    case (Some choice)
    with Cons.prems obtain e1 s1 u s2 e2 where
      1: "(case chat_stream_source choice of None \<Rightarrow> give [] | Some source \<Rightarrow> source_events source) s = (Inr e1, s1)"
      and 2: "note_finish (get_or_null choice ''finish_reason'') s1 = (Inr u, s2)"
      and 3: "choices_events vs s2 = (Inr e2, s')"
      by (auto elim!: bindE simp: ret_ok)
    have g2: "gathers s1 (gathered s1) s2" using note_finish_frame [OF 2] by (auto intro: gathers_same)
    have g1: "gathers s (case chat_stream_source choice of None \<Rightarrow> gathered s | Some source \<Rightarrow> hear_source source (gathered s)) s1"
      using 1 by (auto simp: ret_ok gathers_source split: option.splits)
    from g1 g2 Cons.IH [OF 3] Some show ?thesis by (simp add: gathers_def)
  qed
qed

lemma gathers_chunk:
  assumes "\<not> cv_completed s" and "events_for_chunk chunk s = (Inr es, s')"
  shows "gathers s (hear_choices (chunk_choices chunk) (gathered s)) s'"
  using assms(2,1)
proof (cases rule: events_for_chunkE)
  case (usage u)
  then have "gathers s (gathered s) s'" by (auto intro: gathers_same)
  with usage(1) show ?thesis by simp
next
  case (choices m c)
  from gathers_choices [OF this] show ?thesis by (simp add: gathers_def gathered_def ordered_def)
qed

lemma gathers_chunks:
  "simulates s p \<Longrightarrow> convert_chunks chunks s = (Inr es, s') \<Longrightarrow> gathers s (hear_chunks chunks (gathered s)) s'"
proof (induction chunks arbitrary: s p es)
  case Nil
  then show ?case by (simp add: ret_ok hear_chunks_def)
next
  case (Cons chunk chunks)
  obtain e1 s1 e2 where 1: "events_for_chunk chunk s = (Inr e1, s1)" "convert_chunks chunks s1 = (Inr e2, s')"
    by (rule convert_ConsE [OF Cons.prems(2)])
  obtain p1 where "simulates s1 p1" using run_chunk [OF Cons.prems(1) 1(1)] by blast
  from Cons.IH [OF this 1(2)] gathers_chunk [OF _ 1(1)] Cons.prems(1) show ?case
    by (simp add: simulates_def converter_ok_def gathers_def hear_chunks_def)
qed

lemma gathered_said:
  assumes "convert_chunks chunks (new_chat_converter now response_id item_id reasoning_id) = (Inr es, s)"
  shows "calls_said chunks = map (call_of \<circ> snd) (cv_tool_states s)" "text_said chunks = concat (cv_text_parts s)"
    "gathered s = hear_chunks chunks ([], [])" "ordered s"
proof -
  have "gathered (new_chat_converter now response_id item_id reasoning_id) = ([], [])"
    "ordered (new_chat_converter now response_id item_id reasoning_id)"
    by (simp_all add: gathered_def calls_of_def new_chat_converter_def ordered_def)
  with gathers_chunks [OF simulates_begin assms] show g: "gathered s = hear_chunks chunks ([], [])" and "ordered s"
    by (simp_all add: gathers_def)
  then show "calls_said chunks = map (call_of \<circ> snd) (cv_tool_states s)" "text_said chunks = concat (cv_text_parts s)"
    by (simp_all add: calls_said_def text_said_def gathered_def calls_of_def split_def flip: g)
qed

section \<open>The items of a completed stream\<close>

text \<open>The items reported done, those of reasoning left aside: kind, call id, name, and text or arguments.\<close>

type_synonym done_report = "string option \<times> string option \<times> string option \<times> string option"

definition done_item :: "obj \<Rightarrow> done_report list" where
  "done_item event =
     (if text_field event ''type'' = Some ''response.output_item.done''
      then (case object_field event ''item'' of
              None \<Rightarrow> []
            | Some item \<Rightarrow>
                (if text_field item ''type'' = Some ''reasoning'' then []
                 else [(text_field item ''type'', text_field item ''call_id'', text_field item ''name'', item_text item)]))
      else [])"

definition done_items :: "obj list \<Rightarrow> done_report list" where
  "done_items events = concat (map done_item events)"

definition call_done :: "call \<Rightarrow> done_report" where
  "call_done c = (case c of (call_id, name, arguments) \<Rightarrow> (Some ''function_call'', Some call_id, Some name, Some arguments))"

definition message_done :: "string \<Rightarrow> done_report" where
  "message_done t = (Some ''message'', None, None, Some t)"

lemma done_items_simps [simp]:
  "done_items [] = []" "done_items (e # es) = done_item e @ done_items es" "done_items (es @ es') = done_items es @ done_items es'"
  by (simp_all add: done_items_def)

lemma done_item_other [simp]:
  "kind \<noteq> ''response.output_item.done'' \<Longrightarrow> done_item (response_event kind r) = []"
  "done_item (reasoning_done_event item_id i t) = []" "done_item (arguments_done_event item_id i t) = []"
  "done_item (text_done_event item_id i t) = []"
  "done_item (item_event ''response.output_item.done'' i (reasoning_item s status summary)) = []"
  by (simp_all add: done_item_def response_event_def item_event_def reasoning_done_event_def arguments_done_event_def
      text_done_event_def reasoning_item_def)

lemma done_item_call [simp]:
  "done_item (item_event ''response.output_item.done'' i (call_item t status arguments)) =
     [(Some ''function_call'', Some (ts_call_id t), Some (ts_name t), Some arguments)]"
  by (simp add: done_item_def item_event_def call_item_def item_text_def)

lemma done_item_message [simp]:
  "done_item (item_event ''response.output_item.done'' i (message_item s status [text_part t])) = [message_done t]"
  by (simp add: done_item_def item_event_def message_item_def item_text_def text_part_def part_text_def message_done_def)

text \<open>A stream whose items are all still open has reported none of them done.\<close>

lemma dict_set_some [simp]: "dict_set d k v \<noteq> []"
  by (cases d) (auto simp: dict_set_def)

definition keeps_items :: "protocol \<Rightarrow> protocol option \<Rightarrow> bool" where
  "keeps_items p r \<longleftrightarrow> (\<forall>p'. r = Some p' \<longrightarrow> pr_items p' = pr_items p)"

lemma accept_text_items: "accept_text kind i e p = Some p' \<Longrightarrow> pr_items p' = pr_items p"
  unfolding accept_text_def
  by (simp only: split: option.split_asm if_split_asm prod.split_asm)
    (simp_all only: option.inject option.distinct(1), (hypsubst_thin, simp)+)

lemma keeps_items_parts:
  "keeps_items p (accept_text kind i e p)" "keeps_items p (accept_added i e p)" "keeps_items p (accept_terminal e p)"
  by (auto simp: keeps_items_def accept_text_items accept_added_def accept_terminal_def split: if_splits option.splits)

lemma keeps_items_cases:
  "keeps_items p None" "keeps_items p (Some p)" "keeps_items p (Some (p\<lparr>pr_created := b\<rparr>))"
  "keeps_items p x \<Longrightarrow> keeps_items p y \<Longrightarrow> keeps_items p (if c then x else y)"
  "keeps_items p x \<Longrightarrow> (\<And>i. keeps_items p (f i)) \<Longrightarrow> keeps_items p (case v of None \<Rightarrow> x | Some i \<Rightarrow> f i)"
  by (auto simp: keeps_items_def split: option.split)

lemma accept_keeps_items:
  assumes "text_field e ''type'' = Some kind" and "kind \<noteq> ''response.output_item.done''"
  shows "keeps_items p (accept e p)"
  unfolding accept_def assms(1) option.case if_not_P [OF assms(2)]
  by (intro keeps_items_cases keeps_items_parts)

lemma accept_done_items:
  assumes "accept e p = Some p'" and "text_field e ''type'' = Some ''response.output_item.done''"
  shows "pr_items p' \<noteq> []"
proof -
  from assms obtain i where "accept_done i e p = Some p'"
    unfolding accept_def by (simp split: if_split_asm option.split_asm)
  then show ?thesis by (auto simp: accept_done_def split: if_splits option.splits)
qed

lemma accept_items:
  assumes a: "accept e p = Some p'" and none: "pr_items p' = []"
  shows "pr_items p = [] \<and> done_item e = []"
proof -
  from a obtain kind where kind: "text_field e ''type'' = Some kind" by (auto simp: accept_def split: option.splits)
  have "kind \<noteq> ''response.output_item.done''" using accept_done_items [OF a] kind none by auto
  with accept_keeps_items [OF kind this, of p] a kind none show ?thesis
    by (simp add: keeps_items_def done_item_def)
qed

lemma run_items: "run p es = Some p' \<Longrightarrow> pr_items p' = [] \<Longrightarrow> pr_items p = [] \<and> done_items es = []"
proof (induction es arbitrary: p)
  case (Cons e es)
  then obtain p1 where p1: "accept e p = Some p1" "run p1 es = Some p'" by (auto split: option.splits)
  from Cons.IH [OF p1(2) Cons.prems(2)] accept_items [OF p1(1)] show ?case by simp
qed simp

lemma done_created: "created_events s = (Inr es, s') \<Longrightarrow> done_items es = []"
  using created_events_ok(2) [of s es s'] by (auto split: if_splits)

lemma done_reasoning:
  "complete_reasoning s = (Inr (es, items), s') \<Longrightarrow> done_items es = [] \<and> s' = s"
  by (auto simp: complete_reasoning_def Let_def action_ok split: if_splits option.splits)

lemma done_tools:
  "complete_tools ents items s = (Inr (es, items'), s') \<Longrightarrow> (\<And>k t. (k, t) \<in> set ents \<Longrightarrow> tool_ok t) \<Longrightarrow>
   done_items es = map (call_done \<circ> call_of \<circ> snd) ents \<and> (\<exists>tl. s' = s\<lparr>cv_tool_states := tl\<rparr>)"
proof (induction ents arbitrary: items s es)
  case Nil
  then show ?case by (intro conjI exI [of _ "cv_tool_states s"]) (simp_all add: ret_ok)
next
  case (Cons kt ents)
  obtain k t where kt: "kt = (k, t)" by (cases kt)
  from Cons.prems(1) obtain e1 items1 s1 e2 where 1: "complete_tool (k, t) items s = (Inr (e1, items1), s1)"
    and 2: "complete_tools ents items1 s1 = (Inr (e2, items'), s')" and es: "es = e1 @ e2"
    unfolding kt by (rule complete_tools_ConsE)
  from Cons.prems(2) [of k t] have "tool_ok t" by (simp add: kt)
  note C = complete_tool_ok [OF 1 this]
  have "done_items e2 = map (call_done \<circ> call_of \<circ> snd) ents \<and> (\<exists>tl. s' = s1\<lparr>cv_tool_states := tl\<rparr>)"
    using Cons.prems(2) by (intro Cons.IH [OF 2]) (metis list.set_intros(2))
  with C(2,4) show ?case by (auto simp: es kt call_done_def call_of_def)
qed

lemma done_message:
  assumes "complete_message items s = (Inr (es, items'), s')"
  shows "done_items es = (if cv_message_started s then [message_done (concat (cv_text_parts s))] else [])"
  using assms by (auto simp: complete_message_def Let_def ret_ok)

lemma done_final:
  assumes sim: "simulates s p" and ord: "ordered s" and r: "events_for_done s = (Inr es, s')"
  shows "done_items es = map (call_done \<circ> call_of \<circ> snd) (cv_tool_states s)
    @ (if cv_text_parts s = [] then [] else [message_done (concat (cv_text_parts s))])"
proof -
  have ok: "converter_ok s" by (rule simulatesD(1) [OF sim])
  then have live: "\<not> cv_completed s" by (simp add: converter_ok_def)
  obtain e1 s1 e2 items1 s2 e3 items2 s3 e4 items3 s4 response where cr: "created_events (s\<lparr>cv_completed := True\<rparr>) = (Inr e1, s1)"
    and re: "complete_reasoning s1 = (Inr (e2, items1), s2)"
    and to: "complete_tools (sort_key (\<lambda>(_, t). ts_output_index t) (cv_tool_states s2)) items1 s2 = (Inr (e3, items2), s3)"
    and me: "complete_message items2 s3 = (Inr (e4, items3), s4)"
    and es: "es = e1 @ e2 @ e3 @ e4 @ [response_event
       (if cv_pending_incomplete s = Some True then ''response.incomplete'' else ''response.completed'') response]"
    by (rule events_for_doneE [OF r live])
  have s2: "cv_tool_states s2 = cv_tool_states s" "cv_text_parts s2 = cv_text_parts s" "cv_message_started s2 = cv_message_started s"
    using done_reasoning [OF re] created_events_ok(1) [OF cr] by auto
  have "sorted (map (\<lambda>(_, t). ts_output_index t) (cv_tool_states s))"
    using ord by (simp add: ordered_def o_def split_def)
  then have sort: "sort_key (\<lambda>(_, t). ts_output_index t) (cv_tool_states s2) = cv_tool_states s"
    unfolding s2 by (rule sort_key_id_if_sorted)
  have tok: "tool_ok t" if "(k, t) \<in> set (cv_tool_states s)" for k t
    using ok that by (auto simp: converter_ok_def)
  have "done_items e3 = map (call_done \<circ> call_of \<circ> snd) (cv_tool_states s) \<and> (\<exists>tl. s3 = s2\<lparr>cv_tool_states := tl\<rparr>)"
    by (rule done_tools [OF to [unfolded sort]]) (rule tok)
  then obtain tl where
    d3: "done_items e3 = map (call_done \<circ> call_of \<circ> snd) (cv_tool_states s)" and s3: "s3 = s2\<lparr>cv_tool_states := tl\<rparr>" by blast
  have "cv_text_parts s = [] \<longleftrightarrow> \<not> cv_message_started s" using ok by (simp add: converter_ok_def)
  then have "done_items e4 = (if cv_text_parts s = [] then [] else [message_done (concat (cv_text_parts s))])"
    using done_message [OF me] by (simp add: s3 s2)
  with d3 done_created [OF cr] done_reasoning [OF re] show ?thesis by (simp add: es)
qed

lemma said_pieces:
  "[] \<notin> set (fst h) \<Longrightarrow> [] \<notin> set (fst (hear_choices vs h))" "[] \<notin> set (fst h) \<Longrightarrow> [] \<notin> set (fst (hear_chunks chunks h))"
proof -
  show choices: "[] \<notin> set (fst (hear_choices vs h))" if "[] \<notin> set (fst h)" for vs h
    using that by (induction vs arbitrary: h) (auto simp: hear_source_def hear_text_def split: option.split)
  show "[] \<notin> set (fst (hear_chunks chunks h))" if "[] \<notin> set (fst h)"
    using that by (induction chunks arbitrary: h) (simp_all add: hear_chunks_def choices)
qed

text \<open>C6: What the chunks bring comes out exactly: the items reported done by all events of the conversion,
  those of reasoning left aside, are one function call for each call of the chunks, in the order of their
  first fragments, with the id and name its fragments gave and with all their arguments in order, and then
  the message with all pieces of text in order, if there was any; nothing is reported twice, and no other
  item.\<close>
theorem chat_stream_lossless:
  assumes "convert_chunks chunks (new_chat_converter now response_id item_id reasoning_id) = (Inr es, s)"
    and "events_for_done s = (Inr final, s')"
  shows "done_items (es @ final) = map call_done (calls_said chunks)
    @ (if text_said chunks = [] then [] else [message_done (text_said chunks)])"
proof -
  from run_chunks [OF simulates_begin assms(1)] obtain p where p: "run stream_begin es = Some p" "simulates s p" by blast
  note g = gathered_said [OF assms(1)]
  have "done_items es = []" using run_items [OF p(1)] simulatesD(3) [OF p(2)] by simp
  moreover have "[] \<notin> set (cv_text_parts s)"
    using said_pieces(2) [of "([], [])" chunks] by (simp add: gathered_def flip: g(3))
  then have "cv_text_parts s = [] \<longleftrightarrow> text_said chunks = []" by (cases "cv_text_parts s") (auto simp: g(2))
  ultimately show ?thesis using done_final [OF p(2) g(4) assms(2)] by (simp add: g(1,2) o_assoc)
qed

text \<open>Two calls whose fragments come mixed.\<close>

definition call_fragment :: "int \<Rightarrow> (string \<times> json) list \<Rightarrow> string \<Rightarrow> json" where
  "call_fragment k ids arguments =
     JObj ([(''index'', JInt k)] @ ids @ [(''function'', JObj ((if ids = [] then [] else [(''name'', JStr ''g'')])
       @ [(''arguments'', JStr arguments)]))])"

definition mixed_chunk :: obj where
  "mixed_chunk =
     [(''choices'', JArr [JObj [(''index'', JInt 0), (''delta'', JObj [(''tool_calls'', JArr
        [call_fragment 1 [(''id'', JStr ''b'')] ''{'', call_fragment 0 [(''id'', JStr ''a'')] ''[1'',
         call_fragment 1 [] ''}'', call_fragment 0 [] '']''])])]])]"

definition sample_done :: "obj list \<Rightarrow> bool" where
  "sample_done chunks =
     (case convert_chunks chunks (new_chat_converter 5 ''r'' ''m'' ''g'') of
        (Inr es, s) \<Rightarrow> (case events_for_done s of (Inr final, _) \<Rightarrow> True | _ \<Rightarrow> False)
      | _ \<Rightarrow> False)"

lemma sample_doneE:
  assumes "sample_done chunks"
  obtains es s final s' where "convert_chunks chunks (new_chat_converter 5 ''r'' ''m'' ''g'') = (Inr es, s)"
    "events_for_done s = (Inr final, s')"
  using assms by (auto simp: sample_done_def split: prod.splits sum.splits)

lemma sample_mixed: "sample_done [text_chunk, mixed_chunk]"
  by code_simp

theorem chat_stream_lossless_witness:
  "\<exists>es s final s'. convert_chunks [text_chunk, mixed_chunk] (new_chat_converter 5 ''r'' ''m'' ''g'') = (Inr es, s)
    \<and> events_for_done s = (Inr final, s')
    \<and> done_items (es @ final) = [call_done (''b'', ''g'', ''{}''), call_done (''a'', ''g'', ''[1]''), message_done ''Hi'']"
proof -
  obtain es s final s' where 1: "convert_chunks [text_chunk, mixed_chunk] (new_chat_converter 5 ''r'' ''m'' ''g'') = (Inr es, s)"
    "events_for_done s = (Inr final, s')"
    by (rule sample_doneE [OF sample_mixed])
  have "calls_said [text_chunk, mixed_chunk] = [(''b'', ''g'', ''{}''), (''a'', ''g'', ''[1]'')]"
    "text_said [text_chunk, mixed_chunk] = ''Hi''"
    by code_simp+
  with chat_stream_lossless [OF 1] 1 show ?thesis by auto
qed

section \<open>Reasoning that is lost\<close>

text \<open>A reasoning delta that repeats an earlier one is dropped, and so is the space around one.\<close>

definition reasoning_chunk :: "string \<Rightarrow> obj" where
  "reasoning_chunk t =
     [(''choices'', JArr [JObj [(''index'', JInt 0), (''delta'', JObj [(''reasoning_content'', JStr t)])]])]"

definition reasoning_deltas :: "string list \<Rightarrow> string list option" where
  "reasoning_deltas ts =
     (case convert_chunks (map reasoning_chunk ts) (new_chat_converter 5 ''r'' ''m'' ''g'') of
        (Inr es, _) \<Rightarrow>
          Some (List.map_filter (\<lambda>e. if text_field e ''type'' = Some ''response.reasoning_summary_text.delta''
                                    then text_field e ''delta'' else None) es)
      | _ \<Rightarrow> None)"

lemma strip_samples: "str_strip ''a'' = ''a''" "str_strip '' b'' = ''b''"
proof -
  show "str_strip ''a'' = ''a''"
    by (rule str_strip_trimmed) (simp add: trimmed_def ascii_text_def space_code_def)
  have "ascii_text '' b''" by (simp add: ascii_text_def)
  then show "str_strip '' b'' = ''b''" by (simp add: str_strip_ascii strip_by_def space_code_def)
qed

lemma reasoning_deltas_dropped: "reasoning_deltas [''a'', '' b'', ''a'', '' b''] = Some [''a'', ''b'']"
  by (simp add: reasoning_deltas_def new_chat_converter_def reasoning_chunk_def events_for_chunk_def bind_def ret_def attempt_def lift_result_def
   update_def change_def validate_chat_stream_choices_def is_usage_only_chunk_def note_envelope_def remember_unix_created_def
   unix_created_from_mappings_def get_or_null_def created_value_def  dict_has_def json_object_def chat_stream_source_def source_events_def
   reasoning_texts_def add_text_def strip_samples content_events_def note_finish_def reasoning_events_def created_events_def stamp_response_def
   guard_def object_field_def record_usage_def text_field_def prefix_def terminal_response_def py_int_def equals_int_def validate_chat_stream_source_def require_supported_fields_def raise_for_unsupported_semantics_def blank_def
   stamp_wire_timestamps_def stamp_nested_def stamp_created_field_def unix_created_timestamp_def is_number_def response_object_def reasoning_index_def
   allocate_output_index_def Let_def dict_simps optional_text_def hashable_def
   map_filter_def response_event_def item_event_def reasoning_delta_event_def)

end
