(* ===== verification/Responses_Stream.thy ===== *)
theory Responses_Stream
  imports Protocol_Base
begin

text \<open>
  \<open>ResponsesToChatStreamConverter\<close> of \<open>src-python/protocol_translation.py\<close>: Responses events become
  Chat Completions chunks, one event at a time.

  The converter is a record, its methods are actions on it.  The clock reading, the identifiers
  drawn for chunks of a response without one (\<open>rc_ids\<close>, numbered in the order they are drawn) and
  \<open>str\<close> of a value that is not a string (\<open>rc_str\<close>) are fields set at the construction.
\<close>

section \<open>Content and items\<close>

text \<open>\<open>responses_content_to_chat_content\<close>: a text, or the parts when there is an image.\<close>

datatype chat_content = Chat_Text string | Chat_Parts "json list"

datatype content_part = Text_Part string | Image_Part json

definition text_content_part :: "obj \<Rightarrow> string \<Rightarrow> wire_error + content_part" where
  "text_content_part part text =
     rbind (require_supported_fields part [''type'', ''text'', ''annotations'', ''logprobs'']) (\<lambda>_. Inr (Text_Part text))"

definition image_content_part :: "obj \<Rightarrow> string \<Rightarrow> wire_error + content_part" where
  "image_content_part part url =
     rbind (require_supported_fields part [''type'', ''image_url'', ''detail'']) (\<lambda>_.
       case get_or_null part ''detail'' of
         JStr detail \<Rightarrow> Inr (Image_Part (JObj [(''url'', JStr url), (''detail'', JStr detail)]))
       | JNull \<Rightarrow> Inr (Image_Part (JObj [(''url'', JStr url)]))
       | _ \<Rightarrow> Inl UNSUPPORTED_SEMANTICS)"

definition content_part :: "json \<Rightarrow> wire_error + content_part" where
  "content_part v =
     (case v of
        JObj part \<Rightarrow>
          (if \<not> hashable (get_or_null part ''type'') then Inl Unhashable
           else case (text_field part ''type'', text_field part ''text'', text_field part ''image_url'') of
             (Some kind, text, url) \<Rightarrow>
               (if List.member [''input_text'', ''output_text'', ''text''] kind \<and> text \<noteq> None
                then text_content_part part (the text)
                else if kind = ''input_image'' \<and> url \<noteq> None then image_content_part part (the url)
                else Inl UNSUPPORTED_SEMANTICS)
           | _ \<Rightarrow> Inl UNSUPPORTED_SEMANTICS)
      | _ \<Rightarrow> Inl UNSUPPORTED_SEMANTICS)"

fun content_parts :: "json list \<Rightarrow> wire_error + content_part list" where
  "content_parts [] = Inr []"
| "content_parts (v # vs) = rbind (content_part v) (\<lambda>p. rbind (content_parts vs) (\<lambda>ps. Inr (p # ps)))"

fun chat_part :: "content_part \<Rightarrow> json" where
  "chat_part (Text_Part t) = JObj [(''type'', JStr ''text''), (''text'', JStr t)]"
| "chat_part (Image_Part url) = JObj [(''type'', JStr ''image_url''), (''image_url'', url)]"

fun is_image :: "content_part \<Rightarrow> bool" where
  "is_image (Text_Part _) = False"
| "is_image (Image_Part _) = True"

fun part_fragment :: "content_part \<Rightarrow> string list" where
  "part_fragment (Text_Part t) = (if t = [] then [] else [t])"
| "part_fragment (Image_Part _) = []"

definition responses_content_to_chat_content :: "json \<Rightarrow> wire_error + chat_content" where
  "responses_content_to_chat_content v =
     (case v of
        JStr s \<Rightarrow> Inr (Chat_Text s)
      | JNull \<Rightarrow> Inr (Chat_Text [])
      | JArr vs \<Rightarrow>
          rbind (content_parts vs) (\<lambda>parts.
            Inr (if list_ex is_image parts then Chat_Parts (map chat_part parts)
                 else Chat_Text (join_with [CHR 0x0A] (concat (map part_fragment parts)))))
      | _ \<Rightarrow> Inl UNSUPPORTED_SEMANTICS)"

text \<open>A hosted tool's call as the function call a Chat client can see.\<close>

definition TOOL_BOUNDARY :: wire_error where "TOOL_BOUNDARY = Unsupported ''tool_compatibility_boundary''"

definition HOSTED_EVENT_STAGES :: "(string \<times> string) list" where
  "HOSTED_EVENT_STAGES =
     [(''web_search'', ''web_search_call''), (''web_search_preview'', ''web_search_call''),
      (''file_search'', ''file_search_call''), (''code_interpreter'', ''code_interpreter_call'')]"

definition hosted_event_chat_names :: "(string, string) dict" where
  "hosted_event_chat_names =
     foldl (\<lambda>names (kind, event_kind).
       if dict_has names event_kind \<and> kind \<noteq> ''web_search'' then names else dict_set names event_kind kind)
       [] HOSTED_EVENT_STAGES"

definition HOSTED_CALL_META :: "string list" where
  "HOSTED_CALL_META =
     [''id'', ''type'', ''status'', ''call_id'', ''name'', ''encrypted_content'', ''encrypted_function_args'',
      ''encrypted_input'', ''encrypted_output'']"

definition call_id_of :: "obj \<Rightarrow> wire_error + string" where
  "call_id_of item =
     (case non_empty_str (dict_get item ''call_id'') of
        Some c \<Rightarrow> Inr c
      | None \<Rightarrow> (case non_empty_str (dict_get item ''id'') of Some i \<Rightarrow> Inr i | None \<Rightarrow> Inl TOOL_BOUNDARY))"

definition collapse_hosted_call :: "obj \<Rightarrow> string \<Rightarrow> wire_error + obj" where
  "collapse_hosted_call item chat_name =
     rbind (call_id_of item) (\<lambda>call_id.
       Inr ([(''type'', JStr ''function_call''), (''call_id'', JStr call_id), (''name'', JStr chat_name),
             (''arguments'', JStr (dumps (JObj (filter (\<lambda>(k, _). \<not> List.member HOSTED_CALL_META k) item))))]
            @ (case non_empty_str (dict_get item ''id'') of None \<Rightarrow> [] | Some i \<Rightarrow> [(''id'', JStr i)])
            @ (case text_field item ''status'' of None \<Rightarrow> [] | Some t \<Rightarrow> [(''status'', JStr t)])))"

definition collapse_hosted_item_for_chat :: "obj \<Rightarrow> wire_error + obj option" where
  "collapse_hosted_item_for_chat item =
     (if \<not> hashable (get_or_null item ''type'') then Inl Unhashable
      else case text_field item ''type'' of
        None \<Rightarrow> Inr None
      | Some kind \<Rightarrow>
          (if List.member [''computer_use_preview_call'', ''local_shell_call''] kind then Inl TOOL_BOUNDARY
           else case dict_get hosted_event_chat_names kind of
             None \<Rightarrow> Inr None
           | Some chat_name \<Rightarrow> rbind (collapse_hosted_call item chat_name) (\<lambda>c. Inr (Some c))))"

definition collapse_hosted_output_item :: "obj \<Rightarrow> wire_error + obj" where
  "collapse_hosted_output_item item =
     rbind (collapse_hosted_item_for_chat item) (\<lambda>c. Inr (case c of None \<Rightarrow> item | Some d \<Rightarrow> d))"

text \<open>\<open>_validated_responses_stream_output_item\<close>: a message, or a call's id, name and arguments.\<close>

datatype output_item = Message_Item | Function_Item string string string

definition validated_message :: "obj \<Rightarrow> wire_error + output_item" where
  "validated_message item =
     rbind (require_supported_fields item [''id'', ''type'', ''status'', ''role'', ''content'', ''phase'']) (\<lambda>_.
     rbind (responses_content_to_chat_content (get_or_null item ''content'')) (\<lambda>_. Inr Message_Item))"

definition validated_call :: "obj \<Rightarrow> wire_error + output_item" where
  "validated_call item =
     rbind (require_supported_fields item
       [''id'', ''type'', ''status'', ''call_id'', ''namespace'', ''name'', ''arguments'']) (\<lambda>_.
     (case (non_empty_str (dict_get item ''call_id''), non_empty_str (dict_get item ''name'')) of
        (None, _) \<Rightarrow> Inl UNPAIRED
      | (_, None) \<Rightarrow> Inl UNSUPPORTED_SEMANTICS
      | (Some call_id, Some name) \<Rightarrow>
          rbind (function_arguments item) (\<lambda>arguments. Inr (Function_Item call_id name arguments))))"

definition validated_output_item :: "json \<Rightarrow> wire_error + output_item" where
  "validated_output_item v =
     (case v of
        JObj given \<Rightarrow>
          rbind (collapse_hosted_output_item given) (\<lambda>item.
            if text_field item ''type'' = Some ''message'' then validated_message item
            else if text_field item ''type'' = Some ''function_call'' then validated_call item
            else Inl UNSUPPORTED_SEMANTICS)
      | _ \<Rightarrow> Inl UNSUPPORTED_SEMANTICS)"

definition function_argument_suffix :: "string \<Rightarrow> string \<Rightarrow> wire_error + string" where
  "function_argument_suffix current final =
     (if final = current then Inr []
      else if prefix current final then Inr (drop (length current) final)
      else Inl UNSUPPORTED_SEMANTICS)"

section \<open>State\<close>

record call_progress =
  fs_index :: nat
  fs_id :: string
  fs_name :: string
  fs_arguments :: string
  fs_header :: bool

record responses_converter =
  rc_now :: int
  rc_ids :: "nat \<Rightarrow> string"
  rc_str :: "json \<Rightarrow> string"
  rc_drawn :: nat
  rc_tool_states :: "(string, call_progress) dict"
  rc_model :: json
  rc_response_id :: json
  rc_created_at :: "int option"
  rc_completed :: bool
  rc_preserve :: bool
  rc_texts_emitted :: "string list"
  rc_raw_texts :: "(string \<times> int, string) dict"
  rc_visible :: bool

definition new_responses_converter :: "int \<Rightarrow> (nat \<Rightarrow> string) \<Rightarrow> (json \<Rightarrow> string) \<Rightarrow> bool \<Rightarrow> responses_converter" where
  "new_responses_converter now ids str_of preserve =
     \<lparr>rc_now = now, rc_ids = ids, rc_str = str_of, rc_drawn = 0, rc_tool_states = [], rc_model = JNull,
      rc_response_id = JNull, rc_created_at = None, rc_completed = False, rc_preserve = preserve,
      rc_texts_emitted = [], rc_raw_texts = [], rc_visible = False\<rparr>"

type_synonym 'a translating = "(responses_converter, wire_error, 'a) action"

abbreviation reply :: "'a \<Rightarrow> 'a translating" where "reply \<equiv> ret"

definition check :: "wire_error + 'a \<Rightarrow> 'a translating" where "check = lift_result"

definition modify :: "(responses_converter \<Rightarrow> responses_converter) \<Rightarrow> unit translating" where "modify = change"

definition stream_created :: "obj option \<Rightarrow> int translating" where
  "stream_created source s =
     bind (check (stable_unix_created (rc_now s) (rc_created_at s) [source])) (\<lambda>n.
     bind (modify (\<lambda>s. s\<lparr>rc_created_at := Some n\<rparr>)) (\<lambda>_. reply n)) s"

definition chunk_id :: "json translating" where
  "chunk_id s =
     (if truthy (rc_response_id s) then reply (rc_response_id s) s
      else reply (JStr (''chatcmpl_'' @ rc_ids s (rc_drawn s))) (s\<lparr>rc_drawn := rc_drawn s + 1\<rparr>))"

definition is_visible :: "obj \<Rightarrow> bool" where
  "is_visible delta \<longleftrightarrow> list_ex (dict_has delta) [''content'', ''reasoning_content'', ''tool_calls'']"

definition chunk_object :: "json \<Rightarrow> int \<Rightarrow> json \<Rightarrow> json list \<Rightarrow> obj" where
  "chunk_object i created model choices =
     [(''id'', i), (''object'', JStr ''chat.completion.chunk''), (''created'', JInt created), (''model'', model),
      (''choices'', JArr choices)]"

definition chunk_choice :: "obj \<Rightarrow> string option \<Rightarrow> json" where
  "chunk_choice delta finish =
     JObj [(''index'', JInt 0), (''delta'', JObj delta), (''finish_reason'', optional_text finish)]"

definition chunk :: "obj \<Rightarrow> string option \<Rightarrow> obj translating" where
  "chunk delta finish =
     bind (modify (\<lambda>s. if is_visible delta then s\<lparr>rc_visible := True\<rparr> else s)) (\<lambda>_.
     bind chunk_id (\<lambda>i.
     bind (stream_created None) (\<lambda>created s.
       reply (chunk_object i created (rc_model s) [chunk_choice delta finish]) s)))"

definition single :: "obj \<Rightarrow> obj list translating" where
  "single delta = bind (chunk delta None) (\<lambda>c. reply [c])"

definition put_progress :: "string \<Rightarrow> call_progress \<Rightarrow> unit translating" where
  "put_progress key p = modify (\<lambda>s. s\<lparr>rc_tool_states := dict_set (rc_tool_states s) key p\<rparr>)"

definition progress_for :: "string \<Rightarrow> call_progress translating" where
  "progress_for key s =
     (case dict_get (rc_tool_states s) key of
        Some p \<Rightarrow> reply p s
      | None \<Rightarrow>
          (let p = \<lparr>fs_index = length (rc_tool_states s), fs_id = [], fs_name = [], fs_arguments = [], fs_header = False\<rparr>
           in bind (put_progress key p) (\<lambda>_. reply p) s))"

definition header_delta :: "call_progress \<Rightarrow> string \<Rightarrow> obj" where
  "header_delta p arguments =
     [(''tool_calls'', JArr [JObj [(''index'', JInt (int (fs_index p))), (''id'', JStr (fs_id p)),
        (''type'', JStr ''function''),
        (''function'', JObj [(''name'', JStr (fs_name p)), (''arguments'', JStr arguments)])]])]"

definition arguments_delta :: "call_progress \<Rightarrow> string \<Rightarrow> obj" where
  "arguments_delta p arguments =
     [(''tool_calls'', JArr [JObj [(''index'', JInt (int (fs_index p))),
        (''function'', JObj [(''arguments'', JStr arguments)])]])]"

definition final_argument_chunks :: "string \<Rightarrow> call_progress \<Rightarrow> string \<Rightarrow> obj list translating" where
  "final_argument_chunks key p final =
     bind (check (guard (fs_header p) UNPAIRED)) (\<lambda>_.
     bind (check (function_argument_suffix (fs_arguments p) final)) (\<lambda>more.
       if more = [] then reply []
       else bind (put_progress key (p\<lparr>fs_arguments := fs_arguments p @ more\<rparr>)) (\<lambda>_.
              single (arguments_delta p more))))"

section \<open>Events\<close>

definition event_kind_in :: "obj \<Rightarrow> string list \<Rightarrow> bool" where
  "event_kind_in event kinds = (case text_field event ''type'' of None \<Rightarrow> False | Some k \<Rightarrow> List.member kinds k)"

definition is_reasoning_part :: "obj \<Rightarrow> bool" where
  "is_reasoning_part event \<longleftrightarrow>
     event_kind_in event [''response.content_part.added'', ''response.content_part.done'']
     \<and> (case object_field event ''part'' of None \<Rightarrow> False | Some part \<Rightarrow> text_field part ''type'' = Some ''reasoning_text'')"

definition has_post_terminal_semantics :: "obj \<Rightarrow> wire_error + bool" where
  "has_post_terminal_semantics event =
     (if \<not> hashable (get_or_null event ''type'') then Inl Unhashable
      else Inr (event_kind_in event
          [''response.output_text.delta'', ''response.reasoning_summary_text.delta'', ''response.reasoning_text.delta'',
           ''response.function_call_arguments.delta'', ''response.output_item.added'', ''response.failed'',
           ''response.incomplete'', ''error'', ''response.reasoning_text.done'']
        \<or> is_reasoning_part event))"

text \<open>\<open>_normalize_raw_reasoning_event\<close>: the event to handle and the raw texts.\<close>

definition raw_identity :: "obj \<Rightarrow> (string \<times> int) option" where
  "raw_identity event =
     (let v = (case dict_get event ''item_id'' of
                 Some v \<Rightarrow> v | None \<Rightarrow> (case dict_get event ''output_index'' of Some v \<Rightarrow> v | None \<Rightarrow> JInt 0));
          index = (case dict_get event ''content_index'' of Some v \<Rightarrow> v | None \<Rightarrow> JInt 0)
      in case (v, index) of
           (JStr i, JInt n) \<Rightarrow> (if 0 \<le> n then Some (i, n) else None)
         | (JInt i, JInt n) \<Rightarrow> (if 0 \<le> n then Some (int_text i, n) else None)
         | _ \<Rightarrow> None)"

definition normalize_raw_reasoning ::
    "bool \<Rightarrow> obj \<Rightarrow> (string \<times> int, string) dict \<Rightarrow> wire_error + (obj \<times> (string \<times> int, string) dict)" where
  "normalize_raw_reasoning enabled event texts =
     (if \<not> hashable (get_or_null event ''type'') then Inl Unhashable
      else if \<not> is_reasoning_part event
              \<and> \<not> event_kind_in event [''response.reasoning_text.delta'', ''response.reasoning_text.done'']
      then Inr (event, texts)
      else if \<not> enabled then Inl UNSUPPORTED_SEMANTICS
      else
        (let part = (case object_field event ''part'' of None \<Rightarrow> [] | Some p \<Rightarrow> p);
             text = (if is_reasoning_part event then text_field part ''text''
                     else if event_kind_in event [''response.reasoning_text.delta''] then text_field event ''delta''
                     else text_field event ''text'')
         in rbind (if is_reasoning_part event then require_supported_fields part [''type'', ''text''] else Inr ()) (\<lambda>_.
              case (text, raw_identity event) of
                (Some t, Some key) \<Rightarrow>
                  (let previous = (case dict_get texts key of None \<Rightarrow> [] | Some p \<Rightarrow> p);
                       delta_event = (\<lambda>d. [(''type'', JStr ''response.reasoning_summary_text.delta''), (''delta'', JStr d)])
                   in if event_kind_in event [''response.reasoning_text.delta'']
                      then Inr (delta_event t, dict_set texts key (previous @ t))
                      else if prefix previous t
                      then Inr (delta_event (drop (length previous) t), dict_set texts key t)
                      else Inl UNSUPPORTED_SEMANTICS)
              | _ \<Rightarrow> Inl UNSUPPORTED_SEMANTICS)))"

definition add_emitted :: "string list \<Rightarrow> string list \<Rightarrow> string list" where
  "add_emitted new texts = foldl (\<lambda>ts t. if List.member ts t then ts else ts @ [t]) texts new"

definition emit_reasoning :: "string \<Rightarrow> obj list translating" where
  "emit_reasoning t =
     bind (modify (\<lambda>s. s\<lparr>rc_texts_emitted := add_emitted [t] (rc_texts_emitted s)\<rparr>)) (\<lambda>_.
       single [(''reasoning_content'', JStr t)])"

text \<open>A text that was not sent yet.\<close>

definition emit_new_reasoning :: "string \<Rightarrow> obj list translating" where
  "emit_new_reasoning t s = (if t = [] \<or> List.member (rc_texts_emitted s) t then reply [] s else emit_reasoning t s)"

definition require_preserve :: "unit translating" where
  "require_preserve s = check (guard (rc_preserve s) UNSUPPORTED_SEMANTICS) s"

definition on_created :: "obj \<Rightarrow> obj list translating" where
  "on_created event =
     bind (case object_field event ''response'' of
             None \<Rightarrow> reply ()
           | Some response \<Rightarrow>
               bind (modify (\<lambda>s. s\<lparr>
                   rc_response_id := (if truthy (get_or_null response ''id'') then get_or_null response ''id'' else rc_response_id s),
                   rc_model := (if truthy (get_or_null response ''model'') then get_or_null response ''model'' else rc_model s)\<rparr>)) (\<lambda>_.
               bind (stream_created (Some response)) (\<lambda>_. reply ()))) (\<lambda>_.
       single [(''role'', JStr ''assistant'')])"

definition on_text_delta :: "obj \<Rightarrow> obj list translating" where
  "on_text_delta event =
     (case non_empty_str (dict_get event ''delta'') of
        None \<Rightarrow> reply []
      | Some t \<Rightarrow> single [(''content'', JStr t)])"

definition on_summary_delta :: "obj \<Rightarrow> obj list translating" where
  "on_summary_delta event =
     bind require_preserve (\<lambda>_.
       case text_field event ''delta'' of
         None \<Rightarrow> check (Inl UNSUPPORTED_SEMANTICS)
       | Some d \<Rightarrow> (if d = [] then reply [] else emit_reasoning d))"

definition on_summary_done :: "obj \<Rightarrow> obj list translating" where
  "on_summary_done event =
     bind require_preserve (\<lambda>_.
       case text_field event ''text'' of
         None \<Rightarrow> check (Inl UNSUPPORTED_SEMANTICS)
       | Some t \<Rightarrow> emit_new_reasoning t)"

definition on_content_part :: "obj \<Rightarrow> obj list translating" where
  "on_content_part event =
     (case object_field event ''part'' of
        None \<Rightarrow> check (Inl UNSUPPORTED_SEMANTICS)
      | Some part \<Rightarrow> bind (check (responses_content_to_chat_content (JArr [JObj part]))) (\<lambda>_. reply []))"

definition is_reasoning_item :: "json \<Rightarrow> bool" where
  "is_reasoning_item v = (case v of JObj item \<Rightarrow> text_field item ''type'' = Some ''reasoning'' | _ \<Rightarrow> False)"

definition item_object :: "json \<Rightarrow> obj" where
  "item_object v = (case v of JObj item \<Rightarrow> item | _ \<Rightarrow> [])"

definition accept_reasoning_item :: "obj \<Rightarrow> unit translating" where
  "accept_reasoning_item item =
     bind require_preserve (\<lambda>_. check (require_supported_fields item
       [''id'', ''type'', ''status'', ''summary'', ''content'', ''encrypted_content'']))"

text \<open>\<open>str(a or b)\<close>\<close>

definition or_value :: "json \<Rightarrow> json \<Rightarrow> json" where
  "or_value a b = (if truthy a then a else b)"

definition str_of :: "responses_converter \<Rightarrow> json \<Rightarrow> string" where
  "str_of s v = (case v of JStr t \<Rightarrow> t | JInt n \<Rightarrow> int_text n | _ \<Rightarrow> rc_str s v)"

definition announce_call :: "string \<Rightarrow> call_progress \<Rightarrow> string \<Rightarrow> obj list translating" where
  "announce_call key p arguments =
     (let p' = p\<lparr>fs_header := True\<rparr>
      in bind (put_progress key p') (\<lambda>_.
         bind (chunk (header_delta p' []) None) (\<lambda>c.
         bind (final_argument_chunks key p' arguments) (\<lambda>cs. reply (c # cs)))))"

definition on_call_added :: "obj \<Rightarrow> string \<Rightarrow> string \<Rightarrow> string \<Rightarrow> obj list translating" where
  "on_call_added item call_id name arguments s =
     (let key = str_of s (or_value (or_value (get_or_null item ''id'') (get_or_null item ''call_id'')) (JStr []))
      in bind (progress_for key) (\<lambda>p.
         bind (check (guard (fs_id p = [] \<or> fs_id p = call_id) UNPAIRED)) (\<lambda>_.
         bind (check (guard (fs_name p = [] \<or> fs_name p = name) UNSUPPORTED_SEMANTICS)) (\<lambda>_.
           let p' = p\<lparr>fs_id := call_id, fs_name := name\<rparr>
           in bind (put_progress key p') (\<lambda>_.
              if fs_id p' \<noteq> [] \<and> fs_name p' \<noteq> [] \<and> \<not> fs_header p' then announce_call key p' arguments
              else final_argument_chunks key p' arguments)))) s)"

definition on_item_added :: "obj \<Rightarrow> obj list translating" where
  "on_item_added event =
     (let v = get_or_null event ''item''
      in if is_reasoning_item v then bind (accept_reasoning_item (item_object v)) (\<lambda>_. reply [])
         else bind (check (validated_output_item v)) (\<lambda>i.
           case i of
             Message_Item \<Rightarrow> reply []
           | Function_Item call_id name arguments \<Rightarrow> on_call_added (item_object v) call_id name arguments))"

definition on_arguments_delta :: "obj \<Rightarrow> obj list translating" where
  "on_arguments_delta event s =
     (let key = str_of s (or_value (get_or_null event ''item_id'') (JStr []))
      in bind (progress_for key) (\<lambda>p.
           case get_or_null event ''delta'' of
             JNull \<Rightarrow> reply []
           | JStr d \<Rightarrow>
               (if d = [] then reply []
                else if fs_header p then
                  bind (put_progress key (p\<lparr>fs_arguments := fs_arguments p @ d\<rparr>)) (\<lambda>_. single (arguments_delta p d))
                else
                  bind (check (guard (fs_id p \<noteq> []) UNPAIRED)) (\<lambda>_.
                  bind (check (guard (fs_name p \<noteq> []) UNSUPPORTED_SEMANTICS)) (\<lambda>_.
                  bind (put_progress key (p\<lparr>fs_header := True, fs_arguments := fs_arguments p @ d\<rparr>)) (\<lambda>_.
                    single (header_delta p d)))))
           | _ \<Rightarrow> check (Inl UNSUPPORTED_SEMANTICS)) s)"

definition on_arguments_done :: "obj \<Rightarrow> obj list translating" where
  "on_arguments_done event s =
     (let key = str_of s (or_value (get_or_null event ''item_id'') (JStr []))
      in (case text_field event ''arguments'' of
            None \<Rightarrow> check (Inl UNSUPPORTED_SEMANTICS)
          | Some arguments \<Rightarrow>
              (case dict_get (rc_tool_states s) key of
                 None \<Rightarrow> check (Inl UNPAIRED)
               | Some p \<Rightarrow> final_argument_chunks key p arguments)) s)"

text \<open>The texts of a reasoning item's summary.\<close>

definition summary_texts :: "obj \<Rightarrow> wire_error + string list" where
  "summary_texts item =
     (case dict_get item ''summary'' of
        None \<Rightarrow> Inr []
      | Some (JArr parts) \<Rightarrow>
          Inr (List.map_filter (\<lambda>v. case v of JObj part \<Rightarrow> text_field part ''text'' | _ \<Rightarrow> None) parts)
      | Some (JStr _) \<Rightarrow> Inr []
      | Some (JObj _) \<Rightarrow> Inr []
      | _ \<Rightarrow> Inl Not_Iterable)"

definition first_new_text :: "string list \<Rightarrow> string list \<Rightarrow> string option" where
  "first_new_text emitted texts = find (\<lambda>t. t \<noteq> [] \<and> \<not> List.member emitted t) texts"

text \<open>A finished call agrees with what was announced.\<close>

definition finish_call :: "obj \<Rightarrow> string \<Rightarrow> string \<Rightarrow> string \<Rightarrow> obj list translating" where
  "finish_call item call_id name arguments s =
     (let key = str_of s (or_value (or_value (get_or_null item ''id'') (JStr call_id)) (JStr []))
      in (case dict_get (rc_tool_states s) key of
            None \<Rightarrow> check (Inl UNPAIRED)
          | Some p \<Rightarrow>
              bind (check (guard (fs_header p) UNPAIRED)) (\<lambda>_.
              bind (check (guard (fs_id p = call_id \<and> fs_name p = name) UNPAIRED)) (\<lambda>_.
                final_argument_chunks key p arguments))) s)"

definition on_item_done :: "obj \<Rightarrow> obj list translating" where
  "on_item_done event =
     (let v = get_or_null event ''item''
      in if is_reasoning_item v then
           bind (accept_reasoning_item (item_object v)) (\<lambda>_.
           bind (check (summary_texts (item_object v))) (\<lambda>texts s.
             (case first_new_text (rc_texts_emitted s) texts of
                None \<Rightarrow> reply [] | Some t \<Rightarrow> emit_reasoning t) s))
         else bind (check (validated_output_item v)) (\<lambda>i.
           case i of
             Message_Item \<Rightarrow> reply []
           | Function_Item call_id name arguments \<Rightarrow> finish_call (item_object v) call_id name arguments))"

fun emit_all_new :: "string list \<Rightarrow> obj list translating" where
  "emit_all_new [] = reply []"
| "emit_all_new (t # ts) = bind (emit_new_reasoning t) (\<lambda>c1. bind (emit_all_new ts) (\<lambda>c2. reply (c1 @ c2)))"

definition terminal_item :: "json \<Rightarrow> obj list translating" where
  "terminal_item v =
     (if is_reasoning_item v then
        bind (accept_reasoning_item (item_object v)) (\<lambda>_.
        bind (check (summary_texts (item_object v))) (\<lambda>texts. emit_all_new texts))
      else bind (check (validated_output_item v)) (\<lambda>i.
        case i of
          Message_Item \<Rightarrow> reply []
        | Function_Item call_id name arguments \<Rightarrow> finish_call (item_object v) call_id name arguments))"

fun terminal_items :: "json list \<Rightarrow> obj list translating" where
  "terminal_items [] = reply []"
| "terminal_items (v # vs) = bind (terminal_item v) (\<lambda>c1. bind (terminal_items vs) (\<lambda>c2. reply (c1 @ c2)))"

definition terminal_output :: "obj \<Rightarrow> wire_error + json list" where
  "terminal_output response =
     (case dict_get response ''output'' of
        None \<Rightarrow> Inr []
      | Some (JArr vs) \<Rightarrow> Inr vs
      | Some _ \<Rightarrow> Inl UNSUPPORTED_SEMANTICS)"

definition note_terminal_response :: "obj \<Rightarrow> unit translating" where
  "note_terminal_response response =
     bind (modify (\<lambda>s. s\<lparr>
         rc_response_id := (case non_empty_str (dict_get response ''id'') of None \<Rightarrow> rc_response_id s | Some i \<Rightarrow> JStr i),
         rc_model := (case non_empty_str (dict_get response ''model'') of None \<Rightarrow> rc_model s | Some m \<Rightarrow> JStr m)\<rparr>)) (\<lambda>_.
     bind (stream_created (Some response)) (\<lambda>_. reply ()))"

definition usage_chunks :: "obj option \<Rightarrow> obj list translating" where
  "usage_chunks usage =
     (case usage of
        None \<Rightarrow> reply []
      | Some u \<Rightarrow>
          bind chunk_id (\<lambda>i.
          bind (stream_created None) (\<lambda>created s.
            reply [chunk_object i created (rc_model s) [] @ [(''usage'', JObj (responses_usage_to_chat_usage u))]] s)))"

definition on_completed :: "obj \<Rightarrow> obj list translating" where
  "on_completed event =
     (let response = (case object_field event ''response'' of None \<Rightarrow> [] | Some r \<Rightarrow> r);
          given = object_field event ''response'' \<noteq> None
      in bind (if given then note_terminal_response response else reply ()) (\<lambda>_.
         bind (check (terminal_output response)) (\<lambda>items.
         bind (terminal_items items) (\<lambda>chunks s.
           bind (check (guard (\<not> (list_ex is_reasoning_item items \<and> \<not> rc_visible s)) UNSUPPORTED_SEMANTICS)) (\<lambda>_.
           bind (modify (\<lambda>s. s\<lparr>rc_completed := True\<rparr>)) (\<lambda>_.
           bind (chunk [] (Some (if list_ex (\<lambda>(_, p). fs_header p) (rc_tool_states s) then ''tool_calls'' else ''stop''))) (\<lambda>c.
           bind (usage_chunks (object_field response ''usage'')) (\<lambda>u.
             reply (chunks @ [c] @ u))))) s))))"

definition dispatch_response_event :: "obj \<Rightarrow> obj list translating" where
  "dispatch_response_event event =
     (case text_field event ''type'' of
        None \<Rightarrow> reply []
      | Some kind \<Rightarrow>
          (if List.member [''response.failed'', ''response.incomplete'', ''error''] kind
           then check (Inl (Unsupported ''upstream_response_failed''))
           else if kind = ''response.created'' then on_created event
           else if kind = ''response.output_text.delta'' then on_text_delta event
           else if kind = ''response.reasoning_summary_text.delta'' then on_summary_delta event
           else if kind = ''response.reasoning_summary_text.done'' then on_summary_done event
           else if kind = ''response.content_part.added'' \<or> kind = ''response.content_part.done'' then on_content_part event
           else if kind = ''response.output_item.added'' then on_item_added event
           else if kind = ''response.function_call_arguments.delta'' then on_arguments_delta event
           else if kind = ''response.function_call_arguments.done'' then on_arguments_done event
           else if kind = ''response.output_item.done'' then on_item_done event
           else if kind = ''response.completed'' then on_completed event
           else reply []))"

definition chunks_for_event :: "obj \<Rightarrow> obj list translating" where
  "chunks_for_event event s =
     (if rc_completed s then
        check (rbind (has_post_terminal_semantics event) (\<lambda>b. if b then Inl UNSUPPORTED_SEMANTICS else Inr [])) s
      else
        bind (check (normalize_raw_reasoning (rc_preserve s) event (rc_raw_texts s))) (\<lambda>(event', texts).
        bind (modify (\<lambda>s. s\<lparr>rc_raw_texts := texts,
                 rc_texts_emitted := add_emitted (map snd texts) (rc_texts_emitted s)\<rparr>)) (\<lambda>_.
          dispatch_response_event event')) s)"

text \<open>\<open>GatewayResponsesToChatStreamConverter\<close> maps the seam's errors onto transport errors.\<close>

definition gateway_chunks_for_event :: "obj \<Rightarrow> (responses_converter, gateway_error, obj list) action" where
  "gateway_chunks_for_event event s = (case chunks_for_event event s of (r, s') \<Rightarrow> (gateway_result r, s'))"

end
