(* ===== verification/Responses_Stream_Properties.thy ===== *)
theory Responses_Stream_Properties
  imports Responses_Stream
begin

text \<open>
  A Chat Completions client, as an automaton, reads every stream the converter of Responses events
  writes: the text and the calls it puts together are those of the events.
\<close>

section \<open>A client of a chunk stream\<close>

text \<open>The calls are by index: id, name and arguments.\<close>

record chat_client =
  cl_text :: string
  cl_reasoning :: "string list"
  cl_calls :: "(nat, string \<times> string \<times> string) dict"
  cl_finish :: "string option"
  cl_usage :: "obj option"

definition client_begin :: chat_client where
  "client_begin = \<lparr>cl_text = [], cl_reasoning = [], cl_calls = [], cl_finish = None, cl_usage = None\<rparr>"

definition field_or_empty :: "obj \<Rightarrow> string \<Rightarrow> string" where
  "field_or_empty d k = (case text_field d k of None \<Rightarrow> [] | Some t \<Rightarrow> t)"

text \<open>A call begins at an index not used before, with its id and its name; a fragment belongs to a call that has begun.\<close>

definition client_call :: "obj \<Rightarrow> chat_client \<Rightarrow> chat_client option" where
  "client_call call c =
     (case (dict_get call ''index'', object_field call ''function'') of
        (Some (JInt n), Some f) \<Rightarrow>
          (case (text_field call ''id'', text_field f ''name'', dict_get (cl_calls c) (nat n)) of
             (Some call_id, Some name, None) \<Rightarrow>
               Some (c\<lparr>cl_calls := dict_set (cl_calls c) (nat n) (call_id, name, field_or_empty f ''arguments'')\<rparr>)
           | (None, None, Some (call_id, name, arguments)) \<Rightarrow>
               Some (c\<lparr>cl_calls := dict_set (cl_calls c) (nat n) (call_id, name, arguments @ field_or_empty f ''arguments'')\<rparr>)
           | _ \<Rightarrow> None)
      | _ \<Rightarrow> None)"

definition client_delta :: "obj \<Rightarrow> chat_client \<Rightarrow> chat_client option" where
  "client_delta delta c =
     (let c' = c\<lparr>cl_text := cl_text c @ field_or_empty delta ''content'',
                 cl_reasoning := cl_reasoning c @ (case text_field delta ''reasoning_content'' of None \<Rightarrow> [] | Some t \<Rightarrow> [t])\<rparr>
      in case dict_get delta ''tool_calls'' of
           None \<Rightarrow> Some c'
         | Some (JArr [JObj call]) \<Rightarrow> client_call call c'
         | Some _ \<Rightarrow> None)"

text \<open>The finish reason is given once, says whether there are calls, and only the usage may follow it.\<close>

definition client_finish :: "json \<Rightarrow> chat_client \<Rightarrow> chat_client option" where
  "client_finish reason c =
     (case reason of
        JNull \<Rightarrow> Some c
      | JStr r \<Rightarrow> (if r = (if cl_calls c = [] then ''stop'' else ''tool_calls'') then Some (c\<lparr>cl_finish := Some r\<rparr>) else None)
      | _ \<Rightarrow> None)"

definition client_step :: "obj \<Rightarrow> chat_client \<Rightarrow> chat_client option" where
  "client_step x c =
     (case dict_get x ''choices'' of
        Some (JArr []) \<Rightarrow>
          (case object_field x ''usage'' of
             Some u \<Rightarrow> (if cl_finish c \<noteq> None \<and> cl_usage c = None then Some (c\<lparr>cl_usage := Some u\<rparr>) else None)
           | None \<Rightarrow> None)
      | Some (JArr [JObj choice]) \<Rightarrow>
          (case object_field choice ''delta'' of
             Some delta \<Rightarrow>
               (if cl_finish c \<noteq> None then None
                else Option.bind (client_delta delta c) (client_finish (get_or_null choice ''finish_reason'')))
           | None \<Rightarrow> None)
      | _ \<Rightarrow> None)"

fun client_run :: "chat_client \<Rightarrow> obj list \<Rightarrow> chat_client option" where
  "client_run c [] = Some c"
| "client_run c (x # xs) = Option.bind (client_step x c) (\<lambda>c'. client_run c' xs)"

lemma client_run_append: "client_run c xs = Some c' \<Longrightarrow> client_run c (xs @ ys) = client_run c' ys"
  by (induction xs arbitrary: c) (auto split: bind_splits)

lemma client_finish_None [simp]: "client_finish (optional_text None) = Some"
  by (simp add: client_finish_def optional_text_def fun_eq_iff)

lemma client_step_chunk:
  "cl_finish c = None \<Longrightarrow> client_step (chunk_object i n m [chunk_choice delta fin]) c
     = Option.bind (client_delta delta c) (client_finish (optional_text fin))"
  by (simp add: client_step_def chunk_object_def chunk_choice_def object_field_def get_or_null_def)

section \<open>What the converter remembers of the client\<close>

definition mirrors :: "(string, call_progress) dict \<Rightarrow> chat_client \<Rightarrow> bool" where
  "mirrors ts c \<longleftrightarrow>
     (\<forall>k p. dict_get ts k = Some p \<longrightarrow> fs_index p < length ts
        \<and> (if fs_header p then fs_id p \<noteq> [] \<and> fs_name p \<noteq> []
             \<and> dict_get (cl_calls c) (fs_index p) = Some (fs_id p, fs_name p, fs_arguments p)
           else fs_arguments p = [] \<and> dict_get (cl_calls c) (fs_index p) = None))
     \<and> (\<forall>k p k' p'. dict_get ts k = Some p \<longrightarrow> dict_get ts k' = Some p' \<longrightarrow> fs_index p = fs_index p' \<longrightarrow> k = k')
     \<and> (\<forall>i. dict_get (cl_calls c) i \<noteq> None \<longrightarrow> (\<exists>k p. dict_get ts k = Some p \<and> fs_index p = i \<and> fs_header p))
     \<and> distinct (map fst ts)"

lemma mirrorsD:
  assumes "mirrors ts c" and "dict_get ts k = Some p"
  shows "fs_index p < length ts"
    "fs_header p \<Longrightarrow> fs_id p \<noteq> []" "fs_header p \<Longrightarrow> fs_name p \<noteq> []"
    "fs_header p \<Longrightarrow> dict_get (cl_calls c) (fs_index p) = Some (fs_id p, fs_name p, fs_arguments p)"
    "\<not> fs_header p \<Longrightarrow> fs_arguments p = []" "\<not> fs_header p \<Longrightarrow> dict_get (cl_calls c) (fs_index p) = None"
  using assms by (auto simp: mirrors_def split: if_splits)

lemma mirrors_inj:
  "mirrors ts c \<Longrightarrow> dict_get ts k = Some p \<Longrightarrow> dict_get ts k' = Some p' \<Longrightarrow> fs_index p = fs_index p' \<Longrightarrow> k = k'"
  unfolding mirrors_def by blast

lemma mirrors_new:
  assumes m: "mirrors ts c" and new: "dict_get ts key = None"
    and p: "fs_index p = length ts" "\<not> fs_header p" "fs_arguments p = []"
  shows "mirrors (dict_set ts key p) c"
proof -
  have unused: "dict_get (cl_calls c) (length ts) = None"
  proof (rule ccontr)
    assume "dict_get (cl_calls c) (length ts) \<noteq> None"
    then obtain k q where "dict_get ts k = Some q" "fs_index q = length ts" using m unfolding mirrors_def by blast
    with mirrorsD(1) [OF m, of k q] show False by simp
  qed
  have less: "fs_index q < length ts" if "dict_get ts k = Some q" for k q by (rule mirrorsD(1) [OF m that])
  have "\<forall>k q. dict_get (dict_set ts key p) k = Some q \<longrightarrow> fs_index q < length (dict_set ts key p)
        \<and> (if fs_header q then fs_id q \<noteq> [] \<and> fs_name q \<noteq> []
             \<and> dict_get (cl_calls c) (fs_index q) = Some (fs_id q, fs_name q, fs_arguments q)
           else fs_arguments q = [] \<and> dict_get (cl_calls c) (fs_index q) = None)"
    using m p unused new by (auto simp: mirrors_def dict_simps length_dict_set less_SucI)
  moreover have "k = k'" if "dict_get (dict_set ts key p) k = Some q" "dict_get (dict_set ts key p) k' = Some q'"
    "fs_index q = fs_index q'" for k q k' q'
    using that p(1) less [of k q] less [of k' q'] mirrors_inj [OF m, of k q k' q']
    by (auto simp: dict_simps split: if_splits)
  moreover have "\<exists>k q. dict_get (dict_set ts key p) k = Some q \<and> fs_index q = i \<and> fs_header q"
    if "dict_get (cl_calls c) i \<noteq> None" for i
  proof -
    from that obtain k q where kq: "dict_get ts k = Some q" "fs_index q = i" "fs_header q" using m unfolding mirrors_def by blast
    with new have "k \<noteq> key" by auto
    with kq show ?thesis by (intro exI [of _ k] exI [of _ q]) (simp add: dict_simps)
  qed
  moreover have "distinct (map fst (dict_set ts key p))" using m by (simp add: mirrors_def distinct_dict_set)
  ultimately show ?thesis unfolding mirrors_def by blast
qed

text \<open>The client learns more of one call.\<close>

lemma mirrors_put:
  assumes m: "mirrors ts c" and old: "dict_get ts key = Some p0" and i: "fs_index p = fs_index p0"
    and c': "dict_get (cl_calls c') = (if fs_header p then (dict_get (cl_calls c))(fs_index p \<mapsto> (fs_id p, fs_name p, fs_arguments p))
      else dict_get (cl_calls c))"
    and p: "fs_header p \<Longrightarrow> fs_id p \<noteq> []" "fs_header p \<Longrightarrow> fs_name p \<noteq> []"
      "\<not> fs_header p \<Longrightarrow> \<not> fs_header p0" "\<not> fs_header p \<Longrightarrow> fs_arguments p = []"
  shows "mirrors (dict_set ts key p) c'"
proof -
  have len: "length (dict_set ts key p) = length ts" using old by (simp add: length_dict_set)
  have other: "fs_index q \<noteq> fs_index p" if "dict_get ts k = Some q" "k \<noteq> key" for k q
    using mirrors_inj [OF m that(1) old] that(2) i by auto
  have one: "fs_index q < length (dict_set ts key p)
        \<and> (if fs_header q then fs_id q \<noteq> [] \<and> fs_name q \<noteq> []
             \<and> dict_get (cl_calls c') (fs_index q) = Some (fs_id q, fs_name q, fs_arguments q)
           else fs_arguments q = [] \<and> dict_get (cl_calls c') (fs_index q) = None)"
    if q: "dict_get (dict_set ts key p) k = Some q" for k q
  proof (cases "k = key")
    case True
    with q have [simp]: "q = p" by (simp add: dict_simps)
    show ?thesis using mirrorsD [OF m old] p i by (simp add: len c')
  next
    case False
    with q have q': "dict_get ts k = Some q" by (simp add: dict_simps)
    show ?thesis using mirrorsD [OF m q'] other [OF q' False] by (simp add: len c')
  qed
  moreover have "k = k'" if "dict_get (dict_set ts key p) k = Some q" "dict_get (dict_set ts key p) k' = Some q'"
    "fs_index q = fs_index q'" for k q k' q'
    using that other [of k q] other [of k' q'] mirrors_inj [OF m, of k q k' q']
    by (auto simp: dict_simps split: if_splits)
  moreover have "\<exists>k q. dict_get (dict_set ts key p) k = Some q \<and> fs_index q = j \<and> fs_header q"
    if j: "dict_get (cl_calls c') j \<noteq> None" for j
  proof (cases "fs_header p \<and> j = fs_index p")
    case True
    then show ?thesis by (intro exI [of _ key] exI [of _ p]) (simp add: dict_simps)
  next
    case False
    with j have "dict_get (cl_calls c) j \<noteq> None" by (auto simp: c' split: if_splits)
    then obtain k q where kq: "dict_get ts k = Some q" "fs_index q = j" "fs_header q" using m unfolding mirrors_def by blast
    have "k \<noteq> key"
    proof
      assume "k = key"
      with kq old have "q = p0" by simp
      with kq False i p(3) show False by auto
    qed
    with kq show ?thesis by (intro exI [of _ k] exI [of _ q]) (simp add: dict_simps)
  qed
  moreover have "distinct (map fst (dict_set ts key p))" using m by (simp add: mirrors_def distinct_dict_set)
  ultimately show ?thesis unfolding mirrors_def by blast
qed

text \<open>A client that has not finished reads the chunks, hears the text and knows the calls.\<close>

definition follows :: "chat_client \<Rightarrow> obj list \<Rightarrow> string \<Rightarrow> (string, call_progress) dict \<Rightarrow> bool" where
  "follows c cs t ts \<longleftrightarrow>
     (\<exists>c'. client_run c cs = Some c' \<and> mirrors ts c' \<and> cl_text c' = cl_text c @ t \<and> cl_finish c' = None \<and> cl_usage c' = cl_usage c)"

lemma follows_Nil: "mirrors ts c \<Longrightarrow> cl_finish c = None \<Longrightarrow> follows c [] [] ts"
  by (simp add: follows_def)

lemma follows_append:
  assumes "follows c cs t ts" and "\<And>c'. mirrors ts c' \<Longrightarrow> cl_finish c' = None \<Longrightarrow> follows c' cs' t' ts'"
  shows "follows c (cs @ cs') (t @ t') ts'"
proof -
  from assms(1) obtain c1 where c1: "client_run c cs = Some c1" "mirrors ts c1" "cl_text c1 = cl_text c @ t" "cl_finish c1 = None"
    "cl_usage c1 = cl_usage c"
    unfolding follows_def by blast
  from assms(2) [OF c1(2,4)] obtain c2 where "client_run c1 cs' = Some c2" "mirrors ts' c2" "cl_text c2 = cl_text c1 @ t'"
    "cl_finish c2 = None" "cl_usage c2 = cl_usage c1"
    unfolding follows_def by blast
  with c1 client_run_append [OF c1(1)] show ?thesis unfolding follows_def by auto
qed

lemma follows_oneI:
  "client_step x c = Some c' \<Longrightarrow> mirrors ts c' \<Longrightarrow> cl_text c' = cl_text c @ t \<Longrightarrow> cl_finish c' = None \<Longrightarrow> cl_usage c' = cl_usage c \<Longrightarrow>
   follows c [x] t ts"
  by (simp add: follows_def)

section \<open>Chunks\<close>

lemma check_ok [action_ok]: "check r s = (Inr a, s') \<longleftrightarrow> r = Inr a \<and> s' = s"
  by (auto simp: check_def lift_result_def)

lemma modify_ok [action_ok]: "modify f s = (Inr u, s') \<longleftrightarrow> s' = f s"
  by (auto simp: modify_def change_def)

lemma bind_checkE:
  assumes "bind (check r) f s = (Inr b, s'')"
  obtains a where "r = Inr a" "f a s = (Inr b, s'')"
  using assms by (auto elim!: bindE simp: check_ok)

lemma bind_modifyE:
  assumes "bind (modify g) f s = (Inr b, s'')"
  obtains "f () (g s) = (Inr b, s'')"
  using assms by (auto elim!: bindE simp: modify_ok)

text \<open>Fields that only serve the envelope of a chunk.\<close>

definition envelope_only :: "responses_converter \<Rightarrow> responses_converter \<Rightarrow> bool" where
  "envelope_only s s' \<longleftrightarrow>
     rc_tool_states s' = rc_tool_states s \<and> rc_completed s' = rc_completed s
     \<and> rc_texts_emitted s' = rc_texts_emitted s \<and> rc_preserve s' = rc_preserve s \<and> rc_raw_texts s' = rc_raw_texts s
     \<and> rc_str s' = rc_str s"

lemma envelope_refl [simp]: "envelope_only s s"
  by (simp add: envelope_only_def)

lemma envelope_trans: "envelope_only s s' \<Longrightarrow> envelope_only s' s'' \<Longrightarrow> envelope_only s s''"
  by (simp add: envelope_only_def)

lemma stream_created_ok: "stream_created source s = (Inr n, s') \<Longrightarrow> envelope_only s s'"
  unfolding stream_created_def by (elim bind_checkE bind_modifyE) (auto simp: ret_ok envelope_only_def)

lemma chunk_id_ok: "chunk_id s = (Inr i, s') \<Longrightarrow> envelope_only s s'"
  by (auto simp: chunk_id_def ret_ok envelope_only_def split: if_splits)

lemma chunk_ok:
  assumes "chunk delta fin s = (Inr x, s')"
  shows "envelope_only s s'" "\<exists>i n m. x = chunk_object i n m [chunk_choice delta fin]"
proof -
  let ?s = "if is_visible delta then s\<lparr>rc_visible := True\<rparr> else s"
  from assms obtain i s1 n s2 where 1: "chunk_id ?s = (Inr i, s1)" and 2: "stream_created None s1 = (Inr n, s2)"
    and 3: "reply (chunk_object i n (rc_model s2) [chunk_choice delta fin]) s2 = (Inr x, s')"
    unfolding chunk_def by (elim bind_modifyE bindE)
  have "envelope_only s ?s" by (simp add: envelope_only_def)
  with chunk_id_ok [OF 1] stream_created_ok [OF 2] 3 show "envelope_only s s'"
    by (auto simp: ret_ok intro: envelope_trans)
  from 3 show "\<exists>i n m. x = chunk_object i n m [chunk_choice delta fin]" by (auto simp: ret_ok)
qed

lemma single_ok:
  assumes "single delta s = (Inr cs, s')"
  shows "envelope_only s s'" "\<exists>i n m. cs = [chunk_object i n m [chunk_choice delta None]]"
proof -
  from assms obtain x where "chunk delta None s = (Inr x, s')" "cs = [x]"
    unfolding single_def by (auto elim!: bindE simp: ret_ok)
  with chunk_ok [OF this(1)] show "envelope_only s s'" "\<exists>i n m. cs = [chunk_object i n m [chunk_choice delta None]]" by auto
qed

lemma mirrors_calls: "cl_calls c' = cl_calls c \<Longrightarrow> mirrors ts c' = mirrors ts c"
  unfolding mirrors_def by simp

lemma single_plain:
  assumes r: "single delta s = (Inr cs, s')" and m: "mirrors (rc_tool_states s) c" "cl_finish c = None"
    and d: "dict_get delta ''tool_calls'' = None"
  shows "follows c cs (field_or_empty delta ''content'') (rc_tool_states s')"
proof -
  from single_ok(2) [OF r] obtain i n mo where cs: "cs = [chunk_object i n mo [chunk_choice delta None]]" by blast
  have ts: "rc_tool_states s' = rc_tool_states s" using single_ok(1) [OF r] by (simp add: envelope_only_def)
  let ?c = "c\<lparr>cl_text := cl_text c @ field_or_empty delta ''content'',
      cl_reasoning := cl_reasoning c @ (case text_field delta ''reasoning_content'' of None \<Rightarrow> [] | Some t \<Rightarrow> [t])\<rparr>"
  show ?thesis unfolding cs ts
  proof (rule follows_oneI)
    show "client_step (chunk_object i n mo [chunk_choice delta None]) c = Some ?c"
      using m(2) d by (simp add: client_step_chunk client_delta_def)
    show "mirrors (rc_tool_states s) ?c" using m(1) mirrors_calls [of ?c c] by simp
  qed (use m(2) in simp_all)
qed

lemma field_or_empty_Cons [simp]:
  "field_or_empty ((k, v) # d) k' = (if k' = k then (case v of JStr t \<Rightarrow> t | _ \<Rightarrow> []) else field_or_empty d k')"
  by (simp add: field_or_empty_def text_field_def split: json.split)

lemma field_or_empty_Nil [simp]: "field_or_empty [] k = []"
  by (simp add: field_or_empty_def text_field_def)

lemma client_header:
  assumes "dict_get (cl_calls c) (fs_index p) = None"
  shows "client_delta (header_delta p a) c
    = Some (c\<lparr>cl_calls := dict_set (cl_calls c) (fs_index p) (fs_id p, fs_name p, a)\<rparr>)"
  using assms by (simp add: client_delta_def header_delta_def client_call_def text_field_def object_field_def)

lemma client_fragment:
  assumes "dict_get (cl_calls c) (fs_index p) = Some (i, n, a)"
  shows "client_delta (arguments_delta p d) c = Some (c\<lparr>cl_calls := dict_set (cl_calls c) (fs_index p) (i, n, a @ d)\<rparr>)"
  using assms by (simp add: client_delta_def arguments_delta_def client_call_def text_field_def object_field_def)

text \<open>A call is announced, or gets more arguments.\<close>

lemma follows_header:
  assumes m: "mirrors ts c" "cl_finish c = None" and old: "dict_get ts key = Some p0" "\<not> fs_header p0"
    and p: "p = p0\<lparr>fs_id := ci, fs_name := cn, fs_header := True, fs_arguments := a\<rparr>" "ci \<noteq> []" "cn \<noteq> []"
  shows "follows c [chunk_object i n mo [chunk_choice (header_delta p a) None]] [] (dict_set ts key p)"
proof (rule follows_oneI)
  let ?c = "c\<lparr>cl_calls := dict_set (cl_calls c) (fs_index p) (fs_id p, fs_name p, a)\<rparr>"
  have free: "dict_get (cl_calls c) (fs_index p) = None" using mirrorsD(6) [OF m(1) old(1,2)] p(1) by simp
  show "client_step (chunk_object i n mo [chunk_choice (header_delta p a) None]) c = Some ?c"
    using m(2) client_header [OF free, of a] by (simp add: client_step_chunk)
  show "mirrors (dict_set ts key p) ?c"
    by (rule mirrors_put [OF m(1) old(1)]) (use p in \<open>simp_all add: dict_simps fun_eq_iff\<close>)
qed (use m in simp_all)

lemma follows_fragment:
  assumes m: "mirrors ts c" "cl_finish c = None" and old: "dict_get ts key = Some p0" "fs_header p0"
    and p: "p = p0\<lparr>fs_arguments := fs_arguments p0 @ d\<rparr>"
  shows "follows c [chunk_object i n mo [chunk_choice (arguments_delta p0 d) None]] [] (dict_set ts key p)"
proof (rule follows_oneI)
  let ?c = "c\<lparr>cl_calls := dict_set (cl_calls c) (fs_index p0) (fs_id p0, fs_name p0, fs_arguments p0 @ d)\<rparr>"
  note D = mirrorsD [OF m(1) old(1)]
  show "client_step (chunk_object i n mo [chunk_choice (arguments_delta p0 d) None]) c = Some ?c"
    using m(2) client_fragment [OF D(4) [OF old(2)], of d] by (simp add: client_step_chunk)
  show "mirrors (dict_set ts key p) ?c"
    by (rule mirrors_put [OF m(1) old(1)]) (use p old(2) D(2,3) in \<open>simp_all add: dict_simps fun_eq_iff\<close>)
qed (use m in simp_all)

lemma put_progress_ok: "put_progress key p s = (Inr u, s') \<Longrightarrow> s' = s\<lparr>rc_tool_states := dict_set (rc_tool_states s) key p\<rparr>"
  by (simp add: put_progress_def modify_ok)

lemma function_argument_suffix_ok:
  "function_argument_suffix current final = Inr extra \<Longrightarrow> final = current @ extra"
  by (auto simp: function_argument_suffix_def split: if_splits dest: prefix_drop)

text \<open>Only the calls may change besides the envelope.\<close>

definition calls_only :: "responses_converter \<Rightarrow> responses_converter \<Rightarrow> bool" where
  "calls_only s s' \<longleftrightarrow>
     rc_completed s' = rc_completed s \<and> rc_texts_emitted s' = rc_texts_emitted s \<and> rc_preserve s' = rc_preserve s
     \<and> rc_raw_texts s' = rc_raw_texts s \<and> rc_str s' = rc_str s"

lemma calls_only_trans: "calls_only s s' \<Longrightarrow> calls_only s' s'' \<Longrightarrow> calls_only s s''"
  by (simp add: calls_only_def)

lemma calls_only_put [simp]: "calls_only s (s\<lparr>rc_tool_states := ts\<rparr>)"
  by (simp add: calls_only_def)

lemma envelope_calls: "envelope_only s s' \<Longrightarrow> calls_only s s'"
  by (simp add: envelope_only_def calls_only_def)

lemma final_arguments_ok:
  assumes r: "final_argument_chunks key p final s = (Inr cs, s')" and p: "dict_get (rc_tool_states s) key = Some p"
  shows "fs_header p" "calls_only s s'"
    "dict_get (rc_tool_states s') = (dict_get (rc_tool_states s))(key \<mapsto> p\<lparr>fs_arguments := final\<rparr>)"
    "mirrors (rc_tool_states s) c \<Longrightarrow> cl_finish c = None \<Longrightarrow> follows c cs [] (rc_tool_states s')"
proof -
  from r obtain u extra where h: "guard (fs_header p) UNPAIRED = Inr u" and extra: "function_argument_suffix (fs_arguments p) final = Inr extra"
    and rest: "(if extra = [] then reply []
       else bind (put_progress key (p\<lparr>fs_arguments := fs_arguments p @ extra\<rparr>)) (\<lambda>_. single (arguments_delta p extra))) s = (Inr cs, s')"
    unfolding final_argument_chunks_def by (elim bind_checkE)
  show header: "fs_header p" using h by simp
  have final: "final = fs_arguments p @ extra" by (rule function_argument_suffix_ok [OF extra])
  have all: "calls_only s s' \<and> dict_get (rc_tool_states s') = (dict_get (rc_tool_states s))(key \<mapsto> p\<lparr>fs_arguments := final\<rparr>)
    \<and> (mirrors (rc_tool_states s) c \<longrightarrow> cl_finish c = None \<longrightarrow> follows c cs [] (rc_tool_states s'))"
  proof (cases "extra = []")
    case True
    with rest have "cs = []" "s' = s" by (simp_all add: ret_ok)
    moreover have "p\<lparr>fs_arguments := final\<rparr> = p" using True final by simp
    moreover have "dict_get (rc_tool_states s) = (dict_get (rc_tool_states s))(key \<mapsto> p)" using p by auto
    ultimately show ?thesis by (simp add: calls_only_def follows_Nil)
  next
    case False
    let ?p = "p\<lparr>fs_arguments := fs_arguments p @ extra\<rparr>"
    let ?s = "s\<lparr>rc_tool_states := dict_set (rc_tool_states s) key ?p\<rparr>"
    from rest False have si: "single (arguments_delta p extra) ?s = (Inr cs, s')"
      by (auto elim!: bindE dest!: put_progress_ok)
    from single_ok [OF si] obtain i n mo where cs: "cs = [chunk_object i n mo [chunk_choice (arguments_delta p extra) None]]"
      and en: "envelope_only ?s s'" by blast
    have "rc_tool_states s' = dict_set (rc_tool_states s) key ?p" using en by (simp add: envelope_only_def)
    moreover have "calls_only s s'" using en by (simp add: envelope_only_def calls_only_def)
    ultimately show ?thesis using follows_fragment [OF _ _ p header refl, of c]
      by (auto simp: cs final dict_simps fun_eq_iff)
  qed
  then show "calls_only s s'" "dict_get (rc_tool_states s') = (dict_get (rc_tool_states s))(key \<mapsto> p\<lparr>fs_arguments := final\<rparr>)"
    "mirrors (rc_tool_states s) c \<Longrightarrow> cl_finish c = None \<Longrightarrow> follows c cs [] (rc_tool_states s')" by blast+
qed

section \<open>Events\<close>

text \<open>The text an event brings.\<close>

definition event_text :: "obj \<Rightarrow> string" where
  "event_text event =
     (if text_field event ''type'' = Some ''response.output_text.delta'' then field_or_empty event ''delta'' else [])"

definition quiet :: "responses_converter \<Rightarrow> responses_converter \<Rightarrow> bool" where
  "quiet s s' \<longleftrightarrow> rc_completed s' = rc_completed s \<and> rc_preserve s' = rc_preserve s \<and> rc_str s' = rc_str s"

lemma quiet_calls: "calls_only s s' \<Longrightarrow> quiet s s'"
  by (simp add: calls_only_def quiet_def)

lemma quiet_envelope: "envelope_only s s' \<Longrightarrow> quiet s s'"
  by (simp add: envelope_only_def quiet_def)

lemma quiet_refl [simp]: "quiet s s"
  by (simp add: quiet_def)

lemma quiet_trans: "quiet s s' \<Longrightarrow> quiet s' s'' \<Longrightarrow> quiet s s''"
  by (simp add: quiet_def)

text \<open>What every handler but the last does.\<close>

definition carries :: "string \<Rightarrow> obj list translating \<Rightarrow> bool" where
  "carries t h \<longleftrightarrow>
     (\<forall>s c cs s'. h s = (Inr cs, s') \<longrightarrow> mirrors (rc_tool_states s) c \<longrightarrow> cl_finish c = None \<longrightarrow>
        quiet s s' \<and> follows c cs t (rc_tool_states s'))"

lemma carriesI:
  "(\<And>s c cs s'. h s = (Inr cs, s') \<Longrightarrow> mirrors (rc_tool_states s) c \<Longrightarrow> cl_finish c = None \<Longrightarrow>
     quiet s s' \<and> follows c cs t (rc_tool_states s')) \<Longrightarrow> carries t h"
  by (simp add: carries_def)

lemma carriesD:
  assumes "carries t h" "h s = (Inr cs, s')" "mirrors (rc_tool_states s) c" "cl_finish c = None"
  shows "quiet s s'" "follows c cs t (rc_tool_states s')"
  using assms by (auto simp: carries_def)

lemma carries_reply [simp]: "carries [] (reply [])"
  by (rule carriesI) (simp add: ret_ok follows_Nil)

lemma carries_fail [simp]: "carries t (check (Inl e))"
  by (rule carriesI) (simp add: check_ok)

lemma carries_check:
  assumes "\<And>a. r = Inr a \<Longrightarrow> carries t (f a)"
  shows "carries t (bind (check r) f)"
proof (rule carriesI, elim bind_checkE)
  fix s c cs s' a assume "r = Inr a" "f a s = (Inr cs, s')" "mirrors (rc_tool_states s) c" "cl_finish c = None"
  with carriesD [OF assms] show "quiet s s' \<and> follows c cs t (rc_tool_states s')" by blast
qed

text \<open>A step that only touches what the client does not see.\<close>

lemma carries_hidden:
  assumes "\<And>s a s'. g s = (Inr a, s') \<Longrightarrow> quiet s s' \<and> rc_tool_states s' = rc_tool_states s" and "\<And>a. carries t (f a)"
  shows "carries t (bind g f)"
proof (rule carriesI, elim bindE)
  fix s c cs s' a s1 assume "g s = (Inr a, s1)" "f a s1 = (Inr cs, s')" "mirrors (rc_tool_states s) c" "cl_finish c = None"
  with carriesD [OF assms(2), of a s1 cs s' c] assms(1) [of s a s1]
  show "quiet s s' \<and> follows c cs t (rc_tool_states s')" by (auto intro: quiet_trans)
qed

lemma carries_plain: "dict_get delta ''tool_calls'' = None \<Longrightarrow> carries (field_or_empty delta ''content'') (single delta)"
  using single_ok(1) single_plain by (intro carriesI) (auto intro: quiet_envelope)

lemma carries_modify:
  "(\<And>s. quiet s (g s) \<and> rc_tool_states (g s) = rc_tool_states s) \<Longrightarrow> carries t (f ()) \<Longrightarrow> carries t (bind (modify g) f)"
  by (rule carries_hidden) (auto simp: modify_ok)

lemma carries_created [intro]: "carries [] (on_created event)"
proof -
  have "carries (field_or_empty [(''role'', JStr ''assistant'')] ''content'') (single [(''role'', JStr ''assistant'')])"
    by (rule carries_plain) simp
  then have "carries [] (single [(''role'', JStr ''assistant'')])" by simp
  then show ?thesis unfolding on_created_def
    by (intro carries_hidden)
      (auto simp: quiet_def ret_ok modify_ok envelope_only_def split: option.splits elim!: bindE dest!: stream_created_ok)
qed

lemma carries_text: "carries (field_or_empty event ''delta'') (on_text_delta event)"
proof (cases "non_empty_str (dict_get event ''delta'')")
  case None
  then have "field_or_empty event ''delta'' = []"
    by (auto simp: field_or_empty_def text_field_def non_empty_str_def split: option.splits json.splits if_splits)
  with None show ?thesis by (simp add: on_text_delta_def)
next
  case (Some t)
  then have "field_or_empty event ''delta'' = t"
    by (auto simp: field_or_empty_def text_field_def non_empty_str_def split: option.splits json.splits if_splits)
  with Some carries_plain [of "[(''content'', JStr t)]"] show ?thesis by (simp add: on_text_delta_def)
qed

lemma carries_reasoning: "carries [] (emit_reasoning t)"
proof -
  have "carries (field_or_empty [(''reasoning_content'', JStr t)] ''content'') (single [(''reasoning_content'', JStr t)])"
    by (rule carries_plain) simp
  then have "carries [] (single [(''reasoning_content'', JStr t)])" by simp
  then show ?thesis unfolding emit_reasoning_def by (intro carries_modify) (simp_all add: quiet_def)
qed

lemma carries_new_reasoning: "carries [] (emit_new_reasoning t)"
proof (rule carriesI)
  fix s c cs s' assume r: "emit_new_reasoning t s = (Inr cs, s')" and m: "mirrors (rc_tool_states s) c" "cl_finish c = None"
  show "quiet s s' \<and> follows c cs [] (rc_tool_states s')"
  proof (cases "t = [] \<or> t \<in> set (rc_texts_emitted s)")
    case True
    with r m show ?thesis by (simp add: emit_new_reasoning_def ret_ok follows_Nil)
  next
    case False
    with r have "emit_reasoning t s = (Inr cs, s')" by (simp add: emit_new_reasoning_def)
    from carriesD [OF carries_reasoning this m] show ?thesis by simp
  qed
qed

lemma carries_preserve: "carries t h \<Longrightarrow> carries t (bind require_preserve (\<lambda>_. h))"
  by (rule carries_hidden) (auto simp: require_preserve_def check_ok)

lemma carries_summary_delta: "carries [] (on_summary_delta event)"
  unfolding on_summary_delta_def by (intro carries_preserve) (simp add: carries_reasoning split: option.split)

lemma carries_summary_done: "carries [] (on_summary_done event)"
  unfolding on_summary_done_def by (intro carries_preserve) (simp add: carries_new_reasoning split: option.split)

lemma carries_content_part: "carries [] (on_content_part event)"
  unfolding on_content_part_def by (auto split: option.split intro: carries_check)

lemma carries_reasoning_item: "carries t h \<Longrightarrow> carries t (bind (accept_reasoning_item item) (\<lambda>_. h))"
  unfolding accept_reasoning_item_def
  by (rule carries_hidden) (auto simp: require_preserve_def check_ok elim!: bindE)

lemma carries_final:
  assumes "final_argument_chunks key p final s = (Inr cs, s')" "dict_get (rc_tool_states s) key = Some p"
    "mirrors (rc_tool_states s) c" "cl_finish c = None"
  shows "quiet s s' \<and> follows c cs [] (rc_tool_states s')"
  using final_arguments_ok [OF assms(1,2)] assms(3,4) by (auto intro: quiet_calls)

lemma carries_finish_call: "carries [] (finish_call item call_id name arguments)"
proof (rule carriesI)
  fix s c cs s' assume r: "finish_call item call_id name arguments s = (Inr cs, s')"
    and m: "mirrors (rc_tool_states s) c" "cl_finish c = None"
  define key where "key = str_of s (or_value (or_value (get_or_null item ''id'') (JStr call_id)) (JStr []))"
  from r obtain p where p: "dict_get (rc_tool_states s) key = Some p"
    and f: "bind (check (guard (fs_header p) UNPAIRED)) (\<lambda>_.
              bind (check (guard (fs_id p = call_id \<and> fs_name p = name) UNPAIRED)) (\<lambda>_.
                final_argument_chunks key p arguments)) s = (Inr cs, s')"
    unfolding finish_call_def Let_def key_def by (auto simp: check_ok split: option.splits)
  from f have "final_argument_chunks key p arguments s = (Inr cs, s')" by (elim bind_checkE)
  from carries_final [OF this p m] show "quiet s s' \<and> follows c cs [] (rc_tool_states s')" .
qed

lemma carries_arguments_done: "carries [] (on_arguments_done event)"
proof (rule carriesI)
  fix s c cs s' assume r: "on_arguments_done event s = (Inr cs, s')" and m: "mirrors (rc_tool_states s) c" "cl_finish c = None"
  define key where "key = str_of s (or_value (get_or_null event ''item_id'') (JStr []))"
  from r obtain p a where "dict_get (rc_tool_states s) key = Some p" "final_argument_chunks key p a s = (Inr cs, s')"
    unfolding on_arguments_done_def Let_def key_def by (auto simp: check_ok split: option.splits)
  with carries_final m show "quiet s s' \<and> follows c cs [] (rc_tool_states s')" by blast
qed

lemma progress_for_ok:
  assumes "progress_for key s = (Inr p, s')" and m: "mirrors (rc_tool_states s) c"
  shows "dict_get (rc_tool_states s') key = Some p" "mirrors (rc_tool_states s') c" "calls_only s s'"
proof -
  have "dict_get (rc_tool_states s') key = Some p \<and> mirrors (rc_tool_states s') c \<and> calls_only s s'"
  proof (cases "dict_get (rc_tool_states s) key")
    case None
    let ?p = "\<lparr>fs_index = length (rc_tool_states s), fs_id = [], fs_name = [], fs_arguments = [], fs_header = False\<rparr>"
    from assms(1) None have "p = ?p" "s' = s\<lparr>rc_tool_states := dict_set (rc_tool_states s) key ?p\<rparr>"
      by (auto simp: progress_for_def Let_def ret_ok elim!: bindE dest!: put_progress_ok)
    with mirrors_new [OF m None, of ?p] show ?thesis by (simp add: dict_simps)
  next
    case (Some q)
    with assms show ?thesis by (simp add: progress_for_def ret_ok calls_only_def)
  qed
  then show "dict_get (rc_tool_states s') key = Some p" "mirrors (rc_tool_states s') c" "calls_only s s'" by simp_all
qed

lemma carries_announce:
  assumes r: "announce_call key p arguments s = (Inr cs, s')" and m: "mirrors (rc_tool_states s0) c" "cl_finish c = None"
    and s: "s = s0\<lparr>rc_tool_states := dict_set (rc_tool_states s0) key p\<rparr>"
    and p: "dict_get (rc_tool_states s0) key = Some p0" "\<not> fs_header p0" "p = p0\<lparr>fs_id := ci, fs_name := cn\<rparr>" "ci \<noteq> []" "cn \<noteq> []"
  shows "quiet s0 s' \<and> follows c cs [] (rc_tool_states s')"
proof -
  let ?p = "p\<lparr>fs_header := True\<rparr>"
  let ?ts = "dict_set (rc_tool_states s0) key ?p"
  from r obtain x s1 cs1 where ch: "chunk (header_delta ?p []) None (s\<lparr>rc_tool_states := dict_set (rc_tool_states s) key ?p\<rparr>) = (Inr x, s1)"
    and fi: "final_argument_chunks key ?p arguments s1 = (Inr cs1, s')" and cs: "cs = x # cs1"
    unfolding announce_call_def Let_def by (auto elim!: bindE dest!: put_progress_ok simp: ret_ok)
  have "dict_set (dict_set (rc_tool_states s0) key p) key ?p = ?ts"
    by (simp add: dict_set_def)
  with chunk_ok [OF ch] obtain i n mo where x: "x = chunk_object i n mo [chunk_choice (header_delta ?p []) None]"
    and en: "envelope_only (s0\<lparr>rc_tool_states := ?ts\<rparr>) s1" by (auto simp: s)
  have ts1: "rc_tool_states s1 = ?ts" and q: "quiet s0 s1" using en by (simp_all add: envelope_only_def quiet_def)
  have args: "fs_arguments p0 = []" by (rule mirrorsD(5) [OF m(1) p(1,2)])
  have "follows c [x] [] ?ts"
    unfolding x by (rule follows_header [OF m p(1,2), where ci = ci and cn = cn]) (use p args in simp_all)
  moreover have "follows c' cs1 [] (rc_tool_states s')" if "mirrors ?ts c'" "cl_finish c' = None" for c'
    using carries_final [OF fi, of c'] that by (simp add: ts1 dict_simps)
  ultimately have "follows c ([x] @ cs1) ([] @ []) (rc_tool_states s')" by (rule follows_append)
  moreover have "quiet s1 s'" using final_arguments_ok(2) [OF fi] by (auto simp: ts1 dict_simps intro: quiet_calls)
  ultimately show ?thesis using q by (auto simp: cs intro: quiet_trans)
qed

lemma carries_call_added: "carries [] (on_call_added item call_id name arguments)"
proof (rule carriesI)
  fix s c cs s' assume r: "on_call_added item call_id name arguments s = (Inr cs, s')"
    and m: "mirrors (rc_tool_states s) c" "cl_finish c = None"
  define key where "key = str_of s (or_value (or_value (get_or_null item ''id'') (get_or_null item ''call_id'')) (JStr []))"
  from r obtain p s1 where pr: "progress_for key s = (Inr p, s1)" and g: "fs_id p = [] \<or> fs_id p = call_id" "fs_name p = [] \<or> fs_name p = name"
    and rest: "(let p' = p\<lparr>fs_id := call_id, fs_name := name\<rparr>
           in bind (put_progress key p') (\<lambda>_.
              if fs_id p' \<noteq> [] \<and> fs_name p' \<noteq> [] \<and> \<not> fs_header p' then announce_call key p' arguments
              else final_argument_chunks key p' arguments)) s1 = (Inr cs, s')"
    unfolding on_call_added_def key_def by (subst (asm) Let_def) (auto elim!: bindE bind_checkE)
  note P = progress_for_ok [OF pr m(1)]
  let ?p = "p\<lparr>fs_id := call_id, fs_name := name\<rparr>"
  let ?s = "s1\<lparr>rc_tool_states := dict_set (rc_tool_states s1) key ?p\<rparr>"
  from rest have rest': "(if call_id \<noteq> [] \<and> name \<noteq> [] \<and> \<not> fs_header p then announce_call key ?p arguments
              else final_argument_chunks key ?p arguments) ?s = (Inr cs, s')"
    by (auto simp: Let_def elim!: bindE dest!: put_progress_ok)
  have "quiet s1 s' \<and> follows c cs [] (rc_tool_states s')"
  proof (cases "call_id \<noteq> [] \<and> name \<noteq> [] \<and> \<not> fs_header p")
    case True
    with rest' have "announce_call key ?p arguments ?s = (Inr cs, s')" by simp
    from carries_announce [OF this P(2) m(2) refl P(1)] True show ?thesis by simp
  next
    case False
    with rest' have f: "final_argument_chunks key ?p arguments ?s = (Inr cs, s')" by (simp split: if_splits)
    have "fs_header ?p" by (rule final_arguments_ok(1) [OF f]) (simp add: dict_simps)
    then have h: "fs_header p" by simp
    with g mirrorsD(2,3) [OF P(2,1)] have "?p = p" by simp
    moreover have "dict_set (rc_tool_states s1) key p = rc_tool_states s1"
      by (rule dict_set_same [OF P(1)])
    ultimately have "final_argument_chunks key p arguments s1 = (Inr cs, s')" using f by simp
    from carries_final [OF this P(1,2) m(2)] show ?thesis .
  qed
  with P(3) show "quiet s s' \<and> follows c cs [] (rc_tool_states s')" by (auto intro: quiet_calls quiet_trans)
qed

lemma carries_item_added: "carries [] (on_item_added event)"
  unfolding on_item_added_def Let_def
  by (auto intro!: carries_reasoning_item carries_check carries_call_added split: output_item.split)

lemma carries_arguments_delta: "carries [] (on_arguments_delta event)"
proof (rule carriesI)
  fix s c cs s' assume r: "on_arguments_delta event s = (Inr cs, s')" and m: "mirrors (rc_tool_states s) c" "cl_finish c = None"
  define key where "key = str_of s (or_value (get_or_null event ''item_id'') (JStr []))"
  from r obtain p s1 where pr: "progress_for key s = (Inr p, s1)"
    and rest: "(case get_or_null event ''delta'' of
             JNull \<Rightarrow> reply []
           | JStr d \<Rightarrow>
               (if d = [] then reply []
                else if fs_header p then
                  bind (put_progress key (p\<lparr>fs_arguments := fs_arguments p @ d\<rparr>)) (\<lambda>_. single (arguments_delta p d))
                else
                  bind (check (guard (fs_id p \<noteq> []) UNPAIRED)) (\<lambda>_.
                  bind (check (guard (fs_name p \<noteq> []) UNSUPPORTED_SEMANTICS)) (\<lambda>_.
                  bind (put_progress key (p\<lparr>fs_header := True, fs_arguments := fs_arguments p @ d\<rparr>)) (\<lambda>_.
                    single (header_delta p d)))))
           | _ \<Rightarrow> check (Inl UNSUPPORTED_SEMANTICS)) s1 = (Inr cs, s')"
    unfolding on_arguments_delta_def Let_def key_def by (elim bindE)
  note P = progress_for_ok [OF pr m(1)]
  have "quiet s1 s' \<and> follows c cs [] (rc_tool_states s')"
  proof (cases "\<exists>d. get_or_null event ''delta'' = JStr d \<and> d \<noteq> []")
    case False
    with rest have "cs = []" "s' = s1" by (auto simp: ret_ok check_ok split: json.splits if_splits)
    with P(2) m(2) show ?thesis by (simp add: follows_Nil)
  next
    case True
    then obtain d where d: "get_or_null event ''delta'' = JStr d" "d \<noteq> []" by blast
    show ?thesis
    proof (cases "fs_header p")
      case True
      let ?p = "p\<lparr>fs_arguments := fs_arguments p @ d\<rparr>"
      let ?s = "s1\<lparr>rc_tool_states := dict_set (rc_tool_states s1) key ?p\<rparr>"
      from rest d True have "single (arguments_delta p d) ?s = (Inr cs, s')"
        by (auto elim!: bindE dest!: put_progress_ok)
      from single_ok [OF this] obtain i n mo where cs: "cs = [chunk_object i n mo [chunk_choice (arguments_delta p d) None]]"
        and en: "envelope_only ?s s'" by blast
      from en have ts: "rc_tool_states s' = dict_set (rc_tool_states s1) key ?p" and "quiet s1 s'"
        by (simp_all add: envelope_only_def quiet_def)
      then show ?thesis using follows_fragment [OF P(2) m(2) P(1) True refl] by (simp add: cs)
    next
      case False
      let ?p = "p\<lparr>fs_header := True, fs_arguments := fs_arguments p @ d\<rparr>"
      let ?s = "s1\<lparr>rc_tool_states := dict_set (rc_tool_states s1) key ?p\<rparr>"
      from rest d False have si: "single (header_delta p d) ?s = (Inr cs, s')" and id: "fs_id p \<noteq> []" "fs_name p \<noteq> []"
        by (auto elim!: bindE bind_checkE dest!: put_progress_ok)
      from single_ok [OF si] obtain i n mo where cs: "cs = [chunk_object i n mo [chunk_choice (header_delta p d) None]]"
        and en: "envelope_only ?s s'" by blast
      from en have ts: "rc_tool_states s' = dict_set (rc_tool_states s1) key ?p" and q: "quiet s1 s'"
        by (simp_all add: envelope_only_def quiet_def)
      have "fs_arguments p = []" by (rule mirrorsD(5) [OF P(2,1) False])
      then have "?p = p\<lparr>fs_id := fs_id p, fs_name := fs_name p, fs_header := True, fs_arguments := d\<rparr>" by simp
      from follows_header [OF P(2) m(2) P(1) False this id] have "follows c cs [] (dict_set (rc_tool_states s1) key ?p)"
        by (simp add: cs header_delta_def)
      with ts q show ?thesis by simp
    qed
  qed
  with P(3) show "quiet s s' \<and> follows c cs [] (rc_tool_states s')" by (auto intro: quiet_calls quiet_trans)
qed

lemma carries_item_done: "carries [] (on_item_done event)"
proof -
  have "carries [] (\<lambda>s. (case first_new_text (rc_texts_emitted s) texts of None \<Rightarrow> reply [] | Some t \<Rightarrow> emit_reasoning t) s)" for texts
    by (rule carriesI) (auto simp: ret_ok follows_Nil dest: carriesD [OF carries_reasoning] split: option.splits)
  then show ?thesis unfolding on_item_done_def Let_def
    by (auto intro!: carries_reasoning_item carries_check carries_finish_call split: output_item.split)
qed

lemma carries_append:
  assumes "carries t1 h1" "carries t2 h2"
  shows "carries (t1 @ t2) (bind h1 (\<lambda>c1. bind h2 (\<lambda>c2. reply (c1 @ c2))))"
proof (rule carriesI)
  fix s c cs s' assume "bind h1 (\<lambda>c1. bind h2 (\<lambda>c2. reply (c1 @ c2))) s = (Inr cs, s')" and m: "mirrors (rc_tool_states s) c" "cl_finish c = None"
  then obtain c1 s1 c2 where 1: "h1 s = (Inr c1, s1)" "h2 s1 = (Inr c2, s')" "cs = c1 @ c2"
    by (auto elim!: bindE simp: ret_ok)
  note A = carriesD [OF assms(1) 1(1) m]
  have "follows c (c1 @ c2) (t1 @ t2) (rc_tool_states s')"
    by (rule follows_append [OF A(2)]) (rule carriesD(2) [OF assms(2) 1(2)])
  moreover from A(2) obtain c' where "mirrors (rc_tool_states s1) c'" "cl_finish c' = None" unfolding follows_def by blast
  ultimately show "quiet s s' \<and> follows c cs (t1 @ t2) (rc_tool_states s')"
    using A(1) carriesD(1) [OF assms(2) 1(2)] 1(3) by (auto intro: quiet_trans)
qed

lemma carries_all_new: "carries [] (emit_all_new ts)"
proof (induction ts)
  case (Cons t ts)
  from carries_append [OF carries_new_reasoning Cons] show ?case by simp
qed simp

lemma carries_terminal_item: "carries [] (terminal_item v)"
  unfolding terminal_item_def
  by (auto intro!: carries_reasoning_item carries_check carries_finish_call carries_all_new split: output_item.split)

lemma carries_terminal_items: "carries [] (terminal_items vs)"
proof (induction vs)
  case (Cons v vs)
  from carries_append [OF carries_terminal_item Cons] show ?case by simp
qed simp

section \<open>The end of a response\<close>

lemma mirrors_headers:
  assumes m: "mirrors ts c"
  shows "list_ex (\<lambda>(_, p). fs_header p) ts \<longleftrightarrow> cl_calls c \<noteq> []"
proof -
  have d: "dict_get ts k = Some p" if "(k, p) \<in> set ts" for k p using m that by (simp add: mirrors_def)
  have "list_ex (\<lambda>(_, p). fs_header p) ts \<longleftrightarrow> (\<exists>k p. dict_get ts k = Some p \<and> fs_header p)"
    using d by (auto simp: list_ex_iff dest: map_of_SomeD)
  also have "\<dots> \<longleftrightarrow> (\<exists>i. dict_get (cl_calls c) i \<noteq> None)"
    using m mirrorsD(4) [OF m] unfolding mirrors_def by blast
  also have "\<dots> \<longleftrightarrow> cl_calls c \<noteq> []"
    by (cases "cl_calls c") auto
  finally show ?thesis .
qed

definition reads :: "responses_converter \<Rightarrow> chat_client \<Rightarrow> bool" where
  "reads s c \<longleftrightarrow>
     mirrors (rc_tool_states s) c \<and> (cl_finish c = None \<longleftrightarrow> \<not> rc_completed s) \<and> (cl_finish c = None \<longrightarrow> cl_usage c = None)"

lemma usage_chunks_ok:
  assumes "usage_chunks u s = (Inr cs, s')"
  shows "envelope_only s s'" "cs = [] \<or> (\<exists>i n m d. cs = [chunk_object i n m [] @ [(''usage'', JObj d)]])"
proof -
  have "envelope_only s s' \<and> (cs = [] \<or> (\<exists>i n m d. cs = [chunk_object i n m [] @ [(''usage'', JObj d)]]))"
  proof (cases u)
    case None
    with assms show ?thesis by (simp add: usage_chunks_def ret_ok)
  next
    case (Some d)
    with assms obtain i s1 n s2 where 1: "chunk_id s = (Inr i, s1)" and 2: "stream_created None s1 = (Inr n, s2)"
      and 3: "reply [chunk_object i n (rc_model s2) [] @ [(''usage'', JObj (responses_usage_to_chat_usage d))]] s2 = (Inr cs, s')"
      by (auto simp: usage_chunks_def elim!: bindE)
    with chunk_id_ok [OF 1] stream_created_ok [OF 2] show ?thesis by (auto simp: ret_ok intro: envelope_trans)
  qed
  then show "envelope_only s s'" "cs = [] \<or> (\<exists>i n m d. cs = [chunk_object i n m [] @ [(''usage'', JObj d)]])" by simp_all
qed

lemma note_terminal_ok:
  assumes "note_terminal_response response s = (Inr u, s')"
  shows "quiet s s' \<and> rc_tool_states s' = rc_tool_states s"
proof -
  obtain s1 n where n: "stream_created (Some response) s1 = (Inr n, s')" and s1: "quiet s s1" "rc_tool_states s1 = rc_tool_states s"
    using assms unfolding note_terminal_response_def
    by (auto elim!: bindE simp: modify_ok ret_ok quiet_def)
  with stream_created_ok [OF n] show ?thesis by (auto simp: envelope_only_def quiet_def)
qed

text \<open>The terminal event: its output items, the finish and the usage.\<close>

lemma on_completedE:
  assumes "on_completed event s = (Inr cs, s')"
  obtains response items s1 cs1 s2 x s3 u where
    "response = (case object_field event ''response'' of None \<Rightarrow> [] | Some r \<Rightarrow> r)"
    "quiet s s1" "rc_tool_states s1 = rc_tool_states s" "terminal_output response = Inr items"
    "terminal_items items s1 = (Inr cs1, s2)"
    "chunk [] (Some (if list_ex (\<lambda>(_, p). fs_header p) (rc_tool_states s2) then ''tool_calls'' else ''stop''))
       (s2\<lparr>rc_completed := True\<rparr>) = (Inr x, s3)"
    "usage_chunks (object_field response ''usage'') s3 = (Inr u, s')" "cs = cs1 @ [x] @ u"
proof -
  define response where "response = (case object_field event ''response'' of None \<Rightarrow> [] | Some r \<Rightarrow> r)"
  define finish :: "json list \<Rightarrow> obj list \<Rightarrow> responses_converter \<Rightarrow> (wire_error + obj list) \<times> responses_converter" where
    "finish = (\<lambda>items chunks s.
           bind (check (guard (\<not> (list_ex is_reasoning_item items \<and> \<not> rc_visible s)) UNSUPPORTED_SEMANTICS)) (\<lambda>_.
           bind (modify (\<lambda>s. s\<lparr>rc_completed := True\<rparr>)) (\<lambda>_.
           bind (chunk [] (Some (if list_ex (\<lambda>(_, p). fs_header p) (rc_tool_states s) then ''tool_calls'' else ''stop''))) (\<lambda>c.
           bind (usage_chunks (object_field response ''usage'')) (\<lambda>u.
             reply (chunks @ [c] @ u))))) s)"
  have A: "bind (if object_field event ''response'' \<noteq> None then note_terminal_response response else reply ()) (\<lambda>_.
      bind (check (terminal_output response)) (\<lambda>items. bind (terminal_items items) (finish items))) s = (Inr cs, s')"
    using assms unfolding on_completed_def response_def finish_def Let_def .
  obtain v s1 where nt: "(if object_field event ''response'' \<noteq> None then note_terminal_response response else reply ()) s = (Inr v, s1)"
    and B: "bind (check (terminal_output response)) (\<lambda>items. bind (terminal_items items) (finish items)) s1 = (Inr cs, s')"
    by (rule bindE [OF A])
  obtain items where it: "terminal_output response = Inr items" and C: "bind (terminal_items items) (finish items) s1 = (Inr cs, s')"
    by (rule bind_checkE [OF B])
  obtain cs1 s2 where ti: "terminal_items items s1 = (Inr cs1, s2)" and fi: "finish items cs1 s2 = (Inr cs, s')"
    by (rule bindE [OF C])
  have nt': "quiet s s1 \<and> rc_tool_states s1 = rc_tool_states s"
    using nt note_terminal_ok by (auto simp: ret_ok split: if_splits)
  from fi obtain x s3 u where ch: "chunk [] (Some (if list_ex (\<lambda>(_, p). fs_header p) (rc_tool_states s2) then ''tool_calls'' else ''stop''))
       (s2\<lparr>rc_completed := True\<rparr>) = (Inr x, s3)"
    and us: "usage_chunks (object_field response ''usage'') s3 = (Inr u, s')" and "cs = cs1 @ [x] @ u"
    unfolding finish_def by (elim bind_checkE bind_modifyE bindE) (simp add: ret_ok)
  with that [OF response_def] nt' it ti show thesis by blast
qed

lemma reads_completed:
  assumes r: "on_completed event s = (Inr cs, s')" and rd: "reads s c" and live: "\<not> rc_completed s"
  shows "\<exists>c'. client_run c cs = Some c' \<and> reads s' c' \<and> cl_text c' = cl_text c \<and> rc_completed s'"
proof -
  obtain response items s1 cs1 s2 x s3 u where q: "quiet s s1" and ts: "rc_tool_states s1 = rc_tool_states s"
    and ti: "terminal_items items s1 = (Inr cs1, s2)"
    and ch: "chunk [] (Some (if list_ex (\<lambda>(_, p). fs_header p) (rc_tool_states s2) then ''tool_calls'' else ''stop''))
       (s2\<lparr>rc_completed := True\<rparr>) = (Inr x, s3)"
    and us: "usage_chunks (object_field response ''usage'') s3 = (Inr u, s')" and cs: "cs = cs1 @ [x] @ u"
    by (rule on_completedE [OF r])
  have m: "mirrors (rc_tool_states s1) c" "cl_finish c = None" "cl_usage c = None" using rd live by (simp_all add: reads_def ts)
  from carriesD(2) [OF carries_terminal_items ti m(1,2)] obtain c1 where c1: "client_run c cs1 = Some c1"
    "mirrors (rc_tool_states s2) c1" "cl_text c1 = cl_text c" "cl_finish c1 = None" "cl_usage c1 = None"
    unfolding follows_def m(3) by auto
  let ?r = "if cl_calls c1 = [] then ''stop'' else ''tool_calls''"
  let ?c2 = "c1\<lparr>cl_finish := Some ?r\<rparr>"
  have fin: "(if list_ex (\<lambda>(_, p). fs_header p) (rc_tool_states s2) then ''tool_calls'' else ''stop'') = ?r"
    using mirrors_headers [OF c1(2)] by simp
  from chunk_ok [OF ch] obtain i n mo where x: "x = chunk_object i n mo [chunk_choice [] (Some ?r)]"
    and en: "envelope_only (s2\<lparr>rc_completed := True\<rparr>) s3" unfolding fin by blast
  have step: "client_step x c1 = Some ?c2"
    unfolding x client_step_chunk [OF c1(4)]
    by (simp add: client_delta_def client_finish_def optional_text_def text_field_def)
  have m2: "mirrors (rc_tool_states s2) ?c2" using c1(2) mirrors_calls [of ?c2 c1] by simp
  note U = usage_chunks_ok [OF us]
  have ts': "rc_tool_states s' = rc_tool_states s2" "rc_completed s'" using en U(1) by (simp_all add: envelope_only_def)
  show ?thesis
  proof (cases "u = []")
    case True
    with client_run_append [OF c1(1)] step have "client_run c cs = Some ?c2" by (simp add: cs)
    with m2 ts' c1(3) show ?thesis by (intro exI [of _ ?c2]) (simp add: reads_def)
  next
    case False
    with U(2) obtain i n mo d where u: "u = [chunk_object i n mo [] @ [(''usage'', JObj d)]]" by auto
    let ?c3 = "?c2\<lparr>cl_usage := Some d\<rparr>"
    have "client_step (chunk_object i n mo [] @ [(''usage'', JObj d)]) ?c2 = Some ?c3"
      using c1(5) by (simp add: client_step_def chunk_object_def object_field_def)
    with client_run_append [OF c1(1)] step have "client_run c cs = Some ?c3" by (simp add: cs u)
    moreover have "mirrors (rc_tool_states s2) ?c3" using m2 mirrors_calls [of ?c3 ?c2] by simp
    ultimately show ?thesis using ts' c1(3) by (intro exI [of _ ?c3]) (simp add: reads_def)
  qed
qed

section \<open>Whole streams\<close>

lemma reads_carried:
  assumes "carries t h" "h s = (Inr cs, s')" "reads s c" "\<not> rc_completed s"
  shows "\<exists>c'. client_run c cs = Some c' \<and> reads s' c' \<and> cl_text c' = cl_text c @ t"
proof -
  have m: "mirrors (rc_tool_states s) c" "cl_finish c = None" "cl_usage c = None" using assms(3,4) by (simp_all add: reads_def)
  from carriesD [OF assms(1,2) m(1,2)] obtain c' where "client_run c cs = Some c'" "mirrors (rc_tool_states s') c'"
    "cl_text c' = cl_text c @ t" "cl_finish c' = None" "cl_usage c' = None" "rc_completed s' = rc_completed s"
    unfolding follows_def m(3) quiet_def by auto
  with assms(4) show ?thesis by (auto simp: reads_def)
qed

lemma reads_dispatch:
  assumes r: "dispatch_response_event event s = (Inr cs, s')" and rd: "reads s c" "\<not> rc_completed s"
  shows "\<exists>c'. client_run c cs = Some c' \<and> reads s' c' \<and> cl_text c' = cl_text c @ event_text event"
proof (cases "text_field event ''type''")
  case None
  with r rd show ?thesis by (auto simp: dispatch_response_event_def ret_ok event_text_def)
next
  case (Some kind)
  show ?thesis
  proof (cases "kind = ''response.completed''")
    case True
    with r Some have "on_completed event s = (Inr cs, s')" by (simp add: dispatch_response_event_def)
    from reads_completed [OF this rd] show ?thesis using True Some by (simp add: event_text_def) blast
  next
    case False
    let ?h = "dispatch_response_event event"
    have "carries (event_text event) ?h"
    proof (cases "kind = ''response.output_text.delta''")
      case True
      with Some carries_text show ?thesis by (simp add: dispatch_response_event_def event_text_def)
    next
      case other: False
      then have "event_text event = []" using Some by (simp add: event_text_def)
      then show ?thesis unfolding dispatch_response_event_def Some option.case
        using False other
        by (simp add: carries_created carries_summary_delta carries_summary_done carries_content_part carries_item_added
            carries_arguments_delta carries_arguments_done carries_item_done)
    qed
    from reads_carried [OF this r rd] show ?thesis .
  qed
qed

lemma normalize_text:
  assumes "normalize_raw_reasoning b event texts = Inr (event', texts')"
  shows "event_text event' = event_text event"
proof (cases "event' = event")
  case False
  with assms have "is_reasoning_part event \<or> event_kind_in event [''response.reasoning_text.delta'', ''response.reasoning_text.done'']"
    by (auto simp: normalize_raw_reasoning_def split: if_splits)
  then have "event_text event = []" by (auto simp: is_reasoning_part_def event_kind_in_def event_text_def split: option.splits)
  moreover from assms False obtain d where "event' = [(''type'', JStr ''response.reasoning_summary_text.delta''), (''delta'', JStr d)]"
    by (auto simp: normalize_raw_reasoning_def Let_def res_simps split: if_splits option.splits)
  ultimately show ?thesis by (simp add: event_text_def text_field_def)
qed simp

lemma reads_event:
  assumes r: "chunks_for_event event s = (Inr cs, s')" and rd: "reads s c"
  shows "\<exists>c'. client_run c cs = Some c' \<and> reads s' c' \<and> cl_text c' = cl_text c @ event_text event"
proof (cases "rc_completed s")
  case True
  with r have "has_post_terminal_semantics event = Inr False" and e: "cs = []" "s' = s"
    by (auto simp: chunks_for_event_def check_ok res_simps split: if_splits)
  then have "event_text event = []"
    by (auto simp: has_post_terminal_semantics_def event_text_def event_kind_in_def split: if_splits option.splits)
  with rd e show ?thesis by simp
next
  case False
  with r obtain event' texts where n: "normalize_raw_reasoning (rc_preserve s) event (rc_raw_texts s) = Inr (event', texts)"
    and d: "dispatch_response_event event' (s\<lparr>rc_raw_texts := texts, rc_texts_emitted := add_emitted (map snd texts) (rc_texts_emitted s)\<rparr>)
      = (Inr cs, s')"
    unfolding chunks_for_event_def if_not_P [OF False] by (elim bind_checkE) (auto elim!: bind_modifyE)
  from reads_dispatch [OF d] rd False show ?thesis unfolding normalize_text [OF n] by (simp add: reads_def)
qed

text \<open>The relay's use of a converter: an event at a time.\<close>

fun convert_responses :: "obj list \<Rightarrow> obj list translating" where
  "convert_responses [] = reply []"
| "convert_responses (event # events) =
     bind (chunks_for_event event) (\<lambda>c1. bind (convert_responses events) (\<lambda>c2. reply (c1 @ c2)))"

lemma reads_stream:
  "reads s c \<Longrightarrow> convert_responses events s = (Inr cs, s') \<Longrightarrow>
   \<exists>c'. client_run c cs = Some c' \<and> reads s' c' \<and> cl_text c' = cl_text c @ concat (map event_text events)"
proof (induction events arbitrary: s c cs)
  case Nil
  then show ?case by (simp add: ret_ok)
next
  case (Cons event events)
  from Cons.prems(2) obtain c1 s1 c2 where 1: "chunks_for_event event s = (Inr c1, s1)" "convert_responses events s1 = (Inr c2, s')"
    and cs: "cs = c1 @ c2"
    by (auto elim!: bindE simp: ret_ok)
  from reads_event [OF 1(1) Cons.prems(1)] obtain d where d: "client_run c c1 = Some d" "reads s1 d"
    "cl_text d = cl_text c @ event_text event" by blast
  from Cons.IH [OF d(2) 1(2)] client_run_append [OF d(1)] d(3) show ?case by (simp add: cs)
qed

lemma reads_begin: "reads (new_responses_converter now ids str_fun preserve) client_begin"
  by (simp add: reads_def mirrors_def client_begin_def new_responses_converter_def)

text \<open>C7: Whatever events the converter accepts, a Chat Completions client reads all its chunks: every call is
  announced once, with its id and name, before any further piece of its arguments, the finish reason
  comes once, says whether there are calls, and only the usage follows it.  The text the client
  reads is the text of the events, its calls are the announced calls of the converter with the
  arguments these have, and it has the finish reason exactly when the response was completed.\<close>
theorem responses_stream_readable:
  assumes "convert_responses events (new_responses_converter now ids str_fun preserve) = (Inr chunks, s)"
  shows "\<exists>c. client_run client_begin chunks = Some c
    \<and> cl_text c = concat (map event_text events)
    \<and> (\<forall>i x. dict_get (cl_calls c) i = Some x \<longleftrightarrow>
         (\<exists>k p. dict_get (rc_tool_states s) k = Some p \<and> fs_header p \<and> i = fs_index p \<and> x = (fs_id p, fs_name p, fs_arguments p)))
    \<and> (cl_finish c \<noteq> None \<longleftrightarrow> rc_completed s)"
proof -
  from reads_stream [OF reads_begin assms] obtain c where c: "client_run client_begin chunks = Some c" "reads s c"
    "cl_text c = cl_text client_begin @ concat (map event_text events)" by blast
  have m: "mirrors (rc_tool_states s) c" using c(2) by (simp add: reads_def)
  have "dict_get (cl_calls c) i = Some x \<longleftrightarrow>
      (\<exists>k p. dict_get (rc_tool_states s) k = Some p \<and> fs_header p \<and> i = fs_index p \<and> x = (fs_id p, fs_name p, fs_arguments p))" for i x
  proof
    assume x: "dict_get (cl_calls c) i = Some x"
    then have "dict_get (cl_calls c) i \<noteq> None" by simp
    then obtain k p where kp: "dict_get (rc_tool_states s) k = Some p" "fs_index p = i" "fs_header p"
      using m unfolding mirrors_def by blast
    with mirrorsD(4) [OF m kp(1,3)] x
    show "\<exists>k p. dict_get (rc_tool_states s) k = Some p \<and> fs_header p \<and> i = fs_index p \<and> x = (fs_id p, fs_name p, fs_arguments p)"
      by (intro exI [of _ k] exI [of _ p]) simp
  qed (use mirrorsD(4) [OF m] in auto)
  with c show ?thesis by (intro exI [of _ c]) (simp add: reads_def client_begin_def)
qed

text \<open>A text and a call.\<close>

definition sample_event :: "string \<Rightarrow> obj \<Rightarrow> obj" where
  "sample_event kind d = (''type'', JStr kind) # d"

definition sample_call :: "string \<Rightarrow> json" where
  "sample_call arguments = JObj [(''type'', JStr ''function_call''), (''id'', JStr ''f''), (''call_id'', JStr ''a''),
     (''name'', JStr ''g''), (''arguments'', JStr arguments)]"

definition sample_events :: "obj list" where
  "sample_events =
     [sample_event ''response.created'' [],
      sample_event ''response.output_text.delta'' [(''delta'', JStr ''Hi'')],
      sample_event ''response.output_item.added'' [(''item'', sample_call [])],
      sample_event ''response.function_call_arguments.delta'' [(''item_id'', JStr ''f''), (''delta'', JStr ''{'')]]"

definition sample_completed :: obj where
  "sample_completed = sample_event ''response.completed'' [(''response'', JObj [(''output'', JArr [sample_call ''{}''])])]"

abbreviation sample_converter :: responses_converter where
  "sample_converter \<equiv> new_responses_converter 5 (\<lambda>_. ''x'') (\<lambda>_. []) True"

definition sample_length :: "obj list \<Rightarrow> (nat \<times> bool) option" where
  "sample_length events =
     (case convert_responses events sample_converter of
        (Inr cs, s) \<Rightarrow> Some (length cs, rc_completed s) | _ \<Rightarrow> None)"

lemma sample_responses: "sample_length (sample_events @ [sample_completed]) = Some (6, True)"
  by code_simp

lemma sample_lengthE:
  assumes "sample_length events = Some (n, b)"
  obtains cs s where "convert_responses events sample_converter = (Inr cs, s)" "length cs = n" "rc_completed s = b"
proof -
  obtain r s where r: "convert_responses events sample_converter = (r, s)"
    by (cases "convert_responses events sample_converter")
  with assms obtain cs where "r = Inr cs" by (cases r) (simp_all add: sample_length_def)
  with assms r show thesis by (intro that [of cs s]) (simp_all add: sample_length_def)
qed

theorem responses_stream_readable_witness:
  "\<exists>cs s c. convert_responses (sample_events @ [sample_completed]) sample_converter = (Inr cs, s)
    \<and> length cs = 6 \<and> client_run client_begin cs = Some c \<and> cl_text c = ''Hi'' \<and> cl_finish c \<noteq> None"
proof -
  obtain cs s where 1: "convert_responses (sample_events @ [sample_completed]) sample_converter = (Inr cs, s)"
    "length cs = 6" "rc_completed s = True"
    by (rule sample_lengthE [OF sample_responses])
  have "concat (map event_text (sample_events @ [sample_completed])) = ''Hi''" by code_simp
  with responses_stream_readable [OF 1(1)] 1 show ?thesis by auto
qed

section \<open>The terminal output\<close>

text \<open>The function calls a terminal event lists.\<close>

definition terminal_call :: "json \<Rightarrow> (string \<times> string \<times> string) option" where
  "terminal_call v =
     (if is_reasoning_item v then None
      else case validated_output_item v of Inr (Function_Item i n a) \<Rightarrow> Some (i, n, a) | _ \<Rightarrow> None)"

definition terminal_calls :: "json list \<Rightarrow> (string \<times> string \<times> string) list" where
  "terminal_calls vs = List.map_filter terminal_call vs"

lemma terminal_calls_simps:
  "terminal_calls [] = []"
  "terminal_calls (v # vs) = (case terminal_call v of None \<Rightarrow> [] | Some x \<Rightarrow> [x]) @ terminal_calls vs"
  by (simp_all add: terminal_calls_def map_filter_def split: option.split)

text \<open>The call an output lists of an id: its last listing.\<close>

definition listed_last :: "json list \<Rightarrow> string \<Rightarrow> (string \<times> string) option" where
  "listed_last vs = map_of (rev (terminal_calls vs))"

lemma listed_last_simps:
  "listed_last [] i = None"
  "listed_last (v # vs) i =
     (case listed_last vs i of
        Some na \<Rightarrow> Some na
      | None \<Rightarrow> (case terminal_call v of None \<Rightarrow> None | Some (j, na) \<Rightarrow> (if i = j then Some na else None)))"
  by (simp_all add: listed_last_def terminal_calls_simps map_add_def split: option.split)

lemma listed_last_distinct:
  "distinct (map fst (terminal_calls vs)) \<Longrightarrow> (i, na) \<in> set (terminal_calls vs) \<Longrightarrow> listed_last vs i = Some na"
  by (simp add: listed_last_def map_of_is_SomeI rev_map [symmetric])

definition known :: "(string, call_progress) dict \<Rightarrow> string \<times> string \<times> string \<Rightarrow> bool" where
  "known ts x \<longleftrightarrow> (\<exists>k p. dict_get ts k = Some p \<and> fs_header p \<and> x = (fs_id p, fs_name p, fs_arguments p))"

lemma finish_call_ok:
  assumes "finish_call item i n a s = (Inr cs, s')"
  shows "known (rc_tool_states s') (i, n, a)" "fst x \<noteq> i \<Longrightarrow> known (rc_tool_states s) x \<Longrightarrow> known (rc_tool_states s') x"
proof -
  define key where "key = str_of s (or_value (or_value (get_or_null item ''id'') (JStr i)) (JStr []))"
  from assms obtain p where p: "dict_get (rc_tool_states s) key = Some p"
    and f: "bind (check (guard (fs_header p) UNPAIRED)) (\<lambda>_.
              bind (check (guard (fs_id p = i \<and> fs_name p = n) UNPAIRED)) (\<lambda>_.
                final_argument_chunks key p a)) s = (Inr cs, s')"
    unfolding finish_call_def Let_def key_def by (auto simp: check_ok split: option.splits)
  from f have id: "fs_id p = i" "fs_name p = n" and fi: "final_argument_chunks key p a s = (Inr cs, s')"
    by (auto elim!: bind_checkE)
  note F = final_arguments_ok [OF fi p]
  show "known (rc_tool_states s') (i, n, a)"
    unfolding known_def using F(1,3) id by (intro exI [of _ key] exI [of _ "p\<lparr>fs_arguments := a\<rparr>"]) simp
  assume x: "fst x \<noteq> i" "known (rc_tool_states s) x"
  then obtain k q where kq: "dict_get (rc_tool_states s) k = Some q" "fs_header q" "x = (fs_id q, fs_name q, fs_arguments q)"
    unfolding known_def by blast
  with x(1) id p have "k \<noteq> key" by auto
  with kq F(3) show "known (rc_tool_states s') x" unfolding known_def by (intro exI [of _ k] exI [of _ q]) simp
qed

lemma emit_all_new_states: "emit_all_new ts s = (Inr cs, s') \<Longrightarrow> rc_tool_states s' = rc_tool_states s"
proof (induction ts arbitrary: s cs)
  case (Cons t ts)
  then obtain c1 s1 c2 where 1: "emit_new_reasoning t s = (Inr c1, s1)" "emit_all_new ts s1 = (Inr c2, s')"
    by (auto elim!: bindE simp: ret_ok)
  have "rc_tool_states s1 = rc_tool_states s" using 1(1)
    by (auto simp: emit_new_reasoning_def emit_reasoning_def ret_ok envelope_only_def modify_ok split: if_splits
        elim!: bindE dest!: single_ok(1))
  with Cons.IH [OF 1(2)] show ?case by simp
qed (simp add: ret_ok)

lemma terminal_item_ok:
  assumes "terminal_item v s = (Inr cs, s')"
  shows "terminal_call v = Some y \<Longrightarrow> known (rc_tool_states s') y"
    "(\<And>y. terminal_call v = Some y \<Longrightarrow> fst x \<noteq> fst y) \<Longrightarrow> known (rc_tool_states s) x \<Longrightarrow> known (rc_tool_states s') x"
proof -
  consider (reasoning) "is_reasoning_item v" "rc_tool_states s' = rc_tool_states s"
    | (message) "validated_output_item v = Inr Message_Item" "s' = s" "\<not> is_reasoning_item v"
    | (call) i n a where "validated_output_item v = Inr (Function_Item i n a)" "\<not> is_reasoning_item v"
        "finish_call (item_object v) i n a s = (Inr cs, s')"
  proof (cases "is_reasoning_item v")
    case True
    with assms reasoning show thesis unfolding terminal_item_def
      by (auto simp: action_ok accept_reasoning_item_def require_preserve_def dest!: emit_all_new_states)
  next
    case False
    with assms obtain o' where "validated_output_item v = Inr o'"
      and "(case o' of Message_Item \<Rightarrow> reply [] | Function_Item i n a \<Rightarrow> finish_call (item_object v) i n a) s = (Inr cs, s')"
      by (auto simp: terminal_item_def elim!: bind_checkE)
    with False message call show thesis by (cases o') (simp_all add: ret_ok)
  qed
  then show "terminal_call v = Some y \<Longrightarrow> known (rc_tool_states s') y"
    "(\<And>y. terminal_call v = Some y \<Longrightarrow> fst x \<noteq> fst y) \<Longrightarrow> known (rc_tool_states s) x \<Longrightarrow> known (rc_tool_states s') x"
    by (cases; auto simp: terminal_call_def dest: finish_call_ok)+
qed

lemma terminal_items_ok:
  assumes "terminal_items vs s = (Inr cs, s')"
  shows "(listed_last vs i = Some na \<longrightarrow> known (rc_tool_states s') (i, na))
    \<and> (listed_last vs i = None \<longrightarrow> known (rc_tool_states s) (i, na) \<longrightarrow> known (rc_tool_states s') (i, na))"
  using assms
proof (induction vs arbitrary: s cs)
  case Nil
  then show ?case by (simp add: ret_ok listed_last_simps)
next
  case (Cons v vs)
  from Cons.prems(1) obtain c1 s1 c2 where 1: "terminal_item v s = (Inr c1, s1)" "terminal_items vs s1 = (Inr c2, s')"
    by (auto elim!: bindE simp: ret_ok)
  note T = terminal_item_ok [OF 1(1)] and IH = Cons.IH [OF 1(2)]
  show ?case
  proof (cases "listed_last vs i")
    case (Some x)
    with IH show ?thesis by (simp add: listed_last_simps)
  next
    case None
    have "known (rc_tool_states s1) (i, na) \<longrightarrow> known (rc_tool_states s') (i, na)" using IH None by simp
    moreover have "terminal_call v = Some (i, na) \<Longrightarrow> known (rc_tool_states s1) (i, na)" by (rule T(1))
    moreover have "(\<And>y. terminal_call v = Some y \<Longrightarrow> i \<noteq> fst y) \<Longrightarrow> known (rc_tool_states s) (i, na)
        \<Longrightarrow> known (rc_tool_states s1) (i, na)" using T(2) [of "(i, na)"] by simp
    ultimately show ?thesis using None by (auto simp: listed_last_simps split: option.splits if_splits)
  qed
qed

lemma convert_snoc:
  "convert_responses (events @ [event]) s = (Inr cs, s') \<Longrightarrow>
   \<exists>c1 s1 c2. convert_responses events s = (Inr c1, s1) \<and> chunks_for_event event s1 = (Inr c2, s') \<and> cs = c1 @ c2"
proof (induction events arbitrary: s cs)
  case Nil
  then show ?case by (auto elim!: bindE simp: ret_ok)
next
  case (Cons e events)
  then obtain c1 s1 c2 where 1: "chunks_for_event e s = (Inr c1, s1)" "convert_responses (events @ [event]) s1 = (Inr c2, s')"
    and cs: "cs = c1 @ c2"
    by (auto elim!: bindE simp: ret_ok)
  from Cons.IH [OF 1(2)] obtain d1 s2 d2 where 2: "convert_responses events s1 = (Inr d1, s2)" "chunks_for_event event s2 = (Inr d2, s')"
    "c2 = d1 @ d2" by blast
  from 1(1) 2(1) have "convert_responses (e # events) s = (Inr (c1 @ d1), s2)" by (simp add: bind_def ret_def)
  with 2 cs show ?case by auto
qed

lemma dispatch_live:
  assumes "dispatch_response_event event s = (Inr cs, s')" "reads s c" "\<not> rc_completed s"
    and "text_field event ''type'' \<noteq> Some ''response.completed''"
  shows "\<not> rc_completed s'"
proof -
  have "carries (if text_field event ''type'' = Some ''response.output_text.delta'' then field_or_empty event ''delta'' else [])
    (dispatch_response_event event)"
    using assms(4) unfolding dispatch_response_event_def
    by (simp add: carries_text carries_created carries_summary_delta carries_summary_done carries_content_part carries_item_added
        carries_arguments_delta carries_arguments_done carries_item_done split: option.split)
  from carriesD(1) [OF this assms(1)] assms(2,3) show ?thesis by (auto simp: reads_def quiet_def)
qed

lemma normalize_type:
  assumes "normalize_raw_reasoning b event texts = Inr (event', texts')"
  shows "event' = event \<or> text_field event' ''type'' = Some ''response.reasoning_summary_text.delta''"
  using assms
  by (auto simp: normalize_raw_reasoning_def Let_def res_simps text_field_def split: if_splits option.splits)

lemma event_live:
  assumes r: "chunks_for_event event s = (Inr cs, s')" and rd: "reads s c" "\<not> rc_completed s"
  obtains event' s1 where "event' = event \<or> text_field event' ''type'' = Some ''response.reasoning_summary_text.delta''"
    "text_field event ''type'' = Some ''response.completed'' \<longrightarrow> event' = event"
    "reads s1 c" "\<not> rc_completed s1" "dispatch_response_event event' s1 = (Inr cs, s')"
proof -
  from r rd(2) obtain event' texts where n: "normalize_raw_reasoning (rc_preserve s) event (rc_raw_texts s) = Inr (event', texts)"
    and d: "dispatch_response_event event' (s\<lparr>rc_raw_texts := texts, rc_texts_emitted := add_emitted (map snd texts) (rc_texts_emitted s)\<rparr>)
      = (Inr cs, s')"
    unfolding chunks_for_event_def if_not_P [OF rd(2)] by (elim bind_checkE) (auto elim!: bind_modifyE)
  have "text_field event ''type'' = Some ''response.completed'' \<longrightarrow> event' = event"
    using n by (auto simp: normalize_raw_reasoning_def is_reasoning_part_def event_kind_in_def split: if_splits)
  then show thesis by (rule that [OF normalize_type [OF n] _ _ _ d]) (use rd in \<open>simp_all add: reads_def\<close>)
qed

lemma stream_live:
  "convert_responses events s = (Inr cs, s') \<Longrightarrow> reads s c \<Longrightarrow> \<not> rc_completed s \<Longrightarrow>
   (\<And>e. e \<in> set events \<Longrightarrow> text_field e ''type'' \<noteq> Some ''response.completed'') \<Longrightarrow> \<not> rc_completed s'"
proof (induction events arbitrary: s c cs)
  case Nil
  then show ?case by (simp add: ret_ok)
next
  case (Cons e events)
  from Cons.prems(1) obtain c1 s1 c2 where 1: "chunks_for_event e s = (Inr c1, s1)" "convert_responses events s1 = (Inr c2, s')"
    by (auto elim!: bindE simp: ret_ok)
  obtain e' s0 where e': "e' = e \<or> text_field e' ''type'' = Some ''response.reasoning_summary_text.delta''"
    "reads s0 c" "\<not> rc_completed s0" "dispatch_response_event e' s0 = (Inr c1, s1)"
    by (rule event_live [OF 1(1) Cons.prems(2,3)])
  then have "text_field e' ''type'' \<noteq> Some ''response.completed''" using Cons.prems(4) [of e] by auto
  with dispatch_live [OF e'(4,2,3)] have "\<not> rc_completed s1" by simp
  moreover obtain c' where "reads s1 c'" using reads_event [OF 1(1) Cons.prems(2)] by blast
  ultimately show ?case using Cons.IH [OF 1(2)] Cons.prems(4) by simp
qed

lemma terminal_calls_reach:
  assumes "convert_responses (events @ [event]) (new_responses_converter now ids str_fun preserve) = (Inr chunks, s)"
    and "\<forall>e \<in> set events. text_field e ''type'' \<noteq> Some ''response.completed''"
    and "text_field event ''type'' = Some ''response.completed''" "object_field event ''response'' = Some response"
    and "dict_get response ''output'' = Some (JArr items)"
  shows "rc_completed s \<and> (\<exists>c. client_run client_begin chunks = Some c
    \<and> (\<forall>i n a. listed_last items i = Some (n, a) \<longrightarrow> (\<exists>k. dict_get (cl_calls c) k = Some (i, n, a))))"
proof -
  from convert_snoc [OF assms(1)] obtain c1 s1 c2 where
    1: "convert_responses events (new_responses_converter now ids str_fun preserve) = (Inr c1, s1)"
    and 2: "chunks_for_event event s1 = (Inr c2, s)" and cs: "chunks = c1 @ c2" by blast
  have live: "\<not> rc_completed s1"
    by (rule stream_live [OF 1 reads_begin]) (use assms(2) in \<open>simp_all add: new_responses_converter_def\<close>)
  from reads_stream [OF reads_begin 1] obtain d where d: "client_run client_begin c1 = Some d" "reads s1 d" by blast
  obtain event' s2 where "event' = event \<or> text_field event' ''type'' = Some ''response.reasoning_summary_text.delta''"
    and ev: "text_field event ''type'' = Some ''response.completed'' \<longrightarrow> event' = event"
    "reads s2 d" "\<not> rc_completed s2" "dispatch_response_event event' s2 = (Inr c2, s)"
    by (rule event_live [OF 2 d(2) live])
  from ev(1,4) assms(3) have oc: "on_completed event s2 = (Inr c2, s)" by (simp add: dispatch_response_event_def)
  obtain items' s3 cs1 s4 x s5 u where it: "terminal_output response = Inr items'" and ti: "terminal_items items' s3 = (Inr cs1, s4)"
    and ch: "chunk [] (Some (if list_ex (\<lambda>(_, p). fs_header p) (rc_tool_states s4) then ''tool_calls'' else ''stop''))
       (s4\<lparr>rc_completed := True\<rparr>) = (Inr x, s5)"
    and us: "usage_chunks (object_field response ''usage'') s5 = (Inr u, s)"
    by (rule on_completedE [OF oc]) (simp add: assms(4))
  from it assms(5) have [simp]: "items' = items" by (simp add: terminal_output_def)
  have ts: "rc_tool_states s = rc_tool_states s4"
    using chunk_ok(1) [OF ch] usage_chunks_ok(1) [OF us] by (simp add: envelope_only_def)
  from reads_event [OF 2 d(2)] obtain c where c: "client_run d c2 = Some c" "reads s c" by blast
  have "\<exists>k. dict_get (cl_calls c) k = Some (i, n, a)" if "listed_last items i = Some (n, a)" for i n a
  proof -
    have "known (rc_tool_states s) (i, n, a)" using terminal_items_ok [OF ti, of i "(n, a)"] that ts by simp
    then obtain k p where kp: "dict_get (rc_tool_states s) k = Some p" "fs_header p" "(i, n, a) = (fs_id p, fs_name p, fs_arguments p)"
      unfolding known_def by blast
    have "mirrors (rc_tool_states s) c" using c(2) by (simp add: reads_def)
    from mirrorsD(4) [OF this kp(1,2)] kp(3) show ?thesis by auto
  qed
  moreover have "rc_completed s" using reads_completed [OF oc ev(2,3)] by blast
  ultimately show ?thesis using c(1) client_run_append [OF d(1)] by (simp add: cs)
qed

text \<open>C8: When the response completes, every function call its terminal event lists is a call of the client,
  with that id and name and with exactly the listed arguments, however they were split into deltas before
  and whichever of them never came as a delta.  An id listed more than once counts with its last
  listing, which the client's call then has.\<close>
theorem terminal_calls_delivered:
  assumes "convert_responses (events @ [event]) (new_responses_converter now ids str_fun preserve) = (Inr chunks, s)"
    and "\<forall>e \<in> set events. text_field e ''type'' \<noteq> Some ''response.completed''"
    and "text_field event ''type'' = Some ''response.completed''" "object_field event ''response'' = Some response"
    and "dict_get response ''output'' = Some (JArr items)" "listed_last items i = Some (n, a)"
  shows "\<exists>c k. client_run client_begin chunks = Some c \<and> dict_get (cl_calls c) k = Some (i, n, a)"
  using terminal_calls_reach [OF assms(1-5)] assms(6) by blast

theorem terminal_calls_delivered_witness:
  "\<exists>cs s c i. convert_responses (sample_events @ [sample_completed]) sample_converter = (Inr cs, s)
    \<and> client_run client_begin cs = Some c \<and> dict_get (cl_calls c) i = Some (''a'', ''g'', ''{}'')"
proof -
  obtain cs s where 1: "convert_responses (sample_events @ [sample_completed]) sample_converter = (Inr cs, s)"
    by (rule sample_lengthE [OF sample_responses])
  have e: "\<forall>e \<in> set sample_events. text_field e ''type'' \<noteq> Some ''response.completed''"
    "text_field sample_completed ''type'' = Some ''response.completed''"
    "object_field sample_completed ''response'' = Some [(''output'', JArr [sample_call ''{}''])]"
    by (simp_all add: sample_events_def sample_completed_def sample_event_def text_field_def object_field_def)
  have l: "listed_last [sample_call ''{}''] ''a'' = Some (''g'', ''{}'')" by code_simp
  have out: "dict_get [(''output'', JArr [sample_call ''{}''])] ''output'' = Some (JArr [sample_call ''{}''])" by simp
  from terminal_calls_delivered [OF 1 e out l] 1 show ?thesis by blast
qed

section \<open>Reasoning that is doubled\<close>

lemma emit_reasoning_fresh:
  assumes "rc_response_id s = JNull" "rc_model s = JNull"
  shows "\<exists>i n v d. emit_reasoning t s = (Inr [chunk_object i n JNull [chunk_choice [(''reasoning_content'', JStr t)] None]],
     s\<lparr>rc_texts_emitted := add_emitted [t] (rc_texts_emitted s), rc_visible := v, rc_drawn := d, rc_created_at := Some n\<rparr>)"
proof -
  let ?n = "case rc_created_at s of None \<Rightarrow> rc_now s | Some k \<Rightarrow> k"
  have "emit_reasoning t s = (Inr [chunk_object (JStr (''chatcmpl_'' @ rc_ids s (rc_drawn s))) ?n JNull
       [chunk_choice [(''reasoning_content'', JStr t)] None]],
     s\<lparr>rc_texts_emitted := add_emitted [t] (rc_texts_emitted s), rc_visible := True, rc_drawn := rc_drawn s + 1, rc_created_at := Some ?n\<rparr>)"
    using assms by (simp add: emit_reasoning_def single_def chunk_def is_visible_def dict_has_def chunk_id_def stream_created_def truthy_def
        stable_unix_created_def remember_unix_created_def unix_created_from_mappings_def unix_created_timestamp_def
        bind_def modify_def change_def check_def lift_result_def ret_def split: option.split)
  then show ?thesis by blast
qed

lemma summary_event:
  assumes "\<not> rc_completed s" "rc_preserve s" "rc_raw_texts s = []" "t \<noteq> []"
  shows "chunks_for_event (sample_event ''response.reasoning_summary_text.delta'' [(''delta'', JStr t)]) s = emit_reasoning t s"
    "chunks_for_event (sample_event ''response.reasoning_summary_text.done'' [(''text'', JStr t)]) s = emit_new_reasoning t s"
proof -
  show "chunks_for_event (sample_event ''response.reasoning_summary_text.delta'' [(''delta'', JStr t)]) s = emit_reasoning t s"
    "chunks_for_event (sample_event ''response.reasoning_summary_text.done'' [(''text'', JStr t)]) s = emit_new_reasoning t s"
    using assms
    by (cases s; simp add: chunks_for_event_def normalize_raw_reasoning_def is_reasoning_part_def event_kind_in_def sample_event_def
        text_field_def get_or_null_def hashable_def bind_def check_def lift_result_def modify_def change_def add_emitted_def
        dispatch_response_event_def on_summary_delta_def on_summary_done_def require_preserve_def guard_def)+
qed

lemma concat_longer: "[] \<notin> set ds \<Longrightarrow> length ds \<le> length (concat ds)"
proof (induction ds)
  case (Cons d ds)
  then have "1 \<le> length d" "length ds \<le> length (concat ds)" by (auto simp: Suc_le_eq)
  then show ?case by simp
qed simp

lemma concat_is_member:
  assumes "ds \<noteq> []" and "[] \<notin> set ds"
  shows "concat ds \<in> set ds \<longleftrightarrow> length ds = 1"
proof
  assume "concat ds \<in> set ds"
  then obtain xs ys where split: "ds = xs @ concat ds # ys" by (auto simp: in_set_conv_decomp)
  then have "length (concat ds) = length (concat xs) + length (concat ds) + length (concat ys)"
    by (metis concat.simps(2) concat_append length_append add.assoc)
  moreover have "length xs \<le> length (concat xs)" "length ys \<le> length (concat ys)"
    using assms(2) by (subst (asm) split, intro concat_longer, simp)+
  ultimately have "length xs = 0" "length ys = 0" by linarith+
  then have "xs = []" "ys = []" by simp_all
  with split show "length ds = 1" by (metis append_Nil length_Cons list.size(3) One_nat_def)
next
  assume "length ds = 1"
  then obtain d where "ds = [d]" by (cases ds) auto
  then show "concat ds \<in> set ds" by simp
qed

text \<open>The events of one reasoning summary: its deltas, and its final text.\<close>

definition summary_deltas :: "string list \<Rightarrow> obj list" where
  "summary_deltas ds = map (\<lambda>t. sample_event ''response.reasoning_summary_text.delta'' [(''delta'', JStr t)]) ds"

definition summary_done :: "string \<Rightarrow> obj" where
  "summary_done t = sample_event ''response.reasoning_summary_text.done'' [(''text'', JStr t)]"

text \<open>A converter that has only sent the reasoning texts of a list.\<close>

definition only_reasoned :: "string set \<Rightarrow> responses_converter \<Rightarrow> bool" where
  "only_reasoned ts s \<longleftrightarrow> \<not> rc_completed s \<and> rc_preserve s \<and> rc_raw_texts s = [] \<and> rc_response_id s = JNull
     \<and> rc_model s = JNull \<and> set (rc_texts_emitted s) = ts"

lemma set_add_emitted: "set (add_emitted ts emitted) = set ts \<union> set emitted"
  by (induction ts arbitrary: emitted) (auto simp: add_emitted_def)

text \<open>The chunk of one reasoning text, as the client reads it.\<close>

definition reasons :: "string list \<Rightarrow> obj list \<Rightarrow> bool" where
  "reasons ts chunks \<longleftrightarrow>
     (\<forall>c. cl_finish c = None \<longrightarrow> client_run c chunks = Some (c\<lparr>cl_reasoning := cl_reasoning c @ ts\<rparr>))"

lemma reasons_append: "reasons ts xs \<Longrightarrow> reasons us ys \<Longrightarrow> reasons (ts @ us) (xs @ ys)"
  by (simp add: reasons_def client_run_append)

lemma emit_reasoned:
  assumes "only_reasoned ts s"
  obtains cs s' where "emit_reasoning t s = (Inr cs, s')" "only_reasoned (insert t ts) s'" "reasons [t] cs"
proof -
  from assms emit_reasoning_fresh [of s t] obtain i n v d where
    "emit_reasoning t s = (Inr [chunk_object i n JNull [chunk_choice [(''reasoning_content'', JStr t)] None]],
     s\<lparr>rc_texts_emitted := add_emitted [t] (rc_texts_emitted s), rc_visible := v, rc_drawn := d, rc_created_at := Some n\<rparr>)"
    by (auto simp: only_reasoned_def)
  with assms show thesis
    by (intro that) (auto simp: only_reasoned_def set_add_emitted reasons_def client_step_chunk client_delta_def text_field_def)
qed

lemma summary_deltas_sent:
  "only_reasoned ts s \<Longrightarrow> [] \<notin> set ds \<Longrightarrow>
   \<exists>chunks s'. convert_responses (summary_deltas ds) s = (Inr chunks, s') \<and> only_reasoned (set ds \<union> ts) s' \<and> reasons ds chunks"
proof (induction ds arbitrary: s ts)
  case Nil
  then show ?case by (simp add: summary_deltas_def ret_def reasons_def)
next
  case (Cons t ds)
  obtain cs s1 where 1: "emit_reasoning t s = (Inr cs, s1)" "only_reasoned (insert t ts) s1" "reasons [t] cs"
    by (rule emit_reasoned [OF Cons.prems(1)])
  from Cons.IH [OF 1(2)] Cons.prems(2) obtain ds' s2 where 2: "convert_responses (summary_deltas ds) s1 = (Inr ds', s2)"
    "only_reasoned (set ds \<union> insert t ts) s2" "reasons ds ds'" by auto
  have "chunks_for_event (sample_event ''response.reasoning_summary_text.delta'' [(''delta'', JStr t)]) s = (Inr cs, s1)"
    using Cons.prems 1(1) by (subst summary_event) (auto simp: only_reasoned_def)
  with 2 reasons_append [OF 1(3) 2(3)] show ?case by (simp add: summary_deltas_def bind_def ret_def)
qed

lemma convert_append:
  assumes "convert_responses es s = (Inr xs, s1)" and "convert_responses fs s1 = (Inr ys, s2)"
  shows "convert_responses (es @ fs) s = (Inr (xs @ ys), s2)"
  using assms
proof (induction es arbitrary: s xs)
  case (Cons e es)
  then obtain c1 s0 c2 where "chunks_for_event e s = (Inr c1, s0)" "convert_responses es s0 = (Inr c2, s1)" "xs = c1 @ c2"
    by (auto elim!: bindE simp: ret_ok)
  with Cons show ?case by (simp add: bind_def ret_def)
qed (simp add: ret_def)

text \<open>C36: The final text of a reasoning summary is sent again after its deltas exactly when none of the
  deltas is the whole of it: the check against the texts already sent knows the deltas one by one, not
  what they add up to.  So a summary that came as one delta is sent once, and one that came as two or
  more is read twice by the client.\<close>
theorem summary_sent_twice:
  assumes "ds \<noteq> []" and "[] \<notin> set ds"
  shows "\<exists>chunks s c. convert_responses (summary_deltas ds @ [summary_done (concat ds)])
      (new_responses_converter now ids str_fun True) = (Inr chunks, s)
    \<and> client_run client_begin chunks = Some c
    \<and> cl_reasoning c = ds @ (if length ds = 1 then [] else [concat ds])"
proof -
  have fresh: "only_reasoned {} (new_responses_converter now ids str_fun True)"
    by (simp add: only_reasoned_def new_responses_converter_def)
  from summary_deltas_sent [OF fresh assms(2)] obtain xs s1 where
    1: "convert_responses (summary_deltas ds) (new_responses_converter now ids str_fun True) = (Inr xs, s1)"
    "only_reasoned (set ds) s1" "reasons ds xs" by auto
  have some: "concat ds \<noteq> []" using assms by (cases ds) auto
  have done_event: "chunks_for_event (summary_done (concat ds)) s1 = emit_new_reasoning (concat ds) s1"
    using 1(2) some unfolding summary_done_def by (subst summary_event) (auto simp: only_reasoned_def)
  have whole: "concat ds \<in> set ds \<longleftrightarrow> length ds = 1" by (rule concat_is_member) (use assms in auto)
  obtain ys s2 where 2: "emit_new_reasoning (concat ds) s1 = (Inr ys, s2)"
    "reasons (if length ds = 1 then [] else [concat ds]) ys"
  proof (cases "length ds = 1")
    case True
    with whole 1(2) have "emit_new_reasoning (concat ds) s1 = (Inr [], s1)"
      by (simp add: emit_new_reasoning_def only_reasoned_def ret_def)
    then show thesis by (rule that) (simp add: True reasons_def)
  next
    case False
    obtain ys s2 where "emit_reasoning (concat ds) s1 = (Inr ys, s2)" "reasons [concat ds] ys"
      by (rule emit_reasoned [OF 1(2)])
    with False whole 1(2) some show thesis
      by (intro that [of ys s2]) (simp_all add: emit_new_reasoning_def only_reasoned_def del: concat_eq_Nil_conv)
  qed
  have "convert_responses [summary_done (concat ds)] s1 = (Inr ys, s2)"
    by (simp add: bind_def ret_def done_event 2(1))
  from convert_append [OF 1(1) this] reasons_append [OF 1(3) 2(2)] show ?thesis
    by (auto simp: reasons_def client_begin_def)
qed

theorem summary_sent_twice_witness:
  "\<exists>chunks s c. convert_responses (summary_deltas [''a'', ''b''] @ [summary_done ''ab'']) sample_converter = (Inr chunks, s)
    \<and> client_run client_begin chunks = Some c \<and> cl_reasoning c = [''a'', ''b'', ''ab'']"
  using summary_sent_twice [of "[''a'', ''b'']" 5 "\<lambda>_. ''x''" "\<lambda>_. []"] by simp

end
