(* ===== verification/Roundtrip_Calls.thy ===== *)
theory Roundtrip_Calls
  imports Chat_Stream_Content Responses_Stream_Properties
begin

text \<open>
  Between the two stream translations: which text and which call items the Chat converter's events
  bring, and that the Responses converter then knows calls only under the ids they bring.
\<close>

section \<open>The events of the first translation\<close>

definition texts :: "obj list \<Rightarrow> string" where
  "texts events = concat (map event_text events)"

lemma texts_simps [simp]: "texts [] = []" "texts (e # es) = event_text e @ texts es" "texts (es @ es') = texts es @ texts es'"
  by (simp_all add: texts_def)

lemma event_text_other [simp]:
  "event_text (response_event kind r) = []" "kind \<noteq> ''response.output_text.delta'' \<Longrightarrow> event_text (item_event kind i item) = []"
  "event_text (content_part_event i item_id) = []" "event_text (reasoning_delta_event item_id i t) = []"
  "event_text (reasoning_done_event item_id i t) = []" "event_text (arguments_delta_event item_id i t) = []"
  "event_text (arguments_done_event item_id i t) = []" "event_text (text_done_event item_id i t) = []"
  "event_text (text_delta_event item_id i t) = t"
  by (simp_all add: event_text_def response_event_def item_event_def content_part_event_def reasoning_delta_event_def
      reasoning_done_event_def arguments_delta_event_def arguments_done_event_def text_done_event_def text_delta_event_def)

text \<open>The ids the calls have been given, and the items that may be added: the reasoning item, the
  message, and the calls of these ids, each under the item id made of its own.\<close>

definition call_ids :: "chat_converter \<Rightarrow> string set" where
  "call_ids s = {i. i \<noteq> [] \<and> (\<exists>k t. dict_get (cv_tool_states s) k = Some t \<and> ts_call_id t = i)}"

definition own_item :: "string set \<Rightarrow> obj \<Rightarrow> bool" where
  "own_item ids item \<longleftrightarrow>
     (\<exists>t. item = call_item t ''in_progress'' [] \<and> ts_item_id t = ''fc_'' @ ts_call_id t \<and> ts_name t \<noteq> []
        \<and> ts_call_id t \<noteq> [] \<and> ts_call_id t \<in> ids)
     \<or> (\<exists>s status content. item = message_item s status content)
     \<or> (\<exists>s status summary. item = reasoning_item s status summary)"

definition adds_own :: "string set \<Rightarrow> obj \<Rightarrow> bool" where
  "adds_own ids e \<longleftrightarrow>
     (text_field e ''type'' = Some ''response.output_item.added'' \<longrightarrow>
        (\<exists>item. get_or_null e ''item'' = JObj item \<and> own_item ids item))"

lemma own_item_mono: "own_item ids item \<Longrightarrow> ids \<subseteq> ids' \<Longrightarrow> own_item ids' item"
  unfolding own_item_def by blast

lemma adds_own_mono: "adds_own ids e \<Longrightarrow> ids \<subseteq> ids' \<Longrightarrow> adds_own ids' e"
  unfolding adds_own_def using own_item_mono by blast

lemma adds_own_other [simp]:
  "kind \<noteq> ''response.output_item.added'' \<Longrightarrow> adds_own ids (response_event kind r)"
  "kind \<noteq> ''response.output_item.added'' \<Longrightarrow> adds_own ids (item_event kind i item)"
  "adds_own ids (content_part_event i item_id)" "adds_own ids (reasoning_delta_event item_id i t)"
  "adds_own ids (reasoning_done_event item_id i t)" "adds_own ids (arguments_delta_event item_id i t)"
  "adds_own ids (arguments_done_event item_id i t)" "adds_own ids (text_done_event item_id i t)"
  "adds_own ids (text_delta_event item_id i t)"
  by (simp_all add: adds_own_def response_event_def item_event_def content_part_event_def reasoning_delta_event_def
      reasoning_done_event_def arguments_delta_event_def arguments_done_event_def text_done_event_def text_delta_event_def)

lemma adds_own_item: "adds_own ids (item_event ''response.output_item.added'' i item) \<longleftrightarrow> own_item ids item"
  by (simp add: adds_own_def item_event_def get_or_null_def)

lemma own_item_simps [simp]:
  "own_item ids (message_item s status content)" "own_item ids (reasoning_item s status summary)"
  unfolding own_item_def by blast+

definition relays :: "chat_converter \<Rightarrow> obj list \<Rightarrow> chat_converter \<Rightarrow> bool" where
  "relays s es s' \<longleftrightarrow>
     concat (cv_text_parts s') = concat (cv_text_parts s) @ texts es
     \<and> call_ids s \<subseteq> call_ids s' \<and> (\<forall>e \<in> set es. adds_own (call_ids s') e)"

lemma relays_append: "relays s es s1 \<Longrightarrow> relays s1 es' s' \<Longrightarrow> relays s (es @ es') s'"
  unfolding relays_def by (auto intro: adds_own_mono)

lemma call_ids_same: "cv_tool_states s' = cv_tool_states s \<Longrightarrow> call_ids s' = call_ids s"
  by (simp add: call_ids_def)

lemma relays_same:
  assumes "cv_text_parts s' = cv_text_parts s" and "cv_tool_states s' = cv_tool_states s"
    and "texts es = []" and "\<forall>e \<in> set es. \<forall>ids. adds_own ids e"
  shows "relays s es s'"
  using assms call_ids_same [OF assms(2)] by (simp add: relays_def)

lemma relays_refl [simp]: "relays s [] s"
  by (simp add: relays_same)

lemma call_idsI: "dict_get (cv_tool_states s) k = Some t \<Longrightarrow> ts_call_id t \<noteq> [] \<Longrightarrow> ts_call_id t \<in> call_ids s"
  by (auto simp: call_ids_def)

lemma call_ids_put:
  assumes put: "tool_put s k t' s'" and kept: "\<And>t. dict_get (cv_tool_states s) k = Some t \<Longrightarrow> ts_call_id t = [] \<or> ts_call_id t' = ts_call_id t"
  shows "call_ids s \<subseteq> call_ids s'" "ts_call_id t' \<noteq> [] \<Longrightarrow> ts_call_id t' \<in> call_ids s'"
proof -
  have get: "dict_get (cv_tool_states s') = (dict_get (cv_tool_states s))(k \<mapsto> t')"
    using put by (auto simp: tool_put_def dict_simps)
  show new: "ts_call_id t' \<in> call_ids s'" if "ts_call_id t' \<noteq> []"
    using that by (intro call_idsI [of _ k]) (simp_all add: get)
  show "call_ids s \<subseteq> call_ids s'"
  proof
    fix i assume "i \<in> call_ids s"
    then obtain j u where u: "i \<noteq> []" "dict_get (cv_tool_states s) j = Some u" "ts_call_id u = i" by (auto simp: call_ids_def)
    show "i \<in> call_ids s'"
    proof (cases "j = k")
      case True
      with u kept have "ts_call_id t' = i" by auto
      with new u(1) show ?thesis by simp
    next
      case False
      with u call_idsI [of s' j u] show ?thesis by (simp add: get)
    qed
  qed
qed

lemma relays_created:
  assumes "created_events s = (Inr es, s')"
  shows "relays s es s'"
  using created_events_ok [OF assms] by (intro relays_same) (auto split: if_splits)

lemma relays_message_start:
  assumes "message_start_events s = (Inr es, s')"
  shows "relays s es s'"
proof -
  from assms obtain ec s1 where c: "created_events s = (Inr ec, s1)" and
    r: "if cv_message_started s then es = ec \<and> s' = s1
     else \<exists>i s2. message_index s1 = (Inr i, s2) \<and> s' = s2\<lparr>cv_message_started := True\<rparr>
       \<and> es = ec @ [item_event ''response.output_item.added'' i (message_item s2 ''in_progress'' []), content_part_event i (cv_item_id s2)]"
    by (rule message_start_ok)
  show ?thesis
  proof (cases "cv_message_started s")
    case True
    with r relays_created [OF c] show ?thesis by simp
  next
    case False
    with r obtain i s2 where i: "message_index s1 = (Inr i, s2)" "s' = s2\<lparr>cv_message_started := True\<rparr>"
      and es: "es = ec @ [item_event ''response.output_item.added'' i (message_item s2 ''in_progress'' []), content_part_event i (cv_item_id s2)]"
      by auto
    have "relays s1 [item_event ''response.output_item.added'' i (message_item s2 ''in_progress'' []), content_part_event i (cv_item_id s2)] s'"
      using message_index_ok [OF i(1)] i(2) by (intro relays_same) (auto simp: adds_own_item split: if_splits)
    with relays_created [OF c] show ?thesis unfolding es by (rule relays_append)
  qed
qed

lemma relays_content:
  assumes "content_events source s = (Inr es, s')"
  shows "relays s es s'"
proof (cases "text_or_empty source ''content'' = []")
  case True
  with assms have "s' = s" "es = []"
    by (auto simp: content_events_def text_or_empty_def text_field_def action_ok split: option.splits json.splits if_splits)
  then show ?thesis by simp
next
  case False
  let ?t = "text_or_empty source ''content''"
  from False have t: "dict_get source ''content'' = Some (JStr ?t)"
    by (auto simp: text_or_empty_def text_field_def split: option.splits json.splits)
  let ?s = "s\<lparr>cv_text_parts := cv_text_parts s @ [?t]\<rparr>"
  from assms t False obtain e i id where "message_start_events ?s = (Inr e, s')" "es = e @ [text_delta_event id i ?t]"
    by (auto simp: content_events_def update_ok elim!: bindE simp: ret_ok)
  with gathers_message_start [OF this(1)] relays_message_start [OF this(1)] show ?thesis
    by (auto simp: relays_def gathers_def gathered_def call_ids_def)
qed

lemma relays_reasoning:
  assumes "reasoning_events text s = (Inr es, s')"
  shows "relays s es s'"
proof (cases "text = [] \<or> text \<in> set (cv_reasoning_parts s)")
  case True
  with assms show ?thesis by (simp add: reasoning_events_def ret_ok)
next
  case False
  then have "text \<noteq> []" "text \<notin> set (cv_reasoning_parts s)" by simp_all
  from reasoning_events_ok [OF assms this] obtain ec s1 i s2 where
    c: "created_events (s\<lparr>cv_reasoning_parts := cv_reasoning_parts s @ [text]\<rparr>) = (Inr ec, s1)"
    and i: "reasoning_index s1 = (Inr i, s2)" and s': "s' = s2\<lparr>cv_reasoning_started := True\<rparr>"
    and es: "es = ec @ (if cv_reasoning_started s2 then []
                else [item_event ''response.output_item.added'' i (reasoning_item s2 ''in_progress'' [])])
             @ [reasoning_delta_event (cv_reasoning_item_id s2) i text]" by metis
  have "relays (s\<lparr>cv_reasoning_parts := cv_reasoning_parts s @ [text]\<rparr>) ec s1" by (rule relays_created [OF c])
  then have "relays s ec s1" by (simp add: relays_def call_ids_def)
  moreover have "relays s1 ((if cv_reasoning_started s2 then []
                else [item_event ''response.output_item.added'' i (reasoning_item s2 ''in_progress'' [])])
             @ [reasoning_delta_event (cv_reasoning_item_id s2) i text]) s'"
    unfolding s' using reasoning_index_ok [OF i] by (intro relays_same) (auto simp: adds_own_item split: if_splits)
  ultimately show ?thesis unfolding es by (rule relays_append)
qed

lemma relays_tool_call:
  assumes "tool_call_events tc n s = (Inr es, s')"
  shows "relays s es s'"
proof -
  from assms obtain k t s1 t1 s2 t2 a s3 t3 e3 where t: "tool_state_for k s = (Inr t, s1)"
    and c1: "merge_call_id (get_or_null tc ''id'') t = Inr t1" and p1: "tool_put s1 k t1 s2"
    and f: "merge_function k (get_or_null tc ''function'') t1 s2 = (Inr (t2, a), s3)"
    and ta: "tool_added_events k t2 s3 = (Inr (t3, e3), s')"
    and es: "es = e3 @ (if ts_added t3 \<and> a \<noteq> [] then [arguments_delta_event (ts_item_id t3) (ts_output_index t3) a] else [])"
    by (rule tool_call_ok)
  note T = gathers_state [OF t]
  note m = merge_function_ok [OF f tool_put_get [OF p1]]
  have put2: "tool_put s1 k t2 s3" using tool_put_trans [OF p1] m by blast
  have "ts_call_id t2 = ts_call_id t1" using m by (cases t1; cases t2) auto
  with merge_call_id_ok(2) [OF c1] have kept: "ts_call_id t = [] \<or> ts_call_id t2 = ts_call_id t" by auto
  have "call_ids s \<subseteq> call_ids s1"
  proof (cases "dict_get (cv_tool_states s) k")
    case None
    with t obtain n where "put_tool k t (s\<lparr>cv_next_output_index := n\<rparr>) = (Inr (), s1)"
      by (auto simp: tool_state_for_def Let_def allocate_output_index_def action_ok)
    from call_ids_put(1) [OF put_tool_ok [OF this]] None show ?thesis by (simp add: call_ids_def)
  next
    case (Some t0)
    with t show ?thesis by (simp add: tool_state_for_def ret_ok)
  qed
  moreover have "ts_call_id u = [] \<or> ts_call_id t2 = ts_call_id u" if "dict_get (cv_tool_states s1) k = Some u" for u
    using that T(1) kept by simp
  from call_ids_put(1) [OF put2 this] have "call_ids s1 \<subseteq> call_ids s3" .
  ultimately have ids3: "call_ids s \<subseteq> call_ids s3" by blast
  have texts3: "cv_text_parts s3 = cv_text_parts s"
    using T(3) put2 by (auto simp: gathers_def gathered_def tool_put_def)
  have e3: "relays s3 e3 s'"
  proof (cases "ts_added t2 \<or> ts_call_id t2 = [] \<or> ts_name t2 = []")
    case True
    with tool_added_ok [OF ta] show ?thesis by simp
  next
    case False
    with tool_added_ok [OF ta] obtain ec s4 where c: "created_events s3 = (Inr ec, s4)" and p: "tool_put s4 k t3 s'"
      and t3: "t3 = t2\<lparr>ts_item_id := ''fc_'' @ ts_call_id t2, ts_added := True\<rparr>"
      and e: "e3 = ec @ [item_event ''response.output_item.added'' (ts_output_index t3) (call_item t3 ''in_progress'' [])]" by auto
    have t4: "dict_get (cv_tool_states s4) k = Some t2"
      using tool_put_get [OF put2] created_events_ok(1) [OF c] by auto
    have "ts_call_id u = [] \<or> ts_call_id t3 = ts_call_id u" if "dict_get (cv_tool_states s4) k = Some u" for u
      using that t4 by (simp add: t3)
    note P = call_ids_put [OF p this]
    have "own_item (call_ids s') (call_item t3 ''in_progress'' [])"
      using P(2) False unfolding own_item_def by (intro disjI1 exI [of _ t3]) (simp add: t3)
    moreover have "call_ids s4 \<subseteq> call_ids s'" "cv_text_parts s' = cv_text_parts s4"
      using P(1) p by (simp_all add: t3 tool_put_def)
    ultimately have "relays s4 [item_event ''response.output_item.added'' (ts_output_index t3) (call_item t3 ''in_progress'' [])] s'"
      by (simp add: relays_def adds_own_item)
    with relays_created [OF c] show ?thesis unfolding e by (rule relays_append)
  qed
  have "relays s [] s3" using ids3 texts3 by (simp add: relays_def)
  from relays_append [OF this e3]
  have "relays s e3 s'" by simp
  moreover have "relays s' (if ts_added t3 \<and> a \<noteq> [] then [arguments_delta_event (ts_item_id t3) (ts_output_index t3) a] else []) s'"
    by (rule relays_same) auto
  ultimately show ?thesis unfolding es by (rule relays_append)
qed

lemma relays_tool_calls: "tool_calls_events vs n s = (Inr es, s') \<Longrightarrow> relays s es s'"
proof (induction vs arbitrary: n s es)
  case (Cons v vs)
  from Cons.prems obtain tc where v: "v = JObj tc" by (cases v) (auto simp: json_object_def attempt_ok)
  with Cons.prems obtain e1 e2 s1 where 1: "tool_call_events tc n s = (Inr e1, s1)" "tool_calls_events vs (n + 1) s1 = (Inr e2, s')"
    and es: "es = e1 @ e2"
    by (auto elim!: bindE simp: ret_ok)
  show ?case unfolding es by (rule relays_append [OF relays_tool_call [OF 1(1)] Cons.IH [OF 1(2)]])
qed (simp add: ret_ok)

lemma relays_source:
  assumes "source_events source s = (Inr es, s')"
  shows "relays s es s'"
proof -
  from assms obtain e1 s1 e2 s2 e3 where
    1: "(case reasoning_texts source of [] \<Rightarrow> give [] | text # _ \<Rightarrow> reasoning_events text) s = (Inr e1, s1)"
    and 2: "content_events source s1 = (Inr e2, s2)"
    and 3: "(case get_or_null source ''tool_calls'' of JNull \<Rightarrow> give []
           | JArr tool_calls \<Rightarrow> tool_calls_events tool_calls 0 | _ \<Rightarrow> attempt (Inl UNSUPPORTED_SEMANTICS)) s2 = (Inr e3, s')"
    and es: "es = e1 @ e2 @ e3"
    unfolding source_events_def by (elim bind_attemptE bindE) (simp add: ret_ok)
  have "relays s e1 s1" using 1 by (auto simp: ret_ok relays_reasoning split: list.splits)
  moreover have "relays s2 e3 s'" using 3 by (auto simp: action_ok relays_tool_calls split: json.splits)
  ultimately show ?thesis unfolding es using relays_content [OF 2] by (blast intro: relays_append)
qed

lemma relays_choices: "choices_events vs s = (Inr es, s') \<Longrightarrow> relays s es s'"
proof (induction vs arbitrary: s es)
  case (Cons v vs)
  show ?case
  proof (cases "json_object v")
    case None
    with Cons show ?thesis by simp
  next
    case (Some choice)
    with Cons.prems obtain e1 s1 u s2 e2 where
      1: "(case chat_stream_source choice of None \<Rightarrow> give [] | Some source \<Rightarrow> source_events source) s = (Inr e1, s1)"
      and 2: "note_finish (get_or_null choice ''finish_reason'') s1 = (Inr u, s2)"
      and 3: "choices_events vs s2 = (Inr e2, s')" and es: "es = e1 @ e2"
      by (auto elim!: bindE simp: ret_ok)
    have "relays s e1 s1" using 1 by (auto simp: ret_ok relays_source split: option.splits)
    moreover have "relays s1 [] s2" using note_finish_frame [OF 2] by (intro relays_same) auto
    ultimately have "relays s e1 s2" using relays_append by fastforce
    then show ?thesis unfolding es by (rule relays_append) (rule Cons.IH [OF 3])
  qed
qed (simp add: ret_ok)

lemma relays_chunk:
  assumes "\<not> cv_completed s" and "events_for_chunk ck s = (Inr es, s')"
  shows "relays s es s'"
  using assms(2,1)
proof (cases rule: events_for_chunkE)
  case (usage u)
  then show ?thesis by (intro relays_same) simp_all
next
  case (choices m c)
  from relays_choices [OF this] show ?thesis by (simp add: relays_def call_ids_def)
qed

lemma relays_chunks:
  "simulates s p \<Longrightarrow> convert_chunks chunks s = (Inr es, s') \<Longrightarrow> relays s es s'"
proof (induction chunks arbitrary: s p es)
  case Nil
  then show ?case by (simp add: ret_ok)
next
  case (Cons ck chunks)
  obtain e1 s1 e2 where 1: "events_for_chunk ck s = (Inr e1, s1)" "convert_chunks chunks s1 = (Inr e2, s')" and es: "es = e1 @ e2"
    by (rule convert_ConsE [OF Cons.prems(2)])
  obtain p1 where "simulates s1 p1" using run_chunk [OF Cons.prems(1) 1(1)] by blast
  from Cons.IH [OF this 1(2)] relays_chunk [OF _ 1(1)] Cons.prems(1) show ?case
    unfolding es by (auto simp: simulates_def converter_ok_def intro: relays_append)
qed

text \<open>The completion only closes items.\<close>

definition closes :: "obj list \<Rightarrow> bool" where
  "closes es \<longleftrightarrow> texts es = [] \<and> (\<forall>e \<in> set es. \<forall>ids. adds_own ids e)"

lemma closes_simps [simp]: "closes []" "closes (es @ es') \<longleftrightarrow> closes es \<and> closes es'"
  by (auto simp: closes_def)

lemma closes_created: "created_events s = (Inr es, s') \<Longrightarrow> closes es"
  using created_events_ok(2) [of s es s'] by (auto simp: closes_def split: if_splits)

lemma closes_reasoning: "complete_reasoning s = (Inr (es, items), s') \<Longrightarrow> closes es"
  by (auto simp: complete_reasoning_def Let_def action_ok closes_def split: if_splits option.splits)

lemma closes_tools:
  "complete_tools ents items s = (Inr (es, items'), s') \<Longrightarrow> (\<And>k t. (k, t) \<in> set ents \<Longrightarrow> tool_ok t) \<Longrightarrow> closes es"
proof (induction ents arbitrary: items s es)
  case (Cons kt ents)
  obtain k t where kt: "kt = (k, t)" by (cases kt)
  from Cons.prems(1) obtain e1 items1 s1 e2 where 1: "complete_tool (k, t) items s = (Inr (e1, items1), s1)"
    and 2: "complete_tools ents items1 s1 = (Inr (e2, items'), s')" and es: "es = e1 @ e2"
    unfolding kt by (rule complete_tools_ConsE)
  have "tool_ok t" using Cons.prems(2) [of k t] by (simp add: kt)
  from complete_tool_ok(2) [OF 1 this] have "closes e1" by (simp add: closes_def)
  moreover have "closes e2" using Cons.IH [OF 2] Cons.prems(2) by (metis list.set_intros(2))
  ultimately show ?case by (simp add: es)
qed (simp add: ret_ok)

lemma closes_message: "complete_message items s = (Inr (es, items'), s') \<Longrightarrow> closes es"
  by (auto simp: complete_message_def Let_def ret_ok closes_def split: if_splits)

section \<open>The calls of the second translation\<close>

text \<open>A call is kept under the item id made of its own id.\<close>

definition entry :: "string set \<Rightarrow> string \<Rightarrow> call_progress \<Rightarrow> bool" where
  "entry ids key p \<longleftrightarrow> fs_id p = [] \<or> fs_id p \<in> ids \<and> key = ''fc_'' @ fs_id p"

definition keyed :: "string set \<Rightarrow> (string, call_progress) dict \<Rightarrow> bool" where
  "keyed ids ts \<longleftrightarrow> (\<forall>key p. dict_get ts key = Some p \<longrightarrow> entry ids key p)"

text \<open>An action that keeps the calls so, and returns such a value.\<close>

definition yields :: "string set \<Rightarrow> 'a translating \<Rightarrow> ('a \<Rightarrow> bool) \<Rightarrow> bool" where
  "yields ids h Q \<longleftrightarrow> (\<forall>s a s'. h s = (Inr a, s') \<longrightarrow> keyed ids (rc_tool_states s) \<longrightarrow> keyed ids (rc_tool_states s') \<and> Q a)"

abbreviation keeps_calls :: "string set \<Rightarrow> 'a translating \<Rightarrow> bool" where
  "keeps_calls ids h \<equiv> yields ids h (\<lambda>_. True)"

lemma yieldsI:
  "(\<And>s a s'. h s = (Inr a, s') \<Longrightarrow> keyed ids (rc_tool_states s) \<Longrightarrow> keyed ids (rc_tool_states s') \<and> Q a) \<Longrightarrow> yields ids h Q"
  by (simp add: yields_def)

lemma yieldsD:
  assumes "yields ids h Q" "h s = (Inr a, s')" "keyed ids (rc_tool_states s)"
  shows "keyed ids (rc_tool_states s')" "Q a"
  using assms unfolding yields_def by blast+

lemma yields_bind:
  assumes "yields ids m Q" and "\<And>a. Q a \<Longrightarrow> yields ids (f a) R"
  shows "yields ids (bind m f) R"
proof (rule yieldsI)
  fix s b s' assume "bind m f s = (Inr b, s')" and k: "keyed ids (rc_tool_states s)"
  then obtain a s1 where "m s = (Inr a, s1)" "f a s1 = (Inr b, s')" by (elim bindE)
  with yieldsD [OF assms(1) _ k] yieldsD [OF assms(2)] show "keyed ids (rc_tool_states s') \<and> R b" by metis
qed

lemma yields_then: "keeps_calls ids m \<Longrightarrow> (\<And>a. keeps_calls ids (f a)) \<Longrightarrow> keeps_calls ids (bind m f)"
  by (rule yields_bind)

lemma yields_reply: "Q a \<Longrightarrow> yields ids (ret a) Q"
  by (rule yieldsI) (simp add: ret_ok)

lemma yields_check: "(\<And>a. r = Inr a \<Longrightarrow> Q a) \<Longrightarrow> yields ids (check r) Q"
  by (rule yieldsI) (auto simp: check_ok)

lemma keeps_check: "keeps_calls ids (check r)"
  by (rule yields_check) simp

lemma keeps_reply: "keeps_calls ids (ret a)"
  by (rule yields_reply) simp

lemma keeps_same: "(\<And>s a s'. h s = (Inr a, s') \<Longrightarrow> rc_tool_states s' = rc_tool_states s) \<Longrightarrow> keeps_calls ids h"
  by (rule yieldsI) simp

lemma keeps_modify: "(\<And>s. rc_tool_states (f s) = rc_tool_states s) \<Longrightarrow> keeps_calls ids (modify f)"
  by (rule keeps_same) (auto simp: modify_ok)

lemma keeps_state: "(\<And>s. keeps_calls ids (h s)) \<Longrightarrow> keeps_calls ids (\<lambda>s. h s s)"
  unfolding yields_def by blast

lemma keeps_cases:
  "keeps_calls ids x \<Longrightarrow> keeps_calls ids y \<Longrightarrow> keeps_calls ids (if b then x else y)"
  "keeps_calls ids x \<Longrightarrow> (\<And>a. keeps_calls ids (f a)) \<Longrightarrow> keeps_calls ids (case v of None \<Rightarrow> x | Some a \<Rightarrow> f a)"
  "keeps_calls ids x \<Longrightarrow> (\<And>c n a. keeps_calls ids (g c n a)) \<Longrightarrow>
     keeps_calls ids (case i of Message_Item \<Rightarrow> x | Function_Item c n a \<Rightarrow> g c n a)"
  by (simp_all split: option.split output_item.split)

lemma keeps_envelope:
  "keeps_calls ids (chunk d fin)" "keeps_calls ids (single d)" "keeps_calls ids (stream_created source)" "keeps_calls ids chunk_id"
  by (rule keeps_same; auto simp: envelope_only_def dest: chunk_ok(1) single_ok(1) stream_created_ok chunk_id_ok)+

lemma keyed_set: "keyed ids ts \<Longrightarrow> entry ids key p \<Longrightarrow> keyed ids (dict_set ts key p)"
  by (auto simp: keyed_def dict_simps)

lemma keeps_put: "entry ids key p \<Longrightarrow> keeps_calls ids (put_progress key p)"
  by (rule yieldsI) (auto dest!: put_progress_ok intro: keyed_set)

lemma yields_progress: "yields ids (progress_for key) (entry ids key)"
proof (rule yieldsI)
  fix s p s' assume r: "progress_for key s = (Inr p, s')" and k: "keyed ids (rc_tool_states s)"
  show "keyed ids (rc_tool_states s') \<and> entry ids key p"
  proof (cases "dict_get (rc_tool_states s) key")
    case None
    let ?p = "\<lparr>fs_index = length (rc_tool_states s), fs_id = [], fs_name = [], fs_arguments = [], fs_header = False\<rparr>"
    from r None have "p = ?p" "rc_tool_states s' = dict_set (rc_tool_states s) key ?p"
      by (auto simp: progress_for_def Let_def ret_ok elim!: bindE dest!: put_progress_ok)
    then show ?thesis using keyed_set [OF k, of key ?p] by (simp add: entry_def)
  next
    case (Some q)
    with r k show ?thesis by (simp add: progress_for_def ret_ok keyed_def)
  qed
qed

lemma entry_update [simp]:
  "entry ids key (p\<lparr>fs_header := b\<rparr>) = entry ids key p" "entry ids key (p\<lparr>fs_arguments := a\<rparr>) = entry ids key p"
  by (simp_all add: entry_def)

lemma keeps_final: "entry ids key p \<Longrightarrow> keeps_calls ids (final_argument_chunks key p a)"
  unfolding final_argument_chunks_def
  by (intro yields_then keeps_check) (simp add: keeps_reply keeps_envelope keeps_put yields_then)

lemma keeps_announced_call: "entry ids key p \<Longrightarrow> keeps_calls ids (announce_call key p a)"
  unfolding announce_call_def Let_def
  by (intro yields_then keeps_put keeps_envelope keeps_final keeps_reply) simp_all

lemma keeps_call_added:
  assumes "\<And>s. str_of s (or_value (or_value (get_or_null item ''id'') (get_or_null item ''call_id'')) (JStr [])) = ''fc_'' @ call_id"
    and "call_id \<in> ids"
  shows "keeps_calls ids (on_call_added item call_id name arguments)"
proof -
  have "entry ids (''fc_'' @ call_id) (p\<lparr>fs_id := call_id, fs_name := name\<rparr>)" for p using assms(2) by (simp add: entry_def)
  then show ?thesis
    unfolding on_call_added_def assms(1) Let_def
    by (intro yields_bind [OF yields_progress] yields_then keeps_check keeps_put keeps_cases keeps_announced_call keeps_final) simp_all
qed

lemma keeps_finish_call: "keeps_calls ids (finish_call item call_id name arguments)"
proof (rule yieldsI)
  fix s a s' assume r: "finish_call item call_id name arguments s = (Inr a, s')" and k: "keyed ids (rc_tool_states s)"
  then obtain key p where p: "dict_get (rc_tool_states s) key = Some p"
    and f: "bind (check (guard (fs_header p) UNPAIRED)) (\<lambda>_. bind (check (guard (fs_id p = call_id \<and> fs_name p = name) UNPAIRED)) (\<lambda>_.
                final_argument_chunks key p arguments)) s = (Inr a, s')"
    by (auto simp: finish_call_def Let_def check_ok split: option.splits)
  from p k have "entry ids key p" by (simp add: keyed_def)
  then have "keeps_calls ids (bind (check (guard (fs_header p) UNPAIRED)) (\<lambda>_. bind (check (guard (fs_id p = call_id \<and> fs_name p = name) UNPAIRED)) (\<lambda>_.
                final_argument_chunks key p arguments)))"
    by (intro yields_then keeps_check keeps_final)
  from yieldsD [OF this f k] show "keyed ids (rc_tool_states s') \<and> True" by simp
qed

lemma keeps_arguments_done: "keeps_calls ids (on_arguments_done event)"
proof (rule yieldsI)
  fix s a s' assume r: "on_arguments_done event s = (Inr a, s')" and k: "keyed ids (rc_tool_states s)"
  then obtain key p v where p: "dict_get (rc_tool_states s) key = Some p" "final_argument_chunks key p v s = (Inr a, s')"
    by (auto simp: on_arguments_done_def Let_def check_ok split: option.splits)
  with k have "keeps_calls ids (final_argument_chunks key p v)" by (intro keeps_final) (simp add: keyed_def)
  from yieldsD [OF this p(2) k] show "keyed ids (rc_tool_states s') \<and> True" by simp
qed

lemma keeps_arguments_delta: "keeps_calls ids (on_arguments_delta event)"
proof -
  have "keeps_calls ids (case get_or_null event ''delta'' of
             JNull \<Rightarrow> reply []
           | JStr d \<Rightarrow>
               (if d = [] then reply []
                else if fs_header p then
                  bind (put_progress key (p\<lparr>fs_arguments := fs_arguments p @ d\<rparr>)) (\<lambda>_. single (arguments_delta p d))
                else
                  bind (check (guard (fs_id p \<noteq> []) UNPAIRED)) (\<lambda>_.
                  bind (check (guard (fs_name p \<noteq> []) UNSUPPORTED_SEMANTICS)) (\<lambda>_.
                  bind (put_progress key (p\<lparr>fs_header := True, fs_arguments := fs_arguments p @ d\<rparr>)) (\<lambda>_.
                    single (header_delta p d)))))
           | _ \<Rightarrow> check (Inl UNSUPPORTED_SEMANTICS))" if "entry ids key p" for key p
  proof -
    have "keeps_calls ids (bind (put_progress key (p\<lparr>fs_arguments := x\<rparr>)) (\<lambda>_. single y))"
      "keeps_calls ids (bind (put_progress key (p\<lparr>fs_header := True, fs_arguments := x\<rparr>)) (\<lambda>_. single y))" for x y
      using that by (intro yields_then keeps_put keeps_envelope; simp)+
    then show ?thesis
      by (cases "get_or_null event ''delta''") (simp_all add: keeps_reply keeps_check yields_then)
  qed
  then have body: "keeps_calls ids (bind (progress_for key) (\<lambda>p. case get_or_null event ''delta'' of
             JNull \<Rightarrow> reply []
           | JStr d \<Rightarrow>
               (if d = [] then reply []
                else if fs_header p then
                  bind (put_progress key (p\<lparr>fs_arguments := fs_arguments p @ d\<rparr>)) (\<lambda>_. single (arguments_delta p d))
                else
                  bind (check (guard (fs_id p \<noteq> []) UNPAIRED)) (\<lambda>_.
                  bind (check (guard (fs_name p \<noteq> []) UNSUPPORTED_SEMANTICS)) (\<lambda>_.
                  bind (put_progress key (p\<lparr>fs_header := True, fs_arguments := fs_arguments p @ d\<rparr>)) (\<lambda>_.
                    single (header_delta p d)))))
           | _ \<Rightarrow> check (Inl UNSUPPORTED_SEMANTICS)))" for key
    by (rule yields_bind [OF yields_progress])
  show ?thesis unfolding on_arguments_delta_def Let_def by (rule keeps_state [OF body])
qed

lemma keeps_emit: "keeps_calls ids (emit_reasoning t)" "keeps_calls ids (emit_new_reasoning t)" "keeps_calls ids (emit_all_new ts)"
proof -
  show e: "keeps_calls ids (emit_reasoning t)" for t
    unfolding emit_reasoning_def by (intro yields_then keeps_modify keeps_envelope) simp
  show n: "keeps_calls ids (emit_new_reasoning t)" for t
  proof (rule yieldsI)
    fix s a s' assume "emit_new_reasoning t s = (Inr a, s')" "keyed ids (rc_tool_states s)"
    then show "keyed ids (rc_tool_states s') \<and> True" using yieldsD(1) [OF e, of t s a s']
      by (auto simp: emit_new_reasoning_def ret_ok split: if_splits)
  qed
  show "keeps_calls ids (emit_all_new ts)"
    by (induction ts) (simp_all add: keeps_reply n yields_then)
qed

lemma keeps_preserve: "keeps_calls ids require_preserve"
  unfolding require_preserve_def by (rule keeps_state) (rule keeps_check)

lemma keeps_reasoning_item: "keeps_calls ids (accept_reasoning_item item)"
  unfolding accept_reasoning_item_def by (intro yields_then keeps_preserve keeps_check)

lemma keeps_item_done: "keeps_calls ids (on_item_done event)"
proof -
  have "keeps_calls ids (\<lambda>s. (case first_new_text (rc_texts_emitted s) texts of None \<Rightarrow> reply [] | Some t \<Rightarrow> emit_reasoning t) s)" for texts
    by (rule keeps_state) (simp add: keeps_reply keeps_emit split: option.split)
  then show ?thesis unfolding on_item_done_def Let_def
    by (intro keeps_cases yields_then keeps_reasoning_item keeps_check keeps_finish_call keeps_reply)
qed

lemma keeps_terminal_items: "keeps_calls ids (terminal_items vs)"
proof -
  have "keeps_calls ids (terminal_item v)" for v
    unfolding terminal_item_def
    by (intro keeps_cases yields_then keeps_reasoning_item keeps_check keeps_finish_call keeps_reply keeps_emit)
  then show ?thesis by (induction vs) (simp_all add: keeps_reply yields_then)
qed

lemma keeps_completed: "keeps_calls ids (on_completed event)"
proof -
  have usage: "keeps_calls ids (usage_chunks u)" for u
  proof -
    have "keeps_calls ids (\<lambda>s. reply [chunk_object i created (rc_model s) [] @ rest] s)" for i created rest
      by (rule keeps_state) (rule keeps_reply)
    then show ?thesis unfolding usage_chunks_def by (intro keeps_cases yields_then keeps_envelope keeps_reply)
  qed
  have note_response: "keeps_calls ids (note_terminal_response r)" for r
    unfolding note_terminal_response_def by (intro yields_then keeps_modify keeps_envelope keeps_reply) simp
  have finish: "keeps_calls ids (\<lambda>s. bind (check (r s)) (\<lambda>_. bind (modify (\<lambda>s. s\<lparr>rc_completed := True\<rparr>)) (\<lambda>_.
      bind (chunk d (f s)) (\<lambda>c. bind (usage_chunks u) (\<lambda>w. reply (g c w))))) s)" for r d f u g
    by (rule keeps_state) (intro yields_then keeps_check keeps_modify keeps_envelope usage keeps_reply, simp)
  show ?thesis unfolding on_completed_def Let_def
    by (intro yields_then keeps_cases note_response keeps_reply keeps_check keeps_terminal_items finish)
qed

lemma validated_added_call:
  assumes "ts_call_id t \<noteq> []" "ts_name t \<noteq> []"
  shows "validated_output_item (JObj (call_item t status arguments)) = Inr (Function_Item (ts_call_id t) (ts_name t) arguments)"
  using assms
  by (simp add: call_item_def validated_output_item_def collapse_hosted_output_item_def collapse_hosted_item_for_chat_def
      hosted_event_chat_names_def HOSTED_EVENT_STAGES_def get_or_null_def hashable_def dict_has_def dict_simps validated_call_def
      require_supported_fields_def guard_def non_empty_str_def function_arguments_def)

lemma validated_other:
  "validated_output_item (JObj (message_item s status content)) \<noteq> Inr (Function_Item c n a)"
  by (auto simp: message_item_def validated_output_item_def
      collapse_hosted_output_item_def collapse_hosted_item_for_chat_def hosted_event_chat_names_def HOSTED_EVENT_STAGES_def
      get_or_null_def hashable_def dict_has_def dict_simps validated_message_def
      split: sum.split output_item.split dest!: rbind_Inr_iff [THEN iffD1])

lemma keeps_item_added:
  assumes e: "get_or_null event ''item'' = JObj item" and own: "own_item ids item"
  shows "keeps_calls ids (on_item_added event)"
proof -
  have reasoning: "keeps_calls ids (bind (accept_reasoning_item d) (\<lambda>_. reply []))" for d
    by (intro yields_then keeps_reasoning_item keeps_reply)
  from own consider (call) t where "item = call_item t ''in_progress'' []" "ts_item_id t = ''fc_'' @ ts_call_id t" "ts_name t \<noteq> []"
        "ts_call_id t \<noteq> []" "ts_call_id t \<in> ids"
    | (message) s status content where "item = message_item s status content"
    | (reasoning) s status summary where "item = reasoning_item s status summary"
    unfolding own_item_def by blast
  then show ?thesis
  proof cases
    case call
    have "keeps_calls ids (on_call_added item (ts_call_id t) (ts_name t) [])"
    proof (rule keeps_call_added [OF _ call(5)])
      show "str_of s (or_value (or_value (get_or_null item ''id'') (get_or_null item ''call_id'')) (JStr [])) = ''fc_'' @ ts_call_id t" for s
        using call(1,2) by (simp add: call_item_def get_or_null_def or_value_def truthy_def str_of_def)
    qed
    moreover have "\<not> is_reasoning_item (JObj item)" by (simp add: call(1) call_item_def is_reasoning_item_def)
    moreover have "validated_output_item (JObj item) = Inr (Function_Item (ts_call_id t) (ts_name t) [])"
      using validated_added_call call by simp
    ultimately show ?thesis
      by (simp add: on_item_added_def Let_def e item_object_def yields_def bind_def check_def lift_result_def)
  next
    case message
    have "keeps_calls ids (bind (check (validated_output_item (JObj item))) (\<lambda>i. case i of
        Message_Item \<Rightarrow> reply [] | Function_Item c n a \<Rightarrow> on_call_added item c n a))"
      by (rule yields_bind [OF yields_check [where Q = "\<lambda>i. i = Message_Item"]])
        (use validated_other message in \<open>auto simp: keeps_reply intro: output_item.exhaust\<close>)
    moreover have "\<not> is_reasoning_item (JObj item)" by (simp add: message message_item_def is_reasoning_item_def)
    ultimately show ?thesis by (simp add: on_item_added_def Let_def e item_object_def)
  next
    case reasoning': reasoning
    then have "is_reasoning_item (JObj item)" by (simp add: reasoning_item_def is_reasoning_item_def)
    with reasoning [of item] show ?thesis by (simp add: on_item_added_def Let_def e item_object_def)
  qed
qed

lemma keeps_dispatch:
  assumes "adds_own ids event"
  shows "keeps_calls ids (dispatch_response_event event)"
proof (cases "text_field event ''type'' = Some ''response.output_item.added''")
  case True
  with assms obtain item where "get_or_null event ''item'' = JObj item" "own_item ids item" by (auto simp: adds_own_def)
  from keeps_item_added [OF this] True show ?thesis by (simp add: dispatch_response_event_def)
next
  case False
  have "keeps_calls ids (on_created event)" unfolding on_created_def
    by (intro keeps_cases yields_then keeps_modify keeps_envelope keeps_reply) simp
  moreover have "keeps_calls ids (on_text_delta event)" unfolding on_text_delta_def
    by (simp add: keeps_reply keeps_envelope split: option.split)
  moreover have "keeps_calls ids (on_summary_delta event)" unfolding on_summary_delta_def
    by (intro yields_then keeps_preserve) (simp add: keeps_reply keeps_check keeps_emit split: option.split)
  moreover have "keeps_calls ids (on_summary_done event)" unfolding on_summary_done_def
    by (intro yields_then keeps_preserve) (simp add: keeps_reply keeps_check keeps_emit split: option.split)
  moreover have "keeps_calls ids (on_content_part event)" unfolding on_content_part_def
    by (intro keeps_cases keeps_check yields_then keeps_reply)
  ultimately show ?thesis using False unfolding dispatch_response_event_def
    by (simp add: keeps_reply keeps_check keeps_arguments_delta keeps_arguments_done keeps_item_done keeps_completed split: option.split)
qed

lemma keeps_event:
  assumes "adds_own ids event"
  shows "keeps_calls ids (chunks_for_event event)"
proof (rule yieldsI)
  fix s cs s' assume r: "chunks_for_event event s = (Inr cs, s')" and k: "keyed ids (rc_tool_states s)"
  show "keyed ids (rc_tool_states s') \<and> True"
  proof (cases "rc_completed s")
    case True
    with r k show ?thesis by (simp add: chunks_for_event_def check_ok)
  next
    case False
    with r obtain event' texts where n: "normalize_raw_reasoning (rc_preserve s) event (rc_raw_texts s) = Inr (event', texts)"
      and d: "dispatch_response_event event' (s\<lparr>rc_raw_texts := texts, rc_texts_emitted := add_emitted (map snd texts) (rc_texts_emitted s)\<rparr>)
        = (Inr cs, s')"
      unfolding chunks_for_event_def if_not_P [OF False] by (elim bind_checkE) (auto elim!: bind_modifyE)
    have "adds_own ids event'" using normalize_type [OF n] assms by (auto simp: adds_own_def)
    from yieldsD(1) [OF keeps_dispatch [OF this] d] k show ?thesis by simp
  qed
qed

lemma keeps_stream:
  "(\<And>e. e \<in> set events \<Longrightarrow> adds_own ids e) \<Longrightarrow> keeps_calls ids (convert_responses events)"
proof (induction events)
  case (Cons e events)
  then show ?case unfolding convert_responses.simps by (intro yields_then keeps_event keeps_reply) simp_all
qed (simp add: keeps_reply)

end
