(* ===== verification/Translation_Roundtrip.thy ===== *)
theory Translation_Roundtrip
  imports Roundtrip_Calls
begin

text \<open>
  Chat chunks translated to Responses events and back: a client of the second stream reads the text
  and exactly the calls of the first.
\<close>

section \<open>The terminal event of the first translation\<close>

lemma complete_tools_added:
  "complete_tools ents items s = (Inr (es, items'), s') \<Longrightarrow> (k, t) \<in> set ents \<Longrightarrow> (\<And>k t. (k, t) \<in> set ents \<Longrightarrow> tool_ok t) \<Longrightarrow> ts_added t"
proof (induction ents arbitrary: items s es)
  case (Cons kt ents)
  from Cons.prems(1) obtain e1 items1 s1 e2 where 1: "complete_tool kt items s = (Inr (e1, items1), s1)"
    and 2: "complete_tools ents items1 s1 = (Inr (e2, items'), s')"
    by (rule complete_tools_ConsE)
  show ?case
  proof (cases "kt = (k, t)")
    case True
    with Cons.prems(3) [of k t] complete_tool_ok(1) [OF 1 [unfolded True]] show ?thesis by simp
  next
    case False
    with Cons.prems(2) have "(k, t) \<in> set ents" by auto
    from Cons.IH [OF 2 this] Cons.prems(3) show ?thesis by (metis list.set_intros(2))
  qed
qed simp

definition finished_call :: "tool_state \<Rightarrow> json" where
  "finished_call t = JObj (call_item t ''completed'' (concat (ts_arguments t)))"

lemma terminal_call_finished:
  assumes "ts_call_id t \<noteq> []" "ts_name t \<noteq> []"
  shows "terminal_call (finished_call t) = Some (ts_call_id t, ts_name t, concat (ts_arguments t))"
  using assms
  by (simp add: terminal_call_def finished_call_def call_item_def is_reasoning_item_def validated_output_item_def
      collapse_hosted_output_item_def collapse_hosted_item_for_chat_def hosted_event_chat_names_def HOSTED_EVENT_STAGES_def
      get_or_null_def hashable_def dict_has_def dict_simps validated_call_def require_supported_fields_def guard_def non_empty_str_def
      function_arguments_def)

lemma terminal_call_other:
  "terminal_call (JObj (reasoning_item s status summary)) = None" "terminal_call (JObj (message_item s status content)) = None"
  by (auto simp: terminal_call_def reasoning_item_def message_item_def is_reasoning_item_def validated_output_item_def
      collapse_hosted_output_item_def collapse_hosted_item_for_chat_def hosted_event_chat_names_def HOSTED_EVENT_STAGES_def
      get_or_null_def hashable_def dict_has_def dict_simps validated_message_def
      split: sum.split output_item.split dest!: rbind_Inr_iff [THEN iffD1])

text \<open>Every item of the completion is a reasoning item, the message or a finished call at its own index.\<close>

definition from_tools :: "(int, tool_state) dict \<Rightarrow> output_items \<Rightarrow> bool" where
  "from_tools tools items \<longleftrightarrow>
     (\<forall>i v. dict_get items i = Some v \<longrightarrow>
        terminal_call v = None \<or> (\<exists>k t. dict_get tools k = Some t \<and> i = ts_output_index t \<and> v = finished_call t))"

lemma from_tools_set:
  "from_tools tools items \<Longrightarrow> terminal_call v = None \<or> (\<exists>k t. dict_get tools k = Some t \<and> i = ts_output_index t \<and> v = finished_call t) \<Longrightarrow>
   from_tools tools (dict_set items i v)"
  by (auto simp: from_tools_def dict_simps)

lemma complete_tools_items:
  "complete_tools ents items s = (Inr (es, items'), s') \<Longrightarrow>
   (\<And>k t. (k, t) \<in> set ents \<Longrightarrow> tool_ok t \<and> dict_get tools k = Some t) \<Longrightarrow> distinct (map (ts_output_index \<circ> snd) ents) \<Longrightarrow>
   from_tools tools items \<Longrightarrow> distinct (map fst items) \<Longrightarrow>
   from_tools tools items' \<and> distinct (map fst items')
   \<and> (\<forall>(k, t) \<in> set ents. dict_get items' (ts_output_index t) = Some (finished_call t))
   \<and> (\<forall>i. i \<notin> (ts_output_index \<circ> snd) ` set ents \<longrightarrow> dict_get items' i = dict_get items i)"
proof (induction ents arbitrary: items s es)
  case Nil
  then show ?case by (simp add: ret_ok)
next
  case (Cons kt ents)
  obtain k t where kt: "kt = (k, t)" by (cases kt)
  from Cons.prems(1) obtain e1 items1 s1 e2 where 1: "complete_tool (k, t) items s = (Inr (e1, items1), s1)"
    and 2: "complete_tools ents items1 s1 = (Inr (e2, items'), s')"
    unfolding kt by (rule complete_tools_ConsE)
  have t: "tool_ok t" "dict_get tools k = Some t" using Cons.prems(2) [of k t] by (simp_all add: kt)
  have items1: "items1 = dict_set items (ts_output_index t) (finished_call t)"
    using complete_tool_ok(3) [OF 1 t(1)] by (simp add: finished_call_def)
  have "from_tools tools items1" "distinct (map fst items1)"
    unfolding items1 using from_tools_set [OF Cons.prems(4)] t(2) distinct_dict_set [OF Cons.prems(5)] by blast+
  moreover have "distinct (map (ts_output_index \<circ> snd) ents)" and new: "ts_output_index t \<notin> (ts_output_index \<circ> snd) ` set ents"
    using Cons.prems(3) by (auto simp: kt o_def)
  moreover have "tool_ok t' \<and> dict_get tools k' = Some t'" if "(k', t') \<in> set ents" for k' t'
    using Cons.prems(2) [of k' t'] that by simp
  ultimately have IH: "from_tools tools items' \<and> distinct (map fst items')
   \<and> (\<forall>(k, t) \<in> set ents. dict_get items' (ts_output_index t) = Some (finished_call t))
   \<and> (\<forall>i. i \<notin> (ts_output_index \<circ> snd) ` set ents \<longrightarrow> dict_get items' i = dict_get items1 i)"
    by (intro Cons.IH [OF 2])
  with new have "dict_get items' (ts_output_index t) = Some (finished_call t)" by (simp add: items1 dict_simps)
  with IH show ?case by (auto simp: kt items1 dict_simps)
qed

lemma set_terminal_calls: "x \<in> set (terminal_calls vs) \<longleftrightarrow> (\<exists>v \<in> set vs. terminal_call v = Some x)"
proof (induction vs)
  case (Cons v vs)
  then show ?case by (cases "terminal_call v") (auto simp: terminal_calls_simps)
qed (simp add: terminal_calls_simps)

lemma distinct_terminal_calls:
  assumes "distinct (map fst items)"
    and "\<And>i v j w x y. dict_get items i = Some v \<Longrightarrow> dict_get items j = Some w \<Longrightarrow> terminal_call v = Some x \<Longrightarrow> terminal_call w = Some y \<Longrightarrow>
      fst x = fst y \<Longrightarrow> i = j"
  shows "distinct (map fst (terminal_calls (by_index items)))"
proof -
  have "distinct (map fst (terminal_calls (map snd xs)))" if "distinct (map fst xs)" "set xs \<subseteq> set items" for xs :: "(nat \<times> json) list"
    using that
  proof (induction xs)
    case Nil
    then show ?case by (simp add: terminal_calls_simps)
  next
    case (Cons iv xs)
    obtain i v where iv: "iv = (i, v)" by (cases iv)
    have IH: "distinct (map fst (terminal_calls (map snd xs)))" using Cons by simp
    show ?case
    proof (cases "terminal_call v")
      case None
      with IH show ?thesis by (simp add: iv terminal_calls_simps)
    next
      case (Some x)
      have "fst x \<noteq> fst y" if "y \<in> set (terminal_calls (map snd xs))" for y
      proof
        assume xy: "fst x = fst y"
        from that obtain j w where w: "(j, w) \<in> set xs" "terminal_call w = Some y"
          by (auto simp: set_terminal_calls)
        have "(i, v) \<in> set items" "(j, w) \<in> set items" using Cons.prems(2) w(1) by (auto simp: iv)
        then have "i = j" using assms(2) [OF _ _ Some w(2) xy] assms(1) by simp
        with Cons.prems(1) w(1) show False by (auto simp: iv image_iff)
      qed
      with IH show ?thesis by (auto simp: iv terminal_calls_simps Some)
    qed
  qed
  from this [of "sort_key fst items"] assms(1) show ?thesis by (simp add: by_index_def distinct_map)
qed

lemma call_ids_distinct:
  assumes "distinct (map (ts_call_id \<circ> snd) tools)" and "dict_get tools k = Some t" "dict_get tools k' = Some t'"
    and "ts_call_id t = ts_call_id t'"
  shows "t = t'"
proof -
  have "(k, t) \<in> set tools" "(k', t') \<in> set tools" using assms(2,3) by (auto dest: map_of_SomeD)
  moreover have "inj_on (ts_call_id \<circ> snd) (set tools)" using assms(1) by (simp add: distinct_map)
  ultimately show ?thesis using inj_onD [of "ts_call_id \<circ> snd" "set tools" "(k, t)" "(k', t')"] assms(4) by simp
qed

text \<open>The last event lists the finished calls and nothing else as calls.\<close>

lemma final_calls:
  assumes sim: "simulates s p" and r: "events_for_done s = (Inr final, s')"
    and ids: "distinct (map (ts_call_id \<circ> snd) (cv_tool_states s))"
  obtains pre response items where
    "final = pre @ [response_event (if cv_pending_incomplete s = Some True then ''response.incomplete'' else ''response.completed'') response]"
    "closes final" "dict_get response ''output'' = Some (JArr items)" "distinct (map fst (terminal_calls items))"
    "\<forall>k t. dict_get (cv_tool_states s) k = Some t \<longrightarrow> call_of t \<in> set (terminal_calls items)"
proof -
  let ?tools = "cv_tool_states s"
  note S = simulatesD [OF sim]
  have live: "\<not> cv_completed s" and dist: "distinct (map fst ?tools)" using S(1) by (simp_all add: converter_ok_def)
  obtain e1 s1 e2 items1 s2 e3 items2 s3 e4 items3 s4 response where cr: "created_events (s\<lparr>cv_completed := True\<rparr>) = (Inr e1, s1)"
    and re: "complete_reasoning s1 = (Inr (e2, items1), s2)"
    and to: "complete_tools (sort_key (\<lambda>(_, t). ts_output_index t) (cv_tool_states s2)) items1 s2 = (Inr (e3, items2), s3)"
    and me: "complete_message items2 s3 = (Inr (e4, items3), s4)"
    and st: "stamp_response (terminal_response s4 (cv_pending_incomplete s = Some True) (by_index items3)) s4 = (Inr response, s')"
    and es: "final = e1 @ e2 @ e3 @ e4 @ [response_event
      (if cv_pending_incomplete s = Some True then ''response.incomplete'' else ''response.completed'') response]"
    by (rule events_for_doneE [OF r live])
  have re': "s2 = s1 \<and> from_tools ?tools items1 \<and> distinct (map fst items1)"
    using re by (auto simp: complete_reasoning_def Let_def action_ok from_tools_def terminal_call_other split: if_splits option.splits)
  then have tools: "cv_tool_states s2 = ?tools" and mi: "cv_message_output_index s2 = cv_message_output_index s"
    "cv_message_started s2 = cv_message_started s"
    using created_events_ok(1) [OF cr] by auto
  let ?ents = "sort_key (\<lambda>(_, t). ts_output_index t) ?tools"
  have ents: "tool_ok t \<and> dict_get ?tools k = Some t" if "(k, t) \<in> set ?ents" for k t
  proof -
    from that dist have "dict_get ?tools k = Some t" by simp
    with S(1) show ?thesis by (simp add: converter_ok_def)
  qed
  have inj: "k = k'" if "dict_get ?tools k = Some t" "dict_get ?tools k' = Some t'" "ts_output_index t = ts_output_index t'" for k t k' t'
    using simD(1) [OF S(2), of "Tool_Slot k" "ts_output_index t" "Tool_Slot k'"] that by simp
  have "inj_on (ts_output_index \<circ> snd) (set ?tools)"
  proof (rule inj_onI)
    fix x y assume "x \<in> set ?tools" "y \<in> set ?tools" "(ts_output_index \<circ> snd) x = (ts_output_index \<circ> snd) y"
    with inj [of "fst x" "snd x" "fst y" "snd y"] dist have "fst x = fst y" by simp
    with dist \<open>x \<in> set ?tools\<close> \<open>y \<in> set ?tools\<close> show "x = y" by (auto simp: distinct_map dest: inj_onD)
  qed
  then have "distinct (map (ts_output_index \<circ> snd) ?tools)" using dist by (simp add: distinct_map)
  then have di: "distinct (map (ts_output_index \<circ> snd) ?ents)" by (simp add: distinct_map)
  have ct: "from_tools ?tools items2" "distinct (map fst items2)"
    "\<And>k t. (k, t) \<in> set ?ents \<Longrightarrow> dict_get items2 (ts_output_index t) = Some (finished_call t)"
    using complete_tools_items [OF to [unfolded tools] ents di] re' by auto
  have "\<exists>tl. s3 = s2\<lparr>cv_tool_states := tl\<rparr>" by (rule conjunct2 [OF done_tools [OF to [unfolded tools]]]) (use ents in blast)
  then have mi3: "cv_message_output_index s3 = cv_message_output_index s" "cv_message_started s3 = cv_message_started s" using mi by auto
  have items3: "from_tools ?tools items3 \<and> distinct (map fst items3)
    \<and> (\<forall>k t. dict_get ?tools k = Some t \<longrightarrow> dict_get items3 (ts_output_index t) = Some (finished_call t))"
  proof (cases "cv_message_started s")
    case False
    with me mi3 have "items3 = items2" by (simp_all add: complete_message_def ret_ok)
    with ct dist show ?thesis by simp
  next
    case True
    with S(1) obtain i where i: "cv_message_output_index s = Some i" by (auto simp: converter_ok_def)
    with True me mi3 obtain m where items3: "items3 = dict_set items2 i m" and m: "terminal_call m = None"
      by (auto simp: complete_message_def Let_def ret_ok terminal_call_other)
    have "ts_output_index t \<noteq> i" if "dict_get ?tools k = Some t" for k t
      using simD(1) [OF S(2), of "Tool_Slot k" i Message_Slot] that i by auto
    then have "\<forall>k t. dict_get ?tools k = Some t \<longrightarrow> dict_get items3 (ts_output_index t) = Some (finished_call t)"
      using ct(3) dist by (simp add: items3 dict_simps)
    moreover have "from_tools ?tools items3" unfolding items3 by (rule from_tools_set [OF ct(1)]) (simp add: m)
    ultimately show ?thesis using distinct_dict_set [OF ct(2)] by (simp add: items3)
  qed
  have call: "terminal_call (finished_call t) = Some (ts_call_id t, ts_name t, concat (ts_arguments t))"
    if t: "dict_get ?tools k = Some t" for k t
  proof -
    have "(k, t) \<in> set ?ents" using map_of_SomeD [OF t] by simp
    with to [unfolded tools] have "ts_added t" by (rule complete_tools_added) (use ents in blast)
    with ents \<open>(k, t) \<in> set ?ents\<close> show ?thesis by (intro terminal_call_finished) (auto simp: tool_ok_def)
  qed
  have out: "dict_get response ''output'' = Some (JArr (by_index items3))"
    by (simp add: stamp_response_ok(2) [OF st] terminal_response_def response_object_def Let_def dict_simps split: option.split)
  have "distinct (map fst (terminal_calls (by_index items3)))"
  proof (rule distinct_terminal_calls)
    show "distinct (map fst items3)" using items3 by simp
    fix i v j w x y
    assume v: "dict_get items3 i = Some v" "terminal_call v = Some x" and w: "dict_get items3 j = Some w" "terminal_call w = Some y"
      and xy: "fst x = fst y"
    from v items3 obtain k t where t: "dict_get ?tools k = Some t" "i = ts_output_index t" "v = finished_call t"
      unfolding from_tools_def by force
    from w items3 obtain k' t' where t': "dict_get ?tools k' = Some t'" "j = ts_output_index t'" "w = finished_call t'"
      unfolding from_tools_def by force
    from v(2) w(2) xy call [OF t(1)] call [OF t'(1)] t(3) t'(3) have "ts_call_id t = ts_call_id t'" by auto
    from call_ids_distinct [OF ids t(1) t'(1) this] t(2) t'(2) show "i = j" by simp
  qed
  moreover have "call_of t \<in> set (terminal_calls (by_index items3))" if t: "dict_get ?tools k = Some t" for k t
  proof -
    have "(ts_output_index t, finished_call t) \<in> set items3" using items3 t by (auto dest: map_of_SomeD)
    then have "finished_call t \<in> set (by_index items3)" by (force simp: by_index_def)
    with call [OF t] show ?thesis by (force simp: set_terminal_calls call_of_def)
  qed
  moreover have "closes e3" by (rule closes_tools [OF to [unfolded tools]]) (use ents in blast)
  then have "closes final"
    using closes_created [OF cr] closes_reasoning [OF re] closes_message [OF me] by (simp add: es) (simp add: closes_def)
  ultimately show thesis using es out by (intro that [of "e1 @ e2 @ e3 @ e4" response "by_index items3"]) simp_all
qed

section \<open>There and back\<close>

lemma accept_completed_ends:
  assumes "accept e p = Some p'" "text_field e ''type'' = Some ''response.completed''"
  shows "pr_ended p'"
  using assms by (auto simp: accept_def accept_terminal_def split: if_splits option.splits)

lemma accept_ended: "pr_ended p \<Longrightarrow> accept e p = None"
  by (simp add: accept_def split: option.split)

lemma no_early_completion:
  "run p (es @ [e]) = Some p' \<Longrightarrow> \<forall>x \<in> set es. text_field x ''type'' \<noteq> Some ''response.completed''"
proof (induction es arbitrary: p)
  case (Cons x es)
  from Cons.prems obtain p1 where p1: "accept x p = Some p1" "run p1 (es @ [e]) = Some p'" by (auto split: option.splits)
  have "\<not> pr_ended p1"
  proof
    assume "pr_ended p1"
    then have "accept y p1 = None" for y by (rule accept_ended)
    with p1(2) show False by (cases es) simp_all
  qed
  with accept_completed_ends [OF p1(1)] Cons.IH [OF p1(2)] show ?case by auto
qed simp

text \<open>An incomplete response is refused by the second translation.\<close>

lemma incomplete_refused:
  assumes "chunks_for_event (response_event ''response.incomplete'' response) s = (Inr cs, s')"
  shows "False"
proof (cases "rc_completed s")
  case True
  with assms show ?thesis
    by (auto simp: chunks_for_event_def check_ok res_simps has_post_terminal_semantics_def event_kind_in_def response_event_def
        get_or_null_def hashable_def)
next
  case False
  with assms show ?thesis
    by (auto simp: chunks_for_event_def check_ok modify_ok normalize_raw_reasoning_def event_kind_in_def response_event_def is_reasoning_part_def
        dispatch_response_event_def get_or_null_def hashable_def elim!: bindE split: if_splits)
qed

text \<open>The calls of a client are those of a list, when each of them is one and every id is one of the list's.\<close>

lemma call_ids_listed: "call_ids s \<subseteq> fst ` set (map (call_of \<circ> snd) (cv_tool_states s))"
proof
  fix i assume "i \<in> call_ids s"
  then obtain k t where "(k, t) \<in> set (cv_tool_states s)" "ts_call_id t = i" by (auto simp: call_ids_def dest: map_of_SomeD)
  then show "i \<in> fst ` set (map (call_of \<circ> snd) (cv_tool_states s))" by (force simp: call_of_def)
qed

lemma exact_calls:
  assumes k: "keyed ids ts" and ids: "ids \<subseteq> fst ` set said" and m: "mirrors ts c"
    and reach: "\<And>x. x \<in> set said \<Longrightarrow> \<exists>i. dict_get (cl_calls c) i = Some x"
  shows "ran (dict_get (cl_calls c)) = set said \<and> inj_on (dict_get (cl_calls c)) (dom (dict_get (cl_calls c)))"
proof -
  have held: "\<exists>q. dict_get ts (''fc_'' @ fst x) = Some q \<and> fs_index q = i \<and> x = (fs_id q, fs_name q, fs_arguments q) \<and> fst x \<in> ids"
    if x: "dict_get (cl_calls c) i = Some x" for i x
  proof -
    from x have "dict_get (cl_calls c) i \<noteq> None" by simp
    with m obtain key q where q: "dict_get ts key = Some q" "fs_index q = i" "fs_header q" unfolding mirrors_def by blast
    note Q = mirrorsD(2,4) [OF m q(1,3)]
    have x': "x = (fs_id q, fs_name q, fs_arguments q)" using Q(2) q(2) x by simp
    have "entry ids key q" using k q(1) unfolding keyed_def by blast
    with Q(1) have "fs_id q \<in> ids" "key = ''fc_'' @ fs_id q" unfolding entry_def by blast+
    with q(1,2) x' show ?thesis by (metis fst_conv)
  qed
  have same: "i = j \<and> x = y"
    if x: "dict_get (cl_calls c) i = Some x" and y: "dict_get (cl_calls c) j = Some y" and xy: "fst x = fst y" for i j x y
  proof -
    from held [OF x] obtain q where q: "dict_get ts (''fc_'' @ fst x) = Some q" "fs_index q = i" "x = (fs_id q, fs_name q, fs_arguments q)" by blast
    from held [OF y] obtain r where r: "dict_get ts (''fc_'' @ fst y) = Some r" "fs_index r = j" "y = (fs_id r, fs_name r, fs_arguments r)" by blast
    from q(1) r(1) have "q = r" unfolding xy by (metis option.inject)
    with q(2,3) r(2,3) show ?thesis by metis
  qed
  have "x \<in> set said" if x: "dict_get (cl_calls c) i = Some x" for i x
  proof -
    from held [OF x] ids have "fst x \<in> fst ` set said" by blast
    then obtain y where y: "y \<in> set said" "fst x = fst y" by blast
    from reach [OF y(1)] obtain j where "dict_get (cl_calls c) j = Some y" ..
    from same [OF x this y(2)] y(1) show ?thesis by simp
  qed
  with reach have "ran (dict_get (cl_calls c)) = set said" unfolding ran_def by blast
  moreover have "inj_on (dict_get (cl_calls c)) (dom (dict_get (cl_calls c)))"
  proof (rule inj_onI)
    fix i j assume "i \<in> dom (dict_get (cl_calls c))" and eq: "dict_get (cl_calls c) i = dict_get (cl_calls c) j"
    then obtain x where x: "dict_get (cl_calls c) i = Some x" by blast
    from same [OF x x [unfolded eq]] show "i = j" by simp
  qed
  ultimately show ?thesis ..
qed

text \<open>C5: Chat chunks that are translated to Responses events and back reach the client whole: when both
  translations accept and the calls of the chunks have different ids, the client finishes and reads
  exactly the text of the chunks, and its calls are exactly the calls of the chunks, each once, with its id,
  its name and all its arguments.\<close>
theorem translation_roundtrip:
  assumes "convert_chunks chunks (new_chat_converter now response_id item_id reasoning_id) = (Inr es, s)"
    and "events_for_done s = (Inr final, s')"
    and "convert_responses (es @ final) (new_responses_converter now' ids str_fun preserve) = (Inr cs, t)"
    and "distinct (map fst (calls_said chunks))"
  shows "\<exists>c. client_run client_begin cs = Some c \<and> cl_finish c \<noteq> None \<and> cl_text c = text_said chunks
    \<and> ran (dict_get (cl_calls c)) = set (calls_said chunks)
    \<and> inj_on (dict_get (cl_calls c)) (dom (dict_get (cl_calls c)))"
proof -
  from run_chunks [OF simulates_begin assms(1)] obtain p where p: "run stream_begin es = Some p" "simulates s p" by blast
  note said = gathered_said [OF assms(1)] and relayed = relays_chunks [OF simulates_begin assms(1)]
  have "map fst (calls_said chunks) = map (ts_call_id \<circ> snd) (cv_tool_states s)" by (simp add: said(1) call_of_def)
  with assms(4) have different: "distinct (map (ts_call_id \<circ> snd) (cv_tool_states s))" by simp
  obtain pre response items where final: "final = pre @ [response_event
      (if cv_pending_incomplete s = Some True then ''response.incomplete'' else ''response.completed'') response]"
    and closed: "closes final" and out: "dict_get response ''output'' = Some (JArr items)"
    and dist: "distinct (map fst (terminal_calls items))"
    and calls: "\<forall>k t. dict_get (cv_tool_states s) k = Some t \<longrightarrow> call_of t \<in> set (terminal_calls items)"
    by (rule final_calls [OF p(2) assms(2) different])
  let ?last = "response_event (if cv_pending_incomplete s = Some True then ''response.incomplete'' else ''response.completed'') response"
  have all: "convert_responses ((es @ pre) @ [?last]) (new_responses_converter now' ids str_fun preserve) = (Inr cs, t)"
    using assms(3) by (simp add: final)
  from convert_snoc [OF all] obtain s1 c2 where "chunks_for_event ?last s1 = (Inr c2, t)" by blast
  with incomplete_refused [of response s1 c2 t] have complete: "cv_pending_incomplete s \<noteq> Some True" by auto
  from run_end [OF p(2) assms(2)] run_append_Some [OF p(1)] obtain p' where "run stream_begin ((es @ pre) @ [?last]) = Some p'"
    by (auto simp: final)
  from no_early_completion [OF this] have early: "\<forall>e \<in> set (es @ pre). text_field e ''type'' \<noteq> Some ''response.completed''" .
  have last: "text_field ?last ''type'' = Some ''response.completed''" "object_field ?last ''response'' = Some response"
    using complete by (simp_all add: response_event_def)
  from terminal_calls_reach [OF all early last out] obtain c where finished: "rc_completed t" and c: "client_run client_begin cs = Some c"
    and reach: "\<And>i n a. listed_last items i = Some (n, a) \<Longrightarrow> \<exists>k. dict_get (cl_calls c) k = Some (i, n, a)" by blast
  from reads_stream [OF reads_begin assms(3)] c have c': "reads t c" "cl_text c = texts (es @ final)"
    by (auto simp: client_begin_def texts_def)
  have read: "cl_text c = text_said chunks"
    using c'(2) closed relayed by (simp add: closes_def relays_def said(2) new_chat_converter_def)
  have "keyed (call_ids s) (rc_tool_states t)"
  proof (rule yieldsD(1) [OF keeps_stream assms(3)])
    show "adds_own (call_ids s) e" if "e \<in> set (es @ final)" for e
      using that relayed closed unfolding relays_def closes_def by auto
  qed (simp add: keyed_def new_responses_converter_def)
  moreover have "call_ids s \<subseteq> fst ` set (calls_said chunks)"
    unfolding said(1) by (rule call_ids_listed)
  moreover have "mirrors (rc_tool_states t) c" using c'(1) by (simp add: reads_def)
  moreover have "\<exists>i. dict_get (cl_calls c) i = Some x" if "x \<in> set (calls_said chunks)" for x
  proof -
    from that obtain k u where u: "(k, u) \<in> set (cv_tool_states s)" "x = call_of u" unfolding said(1) by auto
    have "distinct (map fst (cv_tool_states s))" using simulatesD(1) [OF p(2)] by (simp add: converter_ok_def)
    with u(1) have "dict_get (cv_tool_states s) k = Some u" by simp
    with calls u(2) have "x \<in> set (terminal_calls items)" by blast
    then have "listed_last items (fst x) = Some (fst (snd x), snd (snd x))"
      by (intro listed_last_distinct [OF dist]) simp
    from reach [OF this] show ?thesis by simp
  qed
  ultimately have "ran (dict_get (cl_calls c)) = set (calls_said chunks) \<and> inj_on (dict_get (cl_calls c)) (dom (dict_get (cl_calls c)))"
    by (intro exact_calls)
  moreover have "cl_finish c \<noteq> None" using c'(1) finished by (simp add: reads_def)
  ultimately show ?thesis using c read by simp
qed

definition sample_back :: "obj list \<Rightarrow> bool" where
  "sample_back chunks =
     (case convert_chunks chunks (new_chat_converter 5 ''r'' ''m'' ''g'') of
        (Inr es, s) \<Rightarrow>
          (case events_for_done s of
             (Inr final, _) \<Rightarrow> sample_length (es @ final) \<noteq> None
           | _ \<Rightarrow> False)
      | _ \<Rightarrow> False)"

lemma sample_roundtrip: "sample_back [text_chunk, mixed_chunk]"
  by code_simp

theorem translation_roundtrip_witness:
  "\<exists>es s final s' cs t c.
      convert_chunks [text_chunk, mixed_chunk] (new_chat_converter 5 ''r'' ''m'' ''g'') = (Inr es, s)
    \<and> events_for_done s = (Inr final, s') \<and> convert_responses (es @ final) sample_converter = (Inr cs, t)
    \<and> client_run client_begin cs = Some c \<and> cl_text c = ''Hi''
    \<and> ran (dict_get (cl_calls c)) = {(''b'', ''g'', ''{}''), (''a'', ''g'', ''[1]'')}"
proof -
  obtain es s final s' where 1: "convert_chunks [text_chunk, mixed_chunk] (new_chat_converter 5 ''r'' ''m'' ''g'') = (Inr es, s)"
    "events_for_done s = (Inr final, s')"
    by (rule sample_doneE [OF sample_mixed])
  have "sample_length (es @ final) \<noteq> None"
    using sample_roundtrip 1 by (simp add: sample_back_def)
  then obtain n b where "sample_length (es @ final) = Some (n, b)" by auto
  then obtain cs t where 2: "convert_responses (es @ final) sample_converter = (Inr cs, t)" by (rule sample_lengthE)
  have said: "calls_said [text_chunk, mixed_chunk] = [(''b'', ''g'', ''{}''), (''a'', ''g'', ''[1]'')]"
    "text_said [text_chunk, mixed_chunk] = ''Hi''"
    by code_simp+
  have d: "distinct (map fst (calls_said [text_chunk, mixed_chunk]))" by (simp add: said)
  from translation_roundtrip [OF 1 2 d] obtain c where c: "client_run client_begin cs = Some c" "cl_text c = ''Hi''"
    "ran (dict_get (cl_calls c)) = {(''b'', ''g'', ''{}''), (''a'', ''g'', ''[1]'')}"
    unfolding said by auto
  show ?thesis by (intro exI conjI, rule 1(1), rule 1(2), rule 2, rule c(1), rule c(2), rule c(3))
qed

end
