(* ===== verification/Sha256.thy ===== *)
theory Sha256
  imports Py_Json "HOL-Library.Word"
begin

text \<open>
  \<open>hashlib.sha256(data).hexdigest()\<close> of Python's standard library: 32-bit words that wrap around,
  blocks of 64 bytes, the padding with the length in bits.  The constants of the rounds and of the
  start are the first 32 bits of the fractions of the cube and square roots of the first primes,
  and \<open>sha256_start_constants\<close> and \<open>sha256_round_constants\<close> check them against that
  description; \<open>sha256_first_round\<close> is the first round of the published example for \<open>abc\<close>.
\<close>

unbundle bit_operations_syntax

type_synonym u32 = "32 word"

section \<open>The compression function\<close>

definition rotate_right :: "nat \<Rightarrow> u32 \<Rightarrow> u32" where
  "rotate_right n x = drop_bit n x OR push_bit (32 - n) x"

definition choose_bits :: "u32 \<Rightarrow> u32 \<Rightarrow> u32 \<Rightarrow> u32" where
  "choose_bits x y z = (x AND y) XOR (NOT x AND z)"

definition majority_bits :: "u32 \<Rightarrow> u32 \<Rightarrow> u32 \<Rightarrow> u32" where
  "majority_bits x y z = (x AND y) XOR (x AND z) XOR (y AND z)"

definition mix3 :: "u32 \<Rightarrow> u32 \<Rightarrow> u32 \<Rightarrow> u32" where
  "mix3 x y z = x XOR y XOR z"

definition mix_state_a :: "u32 \<Rightarrow> u32" where
  "mix_state_a x = mix3 (rotate_right 2 x) (rotate_right 13 x) (rotate_right 22 x)"

definition mix_state_e :: "u32 \<Rightarrow> u32" where
  "mix_state_e x = mix3 (rotate_right 6 x) (rotate_right 11 x) (rotate_right 25 x)"

definition mix_early :: "u32 \<Rightarrow> u32" where
  "mix_early x = mix3 (rotate_right 7 x) (rotate_right 18 x) (drop_bit 3 x)"

definition mix_late :: "u32 \<Rightarrow> u32" where
  "mix_late x = mix3 (rotate_right 17 x) (rotate_right 19 x) (drop_bit 10 x)"

definition round_constants :: "u32 list" where
  "round_constants =
    [1116352408, 1899447441, 3049323471, 3921009573, 961987163, 1508970993, 2453635748, 2870763221,
     3624381080, 310598401, 607225278, 1426881987, 1925078388, 2162078206, 2614888103, 3248222580,
     3835390401, 4022224774, 264347078, 604807628, 770255983, 1249150122, 1555081692, 1996064986,
     2554220882, 2821834349, 2952996808, 3210313671, 3336571891, 3584528711, 113926993, 338241895,
     666307205, 773529912, 1294757372, 1396182291, 1695183700, 1986661051, 2177026350, 2456956037,
     2730485921, 2820302411, 3259730800, 3345764771, 3516065817, 3600352804, 4094571909, 275423344,
     430227734, 506948616, 659060556, 883997877, 958139571, 1322822218, 1537002063, 1747873779,
     1955562222, 2024104815, 2227730452, 2361852424, 2428436474, 2756734187, 3204031479, 3329325298]"

definition start_constants :: "u32 list" where
  "start_constants =
    [1779033703, 3144134277, 1013904242, 2773480762, 1359893119, 2600822924, 528734635, 1541459225]"

text \<open>The schedule is built newest first: each new word comes from the 2nd, 7th, 15th and 16th before it.\<close>

fun extend_schedule :: "nat \<Rightarrow> u32 list \<Rightarrow> u32 list" where
  "extend_schedule 0 ws = ws"
| "extend_schedule (Suc n) ws =
     extend_schedule n ((mix_late (ws ! 1) + ws ! 6 + mix_early (ws ! 14) + ws ! 15) # ws)"

definition schedule :: "u32 list \<Rightarrow> u32 list" where
  "schedule block = rev (extend_schedule 48 (rev block))"

fun sha_round :: "u32 \<times> u32 \<Rightarrow> u32 list \<Rightarrow> u32 list" where
  "sha_round (k, w) [a, b, c, d, e, f, g, h] =
     (let t1 = h + mix_state_e e + choose_bits e f g + k + w;
          t2 = mix_state_a a + majority_bits a b c in
      [t1 + t2, a, b, c, d + t1, e, f, g])"
| "sha_round _ st = st"

definition compress :: "u32 list \<Rightarrow> u32 list \<Rightarrow> u32 list" where
  "compress st block =
     map2 (+) st (fold sha_round (zip (round_constants) (schedule block)) st)"

section \<open>Padding and digest\<close>

fun be_bytes :: "nat \<Rightarrow> int \<Rightarrow> int list" where
  "be_bytes 0 n = []"
| "be_bytes (Suc k) n = be_bytes k (n div 256) @ [n mod 256]"

definition pad_message :: "int list \<Rightarrow> int list" where
  "pad_message m =
     m @ [0x80] @ replicate ((119 - length m mod 64) mod 64) 0 @ be_bytes 8 (int (length m) * 8)"

fun words_of_bytes :: "int list \<Rightarrow> u32 list" where
  "words_of_bytes (a # b # c # d # r) = word_of_int (((a * 256 + b) * 256 + c) * 256 + d) # words_of_bytes r"
| "words_of_bytes _ = []"

fun absorb_blocks :: "nat \<Rightarrow> u32 list \<Rightarrow> u32 list \<Rightarrow> u32 list" where
  "absorb_blocks 0 ws st = st"
| "absorb_blocks (Suc n) ws st = absorb_blocks n (drop 16 ws) (compress st (take 16 ws))"

definition sha256_words :: "bytes \<Rightarrow> u32 list" where
  "sha256_words s =
     (let ws = words_of_bytes (pad_message (map of_char s)) in
      absorb_blocks (length ws div 16) ws start_constants)"

definition sha256_hexdigest :: "bytes \<Rightarrow> string" where
  "sha256_hexdigest s = concat (map (\<lambda>w. concat (map (\<lambda>b. [hex_digit (nat (b div 16)), hex_digit (nat (b mod 16))])
     (be_bytes 4 (uint w)))) (sha256_words s))"

section \<open>The shape of a digest\<close>

lemma length_be_bytes [simp]: "length (be_bytes k n) = k"
  by (induction k arbitrary: n) auto

lemma be_bytes_bounded: "\<forall>b \<in> set (be_bytes k n). 0 \<le> b \<and> b < 256"
  by (induction k arbitrary: n) auto

lemma padded_blocks: "64 dvd length (pad_message m)"
proof -
  let ?l = "length m"
  have "?l = 64 * (?l div 64) + ?l mod 64" "?l mod 64 < 64" by simp_all
  then obtain q r where l: "?l = 64 * q + r" "r < 64" by blast
  show ?thesis
  proof (cases "r < 56")
    case True
    then have "(119 - r) mod 64 = 55 - r" by (simp add: mod_if)
    then have "length (pad_message m) = 64 * (q + 1)" using l True by (simp add: pad_message_def)
    then show ?thesis by (metis dvd_triv_left)
  next
    case False
    then have "(119 - r) mod 64 = 119 - r" by (simp add: mod_if)
    then have "length (pad_message m) = 64 * (q + 2)" using l False by (simp add: pad_message_def)
    then show ?thesis by (metis dvd_triv_left)
  qed
qed

lemma length_sha_round [simp]: "length (sha_round kw st) = length st"
  by (cases "(kw, st)" rule: sha_round.cases) (auto simp: Let_def)

lemma length_sha_rounds [simp]: "length (fold sha_round kws st) = length st"
  by (induction kws arbitrary: st) auto

lemma length_absorb_blocks [simp]: "length (absorb_blocks n ws st) = length st"
  by (induction n arbitrary: ws st) (auto simp: compress_def)

lemma length_sha256_words [simp]: "length (sha256_words s) = 8"
  by (simp add: sha256_words_def Let_def start_constants_def)

lemma length_hexdigest [simp]: "length (sha256_hexdigest s) = 64"
proof -
  have "length (concat (map f ws)) = 8 * length ws" if "\<forall>w. length (f w) = 8" for f :: "u32 \<Rightarrow> string" and ws
    using that by (induction ws) auto
  then show ?thesis by (simp add: sha256_hexdigest_def eval_nat_numeral)
qed

definition hex_char :: "char \<Rightarrow> bool" where
  "hex_char c \<longleftrightarrow> c \<in> set ''0123456789abcdef''"

definition hex_text :: "string \<Rightarrow> bool" where
  "hex_text s \<longleftrightarrow> list_all hex_char s"

lemma hex_digit_hex: "n < 16 \<Longrightarrow> hex_char (hex_digit n)"
proof -
  have "\<forall>n \<in> set [0..<16]. hex_char (hex_digit n)" by code_simp
  then show "n < 16 \<Longrightarrow> hex_char (hex_digit n)" by simp
qed

lemma hexdigest_hex: "hex_text (sha256_hexdigest s)"
proof -
  have "hex_char (hex_digit (nat (b div 16))) \<and> hex_char (hex_digit (nat (b mod 16)))"
    if "0 \<le> b \<and> b < 256" for b :: int
    using that by (intro conjI hex_digit_hex) auto
  then show ?thesis
    using be_bytes_bounded [of 4] unfolding sha256_hexdigest_def hex_text_def list_all_iff
    by (auto simp del: be_bytes.simps)
qed

section \<open>Checks\<close>

text \<open>\<open>f\<close> is the 32-bit fraction of the cube root or of the square root of \<open>p\<close>.\<close>

definition cube_root_fraction :: "int \<Rightarrow> int \<Rightarrow> bool" where
  "cube_root_fraction p f \<longleftrightarrow> list_ex (\<lambda>i. let r = i * 0x100000000 + f; t = p * 0x1000000000000000000000000 in
     r * r * r \<le> t \<and> t < (r + 1) * (r + 1) * (r + 1)) [1, 2, 3, 4, 5, 6]"

definition square_root_fraction :: "int \<Rightarrow> int \<Rightarrow> bool" where
  "square_root_fraction p f \<longleftrightarrow> list_ex (\<lambda>i. let r = i * 0x100000000 + f; t = p * 0x10000000000000000 in
     r * r \<le> t \<and> t < (r + 1) * (r + 1)) [1, 2, 3, 4]"

lemma sha256_start_constants:
  "list_all2 square_root_fraction [2, 3, 5, 7, 11, 13, 17, 19] (map uint start_constants)"
  by code_simp

lemma sha256_round_constants:
  "list_all2 cube_root_fraction
    [2, 3, 5, 7, 11, 13, 17, 19, 23, 29, 31, 37, 41, 43, 47, 53,
     59, 61, 67, 71, 73, 79, 83, 89, 97, 101, 103, 107, 109, 113, 127, 131,
     137, 139, 149, 151, 157, 163, 167, 173, 179, 181, 191, 193, 197, 199, 211, 223,
     227, 229, 233, 239, 241, 251, 257, 263, 269, 271, 277, 281, 283, 293, 307, 311]
    (map uint round_constants)"
  by code_simp

text \<open>One round from the start, and the padded block of \<open>abc\<close>.\<close>

lemma sha256_first_round:
  "sha_round (0x428A2F98, 0x61626380) start_constants
     = [0x5D6AEBCD, 0x6A09E667, 0xBB67AE85, 0x3C6EF372, 0xFA2A4622, 0x510E527F, 0x9B05688C, 0x1F83D9AB]"
  by code_simp

lemma sha256_padding:
  "words_of_bytes (pad_message (map of_char ''abc'')) = 0x61626380 # replicate 14 0 @ [24]"
  by code_simp

end
