(* ===== verification/Tool_Registry.thy ===== *)
theory Tool_Registry
  imports Sha256 Py_Number Action "HOL-Library.Product_Lexorder" "HOL-Library.List_Lexorder" "HOL-Library.Char_ord"
begin

text \<open>
  \<open>tool_compatibility/registry.py\<close>: the aliases one request gives to the tools it adapts.  An alias is
  a prefix for the family of the tool, ten digits of the SHA-256 of the tool's identity, and an
  ordinal that steps over names already taken.  Names reserved later move the aliases they collide
  with, and the registry remembers where each went.  The methods are actions on the registry; a raised
  \<open>ToolCompatibilityError\<close> is a value with its code, classification and surface.
\<close>

section \<open>Records, errors and the registry\<close>

datatype compat_error = ToolCompatibilityError string string string

definition NAMESPACE :: string where "NAMESPACE = ''namespace''"
definition CUSTOM_FREEFORM :: string where "CUSTOM_FREEFORM = ''custom_freeform''"
definition TOOL_SEARCH :: string where "TOOL_SEARCH = ''tool_search''"
definition PLAIN_FUNCTION :: string where "PLAIN_FUNCTION = ''plain_function''"
definition SELECTED_PROVIDER_HOSTED :: string where
  "SELECTED_PROVIDER_HOSTED = ''selected_provider_hosted''"

definition NAMESPACE_PREFIX :: string where "NAMESPACE_PREFIX = ''__codexhub_ns_''"
definition CUSTOM_PREFIX :: string where "CUSTOM_PREFIX = ''__codexhub_custom_''"
definition SEARCH_PREFIX :: string where "SEARCH_PREFIX = ''__codexhub_search_''"
definition HOSTED_PREFIX :: string where "HOSTED_PREFIX = ''__codexhub_hosted_''"
definition FUNCTION_PREFIX :: string where "FUNCTION_PREFIX = ''__codexhub_fn_''"

definition AGENT_MESSAGE_ENVELOPE_PREFIX :: string where
  "AGENT_MESSAGE_ENVELOPE_PREFIX = ''__codexhub_agent_message_v2__:''"

lemmas prefix_defs = NAMESPACE_PREFIX_def CUSTOM_PREFIX_def SEARCH_PREFIX_def HOSTED_PREFIX_def
  FUNCTION_PREFIX_def

record alias_record =
  ar_alias :: string
  ar_family :: string
  ar_declaration_index :: int
  ar_child_index :: "int option"
  ar_namespace :: "string option"
  ar_child_name :: "string option"
  ar_original_name :: "string option"
  ar_version :: "string option"

record registry =
  rg_native :: "string list"
  rg_max_length :: int
  rg_max_attempts :: int
  rg_aliases :: "(string, alias_record) dict"
  rg_remapped :: "(string, string) dict"
  rg_by_declaration :: "(int \<times> int option, string) dict"
  rg_calls :: "(string, alias_record) dict"
  rg_messages :: "(string, obj) dict"

definition string_names :: "json list \<Rightarrow> string list" where
  "string_names names = List.map_filter (\<lambda>v. case v of JStr s \<Rightarrow> Some s | _ \<Rightarrow> None) names"

definition new_registry :: "json list \<Rightarrow> int \<Rightarrow> int \<Rightarrow> registry" where
  "new_registry native_names max_length max_attempts =
     \<lparr>rg_native = string_names native_names, rg_max_length = max_length, rg_max_attempts = max_attempts,
      rg_aliases = [], rg_remapped = [], rg_by_declaration = [], rg_calls = [], rg_messages = []\<rparr>"

definition alias_limit :: "string \<Rightarrow> compat_error" where
  "alias_limit classification = ToolCompatibilityError ''tool_compatibility_alias_limit'' classification ''request''"

definition boundary_error :: "string \<Rightarrow> string \<Rightarrow> compat_error" where
  "boundary_error classification surface =
     ToolCompatibilityError ''tool_compatibility_boundary'' classification surface"

section \<open>Allocation\<close>

definition alias_token :: "alias_record \<Rightarrow> string" where
  "alias_token r = take 10 (sha256_hexdigest (dumps (JArr
     [JInt 2, JStr (ar_family r), case_option JNull JStr (ar_namespace r),
      case_option JNull JStr (ar_original_name r), case_option JNull JStr (ar_version r)])))"

definition candidate :: "string \<Rightarrow> string \<Rightarrow> nat \<Rightarrow> string" where
  "candidate pre token ordinal = pre @ token @ ''_'' @ nat_text ordinal"

definition name_taken :: "registry \<Rightarrow> string \<Rightarrow> bool" where
  "name_taken s c \<longleftrightarrow> List.member (rg_native s) c \<or> dict_has (rg_aliases s) c"

text \<open>The loop over the ordinals.\<close>

fun probe :: "registry \<Rightarrow> string \<Rightarrow> string \<Rightarrow> nat list \<Rightarrow> compat_error + string" where
  "probe s pre token [] = Inl (alias_limit ''alias_collision_exhausted'')"
| "probe s pre token (i # is) =
     (let c = candidate pre token i in
      if int (length c) > rg_max_length s then Inl (alias_limit ''alias_length_exhausted'')
      else if name_taken s c then probe s pre token is
      else Inr c)"

definition ordinals :: "registry \<Rightarrow> nat list" where
  "ordinals s = [1..<Suc (nat (rg_max_attempts s))]"

definition register_alias :: "alias_record \<Rightarrow> string \<Rightarrow> registry \<Rightarrow> registry" where
  "register_alias r c s =
     s\<lparr>rg_aliases := dict_set (rg_aliases s) c (r\<lparr>ar_alias := c\<rparr>),
       rg_by_declaration := dict_set (rg_by_declaration s) (ar_declaration_index r, ar_child_index r) c\<rparr>"

definition allocate :: "alias_record \<Rightarrow> string \<Rightarrow> (registry, compat_error, string) action" where
  "allocate r pre s =
     (case probe s pre (alias_token r) (ordinals s) of
        Inl e \<Rightarrow> (Inl e, s)
      | Inr c \<Rightarrow> (Inr c, register_alias r c s))"

definition allocate_namespace ::
  "int \<Rightarrow> string \<Rightarrow> int \<Rightarrow> string \<Rightarrow> string option \<Rightarrow> (registry, compat_error, string) action" where
  "allocate_namespace declaration_index namespace child_index child_name version =
     allocate \<lparr>ar_alias = [], ar_family = NAMESPACE, ar_declaration_index = declaration_index,
       ar_child_index = Some child_index, ar_namespace = Some namespace, ar_child_name = Some child_name,
       ar_original_name = Some child_name, ar_version = version\<rparr> NAMESPACE_PREFIX"

definition allocate_function :: "int \<Rightarrow> string \<Rightarrow> (registry, compat_error, string) action" where
  "allocate_function declaration_index original_name =
     allocate \<lparr>ar_alias = [], ar_family = PLAIN_FUNCTION, ar_declaration_index = declaration_index,
       ar_child_index = None, ar_namespace = None, ar_child_name = None,
       ar_original_name = Some original_name, ar_version = None\<rparr> FUNCTION_PREFIX"

definition allocate_custom :: "int \<Rightarrow> string \<Rightarrow> string option \<Rightarrow> (registry, compat_error, string) action" where
  "allocate_custom declaration_index original_name version =
     allocate \<lparr>ar_alias = [], ar_family = CUSTOM_FREEFORM, ar_declaration_index = declaration_index,
       ar_child_index = None, ar_namespace = None, ar_child_name = None,
       ar_original_name = Some original_name, ar_version = version\<rparr> CUSTOM_PREFIX"

definition allocate_tool_search :: "int \<Rightarrow> (registry, compat_error, string) action" where
  "allocate_tool_search declaration_index =
     allocate \<lparr>ar_alias = [], ar_family = TOOL_SEARCH, ar_declaration_index = declaration_index,
       ar_child_index = None, ar_namespace = None, ar_child_name = Some ''tool_search'',
       ar_original_name = Some ''tool_search'', ar_version = None\<rparr> SEARCH_PREFIX"

definition allocate_hosted :: "int \<Rightarrow> string \<Rightarrow> (registry, compat_error, string) action" where
  "allocate_hosted declaration_index kind =
     allocate \<lparr>ar_alias = [], ar_family = SELECTED_PROVIDER_HOSTED, ar_declaration_index = declaration_index,
       ar_child_index = None, ar_namespace = None, ar_child_name = Some kind,
       ar_original_name = Some kind, ar_version = None\<rparr> HOSTED_PREFIX"

section \<open>Reserving names\<close>

definition family_prefix :: "string \<Rightarrow> string" where
  "family_prefix family =
     (case map_of [(NAMESPACE, NAMESPACE_PREFIX), (CUSTOM_FREEFORM, CUSTOM_PREFIX), (TOOL_SEARCH, SEARCH_PREFIX),
        (SELECTED_PROVIDER_HOSTED, HOSTED_PREFIX), (PLAIN_FUNCTION, FUNCTION_PREFIX)] family of
        None \<Rightarrow> CUSTOM_PREFIX
      | Some p \<Rightarrow> p)"

definition release_alias :: "string \<Rightarrow> alias_record \<Rightarrow> registry \<Rightarrow> registry" where
  "release_alias alias r s =
     s\<lparr>rg_aliases := dict_pop (rg_aliases s) alias,
       rg_by_declaration := dict_pop (rg_by_declaration s) (ar_declaration_index r, ar_child_index r)\<rparr>"

definition remember_move :: "string \<Rightarrow> string \<Rightarrow> registry \<Rightarrow> registry" where
  "remember_move alias replacement s = s\<lparr>rg_remapped := dict_set (rg_remapped s) alias replacement\<rparr>"

fun move_aliases :: "string list \<Rightarrow> (string \<times> alias_record) list \<Rightarrow> (string, string) dict
    \<Rightarrow> (registry, compat_error, (string, string) dict) action" where
  "move_aliases requested [] moved = ret moved"
| "move_aliases requested ((alias, r) # rest) moved =
     (if \<not> List.member requested alias then move_aliases requested rest moved
      else bind (change (release_alias alias r)) (\<lambda>_.
           bind (allocate r (family_prefix (ar_family r))) (\<lambda>replacement.
           bind (change (remember_move alias replacement)) (\<lambda>_.
           move_aliases requested rest (dict_set moved alias replacement)))))"

definition requested_names :: "json list \<Rightarrow> string list" where
  "requested_names names = List.filter (\<lambda>n. n \<noteq> []) (string_names names)"

definition reserve_native_names :: "json list \<Rightarrow> (registry, compat_error, (string, string) dict) action" where
  "reserve_native_names names s =
     (let requested = requested_names names; s1 = s\<lparr>rg_native := rg_native s @ requested\<rparr> in
      move_aliases requested (rg_aliases s1) [] s1)"

section \<open>Queries\<close>

definition is_native_name :: "registry \<Rightarrow> json \<Rightarrow> bool" where
  "is_native_name s v = (case v of JStr n \<Rightarrow> List.member (rg_native s) n | _ \<Rightarrow> False)"

definition looks_like_alias :: "json \<Rightarrow> bool" where
  "looks_like_alias v =
     (case v of
        JStr n \<Rightarrow> list_ex (\<lambda>p. prefix p n)
          [NAMESPACE_PREFIX, CUSTOM_PREFIX, SEARCH_PREFIX, HOSTED_PREFIX, FUNCTION_PREFIX]
      | _ \<Rightarrow> False)"

definition record_for_alias :: "registry \<Rightarrow> json \<Rightarrow> alias_record option" where
  "record_for_alias s v = (case v of JStr a \<Rightarrow> dict_get (rg_aliases s) a | _ \<Rightarrow> None)"

text \<open>Following the moves; a name seen before ends the loop.\<close>

function chase :: "(string, string) dict \<Rightarrow> string \<Rightarrow> string \<Rightarrow> string list \<Rightarrow> string option" where
  "chase moves alias current seen =
     (if current \<in> set seen then None
      else (case dict_get moves current of
              None \<Rightarrow> if current \<noteq> alias then Some current else None
            | Some replacement \<Rightarrow> chase moves alias replacement (current # seen)))"
  by pat_completeness auto
termination
proof (relation "measure (\<lambda>(moves, _, _, seen). card (dict_keys moves - set seen))", goal_cases)
  case (2 moves a current seen replacement)
  have "current \<in> dict_keys moves - set seen"
    using 2 by (auto simp: dict_get_Some_iff_keys [symmetric])
  moreover have "finite (dict_keys moves)" by (simp add: dict_keys_def)
  ultimately show ?case by (simp only: in_measure prod.case) (rule psubset_card_mono, auto)
qed simp

declare chase.simps [simp del]

definition remapped_alias :: "registry \<Rightarrow> json \<Rightarrow> string option" where
  "remapped_alias s v = (case v of JStr a \<Rightarrow> chase (rg_remapped s) a a [] | _ \<Rightarrow> None)"

definition alias_for :: "registry \<Rightarrow> int \<Rightarrow> int option \<Rightarrow> string option" where
  "alias_for s declaration_index child_index = dict_get (rg_by_declaration s) (declaration_index, child_index)"

section \<open>Calls, agent messages, attempts\<close>

definition bind_call :: "json \<Rightarrow> string \<Rightarrow> (registry, compat_error, unit) action" where
  "bind_call call_id alias s =
     (case non_empty_str (Some call_id) of
        None \<Rightarrow> (Inl (boundary_error ''missing_call_identity'' ''request''), s)
      | Some i \<Rightarrow>
          (case record_for_alias s (JStr alias) of
             None \<Rightarrow> (Inl (boundary_error ''unknown_alias'' ''request''), s)
           | Some r \<Rightarrow>
               (case dict_get (rg_calls s) i of
                  Some previous \<Rightarrow>
                    (if ar_alias previous \<noteq> alias
                     then (Inl (boundary_error ''ambiguous_call_identity'' ''request''), s)
                     else (Inl (boundary_error ''duplicate_call_identity'' ''request''), s))
                | None \<Rightarrow> (Inr (), s\<lparr>rg_calls := dict_set (rg_calls s) i r\<rparr>))))"

definition record_for_call :: "registry \<Rightarrow> json \<Rightarrow> alias_record option" where
  "record_for_call s v = (case v of JStr i \<Rightarrow> dict_get (rg_calls s) i | _ \<Rightarrow> None)"

text \<open>
  Python's \<open>==\<close> on JSON values: numbers by value across \<open>bool\<close>, \<open>int\<close> and \<open>float\<close>, objects without
  regard to the order of their members.  A \<open>nan\<close> is equal to nothing.
\<close>

definition number_value :: "json \<Rightarrow> pyfloat option" where
  "number_value v =
     (case v of
        JBool b \<Rightarrow> Some (Finite (if b then 1 else 0))
      | JInt n \<Rightarrow> Some (Finite (of_int n))
      | JFloat t \<Rightarrow> Some (float_of_text t)
      | _ \<Rightarrow> None)"

definition same_number :: "json \<Rightarrow> json \<Rightarrow> bool" where
  "same_number v w =
     (case (number_value v, number_value w) of
        (Some x, Some y) \<Rightarrow> x = y \<and> x \<noteq> Not_A_Number
      | _ \<Rightarrow> False)"

function py_equal :: "json \<Rightarrow> json \<Rightarrow> bool" where
  "py_equal v w =
     (case v of
        JNull \<Rightarrow> w = JNull
      | JStr s \<Rightarrow> w = JStr s
      | JArr vs \<Rightarrow>
          (case w of
             JArr ws \<Rightarrow> length vs = length ws \<and> list_all (\<lambda>(x, y). py_equal x y) (zip vs ws)
           | _ \<Rightarrow> False)
      | JObj kvs \<Rightarrow>
          (case w of
             JObj kws \<Rightarrow> length kvs = length kws \<and>
               list_all (\<lambda>(k, x). case dict_get kws k of None \<Rightarrow> False | Some y \<Rightarrow> py_equal x y) kvs
           | _ \<Rightarrow> False)
      | _ \<Rightarrow> same_number v w)"
  by pat_completeness auto
termination
proof (relation "measure (\<lambda>(v, _). size v)", goal_cases)
  case (2 v w vs ws z x y)
  then have "x \<in> set vs" by (auto dest: set_zip_leftD)
  then have "size x \<le> size_list size vs" by (rule size_list_estimation') simp
  with 2 show ?case by (cases z) simp
next
  case (3 v w kvs kws z k x y)
  then have "(k, x) \<in> set kvs" by simp
  then have "size x \<le> size_list (size_prod (\<lambda>_. 0) size) kvs" by (rule size_list_estimation') simp
  with 3 show ?case by simp
qed simp

declare py_equal.simps [simp del]

definition bind_agent_message :: "string \<Rightarrow> obj \<Rightarrow> (registry, compat_error, unit) action" where
  "bind_agent_message envelope item s =
     (if \<not> prefix AGENT_MESSAGE_ENVELOPE_PREFIX envelope
      then (Inl (boundary_error ''invalid_agent_message_envelope'' ''history''), s)
      else (case dict_get (rg_messages s) envelope of
              Some previous \<Rightarrow>
                (if py_equal (JObj previous) (JObj item) then (Inr (), s)
                 else (Inl (boundary_error ''duplicate_item_identity'' ''history''), s))
            | None \<Rightarrow> (Inr (), s\<lparr>rg_messages := dict_set (rg_messages s) envelope item\<rparr>)))"

definition agent_message_for_envelope :: "registry \<Rightarrow> json \<Rightarrow> obj option" where
  "agent_message_for_envelope s v = (case v of JStr e \<Rightarrow> dict_get (rg_messages s) e | _ \<Rightarrow> None)"

definition new_attempt :: "registry \<Rightarrow> registry" where
  "new_attempt s = s\<lparr>rg_calls := []\<rparr>"

section \<open>Diagnostics\<close>

text \<open>\<open>CompatibilityDiagnostics.from_entries\<close> on the (family, disposition) pairs of the entries, and \<open>as_dict\<close>.\<close>

definition diagnostic_counts :: "(string \<times> string) list \<Rightarrow> (string \<times> string \<times> int) list" where
  "diagnostic_counts pairs =
     map (\<lambda>(family, disposition). (family, disposition, int (count_list pairs (family, disposition))))
       (sort (remdups pairs))"

definition diagnostics_dict :: "(string \<times> string \<times> int) list \<Rightarrow> string list \<Rightarrow> obj" where
  "diagnostics_dict counts failures =
     [(''counts'', JArr (map (\<lambda>(family, disposition, n).
         JObj [(''family'', JStr family), (''disposition'', JStr disposition), (''count'', JInt n)]) counts)),
      (''failure_classifications'', JArr (map JStr failures))]"

section \<open>The operations of one request\<close>

datatype registry_op =
    Allocate_Namespace int string int string "string option"
  | Allocate_Function int string
  | Allocate_Custom int string "string option"
  | Allocate_Tool_Search int
  | Allocate_Hosted int string
  | Reserve "json list"
  | Bind_Call json string
  | Bind_Agent_Message string obj
  | New_Attempt

definition outcome :: "(compat_error + 'a) \<times> registry \<Rightarrow> compat_error option \<times> registry" where
  "outcome r = (case r of (Inl e, s) \<Rightarrow> (Some e, s) | (Inr _, s) \<Rightarrow> (None, s))"

fun apply_op :: "registry_op \<Rightarrow> registry \<Rightarrow> compat_error option \<times> registry" where
  "apply_op (Allocate_Namespace d n c m v) s = outcome (allocate_namespace d n c m v s)"
| "apply_op (Allocate_Function d n) s = outcome (allocate_function d n s)"
| "apply_op (Allocate_Custom d n v) s = outcome (allocate_custom d n v s)"
| "apply_op (Allocate_Tool_Search d) s = outcome (allocate_tool_search d s)"
| "apply_op (Allocate_Hosted d k) s = outcome (allocate_hosted d k s)"
| "apply_op (Reserve names) s = outcome (reserve_native_names names s)"
| "apply_op (Bind_Call i a) s = outcome (bind_call i a s)"
| "apply_op (Bind_Agent_Message e i) s = outcome (bind_agent_message e i s)"
| "apply_op New_Attempt s = (None, new_attempt s)"

text \<open>
  What a request does with its registry.  A refused operation leaves the registry as it was and the
  request may go on; a reservation that fails ends the request.
\<close>

definition is_reserve :: "registry_op \<Rightarrow> bool" where
  "is_reserve x \<longleftrightarrow> (case x of Reserve _ \<Rightarrow> True | _ \<Rightarrow> False)"

fun run_ops :: "registry_op list \<Rightarrow> registry \<Rightarrow> registry option" where
  "run_ops [] s = Some s"
| "run_ops (x # xs) s =
     (case apply_op x s of
        (None, s') \<Rightarrow> run_ops xs s'
      | (Some e, s') \<Rightarrow> if is_reserve x then None else run_ops xs s')"

end
