(* ===== verification/Tool_Registry_Properties.thy ===== *)
theory Tool_Registry_Properties
  imports Tool_Registry
begin

text \<open>
  The aliases of a request: what an allocation returns, the invariant of the registry, and that no
  alias a provider has been shown is ever lost.  \<open>chain_end\<close> is where the moves recorded so far lead
  from a name; \<open>moves_ordered\<close> (no move leads back to a name moved earlier) makes the loop of
  \<open>remapped_alias\<close> compute it.
\<close>

section \<open>Allocation\<close>

lemma length_alias_token [simp]: "length (alias_token r) = 10"
  by (simp add: alias_token_def)

lemma alias_token_identity:
  "ar_family r = ar_family r' \<Longrightarrow> ar_namespace r = ar_namespace r' \<Longrightarrow>
   ar_original_name r = ar_original_name r' \<Longrightarrow> ar_version r = ar_version r' \<Longrightarrow>
   alias_token r = alias_token r'"
  by (simp add: alias_token_def)

lemma nat_text_at_most: "n < 10 ^ k \<Longrightarrow> 0 < k \<Longrightarrow> length (nat_text n) \<le> k"
proof (induction k arbitrary: n)
  case (Suc k)
  show ?case
  proof (cases "n < 10")
    case False
    with Suc.prems have "n div 10 < 10 ^ k" "0 < k"
      by (auto simp: less_mult_imp_div_less mult.commute intro: gr0I)
    with Suc.IH [of "n div 10"] False show ?thesis by (simp add: nat_text.simps [of n])
  qed (simp add: nat_text.simps [of n])
qed simp

lemma nat_text_inj: "nat_text m = nat_text n \<Longrightarrow> m = n"
proof (induction m arbitrary: n rule: less_induct)
  case (less m)
  have last: "last (nat_text k) = char_of (48 + k mod 10)" for k
    by (simp add: nat_text.simps [of k])
  have digit: "(of_char (char_of (48 + k mod 10) :: char) :: nat) = 48 + k mod 10" for k :: nat
    by (intro of_char_small) (use mod_less_divisor [of 10 k] in linarith)
  have mods: "m mod 10 = n mod 10"
    using arg_cong [OF less.prems, of last] digit [of m] digit [of n] unfolding last
    by (metis add_left_cancel)
  have nonempty: "nat_text k \<noteq> []" for k by (simp add: nat_text.simps [of k])
  have divs: "m div 10 = n div 10"
  proof (cases "m < 10 \<or> n < 10")
    case True
    have "n < 10 \<longleftrightarrow> m < 10"
      using less.prems nonempty [of "m div 10"] nonempty [of "n div 10"]
      by (auto simp: nat_text.simps [of m] nat_text.simps [of n] split: if_splits)
    with True show ?thesis by simp
  next
    case False
    then have "nat_text (m div 10) = nat_text (n div 10)"
      using less.prems by (simp add: nat_text.simps [of m] nat_text.simps [of n])
    with less.IH [of "m div 10"] False show ?thesis by simp
  qed
  from mods divs show ?case by (metis div_mult_mod_eq)
qed

lemma candidate_inj [simp]: "candidate p t i = candidate p t j \<longleftrightarrow> i = j"
  by (auto simp: candidate_def dest: nat_text_inj)

lemma probe_Inr:
  "probe s p t is = Inr c \<Longrightarrow>
     \<exists>i \<in> set is. c = candidate p t i \<and> \<not> name_taken s c \<and> int (length c) \<le> rg_max_length s"
  by (induction "is") (auto simp: Let_def split: if_splits)

text \<open>With room for every candidate, the loop fails only when all of them are taken.\<close>

lemma probe_exhausted:
  "\<forall>i \<in> set is. int (length (candidate p t i)) \<le> rg_max_length s \<Longrightarrow> probe s p t is = Inl e \<Longrightarrow>
     e = alias_limit ''alias_collision_exhausted'' \<and> (\<forall>i \<in> set is. name_taken s (candidate p t i))"
  by (induction "is") (auto simp: Let_def split: if_splits)

lemma probe_same:
  "rg_max_length s = rg_max_length s' \<Longrightarrow>
   \<forall>i \<in> set is. name_taken s (candidate p t i) = name_taken s' (candidate p t i) \<Longrightarrow>
   probe s p t is = probe s' p t is"
  by (induction "is") (auto simp: Let_def)

lemma taken_count:
  assumes "\<forall>i \<in> set (ordinals s). name_taken s (candidate p t i)"
  shows "nat (rg_max_attempts s) \<le> length (rg_native s) + length (rg_aliases s)"
proof -
  have "candidate p t ` set (ordinals s) \<subseteq> set (rg_native s @ map fst (rg_aliases s))"
    using assms by (auto simp: name_taken_def dict_has_def dom_map_of_conv_image_fst [symmetric] dom_def)
  then have "card (candidate p t ` set (ordinals s)) \<le> card (set (rg_native s @ map fst (rg_aliases s)))"
    by (intro card_mono) simp_all
  also have "\<dots> \<le> length (rg_native s @ map fst (rg_aliases s))" by (rule card_length)
  finally have "card (candidate p t ` set (ordinals s)) \<le> length (rg_native s) + length (rg_aliases s)" by simp
  moreover have "card (candidate p t ` set (ordinals s)) = card (set (ordinals s))"
    by (intro card_image inj_onI) simp
  moreover have "card (set (ordinals s)) = nat (rg_max_attempts s)"
    unfolding ordinals_def by (simp only: set_upt card_atLeastLessThan diff_Suc_1 flip: One_nat_def)
  ultimately show ?thesis by linarith
qed

lemma candidate_fits:
  assumes "length p \<le> 18" "i < 1000"
  shows "length (candidate p (alias_token r) i) \<le> 32"
  using assms nat_text_at_most [of i 3] by (simp add: candidate_def)

lemma allocate_Inr:
  assumes "allocate r p s = (Inr c, s')"
  shows "s' = register_alias r c s" "\<not> name_taken s c" "int (length c) \<le> rg_max_length s"
    "\<exists>i. c = candidate p (alias_token r) i"
  using assms by (auto simp: allocate_def split: sum.splits dest!: probe_Inr)

lemma allocate_Inl: "allocate r p s = (Inl e, s') \<Longrightarrow> s' = s"
  by (auto simp: allocate_def split: sum.splits)

lemma family_prefix_short: "length (family_prefix f) \<le> 18"
  by (simp add: family_prefix_def prefix_defs)

section \<open>Moves\<close>

fun chain_end :: "(string, string) dict \<Rightarrow> string \<Rightarrow> string" where
  "chain_end [] a = a"
| "chain_end ((k, v) # r) a = chain_end r (if a = k then v else a)"

fun moves_ordered :: "(string, string) dict \<Rightarrow> bool" where
  "moves_ordered [] \<longleftrightarrow> True"
| "moves_ordered ((k, v) # r) \<longleftrightarrow> v \<noteq> k \<and> k \<notin> fst ` set r \<and> k \<notin> snd ` set r \<and> moves_ordered r"

lemma chain_end_snoc: "chain_end (r @ [(k, v)]) a = (if chain_end r a = k then v else chain_end r a)"
  by (induction r arbitrary: a) auto

lemma moves_ordered_snoc:
  "moves_ordered (r @ [(k, v)]) \<longleftrightarrow> moves_ordered r \<and> k \<notin> fst ` set r \<and> v \<notin> fst ` set r \<and> v \<noteq> k"
  by (induction r) auto

lemma chain_end_other: "a \<notin> fst ` set r \<Longrightarrow> chain_end r a = a"
  by (induction r) auto

lemma chain_end_ordered: "moves_ordered r \<Longrightarrow> a \<notin> snd ` set r \<Longrightarrow> b \<noteq> a \<Longrightarrow> chain_end r b \<noteq> a"
proof (induction r arbitrary: b)
  case (Cons x r)
  then have "chain_end r (if b = fst x then snd x else b) \<noteq> a"
    by (intro Cons.IH) (cases x; auto)+
  then show ?case by (cases x) auto
qed simp

lemma chain_end_target: "chain_end r a = a \<or> chain_end r a \<in> snd ` set r"
proof (induction r arbitrary: a)
  case (Cons x r)
  from Cons [of "if a = fst x then snd x else a"] show ?case by (cases x) (auto split: if_splits)
qed simp

lemma dict_set_new: "k \<notin> fst ` set d \<Longrightarrow> dict_set d k v = d @ [(k, v)]"
  by (induction d) (auto simp: dict_set_def)

lemma moves_ordered_target: "moves_ordered (p @ (k, v) # r) \<Longrightarrow> v \<noteq> k \<and> v \<notin> fst ` set p"
  by (induction p) force+

lemma chase_chain:
  assumes "moves_ordered (p @ r)" "current \<notin> fst ` set p" "set seen \<subseteq> fst ` set p"
  shows "chase (p @ r) a current seen = (let b = chain_end r current in if b = a then None else Some b)"
  using assms
proof (induction r arbitrary: p current seen)
  case Nil
  then have "dict_get p current = None" "current \<notin> set seen" by (auto simp: map_of_eq_None_iff)
  then show ?case by (simp add: chase.simps [of _ _ current])
next
  case (Cons x r)
  obtain k v where x: "x = (k, v)" by fastforce
  show ?case
  proof (cases "current = k")
    case False
    with Cons.prems Cons.IH [of "p @ [x]" current seen] show ?thesis by (auto simp: x)
  next
    case True
    have "dict_get p current = None" using Cons.prems by (simp add: map_of_eq_None_iff)
    then have "dict_get (p @ x # r) current = Some v" "current \<notin> set seen"
      using Cons.prems True by (auto simp: x map_add_def)
    then have "chase (p @ x # r) a current seen = chase (p @ x # r) a v (current # seen)"
      by (simp add: chase.simps [of _ _ current])
    moreover have "v \<notin> fst ` set (p @ [x])"
      using moves_ordered_target Cons.prems(1) by (auto simp: x)
    ultimately show ?thesis
      using Cons.prems Cons.IH [of "p @ [x]" v "current # seen"] True by (auto simp: x)
  qed
qed

lemma chain_end_idem: "moves_ordered r \<Longrightarrow> chain_end r (chain_end r a) = chain_end r a"
proof (induction r arbitrary: a)
  case (Cons x r)
  let ?b = "if a = fst x then snd x else a"
  have "?b \<noteq> fst x" "fst x \<notin> snd ` set r" using Cons.prems by (cases x; auto)+
  then have "chain_end r ?b \<noteq> fst x" using Cons.prems by (intro chain_end_ordered) (cases x; auto)+
  with Cons show ?case by (cases x) auto
qed simp

lemma remapped_alias_chain:
  assumes "moves_ordered (rg_remapped s)"
  shows "remapped_alias s (JStr a) = (let b = chain_end (rg_remapped s) a in if b = a then None else Some b)"
  using chase_chain [of "[]" "rg_remapped s" a "[]" a] assms by (simp add: remapped_alias_def)

section \<open>The invariant\<close>

text \<open>
  \<open>consistent P s\<close>: the invariant while the aliases \<open>P\<close> are still to be moved out of the way of reserved names.
\<close>

definition alias_of :: "registry \<Rightarrow> string \<Rightarrow> alias_record option" where
  "alias_of s a = dict_get (rg_aliases s) a"

definition consistent :: "string set \<Rightarrow> registry \<Rightarrow> bool" where
  "consistent P s \<longleftrightarrow>
     distinct (map fst (rg_aliases s)) \<and>
     (\<forall>a r. alias_of s a = Some r \<longrightarrow>
        ar_alias r = a \<and> int (length a) \<le> rg_max_length s \<and> (a \<in> set (rg_native s) \<longrightarrow> a \<in> P)) \<and>
     (\<forall>d i a. dict_get (rg_by_declaration s) (d, i) = Some a \<longrightarrow>
        (\<exists>r. alias_of s a = Some r \<and> ar_declaration_index r = d \<and> ar_child_index r = i)) \<and>
     moves_ordered (rg_remapped s) \<and>
     fst ` set (rg_remapped s) \<subseteq> set (rg_native s) \<and>
     (\<forall>a. alias_of s a \<noteq> None \<longrightarrow> a \<notin> fst ` set (rg_remapped s)) \<and>
     (\<forall>a \<in> dict_keys (rg_remapped s). alias_of s (chain_end (rg_remapped s) a) \<noteq> None)"

abbreviation registry_wf :: "registry \<Rightarrow> bool" where
  "registry_wf s \<equiv> consistent {} s"

lemma name_taken_alias: "name_taken s c \<longleftrightarrow> c \<in> set (rg_native s) \<or> alias_of s c \<noteq> None"
  by (simp add: name_taken_def dict_has_def alias_of_def)

lemma alias_of_register [simp]:
  "alias_of (register_alias r c s) a = (if a = c then Some (r\<lparr>ar_alias := c\<rparr>) else alias_of s a)"
  by (simp add: alias_of_def register_alias_def dict_simps)

lemma alias_of_release [simp]:
  "alias_of (release_alias b r s) a = (if a = b then None else alias_of s a)"
  by (simp add: alias_of_def release_alias_def dict_simps)

lemma register_fields [simp]:
  "rg_native (register_alias r c s) = rg_native s" "rg_max_length (register_alias r c s) = rg_max_length s"
  "rg_remapped (register_alias r c s) = rg_remapped s" "rg_calls (register_alias r c s) = rg_calls s"
  "rg_by_declaration (register_alias r c s)
     = dict_set (rg_by_declaration s) (ar_declaration_index r, ar_child_index r) c"
  "rg_aliases (register_alias r c s) = dict_set (rg_aliases s) c (r\<lparr>ar_alias := c\<rparr>)"
  by (simp_all add: register_alias_def)

lemma consistent_register:
  assumes "consistent P s" "\<not> name_taken s c" "int (length c) \<le> rg_max_length s"
  shows "consistent P (register_alias r c s)"
proof -
  have c: "c \<notin> set (rg_native s)" "alias_of s c = None"
    using assms(2) by (auto simp: name_taken_alias)
  have "distinct (map fst (dict_set (rg_aliases s) c (r\<lparr>ar_alias := c\<rparr>)))"
    using assms(1) by (intro distinct_dict_set) (simp add: consistent_def)
  moreover have "\<exists>r'. alias_of (register_alias r c s) a = Some r' \<and> ar_declaration_index r' = d \<and> ar_child_index r' = i"
    if "dict_get (rg_by_declaration (register_alias r c s)) (d, i) = Some a" for d i a
    using that assms(1) c unfolding consistent_def by (fastforce simp: dict_simps split: if_splits)
  ultimately show ?thesis
    using assms c unfolding consistent_def by auto
qed

lemma consistent_allocate:
  "consistent P s \<Longrightarrow> allocate r p s = (x, s') \<Longrightarrow> consistent P s'"
  by (cases x) (auto dest: allocate_Inl allocate_Inr intro: consistent_register)

text \<open>Where a name leads: its record, or the record of the alias it was moved to.\<close>

definition owner :: "registry \<Rightarrow> string \<Rightarrow> alias_record option" where
  "owner s a =
     (case record_for_alias s (JStr a) of
        Some r \<Rightarrow> Some r
      | None \<Rightarrow> (case remapped_alias s (JStr a) of
                   None \<Rightarrow> None
                 | Some b \<Rightarrow> record_for_alias s (JStr b)))"

lemma owner_chain:
  assumes "consistent P s"
  shows "owner s a = alias_of s (chain_end (rg_remapped s) a)"
proof -
  have "moves_ordered (rg_remapped s)" using assms by (simp add: consistent_def)
  note chain = remapped_alias_chain [OF this]
  have "chain_end (rg_remapped s) a = a" if "alias_of s a = Some r" for r
    using that assms by (intro chain_end_other) (auto simp: consistent_def)
  then show ?thesis
    by (cases "alias_of s a") (auto simp: owner_def record_for_alias_def chain Let_def alias_of_def [symmetric])
qed

definition same_tool :: "alias_record \<Rightarrow> alias_record \<Rightarrow> bool" where
  "same_tool r r' \<longleftrightarrow> r\<lparr>ar_alias := []\<rparr> = r'\<lparr>ar_alias := []\<rparr>"

definition keeps_owners :: "registry \<Rightarrow> registry \<Rightarrow> bool" where
  "keeps_owners s s' \<longleftrightarrow> (\<forall>a r. owner s a = Some r \<longrightarrow> (\<exists>r'. owner s' a = Some r' \<and> same_tool r r'))"

lemma same_tool_refl [simp]: "same_tool r r"
  by (simp add: same_tool_def)

lemma same_tool_alias [simp]: "same_tool r (r\<lparr>ar_alias := c\<rparr>)"
  by (simp add: same_tool_def)

lemma keeps_owners_refl [simp]: "keeps_owners s s"
  by (simp add: keeps_owners_def)

lemma keeps_owners_trans [trans]: "keeps_owners s s1 \<Longrightarrow> keeps_owners s1 s2 \<Longrightarrow> keeps_owners s s2"
  unfolding keeps_owners_def same_tool_def by metis

lemma keeps_owners_register:
  assumes "consistent P s" "\<not> name_taken s c" "int (length c) \<le> rg_max_length s"
  shows "keeps_owners s (register_alias r c s)"
proof -
  have c: "alias_of s c = None" using assms(2) by (auto simp: name_taken_alias)
  show ?thesis
    unfolding keeps_owners_def owner_chain [OF assms(1)] owner_chain [OF consistent_register [OF assms]]
    using c by auto
qed

lemma keeps_owners_allocate:
  "consistent P s \<Longrightarrow> allocate r p s = (x, s') \<Longrightarrow> keeps_owners s s'"
  by (cases x) (auto dest: allocate_Inl allocate_Inr intro: keeps_owners_register)

section \<open>Moving one alias\<close>

definition move_one :: "string \<Rightarrow> alias_record \<Rightarrow> string \<Rightarrow> registry \<Rightarrow> registry" where
  "move_one a r c s = remember_move a c (register_alias r c (release_alias a r s))"

lemma move_fields [simp]:
  "rg_native (move_one a r c s) = rg_native s" "rg_max_length (move_one a r c s) = rg_max_length s"
  "rg_remapped (move_one a r c s) = dict_set (rg_remapped s) a c" "rg_calls (move_one a r c s) = rg_calls s"
  "rg_by_declaration (move_one a r c s)
     = dict_set (dict_pop (rg_by_declaration s) (ar_declaration_index r, ar_child_index r))
          (ar_declaration_index r, ar_child_index r) c"
  "rg_aliases (move_one a r c s) = dict_set (dict_pop (rg_aliases s) a) c (r\<lparr>ar_alias := c\<rparr>)"
  by (simp_all add: move_one_def remember_move_def register_alias_def release_alias_def)

lemma alias_of_move [simp]:
  "alias_of (move_one a r c s) b
     = (if b = c then Some (r\<lparr>ar_alias := c\<rparr>) else if b = a then None else alias_of s b)"
  by (simp add: alias_of_def dict_simps)

lemma free_after_release:
  "\<not> name_taken (release_alias a r s) c \<Longrightarrow> a \<in> set (rg_native s) \<Longrightarrow>
     c \<notin> set (rg_native s) \<and> c \<noteq> a \<and> alias_of s c = None"
  by (auto simp: name_taken_alias split: if_splits) (auto simp: release_alias_def)

lemma consistent_move:
  assumes "consistent (insert a P) s" "alias_of s a = Some r" "a \<in> set (rg_native s)"
    and c: "\<not> name_taken (release_alias a r s) c" "int (length c) \<le> rg_max_length s"
  shows "consistent P (move_one a r c s)"
proof -
  note new = free_after_release [OF c(1) assms(3)]
  have s: "distinct (map fst (rg_aliases s))" "moves_ordered (rg_remapped s)"
    "fst ` set (rg_remapped s) \<subseteq> set (rg_native s)" "a \<notin> fst ` set (rg_remapped s)"
    using assms(1,2) by (auto simp: consistent_def)
  have moves: "rg_remapped (move_one a r c s) = rg_remapped s @ [(a, c)]"
    using s(4) by (simp add: dict_set_new)
  have ordered: "moves_ordered (rg_remapped s @ [(a, c)])"
    using s new by (auto simp: moves_ordered_snoc)
  have keys: "distinct (map fst (rg_aliases (move_one a r c s)))"
    using s(1) by (simp add: distinct_dict_set distinct_dict_pop)
  have decls: "\<exists>r'. alias_of (move_one a r c s) b = Some r' \<and> ar_declaration_index r' = d \<and> ar_child_index r' = i"
    if "dict_get (rg_by_declaration (move_one a r c s)) (d, i) = Some b" for d i b
    using that assms(1,2) new unfolding consistent_def by (fastforce simp: dict_simps split: if_splits)
  show ?thesis
    unfolding consistent_def
  proof (intro conjI allI impI)
    fix b r'
    assume b: "alias_of (move_one a r c s) b = Some r'"
    show "ar_alias r' = b" "int (length b) \<le> rg_max_length (move_one a r c s)"
      using b assms(1) c(2) unfolding consistent_def by (auto split: if_splits)
    show "b \<in> P" if "b \<in> set (rg_native (move_one a r c s))"
      using b that assms(1) new unfolding consistent_def by (auto split: if_splits)
  next
    fix b
    assume "alias_of (move_one a r c s) b \<noteq> None"
    then show "b \<notin> fst ` set (rg_remapped (move_one a r c s))"
      using assms(1) new s(3) unfolding moves consistent_def by (auto split: if_splits)
  next
    show "\<forall>b \<in> dict_keys (rg_remapped (move_one a r c s)).
        alias_of (move_one a r c s) (chain_end (rg_remapped (move_one a r c s)) b) \<noteq> None"
    proof
      fix b
      assume "b \<in> dict_keys (rg_remapped (move_one a r c s))"
      then have "b = a \<or> b \<in> dict_keys (rg_remapped s)" by (auto simp: dict_simps)
      then have "alias_of s (chain_end (rg_remapped s) b) \<noteq> None"
        using assms(1,2) chain_end_other [OF s(4)] unfolding consistent_def by auto
      then show "alias_of (move_one a r c s) (chain_end (rg_remapped (move_one a r c s)) b) \<noteq> None"
        unfolding moves by (auto simp: chain_end_snoc)
    qed
  qed (use keys ordered decls moves s(3) assms(3) in auto)
qed

lemma keeps_owners_move:
  assumes "consistent (insert a P) s" "alias_of s a = Some r" "a \<in> set (rg_native s)"
    and c: "\<not> name_taken (release_alias a r s) c" "int (length c) \<le> rg_max_length s"
  shows "keeps_owners s (move_one a r c s)"
proof -
  note new = free_after_release [OF c(1) assms(3)]
  have "a \<notin> fst ` set (rg_remapped s)" using assms(1,2) by (auto simp: consistent_def)
  then have moves: "rg_remapped (move_one a r c s) = rg_remapped s @ [(a, c)]"
    by (simp add: dict_set_new)
  show ?thesis
    unfolding keeps_owners_def owner_chain [OF assms(1)] owner_chain [OF consistent_move [OF assms]] moves
    using new assms(2) by (auto simp: chain_end_snoc)
qed

lemma keeps_calls_allocate: "allocate r p s = (x, s') \<Longrightarrow> rg_calls s' = rg_calls s"
  by (cases x) (auto dest: allocate_Inl allocate_Inr)

lemma native_allocate: "allocate r p s = (x, s') \<Longrightarrow> rg_native s' = rg_native s"
  by (cases x) (auto dest: allocate_Inl allocate_Inr)

lemma move_aliases_step:
  assumes "move_aliases req ((a, r) # rest) moved s = (Inr m, s')" "a \<in> set req"
  obtains c where "\<not> name_taken (release_alias a r s) c" "int (length c) \<le> rg_max_length s"
    "move_aliases req rest (dict_set moved a c) (move_one a r c s) = (Inr m, s')"
proof -
  from assms(2) have "bind (change (release_alias a r)) (\<lambda>_.
      bind (allocate r (family_prefix (ar_family r))) (\<lambda>c.
      bind (change (remember_move a c)) (\<lambda>_. move_aliases req rest (dict_set moved a c)))) s = (Inr m, s')"
    using assms(1) by simp
  then obtain c s1 where c: "allocate r (family_prefix (ar_family r)) (release_alias a r s) = (Inr c, s1)"
      "move_aliases req rest (dict_set moved a c) (remember_move a c s1) = (Inr m, s')"
    by (elim bind_changeE bindE)
  note new = allocate_Inr [OF c(1)]
  have "int (length c) \<le> rg_max_length s" using new(3) by (simp add: release_alias_def)
  with new(2) c(2) show ?thesis using that [of c] by (simp add: new(1) move_one_def)
qed

text \<open>
  The loop over the snapshot: every entry still to come is registered as it was, and only requested
  entries still to come may be names already reserved.
\<close>

lemma move_aliases_keeps:
  assumes "move_aliases req rest moved s = (Inr m, s')"
    "consistent (set req \<inter> set (map fst rest)) s"
    "distinct (map fst rest)" "\<forall>(a, r) \<in> set rest. alias_of s a = Some r" "set req \<subseteq> set (rg_native s)"
  shows "registry_wf s' \<and> keeps_owners s s' \<and> rg_calls s' = rg_calls s \<and> set (rg_native s') = set (rg_native s)"
  using assms
proof (induction rest arbitrary: s moved)
  case Nil
  then show ?case by (auto simp: ret_def)
next
  case (Cons x rest)
  obtain a r where x: "x = (a, r)" by fastforce
  show ?case
  proof (cases "a \<in> set req")
    case False
    have "set req \<inter> set (map fst (x # rest)) = set req \<inter> set (map fst rest)" using False by (auto simp: x)
    with Cons.prems False show ?thesis by (intro Cons.IH [of moved]) (simp_all add: x)
  next
    case True
    from Cons.prems(1) True obtain c where c: "\<not> name_taken (release_alias a r s) c"
        "int (length c) \<le> rg_max_length s"
        "move_aliases req rest (dict_set moved a c) (move_one a r c s) = (Inr m, s')"
      unfolding x by (rule move_aliases_step)
    have a: "alias_of s a = Some r" "a \<in> set (rg_native s)" using Cons.prems(4,5) True by (auto simp: x)
    have "set req \<inter> set (map fst (x # rest)) = insert a (set req \<inter> set (map fst rest))"
      using True by (auto simp: x)
    then have pre: "consistent (insert a (set req \<inter> set (map fst rest))) s" using Cons.prems(2) by simp
    note new = free_after_release [OF c(1) a(2)]
    have "\<forall>(b, q) \<in> set rest. alias_of (move_one a r c s) b = Some q"
    proof clarify
      fix b q assume b: "(b, q) \<in> set rest"
      with Cons.prems(4) have "alias_of s b = Some q" by (auto simp: x)
      moreover have "b \<noteq> a" using Cons.prems(3) b by (force simp: x)
      ultimately show "alias_of (move_one a r c s) b = Some q" using new by auto
    qed
    then have "registry_wf s' \<and> keeps_owners (move_one a r c s) s' \<and> rg_calls s' = rg_calls (move_one a r c s)
        \<and> set (rg_native s') = set (rg_native (move_one a r c s))"
      using Cons.prems(3,5) consistent_move [OF pre a c(1,2)]
      by (intro Cons.IH [OF c(3)]) (simp_all add: x)
    with keeps_owners_move [OF pre a c(1,2)] show ?thesis by (auto intro: keeps_owners_trans)
  qed
qed

lemma owner_native [simp]: "owner (s\<lparr>rg_native := N\<rparr>) a = owner s a"
  by (simp add: owner_def record_for_alias_def remapped_alias_def cong: option.case_cong)

lemma reserve_keeps:
  assumes "reserve_native_names names s = (Inr m, s')" "registry_wf s"
  shows "registry_wf s' \<and> keeps_owners s s' \<and> rg_calls s' = rg_calls s
    \<and> set (rg_native s') = set (rg_native s) \<union> set (requested_names names)"
proof -
  let ?req = "requested_names names" and ?s = "s\<lparr>rg_native := rg_native s @ requested_names names\<rparr>"
  have run: "move_aliases ?req (rg_aliases s) [] ?s = (Inr m, s')"
    using assms(1) by (simp add: reserve_native_names_def Let_def)
  have keys: "distinct (map fst (rg_aliases s))" using assms(2) by (simp add: consistent_def)
  have mem: "a \<in> set (map fst (rg_aliases s))" if "alias_of s a = Some r" for a r
    using that by (force simp: alias_of_def dest: map_of_SomeD)
  have "alias_of ?s a = alias_of s a" for a by (simp add: alias_of_def)
  then have "consistent (set ?req \<inter> set (map fst (rg_aliases s))) ?s"
    using assms(2) mem unfolding consistent_def by auto
  moreover have "\<forall>(a, r) \<in> set (rg_aliases s). alias_of ?s a = Some r"
    using keys by (auto simp: alias_of_def)
  ultimately have "registry_wf s' \<and> keeps_owners ?s s' \<and> rg_calls s' = rg_calls ?s
      \<and> set (rg_native s') = set (rg_native ?s)"
    using keys by (intro move_aliases_keeps [OF run]) auto
  then show ?thesis by (simp add: keeps_owners_def)
qed

section \<open>All operations of a request\<close>

lemma outcome_None: "outcome r = (None, s') \<longleftrightarrow> (\<exists>x. r = (Inr x, s'))"
  by (auto simp: outcome_def split: prod.splits sum.splits)

lemma outcome_Some: "outcome r = (Some e, s') \<longleftrightarrow> r = (Inl e, s')"
  by (auto simp: outcome_def split: prod.splits sum.splits)

lemmas allocators = allocate_namespace_def allocate_function_def allocate_custom_def
  allocate_tool_search_def allocate_hosted_def

text \<open>An operation is an allocation, a reservation, or touches only calls and messages.\<close>

lemma op_cases:
  assumes "apply_op x s = (e, s')"
  obtains (allocation) r p y where "\<not> is_reserve x" "allocate r p s = (y, s')"
    | (reservation) names y where "x = Reserve names" "e = None" "reserve_native_names names s = (Inr y, s')"
    | (refused_reservation) "is_reserve x" "e \<noteq> None"
    | (other) C M where "\<not> is_reserve x" "s' = s\<lparr>rg_calls := C, rg_messages := M\<rparr>"
        "x \<noteq> New_Attempt \<Longrightarrow> (\<forall>i r. dict_get (rg_calls s) i = Some r \<longrightarrow> dict_get C i = Some r)"
proof -
  show ?thesis
  proof (cases x)
    case (Reserve names)
    then show ?thesis using assms reservation refused_reservation
      by (cases "reserve_native_names names s") (auto simp: outcome_def is_reserve_def split: sum.splits)
  next
    case (Bind_Call i a)
    then have "\<exists>C. s' = s\<lparr>rg_calls := C, rg_messages := rg_messages s\<rparr> \<and>
        (\<forall>j r. dict_get (rg_calls s) j = Some r \<longrightarrow> dict_get C j = Some r)"
      using assms unfolding Bind_Call apply_op.simps outcome_def bind_call_def
      by (cases s) (auto simp: dict_simps split: option.splits if_splits)
    then obtain C where "s' = s\<lparr>rg_calls := C, rg_messages := rg_messages s\<rparr>"
      "\<forall>j r. dict_get (rg_calls s) j = Some r \<longrightarrow> dict_get C j = Some r" by blast
    then show ?thesis using Bind_Call by (intro other [of "rg_messages s" C]) (auto simp: is_reserve_def)
  next
    case (Bind_Agent_Message v i)
    then have "\<exists>M. s' = s\<lparr>rg_calls := rg_calls s, rg_messages := M\<rparr>"
      using assms unfolding Bind_Agent_Message apply_op.simps outcome_def bind_agent_message_def
      by (cases s) (auto split: option.splits if_splits)
    then obtain M where "s' = s\<lparr>rg_calls := rg_calls s, rg_messages := M\<rparr>" by blast
    then show ?thesis using Bind_Agent_Message
      by (intro other [of M "rg_calls s"]) (auto simp: is_reserve_def)
  next
    case New_Attempt
    have "s' = s\<lparr>rg_calls := [], rg_messages := rg_messages s\<rparr>"
      using assms unfolding New_Attempt by (auto simp: new_attempt_def)
    then show ?thesis using New_Attempt
      by (intro other [of "rg_messages s" "[]"]) (auto simp: is_reserve_def)
  qed (use assms allocation in \<open>auto simp: outcome_def allocators is_reserve_def split: prod.splits sum.splits\<close>)
qed

lemma owner_other [simp]: "owner (s\<lparr>rg_calls := C, rg_messages := M\<rparr>) a = owner s a"
  by (simp add: owner_def record_for_alias_def remapped_alias_def cong: option.case_cong)

lemma op_keeps:
  assumes "apply_op x s = (e, s')" "e = None \<or> \<not> is_reserve x" "registry_wf s"
  shows "registry_wf s' \<and> keeps_owners s s'"
  using assms(1)
proof (cases rule: op_cases)
  case (allocation r p y)
  then show ?thesis using assms(3) by (blast intro: consistent_allocate keeps_owners_allocate)
next
  case (reservation names y)
  then show ?thesis using assms(3) reserve_keeps by blast
next
  case refused_reservation
  then show ?thesis using assms(2) by simp
next
  case (other C M)
  have "alias_of s' a = alias_of s a" for a by (simp add: other(2) alias_of_def)
  with other(2) show ?thesis using assms(3) by (auto simp: consistent_def keeps_owners_def)
qed

lemma run_keeps:
  "run_ops xs s = Some s' \<Longrightarrow> registry_wf s \<Longrightarrow> registry_wf s' \<and> keeps_owners s s'"
proof (induction xs arbitrary: s)
  case (Cons x xs)
  obtain e s1 where x: "apply_op x s = (e, s1)" by fastforce
  with Cons.prems have ok: "e = None \<or> \<not> is_reserve x" and rest: "run_ops xs s1 = Some s'"
    by (auto split: option.splits if_splits)
  from op_keeps [OF x ok Cons.prems(2)] Cons.IH [OF rest] show ?case
    by (auto intro: keeps_owners_trans)
qed simp

lemma new_registry_wf [simp]: "registry_wf (new_registry names m n)"
  by (simp add: new_registry_def consistent_def alias_of_def dict_keys_def)

lemma op_keeps_calls:
  assumes "apply_op x s = (e, s')" "e = None \<or> \<not> is_reserve x" "registry_wf s" "x \<noteq> New_Attempt"
    "dict_get (rg_calls s) i = Some r"
  shows "dict_get (rg_calls s') i = Some r"
  using assms(1)
proof (cases rule: op_cases)
  case (reservation names y)
  then show ?thesis using assms(3,5) reserve_keeps by fastforce
qed (use assms in \<open>auto dest: keeps_calls_allocate\<close>)

lemma run_keeps_calls:
  "run_ops xs s = Some s' \<Longrightarrow> registry_wf s \<Longrightarrow> New_Attempt \<notin> set xs \<Longrightarrow>
     dict_get (rg_calls s) i = Some r \<Longrightarrow> dict_get (rg_calls s') i = Some r"
proof (induction xs arbitrary: s)
  case (Cons x xs)
  obtain e s1 where x: "apply_op x s = (e, s1)" by fastforce
  with Cons.prems(1) have ok: "e = None \<or> \<not> is_reserve x" and rest: "run_ops xs s1 = Some s'"
    by (auto split: option.splits if_splits)
  have "x \<noteq> New_Attempt" "New_Attempt \<notin> set xs" using Cons.prems(3) by auto
  with op_keeps [OF x ok Cons.prems(2)] op_keeps_calls [OF x ok Cons.prems(2) _ Cons.prems(4)]
  show ?case by (intro Cons.IH [OF rest]) simp_all
qed simp

lemma run_ops_append:
  "run_ops (xs @ ys) s = Some s2 \<longleftrightarrow> (\<exists>s1. run_ops xs s = Some s1 \<and> run_ops ys s1 = Some s2)"
  by (induction xs arbitrary: s) (auto split: prod.splits option.splits)

section \<open>Properties\<close>

text \<open>C9: no alias is lost.  Once a name leads to a tool (it is a registered alias, or was moved to one), it
  leads to the same tool after anything else the request does with the registry, however often later
  reservations move it: the same family, declaration, child, namespace, names and version.
\<close>

theorem aliases_never_lost:
  assumes "run_ops xs (new_registry names m n) = Some s" "run_ops ys s = Some s'"
    and "owner s a = Some r"
  shows "\<exists>r'. owner s' a = Some r' \<and> same_tool r r' \<and> record_for_alias s' (JStr (ar_alias r')) = Some r'
    \<and> \<not> is_native_name s' (JStr (ar_alias r'))"
proof -
  have "registry_wf s" using run_keeps [OF assms(1)] by simp
  from run_keeps [OF assms(2) this] have wf: "registry_wf s'" and keep: "keeps_owners s s'" by auto
  from keep assms(3) obtain r' where r': "owner s' a = Some r'" "same_tool r r'"
    by (auto simp: keeps_owners_def)
  from r'(1) have "alias_of s' (chain_end (rg_remapped s') a) = Some r'" by (simp add: owner_chain [OF wf])
  moreover from this wf have "ar_alias r' = chain_end (rg_remapped s') a" "ar_alias r' \<notin> set (rg_native s')"
    by (auto simp: consistent_def)
  ultimately show ?thesis
    using r' by (auto simp: record_for_alias_def is_native_name_def alias_of_def)
qed

text \<open>C25: the registry's own invariant, whatever a request does: an alias is registered under its own name, is
  never a native name and keeps to the length limit; a declaration's alias is registered for that
  declaration; a moved name is a native name now, is no alias any more, and where it moved is a
  registered alias.
\<close>

theorem registry_invariant:
  assumes "run_ops xs (new_registry names m n) = Some s"
  shows "(\<forall>a r. record_for_alias s (JStr a) = Some r \<longrightarrow>
      ar_alias r = a \<and> \<not> is_native_name s (JStr a) \<and> int (length a) \<le> rg_max_length s \<and> remapped_alias s (JStr a) = None)
    \<and> (\<forall>d i a. alias_for s d i = Some a \<longrightarrow>
      (\<exists>r. record_for_alias s (JStr a) = Some r \<and> ar_declaration_index r = d \<and> ar_child_index r = i))
    \<and> (\<forall>a b. remapped_alias s (JStr a) = Some b \<longrightarrow> is_native_name s (JStr a) \<and> record_for_alias s (JStr b) \<noteq> None)"
proof -
  have wf: "registry_wf s" using run_keeps [OF assms] by simp
  then have ordered: "moves_ordered (rg_remapped s)" by (simp add: consistent_def)
  have still: "remapped_alias s (JStr a) = None" if "a \<notin> fst ` set (rg_remapped s)" for a
    using that by (simp add: remapped_alias_chain [OF ordered] chain_end_other)
  have "\<forall>a r. record_for_alias s (JStr a) = Some r \<longrightarrow>
      ar_alias r = a \<and> \<not> is_native_name s (JStr a) \<and> int (length a) \<le> rg_max_length s \<and> remapped_alias s (JStr a) = None"
    using wf still by (auto simp: consistent_def record_for_alias_def is_native_name_def alias_of_def)
  moreover have "\<forall>d i a. alias_for s d i = Some a \<longrightarrow>
      (\<exists>r. record_for_alias s (JStr a) = Some r \<and> ar_declaration_index r = d \<and> ar_child_index r = i)"
    using wf by (auto simp: consistent_def record_for_alias_def alias_for_def alias_of_def)
  moreover have "is_native_name s (JStr a) \<and> record_for_alias s (JStr b) \<noteq> None"
    if b: "remapped_alias s (JStr a) = Some b" for a b
  proof -
    from b have b: "b = chain_end (rg_remapped s) a" "b \<noteq> a"
      by (auto simp: remapped_alias_chain [OF ordered] Let_def split: if_splits)
    then have "a \<in> fst ` set (rg_remapped s)" using chain_end_other by metis
    then show ?thesis
      using wf b(1) by (auto simp: consistent_def is_native_name_def record_for_alias_def dict_keys_def
          simp flip: alias_of_def)
  qed
  ultimately show ?thesis by blast
qed

text \<open>an allocation under limits of at least 32 characters and at most 999 attempts (the defaults are 128
  and 128) never meets the length limit: it returns a name of at most 32 characters that was free, now
  registered for the declaration, or every candidate is taken, and then at least as many names are
  in use as attempts are allowed; the registry is then unchanged.
\<close>

theorem allocation_result:
  assumes "32 \<le> rg_max_length s" "rg_max_attempts s \<le> 999"
  shows "case allocate r (family_prefix (ar_family r)) s of
      (Inr c, s') \<Rightarrow> length c \<le> 32 \<and> \<not> name_taken s c \<and> record_for_alias s' (JStr c) = Some (r\<lparr>ar_alias := c\<rparr>)
         \<and> alias_for s' (ar_declaration_index r) (ar_child_index r) = Some c
    | (Inl e, s') \<Rightarrow> s' = s \<and> e = alias_limit ''alias_collision_exhausted''
         \<and> nat (rg_max_attempts s) \<le> length (rg_native s) + length (rg_aliases s)"
proof -
  let ?p = "family_prefix (ar_family r)"
  have short: "length (candidate ?p (alias_token r) i) \<le> 32" if "i \<in> set (ordinals s)" for i
    using that assms(2) by (intro candidate_fits family_prefix_short) (simp add: ordinals_def, linarith)
  show ?thesis
  proof (cases "probe s ?p (alias_token r) (ordinals s)")
    case (Inl e)
    have "\<forall>i \<in> set (ordinals s). int (length (candidate ?p (alias_token r) i)) \<le> rg_max_length s"
      using short assms(1) by fastforce
    from probe_exhausted [OF this Inl] taken_count [of s ?p "alias_token r"] Inl show ?thesis
      by (auto simp: allocate_def)
  next
    case (Inr c)
    from probe_Inr [OF this] short Inr show ?thesis
      by (auto simp: allocate_def record_for_alias_def alias_for_def dict_simps)
  qed
qed

text \<open>
  The alias of a tool depends on the tool, not on its place in the request: declarations of the same
  family, namespace, name and version get the same answer in two registries with the same limits that
  agree on which of the tool's candidates are taken, whatever else they hold.
\<close>

theorem alias_names_the_tool:
  assumes "ar_family r = ar_family r'" "ar_namespace r = ar_namespace r'"
    "ar_original_name r = ar_original_name r'" "ar_version r = ar_version r'"
    and "rg_max_length s = rg_max_length s'" "rg_max_attempts s = rg_max_attempts s'"
    and "\<forall>i. name_taken s (candidate p (alias_token r) i) = name_taken s' (candidate p (alias_token r) i)"
  shows "fst (allocate r p s) = fst (allocate r' p s')"
proof -
  have "alias_token r' = alias_token r" using assms(1-4) by (intro alias_token_identity) simp_all
  moreover have "ordinals s' = ordinals s" using assms(6) by (simp add: ordinals_def)
  moreover have "probe s p (alias_token r) (ordinals s) = probe s' p (alias_token r) (ordinals s)"
    using assms(5,7) by (intro probe_same) simp_all
  ultimately show ?thesis by (auto simp: allocate_def split: sum.splits)
qed

text \<open>within an attempt a call identity belongs to one tool for good: once a call is bound, its record is
  what every later lookup returns, binding the identity again is refused, and only a new attempt clears it.
\<close>

theorem call_bound_once:
  assumes "run_ops xs (new_registry names m n) = Some s" "bind_call (JStr i) a s = (Inr u, s1)"
    and "run_ops ys s1 = Some s'" "New_Attempt \<notin> set ys"
  shows "\<exists>r. record_for_alias s (JStr a) = Some r \<and> record_for_call s' (JStr i) = Some r
    \<and> (\<forall>b. \<exists>e. bind_call (JStr i) b s' = (Inl e, s'))
    \<and> record_for_call (new_attempt s') (JStr i) = None"
proof -
  have op: "apply_op (Bind_Call (JStr i) a) s = (None, s1)" using assms(2) by (simp add: outcome_def)
  have wf: "registry_wf s" using run_keeps [OF assms(1)] by simp
  from op_keeps [OF op _ this] have wf1: "registry_wf s1" by simp
  from assms(2) obtain r where r: "record_for_alias s (JStr a) = Some r" "dict_get (rg_calls s1) i = Some r" "i \<noteq> []"
    by (auto simp: bind_call_def non_empty_str_def dict_simps split: option.splits if_splits)
  from run_keeps_calls [OF assms(3) wf1 assms(4) r(2)] have call: "dict_get (rg_calls s') i = Some r" .
  then have "\<exists>e. bind_call (JStr i) b s' = (Inl e, s')" for b
    using r(3) by (auto simp: bind_call_def non_empty_str_def split: option.splits)
  with r(1) call show ?thesis by (auto simp: record_for_call_def new_attempt_def)
qed

section \<open>Witnesses\<close>

text \<open>A function tool whose first alias is reserved as a native name afterwards.\<close>

definition sample_record :: alias_record where
  "sample_record = \<lparr>ar_alias = [], ar_family = PLAIN_FUNCTION, ar_declaration_index = 0, ar_child_index = None,
     ar_namespace = None, ar_child_name = None, ar_original_name = Some ''lookup'', ar_version = None\<rparr>"

definition sample_alias :: "nat \<Rightarrow> string" where
  "sample_alias i = candidate FUNCTION_PREFIX (alias_token sample_record) i"

definition sample_start :: registry where
  "sample_start = new_registry [] 128 128"

definition sample_allocated :: registry where
  "sample_allocated = register_alias sample_record (sample_alias 1) sample_start"

lemma length_sample [simp]: "i < 10 \<Longrightarrow> length (sample_alias i) = 26"
  by (simp add: sample_alias_def candidate_def prefix_defs nat_text.simps)

lemma ordinals_sample: "rg_max_attempts s = 128 \<Longrightarrow> ordinals s = 1 # 2 # [3..<129]"
  by (simp add: ordinals_def upt_conv_Cons)

lemma probe_sample:
  assumes "rg_max_attempts s = 128" "rg_max_length s = 128"
  shows "probe s FUNCTION_PREFIX (alias_token sample_record) (ordinals s)
    = (if \<not> name_taken s (sample_alias 1) then Inr (sample_alias 1)
       else if \<not> name_taken s (sample_alias 2) then Inr (sample_alias 2)
       else probe s FUNCTION_PREFIX (alias_token sample_record) [3..<129])"
  using length_sample [of 1] length_sample [of 2] assms
  by (simp add: ordinals_sample Let_def flip: sample_alias_def)

lemma start_run:
  "run_ops [Allocate_Function 0 ''lookup''] (new_registry [] 128 128) = Some sample_allocated"
proof -
  have "\<not> name_taken (new_registry [] 128 128) (sample_alias 1)"
    by (simp add: name_taken_def dict_has_def new_registry_def string_names_def map_filter_simps)
  then have "allocate_function 0 ''lookup'' (new_registry [] 128 128) = (Inr (sample_alias 1), sample_allocated)"
    using probe_sample [of "new_registry [] 128 128"]
    by (simp add: allocate_function_def allocate_def sample_allocated_def sample_start_def
        new_registry_def flip: sample_record_def)
  then show ?thesis by (simp add: outcome_def)
qed

definition sample_moved :: registry where
  "sample_moved = move_one (sample_alias 1) (sample_record\<lparr>ar_alias := sample_alias 1\<rparr>) (sample_alias 2)
     (sample_allocated\<lparr>rg_native := [sample_alias 1]\<rparr>)"

lemma sample_distinct [simp]: "sample_alias 2 \<noteq> sample_alias (Suc 0)" "sample_alias (Suc 0) \<noteq> sample_alias 2"
  by (simp_all add: sample_alias_def)

lemma moved_run:
  "run_ops [Reserve [JStr (sample_alias 1)]] sample_allocated = Some sample_moved"
proof -
  let ?r = "sample_record\<lparr>ar_alias := sample_alias 1\<rparr>"
  let ?s = "release_alias (sample_alias 1) ?r (sample_allocated\<lparr>rg_native := [sample_alias 1]\<rparr>)"
  have "length (sample_alias 1) \<noteq> 0" by simp
  then have nonempty: "sample_alias 1 \<noteq> []" by (simp only: length_0_conv) simp
  have token: "alias_token ?r = alias_token sample_record" by (rule alias_token_identity) simp_all
  have limits: "rg_max_attempts ?s = 128" "rg_max_length ?s = 128"
    by (simp_all add: release_alias_def sample_allocated_def register_alias_def sample_start_def new_registry_def)
  have taken: "name_taken ?s (sample_alias 1)" "\<not> name_taken ?s (sample_alias 2)"
    by (simp_all add: name_taken_alias release_alias_def sample_allocated_def register_alias_def sample_start_def
        new_registry_def alias_of_def dict_simps)
  have "allocate ?r FUNCTION_PREFIX ?s = (Inr (sample_alias 2), register_alias ?r (sample_alias 2) ?s)"
    using probe_sample [OF limits] taken by (simp add: allocate_def token [simplified])
  moreover have "family_prefix (ar_family ?r) = FUNCTION_PREFIX"
    by (simp add: sample_record_def family_prefix_def NAMESPACE_def CUSTOM_FREEFORM_def TOOL_SEARCH_def
        PLAIN_FUNCTION_def SELECTED_PROVIDER_HOSTED_def)
  moreover have "rg_aliases sample_allocated = [(sample_alias 1, ?r)]" "rg_native sample_allocated = []"
    by (simp_all add: sample_allocated_def register_alias_def sample_start_def new_registry_def dict_set_def
        string_names_def map_filter_simps)
  ultimately have "reserve_native_names [JStr (sample_alias 1)] sample_allocated
      = (Inr [(sample_alias 1, sample_alias 2)], sample_moved)"
    using nonempty
    by (simp add: reserve_native_names_def requested_names_def string_names_def map_filter_simps Let_def
        bind_change bind_step [where m = "allocate _ _"] ret_def sample_moved_def move_one_def dict_set_def)
  then show ?thesis by (simp add: outcome_def)
qed

lemma aliases_never_lost_witness:
  "\<exists>r'. owner sample_moved (sample_alias 1) = Some r' \<and>
     same_tool (sample_record\<lparr>ar_alias := sample_alias 1\<rparr>) r' \<and>
     record_for_alias sample_moved (JStr (ar_alias r')) = Some r' \<and>
     \<not> is_native_name sample_moved (JStr (ar_alias r'))"
proof -
  have "owner sample_allocated (sample_alias 1) = Some (sample_record\<lparr>ar_alias := sample_alias 1\<rparr>)"
    by (simp add: owner_def record_for_alias_def sample_allocated_def dict_simps)
  from aliases_never_lost [OF start_run moved_run this] show ?thesis .
qed

lemma registry_invariant_witness:
  "remapped_alias sample_moved (JStr (sample_alias 1)) = Some (sample_alias 2)
    \<and> is_native_name sample_moved (JStr (sample_alias 1))
    \<and> (\<exists>r. record_for_alias sample_moved (JStr (sample_alias 2)) = Some r \<and> ar_alias r = sample_alias 2
         \<and> \<not> is_native_name sample_moved (JStr (sample_alias 2)) \<and> int (length (sample_alias 2)) \<le> rg_max_length sample_moved)"
proof -
  have "run_ops ([Allocate_Function 0 ''lookup''] @ [Reserve [JStr (sample_alias 1)]]) (new_registry [] 128 128)
      = Some sample_moved"
    unfolding run_ops_append using start_run moved_run by blast
  note inv = registry_invariant [OF this]
  have moved: "remapped_alias sample_moved (JStr (sample_alias 1)) = Some (sample_alias 2)"
    by (simp add: remapped_alias_def sample_moved_def sample_allocated_def register_alias_def sample_start_def
        new_registry_def dict_simps chase.simps)
  with inv obtain r where "is_native_name sample_moved (JStr (sample_alias 1))"
    "record_for_alias sample_moved (JStr (sample_alias 2)) = Some r" by blast
  with inv moved show ?thesis by blast
qed

lemma allocation_result_witness:
  "length (sample_alias 1) \<le> 32 \<and> \<not> name_taken sample_start (sample_alias 1)"
proof -
  have "family_prefix (ar_family sample_record) = FUNCTION_PREFIX"
    by (simp add: sample_record_def family_prefix_def NAMESPACE_def CUSTOM_FREEFORM_def TOOL_SEARCH_def
        PLAIN_FUNCTION_def SELECTED_PROVIDER_HOSTED_def)
  moreover have start: "rg_max_attempts sample_start = 128" "rg_max_length sample_start = 128"
    "\<not> name_taken sample_start (sample_alias 1)"
    by (simp_all add: sample_start_def new_registry_def name_taken_def dict_has_def string_names_def map_filter_simps)
  ultimately have "allocate sample_record (family_prefix (ar_family sample_record)) sample_start
      = (Inr (sample_alias 1), sample_allocated)"
    using probe_sample [OF start(1,2)] by (simp add: allocate_def sample_allocated_def)
  then show ?thesis
    using allocation_result [of sample_start sample_record] start by (simp del: length_sample)
qed

lemma alias_names_the_tool_witness:
  "fst (allocate sample_record FUNCTION_PREFIX sample_start)
     = fst (allocate (sample_record\<lparr>ar_declaration_index := 7\<rparr>) FUNCTION_PREFIX
         (sample_start\<lparr>rg_native := [''exec'']\<rparr>))"
proof (rule alias_names_the_tool)
  have "hd (candidate FUNCTION_PREFIX t i) \<noteq> hd ''exec''" for t i
    by (simp add: candidate_def prefix_defs)
  then have "candidate FUNCTION_PREFIX t i \<noteq> ''exec''" for t i by metis
  then show "\<forall>i. name_taken sample_start (candidate FUNCTION_PREFIX (alias_token sample_record) i)
      = name_taken (sample_start\<lparr>rg_native := [''exec'']\<rparr>) (candidate FUNCTION_PREFIX (alias_token sample_record) i)"
    by (simp add: sample_start_def new_registry_def name_taken_def dict_has_def string_names_def map_filter_simps)
qed simp_all

lemma call_bound_once_witness:
  "\<exists>s1 s' r. bind_call (JStr ''c1'') (sample_alias 1) sample_allocated = (Inr (), s1) \<and>
     run_ops [Bind_Call (JStr ''c2'') (sample_alias 1)] s1 = Some s' \<and>
     record_for_alias sample_allocated (JStr (sample_alias 1)) = Some r \<and>
     record_for_call s' (JStr ''c1'') = Some r \<and>
     (\<forall>b. \<exists>e. bind_call (JStr ''c1'') b s' = (Inl e, s')) \<and> record_for_call (new_attempt s') (JStr ''c1'') = None"
proof -
  let ?r = "sample_record\<lparr>ar_alias := sample_alias 1\<rparr>"
  let ?s1 = "sample_allocated\<lparr>rg_calls := [(''c1'', ?r)]\<rparr>"
  let ?s2 = "sample_allocated\<lparr>rg_calls := [(''c1'', ?r), (''c2'', ?r)]\<rparr>"
  have calls: "rg_calls sample_allocated = []"
    by (simp add: sample_allocated_def sample_start_def new_registry_def)
  have rec: "record_for_alias s (JStr (sample_alias 1)) = Some ?r" if "rg_aliases s = rg_aliases sample_allocated" for s
    using that by (simp add: record_for_alias_def sample_allocated_def dict_simps)
  have one: "bind_call (JStr ''c1'') (sample_alias 1) sample_allocated = (Inr (), ?s1)"
    using rec [of sample_allocated] by (simp add: bind_call_def non_empty_str_def calls dict_set_def)
  have two: "run_ops [Bind_Call (JStr ''c2'') (sample_alias 1)] ?s1 = Some ?s2"
    using rec [of ?s1] by (simp add: outcome_def bind_call_def non_empty_str_def dict_set_def)
  from call_bound_once [OF start_run one two] one two show ?thesis by auto
qed

end
