(* ===== verification/Responses_Batch.thy ===== *)
theory Responses_Batch
  imports Responses_Stream
begin

text \<open>
  \<open>response_events_to_chat_stream_chunks\<close> of \<open>src-python/protocol_translation.py\<close>: the translation of a
  whole recorded Responses stream.  Its local variables are the fields of the same name of the converter's
  record (the converter's flags for completion and visible output are not read); pieces of its loop body
  that are, statement for statement, the converter's methods are those methods' definitions, and the
  pieces that differ are defined here.  \<open>name_of\<close> is \<open>function_name_from_response_item\<close>; the
  default and the one the gateway passes (\<open>gateway_stream_semantics.py\<close>) are defined here.
\<close>

section \<open>Items\<close>

definition validated_call_with :: "(obj \<Rightarrow> string option) \<Rightarrow> obj \<Rightarrow> wire_error + output_item" where
  "validated_call_with name_of item =
     rbind (require_supported_fields item
       [''id'', ''type'', ''status'', ''call_id'', ''namespace'', ''name'', ''arguments'']) (\<lambda>_.
     (case (non_empty_str (dict_get item ''call_id''), non_empty_str (map_option JStr (name_of item))) of
        (None, _) \<Rightarrow> Inl UNPAIRED
      | (_, None) \<Rightarrow> Inl UNSUPPORTED_SEMANTICS
      | (Some call_id, Some name) \<Rightarrow>
          rbind (function_arguments item) (\<lambda>arguments. Inr (Function_Item call_id name arguments))))"

definition validated_output_item_with :: "(obj \<Rightarrow> string option) \<Rightarrow> json \<Rightarrow> wire_error + output_item" where
  "validated_output_item_with name_of v =
     (case v of
        JObj given \<Rightarrow>
          rbind (collapse_hosted_output_item given) (\<lambda>item.
            if text_field item ''type'' = Some ''message'' then validated_message item
            else if text_field item ''type'' = Some ''function_call'' then validated_call_with name_of item
            else Inl UNSUPPORTED_SEMANTICS)
      | _ \<Rightarrow> Inl UNSUPPORTED_SEMANTICS)"

definition default_function_name :: "obj \<Rightarrow> string option" where
  "default_function_name item = non_empty_str (dict_get item ''name'')"

text \<open>The naming the gateway passes: a call in one of its namespaces gets the flat name of the Chat tool.\<close>

definition NODE_REPL_NAMESPACE :: string where "NODE_REPL_NAMESPACE = ''mcp__node_repl''"

definition valid_tool_name :: "string \<Rightarrow> bool" where
  "valid_tool_name name =
     (name \<noteq> [] \<and> list_all (\<lambda>c. let n = (of_char c :: nat) in
        97 \<le> n \<and> n \<le> 122 \<or> 65 \<le> n \<and> n \<le> 90 \<or> 48 \<le> n \<and> n \<le> 57 \<or> c = CHR ''_'' \<or> c = CHR ''-'') name)"

definition supports_explicit_namespace_alias :: "string \<Rightarrow> bool" where
  "supports_explicit_namespace_alias namespace \<longleftrightarrow> namespace = ''codex_app'' \<or> prefix ''mcp__'' namespace"

definition codex_apps_namespace_flat_alias :: "string \<Rightarrow> string \<Rightarrow> string option" where
  "codex_apps_namespace_flat_alias namespace name =
     (if prefix ''mcp__codex_apps__'' namespace \<and> suffix ''_'' namespace
         \<and> valid_tool_name namespace \<and> valid_tool_name name
         \<and> valid_tool_name (namespace @ ''__'' @ name)
      then Some (namespace @ ''__'' @ name) else None)"

definition chat_function_name_from_response_item :: "obj \<Rightarrow> string option" where
  "chat_function_name_from_response_item item =
     (case non_empty_str (dict_get item ''name'') of
        None \<Rightarrow> None
      | Some name \<Rightarrow>
          (case text_field item ''namespace'' of
             None \<Rightarrow> Some name
           | Some namespace \<Rightarrow>
               (if namespace = ''multi_agent_v1'' then Some (''multi_agent_v1__'' @ name)
                else if namespace = NODE_REPL_NAMESPACE then Some (NODE_REPL_NAMESPACE @ ''__'' @ name)
                else case codex_apps_namespace_flat_alias namespace name of
                  Some alias \<Rightarrow> Some alias
                | None \<Rightarrow>
                    (if supports_explicit_namespace_alias namespace \<and> valid_tool_name name
                        \<and> valid_tool_name (namespace @ ''__'' @ name)
                     then Some (namespace @ ''__'' @ name)
                     else Some name))))"

text \<open>\<open>_portable_output_reasoning_text\<close>: the texts of the summary and of the content, trimmed, each once.\<close>

definition reasoning_part :: "string \<Rightarrow> json \<Rightarrow> wire_error + string" where
  "reasoning_part kind v =
     (case v of
        JObj part \<Rightarrow>
          rbind (require_supported_fields part [''type'', ''text'']) (\<lambda>_.
            if text_field part ''type'' \<noteq> Some kind then Inl UNSUPPORTED_SEMANTICS
            else (case text_field part ''text'' of None \<Rightarrow> Inl UNSUPPORTED_SEMANTICS | Some t \<Rightarrow> Inr (str_strip t)))
      | _ \<Rightarrow> Inl UNSUPPORTED_SEMANTICS)"

fun collect_reasoning :: "string \<Rightarrow> json list \<Rightarrow> string list \<Rightarrow> wire_error + string list" where
  "collect_reasoning kind [] texts = Inr texts"
| "collect_reasoning kind (v # vs) texts =
     rbind (reasoning_part kind v) (\<lambda>t.
       collect_reasoning kind vs (if t \<noteq> [] \<and> \<not> List.member texts t then texts @ [t] else texts))"

definition portable_output_reasoning_text :: "obj \<Rightarrow> bool \<Rightarrow> wire_error + string option" where
  "portable_output_reasoning_text item drop_encrypted =
     rbind (case get_or_null item ''summary'' of
              JNull \<Rightarrow> Inr [] | JArr vs \<Rightarrow> Inr vs | _ \<Rightarrow> Inl UNSUPPORTED_SEMANTICS) (\<lambda>summary.
     rbind (collect_reasoning ''summary_text'' summary []) (\<lambda>texts.
     rbind (case get_or_null item ''content'' of
              JNull \<Rightarrow> Inr [] | JStr [] \<Rightarrow> Inr [] | JArr vs \<Rightarrow> Inr vs | _ \<Rightarrow> Inl UNSUPPORTED_SEMANTICS) (\<lambda>content.
     rbind (collect_reasoning ''reasoning_text'' content texts) (\<lambda>texts.
     rbind (guard (get_or_null item ''encrypted_content'' \<in> {JNull, JStr []} \<or> drop_encrypted) UNSUPPORTED_SEMANTICS) (\<lambda>_.
       if texts \<noteq> [] then Inr (Some (join_with [CHR 0x0A] texts))
       else if drop_encrypted then Inr None
       else Inl UNSUPPORTED_SEMANTICS)))))"

section \<open>Order of the terminal event\<close>

definition TERMINAL_TYPES :: "string list" where
  "TERMINAL_TYPES = [''response.completed'', ''response.failed'', ''response.incomplete'', ''error'']"

fun validate_terminal_order :: "bool \<Rightarrow> json list \<Rightarrow> wire_error + unit" where
  "validate_terminal_order seen [] = Inr ()"
| "validate_terminal_order seen (v # vs) =
     (case v of
        JStr t \<Rightarrow> validate_terminal_order (seen \<or> t = ''[DONE]'') vs
      | JObj event \<Rightarrow>
          (if seen then rbind (has_post_terminal_semantics event) (\<lambda>b.
             if b then Inl UNSUPPORTED_SEMANTICS else validate_terminal_order True vs)
           else if \<not> hashable (get_or_null event ''type'') then Inl Unhashable
           else validate_terminal_order (event_kind_in event TERMINAL_TYPES) vs)
      | _ \<Rightarrow> validate_terminal_order seen vs)"

definition responses_events_have_completed :: "json list \<Rightarrow> bool" where
  "responses_events_have_completed events =
     list_ex (\<lambda>v. case v of JObj event \<Rightarrow> text_field event ''type'' = Some ''response.completed'' | _ \<Rightarrow> False) events"

section \<open>The loop\<close>

definition batch_item_added :: "(obj \<Rightarrow> string option) \<Rightarrow> obj \<Rightarrow> obj list translating" where
  "batch_item_added name_of event =
     (let v = get_or_null event ''item''
      in if is_reasoning_item v then bind (accept_reasoning_item (item_object v)) (\<lambda>_. reply [])
         else bind (check (validated_output_item_with name_of v)) (\<lambda>i.
           case i of
             Message_Item \<Rightarrow> reply []
           | Function_Item call_id name arguments \<Rightarrow> on_call_added (item_object v) call_id name arguments))"

text \<open>The final text of a summary is sent, but not remembered as sent.\<close>

definition batch_summary_done :: "obj \<Rightarrow> obj list translating" where
  "batch_summary_done event =
     bind require_preserve (\<lambda>_.
       case text_field event ''text'' of
         None \<Rightarrow> check (Inl UNSUPPORTED_SEMANTICS)
       | Some t \<Rightarrow> (\<lambda>s. if t = [] \<or> List.member (rc_texts_emitted s) t then reply [] s
                          else single [(''reasoning_content'', JStr t)] s))"

text \<open>A finished reasoning item is only checked.\<close>

definition batch_item_done :: "(obj \<Rightarrow> string option) \<Rightarrow> obj \<Rightarrow> obj list translating" where
  "batch_item_done name_of event =
     (let v = get_or_null event ''item''
      in if is_reasoning_item v then
           bind (accept_reasoning_item (item_object v)) (\<lambda>_.
           bind (check (portable_output_reasoning_text (item_object v) True)) (\<lambda>_. reply []))
         else bind (check (validated_output_item_with name_of v)) (\<lambda>i.
           case i of
             Message_Item \<Rightarrow> reply []
           | Function_Item call_id name arguments \<Rightarrow> finish_call (item_object v) call_id name arguments))"

definition batch_terminal_item :: "(obj \<Rightarrow> string option) \<Rightarrow> json \<Rightarrow> obj list translating" where
  "batch_terminal_item name_of v =
     (if is_reasoning_item v then
        bind (accept_reasoning_item (item_object v)) (\<lambda>_.
        bind (check (summary_texts (item_object v))) (\<lambda>texts. emit_all_new texts))
      else bind (check (validated_output_item_with name_of v)) (\<lambda>i.
        case i of
          Message_Item \<Rightarrow> reply []
        | Function_Item call_id name arguments \<Rightarrow> finish_call (item_object v) call_id name arguments))"

fun batch_terminal_items :: "(obj \<Rightarrow> string option) \<Rightarrow> json list \<Rightarrow> obj list translating" where
  "batch_terminal_items name_of [] = reply []"
| "batch_terminal_items name_of (v # vs) =
     bind (batch_terminal_item name_of v) (\<lambda>c1. bind (batch_terminal_items name_of vs) (\<lambda>c2. reply (c1 @ c2)))"

text \<open>The terminal response gives neither identity nor time nor usage to the chunks.\<close>

definition batch_completed :: "(obj \<Rightarrow> string option) \<Rightarrow> obj \<Rightarrow> obj list translating" where
  "batch_completed name_of event =
     (case object_field event ''response'' of
        None \<Rightarrow> reply []
      | Some response \<Rightarrow> bind (check (terminal_output response)) (batch_terminal_items name_of))"

definition batch_dispatch :: "(obj \<Rightarrow> string option) \<Rightarrow> obj \<Rightarrow> obj list translating" where
  "batch_dispatch name_of event =
     (case text_field event ''type'' of
        None \<Rightarrow> reply []
      | Some kind \<Rightarrow>
          (if List.member [''response.failed'', ''response.incomplete'', ''error''] kind
           then check (Inl (Unsupported ''upstream_response_failed''))
           else if kind = ''response.created'' then on_created event
           else if kind = ''response.output_text.delta'' then on_text_delta event
           else if kind = ''response.content_part.added'' \<or> kind = ''response.content_part.done'' then on_content_part event
           else if kind = ''response.output_item.added'' then batch_item_added name_of event
           else if kind = ''response.reasoning_summary_text.delta'' then on_summary_delta event
           else if kind = ''response.reasoning_summary_text.done'' then batch_summary_done event
           else if kind = ''response.function_call_arguments.delta'' then on_arguments_delta event
           else if kind = ''response.function_call_arguments.done'' then on_arguments_done event
           else if kind = ''response.output_item.done'' then batch_item_done name_of event
           else if kind = ''response.completed'' then batch_completed name_of event
           else reply []))"

definition batch_event :: "(obj \<Rightarrow> string option) \<Rightarrow> json \<Rightarrow> obj list translating" where
  "batch_event name_of v s =
     (case v of
        JObj event \<Rightarrow>
          bind (check (normalize_raw_reasoning (rc_preserve s) event (rc_raw_texts s))) (\<lambda>(event', texts).
          bind (modify (\<lambda>s. s\<lparr>rc_raw_texts := texts,
                   rc_texts_emitted := add_emitted (map snd texts) (rc_texts_emitted s)\<rparr>)) (\<lambda>_.
            batch_dispatch name_of event')) s
      | _ \<Rightarrow> reply [] s)"

fun batch_events :: "(obj \<Rightarrow> string option) \<Rightarrow> json list \<Rightarrow> obj list translating" where
  "batch_events name_of [] = reply []"
| "batch_events name_of (v # vs) =
     bind (batch_event name_of v) (\<lambda>c1. bind (batch_events name_of vs) (\<lambda>c2. reply (c1 @ c2)))"

definition finish_reason_of :: "responses_converter \<Rightarrow> string" where
  "finish_reason_of s = (if list_ex (\<lambda>(_, p). fs_header p) (rc_tool_states s) then ''tool_calls'' else ''stop'')"

definition batch_stream :: "(obj \<Rightarrow> string option) \<Rightarrow> json list \<Rightarrow> obj list translating" where
  "batch_stream name_of events =
     bind (batch_events name_of events) (\<lambda>chunks s.
       bind (chunk [] (Some (finish_reason_of s))) (\<lambda>c. reply (chunks @ [c])) s)"

datatype batch_error = Upstream_Stream_Incomplete | Batch_Translation wire_error

definition response_events_to_chat_stream_chunks ::
    "int \<Rightarrow> (nat \<Rightarrow> string) \<Rightarrow> (json \<Rightarrow> string) \<Rightarrow> (obj \<Rightarrow> string option) \<Rightarrow> bool \<Rightarrow> bool \<Rightarrow> json list
      \<Rightarrow> batch_error + obj list" where
  "response_events_to_chat_stream_chunks now ids str_fun name_of require_completed preserve events =
     (case validate_terminal_order False events of
        Inl e \<Rightarrow> Inl (Batch_Translation e)
      | Inr _ \<Rightarrow>
          (if require_completed \<and> \<not> responses_events_have_completed events then Inl Upstream_Stream_Incomplete
           else (case fst (batch_stream name_of events (new_responses_converter now ids str_fun preserve)) of
                   Inl e \<Rightarrow> Inl (Batch_Translation e)
                 | Inr chunks \<Rightarrow> Inr chunks)))"

end
