(* ===== verification/Responses_Batch_Properties.thy ===== *)
theory Responses_Batch_Properties
  imports Responses_Batch Responses_Stream_Properties
begin

text \<open>
  The two translations of a Responses stream agree.  Up to the terminal event the recorded translation is the
  converter, step for step; at the terminal event the two states differ only in what the envelope of a chunk
  is made of, and \<open>tracks\<close> relates actions that then deliver the same choices.
\<close>

section \<open>Before the terminal event\<close>

definition reasoning_free :: "obj \<Rightarrow> bool" where
  "reasoning_free e \<longleftrightarrow>
     \<not> is_reasoning_part e
     \<and> \<not> event_kind_in e [''response.reasoning_text.delta'', ''response.reasoning_text.done'',
           ''response.reasoning_summary_text.done'']
     \<and> \<not> is_reasoning_item (get_or_null e ''item'')
     \<and> (case object_field e ''response'' of
          None \<Rightarrow> True
        | Some r \<Rightarrow> (case dict_get r ''output'' of Some (JArr vs) \<Rightarrow> \<not> list_ex is_reasoning_item vs | _ \<Rightarrow> True))"

text \<open>
  An item outside the namespaces for which the gateway invents a name: there its naming is the item's own
  name, on the item as given and on what becomes of it when it is a hosted tool's call.
\<close>

definition plain_namespace :: "obj \<Rightarrow> bool" where
  "plain_namespace item \<longleftrightarrow>
     (case text_field item ''namespace'' of
        None \<Rightarrow> True
      | Some namespace \<Rightarrow> namespace \<noteq> ''multi_agent_v1'' \<and> namespace \<noteq> ''codex_app'' \<and> \<not> prefix ''mcp__'' namespace)"

definition plain_item :: "json \<Rightarrow> bool" where
  "plain_item v \<longleftrightarrow> (case v of JObj item \<Rightarrow> plain_namespace item | _ \<Rightarrow> True)"

definition plain_names :: "obj \<Rightarrow> bool" where
  "plain_names e \<longleftrightarrow>
     plain_item (get_or_null e ''item'')
     \<and> (case object_field e ''response'' of
          None \<Rightarrow> True
        | Some r \<Rightarrow> (case dict_get r ''output'' of Some (JArr vs) \<Rightarrow> list_all plain_item vs | _ \<Rightarrow> True))"

lemma flat_alias_namespace: "\<not> prefix ''mcp__'' namespace \<Longrightarrow> codex_apps_namespace_flat_alias namespace name = None"
proof -
  have "prefix ''mcp__'' namespace" if "prefix ''mcp__codex_apps__'' namespace"
    by (rule prefix_order.trans [OF _ that]) simp
  then show "\<not> prefix ''mcp__'' namespace \<Longrightarrow> ?thesis" by (auto simp: codex_apps_namespace_flat_alias_def)
qed

lemma plain_name:
  assumes "plain_namespace item"
  shows "chat_function_name_from_response_item item = default_function_name item"
proof (cases "text_field item ''namespace''")
  case (Some namespace)
  have not: "\<not> prefix ''mcp__'' namespace" "namespace \<noteq> ''multi_agent_v1''" "namespace \<noteq> ''codex_app''"
    using assms by (simp_all only: plain_namespace_def Some option.case not_False_eq_True)
  have "prefix ''mcp__'' NODE_REPL_NAMESPACE" by code_simp
  with not(1) have node: "namespace \<noteq> NODE_REPL_NAMESPACE" by metis
  show ?thesis
    unfolding chat_function_name_from_response_item_def default_function_name_def Some option.case
      flat_alias_namespace [OF not(1)] supports_explicit_namespace_alias_def
    using not node by (cases "non_empty_str (dict_get item ''name'')") (simp_all only: option.case if_False simp_thms)
qed (simp add: chat_function_name_from_response_item_def default_function_name_def split: option.split)

lemma collapsed_plain:
  assumes "collapse_hosted_output_item given = Inr item" "plain_namespace given"
  shows "plain_namespace item"
proof (cases "item = given")
  case False
  then have "collapse_hosted_item_for_chat given = Inr (Some item)"
    using assms(1) by (auto simp: collapse_hosted_output_item_def rbind_Inr_iff split: option.splits)
  then obtain chat_name where "collapse_hosted_call given chat_name = Inr item"
    by (auto simp: collapse_hosted_item_for_chat_def rbind_Inr_iff split: option.splits if_splits)
  then have "text_field item ''namespace'' = None"
    by (auto simp: collapse_hosted_call_def rbind_Inr_iff text_field_def split: option.splits)
  then show ?thesis by (simp add: plain_namespace_def)
qed (use assms in simp)

lemma validated_plain:
  assumes "plain_item v"
  shows "validated_output_item_with chat_function_name_from_response_item v = validated_output_item v"
proof -
  have "non_empty_str (map_option JStr (default_function_name item)) = non_empty_str (dict_get item ''name'')" for item
    by (auto simp: default_function_name_def non_empty_str_def split: option.splits json.splits)
  then have call: "validated_call_with chat_function_name_from_response_item item = validated_call item"
      if "plain_namespace item" for item
    by (simp add: validated_call_with_def validated_call_def plain_name [OF that])
  show ?thesis
  proof (cases v)
    case (JObj given)
    with assms have "plain_namespace given" by (simp add: plain_item_def)
    with JObj call collapsed_plain show ?thesis
      unfolding validated_output_item_with_def validated_output_item_def
      by (auto intro!: rbind_cong)
  qed (simp_all add: validated_output_item_with_def validated_output_item_def)
qed

lemma normalize_free:
  "reasoning_free e \<Longrightarrow> normalize_raw_reasoning b e texts
     = (if hashable (get_or_null e ''type'') then Inr (e, texts) else Inl Unhashable)"
  by (auto simp: normalize_raw_reasoning_def reasoning_free_def event_kind_in_def split: option.splits)

lemma dispatch_same:
  assumes "reasoning_free e" "plain_names e" "text_field e ''type'' \<noteq> Some ''response.completed''"
  shows "batch_dispatch chat_function_name_from_response_item e = dispatch_response_event e"
proof -
  have "text_field e ''type'' \<noteq> Some ''response.reasoning_summary_text.done''"
    using assms(1) by (auto simp: reasoning_free_def event_kind_in_def)
  moreover have "batch_item_added chat_function_name_from_response_item e = on_item_added e"
    using assms(2) by (simp add: batch_item_added_def on_item_added_def validated_plain plain_names_def Let_def)
  moreover have "batch_item_done chat_function_name_from_response_item e = on_item_done e"
    using assms(1,2)
    by (simp add: batch_item_done_def on_item_done_def validated_plain plain_names_def reasoning_free_def Let_def)
  ultimately show ?thesis
    using assms(3) by (auto simp: batch_dispatch_def dispatch_response_event_def split: option.splits)
qed

lemma event_same:
  assumes "reasoning_free e" "plain_names e" "text_field e ''type'' \<noteq> Some ''response.completed''" "\<not> rc_completed s"
  shows "batch_event chat_function_name_from_response_item (JObj e) s = chunks_for_event e s"
proof (cases "hashable (get_or_null e ''type'')")
  case False
  with assms show ?thesis
    by (simp add: batch_event_def chunks_for_event_def normalize_free bind_def check_def lift_result_def)
next
  case True
  with assms show ?thesis
    by (simp add: batch_event_def chunks_for_event_def normalize_free check_def bind_lift dispatch_same)
qed

lemma stream_same:
  "convert_responses events s = (Inr cs, s') \<Longrightarrow> reads s c \<Longrightarrow> \<not> rc_completed s \<Longrightarrow>
   \<forall>e \<in> set events. reasoning_free e \<and> plain_names e \<and> text_field e ''type'' \<noteq> Some ''response.completed'' \<Longrightarrow>
   batch_events chat_function_name_from_response_item (map JObj events) s = (Inr cs, s')"
proof (induction events arbitrary: s c cs)
  case Nil
  then show ?case by (simp add: ret_ok)
next
  case (Cons e events)
  from Cons.prems(1) obtain c1 s1 c2 where 1: "chunks_for_event e s = (Inr c1, s1)"
    and 2: "convert_responses events s1 = (Inr c2, s')" and cs: "cs = c1 @ c2"
    by (auto elim!: bindE simp: ret_ok)
  have "convert_responses [e] s = (Inr c1, s1)" using 1 by (simp add: bind_def ret_def)
  from stream_live [OF this Cons.prems(2,3)] Cons.prems(4) have live: "\<not> rc_completed s1" by simp
  obtain c' where "reads s1 c'" using reads_event [OF 1 Cons.prems(2)] by blast
  from Cons.IH [OF 2 this live] Cons.prems(4)
  have rest: "batch_events chat_function_name_from_response_item (map JObj events) s1 = (Inr c2, s')" by simp
  have "batch_event chat_function_name_from_response_item (JObj e) s = (Inr c1, s1)"
    using event_same [of e s] Cons.prems(3,4) 1 by simp
  with rest show ?case by (simp add: bind_step ret_def cs)
qed

lemma event_kind_ok:
  assumes "chunks_for_event e s = (Inr cs, s')" "reasoning_free e" "\<not> rc_completed s"
  shows "hashable (get_or_null e ''type'')" "\<not> event_kind_in e [''response.failed'', ''response.incomplete'', ''error'']"
proof -
  show h: "hashable (get_or_null e ''type'')"
    using assms by (auto simp: chunks_for_event_def normalize_free bind_def check_def lift_result_def split: if_splits)
  from assms h have "dispatch_response_event e (s\<lparr>rc_texts_emitted := add_emitted (map snd (rc_raw_texts s)) (rc_texts_emitted s)\<rparr>)
      = (Inr cs, s')"
    by (simp add: chunks_for_event_def normalize_free check_def bind_lift modify_def bind_change)
  then show "\<not> event_kind_in e [''response.failed'', ''response.incomplete'', ''error'']"
    by (auto simp: dispatch_response_event_def event_kind_in_def check_ok split: option.splits if_splits)
qed

section \<open>At the terminal event\<close>

definition choices_of :: "obj \<Rightarrow> json" where
  "choices_of c = get_or_null c ''choices''"

definition same_calls :: "responses_converter \<Rightarrow> responses_converter \<Rightarrow> bool" where
  "same_calls s t \<longleftrightarrow> rc_tool_states s = rc_tool_states t \<and> rc_str s = rc_str t"

definition tracks :: "obj list translating \<Rightarrow> obj list translating \<Rightarrow> bool" where
  "tracks m n \<longleftrightarrow>
     (\<forall>s t cs s'. same_calls s t \<longrightarrow> m s = (Inr cs, s') \<longrightarrow>
        (\<exists>ds t'. n t = (Inr ds, t') \<and> map choices_of ds = map choices_of cs \<and> same_calls s' t'))"

lemma tracksI:
  assumes "\<And>s t cs s'. same_calls s t \<Longrightarrow> m s = (Inr cs, s') \<Longrightarrow>
     \<exists>ds t'. n t = (Inr ds, t') \<and> map choices_of ds = map choices_of cs \<and> same_calls s' t'"
  shows "tracks m n"
  using assms unfolding tracks_def by blast

lemma tracksD:
  assumes "tracks m n" "same_calls s t" "m s = (Inr cs, s')"
  obtains ds t' where "n t = (Inr ds, t')" "map choices_of ds = map choices_of cs" "same_calls s' t'"
  using assms unfolding tracks_def by blast

lemma choices_chunk [simp]: "choices_of (chunk_object i n m choices) = JArr choices"
  by (simp add: choices_of_def chunk_object_def get_or_null_def)

lemma choices_usage [simp]: "choices_of (chunk_object i n m choices @ d) = JArr choices"
  by (simp add: choices_of_def chunk_object_def get_or_null_def)

text \<open>A chunk can always be made.\<close>

lemma stream_created_total: "\<exists>n t'. stream_created None t = (Inr n, t')"
proof -
  have "\<exists>n. stable_unix_created now current [None] = Inr n" for now current
    by (cases current) (auto simp: stable_unix_created_def remember_unix_created_def unix_created_from_mappings_def
        unix_created_timestamp_def)
  then obtain n where "stable_unix_created (rc_now t) (rc_created_at t) [None] = Inr n" by blast
  then show ?thesis by (simp add: stream_created_def check_def bind_lift modify_def bind_change ret_def)
qed

lemma chunk_id_total: "\<exists>i t'. chunk_id t = (Inr i, t')"
  by (simp add: chunk_id_def ret_def)

lemma chunk_total:
  obtains x t' where "chunk delta fin t = (Inr x, t')" "choices_of x = JArr [chunk_choice delta fin]" "envelope_only t t'"
proof -
  let ?t = "if is_visible delta then t\<lparr>rc_visible := True\<rparr> else t"
  obtain i t1 where i: "chunk_id ?t = (Inr i, t1)" using chunk_id_total by blast
  obtain n t2 where n: "stream_created None t1 = (Inr n, t2)" using stream_created_total by blast
  have "chunk delta fin t = (Inr (chunk_object i n (rc_model t2) [chunk_choice delta fin]), t2)"
    unfolding chunk_def modify_def bind_change by (simp add: bind_def i n ret_def)
  from that [OF this choices_chunk chunk_ok(1) [OF this]] show thesis .
qed

lemma same_calls_envelope: "same_calls s t \<Longrightarrow> envelope_only s s' \<Longrightarrow> envelope_only t t' \<Longrightarrow> same_calls s' t'"
  by (simp add: same_calls_def envelope_only_def)

lemma tracks_reply [simp]: "tracks (reply cs) (reply cs)"
  by (rule tracksI) (auto simp: ret_ok)

lemma tracks_fail [simp]: "tracks (check (Inl e)) n"
  by (rule tracksI) (simp add: check_ok)

lemma tracks_single [simp]: "tracks (single d) (single d)"
proof (rule tracksI)
  fix s t cs s'
  assume st: "same_calls s t" and m: "single d s = (Inr cs, s')"
  from m obtain x where x: "chunk d None s = (Inr x, s')" "cs = [x]"
    by (auto simp: single_def ret_ok elim!: bindE)
  obtain y t' where y: "chunk d None t = (Inr y, t')" "choices_of y = JArr [chunk_choice d None]" "envelope_only t t'"
    by (rule chunk_total)
  from chunk_ok(2) [OF x(1)] y(2) have "choices_of x = choices_of y" by auto
  moreover have "same_calls s' t'" using same_calls_envelope [OF st chunk_ok(1) [OF x(1)] y(3)] .
  ultimately show "\<exists>ds t'. single d t = (Inr ds, t') \<and> map choices_of ds = map choices_of cs \<and> same_calls s' t'"
    by (simp add: single_def bind_def y(1) ret_def x(2))
qed

lemma tracks_check: "(\<And>a. r = Inr a \<Longrightarrow> tracks (f a) (g a)) \<Longrightarrow> tracks (bind (check r) f) (bind (check r) g)"
proof (rule tracksI)
  fix s t cs s'
  assume step: "\<And>a. r = Inr a \<Longrightarrow> tracks (f a) (g a)" and st: "same_calls s t" and m: "bind (check r) f s = (Inr cs, s')"
  obtain a where a: "r = Inr a" "f a s = (Inr cs, s')" by (rule bind_checkE [OF m])
  from step [OF a(1)] st a(2) show "\<exists>ds t'. bind (check r) g t = (Inr ds, t') \<and> map choices_of ds = map choices_of cs \<and> same_calls s' t'"
    by (auto simp: a(1) check_def bind_lift elim!: tracksD)
qed

lemma tracks_put:
  assumes "tracks m n"
  shows "tracks (bind (put_progress k p) (\<lambda>_. m)) (bind (put_progress k p) (\<lambda>_. n))"
proof (rule tracksI)
  fix s t cs s'
  assume st: "same_calls s t" and m: "bind (put_progress k p) (\<lambda>_. m) s = (Inr cs, s')"
  have "same_calls (s\<lparr>rc_tool_states := dict_set (rc_tool_states s) k p\<rparr>) (t\<lparr>rc_tool_states := dict_set (rc_tool_states t) k p\<rparr>)"
    using st by (simp add: same_calls_def)
  moreover have "m (s\<lparr>rc_tool_states := dict_set (rc_tool_states s) k p\<rparr>) = (Inr cs, s')"
    using m by (simp add: put_progress_def modify_def bind_change)
  ultimately obtain ds t' where "n (t\<lparr>rc_tool_states := dict_set (rc_tool_states t) k p\<rparr>) = (Inr ds, t')"
      "map choices_of ds = map choices_of cs" "same_calls s' t'"
    using tracksD [OF assms] by blast
  then show "\<exists>ds t'. bind (put_progress k p) (\<lambda>_. n) t = (Inr ds, t') \<and> map choices_of ds = map choices_of cs \<and> same_calls s' t'"
    by (simp add: put_progress_def modify_def bind_change)
qed

lemma tracks_append:
  assumes "tracks m m'" "tracks n n'"
  shows "tracks (bind m (\<lambda>c1. bind n (\<lambda>c2. reply (c1 @ c2)))) (bind m' (\<lambda>c1. bind n' (\<lambda>c2. reply (c1 @ c2))))"
proof (rule tracksI)
  fix s t cs s'
  assume st: "same_calls s t" and "bind m (\<lambda>c1. bind n (\<lambda>c2. reply (c1 @ c2))) s = (Inr cs, s')"
  then obtain c1 s1 c2 where 1: "m s = (Inr c1, s1)" and 2: "n s1 = (Inr c2, s')" and cs: "cs = c1 @ c2"
    by (auto elim!: bindE simp: ret_ok)
  obtain d1 t1 where d1: "m' t = (Inr d1, t1)" "map choices_of d1 = map choices_of c1" "same_calls s1 t1"
    by (rule tracksD [OF assms(1) st 1])
  obtain d2 t2 where d2: "n' t1 = (Inr d2, t2)" "map choices_of d2 = map choices_of c2" "same_calls s' t2"
    by (rule tracksD [OF assms(2) d1(3) 2])
  show "\<exists>ds t'. bind m' (\<lambda>c1. bind n' (\<lambda>c2. reply (c1 @ c2))) t = (Inr ds, t') \<and> map choices_of ds = map choices_of cs \<and> same_calls s' t'"
    using d1(2) d2(2,3) by (simp add: bind_def d1(1) d2(1) ret_def cs)
qed

lemma tracks_final: "tracks (final_argument_chunks k p a) (final_argument_chunks k p a)"
  unfolding final_argument_chunks_def by (intro tracks_check) (simp add: tracks_put)

lemma tracks_finish_call: "tracks (finish_call item call_id name a) (finish_call item call_id name a)"
proof (rule tracksI)
  fix s t cs s'
  assume st: "same_calls s t" and m: "finish_call item call_id name a s = (Inr cs, s')"
  have key: "str_of t = str_of s" using st by (auto simp: str_of_def same_calls_def fun_eq_iff split: json.splits)
  let ?key = "str_of s (or_value (or_value (get_or_null item ''id'') (JStr call_id)) (JStr []))"
  define act where "act = (case dict_get (rc_tool_states s) ?key of
      None \<Rightarrow> check (Inl UNPAIRED)
    | Some p \<Rightarrow> bind (check (guard (fs_header p) UNPAIRED)) (\<lambda>_.
        bind (check (guard (fs_id p = call_id \<and> fs_name p = name) UNPAIRED)) (\<lambda>_. final_argument_chunks ?key p a)))"
  have "tracks act act" unfolding act_def by (auto intro!: tracks_check tracks_final split: option.split)
  moreover have "finish_call item call_id name a s = act s" by (simp add: finish_call_def act_def Let_def)
  moreover have "finish_call item call_id name a t = act t"
    using st by (simp add: finish_call_def act_def Let_def key same_calls_def)
  ultimately show "\<exists>ds t'. finish_call item call_id name a t = (Inr ds, t') \<and> map choices_of ds = map choices_of cs \<and> same_calls s' t'"
    using st m by (auto elim!: tracksD)
qed

lemma tracks_terminal_items:
  "\<not> list_ex is_reasoning_item vs \<Longrightarrow> list_all plain_item vs \<Longrightarrow> tracks (terminal_items vs) (batch_terminal_items chat_function_name_from_response_item vs)"
proof (induction vs)
  case (Cons v vs)
  have "tracks (terminal_item v) (batch_terminal_item chat_function_name_from_response_item v)"
    using Cons.prems unfolding terminal_item_def batch_terminal_item_def
    by (auto simp: validated_plain intro!: tracks_check tracks_finish_call split: output_item.split)
  with Cons show ?case by (simp add: tracks_append)
qed simp

text \<open>The converter at the terminal event, and the recorded translation from there on.\<close>

lemma batch_strings:
  "set rest \<subseteq> {JStr ''[DONE]''} \<Longrightarrow> batch_events name_of rest t = (Inr [], t)"
  by (induction rest) (auto simp: batch_event_def bind_def ret_def)

lemma batch_events_append:
  assumes "batch_events name_of vs s = (Inr c1, s1)" "batch_events name_of ws s1 = (Inr c2, s2)"
  shows "batch_events name_of (vs @ ws) s = (Inr (c1 @ c2), s2)"
  using assms(1)
proof (induction vs arbitrary: s c1)
  case Nil
  with assms(2) show ?case by (simp add: ret_ok)
next
  case (Cons v vs)
  then obtain d1 t1 d2 where 1: "batch_event name_of v s = (Inr d1, t1)" "batch_events name_of vs t1 = (Inr d2, s1)"
    and c1: "c1 = d1 @ d2"
    by (auto elim!: bindE simp: ret_ok)
  from Cons.IH [OF 1(2)] 1(1) c1 show ?case by (simp add: bind_def ret_def)
qed

lemma completed_tracked:
  assumes r: "on_completed e s = (Inr cs, s')" and free: "reasoning_free e" and plain: "plain_names e"
  obtains cs1 fin ds t u where "batch_completed chat_function_name_from_response_item e s = (Inr ds, t)"
    "cs = cs1 @ fin # u" "map choices_of ds = map choices_of cs1"
    "choices_of fin = JArr [chunk_choice [] (Some (finish_reason_of t))]"
    "u = [] \<or> (\<exists>c. u = [c] \<and> choices_of c = JArr [])"
proof -
  obtain response items s1 cs1 s2 x s3 u where
    response: "response = (case object_field e ''response'' of None \<Rightarrow> [] | Some r \<Rightarrow> r)"
    and s1: "quiet s s1" "rc_tool_states s1 = rc_tool_states s" and items: "terminal_output response = Inr items"
    and run: "terminal_items items s1 = (Inr cs1, s2)"
    and x: "chunk [] (Some (if list_ex (\<lambda>(_, p). fs_header p) (rc_tool_states s2) then ''tool_calls'' else ''stop''))
       (s2\<lparr>rc_completed := True\<rparr>) = (Inr x, s3)"
    and u: "usage_chunks (object_field response ''usage'') s3 = (Inr u, s')" and cs: "cs = cs1 @ [x] @ u"
    by (rule on_completedE [OF r])
  have "\<not> list_ex is_reasoning_item items"
    using items free by (auto simp: response terminal_output_def reasoning_free_def split: option.splits json.splits)
  moreover have "list_all plain_item items"
    using items plain by (auto simp: response terminal_output_def plain_names_def split: option.splits json.splits)
  ultimately have "tracks (terminal_items items) (batch_terminal_items chat_function_name_from_response_item items)"
    by (rule tracks_terminal_items)
  moreover have "same_calls s1 s" using s1 by (simp add: same_calls_def quiet_def)
  ultimately obtain ds t where ds: "batch_terminal_items chat_function_name_from_response_item items s = (Inr ds, t)"
    "map choices_of ds = map choices_of cs1" "same_calls s2 t"
    using run by (rule tracksD)
  have run': "batch_completed chat_function_name_from_response_item e s = (Inr ds, t)"
    using items ds(1) by (auto simp: batch_completed_def response check_def bind_lift terminal_output_def ret_ok
        split: option.splits)
  from chunk_ok(2) [OF x] have "choices_of x = JArr [chunk_choice [] (Some (finish_reason_of t))]"
    using ds(3) by (auto simp: finish_reason_of_def same_calls_def)
  moreover from usage_chunks_ok(2) [OF u] have "u = [] \<or> (\<exists>c. u = [c] \<and> choices_of c = JArr [])" by auto
  ultimately show thesis using that [OF run' _ ds(2)] cs by simp
qed

lemma last_event_tracked:
  assumes r: "chunks_for_event e s = (Inr cs, s')" and free: "reasoning_free e" and plain: "plain_names e"
    and live: "\<not> rc_completed s"
    and final: "text_field e ''type'' = Some ''response.completed''"
  obtains cs1 fin ds t u where "batch_event chat_function_name_from_response_item (JObj e) s = (Inr ds, t)"
    "cs = cs1 @ fin # u" "map choices_of ds = map choices_of cs1"
    "choices_of fin = JArr [chunk_choice [] (Some (finish_reason_of t))]"
    "u = [] \<or> (\<exists>c. u = [c] \<and> choices_of c = JArr [])"
proof -
  let ?s = "s\<lparr>rc_texts_emitted := add_emitted (map snd (rc_raw_texts s)) (rc_texts_emitted s)\<rparr>"
  note h = event_kind_ok(1) [OF r free live]
  have "on_completed e ?s = (Inr cs, s')"
    using r h live final
    by (simp add: chunks_for_event_def normalize_free [OF free] check_def bind_lift modify_def bind_change dispatch_response_event_def)
  then obtain cs1 fin ds t u where 1: "batch_completed chat_function_name_from_response_item e ?s = (Inr ds, t)"
    "cs = cs1 @ fin # u" "map choices_of ds = map choices_of cs1"
    "choices_of fin = JArr [chunk_choice [] (Some (finish_reason_of t))]"
    "u = [] \<or> (\<exists>c. u = [c] \<and> choices_of c = JArr [])"
    by (rule completed_tracked [OF _ free plain])
  have "batch_event chat_function_name_from_response_item (JObj e) s = (Inr ds, t)"
    using 1(1) h final
    by (simp add: batch_event_def normalize_free [OF free] check_def bind_lift modify_def bind_change batch_dispatch_def)
  from that [OF this 1(2-5)] show thesis .
qed

lemma order_accepted:
  "convert_responses events s = (Inr cs, s') \<Longrightarrow> reads s c \<Longrightarrow> \<not> rc_completed s \<Longrightarrow>
   \<forall>e \<in> set events. reasoning_free e \<and> text_field e ''type'' \<noteq> Some ''response.completed'' \<Longrightarrow>
   validate_terminal_order False (map JObj events @ vs) = validate_terminal_order False vs"
proof (induction events arbitrary: s c cs)
  case (Cons e events)
  from Cons.prems(1) obtain c1 s1 c2 where 1: "chunks_for_event e s = (Inr c1, s1)"
    and 2: "convert_responses events s1 = (Inr c2, s')"
    by (auto elim!: bindE simp: ret_ok)
  have "convert_responses [e] s = (Inr c1, s1)" using 1 by (simp add: bind_def ret_def)
  from stream_live [OF this Cons.prems(2,3)] Cons.prems(4) have live: "\<not> rc_completed s1" by simp
  obtain c' where "reads s1 c'" using reads_event [OF 1 Cons.prems(2)] by blast
  from Cons.IH [OF 2 this live] Cons.prems(4)
  have rest: "validate_terminal_order False (map JObj events @ vs) = validate_terminal_order False vs" by simp
  have "reasoning_free e" using Cons.prems(4) by simp
  from event_kind_ok [OF 1 this Cons.prems(3)] Cons.prems(4)
  have "hashable (get_or_null e ''type'')" "\<not> event_kind_in e TERMINAL_TYPES"
    by (auto simp: event_kind_in_def TERMINAL_TYPES_def split: option.splits)
  with rest show ?case by simp
qed simp

lemma strings_accepted: "set rest \<subseteq> {JStr ''[DONE]''} \<Longrightarrow> validate_terminal_order seen rest = Inr ()"
  by (induction rest arbitrary: seen) auto

section \<open>The property\<close>

text \<open>C10: the gateway's two translations of a Responses stream to Chat agree.  Let the converter, fed event by event,
  accept a stream that ends with its completion, that has no reasoning, and whose items belong to none
  of the namespaces the gateway renames (\<open>multi_agent_v1\<close>, \<open>codex_app\<close>, \<open>mcp__\<close>...).  Then the
  translation of the recorded events, with the gateway's naming of calls (with or without the end
  marker behind them, whether or not completion is required) succeeds too, and its chunks carry the
  same choices in the same order: the same roles, texts, calls, pieces of arguments and finish.  Only
  the chunk with the usage, if any, is the converter's alone.
\<close>

theorem batch_matches_incremental:
  assumes "convert_responses (pre @ [final]) (new_responses_converter now ids str_fun preserve) = (Inr chunks, s')"
    and "\<forall>e \<in> set (pre @ [final]). reasoning_free e \<and> plain_names e"
    and "\<forall>e \<in> set pre. text_field e ''type'' \<noteq> Some ''response.completed''"
    and "text_field final ''type'' = Some ''response.completed''"
    and "set rest \<subseteq> {JStr ''[DONE]''}"
  shows "\<exists>batch body usage. response_events_to_chat_stream_chunks now ids str_fun chat_function_name_from_response_item required preserve
      (map JObj (pre @ [final]) @ rest) = Inr batch \<and>
    chunks = body @ usage \<and> map choices_of batch = map choices_of body \<and>
    (usage = [] \<or> (\<exists>c. usage = [c] \<and> choices_of c = JArr []))"
proof -
  let ?s = "new_responses_converter now ids str_fun preserve"
  have fresh: "reads ?s client_begin" "\<not> rc_completed ?s"
    using reads_begin by (simp_all add: new_responses_converter_def)
  from convert_snoc [OF assms(1)] obtain c1 s1 c2 where 1: "convert_responses pre ?s = (Inr c1, s1)"
    and 2: "chunks_for_event final s1 = (Inr c2, s')" and chunks: "chunks = c1 @ c2" by blast
  have pre: "\<forall>e \<in> set pre. reasoning_free e \<and> plain_names e \<and> text_field e ''type'' \<noteq> Some ''response.completed''"
    and ready: "\<forall>e \<in> set pre. reasoning_free e \<and> text_field e ''type'' \<noteq> Some ''response.completed''"
    and free: "reasoning_free final" and plain: "plain_names final" using assms(2,3) by auto
  have live: "\<not> rc_completed s1" using stream_live [OF 1 fresh] pre by blast
  obtain cs1 fin ds t u where 3: "batch_event chat_function_name_from_response_item (JObj final) s1 = (Inr ds, t)"
    "c2 = cs1 @ fin # u" "map choices_of ds = map choices_of cs1"
    "choices_of fin = JArr [chunk_choice [] (Some (finish_reason_of t))]"
    "u = [] \<or> (\<exists>c. u = [c] \<and> choices_of c = JArr [])"
    by (rule last_event_tracked [OF 2 free plain live assms(4)])
  have "batch_events chat_function_name_from_response_item (JObj final # rest) s1 = (Inr ds, t)"
    using 3(1) batch_strings [OF assms(5)] by (simp add: bind_def ret_def)
  with stream_same [OF 1 fresh pre]
  have run: "batch_events chat_function_name_from_response_item (map JObj (pre @ [final]) @ rest) ?s = (Inr (c1 @ ds), t)"
    using batch_events_append by fastforce
  obtain y t' where y: "chunk [] (Some (finish_reason_of t)) t = (Inr y, t')"
    "choices_of y = JArr [chunk_choice [] (Some (finish_reason_of t))]"
    by (rule chunk_total)
  have stream: "batch_stream chat_function_name_from_response_item (map JObj (pre @ [final]) @ rest) ?s = (Inr (c1 @ ds @ [y]), t')"
    unfolding batch_stream_def by (simp add: bind_def run y(1) ret_def del: map_append)
  have "validate_terminal_order False (map JObj (pre @ [final]) @ rest) = validate_terminal_order False (JObj final # rest)"
    using order_accepted [OF 1 fresh ready] by simp
  also have "\<dots> = Inr ()"
    using event_kind_ok(1) [OF 2 free live] assms(4) strings_accepted [OF assms(5)] by simp
  finally have order: "validate_terminal_order False (map JObj (pre @ [final]) @ rest) = Inr ()" .
  have "responses_events_have_completed (map JObj (pre @ [final]) @ rest)"
    using assms(4) by (simp add: responses_events_have_completed_def)
  then have "response_events_to_chat_stream_chunks now ids str_fun chat_function_name_from_response_item required preserve
      (map JObj (pre @ [final]) @ rest) = Inr (c1 @ ds @ [y])"
    using order stream by (simp add: response_events_to_chat_stream_chunks_def del: map_append)
  moreover have "chunks = (c1 @ cs1 @ [fin]) @ u" by (simp add: chunks 3(2))
  moreover have "map choices_of (c1 @ ds @ [y]) = map choices_of (c1 @ cs1 @ [fin])" by (simp add: 3(3,4) y(2))
  ultimately show ?thesis using 3(5) by blast
qed

lemma batch_matches_incremental_witness:
  "\<exists>chunks s' batch body usage. convert_responses (sample_events @ [sample_completed]) sample_converter = (Inr chunks, s')
    \<and> length chunks = 6
    \<and> response_events_to_chat_stream_chunks 5 (\<lambda>_. ''x'') (\<lambda>_. []) chat_function_name_from_response_item True True
        (map JObj (sample_events @ [sample_completed]) @ [JStr ''[DONE]'']) = Inr batch
    \<and> chunks = body @ usage \<and> map choices_of batch = map choices_of body"
proof -
  obtain cs s where 1: "convert_responses (sample_events @ [sample_completed]) sample_converter = (Inr cs, s)" "length cs = 6"
    by (rule sample_lengthE [OF sample_responses])
  have "list_all (\<lambda>e. reasoning_free e \<and> plain_names e) (sample_events @ [sample_completed])" by code_simp
  then have free: "\<forall>e \<in> set (sample_events @ [sample_completed]). reasoning_free e \<and> plain_names e" by (simp only: list_all_iff)
  have "list_all (\<lambda>e. text_field e ''type'' \<noteq> Some ''response.completed'') sample_events" by code_simp
  then have pre: "\<forall>e \<in> set sample_events. text_field e ''type'' \<noteq> Some ''response.completed''" by (simp only: list_all_iff)
  have final: "text_field sample_completed ''type'' = Some ''response.completed''" by code_simp
  have rest: "set [JStr ''[DONE]''] \<subseteq> {JStr ''[DONE]''}" by simp
  from batch_matches_incremental [OF 1(1) free pre final rest, of True] 1 show ?thesis by blast
qed

section \<open>Where they differ\<close>

text \<open>
  With reasoning the two are not the same: the recorded translation does not remember the final text of a
  summary, so the copy in the terminal output is sent again; the converter sends it once.
\<close>

definition reasoning_texts :: "obj list \<Rightarrow> string list" where
  "reasoning_texts cs = List.map_filter (\<lambda>c. case choices_of c of
     JArr [JObj choice] \<Rightarrow> (case object_field choice ''delta'' of None \<Rightarrow> None | Some d \<Rightarrow> text_field d ''reasoning_content'')
   | _ \<Rightarrow> None) cs"

definition summary_stream :: "obj list" where
  "summary_stream =
     [sample_event ''response.reasoning_summary_text.done'' [(''text'', JStr ''why'')],
      sample_event ''response.completed'' [(''response'', JObj [(''output'', JArr [JObj
        [(''type'', JStr ''reasoning''), (''summary'', JArr [JObj [(''type'', JStr ''summary_text''), (''text'', JStr ''why'')]])]])])]]"

lemma batch_repeats_summary:
  "map_option reasoning_texts (case response_events_to_chat_stream_chunks 5 (\<lambda>_. ''x'') (\<lambda>_. []) default_function_name True True
      (map JObj summary_stream) of Inr cs \<Rightarrow> Some cs | _ \<Rightarrow> None) = Some [''why'', ''why'']"
  "map_option reasoning_texts (case convert_responses summary_stream sample_converter of (Inr cs, _) \<Rightarrow> Some cs | _ \<Rightarrow> None)
     = Some [''why'']"
  by code_simp+

text \<open>
  With the gateway's naming, a call in one of its namespaces is announced under the flat name; the converter
  announces it under its own.
\<close>

definition called_names :: "obj list \<Rightarrow> string list" where
  "called_names cs = concat (map (\<lambda>c. case choices_of c of
     JArr [JObj choice] \<Rightarrow>
       (case object_field choice ''delta'' of
          None \<Rightarrow> []
        | Some d \<Rightarrow> (case dict_get d ''tool_calls'' of
            Some (JArr [JObj call]) \<Rightarrow> (case object_field call ''function'' of
                None \<Rightarrow> [] | Some f \<Rightarrow> (case text_field f ''name'' of None \<Rightarrow> [] | Some n \<Rightarrow> [n]))
          | _ \<Rightarrow> []))
   | _ \<Rightarrow> []) cs)"

definition agent_stream :: "obj list" where
  "agent_stream =
     [sample_event ''response.output_item.added'' [(''item'', JObj [(''type'', JStr ''function_call''), (''id'', JStr ''f''),
        (''call_id'', JStr ''a''), (''namespace'', JStr ''multi_agent_v1''), (''name'', JStr ''spawn''), (''arguments'', JStr ''{}'')])],
      sample_event ''response.completed'' [(''response'', JObj [(''output'', JArr [])])]]"

lemma batch_renames_namespaced_calls:
  "map_option called_names (case response_events_to_chat_stream_chunks 5 (\<lambda>_. ''x'') (\<lambda>_. []) chat_function_name_from_response_item
      True True (map JObj agent_stream) of Inr cs \<Rightarrow> Some cs | _ \<Rightarrow> None) = Some [''multi_agent_v1__spawn'']"
  "map_option called_names (case convert_responses agent_stream sample_converter of (Inr cs, _) \<Rightarrow> Some cs | _ \<Rightarrow> None)
     = Some [''spawn'']"
  by code_simp+

end
