(* ===== verification/Upstream_Reader.thy ===== *)
theory Upstream_Reader
  imports Prelude
begin

text \<open>
  \<open>UpstreamSseReaderLifecycle\<close> of \<open>src-python/gateway_transport.py\<close>: one thread reads the lines of an
  upstream response into a queue of 32, one consumer takes them out, and anyone may close.

  The reader and the consumer are program counters in a record with the object's fields; every step is
  one access to shared state: a test of \<open>_cancelled()\<close>, a \<open>put\<close> or \<open>get\<close> of the queue that succeeds or
  times out, the critical section of \<open>close\<close>, and the call of \<open>response.close()\<close> that follows it.  Time is
  not in the model: a \<open>put\<close> may time out whenever the queue is full, a \<open>get\<close> whenever it is empty.
  What upstream delivers, when the caller cancels and who closes are choices of the environment.  The
  test of \<open>_cancelled()\<close> is one step although it reads two flags: the first only ever rises, so its
  answer is that of one moment.  The caller's flag may also fall, which covers a
  \<open>cancellation_requested\<close> that raises.  The last fields record what was read, taken out and returned,
  the calls of \<open>response.close()\<close>, and whether the caller ever cancelled; no step looks at them.
\<close>

section \<open>State\<close>

datatype queued = Fetched bytes | Failed string

definition QUEUE_CAPACITY :: nat where "QUEUE_CAPACITY = 32"

text \<open>Where the reader thread is in \<open>_read_upstream\<close> and \<open>_enqueue\<close>.\<close>

datatype reader_pc =
    R_Unborn
  | R_Test
  | R_Readline
  | R_Put_Test queued
  | R_Put queued
  | R_Finally
  | R_Close_Response
  | R_Done

text \<open>Where the consumer is in \<open>get\<close>; the flag says that a timeout was given.\<close>

datatype consumer_pc = C_Idle | C_Get bool | C_Timed_Out bool

record lifecycle =
  ul_queue :: "queued list"
  ul_closed :: bool
  ul_cancel :: bool
  ul_started :: bool
  ul_response_closed :: bool
  ul_join_outcome :: "string option"
  ul_reader :: reader_pc
  ul_consumer :: consumer_pc
  ul_closing :: nat
  ul_reads :: "queued list"
  ul_taken :: "queued list"
  ul_returned :: "queued list"
  ul_close_calls :: nat
  ul_cancel_raised :: bool

definition new_lifecycle :: lifecycle where
  "new_lifecycle =
     \<lparr>ul_queue = [], ul_closed = False, ul_cancel = False, ul_started = False, ul_response_closed = False,
      ul_join_outcome = None, ul_reader = R_Unborn, ul_consumer = C_Idle, ul_closing = 0, ul_reads = [],
      ul_taken = [], ul_returned = [], ul_close_calls = 0,
      ul_cancel_raised = False\<rparr>"

definition queue_depth :: "lifecycle \<Rightarrow> nat" where
  "queue_depth s = length (ul_queue s)"

definition reader_alive :: "lifecycle \<Rightarrow> bool" where
  "reader_alive s \<longleftrightarrow> ul_reader s \<noteq> R_Unborn \<and> ul_reader s \<noteq> R_Done"

definition cancelled :: "lifecycle \<Rightarrow> bool" where
  "cancelled s \<longleftrightarrow> ul_closed s \<or> ul_cancel s"

section \<open>Close, start, join\<close>

text \<open>The critical section of \<open>close\<close>: whether this caller has to close the response.\<close>

definition close_locked :: "lifecycle \<Rightarrow> bool \<times> lifecycle" where
  "close_locked s = (\<not> ul_response_closed s, s\<lparr>ul_closed := True, ul_response_closed := True\<rparr>)"

definition close_response :: "lifecycle \<Rightarrow> lifecycle" where
  "close_response s = s\<lparr>ul_close_calls := ul_close_calls s + 1\<rparr>"

definition start :: "lifecycle \<Rightarrow> lifecycle" where
  "start s = (if ul_started s \<or> ul_closed s then s else s\<lparr>ul_started := True, ul_reader := R_Test\<rparr>)"

definition STILL_ALIVE :: string where
  "STILL_ALIVE = ''upstream_sse_reader_thread_did_not_terminate''"

definition TERMINATED :: string where
  "TERMINATED = ''upstream_sse_reader_thread_terminated''"

definition join_reader :: "lifecycle \<Rightarrow> (bool \<times> string option) \<times> lifecycle" where
  "join_reader s =
     (if ul_reader s = R_Unborn then ((True, None), s)
      else if reader_alive s then ((False, Some STILL_ALIVE), s\<lparr>ul_join_outcome := Some STILL_ALIVE\<rparr>)
      else (let outcome = (case ul_join_outcome s of None \<Rightarrow> TERMINATED | Some t \<Rightarrow> t)
            in ((True, Some outcome), s\<lparr>ul_join_outcome := Some outcome\<rparr>)))"

section \<open>The reader thread\<close>

definition goto :: "reader_pc \<Rightarrow> lifecycle \<Rightarrow> lifecycle" where
  "goto pc s = s\<lparr>ul_reader := pc\<rparr>"

definition read_test :: "lifecycle \<Rightarrow> lifecycle" where
  "read_test s = goto (if cancelled s then R_Finally else R_Readline) s"

text \<open>\<open>response.readline()\<close> returns a line, or raises.\<close>

definition read_outcome :: "queued \<Rightarrow> lifecycle \<Rightarrow> lifecycle" where
  "read_outcome x s =
     (let s1 = s\<lparr>ul_reads := ul_reads s @ [x]\<rparr>
      in case x of
           Fetched _ \<Rightarrow> goto (R_Put_Test x) s1
         | Failed _ \<Rightarrow> goto (if cancelled s then R_Finally else R_Put_Test x) s1)"

definition put_test :: "queued \<Rightarrow> lifecycle \<Rightarrow> lifecycle" where
  "put_test x s = goto (if cancelled s then R_Finally else R_Put x) s"

definition after_put :: "queued \<Rightarrow> reader_pc" where
  "after_put x = (case x of Fetched l \<Rightarrow> if l = [] then R_Finally else R_Test | Failed _ \<Rightarrow> R_Finally)"

definition put :: "queued \<Rightarrow> lifecycle \<Rightarrow> lifecycle" where
  "put x s =
     (if length (ul_queue s) < QUEUE_CAPACITY then goto (after_put x) (s\<lparr>ul_queue := ul_queue s @ [x]\<rparr>)
      else goto (R_Put_Test x) s)"

definition reader_close :: "lifecycle \<Rightarrow> lifecycle" where
  "reader_close s = (case close_locked s of (should, s1) \<Rightarrow> goto (if should then R_Close_Response else R_Done) s1)"

section \<open>The consumer\<close>

definition call_get :: "bool \<Rightarrow> lifecycle \<Rightarrow> lifecycle" where
  "call_get limited s = (start s)\<lparr>ul_consumer := C_Get limited\<rparr>"

definition return_item :: "queued \<Rightarrow> lifecycle \<Rightarrow> lifecycle" where
  "return_item x s = s\<lparr>ul_consumer := C_Idle, ul_returned := ul_returned s @ [x]\<rparr>"

definition get :: "bool \<Rightarrow> lifecycle \<Rightarrow> lifecycle" where
  "get limited s =
     (case ul_queue s of
        [] \<Rightarrow> s\<lparr>ul_consumer := C_Timed_Out limited\<rparr>
      | x # rest \<Rightarrow> return_item x (s\<lparr>ul_queue := rest, ul_taken := ul_taken s @ [x]\<rparr>))"

text \<open>After a timeout: an empty line when closed or cancelled; otherwise \<open>queue.Empty\<close> is raised, or waited again.\<close>

definition timed_out :: "bool \<Rightarrow> lifecycle \<Rightarrow> lifecycle" where
  "timed_out limited s =
     (if cancelled s then return_item (Fetched []) s
      else if limited then s\<lparr>ul_consumer := C_Idle\<rparr>
      else s\<lparr>ul_consumer := C_Get False\<rparr>)"

text \<open>What \<open>readline\<close> makes of an item, and the lines \<open>iter_lines\<close> yields from the items returned.\<close>

definition readline_result :: "queued \<Rightarrow> string + bytes" where
  "readline_result x = (case x of Fetched l \<Rightarrow> Inr l | Failed e \<Rightarrow> Inl e)"

fun iter_lines :: "queued list \<Rightarrow> bytes list \<times> string option" where
  "iter_lines [] = ([], None)"
| "iter_lines (x # xs) =
     (case readline_result x of
        Inl e \<Rightarrow> ([], Some e)
      | Inr l \<Rightarrow> if l = [] then ([l], None) else (case iter_lines xs of (ls, e) \<Rightarrow> (l # ls, e)))"

section \<open>All interleavings\<close>

datatype lifecycle_op =
    Reader "queued"
  | Consumer
  | Call bool
  | Cancel_Flag bool
  | Close
  | Close_Response
  | Join

text \<open>A step of the reader; its argument is what upstream delivers, when that is what it waits for.\<close>

definition reader_step :: "queued \<Rightarrow> lifecycle \<Rightarrow> lifecycle" where
  "reader_step x s =
     (case ul_reader s of
        R_Test \<Rightarrow> read_test s
      | R_Readline \<Rightarrow> read_outcome x s
      | R_Put_Test y \<Rightarrow> put_test y s
      | R_Put y \<Rightarrow> put y s
      | R_Finally \<Rightarrow> reader_close s
      | R_Close_Response \<Rightarrow> goto R_Done (close_response s)
      | _ \<Rightarrow> s)"

definition consumer_step :: "lifecycle \<Rightarrow> lifecycle" where
  "consumer_step s =
     (case ul_consumer s of C_Idle \<Rightarrow> s | C_Get limited \<Rightarrow> get limited s | C_Timed_Out limited \<Rightarrow> timed_out limited s)"

definition outside_close :: "lifecycle \<Rightarrow> lifecycle" where
  "outside_close s = (case close_locked s of (should, s1) \<Rightarrow> if should then s1\<lparr>ul_closing := ul_closing s1 + 1\<rparr> else s1)"

fun lifecycle_step :: "lifecycle_op \<Rightarrow> lifecycle \<Rightarrow> lifecycle" where
  "lifecycle_step (Reader x) s = reader_step x s"
| "lifecycle_step Consumer s = consumer_step s"
| "lifecycle_step (Call limited) s = (if ul_consumer s = C_Idle then call_get limited s else s)"
| "lifecycle_step (Cancel_Flag b) s = s\<lparr>ul_cancel := b, ul_cancel_raised := ul_cancel_raised s \<or> b\<rparr>"
| "lifecycle_step Close s = outside_close s"
| "lifecycle_step Close_Response s = (if ul_closing s = 0 then s else close_response (s\<lparr>ul_closing := ul_closing s - 1\<rparr>))"
| "lifecycle_step Join s = snd (join_reader s)"

definition lifecycle_run :: "lifecycle_op list \<Rightarrow> lifecycle \<Rightarrow> lifecycle" where
  "lifecycle_run ops s = foldl (\<lambda>s x. lifecycle_step x s) s ops"

inductive lifecycle_reachable :: "lifecycle \<Rightarrow> bool" where
  lifecycle_created: "lifecycle_reachable new_lifecycle"
| lifecycle_stepped: "lifecycle_reachable s \<Longrightarrow> lifecycle_reachable (lifecycle_step x s)"

lemma lifecycle_run_reachable: "lifecycle_reachable s \<Longrightarrow> lifecycle_reachable (lifecycle_run ops s)"
  by (induction ops arbitrary: s) (auto simp: lifecycle_run_def intro: lifecycle_stepped)

end
