(* ===== verification/Upstream_Reader_Properties.thy ===== *)
theory Upstream_Reader_Properties
  imports Upstream_Reader
begin

text \<open>
  What the bounded queue between the reader thread and the consumer promises in every interleaving: lines
  arrive in order, nothing is invented, the reader is never far ahead, the response is closed once, and
  after a close both sides stop.  The last section is an interleaving that loses the end of a stream.
\<close>

section \<open>Invariant\<close>

definition pending_item :: "reader_pc \<Rightarrow> queued list" where
  "pending_item pc = (case pc of R_Put_Test x \<Rightarrow> [x] | R_Put x \<Rightarrow> [x] | _ \<Rightarrow> [])"

definition reading :: "reader_pc \<Rightarrow> bool" where
  "reading pc \<longleftrightarrow> (case pc of R_Finally \<Rightarrow> False | R_Close_Response \<Rightarrow> False | R_Done \<Rightarrow> False | _ \<Rightarrow> True)"

definition going_on :: "queued \<Rightarrow> bool" where
  "going_on x \<longleftrightarrow> (case x of Fetched l \<Rightarrow> l \<noteq> [] | Failed _ \<Rightarrow> False)"

text \<open>
  What was read is what was taken, queued and pending, until the reader gives up and may drop the
  pending item; only the last item read can be an end of stream or a failure.
\<close>

definition inv_data :: "lifecycle \<Rightarrow> bool" where
  "inv_data s \<longleftrightarrow>
     length (ul_queue s) \<le> QUEUE_CAPACITY
     \<and> (if reading (ul_reader s) then ul_reads s = ul_taken s @ ul_queue s @ pending_item (ul_reader s)
        else ul_reads s = ul_taken s @ ul_queue s \<or> (\<exists>x. ul_reads s = ul_taken s @ ul_queue s @ [x]))
     \<and> list_all going_on (butlast (ul_reads s))
     \<and> (ul_reader s \<in> {R_Unborn, R_Test, R_Readline} \<longrightarrow> list_all going_on (ul_reads s))"

definition inv_returned :: "lifecycle \<Rightarrow> bool" where
  "inv_returned s \<longleftrightarrow>
     (Fetched [] \<notin> set (ul_returned s) \<longrightarrow> ul_returned s = ul_taken s)
     \<and> prefix (takeWhile (\<lambda>x. x \<noteq> Fetched []) (ul_returned s)) (ul_taken s)"

definition inv_close :: "lifecycle \<Rightarrow> bool" where
  "inv_close s \<longleftrightarrow>
     ul_close_calls s + ul_closing s + (if ul_reader s = R_Close_Response then 1 else 0)
         = (if ul_response_closed s then 1 else 0)
     \<and> ul_closed s = ul_response_closed s
     \<and> (ul_started s \<longleftrightarrow> ul_reader s \<noteq> R_Unborn)
     \<and> (ul_reader s \<in> {R_Close_Response, R_Done} \<longrightarrow> ul_closed s)"

lemmas reader_defs = reader_step_def read_test_def read_outcome_def put_test_def put_def after_put_def
  reader_close_def close_locked_def close_response_def goto_def Let_def

lemmas consumer_defs = consumer_step_def get_def timed_out_def return_item_def

lemmas other_defs = call_get_def start_def outside_close_def close_locked_def close_response_def join_reader_def Let_def

text \<open>The reader.\<close>

lemma data_test: "inv_data s \<Longrightarrow> ul_reader s = R_Test \<Longrightarrow> inv_data (read_test s)"
  by (auto simp: inv_data_def read_test_def goto_def reading_def pending_item_def)

lemma data_outcome: "inv_data s \<Longrightarrow> ul_reader s = R_Readline \<Longrightarrow> inv_data (read_outcome x s)"
  by (cases x) (auto simp: inv_data_def read_outcome_def goto_def reading_def pending_item_def butlast_append Let_def)

lemma data_put_test: "inv_data s \<Longrightarrow> ul_reader s = R_Put_Test y \<Longrightarrow> inv_data (put_test y s)"
  by (auto simp: inv_data_def put_test_def goto_def reading_def pending_item_def)

lemma data_put: "inv_data s \<Longrightarrow> ul_reader s = R_Put y \<Longrightarrow> inv_data (put y s)"
  by (auto simp: inv_data_def put_def after_put_def goto_def reading_def pending_item_def butlast_append going_on_def
      split: queued.split)

lemma data_reader: "inv_data s \<Longrightarrow> inv_data (reader_step x s)"
proof (cases "ul_reader s")
  case R_Finally
  then show "inv_data s \<Longrightarrow> ?thesis"
    by (auto simp: reader_defs inv_data_def reading_def)
next
  case R_Close_Response
  then show "inv_data s \<Longrightarrow> ?thesis"
    by (auto simp: reader_defs inv_data_def reading_def)
qed (simp_all add: reader_step_def data_test data_outcome data_put_test data_put)

lemma data_consumer: "inv_data s \<Longrightarrow> inv_data (consumer_step s)"
  by (auto simp: inv_data_def consumer_defs split: consumer_pc.split list.split)

lemma data_cong:
  "inv_data s \<Longrightarrow> ul_queue s' = ul_queue s \<Longrightarrow> ul_reads s' = ul_reads s \<Longrightarrow> ul_taken s' = ul_taken s \<Longrightarrow>
   ul_reader s' = ul_reader s \<Longrightarrow> inv_data s'"
  by (simp add: inv_data_def)

lemma data_call: "inv_data s \<Longrightarrow> inv_close s \<Longrightarrow> inv_data (call_get b s)"
  by (cases "ul_started s") (auto simp: inv_data_def inv_close_def call_get_def start_def reading_def pending_item_def)

lemma data_step: "inv_data s \<Longrightarrow> inv_close s \<Longrightarrow> inv_data (lifecycle_step x s)"
proof (cases x)
  case Join
  then show "inv_data s \<Longrightarrow> ?thesis" by (elim data_cong) (auto simp: join_reader_def Let_def)
next
  case (Call b)
  then show "inv_data s \<Longrightarrow> inv_close s \<Longrightarrow> ?thesis" by (simp add: data_call)
qed (auto simp: data_reader data_consumer data_call other_defs elim!: data_cong)

lemma returned_step: "inv_returned s \<Longrightarrow> inv_returned (lifecycle_step x s)"
proof (cases x)
  case (Reader y)
  then show "inv_returned s \<Longrightarrow> ?thesis"
    by (auto simp: inv_returned_def reader_defs split: reader_pc.split queued.split)
next
  case Consumer
  then show "inv_returned s \<Longrightarrow> ?thesis"
    by (auto simp: inv_returned_def consumer_defs takeWhile_append split: consumer_pc.split list.split)
qed (auto simp: inv_returned_def other_defs split: option.split)

lemma close_step: "inv_close s \<Longrightarrow> inv_close (lifecycle_step x s)"
proof (cases x)
  case (Reader y)
  then show "inv_close s \<Longrightarrow> ?thesis"
    by (cases "ul_reader s") (auto simp: inv_close_def reader_defs split: queued.split)
next
  case Consumer
  then show "inv_close s \<Longrightarrow> ?thesis"
    by (auto simp: inv_close_def consumer_defs split: consumer_pc.split list.split)
qed (auto simp: inv_close_def other_defs split: option.split)

text \<open>An empty line is not invented while the stream is live.\<close>

definition inv_end :: "lifecycle \<Rightarrow> bool" where
  "inv_end s \<longleftrightarrow>
     (ul_cancel s \<longrightarrow> ul_cancel_raised s)
     \<and> (Fetched [] \<in> set (ul_returned s) \<longrightarrow> Fetched [] \<in> set (ul_taken s) \<or> ul_closed s \<or> ul_cancel_raised s)"

lemma end_step: "inv_end s \<Longrightarrow> inv_end (lifecycle_step x s)"
proof (cases x)
  case (Reader y)
  then show "inv_end s \<Longrightarrow> ?thesis"
    by (auto simp: inv_end_def reader_defs split: reader_pc.split queued.split)
next
  case Consumer
  then show "inv_end s \<Longrightarrow> ?thesis"
    by (auto simp: inv_end_def consumer_defs cancelled_def split: consumer_pc.split list.split)
qed (auto simp: inv_end_def other_defs split: option.split)

lemma lifecycle_reachable_inv:
  "lifecycle_reachable s \<Longrightarrow> inv_data s \<and> inv_returned s \<and> inv_close s \<and> inv_end s"
proof (induction rule: lifecycle_reachable.induct)
  case lifecycle_created
  show ?case
    by (simp add: inv_data_def inv_returned_def inv_close_def inv_end_def new_lifecycle_def reading_def pending_item_def)
qed (simp add: data_step returned_step close_step end_step)

section \<open>Stopping\<close>

text \<open>How many steps the reader still has once the lifecycle is closed.\<close>

definition steps_left :: "reader_pc \<Rightarrow> nat" where
  "steps_left pc = (case pc of R_Unborn \<Rightarrow> 0 | R_Done \<Rightarrow> 0 | R_Close_Response \<Rightarrow> 1 | R_Finally \<Rightarrow> 2 | R_Test \<Rightarrow> 3
     | R_Put_Test _ \<Rightarrow> 3 | R_Put _ \<Rightarrow> 4 | R_Readline \<Rightarrow> 5)"

definition is_reader :: "lifecycle_op \<Rightarrow> bool" where
  "is_reader x \<longleftrightarrow> (case x of Reader _ \<Rightarrow> True | _ \<Rightarrow> False)"

lemma closed_stays: "ul_closed s \<Longrightarrow> ul_closed (lifecycle_step x s)"
proof (cases x)
  case (Reader y)
  then show "ul_closed s \<Longrightarrow> ?thesis" by (auto simp: reader_defs split: reader_pc.split queued.split)
next
  case Consumer
  then show "ul_closed s \<Longrightarrow> ?thesis" by (auto simp: consumer_defs split: consumer_pc.split list.split)
qed (auto simp: other_defs split: option.split)

lemma reader_counts_down:
  "ul_closed s \<Longrightarrow> steps_left (ul_reader (reader_step x s)) \<le> steps_left (ul_reader s) - 1"
  by (cases "ul_reader s"; cases x)
    (auto simp: reader_defs cancelled_def steps_left_def split: queued.split)

lemma others_keep_reader:
  "ul_closed s \<Longrightarrow> \<not> is_reader x \<Longrightarrow> ul_reader (lifecycle_step x s) = ul_reader s"
proof (cases x)
  case Consumer
  then show ?thesis by (auto simp: consumer_defs split: consumer_pc.split list.split)
qed (auto simp: is_reader_def other_defs split: option.split)

lemma run_counts_down:
  "ul_closed s \<Longrightarrow>
   steps_left (ul_reader (lifecycle_run ops s)) \<le> steps_left (ul_reader s) - length (filter is_reader ops)"
proof (induction ops arbitrary: s)
  case (Cons x ops)
  have run: "lifecycle_run (x # ops) s = lifecycle_run ops (lifecycle_step x s)" by (simp add: lifecycle_run_def)
  have less: "steps_left (ul_reader (lifecycle_step x s)) \<le> steps_left (ul_reader s) - (if is_reader x then 1 else 0)"
  proof (cases "is_reader x")
    case True
    then show ?thesis using reader_counts_down [OF Cons.prems] by (cases x) (auto simp: is_reader_def)
  next
    case False
    then show ?thesis using others_keep_reader [OF Cons.prems False] by simp
  qed
  from Cons.IH [OF closed_stays [OF Cons.prems, of x]] less show ?case unfolding run by (auto split: if_splits)
qed (simp add: lifecycle_run_def)

lemma steps_left_at_most: "steps_left pc \<le> 5"
  by (cases pc) (auto simp: steps_left_def)

lemma steps_left_none: "steps_left pc = 0 \<longleftrightarrow> pc = R_Unborn \<or> pc = R_Done"
  by (cases pc) (auto simp: steps_left_def)

section \<open>Properties\<close>

text \<open>C11: lines arrive in order and unchanged.  In every interleaving of the reader, the consumer, callers that close
  and a caller that cancels, what the consumer is given before its first empty line is a prefix of what
  upstream delivered, and only the last item upstream delivered ends the stream; an empty line is
  given only when upstream ended, somebody closed or the caller cancelled.
\<close>

theorem lines_in_order:
  assumes "lifecycle_reachable s"
  shows "prefix (takeWhile (\<lambda>x. x \<noteq> Fetched []) (ul_returned s)) (ul_reads s)
    \<and> list_all going_on (butlast (ul_reads s))
    \<and> (Fetched [] \<in> set (ul_returned s) \<longrightarrow> Fetched [] \<in> set (ul_reads s) \<or> ul_closed s \<or> ul_cancel_raised s)"
proof -
  note inv = lifecycle_reachable_inv [OF assms]
  then have "prefix (ul_taken s) (ul_reads s)" by (auto simp: inv_data_def split: if_splits)
  with inv show ?thesis
    by (auto simp: inv_returned_def inv_data_def inv_end_def intro: prefix_order.trans dest: set_mono_prefix)
qed

text \<open>the reader is never far ahead: the queue holds at most 32 items, and at most 33 more items were
  read from upstream than the consumer has taken, however slow it is.
\<close>

theorem reader_stays_near:
  assumes "lifecycle_reachable s"
  shows "queue_depth s \<le> 32 \<and> length (ul_reads s) \<le> length (ul_taken s) + 33"
proof -
  have "inv_data s" using lifecycle_reachable_inv [OF assms] by simp
  then show ?thesis
    by (cases "ul_reader s") (auto simp: inv_data_def queue_depth_def QUEUE_CAPACITY_def reading_def pending_item_def)
qed

text \<open>the upstream response is closed exactly once: never twice, whoever closes and however often, and once
  the lifecycle is closed and nobody is about to call it, the call was made.  A reader that is done has closed.
\<close>

theorem response_closed_once:
  assumes "lifecycle_reachable s"
  shows "ul_close_calls s \<le> 1
    \<and> (ul_closed s \<and> ul_closing s = 0 \<and> ul_reader s \<noteq> R_Close_Response \<longrightarrow> ul_close_calls s = 1)
    \<and> (ul_reader s = R_Done \<longrightarrow> ul_closed s)"
  using lifecycle_reachable_inv [OF assms] by (auto simp: inv_close_def split: if_splits)

text \<open>C29: a close stops both sides.  From any closed state, after five steps of the reader, between which anything
  may happen, the thread is gone (a line it is waiting for counts as one step); and a consumer waiting
  on an empty queue returns the empty line at its second step.
\<close>

theorem close_stops_both:
  assumes "ul_closed s"
  shows "(5 \<le> length (filter is_reader ops) \<longrightarrow> \<not> reader_alive (lifecycle_run ops s))
    \<and> (ul_consumer s = C_Get limited \<and> ul_queue s = [] \<longrightarrow>
         ul_returned (lifecycle_run [Consumer, Consumer] s) = ul_returned s @ [Fetched []])"
proof -
  have "steps_left (ul_reader (lifecycle_run ops s)) = 0" if "5 \<le> length (filter is_reader ops)"
    using run_counts_down [OF assms, of ops] steps_left_at_most [of "ul_reader s"] that by linarith
  then have "5 \<le> length (filter is_reader ops) \<longrightarrow> \<not> reader_alive (lifecycle_run ops s)"
    by (auto simp: reader_alive_def steps_left_none)
  moreover have "ul_returned (lifecycle_run [Consumer, Consumer] s) = ul_returned s @ [Fetched []]"
    if "ul_consumer s = C_Get limited" "ul_queue s = []"
    using that assms by (simp add: lifecycle_run_def consumer_defs cancelled_def)
  ultimately show ?thesis by blast
qed

text \<open>C13: the end of a stream can be lost.  Although nobody closes or cancels, the consumer's \<open>get\<close> may time out
  just before the reader queues the last items and closes; its test then finds the lifecycle closed and
  it returns the empty line with the items still in the queue.  A last line is not delivered, and a failure of
  upstream looks like a regular end.
\<close>

definition race :: "queued list \<Rightarrow> lifecycle" where
  "race xs = lifecycle_run
     ([Call False, Reader (Fetched []), Consumer]
      @ concat (map (\<lambda>x. [Reader x, Reader x, Reader x, Reader x]) xs) @ [Consumer]) new_lifecycle"

lemmas race_defs = race_def lifecycle_run_def new_lifecycle_def other_defs reader_defs consumer_defs cancelled_def QUEUE_CAPACITY_def

theorem end_of_stream_lost:
  "lifecycle_reachable (race xs)
    \<and> ul_reads (race [Fetched (c # l), Fetched []]) = [Fetched (c # l), Fetched []]
    \<and> iter_lines (ul_returned (race [Fetched (c # l), Fetched []])) = ([[]], None)
    \<and> ul_reads (race [Failed e]) = [Failed e]
    \<and> iter_lines (ul_returned (race [Failed e])) = ([[]], None)
    \<and> \<not> ul_cancel_raised (race [Failed e]) \<and> ul_close_calls (race [Failed e]) = 0"
proof (intro conjI)
  show "lifecycle_reachable (race xs)"
    unfolding race_def by (intro lifecycle_run_reachable lifecycle_created)
qed (simp_all add: race_defs readline_result_def)

section \<open>Witnesses\<close>

text \<open>Two lines read, one taken, then a close.\<close>

definition sample_run :: "lifecycle_op list" where
  "sample_run =
     [Call False] @ replicate 8 (Reader (Fetched ''data: 1'')) @ [Consumer, Close, Close_Response, Call False]"

definition sample_lifecycle :: lifecycle where
  "sample_lifecycle = lifecycle_run sample_run new_lifecycle"

lemma sample_reachable: "lifecycle_reachable sample_lifecycle"
  unfolding sample_lifecycle_def by (intro lifecycle_run_reachable lifecycle_created)

lemma lines_in_order_witness:
  "ul_returned sample_lifecycle = [Fetched ''data: 1''] \<and>
   prefix (takeWhile (\<lambda>x. x \<noteq> Fetched []) (ul_returned sample_lifecycle)) (ul_reads sample_lifecycle)"
  using lines_in_order [OF sample_reachable] by (simp, code_simp)

lemma reader_stays_near_witness:
  "queue_depth sample_lifecycle = 1 \<and> length (ul_reads sample_lifecycle) \<le> length (ul_taken sample_lifecycle) + 33"
  using reader_stays_near [OF sample_reachable] by (simp, code_simp)

lemma response_closed_once_witness: "ul_closed sample_lifecycle \<and> ul_close_calls sample_lifecycle = 1"
proof -
  have "ul_closed sample_lifecycle \<and> ul_closing sample_lifecycle = 0 \<and> ul_reader sample_lifecycle \<noteq> R_Close_Response"
    by code_simp
  with response_closed_once [OF sample_reachable] show ?thesis by blast
qed

lemma close_stops_both_witness:
  "reader_alive sample_lifecycle \<and> \<not> reader_alive (lifecycle_run (replicate 5 (Reader (Fetched ''x''))) sample_lifecycle)"
proof -
  have "ul_closed sample_lifecycle \<and> reader_alive sample_lifecycle" by code_simp
  with close_stops_both [of sample_lifecycle "replicate 5 (Reader (Fetched ''x''))"] show ?thesis
    by (simp add: is_reader_def)
qed

end
