(* ===== verification/Transport_Phase.thy ===== *)
theory Transport_Phase
  imports Py_Number
begin

text \<open>
  In which phase of an upstream attempt an exception arose: \<open>explicit_transport_phase\<close> of
  \<open>src-python/gateway_http_pool.py\<close>, and \<open>transport_failure_phase\<close>, \<open>retry_safety_failure_phase\<close> and
  \<open>_diagnostic_phase_name\<close> of \<open>src-python/gateway_transport.py\<close>.

  An exception is its class, the phase tag somebody left on it, its text as \<open>_redact_error_detail\<close> prints
  it, and the exceptions it refers to.  The exceptions behind one form a tree here; Python may share
  them, and the code's set of identities then only saves it looking twice.  A class stands for itself
  and those of its subclasses that are not listed.
\<close>

section \<open>Exceptions\<close>

text \<open>
  What an \<open>HTTPError\<close> carries: the status, the response headers, the body as far as it could be read,
  and how the \<open>Retry-After\<close> header reads (as a number, as a date, or as neither).
\<close>

datatype retry_after = Seconds pyfloat | Http_Date rat | Unreadable

record http_error =
  he_code :: "int option"
  he_headers :: "(string \<times> string) list"
  he_body :: bytes
  he_retry_after :: "retry_after"

datatype exn_kind =
    Http_Error "http_error"
  | Url_Error
  | Incomplete_Read
  | Remote_Disconnected
  | Broken_Pipe
  | Connection_Refused
  | Name_Resolution
  | Ssl_Eof
  | Cert_Verification
  | Ssl_Error
  | Stream_Idle_Timeout
  | Pre_Response_Budget_Exhausted
  | Timeout_Error
  | Os_Error
  | Stream_Incomplete
  | Empty_Completed
  | Compact_Empty
  | Stream_Error_Event "obj option"
  | Stream_Interrupted
  | Lifecycle_Empty_Final
  | Lifecycle_Final_Format
  | Downstream_Closed_Before_Retry
  | Other_Exception

text \<open>
  The last two arguments: \<open>exc.reason\<close> of a \<open>URLError\<close> when it is an exception, \<open>exc.cause\<close> of an interrupted
  stream; and the exceptions among \<open>__cause__\<close>, \<open>__context__\<close> and \<open>args\<close>, in that order.
\<close>

datatype exn =
  Exn (exn_kind: "exn_kind") (exn_tag: "string option") (exn_detail: string) (exn_inner: "exn option")
    (exn_links: "exn list")

definition is_ssl_error :: "exn_kind \<Rightarrow> bool" where
  "is_ssl_error k \<longleftrightarrow> (case k of Ssl_Eof \<Rightarrow> True | Cert_Verification \<Rightarrow> True | Ssl_Error \<Rightarrow> True | _ \<Rightarrow> False)"

definition is_timeout_error :: "exn_kind \<Rightarrow> bool" where
  "is_timeout_error k \<longleftrightarrow>
     (case k of Stream_Idle_Timeout \<Rightarrow> True | Pre_Response_Budget_Exhausted \<Rightarrow> True | Timeout_Error \<Rightarrow> True | _ \<Rightarrow> False)"

definition is_url_error :: "exn_kind \<Rightarrow> bool" where
  "is_url_error k \<longleftrightarrow> (case k of Http_Error _ \<Rightarrow> True | Url_Error \<Rightarrow> True | _ \<Rightarrow> False)"

definition is_os_error :: "exn_kind \<Rightarrow> bool" where
  "is_os_error k \<longleftrightarrow> is_ssl_error k \<or> is_timeout_error k \<or> is_url_error k \<or>
     (case k of Remote_Disconnected \<Rightarrow> True | Broken_Pipe \<Rightarrow> True | Connection_Refused \<Rightarrow> True
      | Name_Resolution \<Rightarrow> True | Os_Error \<Rightarrow> True | _ \<Rightarrow> False)"

definition is_http_error :: "exn \<Rightarrow> bool" where
  "is_http_error e \<longleftrightarrow> (case exn_kind e of Http_Error _ \<Rightarrow> True | _ \<Rightarrow> False)"

definition reason_exception :: "exn \<Rightarrow> exn option" where
  "reason_exception e = (if exn_kind e = Url_Error then exn_inner e else None)"

definition interrupted_cause :: "exn \<Rightarrow> exn option" where
  "interrupted_cause e = (if exn_kind e = Stream_Interrupted then exn_inner e else None)"

section \<open>The tagged phase\<close>

definition SUPPORTED_TRANSPORT_PHASES :: "string list" where
  "SUPPORTED_TRANSPORT_PHASES =
     [''dns'', ''tcp_connect'', ''tls_handshake'', ''request_write'', ''response_headers'', ''response_body'',
      ''stream_body'']"

definition supported_tag :: "exn \<Rightarrow> string option" where
  "supported_tag e =
     (case exn_tag e of Some p \<Rightarrow> if p \<in> set SUPPORTED_TRANSPORT_PHASES then Some p else None | None \<Rightarrow> None)"

definition referred :: "exn \<Rightarrow> exn list" where
  "referred e = (case reason_exception e of Some r \<Rightarrow> r # exn_links e | None \<Rightarrow> exn_links e)"

lemma size_reason: "reason_exception e = Some r \<Longrightarrow> size r < size e"
  by (cases e) (auto simp: reason_exception_def split: if_splits)

lemma size_cause: "interrupted_cause e = Some c \<Longrightarrow> size c < size e"
  by (cases e) (auto simp: interrupted_cause_def split: if_splits)

lemma size_referred: "size_list size (referred e) < size e"
  by (cases e) (auto simp: referred_def reason_exception_def split: option.splits)

function search_phase :: "exn list \<Rightarrow> string option" where
  "search_phase [] = None"
| "search_phase (e # pending) =
     (case supported_tag e of Some p \<Rightarrow> Some p | None \<Rightarrow> search_phase (pending @ referred e))"
  by pat_completeness auto
termination
proof (relation "measure (size_list size)", goal_cases)
  case (2 e pending)
  show ?case using size_referred [of e] by (simp add: size_list_append)
qed simp

definition explicit_transport_phase :: "exn option \<Rightarrow> string option" where
  "explicit_transport_phase e = search_phase (case e of None \<Rightarrow> [] | Some x \<Rightarrow> [x])"

section \<open>The phase guessed from class and text\<close>

fun before :: "string \<Rightarrow> string \<Rightarrow> string" where
  "before needle [] = []"
| "before needle (c # cs) = (if prefix needle (c # cs) then [] else c # before needle cs)"

definition take_codes :: "nat \<Rightarrow> string \<Rightarrow> string" where
  "take_codes n s = (case utf8_codes s of None \<Rightarrow> take n s | Some cps \<Rightarrow> utf8_of (take n cps))"

definition redact_error_detail :: "exn \<Rightarrow> string" where
  "redact_error_detail e =
     (let detail = map (\<lambda>c. if c = CR \<or> c = LF then CHR '' '' else c) (exn_detail e)
      in take_codes 300
           (if contains ''Bearer '' detail then before ''Bearer '' detail @ ''Bearer [redacted]'' else detail))"

definition phase_of_detail :: "string \<Rightarrow> string option" where
  "phase_of_detail detail =
     (let mentions = (\<lambda>needles. \<exists>n \<in> set needles. contains n detail)
      in if mentions [''unexpected_eof'', ''ssleoferror'', ''eof occurred in violation''] then Some ''tls_handshake''
         else if mentions [''timed out'', ''timeout'', ''winerror 10060''] then Some ''tcp_connect''
         else if mentions [''connection reset'', ''connectionreseterror'', ''winerror 10054''] then Some ''request_write''
         else None)"

definition class_phase :: "exn_kind \<Rightarrow> string option" where
  "class_phase k =
     (case k of
        Http_Error _ \<Rightarrow> Some ''response_headers''
      | Remote_Disconnected \<Rightarrow> Some ''response_headers''
      | Broken_Pipe \<Rightarrow> Some ''request_write''
      | Incomplete_Read \<Rightarrow> Some ''response_headers''
      | _ \<Rightarrow> if is_ssl_error k then Some ''tls_handshake''
             else if is_timeout_error k then Some ''tcp_connect'' else None)"

definition guessed_phase :: "exn \<Rightarrow> string option" where
  "guessed_phase e =
     (case class_phase (exn_kind e) of
        Some p \<Rightarrow> Some p
      | None \<Rightarrow>
          (case phase_of_detail (py_lower (redact_error_detail e)) of
             Some p \<Rightarrow> Some p
           | None \<Rightarrow> if is_os_error (exn_kind e) then Some ''tcp_connect'' else None))"

function transport_failure_phase :: "exn \<Rightarrow> string option" where
  "transport_failure_phase e =
     (case explicit_transport_phase (Some e) of
        Some p \<Rightarrow> Some p
      | None \<Rightarrow>
          (case reason_exception e of
             Some r \<Rightarrow> (case transport_failure_phase r of Some p \<Rightarrow> Some p | None \<Rightarrow> guessed_phase e)
           | None \<Rightarrow> guessed_phase e))"
  by pat_completeness auto
termination by (relation "measure size") (auto dest: size_reason)

declare transport_failure_phase.simps [simp del]

definition diagnostic_phase_name :: "string option \<Rightarrow> string option" where
  "diagnostic_phase_name p =
     (case p of
        None \<Rightarrow> None
      | Some t \<Rightarrow> dict_get [(''dns'', ''upstream_dns''), (''tcp_connect'', ''upstream_tcp''), (''tls'', ''upstream_tls''),
                      (''request_write'', ''upstream_request_write'')] t)"

section \<open>The phase that is proof\<close>

definition structural_phase :: "exn_kind \<Rightarrow> string option" where
  "structural_phase k =
     (case k of
        Stream_Incomplete \<Rightarrow> Some ''stream_body''
      | Empty_Completed \<Rightarrow> Some ''stream_body''
      | Stream_Error_Event _ \<Rightarrow> Some ''stream_body''
      | Http_Error _ \<Rightarrow> Some ''response_headers''
      | Incomplete_Read \<Rightarrow> Some ''response_headers''
      | Remote_Disconnected \<Rightarrow> Some ''response_headers''
      | Broken_Pipe \<Rightarrow> Some ''request_write''
      | Name_Resolution \<Rightarrow> Some ''dns''
      | Connection_Refused \<Rightarrow> Some ''tcp_connect''
      | Cert_Verification \<Rightarrow> Some ''tls_handshake''
      | _ \<Rightarrow> None)"

function retry_safety_failure_phase :: "exn \<Rightarrow> string option" where
  "retry_safety_failure_phase e =
     (case explicit_transport_phase (Some e) of
        Some p \<Rightarrow> Some p
      | None \<Rightarrow>
          (case structural_phase (exn_kind e) of
             Some p \<Rightarrow> Some p
           | None \<Rightarrow> (case reason_exception e of Some r \<Rightarrow> retry_safety_failure_phase r | None \<Rightarrow> None)))"
  by pat_completeness auto
termination by (relation "measure size") (auto dest: size_reason)

declare retry_safety_failure_phase.simps [simp del]

end
