(* ===== verification/Upstream_Failure.thy ===== *)
theory Upstream_Failure
  imports Transport_Phase
begin

text \<open>
  How a failed upstream attempt is classified: \<open>upstream_failure_class\<close>, \<open>retry_after_delay_seconds\<close> and
  \<open>_retry_safety_class\<close> of \<open>src-python/gateway_transport.py\<close>, with the vocabularies of
  \<open>src-python/route_primitives.py\<close>.  The sets of the code are lists here, of which only membership is
  asked.  What these functions may raise themselves is an \<open>escaped\<close>.
\<close>

section \<open>Vocabulary\<close>

datatype failure_class = Quick_Transient | Provider_Throttle | Provider_Overloaded | Permanent

datatype retry_safety =
  Safe_Prewrite | Guaranteed_Idempotent | Suppressed_Post_Write | Suppressed_Post_Exposure | Unknown_Safety

definition CAPACITY_RETRY_FAILURE_CLASSES :: "failure_class list" where
  "CAPACITY_RETRY_FAILURE_CLASSES = [Provider_Throttle, Provider_Overloaded]"

definition SUPPRESSED_RETRY_SAFETY_CLASSES :: "retry_safety list" where
  "SUPPRESSED_RETRY_SAFETY_CLASSES = [Suppressed_Post_Write, Suppressed_Post_Exposure, Unknown_Safety]"

definition TRANSIENT_HTTP_RETRY_STATUSES :: "int list" where
  "TRANSIENT_HTTP_RETRY_STATUSES =
     [408, 409, 421, 425, 429, 500, 502, 503, 504]"

definition PERMANENT_HTTP_ERROR_STATUSES :: "int list" where
  "PERMANENT_HTTP_ERROR_STATUSES =
     [400, 401, 403, 404, 405, 406, 407, 410, 411, 412, 413, 414, 415, 416, 417, 418, 422, 426, 428, 431,
      451, 501, 505]"

definition PERMANENT_UPSTREAM_ERROR_VALUES :: "string list" where
  "PERMANENT_UPSTREAM_ERROR_VALUES =
     [''400'', ''401'', ''402'', ''403'', ''404'', ''405'', ''406'', ''410'', ''413'', ''414'', ''415'',
      ''422'', ''451'', ''10003'', ''10004'', ''10005'', ''10013'', ''10014'', ''10015'', ''10016'',
      ''10019'', ''10163'', ''10404'', ''10907'', ''10910'', ''11200'', ''11201'', ''11221'',
      ''access_denied'', ''accessdeniedexception'', ''authentication_error'', ''bad_request'',
      ''badrequest'', ''billing_hard_limit_reached'', ''billing_not_active'', ''blocked_by_guardrail'',
      ''content_filter'', ''content_policy_violation'', ''context_length_exceeded'', ''forbidden'',
      ''guardrail_block'', ''incorrect_api_key'', ''insufficient_quota'', ''insufficient_balance'',
      ''insufficient_credits'', ''invalid_argument'', ''invalidargument'', ''invalid_api_key'',
      ''invalid_image'', ''invalid_key'', ''invalid_parameter'', ''invalid_parameters'',
      ''invalid_request'', ''invalid_request_error'', ''moderation'', ''model_not_found'',
      ''not_found_error'', ''payment_required'', ''permission_denied'', ''permission_error'',
      ''safety_violation'', ''unauthorized'', ''unsupported_image'', ''unsupported_parameter'',
      ''unsupported_country'', ''unsupported_value'', ''validation_error'', ''validationexception'']"

definition PERMANENT_UPSTREAM_ERROR_NEEDLES :: "string list" where
  "PERMANENT_UPSTREAM_ERROR_NEEDLES =
     [''billing'', ''content policy'', ''context length'', ''context_length'', ''country not supported'',
      ''incorrect api key'', ''insufficient balance'', ''insufficient credits'', ''insufficient quota'',
      ''invalid api key'', ''invalid argument'', ''invalid parameter'', ''maximum context'',
      ''maximum prompt'', ''prompt length'', ''moderation'', ''payment required'', ''permission denied'',
      ''safety'', ''schema'', ''sensitive'', ''token limit'', ''tokens exceed'', ''too many tokens'',
      ''unsupported country'', ''validation error'',
      ''token'' @ utf8_of [0x6570, 0x91CF, 0x8D85, 0x8FC7, 0x4E0A, 0x9650]]"

definition PERMANENT_UPSTREAM_AUTH_NEEDLES :: "string list" where
  "PERMANENT_UPSTREAM_AUTH_NEEDLES =
     [''access denied'', ''forbidden'', ''not authorized'', ''unauthorized'']"

definition PROVIDER_THROTTLE_ERROR_VALUES :: "string list" where
  "PROVIDER_THROTTLE_ERROR_VALUES =
     [''10007'', ''11202'', ''11203'', ''11210'', ''429'', ''rate_limit'', ''rate_limit_error'',
      ''rate_limit_exceeded'', ''rate_limit_reached'', ''resource_exhausted'', ''request_throttled'',
      ''throttled'', ''throttling'', ''throttlingexception'', ''too_many_requests'']"

definition PROVIDER_THROTTLE_ERROR_NEEDLES :: "string list" where
  "PROVIDER_THROTTLE_ERROR_NEEDLES =
     [''limit_requests'', ''qps'', ''rate limit'', ''rate_limit'', ''request limit'',
      ''requests per minute'', ''requests rate'', ''resource exhausted'', ''rpm'', ''rps'', ''throttl'',
      ''tokens per minute'', ''too many requests'', ''tpm'',
      utf8_of [0x6D41, 0x63A7],
      utf8_of [0x9650, 0x6D41]]"

definition PROVIDER_OVERLOADED_ERROR_VALUES :: "string list" where
  "PROVIDER_OVERLOADED_ERROR_VALUES =
     [''10008'', ''10009'', ''10010'', ''10011'', ''10012'', ''10110'', ''10222'', ''10223'', ''503'',
      ''529'', ''model_overloaded'', ''overloaded_error'', ''provider_unavailable'', ''server_overloaded'',
      ''service_unavailable'', ''serviceunavailable'', ''serviceunavailableexception'', ''unavailable'']"

definition PROVIDER_OVERLOADED_ERROR_NEEDLES :: "string list" where
  "PROVIDER_OVERLOADED_ERROR_NEEDLES =
     [''capacity'', ''engine node'', ''engineinternalerror'', ''invalid response'', ''lb'',
      ''model is down'', ''no available model provider'', ''overload'', ''overloaded'', ''queue'',
      ''queued'', ''server overloaded'', ''service unavailable'', ''system is busy'',
      ''temporarily unavailable'',
      utf8_of [0x5F15, 0x64CE, 0x8282, 0x70B9],
      utf8_of [0x6392, 0x961F],
      utf8_of [0x670D, 0x52A1, 0x5FD9]]"

section \<open>The text of a number\<close>

text \<open>
  \<open>str\<close> of a float: the shortest decimal that reads back as the double, of these the one nearest to it.
\<close>

definition decimal_exponent :: "rat \<Rightarrow> int" where
  "decimal_exponent a =
     (if 1 \<le> a then int (length (nat_text (nat \<lfloor>a\<rfloor>))) - 1
      else (case find (\<lambda>n. 1 \<le> a * 10 ^ n) [1..<400] of Some n \<Rightarrow> - int n | None \<Rightarrow> 0))"

definition strip_zeros :: "string \<Rightarrow> string" where
  "strip_zeros ds = rev (dropWhile (\<lambda>c. c = CHR ''0'') (rev ds))"

definition decimal_candidates :: "rat \<Rightarrow> nat \<Rightarrow> (int \<times> rat) list" where
  "decimal_candidates a k =
     (let unit = pow10 (decimal_exponent a - int k + 1);
          m = \<lfloor>a / unit\<rfloor>
      in filter (\<lambda>(d, v). 0 < d \<and> nearest_double v = Finite a)
           [(m, of_int m * unit), (m + 1, of_int (m + 1) * unit)])"

definition nearest_candidate :: "rat \<Rightarrow> (int \<times> rat) list \<Rightarrow> int" where
  "nearest_candidate a cs =
     (case cs of
        [] \<Rightarrow> 0
      | [(d, _)] \<Rightarrow> d
      | (d, v) # (d', v') # _ \<Rightarrow> if abs (v - a) < abs (v' - a) \<or> (abs (v - a) = abs (v' - a) \<and> even d) then d else d')"

definition shortest_decimal :: "rat \<Rightarrow> string \<times> int" where
  "shortest_decimal a =
     (case find (\<lambda>k. decimal_candidates a k \<noteq> []) [1..<18] of
        None \<Rightarrow> ([], 0)
      | Some k \<Rightarrow>
          (let ds = nat_text (nat (nearest_candidate a (decimal_candidates a k)))
           in (strip_zeros ds, decimal_exponent a + int (length ds) - int k)))"

definition decimal_text :: "string \<Rightarrow> int \<Rightarrow> string" where
  "decimal_text ds e =
     (let n = length ds
      in if 0 \<le> e \<and> e < 16 then
           (let k = nat e + 1
            in take k ds @ replicate (k - n) (CHR ''0'') @ ''.'' @ (if n \<le> k then ''0'' else drop k ds))
         else if - 4 \<le> e \<and> e < 0 then ''0.'' @ replicate (nat (- e) - 1) (CHR ''0'') @ ds
         else take 1 ds @ (if n \<le> 1 then [] else ''.'' @ drop 1 ds) @ ''e'' @ (if e < 0 then ''-'' else ''+'')
              @ (let x = nat_text (nat \<bar>e\<bar>) in replicate (2 - length x) (CHR ''0'') @ x))"

definition float_text :: "string \<Rightarrow> string" where
  "float_text t =
     (case float_of_text t of
        Not_A_Number \<Rightarrow> ''nan''
      | Infinite neg \<Rightarrow> (if neg then ''-inf'' else ''inf'')
      | Finite q \<Rightarrow>
          (if q = 0 then (if prefix ''-'' t then ''-0.0'' else ''0.0'')
           else (case shortest_decimal \<bar>q\<bar> of (ds, e) \<Rightarrow> (if q < 0 then ''-'' else []) @ decimal_text ds e)))"

section \<open>The values of an error payload\<close>

definition VALUE_KEYS :: "string list" where
  "VALUE_KEYS =
     [''__type'', ''code'', ''detail'', ''error_code'', ''error_type'', ''errorCode'', ''errorType'', ''message'',
      ''param'', ''reason'', ''status'', ''type'']"

definition value_texts :: "json \<Rightarrow> string list" where
  "value_texts v =
     (case v of
        JStr s \<Rightarrow> if s = [] then [] else [py_lower (str_strip s)]
      | JInt n \<Rightarrow> [int_text n]
      | JFloat t \<Rightarrow> [float_text t]
      | _ \<Rightarrow> [])"

definition listed_values :: "obj \<Rightarrow> string list" where
  "listed_values m = concat (map (\<lambda>k. case dict_get m k of Some v \<Rightarrow> value_texts v | None \<Rightarrow> []) VALUE_KEYS)"

definition nested_errors :: "obj \<Rightarrow> obj list" where
  "nested_errors m = (case dict_get m ''errors'' of Some (JArr vs) \<Rightarrow> List.map_filter json_object vs | _ \<Rightarrow> [])"

definition nested_response_error :: "obj \<Rightarrow> obj option" where
  "nested_response_error m =
     (case dict_get m ''response'' of
        Some (JObj r) \<Rightarrow> (case dict_get r ''error'' of Some (JObj e) \<Rightarrow> Some e | _ \<Rightarrow> None)
      | _ \<Rightarrow> None)"

lemma size_dict_get: "dict_get m k = Some v \<Longrightarrow> size v < size (JObj m)"
  by (induction m) (auto split: if_splits)

lemma size_element: "v \<in> set vs \<Longrightarrow> size v < size (JArr vs)"
  by (induction vs) auto

lemma size_nested_errors:
  assumes "o' \<in> set (nested_errors m)"
  shows "size (JObj o') < size (JObj m)"
proof -
  from assms obtain vs where vs: "dict_get m ''errors'' = Some (JArr vs)" "JObj o' \<in> set vs"
    by (cases "dict_get m ''errors''"; cases "the (dict_get m ''errors'')")
      (auto simp: nested_errors_def List.map_filter_def)
  from size_element [OF vs(2)] size_dict_get [OF vs(1)] show ?thesis by (rule less_trans)
qed

lemma size_nested_response:
  assumes "nested_response_error m = Some e"
  shows "size (JObj e) < size (JObj m)"
proof -
  from assms obtain r where r: "dict_get m ''response'' = Some (JObj r)" "dict_get r ''error'' = Some (JObj e)"
    by (cases "dict_get m ''response''"; cases "the (dict_get m ''response'')")
      (auto simp: nested_response_error_def split: option.splits json.splits)
  from size_dict_get [OF r(2)] size_dict_get [OF r(1)] show ?thesis by (rule less_trans)
qed

function mapping_values :: "obj \<Rightarrow> string list" where
  "mapping_values m =
     listed_values m @ concat (map mapping_values (nested_errors m))
       @ (case nested_response_error m of Some e \<Rightarrow> mapping_values e | None \<Rightarrow> [])"
  by pat_completeness auto
termination by (relation "measure (\<lambda>m. size (JObj m))") (auto dest: size_nested_errors size_nested_response)

declare mapping_values.simps [simp del]

definition payload_error_values :: "obj option \<Rightarrow> string list" where
  "payload_error_values payload =
     (case payload of
        None \<Rightarrow> []
      | Some m \<Rightarrow>
          (case dict_get m ''error'' of
             Some (JObj e) \<Rightarrow> mapping_values e
           | Some (JStr s) \<Rightarrow> if s = [] then [] else [py_lower (str_strip s)]
           | _ \<Rightarrow> []) @ mapping_values m)"

definition values_contain :: "string list \<Rightarrow> string list \<Rightarrow> bool" where
  "values_contain values needles \<longleftrightarrow> list_ex (\<lambda>v. list_ex (\<lambda>n. contains n v) needles) values"

definition values_among :: "string list \<Rightarrow> string list \<Rightarrow> bool" where
  "values_among values names \<longleftrightarrow> list_ex (\<lambda>v. v \<in> set names) values"

definition failure_class_from_error_values :: "string list \<Rightarrow> failure_class option" where
  "failure_class_from_error_values values =
     (if values = [] then None
      else if values_among values PERMANENT_UPSTREAM_ERROR_VALUES then Some Permanent
      else if values_contain values PERMANENT_UPSTREAM_ERROR_NEEDLES then Some Permanent
      else if values_among values PROVIDER_THROTTLE_ERROR_VALUES
           \<or> values_contain values PROVIDER_THROTTLE_ERROR_NEEDLES then Some Provider_Throttle
      else if values_among values PROVIDER_OVERLOADED_ERROR_VALUES
           \<or> values_contain values PROVIDER_OVERLOADED_ERROR_NEEDLES then Some Provider_Overloaded
      else if values_contain values PERMANENT_UPSTREAM_AUTH_NEEDLES then Some Permanent
      else None)"

section \<open>HTTP errors\<close>

datatype escaped = Integer_Text_Too_Long | Ceiling_Of_Infinity | Ceiling_Of_Nan

definition get_header :: "(string \<times> string) list \<Rightarrow> string \<Rightarrow> string option" where
  "get_header headers name =
     map_option snd (find (\<lambda>(key, value). py_lower key = py_lower name) headers)"

definition http_retry_header_override :: "http_error \<Rightarrow> bool option" where
  "http_retry_header_override h =
     (case get_header (he_headers h) ''x-should-retry'' of
        None \<Rightarrow> None
      | Some value \<Rightarrow>
          (let normalized = py_lower (str_strip value)
           in if normalized \<in> {''true'', ''1'', ''yes'', ''on''} then Some True
              else if normalized \<in> {''false'', ''0'', ''no'', ''off''} then Some False
              else None))"

definition http_error_payload :: "http_error \<Rightarrow> escaped + obj option" where
  "http_error_payload h =
     (if he_body h = [] then Inr None
      else (case load_bytes (he_body h) of
              Loaded v \<Rightarrow> Inr (json_object v)
            | Bad_Json \<Rightarrow> Inr None
            | Int_Too_Long \<Rightarrow> Inl Integer_Text_Too_Long))"

definition http_error_values :: "http_error \<Rightarrow> escaped + string list" where
  "http_error_values h = rbind (http_error_payload h) (\<lambda>p. Inr (payload_error_values p))"

definition status_allows_capacity_error_value :: "int option \<Rightarrow> bool" where
  "status_allows_capacity_error_value status =
     (case status of None \<Rightarrow> True | Some n \<Rightarrow> n = 400 \<or> n \<notin> set PERMANENT_HTTP_ERROR_STATUSES)"

definition status_in :: "int option \<Rightarrow> int list \<Rightarrow> bool" where
  "status_in status codes = (case status of None \<Rightarrow> False | Some n \<Rightarrow> n \<in> set codes)"

definition http_failure_class :: "int option \<Rightarrow> bool option \<Rightarrow> failure_class option \<Rightarrow> failure_class" where
  "http_failure_class status override value_class =
     (if (value_class = Some Provider_Throttle \<or> value_class = Some Provider_Overloaded)
         \<and> status_allows_capacity_error_value status then the value_class
      else if value_class = Some Permanent \<and> override \<noteq> Some True then Permanent
      else if status_in status PERMANENT_HTTP_ERROR_STATUSES then
        (if override = Some True then Quick_Transient else Permanent)
      else if status = Some 429 then
        (if value_class = Some Permanent then Permanent else Provider_Throttle)
      else if status = Some 503 then Provider_Overloaded
      else if override = Some True then Quick_Transient
      else if status_in status TRANSIENT_HTTP_RETRY_STATUSES then Quick_Transient
      else (case status of
              Some n \<Rightarrow> if 520 \<le> n \<and> n \<le> 599 then Quick_Transient else Permanent
            | None \<Rightarrow> Permanent))"

definition http_error_class :: "http_error \<Rightarrow> escaped + failure_class" where
  "http_error_class h =
     (if http_retry_header_override h = Some False then Inr Permanent
      else rbind (http_error_values h) (\<lambda>values.
             Inr (http_failure_class (he_code h) (http_retry_header_override h)
                    (failure_class_from_error_values values))))"

section \<open>The class of a failure\<close>

definition transient_class :: "exn_kind \<Rightarrow> failure_class" where
  "transient_class k =
     (if is_os_error k \<or> k = Compact_Empty \<or> k = Incomplete_Read \<or> k = Stream_Incomplete
        \<or> k = Empty_Completed then Quick_Transient
      else Permanent)"

function upstream_failure_class :: "exn \<Rightarrow> escaped + failure_class" where
  "upstream_failure_class e =
     (case interrupted_cause e of
        Some c \<Rightarrow> upstream_failure_class c
      | None \<Rightarrow>
          (case exn_kind e of
             Stream_Error_Event payload \<Rightarrow>
               Inr (case failure_class_from_error_values (payload_error_values payload) of
                      Some c \<Rightarrow> c
                    | None \<Rightarrow> Quick_Transient)
           | Http_Error h \<Rightarrow> http_error_class h
           | k \<Rightarrow> Inr (transient_class k)))"
  by pat_completeness auto
termination by (relation "measure size") (auto dest: size_cause)

declare upstream_failure_class.simps [simp del]

definition ceiling_seconds :: "pyfloat \<Rightarrow> escaped + int" where
  "ceiling_seconds f =
     (case f of
        Finite q \<Rightarrow> Inr (max 0 \<lceil>q\<rceil>)
      | Infinite _ \<Rightarrow> Inl Ceiling_Of_Infinity
      | Not_A_Number \<Rightarrow> Inl Ceiling_Of_Nan)"

definition retry_after_delay_seconds :: "rat \<Rightarrow> exn \<Rightarrow> escaped + int option" where
  "retry_after_delay_seconds now e =
     (case exn_kind e of
        Http_Error h \<Rightarrow>
          (case get_header (he_headers h) ''retry-after'' of
             None \<Rightarrow> Inr None
           | Some value \<Rightarrow>
               if str_strip value = [] then Inr None
               else (case he_retry_after h of
                       Seconds f \<Rightarrow> rbind (ceiling_seconds f) (\<lambda>n. Inr (Some n))
                     | Http_Date moment \<Rightarrow> Inr (Some (max 0 \<lceil>moment - now\<rceil>))
                     | Unreadable \<Rightarrow> Inr None))
      | _ \<Rightarrow> Inr None)"

section \<open>Whether repeating a request is safe\<close>

definition OFFICIAL_UPSTREAM_NAME :: string where "OFFICIAL_UPSTREAM_NAME = ''official''"

definition RETRY_REQUEST_MAIN_GENERATION :: string where
  "RETRY_REQUEST_MAIN_GENERATION = ''main_generation''"

definition path_idempotency_guaranteed :: "string list \<Rightarrow> bool" where
  "path_idempotency_guaranteed path = False"

text \<open>\<open>request\<close> is its method, \<open>path\<close> the Model Access Path.\<close>

definition retry_safety_class ::
  "exn \<Rightarrow> string \<Rightarrow> string \<Rightarrow> string \<Rightarrow> bool \<Rightarrow> string list \<Rightarrow> string option \<Rightarrow> retry_safety" where
  "retry_safety_class e request upstream_name request_kind downstream_exposed path failure_phase =
     (if upstream_name = OFFICIAL_UPSTREAM_NAME \<or> request_kind \<noteq> RETRY_REQUEST_MAIN_GENERATION then Safe_Prewrite
      else if request \<noteq> ''POST'' then Safe_Prewrite
      else if downstream_exposed then Suppressed_Post_Exposure
      else if path_idempotency_guaranteed path then Guaranteed_Idempotent
      else
        (let phase = (case failure_phase of Some p \<Rightarrow> Some p | None \<Rightarrow> retry_safety_failure_phase e)
         in if phase \<in> {Some ''dns'', Some ''tcp_connect'', Some ''tls_handshake''} then Safe_Prewrite
            else if phase \<in> {Some ''request_write'', Some ''response_headers'', Some ''stream_body''}
              then Suppressed_Post_Write
            else Unknown_Safety))"

end
