(* ===== verification/Retry_Plan.thy ===== *)
theory Retry_Plan
  imports Upstream_Failure
begin

text \<open>
  How often and how late an upstream request is repeated: \<open>RetryExecutionPlan\<close> of
  \<open>src-python/route_plan.py\<close>, and what \<open>src-python/gateway_transport.py\<close> and
  \<open>src-python/gateway_settings.py\<close> compute when a request comes without a plan.  Seconds are rationals.
\<close>

section \<open>The plan\<close>

datatype retry_policy = Gateway_Full | Conservative_Pre_Output

datatype capability_state = Supported | Unsupported_Capability | Unqualified

record retry_plan =
  rp_eligibility :: capability_state
  rp_policy :: retry_policy
  rp_request_kind :: string
  rp_request_timeout :: rat
  rp_base_open_attempts :: int
  rp_base_relay_attempts :: int
  rp_failure_expansion :: int
  rp_attempts_configured :: bool
  rp_retry_http_errors :: bool
  rp_open_attempt_budget :: "int option"
  rp_capacity_elapsed_limit :: rat
  rp_stream_elapsed_limit :: rat
  rp_emit_retry_notice :: bool
  rp_pre_response_budget :: "rat option"
  rp_lifecycle_final_retry :: bool
  rp_empty_completed_max :: int

definition CAPACITY_RETRY_CADENCE_SECONDS :: "int list" where
  "CAPACITY_RETRY_CADENCE_SECONDS = [10, 20, 30, 60]"

definition attempts_for_failure_class :: "retry_plan \<Rightarrow> int \<Rightarrow> failure_class \<Rightarrow> bool \<Rightarrow> int" where
  "attempts_for_failure_class p base_attempts c stream_failure =
     (if base_attempts \<le> 1 \<or> rp_attempts_configured p then base_attempts
      else if c \<in> set CAPACITY_RETRY_FAILURE_CLASSES then max base_attempts (rp_failure_expansion p)
      else if stream_failure \<and> c = Quick_Transient then max base_attempts (rp_failure_expansion p)
      else base_attempts)"

definition open_attempts_for_failure_class :: "retry_plan \<Rightarrow> failure_class \<Rightarrow> int" where
  "open_attempts_for_failure_class p c =
     (if rp_open_attempt_budget p \<noteq> None then rp_base_open_attempts p
      else attempts_for_failure_class p (rp_base_open_attempts p) c False)"

definition relay_attempts_for_failure_class :: "retry_plan \<Rightarrow> failure_class \<Rightarrow> bool \<Rightarrow> int" where
  "relay_attempts_for_failure_class p c stream_failure =
     attempts_for_failure_class p (rp_base_relay_attempts p) c stream_failure"

definition elapsed_limit_allows :: "rat \<Rightarrow> rat \<Rightarrow> rat \<Rightarrow> bool" where
  "elapsed_limit_allows limit elapsed delay \<longleftrightarrow> limit \<le> 0 \<or> elapsed + delay \<le> limit"

definition capacity_elapsed_limit_allows :: "retry_plan \<Rightarrow> rat \<Rightarrow> rat \<Rightarrow> bool" where
  "capacity_elapsed_limit_allows p = elapsed_limit_allows (rp_capacity_elapsed_limit p)"

definition stream_elapsed_limit_allows :: "retry_plan \<Rightarrow> rat \<Rightarrow> rat \<Rightarrow> bool" where
  "stream_elapsed_limit_allows p = elapsed_limit_allows (rp_stream_elapsed_limit p)"

definition lifecycle_final_extra_attempts :: "retry_plan \<Rightarrow> obj option \<Rightarrow> int" where
  "lifecycle_final_extra_attempts p event_context = 0"

definition pre_response_deadline :: "retry_plan \<Rightarrow> rat \<Rightarrow> rat option" where
  "pre_response_deadline p started_at = map_option (\<lambda>b. started_at + b) (rp_pre_response_budget p)"

section \<open>Delays\<close>

definition capacity_retry_delay_seconds :: "int \<Rightarrow> int" where
  "capacity_retry_delay_seconds attempt =
     (let index = nat (max 1 attempt - 1)
      in if index < length CAPACITY_RETRY_CADENCE_SECONDS then CAPACITY_RETRY_CADENCE_SECONDS ! index
         else last CAPACITY_RETRY_CADENCE_SECONDS)"

definition retry_delay_seconds :: "int \<Rightarrow> failure_class \<Rightarrow> int option \<Rightarrow> int" where
  "retry_delay_seconds attempt c retry_after =
     (case retry_after of
        Some n \<Rightarrow> n
      | None \<Rightarrow>
          if c = Provider_Throttle then capacity_retry_delay_seconds attempt
          else min (max 1 (attempt - 1) * 2) 8)"

section \<open>The attempts counted across calls\<close>

record attempt_budget =
  ab_max_attempts :: int
  ab_attempts_started :: int

definition new_open_attempt_budget :: "retry_plan \<Rightarrow> attempt_budget option" where
  "new_open_attempt_budget p =
     map_option (\<lambda>n. \<lparr>ab_max_attempts = n, ab_attempts_started = 0\<rparr>) (rp_open_attempt_budget p)"

definition remaining_open_attempts :: "attempt_budget \<Rightarrow> int" where
  "remaining_open_attempts b = max 0 (ab_max_attempts b - ab_attempts_started b)"

section \<open>Without a plan\<close>

text \<open>What the settings of the gateway and its environment variables say for a kind of request.\<close>

record retry_settings =
  rs_attempts :: int
  rs_attempts_configured :: bool
  rs_auto_retry_max :: int
  rs_capacity_elapsed_limit :: rat

definition retry_attempts_for_failure_class ::
  "retry_settings \<Rightarrow> int \<Rightarrow> failure_class \<Rightarrow> bool \<Rightarrow> bool \<Rightarrow> int" where
  "retry_attempts_for_failure_class s base_attempts c explicit_max_attempts stream_failure =
     (if explicit_max_attempts \<or> base_attempts \<le> 1 \<or> rs_attempts_configured s then base_attempts
      else if c \<in> set CAPACITY_RETRY_FAILURE_CLASSES then max base_attempts (rs_auto_retry_max s)
      else if stream_failure \<and> c = Quick_Transient then max base_attempts (rs_auto_retry_max s)
      else base_attempts)"

definition capacity_retry_elapsed_limit_allows :: "retry_settings \<Rightarrow> rat \<Rightarrow> rat \<Rightarrow> int \<Rightarrow> bool" where
  "capacity_retry_elapsed_limit_allows s now started_at delay \<longleftrightarrow>
     rs_capacity_elapsed_limit s \<le> 0 \<or> now - started_at + of_int delay \<le> rs_capacity_elapsed_limit s"

section \<open>The time left before the response\<close>

definition remaining_pre_response_budget :: "rat option \<Rightarrow> rat \<Rightarrow> rat option" where
  "remaining_pre_response_budget deadline now = map_option (\<lambda>d. d - now) deadline"

text \<open>\<open>None\<close> when the time is used up, which raises.\<close>

definition clamp_timeout :: "rat \<Rightarrow> rat option \<Rightarrow> rat \<Rightarrow> rat option" where
  "clamp_timeout timeout deadline now =
     (case remaining_pre_response_budget deadline now of
        None \<Rightarrow> Some timeout
      | Some left \<Rightarrow> if left \<le> 0 then None else Some (min timeout left))"

definition delay_within_budget :: "rat option \<Rightarrow> int \<Rightarrow> rat \<Rightarrow> bool" where
  "delay_within_budget deadline delay now \<longleftrightarrow>
     (case remaining_pre_response_budget deadline now of None \<Rightarrow> True | Some left \<Rightarrow> of_int delay < left)"

definition budget_used_up :: "rat option \<Rightarrow> rat \<Rightarrow> bool" where
  "budget_used_up deadline now \<longleftrightarrow>
     (case remaining_pre_response_budget deadline now of None \<Rightarrow> False | Some left \<Rightarrow> left \<le> 0)"

end
