(* ===== verification/Upstream_Retry.thy ===== *)
theory Upstream_Retry
  imports Retry_Plan
begin

text \<open>
  \<open>_open_upstream_response\<close> of \<open>src-python/gateway_transport.py\<close>: the loop that opens an upstream request
  and repeats it.

  What happens during an attempt is a record: the answer of the transport, the readings of the clocks in
  the order the code takes them, whether the request is found cancelled at each place where the code
  asks, whether output has reached the client, and what the client's retry notice returned.  An
  attempt yields its events (diagnostics, retry events, what was sent to the transport), the attempts counted
  so far, and either a result or the order to try again.  Elapsed milliseconds, connection dispositions and
  response metadata of the diagnostics are left out, and so is the Model Access Path, which no decision
  depends on as long as no path is enrolled as idempotent.
\<close>

section \<open>A call\<close>

record open_call =
  oc_upstream_name :: string
  oc_method :: string
  oc_path :: "string list"
  oc_timeout :: rat
  oc_request_kind :: string
  oc_max_attempts :: "int option"
  oc_retry_policy :: retry_policy
  oc_retry_http_errors :: bool
  oc_execution :: "retry_plan option"
  oc_notice :: bool
  oc_deadline :: "rat option"

datatype open_error =
    Failure exn
  | Budget_Gone "string option" int
  | User_Requested_Shutdown
  | Downstream_Closed
  | Escaped_Error escaped

datatype open_event =
    Sent int rat
  | Response_Closed
  | Transport_Attached
  | Observed_Phase string int int bool
  | Observed_Attempt int int bool "string option"
  | Observed_Headers
  | Retry_Suppressed int int failure_class "string option" retry_safety
  | Retry_Scheduled int int int failure_class "string option" retry_safety
  | Notice int int
  | Slept int

datatype open_outcome = Responds | Raises exn

record attempt_env =
  ae_cancelled_first :: bool
  ae_clock_clamp :: rat
  ae_outcome :: open_outcome
  ae_clock_response :: rat
  ae_cancelled_response :: bool
  ae_cancelled_error :: bool
  ae_exposed :: bool
  ae_clock_error :: rat
  ae_wall_clock :: rat
  ae_clock_elapsed :: rat
  ae_clock_capacity :: rat
  ae_clock_delay :: rat
  ae_noticed :: bool
  ae_cancelled_sleep :: bool

text \<open>What the code sets up before the loop: the call with the plan's values in it.\<close>

record loop_setup =
  ol_call :: open_call
  ol_settings :: retry_settings
  ol_base :: int
  ol_explicit :: bool
  ol_started_at :: rat

definition apply_plan :: "open_call \<Rightarrow> open_call" where
  "apply_plan c =
     (case oc_execution c of
        None \<Rightarrow> c
      | Some p \<Rightarrow> c\<lparr>oc_request_kind := rp_request_kind p, oc_retry_policy := rp_policy p,
                    oc_retry_http_errors := rp_retry_http_errors p, oc_timeout := rp_request_timeout p\<rparr>)"

definition base_retry_attempts :: "retry_settings \<Rightarrow> open_call \<Rightarrow> int" where
  "base_retry_attempts s c =
     (case oc_execution c of
        Some p \<Rightarrow> rp_base_open_attempts p
      | None \<Rightarrow> (case oc_max_attempts c of None \<Rightarrow> rs_attempts s | Some n \<Rightarrow> max 1 n))"

definition explicit_max_attempts :: "open_call \<Rightarrow> bool" where
  "explicit_max_attempts c =
     (case oc_execution c of Some p \<Rightarrow> rp_open_attempt_budget p \<noteq> None | None \<Rightarrow> oc_max_attempts c \<noteq> None)"

definition attempt_budget_of :: "open_call \<Rightarrow> attempt_budget option \<Rightarrow> attempt_budget option" where
  "attempt_budget_of c budget =
     (case budget of
        Some b \<Rightarrow> Some b
      | None \<Rightarrow> (case oc_execution c of Some p \<Rightarrow> new_open_attempt_budget p | None \<Rightarrow> None))"

section \<open>Numbers of an attempt\<close>

definition request_attempt :: "attempt_budget option \<Rightarrow> int \<Rightarrow> int" where
  "request_attempt budget attempt = (case budget of Some b \<Rightarrow> ab_attempts_started b + 1 | None \<Rightarrow> attempt)"

definition request_retry_budget :: "loop_setup \<Rightarrow> attempt_budget option \<Rightarrow> int" where
  "request_retry_budget l budget = (case budget of Some b \<Rightarrow> ab_max_attempts b | None \<Rightarrow> ol_base l)"

definition count_attempt :: "attempt_budget option \<Rightarrow> int \<Rightarrow> attempt_budget option" where
  "count_attempt budget n = map_option (\<lambda>b. b\<lparr>ab_attempts_started := n\<rparr>) budget"

definition retry_attempts :: "loop_setup \<Rightarrow> attempt_budget option \<Rightarrow> failure_class \<Rightarrow> int" where
  "retry_attempts l budget c =
     (case oc_execution (ol_call l) of
        Some p \<Rightarrow> (if budget \<noteq> None then min (ol_base l) (open_attempts_for_failure_class p c)
                   else open_attempts_for_failure_class p c)
      | None \<Rightarrow> retry_attempts_for_failure_class (ol_settings l) (ol_base l) c (ol_explicit l) False)"

definition error_retry_budget :: "loop_setup \<Rightarrow> attempt_budget option \<Rightarrow> failure_class \<Rightarrow> int" where
  "error_retry_budget l budget c =
     (case budget of Some b \<Rightarrow> ab_max_attempts b | None \<Rightarrow> retry_attempts l budget c)"

section \<open>A response\<close>

definition response_opened ::
  "loop_setup \<Rightarrow> attempt_budget option \<Rightarrow> int \<Rightarrow> attempt_env \<Rightarrow> open_event list \<times> (open_error + unit)" where
  "response_opened l budget n e =
     (if budget_used_up (oc_deadline (ol_call l)) (ae_clock_response e)
      then ([Response_Closed], Inl (Budget_Gone (Some ''response_headers'') n))
      else if ae_cancelled_response e then ([Transport_Attached], Inl User_Requested_Shutdown)
      else ([Transport_Attached, Observed_Phase ''upstream_request_write'' n (request_retry_budget l budget) True,
             Observed_Attempt n (request_retry_budget l budget) True None, Observed_Headers], Inr ()))"

section \<open>A failure\<close>

text \<open>\<open>except (HTTPError, IncompleteRead, OSError, URLError)\<close>\<close>

definition caught :: "exn \<Rightarrow> bool" where
  "caught x \<longleftrightarrow> is_os_error (exn_kind x) \<or> exn_kind x = Incomplete_Read"

definition safety_phase :: "exn \<Rightarrow> string" where
  "safety_phase x = (case retry_safety_failure_phase x of None \<Rightarrow> ''unknown'' | Some p \<Rightarrow> p)"

definition apply_retry_safety :: "open_call \<Rightarrow> bool" where
  "apply_retry_safety c \<longleftrightarrow> oc_upstream_name c \<noteq> OFFICIAL_UPSTREAM_NAME
     \<and> oc_request_kind c = RETRY_REQUEST_MAIN_GENERATION \<and> oc_method c = ''POST''"

definition telemetry_failure_phase :: "open_call \<Rightarrow> exn \<Rightarrow> string option" where
  "telemetry_failure_phase c x = (if apply_retry_safety c then Some (safety_phase x) else transport_failure_phase x)"

definition observed_failure_phase :: "loop_setup \<Rightarrow> attempt_budget option \<Rightarrow> int \<Rightarrow> exn \<Rightarrow> open_event list" where
  "observed_failure_phase l budget n x =
     (case diagnostic_phase_name (transport_failure_phase x) of
        None \<Rightarrow> []
      | Some name \<Rightarrow> [Observed_Phase name n (request_retry_budget l budget) False])"

definition failure_safety :: "open_call \<Rightarrow> bool \<Rightarrow> exn \<Rightarrow> retry_safety" where
  "failure_safety c exposed x =
     retry_safety_class x (oc_method c) (oc_upstream_name c) (oc_request_kind c) exposed (oc_path c)
       (Some (safety_phase x))"

definition capacity_allows :: "loop_setup \<Rightarrow> attempt_env \<Rightarrow> int \<Rightarrow> bool" where
  "capacity_allows l e delay =
     (case oc_execution (ol_call l) of
        Some p \<Rightarrow> capacity_elapsed_limit_allows p (max 0 (ae_clock_elapsed e - ol_started_at l)) (of_int delay)
      | None \<Rightarrow> capacity_retry_elapsed_limit_allows (ol_settings l) (ae_clock_capacity e) (ol_started_at l) delay)"

text \<open>The last part: wait and try again.  \<open>None\<close> is the order to do so.\<close>

definition schedule_retry ::
  "loop_setup \<Rightarrow> attempt_budget option \<Rightarrow> int \<Rightarrow> attempt_env \<Rightarrow> exn \<Rightarrow> failure_class \<Rightarrow> int
     \<Rightarrow> open_event list \<times> open_error option" where
  "schedule_retry l budget n e x c delay =
     (let call = ol_call l;
          most = error_retry_budget l budget c;
          scheduled = Retry_Scheduled n most delay c (telemetry_failure_phase call x)
                        (failure_safety call (ae_exposed e) x);
          notice = (if oc_notice call \<and> oc_retry_policy call \<noteq> Conservative_Pre_Output then [Notice n most] else [])
      in if \<not> delay_within_budget (oc_deadline call) delay (ae_clock_delay e)
         then ([], Some (Budget_Gone (Some ''retry_delay'') n))
         else if notice \<noteq> [] \<and> \<not> ae_noticed e then (scheduled # notice, Some Downstream_Closed)
         else if ae_cancelled_sleep e then (scheduled # notice @ [Slept delay], Some User_Requested_Shutdown)
         else (scheduled # notice @ [Slept delay], None))"

definition retry_or_raise ::
  "loop_setup \<Rightarrow> attempt_budget option \<Rightarrow> int \<Rightarrow> int \<Rightarrow> attempt_env \<Rightarrow> exn \<Rightarrow> failure_class
     \<Rightarrow> open_event list \<times> open_error option" where
  "retry_or_raise l budget attempt n e x c =
     (if retry_attempts l budget c \<le> attempt \<or> c = Permanent then ([], Some (Failure x))
      else (case retry_after_delay_seconds (ae_wall_clock e) x of
              Inl err \<Rightarrow> ([], Some (Escaped_Error err))
            | Inr after_header \<Rightarrow>
                (let delay = retry_delay_seconds n c after_header
                 in if c \<in> set CAPACITY_RETRY_FAILURE_CLASSES \<and> \<not> capacity_allows l e delay
                    then ([], Some (Failure x))
                    else schedule_retry l budget n e x c delay)))"

definition classified_failure ::
  "loop_setup \<Rightarrow> attempt_budget option \<Rightarrow> int \<Rightarrow> int \<Rightarrow> attempt_env \<Rightarrow> exn \<Rightarrow> failure_class
     \<Rightarrow> open_event list \<times> open_error option" where
  "classified_failure l budget attempt n e x c =
     (let call = ol_call l;
          phase = telemetry_failure_phase call x;
          safety = failure_safety call (ae_exposed e) x;
          most = error_retry_budget l budget c;
          observed = Observed_Attempt n most False phase
      in if budget_used_up (oc_deadline call) (ae_clock_error e) then ([observed], Some (Budget_Gone phase n))
         else if safety \<in> set SUPPRESSED_RETRY_SAFETY_CLASSES
           then ([observed, Retry_Suppressed n most c phase safety], Some (Failure x))
         else (case retry_or_raise l budget attempt n e x c of (evs, r) \<Rightarrow> (observed # evs, r)))"

definition handle_failure ::
  "loop_setup \<Rightarrow> attempt_budget option \<Rightarrow> int \<Rightarrow> int \<Rightarrow> attempt_env \<Rightarrow> exn \<Rightarrow> open_event list \<times> open_error option" where
  "handle_failure l budget attempt n e x =
     (if ae_cancelled_error e then ([], Some User_Requested_Shutdown)
      else
        (let evs = observed_failure_phase l budget n x
         in if is_http_error x \<and> \<not> oc_retry_http_errors (ol_call l)
            then (evs @ [Observed_Attempt n n False (telemetry_failure_phase (ol_call l) x)], Some (Failure x))
            else (case upstream_failure_class x of
                    Inl err \<Rightarrow> (evs, Some (Escaped_Error err))
                  | Inr c \<Rightarrow> (case classified_failure l budget attempt n e x c of (rest, r) \<Rightarrow> (evs @ rest, r)))))"

section \<open>One attempt and the loop\<close>

datatype open_step = Finished "open_error + unit" | Again

definition open_attempt ::
  "loop_setup \<Rightarrow> attempt_env \<Rightarrow> int \<Rightarrow> attempt_budget option \<Rightarrow> open_step \<times> open_event list \<times> attempt_budget option" where
  "open_attempt l e attempt budget =
     (let n = request_attempt budget attempt
      in if ae_cancelled_first e then (Finished (Inl User_Requested_Shutdown), [], budget)
         else (case clamp_timeout (oc_timeout (ol_call l)) (oc_deadline (ol_call l)) (ae_clock_clamp e) of
                 None \<Rightarrow> (Finished (Inl (Budget_Gone (Some ''upstream_open'') n)), [], budget)
               | Some timeout \<Rightarrow>
                   (let counted = count_attempt budget n
                    in case ae_outcome e of
                         Responds \<Rightarrow>
                           (case response_opened l budget n e of (evs, r) \<Rightarrow> (Finished r, Sent n timeout # evs, counted))
                       | Raises x \<Rightarrow>
                           if exn_kind x = Pre_Response_Budget_Exhausted \<or> \<not> caught x
                           then (Finished (Inl (Failure x)), [Sent n timeout], counted)
                           else (case handle_failure l counted attempt n e x of
                                   (evs, Some err) \<Rightarrow> (Finished (Inl err), Sent n timeout # evs, counted)
                                 | (evs, None) \<Rightarrow> (Again, Sent n timeout # evs, counted)))))"

text \<open>No failure class allows more attempts than this.\<close>

definition attempt_limit :: "loop_setup \<Rightarrow> int" where
  "attempt_limit l =
     (let base = ol_base l
      in case oc_execution (ol_call l) of
           Some p \<Rightarrow> max (max base (rp_base_open_attempts p)) (rp_failure_expansion p)
         | None \<Rightarrow> max base (rs_auto_retry_max (ol_settings l)))"

lemma retry_attempts_limit: "retry_attempts l budget c \<le> attempt_limit l"
  by (auto simp: retry_attempts_def attempt_limit_def open_attempts_for_failure_class_def
      attempts_for_failure_class_def retry_attempts_for_failure_class_def Let_def split: option.splits)

lemma schedule_again:
  "schedule_retry l budget n e x c delay = (evs, None) \<Longrightarrow>
     delay_within_budget (oc_deadline (ol_call l)) delay (ae_clock_delay e)"
  by (auto simp: schedule_retry_def Let_def split: if_splits)

lemma retry_again:
  "retry_or_raise l budget attempt n e x c = (evs, None) \<Longrightarrow> attempt < retry_attempts l budget c \<and> c \<noteq> Permanent"
  by (auto simp: retry_or_raise_def split: if_splits)

lemma classified_again:
  "classified_failure l budget attempt n e x c = (evs, None) \<Longrightarrow> attempt < retry_attempts l budget c \<and> c \<noteq> Permanent"
  by (auto simp: classified_failure_def Let_def split: if_splits prod.splits dest: retry_again)

lemma handle_again:
  "handle_failure l budget attempt n e x = (evs, None) \<Longrightarrow>
     \<exists>c. upstream_failure_class x = Inr c \<and> attempt < retry_attempts l budget c \<and> c \<noteq> Permanent"
  by (auto simp: handle_failure_def Let_def split: if_splits prod.splits sum.splits dest: classified_again)

lemma attempt_again:
  assumes "open_attempt l e attempt budget = (Again, evs, budget')"
  shows "attempt < attempt_limit l"
proof -
  from assms obtain x rest where "handle_failure l budget' attempt (request_attempt budget attempt) e x = (rest, None)"
    by (auto simp: open_attempt_def Let_def split: if_splits option.splits open_outcome.splits prod.splits)
  from handle_again [OF this] show ?thesis using retry_attempts_limit by (meson less_le_trans)
qed

function open_loop ::
  "loop_setup \<Rightarrow> (int \<Rightarrow> attempt_env) \<Rightarrow> int \<Rightarrow> attempt_budget option
     \<Rightarrow> (open_error + unit) \<times> open_event list \<times> attempt_budget option" where
  "open_loop l env attempt budget =
     (case open_attempt l (env attempt) attempt budget of
        (Finished r, evs, budget') \<Rightarrow> (r, evs, budget')
      | (Again, evs, budget') \<Rightarrow>
          (case open_loop l env (attempt + 1) budget' of (r, rest, budget'') \<Rightarrow> (r, evs @ rest, budget'')))"
  by pat_completeness auto
termination
proof (relation "measure (\<lambda>(l, env, attempt, budget). nat (attempt_limit l - attempt))", goal_cases)
  case (2 l env attempt budget step rest evs budget')
  then show ?case using attempt_again [of l "env attempt" attempt budget evs budget'] by simp
qed simp

declare open_loop.simps [simp del]

section \<open>The whole call\<close>

definition open_upstream_response ::
  "retry_settings \<Rightarrow> open_call \<Rightarrow> rat \<Rightarrow> (int \<Rightarrow> attempt_env) \<Rightarrow> attempt_budget option
     \<Rightarrow> (open_error + unit) \<times> open_event list \<times> attempt_budget option" where
  "open_upstream_response s c now env given =
     (let budget = attempt_budget_of c given;
          base = base_retry_attempts s c;
          start = (\<lambda>n. \<lparr>ol_call = apply_plan c, ol_settings = s, ol_base = n,
                        ol_explicit = explicit_max_attempts c, ol_started_at = now\<rparr>)
      in case budget of
           None \<Rightarrow> open_loop (start base) env 1 None
         | Some b \<Rightarrow>
             if remaining_open_attempts b \<le> 0
             then (Inl (Budget_Gone (Some ''upstream_open_attempts'') (ab_attempts_started b)), [], budget)
             else open_loop (start (min base (remaining_open_attempts b))) env 1 budget)"

text \<open>Several calls that share one count of attempts, as the relay makes them.\<close>

fun open_calls ::
  "(retry_settings \<times> open_call \<times> rat \<times> (int \<Rightarrow> attempt_env)) list \<Rightarrow> attempt_budget
     \<Rightarrow> (open_error + unit) list \<times> open_event list \<times> attempt_budget option" where
  "open_calls [] b = ([], [], Some b)"
| "open_calls ((s, c, now, env) # calls) b =
     (case open_upstream_response s c now env (Some b) of
        (r, evs, Some b') \<Rightarrow> (case open_calls calls b' of (rs, rest, b'') \<Rightarrow> (r # rs, evs @ rest, b''))
      | (r, evs, None) \<Rightarrow> ([r], evs, None))"

end
