(* ===== verification/Exchange.thy ===== *)
theory Exchange
  imports Upstream_Retry
begin

text \<open>
  \<open>execute_exchange\<close> of \<open>src-python/gateway_exchange.py\<close>: the attempts of a route plan, each opened by the
  retry loop of \<open>Upstream_Retry\<close> and relayed to the client, repeated when the relay fails, and replaced by the
  attempt for another protocol when the provider rejects the first.

  The ports answer through a record for every round, a round being one opening with its relay: what
  the transport does (the record of \<open>Upstream_Retry\<close> for each of its attempts), whether the relay returns a status
  or raises, whether it started the client's stream, whether the request was found cancelled, the
  clock, and whether notices reached the client.  \<open>_prepare_attempt_body\<close> is a function of the index of the
  attempt.  Request observability, event texts and the Model Access Path are left out.
\<close>

section \<open>Requests and what the ports answer\<close>

record route_attempt =
  ra_index :: int
  ra_retry :: retry_plan
  ra_fallback_statuses :: "int list"

record exchange_request =
  xq_upstream_name :: string
  xq_path :: "string list"
  xq_attempts :: "route_attempt list"
  xq_started_at :: rat
  xq_deadline :: "rat option"
  xq_sse_started :: bool
  xq_settings :: retry_settings

datatype relay_outcome = Relayed int | Relay_Raises exn

record round_env =
  re_submitted :: bool
  re_clock_open :: rat
  re_attempts :: "int \<Rightarrow> attempt_env"
  re_relay :: relay_outcome
  re_relay_started :: bool
  re_cancelled :: bool
  re_wall_clock :: rat
  re_clock :: rat
  re_noticed :: bool
  re_empty_written :: bool
  re_cancelled_wait :: bool

record exchange_env =
  xe_prepare :: "int \<Rightarrow> string + bytes"
  xe_round :: "int \<Rightarrow> int \<Rightarrow> round_env"
  xe_replay :: "(relay_outcome \<times> bool) option"

datatype disposition = Completed int | Stopped string

datatype exchange_error =
    Raised exn
  | Open_Failed open_error
  | Translation_Failed string
  | Shutdown_Requested
  | Already_Submitted
  | Runtime_Error string

datatype exchange_event =
    X_Prepared int
  | X_Request_Start
  | X_Request int bytes
  | X_Open int int "rat option" "open_event list"
  | X_Attached
  | X_Relay int bool bool
  | X_Sse_Started
  | X_Response_Left
  | X_Suppressed int int failure_class "string option" retry_safety
  | X_Retry int int int failure_class "string option" retry_safety
  | X_Notice
  | X_Finish_Failure
  | X_Empty_Completed
  | X_Waited int
  | X_Fallback int int
  | X_Fallback_Suppressed int failure_class retry_safety

text \<open>The progress, the bodies prepared so far, the shared count of attempts, and the trace.\<close>

record exchange_state =
  xs_active :: "int option"
  xs_sse_started :: bool
  xs_bodies :: "(int, bytes) dict"
  xs_budget :: "attempt_budget option"
  xs_trace :: "exchange_event list"

definition emit :: "exchange_event list \<Rightarrow> exchange_state \<Rightarrow> exchange_state" where
  "emit evs s = s\<lparr>xs_trace := xs_trace s @ evs\<rparr>"

definition start_sse :: "exchange_state \<Rightarrow> exchange_state" where
  "start_sse s = emit [X_Sse_Started] (s\<lparr>xs_sse_started := True\<rparr>)"

definition start_sse_if :: "bool \<Rightarrow> exchange_state \<Rightarrow> exchange_state" where
  "start_sse_if b s = (if b then start_sse s else s)"

section \<open>Bodies\<close>

definition body_for :: "exchange_env \<Rightarrow> int \<Rightarrow> exchange_state \<Rightarrow> (exchange_error + bytes) \<times> exchange_state" where
  "body_for env index s =
     (case dict_get (xs_bodies s) index of
        Some body \<Rightarrow> (Inr body, s)
      | None \<Rightarrow>
          (case xe_prepare env index of
             Inl code \<Rightarrow> (Inl (Translation_Failed code), emit [X_Prepared index] s)
           | Inr body \<Rightarrow> (Inr body, emit [X_Prepared index] (s\<lparr>xs_bodies := dict_set (xs_bodies s) index body\<rparr>))))"

section \<open>Opening and relaying\<close>

definition CHATGPT_WEB :: string where "CHATGPT_WEB = ''chatgpt_web''"

definition open_call_of :: "exchange_request \<Rightarrow> bool \<Rightarrow> route_attempt \<Rightarrow> exchange_state \<Rightarrow> open_call" where
  "open_call_of q notice a s =
     \<lparr>oc_upstream_name = xq_upstream_name q, oc_method = ''POST'', oc_path = xq_path q,
      oc_timeout = rp_request_timeout (ra_retry a), oc_request_kind = RETRY_REQUEST_MAIN_GENERATION,
      oc_max_attempts = None, oc_retry_policy = Gateway_Full, oc_retry_http_errors = True,
      oc_execution = Some (ra_retry a), oc_notice = notice,
      oc_deadline = (if xs_sse_started s then None else xq_deadline q)\<rparr>"

text \<open>Whether a notice of the retry loop reached the client; the one that closes it did not.\<close>

definition notices :: "open_event list \<Rightarrow> nat" where
  "notices evs = length (filter (\<lambda>ev. case ev of Notice _ _ \<Rightarrow> True | _ \<Rightarrow> False) evs)"

definition open_noticed :: "open_error + unit \<Rightarrow> open_event list \<Rightarrow> bool" where
  "open_noticed r evs \<longleftrightarrow> (if r = Inl Downstream_Closed then 1 else 0) < notices evs"

definition open_upstream ::
  "exchange_request \<Rightarrow> bool \<Rightarrow> round_env \<Rightarrow> route_attempt \<Rightarrow> int \<Rightarrow> exchange_state
     \<Rightarrow> (open_error + unit) \<times> exchange_state" where
  "open_upstream q notice e a relay_attempt s =
     (let call = open_call_of q notice a s
      in case open_upstream_response (xq_settings q) call (re_clock_open e) (re_attempts e) (xs_budget s) of
           (r, evs, budget) \<Rightarrow>
             (r, start_sse_if (open_noticed r evs)
                   (emit [X_Open (ra_index a) relay_attempt (oc_deadline call) evs]
                      (if xs_budget s = None then s else s\<lparr>xs_budget := budget\<rparr>))))"

text \<open>What the \<open>try\<close> of a round comes to: a status, a closed client, or an exception.\<close>

datatype round_result = Got int | Client_Gone | Thrown exchange_error

definition relay_response ::
  "round_env \<Rightarrow> route_attempt \<Rightarrow> bool \<Rightarrow> exchange_state \<Rightarrow> round_result \<times> exchange_state" where
  "relay_response e a deferred s =
     (let s1 = emit [X_Response_Left]
                 (start_sse_if (re_relay_started e)
                    (emit [X_Attached, X_Relay (ra_index a) (xs_sse_started s) deferred] s))
      in case re_relay e of
           Relayed status \<Rightarrow> (Got status, s1)
         | Relay_Raises x \<Rightarrow>
             ((if exn_kind x = Downstream_Closed_Before_Retry then Client_Gone else Thrown (Raised x)), s1))"

definition open_and_relay ::
  "exchange_request \<Rightarrow> bool \<Rightarrow> round_env \<Rightarrow> route_attempt \<Rightarrow> int \<Rightarrow> int \<Rightarrow> exchange_state
     \<Rightarrow> round_result \<times> exchange_state" where
  "open_and_relay q notice e a relay_attempt relay_attempts s =
     (case open_upstream q notice e a relay_attempt s of
        (Inl (Failure x), s1) \<Rightarrow>
          ((if exn_kind x = Downstream_Closed_Before_Retry then Client_Gone else Thrown (Raised x)), s1)
      | (Inl Downstream_Closed, s1) \<Rightarrow> (Client_Gone, s1)
      | (Inl err, s1) \<Rightarrow> (Thrown (Open_Failed err), s1)
      | (Inr _, s1) \<Rightarrow> relay_response e a (relay_attempt < relay_attempts) s1)"

section \<open>After a failed relay\<close>

definition relay_retryable :: "exn \<Rightarrow> bool" where
  "relay_retryable x \<longleftrightarrow> exn_kind x \<in> {Incomplete_Read, Compact_Empty, Stream_Interrupted, Stream_Idle_Timeout,
     Stream_Incomplete, Empty_Completed, Lifecycle_Empty_Final, Lifecycle_Final_Format}
     \<or> (case exn_kind x of Stream_Error_Event _ \<Rightarrow> True | _ \<Rightarrow> False)"

definition is_lifecycle :: "exn \<Rightarrow> bool" where
  "is_lifecycle x \<longleftrightarrow> exn_kind x = Lifecycle_Empty_Final \<or> exn_kind x = Lifecycle_Final_Format"

definition is_stream_failure :: "exn \<Rightarrow> bool" where
  "is_stream_failure x \<longleftrightarrow> is_lifecycle x
     \<or> exn_kind x \<in> {Stream_Interrupted, Stream_Idle_Timeout, Stream_Incomplete, Empty_Completed}
     \<or> (case exn_kind x of Stream_Error_Event _ \<Rightarrow> True | _ \<Rightarrow> False)"

text \<open>\<open>cause\<close> of an interruption, the exception itself otherwise.\<close>

definition retry_exception :: "exn \<Rightarrow> exn" where
  "retry_exception x = (case interrupted_cause x of Some c \<Rightarrow> c | None \<Rightarrow> x)"

definition relay_class :: "exn \<Rightarrow> escaped + failure_class" where
  "relay_class x = (if is_lifecycle x then Inr Quick_Transient else upstream_failure_class (retry_exception x))"

text \<open>The attempts allowed after the failure: \<open>relay_attempts\<close> as the code leaves it.\<close>

definition relay_attempts_after :: "retry_plan \<Rightarrow> int \<Rightarrow> exn \<Rightarrow> failure_class \<Rightarrow> int" where
  "relay_attempts_after p relay_attempts x c =
     (if is_lifecycle x then relay_attempts
      else (let n = relay_attempts_for_failure_class p c (is_stream_failure x)
            in if exn_kind (retry_exception x) = Empty_Completed then min n (rp_empty_completed_max p) else n))"

definition relay_phase :: "exn \<Rightarrow> string option" where
  "relay_phase x = (if is_stream_failure x then Some ''stream_body'' else None)"

text \<open>
  \<open>_retry_safety_class\<close> is given a function where it expects whether output has reached the client; a
  function is true.
\<close>

definition relay_safety :: "exchange_request \<Rightarrow> retry_plan \<Rightarrow> exn \<Rightarrow> string option \<Rightarrow> retry_safety" where
  "relay_safety q p x phase =
     retry_safety_class x ''POST'' (xq_upstream_name q) (rp_request_kind p) True (xq_path q) phase"

datatype after_failure = Give_Up "exchange_error + disposition" | Try_Again int

definition suppressed_relay ::
  "round_env \<Rightarrow> exn \<Rightarrow> exchange_state \<Rightarrow> after_failure \<times> exchange_state" where
  "suppressed_relay e x s =
     (if exn_kind x = Empty_Completed then
        (if re_empty_written e then (Give_Up (Inr (Stopped ''empty_completed_response'')), emit [X_Empty_Completed] s)
         else (Give_Up (Inr (Stopped ''downstream_closed'')), emit [X_Empty_Completed, X_Finish_Failure] s))
      else (Give_Up (Inl (Raised x)), s))"

text \<open>\<open>None\<close>: no more; otherwise the seconds to wait.\<close>

definition relay_delay ::
  "exchange_request \<Rightarrow> retry_plan \<Rightarrow> round_env \<Rightarrow> int \<Rightarrow> int \<Rightarrow> exn \<Rightarrow> failure_class \<Rightarrow> escaped + int option" where
  "relay_delay q p e relay_attempt limit x c =
     (if is_lifecycle x then Inr (if limit \<le> relay_attempt then None else Some 0)
      else if limit \<le> relay_attempt \<or> c = Permanent then Inr None
      else rbind (retry_after_delay_seconds (re_wall_clock e) (retry_exception x)) (\<lambda>after_header.
             let delay = retry_delay_seconds relay_attempt c after_header;
                 elapsed = max 0 (re_clock e - xq_started_at q)
             in if c \<in> set CAPACITY_RETRY_FAILURE_CLASSES \<and> \<not> capacity_elapsed_limit_allows p elapsed (of_int delay)
                then Inr None
                else if is_stream_failure x \<and> c = Quick_Transient
                        \<and> \<not> stream_elapsed_limit_allows p elapsed (of_int delay) then Inr None
                else Inr (Some delay)))"

definition announce_retry ::
  "bool \<Rightarrow> round_env \<Rightarrow> int \<Rightarrow> int \<Rightarrow> exchange_event \<Rightarrow> exchange_state \<Rightarrow> after_failure \<times> exchange_state" where
  "announce_retry notice e relay_attempts delay ev s =
     (if notice \<and> \<not> re_noticed e
      then (Give_Up (Inr (Stopped ''downstream_closed'')), emit [ev, X_Notice, X_Finish_Failure] s)
      else
        (let s1 = (if notice then start_sse (emit [ev, X_Notice] s) else emit [ev] s);
             s2 = emit [X_Waited delay] s1
         in if re_cancelled_wait e then (Give_Up (Inl Shutdown_Requested), s2) else (Try_Again relay_attempts, s2)))"

definition relay_failed ::
  "exchange_request \<Rightarrow> bool \<Rightarrow> round_env \<Rightarrow> route_attempt \<Rightarrow> int \<Rightarrow> int \<Rightarrow> exn \<Rightarrow> exchange_state
     \<Rightarrow> after_failure \<times> exchange_state" where
  "relay_failed q notice e a relay_attempt relay_attempts x s =
     (if re_cancelled e then (Give_Up (Inl Shutdown_Requested), s)
      else (case relay_class x of
              Inl err \<Rightarrow> (Give_Up (Inl (Open_Failed (Escaped_Error err))), s)
            | Inr c \<Rightarrow>
                (let p = ra_retry a;
                     y = retry_exception x;
                     limit = relay_attempts_after p relay_attempts x c;
                     safety = relay_safety q p y (relay_phase x)
                 in if safety \<in> set SUPPRESSED_RETRY_SAFETY_CLASSES
                    then suppressed_relay e y (emit [X_Suppressed relay_attempt limit c (relay_phase x) safety] s)
                    else (case relay_delay q p e relay_attempt limit x c of
                            Inl err \<Rightarrow> (Give_Up (Inl (Open_Failed (Escaped_Error err))), s)
                          | Inr None \<Rightarrow> (Give_Up (Inl (Raised y)), s)
                          | Inr (Some delay) \<Rightarrow>
                              announce_retry notice e limit delay
                                (X_Retry relay_attempt limit delay c (relay_phase x) safety) s))))"

section \<open>Rounds of one attempt\<close>

definition relay_round ::
  "exchange_request \<Rightarrow> exchange_env \<Rightarrow> bool \<Rightarrow> route_attempt \<Rightarrow> int \<Rightarrow> int \<Rightarrow> exchange_state
     \<Rightarrow> after_failure \<times> exchange_state" where
  "relay_round q env notice a relay_attempt relay_attempts s =
     (let e = xe_round env (ra_index a) relay_attempt
      in if 1 < relay_attempt \<and> xq_upstream_name q = CHATGPT_WEB \<and> re_submitted e
         then (Give_Up (Inl Already_Submitted), s)
         else (case body_for env (ra_index a) s of
                 (Inl err, s1) \<Rightarrow> (Give_Up (Inl err), s1)
               | (Inr body, s1) \<Rightarrow>
                   (case open_and_relay q notice e a relay_attempt relay_attempts
                           (emit [X_Request (ra_index a) body, X_Request_Start] s1) of
                      (Got status, s2) \<Rightarrow> (Give_Up (Inr (Completed status)), s2)
                    | (Client_Gone, s2) \<Rightarrow> (Give_Up (Inr (Stopped ''downstream_closed'')), emit [X_Finish_Failure] s2)
                    | (Thrown (Raised x), s2) \<Rightarrow>
                        if relay_retryable x then relay_failed q notice e a relay_attempt relay_attempts x s2
                        else (Give_Up (Inl (Raised x)), s2)
                    | (Thrown err, s2) \<Rightarrow> (Give_Up (Inl err), s2))))"

definition relay_limit :: "route_attempt \<Rightarrow> int" where
  "relay_limit a = max (rp_base_relay_attempts (ra_retry a)) (rp_failure_expansion (ra_retry a))"

lemma relay_attempts_after_limit:
  "relay_attempts_after (ra_retry a) relay_attempts x c \<le> max relay_attempts (relay_limit a)"
  by (auto simp: relay_attempts_after_def relay_limit_def relay_attempts_for_failure_class_def
      attempts_for_failure_class_def Let_def)

lemma relay_delay_allows: "relay_delay q p e relay_attempt limit x c = Inr (Some delay) \<Longrightarrow> relay_attempt < limit"
  by (auto simp: relay_delay_def split: if_splits)

lemma failed_again:
  assumes "relay_failed q notice e a relay_attempt relay_attempts x s = (Try_Again n, s')"
  shows "relay_attempt < n \<and> n \<le> max relay_attempts (relay_limit a)"
proof -
  from assms obtain c delay where "n = relay_attempts_after (ra_retry a) relay_attempts x c"
    "relay_delay q (ra_retry a) e relay_attempt n x c = Inr (Some delay)"
    by (auto simp: relay_failed_def suppressed_relay_def announce_retry_def Let_def
        split: if_splits sum.splits option.splits)
  then show ?thesis using relay_attempts_after_limit relay_delay_allows by metis
qed

lemma round_again:
  assumes "relay_round q env notice a relay_attempt relay_attempts s = (Try_Again n, s')"
  shows "relay_attempt < n \<and> n \<le> max relay_attempts (relay_limit a)"
  using assms
  by (auto simp: relay_round_def Let_def dest!: failed_again
      split: if_splits sum.splits prod.splits round_result.splits exchange_error.splits)

function relay_loop ::
  "exchange_request \<Rightarrow> exchange_env \<Rightarrow> bool \<Rightarrow> route_attempt \<Rightarrow> int \<Rightarrow> int \<Rightarrow> exchange_state
     \<Rightarrow> (exchange_error + disposition) \<times> int \<times> exchange_state" where
  "relay_loop q env notice a relay_attempt relay_attempts s =
     (if relay_attempts < relay_attempt
      then (Inl (Runtime_Error ''unreachable upstream relay retry state''), relay_attempt, s)
      else (case relay_round q env notice a relay_attempt relay_attempts s of
              (Give_Up r, s1) \<Rightarrow> (r, relay_attempt, s1)
            | (Try_Again n, s1) \<Rightarrow> relay_loop q env notice a (relay_attempt + 1) n s1))"
  by pat_completeness auto
termination
proof (relation "measure (\<lambda>(q, env, notice, a, relay_attempt, relay_attempts, s).
    nat (max relay_attempts (relay_limit a) - relay_attempt))", goal_cases)
  case (2 q env notice a relay_attempt relay_attempts s step s1 n)
  then show ?case using round_again [of q env notice a relay_attempt relay_attempts s n s1] by auto
qed simp

declare relay_loop.simps [simp del]

section \<open>Attempts for other protocols\<close>

definition next_attempt :: "exchange_request \<Rightarrow> route_attempt \<Rightarrow> route_attempt option" where
  "next_attempt q a =
     (let i = nat (ra_index a + 1) in if i < length (xq_attempts q) then Some (xq_attempts q ! i) else None)"

definition allows_protocol_fallback_status :: "route_attempt \<Rightarrow> exn \<Rightarrow> bool" where
  "allows_protocol_fallback_status a x =
     (case exn_kind x of Http_Error h \<Rightarrow> status_in (he_code h) (ra_fallback_statuses a) | _ \<Rightarrow> False)"

text \<open>\<open>None\<close>: go on with the next attempt.\<close>

definition after_http_error ::
  "exchange_request \<Rightarrow> route_attempt \<Rightarrow> int \<Rightarrow> exn \<Rightarrow> exchange_state \<Rightarrow> exchange_error option \<times> exchange_state" where
  "after_http_error q a relay_attempt x s =
     (case next_attempt q a of
        None \<Rightarrow> (Some (Raised x), s)
      | Some b \<Rightarrow>
          if xs_sse_started s \<or> \<not> allows_protocol_fallback_status a x then (Some (Raised x), s)
          else
            (let safety = relay_safety q (ra_retry a) x (Some ''response_headers'')
             in if safety \<notin> set SUPPRESSED_RETRY_SAFETY_CLASSES
                then (None, emit [X_Fallback (ra_index a) (ra_index b)] s)
                else (case upstream_failure_class x of
                        Inl err \<Rightarrow> (Some (Open_Failed (Escaped_Error err)), s)
                      | Inr c \<Rightarrow> (Some (Raised x), emit [X_Fallback_Suppressed relay_attempt c safety] s))))"

fun run_attempts ::
  "exchange_request \<Rightarrow> exchange_env \<Rightarrow> bool \<Rightarrow> route_attempt list \<Rightarrow> exchange_state
     \<Rightarrow> (exchange_error + disposition) \<times> exchange_state" where
  "run_attempts q env notice [] s = (Inl (Runtime_Error ''unreachable upstream protocol selection state''), s)"
| "run_attempts q env notice (a # rest) s =
     (case relay_loop q env notice a 1 (rp_base_relay_attempts (ra_retry a)) (s\<lparr>xs_active := Some (ra_index a)\<rparr>) of
        (Inl (Raised x), relay_attempt, s1) \<Rightarrow>
          if is_http_error x then
            (case after_http_error q a relay_attempt x s1 of
               (Some err, s2) \<Rightarrow> (Inl err, s2)
             | (None, s2) \<Rightarrow> run_attempts q env notice rest s2)
          else (Inl (Raised x), s1)
      | (r, _, s1) \<Rightarrow> (r, s1))"

section \<open>The exchange\<close>

definition new_exchange :: "exchange_request \<Rightarrow> exchange_state" where
  "new_exchange q =
     \<lparr>xs_active = None, xs_sse_started = xq_sse_started q, xs_bodies = [], xs_budget = None, xs_trace = []\<rparr>"

definition replay :: "route_attempt \<Rightarrow> relay_outcome \<times> bool \<Rightarrow> exchange_state
     \<Rightarrow> (exchange_error + disposition) \<times> exchange_state" where
  "replay a outcome s =
     (let s1 = start_sse_if (snd outcome) (emit [X_Relay (ra_index a) (xs_sse_started s) False] s)
      in case fst outcome of
           Relayed status \<Rightarrow> (Inr (Completed status), s1)
         | Relay_Raises x \<Rightarrow> (Inl (Raised x), s1))"

definition execute_exchange ::
  "exchange_request \<Rightarrow> exchange_env \<Rightarrow> (exchange_error + disposition) \<times> exchange_state" where
  "execute_exchange q env =
     (case xq_attempts q of
        [] \<Rightarrow> (Inl (Runtime_Error ''cannot execute a route plan without attempts''), new_exchange q)
      | primary # _ \<Rightarrow>
          (case body_for env (ra_index primary) (new_exchange q) of
             (Inl err, s) \<Rightarrow> (Inl err, s)
           | (Inr _, s) \<Rightarrow>
               (let p = ra_retry primary;
                    s1 = (emit [X_Request_Start] s)\<lparr>xs_budget := new_open_attempt_budget p\<rparr>
                in case xe_replay env of
                     Some outcome \<Rightarrow> replay primary outcome s1
                   | None \<Rightarrow> run_attempts q env (rp_emit_retry_notice p) (xq_attempts q) s1)))"

text \<open>\<open>terminal_result\<close>: whether the exchange was completed, whether it was handled, the status and the error.\<close>

record terminal =
  tr_completed :: bool
  tr_handled :: bool
  tr_status :: int
  tr_error :: "string option"

definition terminal_result :: "disposition \<Rightarrow> terminal" where
  "terminal_result d =
     (case d of
        Completed status \<Rightarrow> \<lparr>tr_completed = True, tr_handled = True, tr_status = status, tr_error = None\<rparr>
      | Stopped reason \<Rightarrow>
          if reason \<notin> {''downstream_closed'', ''empty_completed_response''}
          then \<lparr>tr_completed = False, tr_handled = False, tr_status = 500, tr_error = Some ''invalid_exchange_result''\<rparr>
          else \<lparr>tr_completed = False, tr_handled = True,
                tr_status = (if reason = ''downstream_closed'' then 499 else 502), tr_error = Some reason\<rparr>)"

end
