(* ===== verification/Upstream_Retry_Properties.thy ===== *)
theory Upstream_Retry_Properties
  imports Upstream_Retry
begin

text \<open>
  What the retry loop guarantees: how many requests it sends and how they are numbered, which failures it
  repeats, that it keeps to the deadline, and that its result is that of the last attempt.  The rule
  \<open>open_loop_rule\<close> is the induction every one of them uses.
\<close>

section \<open>The phase search\<close>

fun generation :: "nat \<Rightarrow> exn list \<Rightarrow> exn list" where
  "generation 0 es = es"
| "generation (Suc n) es = generation n (concat (map referred es))"

fun first_tag :: "exn list \<Rightarrow> string option" where
  "first_tag [] = None"
| "first_tag (e # es) = (case supported_tag e of Some p \<Rightarrow> Some p | None \<Rightarrow> first_tag es)"

lemma first_tag_append: "first_tag (xs @ ys) = (case first_tag xs of Some p \<Rightarrow> Some p | None \<Rightarrow> first_tag ys)"
  by (induction xs) (auto split: option.splits)

lemma search_generation:
  "search_phase (es @ queue)
     = (case first_tag es of Some p \<Rightarrow> Some p | None \<Rightarrow> search_phase (queue @ concat (map referred es)))"
  by (induction es arbitrary: queue) (simp_all split: option.splits)

lemma size_generation: "es \<noteq> [] \<Longrightarrow> size_list size (concat (map referred es)) < size_list size es"
proof (induction es)
  case (Cons e es)
  then show ?case using size_referred [of e] by (cases "es = []") (auto simp: size_list_append)
qed simp

lemma generation_empties: "size_list size es \<le> n \<Longrightarrow> generation n es = []"
proof (induction n arbitrary: es)
  case (Suc n)
  then show ?case using size_generation [of es] by (cases "es = []") auto
next
  case (0 es)
  then show ?case by (cases es) auto
qed

lemma search_generations:
  "size_list size es \<le> n \<Longrightarrow> search_phase es = first_tag (concat (map (\<lambda>k. generation k es) [0..<n]))"
proof (induction n arbitrary: es)
  case 0
  then show ?case by (cases es) auto
next
  case (Suc n)
  let ?next = "concat (map referred es)"
  have "size_list size ?next \<le> n" using Suc.prems size_generation [of es] by (cases "es = []") auto
  then have "search_phase ?next = first_tag (concat (map (\<lambda>k. generation k ?next) [0..<n]))" by (rule Suc.IH)
  moreover have "search_phase es = (case first_tag es of Some p \<Rightarrow> Some p | None \<Rightarrow> search_phase ?next)"
    using search_generation [of es "[]"] by (simp only: append_Nil append_Nil2)
  moreover have "map (\<lambda>k. generation k es) [0..<Suc n] = es # map (\<lambda>k. generation k ?next) [0..<n]"
    by (simp add: upt_rec [of 0 "Suc n"] map_Suc_upt [symmetric] comp_def del: upt_Suc)
  ultimately show ?case by (simp add: first_tag_append del: upt_Suc split: option.split)
qed

text \<open>The search of the code, which keeps a queue, finds the tag a breadth-first enumeration finds first:
  no nearer exception behind the given one carries a supported phase, and it finds one if there is any.\<close>

lemma nearest_tag_found:
  "explicit_transport_phase (Some e) = first_tag (concat (map (\<lambda>k. generation k [e]) [0..<size e + 1]))
    \<and> generation (size e + 1 + k) [e] = []"
  using search_generations [of "[e]" "size e + 1"] generation_empties [of "[e]" "size e + 1 + k"]
  by (simp add: explicit_transport_phase_def)

lemma search_supported: "search_phase es = Some p \<Longrightarrow> p \<in> set SUPPORTED_TRANSPORT_PHASES"
  by (induction es rule: search_phase.induct) (auto simp: supported_tag_def split: option.splits if_splits)

lemma transport_phase_known:
  "transport_failure_phase e = Some p \<Longrightarrow> p \<in> set SUPPORTED_TRANSPORT_PHASES"
proof (induction e rule: transport_failure_phase.induct)
  case (1 e)
  have "guessed_phase e = Some p \<Longrightarrow> p \<in> set SUPPORTED_TRANSPORT_PHASES"
    by (auto simp: guessed_phase_def class_phase_def phase_of_detail_def SUPPORTED_TRANSPORT_PHASES_def Let_def
        split: option.splits exn_kind.splits if_splits)
  with 1 show ?case
    by (subst (asm) transport_failure_phase.simps [of e])
      (auto simp: explicit_transport_phase_def supported_tag_def dest: search_supported split: option.splits if_splits)
qed

text \<open>C38: No failure is ever recorded under \<open>upstream_tls\<close>: the classification of a failed
  handshake is \<open>tls_handshake\<close>, the table of diagnostic phases knows it as \<open>tls\<close>.\<close>

lemma tls_never_observed: "diagnostic_phase_name (transport_failure_phase e) \<noteq> Some ''upstream_tls''"
  using transport_phase_known [of e]
  by (auto simp: diagnostic_phase_name_def SUPPORTED_TRANSPORT_PHASES_def split: option.splits if_splits)

section \<open>Traces\<close>

definition sent :: "open_event list \<Rightarrow> (int \<times> rat) list" where
  "sent evs = List.map_filter (\<lambda>ev. case ev of Sent n t \<Rightarrow> Some (n, t) | _ \<Rightarrow> None) evs"

definition slept :: "open_event list \<Rightarrow> int list" where
  "slept evs = List.map_filter (\<lambda>ev. case ev of Slept d \<Rightarrow> Some d | _ \<Rightarrow> None) evs"

lemma sent_simps [simp]:
  "sent [] = []" "sent (ev # evs) = (case ev of Sent n t \<Rightarrow> (n, t) # sent evs | _ \<Rightarrow> sent evs)"
  "sent (evs @ evs') = sent evs @ sent evs'"
  by (auto simp: sent_def map_filter_simps List.map_filter_def split: open_event.splits)

lemma slept_simps [simp]:
  "slept [] = []" "slept (ev # evs) = (case ev of Slept d \<Rightarrow> d # slept evs | _ \<Rightarrow> slept evs)"
  "slept (evs @ evs') = slept evs @ slept evs'"
  by (auto simp: slept_def map_filter_simps List.map_filter_def split: open_event.splits)

lemma open_loop_rule [consumes 1, case_names again finished]:
  assumes "open_loop l env attempt budget = (r, evs, budget')"
    and "\<And>attempt budget evs1 budget1 evs2. open_attempt l (env attempt) attempt budget = (Again, evs1, budget1) \<Longrightarrow>
       P (attempt + 1) budget1 evs2 \<Longrightarrow> P attempt budget (evs1 @ evs2)"
    and "\<And>attempt budget evs. open_attempt l (env attempt) attempt budget = (Finished r, evs, budget') \<Longrightarrow>
       P attempt budget evs"
  shows "P attempt budget evs"
  using assms
proof (induction l env attempt budget arbitrary: evs rule: open_loop.induct)
  case (1 l env attempt budget)
  obtain step evs1 budget1 where step: "open_attempt l (env attempt) attempt budget = (step, evs1, budget1)"
    by (metis prod_cases3)
  show ?case
  proof (cases step)
    case (Finished r')
    with 1(2) step have "r' = r \<and> evs1 = evs \<and> budget1 = budget'"
      by (simp add: open_loop.simps [of l env attempt])
    with step Finished 1(4) show ?thesis by blast
  next
    case Again
    obtain r2 evs2 budget2 where rest: "open_loop l env (attempt + 1) budget1 = (r2, evs2, budget2)"
      by (metis prod_cases3)
    with 1(2) step Again have "r2 = r" "budget2 = budget'" and evs: "evs = evs1 @ evs2"
      by (simp_all add: open_loop.simps [of l env attempt])
    with rest have "open_loop l env (attempt + 1) budget1 = (r, evs2, budget')" by simp
    from 1(1) [OF step [symmetric] Again refl this] 1(3,4) have "P (attempt + 1) budget1 evs2" by blast
    with 1(3) step Again evs show ?thesis by blast
  qed
qed

section \<open>One attempt\<close>

lemma handle_sends_nothing: "handle_failure l budget attempt n e x = (evs, r) \<Longrightarrow> sent evs = []"
  by (auto simp: handle_failure_def classified_failure_def retry_or_raise_def schedule_retry_def
      observed_failure_phase_def Let_def split: if_splits prod.splits option.splits sum.splits)

lemma response_sends_nothing: "response_opened l budget n e = (evs, r) \<Longrightarrow> sent evs = [] \<and> slept evs = []"
  by (auto simp: response_opened_def split: if_splits)

lemma handle_sleeps:
  "handle_failure l budget attempt n e x = (evs, r) \<Longrightarrow>
     slept evs = [] \<or> (\<exists>d. slept evs = [d] \<and> delay_within_budget (oc_deadline (ol_call l)) d (ae_clock_delay e))"
  by (auto simp: handle_failure_def classified_failure_def retry_or_raise_def schedule_retry_def
      observed_failure_phase_def Let_def split: if_splits prod.splits option.splits sum.splits)

text \<open>What must hold of an attempt for the loop to make another.\<close>

definition retried :: "loop_setup \<Rightarrow> attempt_env \<Rightarrow> bool" where
  "retried l e \<longleftrightarrow> (\<exists>x c. ae_outcome e = Raises x \<and> upstream_failure_class x = Inr c \<and> c \<noteq> Permanent
     \<and> (is_http_error x \<longrightarrow> oc_retry_http_errors (ol_call l))
     \<and> failure_safety (ol_call l) (ae_exposed e) x \<notin> set SUPPRESSED_RETRY_SAFETY_CLASSES)"

lemma handle_retries:
  "handle_failure l budget attempt n e x = (evs, None) \<Longrightarrow>
     (\<exists>d. slept evs = [d])
     \<and> (\<exists>c. upstream_failure_class x = Inr c \<and> c \<noteq> Permanent \<and> attempt < retry_attempts l budget c)
     \<and> (is_http_error x \<longrightarrow> oc_retry_http_errors (ol_call l))
     \<and> failure_safety (ol_call l) (ae_exposed e) x \<notin> set SUPPRESSED_RETRY_SAFETY_CLASSES"
  by (auto simp: handle_failure_def classified_failure_def retry_or_raise_def schedule_retry_def
      observed_failure_phase_def Let_def split: if_splits prod.splits option.splits sum.splits)

lemma handle_raises: "handle_failure l budget attempt n e x = (evs, Some (Failure y)) \<Longrightarrow> y = x"
  by (auto simp: handle_failure_def classified_failure_def retry_or_raise_def schedule_retry_def
      Let_def split: if_splits prod.splits option.splits sum.splits)

lemma attempt_sends:
  assumes "open_attempt l e attempt budget = (step, evs, budget')"
  shows "(sent evs = [] \<and> slept evs = [] \<and> budget' = budget \<and> step \<noteq> Again)
    \<or> (\<exists>t. sent evs = [(request_attempt budget attempt, t)]
         \<and> budget' = count_attempt budget (request_attempt budget attempt)
         \<and> clamp_timeout (oc_timeout (ol_call l)) (oc_deadline (ol_call l)) (ae_clock_clamp e) = Some t)"
  using assms
  by (auto simp: open_attempt_def Let_def dest: handle_sends_nothing response_sends_nothing
      split: if_splits option.splits open_outcome.splits prod.splits)

lemma attempt_retries:
  assumes "open_attempt l e attempt budget = (Again, evs, budget')"
  shows "retried l e" "\<exists>c. attempt < retry_attempts l budget' c" "\<exists>d. slept evs = [d]"
    "\<exists>t. sent evs = [(request_attempt budget attempt, t)]
       \<and> clamp_timeout (oc_timeout (ol_call l)) (oc_deadline (ol_call l)) (ae_clock_clamp e) = Some t"
    "budget' = count_attempt budget (request_attempt budget attempt)"
proof -
  from assms obtain x rest where x: "ae_outcome e = Raises x"
    "handle_failure l budget' attempt (request_attempt budget attempt) e x = (rest, None)"
    and evs: "\<exists>n t. evs = Sent n t # rest"
    by (auto simp: open_attempt_def Let_def split: if_splits option.splits open_outcome.splits prod.splits)
  from handle_retries [OF x(2)] x(1) show "retried l e" "\<exists>c. attempt < retry_attempts l budget' c"
    by (auto simp: retried_def)
  from handle_retries [OF x(2)] evs show "\<exists>d. slept evs = [d]" by auto
  from attempt_sends [OF assms] show "\<exists>t. sent evs = [(request_attempt budget attempt, t)]
       \<and> clamp_timeout (oc_timeout (ol_call l)) (oc_deadline (ol_call l)) (ae_clock_clamp e) = Some t"
    "budget' = count_attempt budget (request_attempt budget attempt)" by auto
qed

lemma attempt_finishes:
  assumes "open_attempt l e attempt budget = (Finished r, evs, budget')"
  shows "r = Inr () \<Longrightarrow> sent evs \<noteq> [] \<and> ae_outcome e = Responds
      \<and> \<not> budget_used_up (oc_deadline (ol_call l)) (ae_clock_response e)"
    and "r = Inl (Failure x) \<Longrightarrow> sent evs \<noteq> [] \<and> ae_outcome e = Raises x"
  using assms
  by (auto simp: open_attempt_def response_opened_def Let_def dest: handle_raises
      split: if_splits option.splits open_outcome.splits prod.splits)

lemma attempt_sleeps:
  assumes "open_attempt l e attempt budget = (step, evs, budget')"
  shows "slept evs = [] \<or> (\<exists>d. slept evs = [d] \<and> delay_within_budget (oc_deadline (ol_call l)) d (ae_clock_delay e))"
  using assms
  by (auto simp: open_attempt_def Let_def dest: handle_sleeps response_sends_nothing
      split: if_splits option.splits open_outcome.splits prod.splits)

section \<open>The loop\<close>

lemma request_attempt_next:
  "request_attempt (count_attempt budget (request_attempt budget attempt)) (attempt + 1) = request_attempt budget attempt + 1"
  by (cases budget) (simp_all add: request_attempt_def count_attempt_def)

lemma count_from_zero: "map f [0..<Suc n] = f 0 # map (\<lambda>i. f (Suc i)) [0..<n]"
  by (simp add: upt_conv_Cons map_Suc_upt [symmetric] comp_def del: upt_Suc)

lemma loop_numbers:
  assumes "open_loop l env attempt budget = (r, evs, budget')"
  shows "map fst (sent evs) = map (\<lambda>i. request_attempt budget attempt + int i) [0..<length (sent evs)]
    \<and> budget' = map_option (\<lambda>b. b\<lparr>ab_attempts_started := ab_attempts_started b + int (length (sent evs))\<rparr>) budget"
  using assms
proof (induction rule: open_loop_rule)
  case (again attempt budget evs1 budget1 evs2)
  from attempt_retries(4) [OF again(1)] obtain t where t: "sent evs1 = [(request_attempt budget attempt, t)]" by blast
  have b1: "budget1 = count_attempt budget (request_attempt budget attempt)" by (rule attempt_retries(5) [OF again(1)])
  have "map fst (sent evs2) = map (\<lambda>i. request_attempt budget attempt + int (Suc i)) [0..<length (sent evs2)]"
    using again(2) request_attempt_next [of budget attempt] by (simp add: b1 add.assoc)
  then have "map fst (sent (evs1 @ evs2))
      = map (\<lambda>i. request_attempt budget attempt + int i) [0..<length (sent (evs1 @ evs2))]"
    by (simp add: t count_from_zero del: upt_Suc)
  moreover have "budget' = map_option (\<lambda>b. b\<lparr>ab_attempts_started := ab_attempts_started b
      + int (length (sent (evs1 @ evs2)))\<rparr>) budget"
    using again(2) by (cases budget) (simp_all add: b1 t count_attempt_def request_attempt_def)
  ultimately show ?case by blast
next
  case (finished attempt budget evs)
  from attempt_sends [OF finished] show ?case
    by (cases budget) (auto simp: count_attempt_def request_attempt_def)
qed

lemma loop_bounded:
  assumes "open_loop l env attempt budget = (r, evs, budget')"
    and "\<And>b c. (b = None \<longleftrightarrow> budget = None) \<Longrightarrow> retry_attempts l b c \<le> most"
  shows "int (length (sent evs)) \<le> max 1 (most - attempt + 1)"
proof -
  have "(budget0 = None \<longleftrightarrow> budget = None) \<longrightarrow> int (length (sent evs)) \<le> max 1 (most - attempt + 1)"
    if "open_loop l env attempt budget0 = (r, evs, budget')" for attempt budget0 evs
    using that
  proof (induction rule: open_loop_rule)
    case (again attempt budget0 evs1 budget1 evs2)
    from attempt_retries [OF again(1)] obtain c t where c: "attempt < retry_attempts l budget1 c"
      and t: "sent evs1 = [t]" and b1: "budget1 = count_attempt budget0 (request_attempt budget0 attempt)" by blast
    show ?case
    proof
      assume same: "(budget0 = None) = (budget = None)"
      then have "(budget1 = None) = (budget = None)" by (simp add: b1 count_attempt_def)
      with again(2) assms(2) [of budget1 c] c
      show "int (length (sent (evs1 @ evs2))) \<le> max 1 (most - attempt + 1)" by (simp add: t)
    qed
  next
    case (finished attempt budget0 evs)
    from attempt_sends [OF finished] show ?case by auto
  qed
  with assms(1) show ?thesis by blast
qed

lemma loop_limited:
  "open_loop l env attempt budget = (r, evs, budget') \<Longrightarrow>
     int (length (sent evs)) \<le> max 1 (attempt_limit l - attempt + 1)"
  by (rule loop_bounded) (auto intro: retry_attempts_limit)

lemma loop_retried:
  assumes "open_loop l env attempt budget = (r, evs, budget')"
  shows "\<forall>i < length (sent evs) - 1. retried l (env (attempt + int i))"
  using assms
proof (induction rule: open_loop_rule)
  case (again attempt budget evs1 budget1 evs2)
  from attempt_retries [OF again(1)] obtain x where x: "sent evs1 = [x]" "retried l (env attempt)" by blast
  show ?case
  proof (intro allI impI)
    fix i assume "i < length (sent (evs1 @ evs2)) - 1"
    with again(2) x show "retried l (env (attempt + int i))" by (cases i) (simp_all add: add.assoc)
  qed
next
  case (finished attempt budget evs)
  from attempt_sends [OF finished] show ?case by auto
qed

lemma loop_timeouts:
  assumes "open_loop l env attempt budget = (r, evs, budget')"
  shows "\<forall>i < length (sent evs).
         clamp_timeout (oc_timeout (ol_call l)) (oc_deadline (ol_call l)) (ae_clock_clamp (env (attempt + int i)))
           = Some (snd (sent evs ! i))"
  using assms
proof (induction rule: open_loop_rule)
  case (again attempt budget evs1 budget1 evs2)
  from attempt_retries(4) [OF again(1)] obtain n t where t: "sent evs1 = [(n, t)]"
    "clamp_timeout (oc_timeout (ol_call l)) (oc_deadline (ol_call l)) (ae_clock_clamp (env attempt)) = Some t" by blast
  show ?case
  proof (intro allI impI)
    fix i assume "i < length (sent (evs1 @ evs2))"
    with again(2) t
    show "clamp_timeout (oc_timeout (ol_call l)) (oc_deadline (ol_call l)) (ae_clock_clamp (env (attempt + int i)))
        = Some (snd (sent (evs1 @ evs2) ! i))" by (cases i) (simp_all add: add.assoc)
  qed
next
  case (finished attempt budget evs)
  from attempt_sends [OF finished] show ?case by auto
qed

lemma loop_delays:
  assumes "open_loop l env attempt budget = (r, evs, budget')"
  shows "\<forall>i < length (slept evs).
         delay_within_budget (oc_deadline (ol_call l)) (slept evs ! i) (ae_clock_delay (env (attempt + int i)))"
  using assms
proof (induction rule: open_loop_rule)
  case (again attempt budget evs1 budget1 evs2)
  from attempt_retries(3) [OF again(1)] attempt_sleeps [OF again(1)] obtain d where d: "slept evs1 = [d]"
    "delay_within_budget (oc_deadline (ol_call l)) d (ae_clock_delay (env attempt))" by auto
  show ?case
  proof (intro allI impI)
    fix i assume "i < length (slept (evs1 @ evs2))"
    with again(2) d
    show "delay_within_budget (oc_deadline (ol_call l)) (slept (evs1 @ evs2) ! i) (ae_clock_delay (env (attempt + int i)))"
      by (cases i) (simp_all add: add.assoc)
  qed
next
  case (finished attempt budget evs)
  from attempt_sleeps [OF finished] show ?case by auto
qed

lemma loop_last:
  assumes "open_loop l env attempt budget = (r, evs, budget')"
  shows "(r = Inr () \<longrightarrow> sent evs \<noteq> [] \<and> ae_outcome (env (attempt + int (length (sent evs)) - 1)) = Responds
           \<and> \<not> budget_used_up (oc_deadline (ol_call l)) (ae_clock_response (env (attempt + int (length (sent evs)) - 1))))
    \<and> (\<forall>x. r = Inl (Failure x) \<longrightarrow> sent evs \<noteq> [] \<and> ae_outcome (env (attempt + int (length (sent evs)) - 1)) = Raises x)"
  using assms
proof (induction rule: open_loop_rule)
  case (again attempt budget evs1 budget1 evs2)
  from attempt_retries(4) [OF again(1)] obtain x where "sent evs1 = [x]" by blast
  moreover have "attempt + 1 + int (length (sent evs2)) - 1 = attempt + int (length (sent evs2))" by simp
  ultimately show ?case using again(2) by (simp add: add.commute)
next
  case (finished attempt budget evs)
  from attempt_sends [OF finished] attempt_finishes [OF finished] show ?case by (cases r) auto
qed

section \<open>The whole call\<close>

lemma apply_plan_deadline [simp]: "oc_deadline (apply_plan c) = oc_deadline c"
  by (simp add: apply_plan_def split: option.split)

lemma apply_plan_execution [simp]: "oc_execution (apply_plan c) = oc_execution c"
  by (simp add: apply_plan_def split: option.split)

text \<open>A call that sends anything is a run of the loop from its first attempt.\<close>

lemma call_is_loop:
  assumes "open_upstream_response s c now env given = (r, evs, budget')" "sent evs \<noteq> [] \<or> slept evs \<noteq> []"
  obtains l budget where "open_loop l env 1 budget = (r, evs, budget')" "ol_call l = apply_plan c"
  using assms by (auto simp: open_upstream_response_def Let_def split: option.splits if_splits)

lemma response_from_loop:
  assumes "open_upstream_response s c now env given = (r, evs, budget')"
    and "r = Inr () \<or> (\<exists>x. r = Inl (Failure x))"
  obtains l budget where "open_loop l env 1 budget = (r, evs, budget')" "ol_call l = apply_plan c"
  using assms by (auto simp: open_upstream_response_def Let_def split: option.splits if_splits)

lemma planned_attempts:
  assumes "oc_execution (ol_call l) \<noteq> None" "b \<noteq> None"
  shows "retry_attempts l b c \<le> ol_base l"
  using assms by (auto simp: retry_attempts_def)

lemma upt_append_map: "map f [0..<j + k] = map f [0..<j] @ map (\<lambda>i. f (j + i)) [0..<k]"
  by (induction k) simp_all

lemma call_counts:
  assumes "open_upstream_response s c now env (Some b) = (r, evs, budget')"
    and "oc_execution c \<noteq> None" "ab_attempts_started b \<le> ab_max_attempts b"
  shows "map fst (sent evs) = map (\<lambda>i. ab_attempts_started b + 1 + int i) [0..<length (sent evs)]
    \<and> budget' = Some (b\<lparr>ab_attempts_started := ab_attempts_started b + int (length (sent evs))\<rparr>)
    \<and> ab_attempts_started b + int (length (sent evs)) \<le> ab_max_attempts b"
proof (cases "remaining_open_attempts b \<le> 0")
  case True
  with assms show ?thesis by (auto simp: open_upstream_response_def attempt_budget_of_def Let_def)
next
  case False
  let ?base = "min (base_retry_attempts s c) (remaining_open_attempts b)"
  let ?l = "\<lparr>ol_call = apply_plan c, ol_settings = s, ol_base = ?base,
              ol_explicit = explicit_max_attempts c, ol_started_at = now\<rparr>"
  from False assms(1) have loop: "open_loop ?l env 1 (Some b) = (r, evs, budget')"
    by (simp add: open_upstream_response_def attempt_budget_of_def Let_def)
  have "retry_attempts ?l b' k \<le> ?base" if "(b' = None) = (Some b = None)" for b' k
    using that planned_attempts [of ?l b' k] assms(2) by simp
  from loop_bounded [OF loop this] have "int (length (sent evs)) \<le> max 1 ?base" by simp
  moreover have "max 1 ?base \<le> remaining_open_attempts b" using False by simp
  ultimately have "ab_attempts_started b + int (length (sent evs)) \<le> ab_max_attempts b"
    using False by (simp add: remaining_open_attempts_def)
  with loop_numbers [OF loop] show ?thesis by (simp add: request_attempt_def)
qed

text \<open>Calls that share one count of attempts send, all together, no more requests than the count
  allows; the requests are numbered one after the other and the count says how many there were.\<close>

lemma shared_attempts_bounded:
  assumes "open_calls calls b = (rs, evs, budget')"
    and "\<forall>(s, c, now, env) \<in> set calls. oc_execution c \<noteq> None" "ab_attempts_started b \<le> ab_max_attempts b"
  shows "length rs = length calls
    \<and> map fst (sent evs) = map (\<lambda>i. ab_attempts_started b + 1 + int i) [0..<length (sent evs)]
    \<and> budget' = Some (b\<lparr>ab_attempts_started := ab_attempts_started b + int (length (sent evs))\<rparr>)
    \<and> ab_attempts_started b + int (length (sent evs)) \<le> ab_max_attempts b"
  using assms
proof (induction calls b arbitrary: rs evs budget' rule: open_calls.induct)
  case (2 s c now env calls b)
  obtain r evs1 b1 where call: "open_upstream_response s c now env (Some b) = (r, evs1, b1)" by (metis prod_cases3)
  from call_counts [OF this] 2(3,4)
  have numbers: "map fst (sent evs1) = map (\<lambda>i. ab_attempts_started b + 1 + int i) [0..<length (sent evs1)]"
    and b1: "b1 = Some (b\<lparr>ab_attempts_started := ab_attempts_started b + int (length (sent evs1))\<rparr>)"
    and le: "ab_attempts_started b + int (length (sent evs1)) \<le> ab_max_attempts b" by auto
  obtain rs2 evs2 b2 where rest: "open_calls calls (the b1) = (rs2, evs2, b2)" by (metis prod_cases3)
  with 2(2) call b1 have eqs: "rs = r # rs2" "evs = evs1 @ evs2" "budget' = b2" by auto
  let ?k = "length (sent evs1)"
  let ?b1 = "b\<lparr>ab_attempts_started := ab_attempts_started b + int ?k\<rparr>"
  have "length rs2 = length calls
    \<and> map fst (sent evs2) = map (\<lambda>i. ab_attempts_started ?b1 + 1 + int i) [0..<length (sent evs2)]
    \<and> b2 = Some (?b1\<lparr>ab_attempts_started := ab_attempts_started ?b1 + int (length (sent evs2))\<rparr>)
    \<and> ab_attempts_started ?b1 + int (length (sent evs2)) \<le> ab_max_attempts ?b1"
    using 2(3) rest le by (intro 2(1) [OF call [symmetric] refl b1]) (auto simp: b1)
  then show ?case
    using numbers by (simp add: eqs upt_append_map add.assoc)
qed simp

section \<open>What is repeated, and until when\<close>

lemma unsafe_call:
  assumes "open_upstream_response s c now env given = (r, evs, budget')" "apply_retry_safety (apply_plan c)"
  shows "\<forall>i < length (sent evs) - 1. \<exists>x. ae_outcome (env (1 + int i)) = Raises x
    \<and> safety_phase x \<in> {''dns'', ''tcp_connect'', ''tls_handshake''} \<and> \<not> ae_exposed (env (1 + int i))"
proof (cases "sent evs = []")
  case False
  with assms(1) obtain l budget where loop: "open_loop l env 1 budget = (r, evs, budget')" "ol_call l = apply_plan c"
    using call_is_loop by metis
  have "\<exists>x. ae_outcome e = Raises x \<and> safety_phase x \<in> {''dns'', ''tcp_connect'', ''tls_handshake''} \<and> \<not> ae_exposed e"
    if "retried l e" for e
    using that assms(2) unfolding retried_def loop(2) apply_retry_safety_def
    by (auto simp: failure_safety_def retry_safety_class_def path_idempotency_guaranteed_def Let_def
        SUPPRESSED_RETRY_SAFETY_CLASSES_def split: if_splits)
  with loop_retried [OF loop(1)] show ?thesis by blast
qed simp

text \<open>C15: A main-generation \<open>POST\<close> to a provider other than the official one is sent again only after a failure
  that proves the previous request was not written, and only while the client has seen nothing: every
  attempt but the last failed in name resolution, connecting or the TLS handshake.\<close>

lemma unsafe_request_sent_once:
  assumes "open_upstream_response s c now env given = (r, evs, budget')" "apply_retry_safety (apply_plan c)"
  shows "\<forall>i < length (sent evs) - 1. \<exists>x. ae_outcome (env (1 + int i)) = Raises x
    \<and> safety_phase x \<in> {''dns'', ''tcp_connect'', ''tls_handshake''} \<and> \<not> ae_exposed (env (1 + int i))"
  using assms by (rule unsafe_call)

text \<open>C12: With a deadline, no request is sent at or after it, the time-out of each ends by it, no wait between two
  attempts reaches it, and a response is handed over only when it came in before it.\<close>

lemma deadline_respected:
  assumes "open_upstream_response s c now env given = (r, evs, budget')" "oc_deadline c = Some d"
  shows "(\<forall>i < length (sent evs). ae_clock_clamp (env (1 + int i)) < d
             \<and> ae_clock_clamp (env (1 + int i)) + snd (sent evs ! i) \<le> d)
    \<and> (\<forall>i < length (slept evs). ae_clock_delay (env (1 + int i)) + of_int (slept evs ! i) < d)
    \<and> (r = Inr () \<longrightarrow> ae_clock_response (env (int (length (sent evs)))) < d)"
proof (intro conjI allI impI)
  fix i assume i: "i < length (sent evs)"
  then obtain l budget where loop: "open_loop l env 1 budget = (r, evs, budget')" "ol_call l = apply_plan c"
    using assms(1) call_is_loop by (metis list.size(3) not_less0)
  from loop_timeouts [OF loop(1)] i
  have "clamp_timeout (oc_timeout (ol_call l)) (Some d) (ae_clock_clamp (env (1 + int i))) = Some (snd (sent evs ! i))"
    by (simp add: loop(2) assms(2))
  then show "ae_clock_clamp (env (1 + int i)) < d" "ae_clock_clamp (env (1 + int i)) + snd (sent evs ! i) \<le> d"
    by (auto simp: clamp_timeout_def remaining_pre_response_budget_def min_def split: if_splits)
next
  fix i assume i: "i < length (slept evs)"
  then obtain l budget where loop: "open_loop l env 1 budget = (r, evs, budget')" "ol_call l = apply_plan c"
    using assms(1) call_is_loop by (metis list.size(3) not_less0)
  from loop_delays [OF loop(1)] i
  have "delay_within_budget (Some d) (slept evs ! i) (ae_clock_delay (env (1 + int i)))"
    by (simp add: loop(2) assms(2))
  then show "ae_clock_delay (env (1 + int i)) + of_int (slept evs ! i) < d"
    by (simp add: delay_within_budget_def remaining_pre_response_budget_def algebra_simps)
next
  assume "r = Inr ()"
  then obtain l budget where loop: "open_loop l env 1 budget = (r, evs, budget')" "ol_call l = apply_plan c"
    using assms(1) response_from_loop by metis
  from loop_last [OF loop(1)] \<open>r = Inr ()\<close> show "ae_clock_response (env (int (length (sent evs)))) < d"
    by (simp add: loop(2) assms(2) budget_used_up_def remaining_pre_response_budget_def)
qed

text \<open>C37: A response is the answer to the last request sent, and an error raised for a failure is the very
  exception of the last request; every request before it failed, with a failure that was classified and not
  permanent, and with an HTTP error only when those are to be repeated.\<close>

lemma outcome_of_last_attempt:
  assumes "open_upstream_response s c now env given = (r, evs, budget')"
  shows "(r = Inr () \<longrightarrow> sent evs \<noteq> [] \<and> ae_outcome (env (int (length (sent evs)))) = Responds)
    \<and> (\<forall>x. r = Inl (Failure x) \<longrightarrow> sent evs \<noteq> [] \<and> ae_outcome (env (int (length (sent evs)))) = Raises x)
    \<and> (\<forall>i < length (sent evs) - 1. \<exists>x k. ae_outcome (env (1 + int i)) = Raises x
         \<and> upstream_failure_class x = Inr k \<and> k \<noteq> Permanent
         \<and> (is_http_error x \<longrightarrow> oc_retry_http_errors (apply_plan c)))"
proof (intro conjI)
  show "r = Inr () \<longrightarrow> sent evs \<noteq> [] \<and> ae_outcome (env (int (length (sent evs)))) = Responds"
    using response_from_loop [OF assms] loop_last by (metis add_diff_cancel_left')
  show "\<forall>x. r = Inl (Failure x) \<longrightarrow> sent evs \<noteq> [] \<and> ae_outcome (env (int (length (sent evs)))) = Raises x"
    using response_from_loop [OF assms] loop_last by (metis add_diff_cancel_left')
  show "\<forall>i < length (sent evs) - 1. \<exists>x k. ae_outcome (env (1 + int i)) = Raises x
         \<and> upstream_failure_class x = Inr k \<and> k \<noteq> Permanent
         \<and> (is_http_error x \<longrightarrow> oc_retry_http_errors (apply_plan c))"
  proof (intro allI impI)
    fix i assume i: "i < length (sent evs) - 1"
    then have "sent evs \<noteq> []" by auto
    with assms obtain l budget where loop: "open_loop l env 1 budget = (r, evs, budget')" "ol_call l = apply_plan c"
      using call_is_loop by metis
    from loop_retried [OF loop(1)] i have "retried l (env (1 + int i))" by simp
    then show "\<exists>x k. ae_outcome (env (1 + int i)) = Raises x \<and> upstream_failure_class x = Inr k \<and> k \<noteq> Permanent
         \<and> (is_http_error x \<longrightarrow> oc_retry_http_errors (apply_plan c))"
      by (auto simp: retried_def loop(2))
  qed
qed

text \<open>A \<open>Retry-After\<close> header that reads as an infinity (\<open>inf\<close>, \<open>1e999\<close>) raises out of the loop in place of the
  provider's failure.\<close>

lemma infinite_retry_after_escapes:
  assumes "exn_kind x = Http_Error h" "get_header (he_headers h) ''retry-after'' = Some v" "str_strip v \<noteq> []"
    and "he_retry_after h = Seconds (Infinite negative)" "c \<noteq> Permanent" "attempt < retry_attempts l budget c"
  shows "retry_or_raise l budget attempt n e x c = ([], Some (Escaped_Error Ceiling_Of_Infinity))"
  using assms by (simp add: retry_or_raise_def retry_after_delay_seconds_def ceiling_seconds_def)

section \<open>Witnesses\<close>

text \<open>A refused connection and then a response, with a plan that allows three requests in 300 seconds.\<close>

definition sample_plan :: retry_plan where
  "sample_plan = \<lparr>rp_eligibility = Supported, rp_policy = Gateway_Full, rp_request_kind = ''main_generation'',
     rp_request_timeout = 600, rp_base_open_attempts = 5, rp_base_relay_attempts = 5, rp_failure_expansion = 8,
     rp_attempts_configured = False, rp_retry_http_errors = True, rp_open_attempt_budget = Some 3,
     rp_capacity_elapsed_limit = 0, rp_stream_elapsed_limit = 0, rp_emit_retry_notice = False,
     rp_pre_response_budget = Some 300, rp_lifecycle_final_retry = False, rp_empty_completed_max = 2\<rparr>"

definition sample_call :: open_call where
  "sample_call = \<lparr>oc_upstream_name = ''external'', oc_method = ''POST'', oc_path = [], oc_timeout = 600,
     oc_request_kind = ''main_generation'', oc_max_attempts = None, oc_retry_policy = Gateway_Full,
     oc_retry_http_errors = True, oc_execution = Some sample_plan, oc_notice = False, oc_deadline = Some 300\<rparr>"

definition sample_settings :: retry_settings where
  "sample_settings = \<lparr>rs_attempts = 5, rs_attempts_configured = False, rs_auto_retry_max = 8, rs_capacity_elapsed_limit = 0\<rparr>"

definition sample_attempt :: "rat \<Rightarrow> open_outcome \<Rightarrow> attempt_env" where
  "sample_attempt now outcome = \<lparr>ae_cancelled_first = False, ae_clock_clamp = now, ae_outcome = outcome,
     ae_clock_response = now + 1, ae_cancelled_response = False, ae_cancelled_error = False, ae_exposed = False,
     ae_clock_error = now + 1, ae_wall_clock = now, ae_clock_elapsed = now + 1, ae_clock_capacity = now + 1,
     ae_clock_delay = now + 1, ae_noticed = True, ae_cancelled_sleep = False\<rparr>"

definition refused :: exn where "refused = Exn Connection_Refused (Some ''tcp_connect'') [] None []"

definition sample_env :: "int \<Rightarrow> attempt_env" where
  "sample_env i = (if i = 1 then sample_attempt 10 (Raises refused) else sample_attempt 20 Responds)"

definition sample_trace :: "open_event list" where
  "sample_trace =
     [Sent 1 290, Observed_Phase ''upstream_tcp'' 1 3 False, Observed_Attempt 1 3 False (Some ''tcp_connect''),
      Retry_Scheduled 1 3 2 Quick_Transient (Some ''tcp_connect'') Safe_Prewrite, Slept 2, Sent 2 280,
      Transport_Attached, Observed_Phase ''upstream_request_write'' 2 3 True, Observed_Attempt 2 3 True None,
      Observed_Headers]"

lemma sample_run:
  "open_upstream_response sample_settings sample_call 0 sample_env (Some \<lparr>ab_max_attempts = 3, ab_attempts_started = 0\<rparr>)
     = (Inr (), sample_trace, Some \<lparr>ab_max_attempts = 3, ab_attempts_started = 2\<rparr>)"
  unfolding sample_trace_def by code_simp

lemma sample_sent [simp]: "sent sample_trace = [(1, 290), (2, 280)]" "slept sample_trace = [2]"
  by (simp_all add: sample_trace_def)

lemma shared_attempts_bounded_witness:
  "0 + int (length (sent sample_trace)) \<le> (3 :: int) \<and> map fst (sent sample_trace) = [0 + 1 + int 0, 0 + 1 + int 1]"
proof -
  have "open_calls [(sample_settings, sample_call, 0, sample_env)] \<lparr>ab_max_attempts = 3, ab_attempts_started = 0\<rparr>
      = ([Inr ()], sample_trace, Some \<lparr>ab_max_attempts = 3, ab_attempts_started = 2\<rparr>)"
    by (simp add: sample_run del: sample_sent)
  from shared_attempts_bounded [OF this] show ?thesis by (simp add: sample_call_def)
qed

lemma unsafe_request_sent_once_witness:
  "\<exists>x. ae_outcome (sample_env 1) = Raises x
    \<and> safety_phase x \<in> {''dns'', ''tcp_connect'', ''tls_handshake''} \<and> \<not> ae_exposed (sample_env 1)"
proof -
  have "apply_retry_safety (apply_plan sample_call)"
    by (simp add: apply_retry_safety_def apply_plan_def sample_call_def sample_plan_def OFFICIAL_UPSTREAM_NAME_def
        RETRY_REQUEST_MAIN_GENERATION_def)
  from unsafe_request_sent_once [OF sample_run this, THEN spec, of 0] show ?thesis by simp
qed

lemma deadline_respected_witness:
  "ae_clock_clamp (sample_env 2) < 300 \<and> ae_clock_clamp (sample_env 2) + 280 \<le> 300
    \<and> ae_clock_delay (sample_env 1) + 2 < 300 \<and> ae_clock_response (sample_env 2) < 300"
proof -
  have "oc_deadline sample_call = Some 300" by (simp add: sample_call_def)
  note facts = deadline_respected [OF sample_run this]
  from facts [THEN conjunct1, rule_format, of 1] facts [THEN conjunct2, THEN conjunct1, rule_format, of 0]
    facts [THEN conjunct2, THEN conjunct2, rule_format, OF refl]
  show ?thesis by simp
qed

lemma outcome_of_last_attempt_witness:
  "ae_outcome (sample_env 2) = Responds
    \<and> (\<exists>x k. ae_outcome (sample_env 1) = Raises x \<and> upstream_failure_class x = Inr k \<and> k \<noteq> Permanent)"
proof -
  note facts = outcome_of_last_attempt [OF sample_run]
  from facts [THEN conjunct1, rule_format, OF refl]
    facts [THEN conjunct2, THEN conjunct2, rule_format, of 0]
  show ?thesis by auto
qed

end
