(* ===== verification/Exchange_Properties.thy ===== *)
theory Exchange_Properties
  imports Exchange Upstream_Retry_Properties
begin

text \<open>
  What holds of a whole exchange.  The locale \<open>exchange_invariant\<close> says what a statement on the state has to
  survive: the elementary changes of the state and the opening of an upstream request; the exchange
  keeps every such statement.  It is interpreted for the shared count of attempts and for the order of
  events after the client's stream has started.
\<close>

section \<open>Statements an exchange keeps\<close>

definition ordinary :: "exchange_event \<Rightarrow> bool" where
  "ordinary ev \<longleftrightarrow>
     (case ev of X_Open _ _ _ _ \<Rightarrow> False | X_Relay _ _ _ \<Rightarrow> False | X_Fallback _ _ \<Rightarrow> False | X_Sse_Started \<Rightarrow> False
      | _ \<Rightarrow> True)"

definition record_open ::
  "route_attempt \<Rightarrow> int \<Rightarrow> rat option \<Rightarrow> open_event list \<Rightarrow> attempt_budget option \<Rightarrow> exchange_state \<Rightarrow> exchange_state" where
  "record_open a k deadline evs budget s =
     emit [X_Open (ra_index a) k deadline evs] (if xs_budget s = None then s else s\<lparr>xs_budget := budget\<rparr>)"

locale exchange_invariant =
  fixes q :: exchange_request and env :: exchange_env and notice :: bool and I :: "exchange_state \<Rightarrow> bool"
  assumes quiet: "I s \<Longrightarrow> list_all ordinary evs \<Longrightarrow> I (emit evs s)"
    and started: "I s \<Longrightarrow> I (start_sse s)"
    and bodies: "I s \<Longrightarrow> I (s\<lparr>xs_bodies := bs\<rparr>)"
    and active: "I s \<Longrightarrow> I (s\<lparr>xs_active := i\<rparr>)"
    and relay: "I s \<Longrightarrow> I (emit [X_Relay j (xs_sse_started s) deferred] s)"
    and fallback: "I s \<Longrightarrow> \<not> xs_sse_started s \<Longrightarrow> I (emit [X_Fallback j k] s)"
    and opened: "I s \<Longrightarrow>
      open_upstream_response (xq_settings q) (open_call_of q notice a s) now attempts (xs_budget s) = (r, tr, budget) \<Longrightarrow>
      I (record_open a k (oc_deadline (open_call_of q notice a s)) tr budget s)"
begin

lemma keeps_body:
  assumes "I s" "body_for env i s = (r, s')"
  shows "I s'"
proof -
  have "I (emit [X_Prepared i] s)" "I (emit [X_Prepared i] (s\<lparr>xs_bodies := bs\<rparr>))" for bs
    using assms(1) by (auto intro!: quiet bodies simp: ordinary_def)
  with assms show ?thesis by (auto simp: body_for_def split: option.splits sum.splits)
qed

lemma keeps_sse: "I s \<Longrightarrow> I (start_sse_if b s)"
  by (simp add: start_sse_if_def started)

lemma keeps_open: "I s \<Longrightarrow> open_upstream q notice e a k s = (r, s') \<Longrightarrow> I s'"
  by (auto simp: open_upstream_def Let_def record_open_def [symmetric] split: prod.splits
      intro!: keeps_sse opened)

lemma emit_append: "emit (evs @ evs') s = emit evs' (emit evs s)"
  by (simp add: emit_def)

lemma keeps_relay: "I s \<Longrightarrow> relay_response e a deferred s = (r, s') \<Longrightarrow> I s'"
proof -
  assume "I s" and r: "relay_response e a deferred s = (r, s')"
  then have "I (emit [X_Attached] s)" by (auto intro!: quiet simp: ordinary_def)
  from relay [OF this, of "ra_index a" deferred]
  have "I (emit [X_Attached, X_Relay (ra_index a) (xs_sse_started s) deferred] s)" by (simp add: emit_def)
  then have "I (emit [X_Response_Left] (start_sse_if b (emit [X_Attached, X_Relay (ra_index a) (xs_sse_started s) deferred] s)))"
    for b by (auto intro!: quiet keeps_sse simp: ordinary_def)
  then show ?thesis using r by (auto simp: relay_response_def Let_def split: relay_outcome.splits)
qed

lemma keeps_open_and_relay:
  assumes "I s" "open_and_relay q notice e a k n s = (r, s')"
  shows "I s'"
proof -
  obtain t s1 where t: "open_upstream q notice e a k s = (t, s1)" by (metis surj_pair)
  with assms(1) have s1: "I s1" by (rule keeps_open)
  have "s' = s1 \<or> relay_response e a (k < n) s1 = (r, s')"
  proof (cases t)
    case (Inl err)
    then show ?thesis using assms(2) t by (cases err) (simp_all add: open_and_relay_def)
  next
    case (Inr u)
    then show ?thesis using assms(2) t by (simp add: open_and_relay_def)
  qed
  with s1 show ?thesis by (auto dest: keeps_relay)
qed

lemma keeps_suppressed: "I s \<Longrightarrow> suppressed_relay e x s = (r, s') \<Longrightarrow> I s'"
proof -
  assume "I s" and r: "suppressed_relay e x s = (r, s')"
  then have "I (emit [X_Empty_Completed] s)" "I (emit [X_Empty_Completed, X_Finish_Failure] s)"
    by (auto intro!: quiet simp: ordinary_def)
  with r \<open>I s\<close> show ?thesis by (auto simp: suppressed_relay_def split: if_splits)
qed

lemma keeps_announce:
  assumes "I s" "announce_retry notice' e n delay ev s = (r, s')" "ordinary ev"
  shows "I s'"
proof -
  have "I (emit [ev, X_Notice, X_Finish_Failure] s)" "I (emit [X_Waited delay] (emit [ev] s))"
    "I (emit [X_Waited delay] (start_sse (emit [ev, X_Notice] s)))"
    using assms(1,3) by (auto intro!: quiet started simp: ordinary_def)
  with assms(2) show ?thesis by (auto simp: announce_retry_def Let_def split: if_splits)
qed

lemma keeps_failed:
  assumes "I s" "relay_failed q notice' e a k n x s = (r, s')"
  shows "I s'"
proof -
  have "I (emit [X_Suppressed k m c p z] s)" for m c p z
    using assms(1) by (auto intro!: quiet simp: ordinary_def)
  with assms show ?thesis
    by (auto simp: relay_failed_def Let_def ordinary_def split: if_splits sum.splits option.splits
        elim!: keeps_suppressed [rotated] keeps_announce [rotated])
qed

lemma keeps_round:
  assumes "I s" "relay_round q env notice a k n s = (r, s')"
  shows "I s'"
proof (cases "1 < k \<and> xq_upstream_name q = CHATGPT_WEB \<and> re_submitted (xe_round env (ra_index a) k)")
  case True
  with assms show ?thesis by (simp add: relay_round_def)
next
  case False
  note round = assms(2) [unfolded relay_round_def Let_def if_not_P [OF False]]
  obtain b s1 where b: "body_for env (ra_index a) s = (b, s1)" by (metis surj_pair)
  with assms(1) have s1: "I s1" by (rule keeps_body)
  show ?thesis
  proof (cases b)
    case (Inl err)
    with round b s1 show ?thesis by simp
  next
    case (Inr body)
    have "I (emit [X_Request (ra_index a) body, X_Request_Start] s1)"
      using s1 by (auto intro!: quiet simp: ordinary_def)
    moreover obtain t s2 where t: "open_and_relay q notice (xe_round env (ra_index a) k) a k n
        (emit [X_Request (ra_index a) body, X_Request_Start] s1) = (t, s2)" by (metis surj_pair)
    ultimately have s2: "I s2" by (rule keeps_open_and_relay)
    then have "I (emit [X_Finish_Failure] s2)" by (auto intro!: quiet simp: ordinary_def)
    with round b Inr t s2 show ?thesis
      by (auto split: round_result.splits exchange_error.splits if_splits dest: keeps_failed)
  qed
qed

lemma keeps_loop_aux:
  "q' = q \<Longrightarrow> env' = env \<Longrightarrow> notice' = notice \<Longrightarrow> I s \<Longrightarrow> relay_loop q' env' notice' a k n s = (r, m, s') \<Longrightarrow> I s'"
proof (induction q' env' notice' a k n s arbitrary: r m s' rule: relay_loop.induct)
  case (1 q' env' notice' a k n s)
  show ?case
  proof (cases "n < k")
    case True
    with 1 show ?thesis by (simp add: relay_loop.simps [of q env notice a])
  next
    case False
    obtain t s1 where round: "relay_round q' env' notice' a k n s = (t, s1)" by (metis surj_pair)
    with 1(2,3,4,5) have s1: "I s1" by (auto dest: keeps_round)
    show ?thesis
    proof (cases t)
      case (Give_Up r')
      with 1(6) False round s1 show ?thesis by (simp add: relay_loop.simps [of q' env' notice' a])
    next
      case (Try_Again n')
      with 1(6) False round have "relay_loop q' env' notice' a (k + 1) n' s1 = (r, m, s')"
        by (simp add: relay_loop.simps [of q' env' notice' a k])
      from 1(1) [OF False round [symmetric] Try_Again 1(2,3,4) s1 this] show ?thesis .
    qed
  qed
qed

lemmas keeps_loop = keeps_loop_aux [OF refl refl refl]

lemma keeps_http_error: "I s \<Longrightarrow> after_http_error q a k x s = (r, s') \<Longrightarrow> I s'"
proof -
  assume "I s" and r: "after_http_error q a k x s = (r, s')"
  then have "I (emit [X_Fallback_Suppressed k c z] s)" for c z by (auto intro!: quiet simp: ordinary_def)
  with r \<open>I s\<close> show ?thesis
    by (auto simp: after_http_error_def Let_def split: option.splits if_splits sum.splits intro: fallback)
qed

lemma keeps_attempts: "I s \<Longrightarrow> run_attempts q env notice as s = (r, s') \<Longrightarrow> I s'"
proof (induction as arbitrary: s)
  case (Cons a as)
  obtain t m s1 where loop: "relay_loop q env notice a 1 (rp_base_relay_attempts (ra_retry a))
      (s\<lparr>xs_active := Some (ra_index a)\<rparr>) = (t, m, s1)" by (metis prod_cases3)
  with Cons(2) have s1: "I s1" by (auto intro: active keeps_loop)
  show ?case
  proof (cases "\<exists>x. t = Inl (Raised x) \<and> is_http_error x")
    case True
    then obtain x where x: "t = Inl (Raised x)" "is_http_error x" by blast
    obtain u s2 where u: "after_http_error q a m x s1 = (u, s2)" by (metis surj_pair)
    with s1 have "I s2" by (rule keeps_http_error)
    with Cons loop x u show ?thesis by (cases u) auto
  next
    case False
    with Cons(3) loop have "s' = s1" by (auto split: sum.splits exchange_error.splits if_splits)
    with s1 show ?thesis by simp
  qed
qed simp

end

section \<open>The start of an exchange\<close>

lemma emit_fields [simp]:
  "xs_trace (emit evs s) = xs_trace s @ evs" "xs_sse_started (emit evs s) = xs_sse_started s"
  "xs_budget (emit evs s) = xs_budget s" "xs_bodies (emit evs s) = xs_bodies s"
  by (simp_all add: emit_def)

lemma start_sse_fields [simp]:
  "xs_trace (start_sse s) = xs_trace s @ [X_Sse_Started]" "xs_sse_started (start_sse s)"
  "xs_budget (start_sse s) = xs_budget s"
  by (simp_all add: start_sse_def)

lemma record_open_fields [simp]:
  "xs_trace (record_open a k d tr budget s) = xs_trace s @ [X_Open (ra_index a) k d tr]"
  "xs_sse_started (record_open a k d tr budget s) = xs_sse_started s"
  "xs_budget (record_open a k d tr budget s) = (if xs_budget s = None then None else budget)"
  by (simp_all add: record_open_def)

lemma new_exchange_fields [simp]:
  "xs_trace (new_exchange q) = []" "xs_sse_started (new_exchange q) = xq_sse_started q" "xs_bodies (new_exchange q) = []"
  by (simp_all add: new_exchange_def)

text \<open>The state the attempts start from.\<close>

definition started_exchange :: "exchange_request \<Rightarrow> exchange_env \<Rightarrow> route_attempt \<Rightarrow> exchange_state" where
  "started_exchange q env a =
     (emit [X_Request_Start] (snd (body_for env (ra_index a) (new_exchange q))))
       \<lparr>xs_budget := new_open_attempt_budget (ra_retry a)\<rparr>"

lemma started_fields [simp]:
  "xs_sse_started (started_exchange q env a) = xq_sse_started q"
  "xs_trace (started_exchange q env a) = [X_Prepared (ra_index a), X_Request_Start]"
  "xs_budget (started_exchange q env a) = new_open_attempt_budget (ra_retry a)"
  by (simp_all add: started_exchange_def body_for_def split: sum.split)

lemma exchange_cases:
  obtains (none) err where "execute_exchange q env = (Inl err, new_exchange q)"
      "err = Runtime_Error ''cannot execute a route plan without attempts''" "xq_attempts q = []"
  | (unprepared) a rest err where "xq_attempts q = a # rest"
      "execute_exchange q env = (Inl (Translation_Failed err), emit [X_Prepared (ra_index a)] (new_exchange q))"
  | (replayed) a rest outcome where "xq_attempts q = a # rest"
      "execute_exchange q env = replay a outcome (started_exchange q env a)"
  | (attempted) a rest where "xq_attempts q = a # rest"
      "execute_exchange q env
         = run_attempts q env (rp_emit_retry_notice (ra_retry a)) (xq_attempts q) (started_exchange q env a)"
proof (cases "xq_attempts q")
  case Nil
  then show ?thesis by (intro none) (simp_all add: execute_exchange_def)
next
  case (Cons a rest)
  show ?thesis
  proof (cases "xe_prepare env (ra_index a)")
    case (Inl err)
    with Cons show ?thesis by (intro unprepared) (simp_all add: execute_exchange_def body_for_def)
  next
    case (Inr body)
    then have b: "body_for env (ra_index a) (new_exchange q) = (Inr body, snd (body_for env (ra_index a) (new_exchange q)))"
      by (simp add: body_for_def)
    show ?thesis
    proof (cases "xe_replay env")
      case None
      with Cons b show ?thesis
        by (intro attempted) (auto simp: execute_exchange_def started_exchange_def Let_def split: prod.splits)
    next
      case (Some outcome)
      with Cons b show ?thesis
        by (intro replayed) (auto simp: execute_exchange_def started_exchange_def Let_def split: prod.splits)
    qed
  qed
qed

section \<open>The shared count\<close>

definition all_sent :: "exchange_event list \<Rightarrow> (int \<times> rat) list" where
  "all_sent tr = concat (map (\<lambda>ev. case ev of X_Open _ _ _ evs \<Rightarrow> sent evs | _ \<Rightarrow> []) tr)"

lemma all_sent_simps [simp]:
  "all_sent [] = []" "all_sent (xs @ ys) = all_sent xs @ all_sent ys"
  "all_sent (ev # xs) = (case ev of X_Open _ _ _ evs \<Rightarrow> sent evs | _ \<Rightarrow> []) @ all_sent xs"
  by (simp_all add: all_sent_def)

lemma all_sent_ordinary [simp]: "list_all ordinary evs \<Longrightarrow> all_sent evs = []"
  by (induction evs) (auto simp: ordinary_def split: exchange_event.splits)

definition counted :: "int \<Rightarrow> exchange_state \<Rightarrow> bool" where
  "counted n s \<longleftrightarrow>
     (let k = length (all_sent (xs_trace s))
      in xs_budget s = Some \<lparr>ab_max_attempts = n, ab_attempts_started = int k\<rparr> \<and> int k \<le> n
         \<and> map fst (all_sent (xs_trace s)) = map (\<lambda>i. 1 + int i) [0..<k])"

interpretation counting: exchange_invariant q env notice "counted n" for q env notice n
proof unfold_locales
  fix s a now attempts r tr budget k
  assume c: "counted n s"
    and call: "open_upstream_response (xq_settings q) (open_call_of q notice a s) now attempts (xs_budget s) = (r, tr, budget)"
  let ?k = "length (all_sent (xs_trace s))"
  from c have b: "xs_budget s = Some \<lparr>ab_max_attempts = n, ab_attempts_started = int ?k\<rparr>" "int ?k \<le> n"
    "map fst (all_sent (xs_trace s)) = map (\<lambda>i. 1 + int i) [0..<?k]" by (simp_all add: counted_def Let_def)
  from call_counts [OF call [unfolded b(1)]] b(2)
  have "map fst (sent tr) = map (\<lambda>i. int ?k + 1 + int i) [0..<length (sent tr)]"
    "budget = Some \<lparr>ab_max_attempts = n, ab_attempts_started = int ?k + int (length (sent tr))\<rparr>"
    "int ?k + int (length (sent tr)) \<le> n"
    by (simp_all add: open_call_of_def)
  with b show "counted n (record_open a k (oc_deadline (open_call_of q notice a s)) tr budget s)"
    by (simp add: counted_def Let_def upt_append_map add.assoc add.left_commute [of 1])
qed (simp_all add: counted_def)

text \<open>C16: An exchange whose plan sets a number of open attempts sends no more requests than that to the
  provider, over all repetitions of the opening, all repetitions of the relay and all protocols tried; they are
  numbered from one.\<close>

lemma exchange_attempts_bounded:
  assumes "execute_exchange q env = (r, s)" "xq_attempts q = a # rest" "rp_open_attempt_budget (ra_retry a) = Some n" "0 \<le> n"
  shows "int (length (all_sent (xs_trace s))) \<le> n
    \<and> map fst (all_sent (xs_trace s)) = map (\<lambda>i. 1 + int i) [0..<length (all_sent (xs_trace s))]"
proof (cases rule: exchange_cases [of q env])
  case (attempted a' rest')
  with assms have "counted n (started_exchange q env a')"
    by (simp add: counted_def new_open_attempt_budget_def)
  moreover have "run_attempts q env (rp_emit_retry_notice (ra_retry a')) (xq_attempts q) (started_exchange q env a') = (r, s)"
    using attempted(2) assms(1) by (rule trans [OF sym])
  ultimately have "counted n s" by (rule counting.keeps_attempts)
  then show ?thesis by (simp add: counted_def Let_def)
qed (use assms in \<open>auto simp: replay_def start_sse_if_def Let_def split: relay_outcome.splits\<close>)

section \<open>Once the client's stream has started\<close>

definition after_start :: "exchange_event \<Rightarrow> bool" where
  "after_start ev \<longleftrightarrow>
     (case ev of X_Fallback _ _ \<Rightarrow> False | X_Open _ _ deadline _ \<Rightarrow> deadline = None | X_Relay _ headers_sent _ \<Rightarrow> headers_sent
      | _ \<Rightarrow> True)"

fun sse_order :: "bool \<Rightarrow> exchange_event list \<Rightarrow> bool" where
  "sse_order st [] \<longleftrightarrow> True"
| "sse_order st (ev # evs) \<longleftrightarrow> (st \<longrightarrow> after_start ev) \<and> sse_order (st \<or> X_Sse_Started = ev) evs"

lemma sse_order_append: "sse_order st (xs @ ys) \<longleftrightarrow> sse_order st xs \<and> sse_order (st \<or> X_Sse_Started \<in> set xs) ys"
  by (induction xs arbitrary: st) auto

lemma ordinary_order: "list_all ordinary evs \<Longrightarrow> sse_order st evs \<and> X_Sse_Started \<notin> set evs"
  by (induction evs arbitrary: st) (auto simp: ordinary_def after_start_def split: exchange_event.splits)

definition in_order :: "bool \<Rightarrow> exchange_state \<Rightarrow> bool" where
  "in_order st s \<longleftrightarrow> sse_order st (xs_trace s) \<and> xs_sse_started s = (st \<or> X_Sse_Started \<in> set (xs_trace s))"

interpretation ordering: exchange_invariant q env notice "in_order st" for q env notice st
proof unfold_locales
  fix s evs assume "in_order st s" "list_all ordinary evs"
  with ordinary_order [of evs] show "in_order st (emit evs s)" by (auto simp: in_order_def sse_order_append)
qed (auto simp: in_order_def sse_order_append after_start_def open_call_of_def)

text \<open>C17: Once the client's stream has started, no other protocol is tried, no opening is under the pre-response
  deadline any more, and every relay is told that the headers are out.\<close>

lemma started_stream_is_kept: "sse_order (xq_sse_started q) (xs_trace (snd (execute_exchange q env)))"
proof (cases rule: exchange_cases [of q env])
  case (replayed a rest outcome)
  then show ?thesis
    by (auto simp: replay_def start_sse_if_def Let_def after_start_def split: relay_outcome.splits)
next
  case (attempted a rest)
  have "in_order (xq_sse_started q) (started_exchange q env a)" by (simp add: in_order_def after_start_def)
  with attempted(2) have "in_order (xq_sse_started q) (snd (execute_exchange q env))"
    by (metis ordering.keeps_attempts prod.collapse)
  then show ?thesis by (simp add: in_order_def)
qed (auto simp: after_start_def)

section \<open>A request that may have arrived is not sent again\<close>

definition is_open :: "exchange_event \<Rightarrow> bool" where
  "is_open ev \<longleftrightarrow> (case ev of X_Open _ _ _ _ \<Rightarrow> True | _ \<Rightarrow> False)"

definition is_repetition :: "exchange_event \<Rightarrow> bool" where
  "is_repetition ev \<longleftrightarrow> (case ev of X_Retry _ _ _ _ _ _ \<Rightarrow> True | X_Fallback _ _ \<Rightarrow> True | _ \<Rightarrow> False)"

definition unsafe_plan :: "exchange_request \<Rightarrow> route_attempt \<Rightarrow> bool" where
  "unsafe_plan q a \<longleftrightarrow> xq_upstream_name q \<noteq> OFFICIAL_UPSTREAM_NAME
     \<and> rp_request_kind (ra_retry a) = RETRY_REQUEST_MAIN_GENERATION"

text \<open>Its relay failures count as exposed, whatever was written.\<close>

lemma unsafe_relay: "unsafe_plan q a \<Longrightarrow> relay_safety q (ra_retry a) x phase = Suppressed_Post_Exposure"
  by (simp add: unsafe_plan_def relay_safety_def retry_safety_class_def)

lemma unsafe_gives_up:
  assumes "unsafe_plan q a" "relay_failed q notice e a k n x s = (t, s')"
  shows "(\<exists>r. t = Give_Up r) \<and> (\<exists>new. xs_trace s' = xs_trace s @ new \<and> filter is_open new = [] \<and> filter is_repetition new = [])"
  using assms(2) unsafe_relay [OF assms(1)]
  by (auto simp: relay_failed_def suppressed_relay_def Let_def SUPPRESSED_RETRY_SAFETY_CLASSES_def is_open_def
      is_repetition_def split: if_splits sum.splits)

lemma unsafe_http_error:
  assumes "unsafe_plan q a" "after_http_error q a k x s = (t, s')"
  shows "(\<exists>err. t = Some err) \<and> (\<exists>new. xs_trace s' = xs_trace s @ new \<and> filter is_open new = [] \<and> filter is_repetition new = [])"
  using assms(2) unsafe_relay [OF assms(1)]
  by (auto simp: after_http_error_def Let_def SUPPRESSED_RETRY_SAFETY_CLASSES_def is_open_def
      is_repetition_def split: if_splits sum.splits option.splits)

text \<open>What a round adds to the trace: nothing opened, or one opening and nothing repeated.\<close>

definition one_open :: "exchange_request \<Rightarrow> exchange_env \<Rightarrow> exchange_event list \<Rightarrow> bool" where
  "one_open q env new \<longleftrightarrow> filter is_repetition new = [] \<and>
     (filter is_open new = [] \<or>
      (\<exists>a k d tr notice s now budget r budget'. filter is_open new = [X_Open (ra_index a) k d tr] \<and> unsafe_plan q a \<and>
         open_upstream_response (xq_settings q) (open_call_of q notice a s) now
           (re_attempts (xe_round env (ra_index a) k)) budget = (r, tr, budget')))"

lemma filters_sse [simp]:
  "xs_trace (start_sse_if b s) = xs_trace s @ (if b then [X_Sse_Started] else [])"
  by (simp add: start_sse_if_def)

lemma body_trace:
  "body_for env i s = (r, s') \<Longrightarrow> \<exists>new. xs_trace s' = xs_trace s @ new \<and> filter is_open new = [] \<and> filter is_repetition new = []"
  by (auto simp: body_for_def is_open_def is_repetition_def split: option.splits sum.splits)

lemma relay_trace:
  "relay_response e a d s = (r, s') \<Longrightarrow> \<exists>new. xs_trace s' = xs_trace s @ new \<and> filter is_open new = [] \<and> filter is_repetition new = []"
  by (auto simp: relay_response_def Let_def is_open_def is_repetition_def split: relay_outcome.splits)

lemma one_open_silent:
  assumes "one_open q env new" "filter is_open xs = []" "filter is_repetition xs = []"
  shows "one_open q env (new @ xs)" "one_open q env (xs @ new)"
  using assms by (simp_all add: one_open_def)

lemma open_trace:
  assumes "open_upstream q notice (xe_round env (ra_index a) k) a k s = (r, s')" "unsafe_plan q a"
  shows "\<exists>new. xs_trace s' = xs_trace s @ new \<and> one_open q env new"
proof -
  obtain t tr budget where call: "open_upstream_response (xq_settings q) (open_call_of q notice a s)
      (re_clock_open (xe_round env (ra_index a) k)) (re_attempts (xe_round env (ra_index a) k)) (xs_budget s) = (t, tr, budget)"
    by (metis prod_cases3)
  let ?d = "oc_deadline (open_call_of q notice a s)"
  have "one_open q env ([X_Open (ra_index a) k ?d tr] @ (if b then [X_Sse_Started] else []))" for b
  proof (rule one_open_silent(1))
    show "one_open q env [X_Open (ra_index a) k ?d tr]"
      unfolding one_open_def using call assms(2) by (simp add: is_open_def is_repetition_def) blast
  qed (simp_all add: is_open_def is_repetition_def)
  then show ?thesis using assms(1) call by (auto simp: open_upstream_def Let_def)
qed

lemma unsafe_opening:
  assumes "open_and_relay q notice (xe_round env (ra_index a) k) a k n s = (r, s')" "unsafe_plan q a"
  shows "\<exists>new. xs_trace s' = xs_trace s @ new \<and> one_open q env new"
proof -
  obtain t s1 where t: "open_upstream q notice (xe_round env (ra_index a) k) a k s = (t, s1)" by (metis surj_pair)
  from open_trace [OF this assms(2)] obtain new where new: "xs_trace s1 = xs_trace s @ new" "one_open q env new" by blast
  have "s' = s1 \<or> relay_response (xe_round env (ra_index a) k) a (k < n) s1 = (r, s')"
  proof (cases t)
    case (Inl err)
    then show ?thesis using assms(1) t by (cases err) (simp_all add: open_and_relay_def)
  next
    case (Inr u)
    then show ?thesis using assms(1) t by (simp add: open_and_relay_def)
  qed
  then show ?thesis
  proof
    assume "relay_response (xe_round env (ra_index a) k) a (k < n) s1 = (r, s')"
    from relay_trace [OF this] obtain more where "xs_trace s' = xs_trace s1 @ more"
      "filter is_open more = []" "filter is_repetition more = []" by blast
    with one_open_silent(1) [OF new(2)] new(1) show ?thesis by auto
  qed (use new in blast)
qed

lemma unsafe_round:
  assumes "relay_round q env notice a k n s = (t, s')" "unsafe_plan q a"
  shows "(\<exists>r. t = Give_Up r) \<and> (\<exists>new. xs_trace s' = xs_trace s @ new \<and> one_open q env new)"
proof (cases "1 < k \<and> xq_upstream_name q = CHATGPT_WEB \<and> re_submitted (xe_round env (ra_index a) k)")
  case True
  with assms(1) have "t = Give_Up (Inl Already_Submitted)" "s' = s" by (simp_all add: relay_round_def)
  then show ?thesis by (simp add: one_open_def)
next
  case False
  note round = assms(1) [unfolded relay_round_def Let_def if_not_P [OF False]]
  obtain b s1 where b: "body_for env (ra_index a) s = (b, s1)" by (metis surj_pair)
  from body_trace [OF this] obtain new1 where new1: "xs_trace s1 = xs_trace s @ new1"
    "filter is_open new1 = []" "filter is_repetition new1 = []" by blast
  show ?thesis
  proof (cases b)
    case (Inl err)
    with round b new1 show ?thesis by (auto simp: one_open_def)
  next
    case (Inr body)
    obtain u s2 where u: "open_and_relay q notice (xe_round env (ra_index a) k) a k n
        (emit [X_Request (ra_index a) body, X_Request_Start] s1) = (u, s2)" by (metis surj_pair)
    from unsafe_opening [OF this assms(2)] obtain new2 where
      new2: "xs_trace s2 = xs_trace s1 @ [X_Request (ra_index a) body, X_Request_Start] @ new2" "one_open q env new2" by auto
    have new3: "one_open q env (new1 @ [X_Request (ra_index a) body, X_Request_Start] @ new2)"
      using new1(2,3) new2(2) by (simp add: one_open_def is_open_def is_repetition_def)
    have "\<exists>more. xs_trace s' = xs_trace s2 @ more \<and> filter is_open more = [] \<and> filter is_repetition more = []
        \<and> (\<exists>r. t = Give_Up r)"
    proof (cases "\<exists>x. u = Thrown (Raised x) \<and> relay_retryable x")
      case True
      then obtain x where x: "u = Thrown (Raised x)" "relay_retryable x" by blast
      with round b Inr u have "relay_failed q notice (xe_round env (ra_index a) k) a k n x s2 = (t, s')" by simp
      from unsafe_gives_up [OF assms(2) this] show ?thesis by blast
    next
      case False
      with round b Inr u show ?thesis
        by (auto simp: is_open_def is_repetition_def split: round_result.splits exchange_error.splits if_splits)
    qed
    then obtain more where more: "xs_trace s' = xs_trace s2 @ more" "filter is_open more = []"
      "filter is_repetition more = []" "\<exists>r. t = Give_Up r" by blast
    with one_open_silent(1) [OF new3 more(2,3)] new1(1) new2(1) show ?thesis by auto
  qed
qed

lemma unsafe_attempts:
  assumes "run_attempts q env notice (a # as) s = (r, s')" "unsafe_plan q a"
  shows "\<exists>new. xs_trace s' = xs_trace s @ new \<and> one_open q env new"
proof -
  let ?n = "rp_base_relay_attempts (ra_retry a)" and ?s = "s\<lparr>xs_active := Some (ra_index a)\<rparr>"
  obtain t k s1 where loop: "relay_loop q env notice a 1 ?n ?s = (t, k, s1)" by (metis prod_cases3)
  have "\<exists>new. xs_trace s1 = xs_trace s @ new \<and> one_open q env new"
  proof (cases "?n < 1")
    case True
    with loop show ?thesis by (auto simp: relay_loop.simps one_open_def)
  next
    case False
    obtain u s2 where u: "relay_round q env notice a 1 ?n ?s = (u, s2)" by (metis surj_pair)
    from unsafe_round [OF u assms(2)] obtain r' new where "u = Give_Up r'" "xs_trace s2 = xs_trace s @ new"
      "one_open q env new" by auto
    with loop u False show ?thesis by (auto simp: relay_loop.simps [of q env notice a])
  qed
  then obtain new where new: "xs_trace s1 = xs_trace s @ new" "one_open q env new" by blast
  show ?thesis
  proof (cases "\<exists>x. t = Inl (Raised x) \<and> is_http_error x")
    case True
    then obtain x where x: "t = Inl (Raised x)" "is_http_error x" by blast
    obtain u s2 where u: "after_http_error q a k x s1 = (u, s2)" by (metis surj_pair)
    from unsafe_http_error [OF assms(2) this] obtain err more where "u = Some err" "xs_trace s2 = xs_trace s1 @ more"
      "filter is_open more = []" "filter is_repetition more = []" by blast
    with one_open_silent(1) [OF new(2)] new(1) x u loop assms(1) show ?thesis by auto
  next
    case False
    with assms(1) loop have "s' = s1" by (auto split: sum.splits exchange_error.splits if_splits)
    with new show ?thesis by blast
  qed
qed

text \<open>C14: An exchange of a main-generation request with a provider other than the official one opens the
  upstream once, repeats neither relay nor protocol, and every request it sends but the last failed
  before it was written, with nothing shown to the client.\<close>

lemma unsafe_exchange_delivers_once:
  assumes "execute_exchange q env = (r, s)" "xq_attempts q = a # rest" "xq_upstream_name q \<noteq> OFFICIAL_UPSTREAM_NAME"
    and "rp_request_kind (ra_retry a) = RETRY_REQUEST_MAIN_GENERATION"
  shows "length (filter is_open (xs_trace s)) \<le> 1 \<and> filter is_repetition (xs_trace s) = []
    \<and> (\<forall>i k d tr j. X_Open i k d tr \<in> set (xs_trace s) \<longrightarrow> j < length (sent tr) - 1 \<longrightarrow>
         (\<exists>x. ae_outcome (re_attempts (xe_round env i k) (1 + int j)) = Raises x
            \<and> safety_phase x \<in> {''dns'', ''tcp_connect'', ''tls_handshake''}
            \<and> \<not> ae_exposed (re_attempts (xe_round env i k) (1 + int j))))"
proof -
  have unsafe: "unsafe_plan q a" using assms(3,4) by (simp add: unsafe_plan_def)
  have trace: "one_open q env (xs_trace s)"
  proof (cases rule: exchange_cases [of q env])
    case (attempted a' rest')
    then have "run_attempts q env (rp_emit_retry_notice (ra_retry a)) (a # rest) (started_exchange q env a) = (r, s)"
      using assms(1,2) by (metis list.inject)
    from unsafe_attempts [OF this unsafe] obtain new where "xs_trace s = [X_Prepared (ra_index a), X_Request_Start] @ new"
      "one_open q env new" by auto
    then show ?thesis by (simp add: one_open_def is_open_def is_repetition_def)
  qed (use assms in \<open>auto simp: replay_def Let_def one_open_def is_open_def is_repetition_def split: relay_outcome.splits\<close>)
  show ?thesis
  proof (intro conjI allI impI)
    show "length (filter is_open (xs_trace s)) \<le> 1" "filter is_repetition (xs_trace s) = []"
      using trace by (auto simp: one_open_def)
    fix i k d tr j assume ev: "X_Open i k d tr \<in> set (xs_trace s)" and j: "j < length (sent tr) - 1"
    then have one: "X_Open i k d tr \<in> set (filter is_open (xs_trace s))" by (simp add: is_open_def)
    then have "filter is_open (xs_trace s) \<noteq> []" by (metis empty_iff empty_set)
    with trace obtain b k' d' tr' notice s0 now budget r' budget'
      where f: "filter is_open (xs_trace s) = [X_Open (ra_index b) k' d' tr']" and u: "unsafe_plan q b"
        and call: "open_upstream_response (xq_settings q) (open_call_of q notice b s0) now
          (re_attempts (xe_round env (ra_index b) k')) budget = (r', tr', budget')"
      unfolding one_open_def by blast
    from one f have eqs: "i = ra_index b" "k = k'" "tr = tr'" by simp_all
    have "apply_retry_safety (apply_plan (open_call_of q notice b s0))"
      using u by (simp add: apply_retry_safety_def apply_plan_def open_call_of_def unsafe_plan_def)
    from unsafe_call [OF call this] j eqs show "\<exists>x. ae_outcome (re_attempts (xe_round env i k) (1 + int j)) = Raises x
            \<and> safety_phase x \<in> {''dns'', ''tcp_connect'', ''tls_handshake''}
            \<and> \<not> ae_exposed (re_attempts (xe_round env i k) (1 + int j))" by blast
  qed
qed

section \<open>Results\<close>

definition good_result :: "exchange_error + disposition \<Rightarrow> bool" where
  "good_result r \<longleftrightarrow>
     (case r of
        Inl (Runtime_Error _) \<Rightarrow> False
      | Inl _ \<Rightarrow> True
      | Inr d \<Rightarrow> tr_handled (terminal_result d))"

lemma handled [simp]:
  "tr_handled (terminal_result (Completed n))" "tr_handled (terminal_result (Stopped ''downstream_closed''))"
  "tr_handled (terminal_result (Stopped ''empty_completed_response''))"
  by (simp_all add: terminal_result_def)

lemma good_failed: "relay_failed q notice e a k n x s = (Give_Up r, s') \<Longrightarrow> good_result r"
  by (auto simp: relay_failed_def suppressed_relay_def announce_retry_def Let_def good_result_def
      split: if_splits sum.splits option.splits)

lemma good_opening:
  assumes "open_and_relay q notice e a k n s = (Thrown err, s')"
  shows "good_result (Inl err)"
proof -
  obtain t s1 where t: "open_upstream q notice e a k s = (t, s1)" by (metis surj_pair)
  show ?thesis
  proof (cases t)
    case (Inl f)
    with assms t show ?thesis by (cases f) (auto simp: open_and_relay_def good_result_def split: if_splits)
  next
    case (Inr u)
    with assms t show ?thesis
      by (auto simp: open_and_relay_def relay_response_def Let_def good_result_def split: relay_outcome.splits if_splits)
  qed
qed

lemma good_round:
  assumes "relay_round q env notice a k n s = (Give_Up r, s')"
  shows "good_result r"
proof (cases "1 < k \<and> xq_upstream_name q = CHATGPT_WEB \<and> re_submitted (xe_round env (ra_index a) k)")
  case True
  with assms have "r = Inl Already_Submitted" by (simp add: relay_round_def)
  then show ?thesis by (simp add: good_result_def)
next
  case False
  note round = assms [unfolded relay_round_def Let_def if_not_P [OF False]]
  obtain b s1 where b: "body_for env (ra_index a) s = (b, s1)" by (metis surj_pair)
  show ?thesis
  proof (cases b)
    case (Inl err)
    with b have "good_result (Inl err)"
      by (auto simp: body_for_def good_result_def split: option.splits sum.splits)
    with round b Inl show ?thesis by simp
  next
    case (Inr body)
    obtain u s2 where u: "open_and_relay q notice (xe_round env (ra_index a) k) a k n
        (emit [X_Request (ra_index a) body, X_Request_Start] s1) = (u, s2)" by (metis surj_pair)
    show ?thesis
    proof (cases u)
      case (Thrown err)
      with u have "good_result (Inl err)" by (auto intro: good_opening)
      with round b Inr u Thrown show ?thesis
        by (cases err) (auto split: if_splits dest: good_failed)
    qed (use round b Inr u in \<open>auto simp: good_result_def\<close>)
  qed
qed

lemma good_loop:
  "k \<le> n \<Longrightarrow> relay_loop q env notice a k n s = (r, m, s') \<Longrightarrow> good_result r"
proof (induction q env notice a k n s arbitrary: r m s' rule: relay_loop.induct)
  case (1 q env notice a k n s)
  obtain t s1 where round: "relay_round q env notice a k n s = (t, s1)" by (metis surj_pair)
  show ?case
  proof (cases t)
    case (Give_Up r')
    with 1(2,3) round have "r = r'" by (simp add: relay_loop.simps [of q env notice a])
    with round Give_Up show ?thesis by (auto intro: good_round)
  next
    case (Try_Again n')
    have "\<not> n < k" using 1(2) by simp
    with 1(3) round Try_Again have rest: "relay_loop q env notice a (k + 1) n' s1 = (r, m, s')"
      by (simp add: relay_loop.simps [of q env notice a k])
    have "k + 1 \<le> n'" using round_again [of q env notice a k n s n' s1] round Try_Again by simp
    from 1(1) [OF \<open>\<not> n < k\<close> round [symmetric] Try_Again this rest] show ?thesis .
  qed
qed

lemma good_http_error:
  "after_http_error q a k x s = (Some err, s') \<Longrightarrow> good_result (Inl err)"
  "after_http_error q a k x s = (None, s') \<Longrightarrow> nat (ra_index a + 1) < length (xq_attempts q)"
  by (auto simp: after_http_error_def next_attempt_def Let_def good_result_def
      split: option.splits if_splits sum.splits)

lemma good_attempts:
  assumes "run_attempts q env notice (drop i (xq_attempts q)) s = (r, s')" "i < length (xq_attempts q)"
    and "\<forall>i < length (xq_attempts q). ra_index (xq_attempts q ! i) = int i \<and> 1 \<le> rp_base_relay_attempts (ra_retry (xq_attempts q ! i))"
  shows "good_result r"
  using assms(1,2)
proof (induction "length (xq_attempts q) - i" arbitrary: i s)
  case (Suc n)
  let ?a = "xq_attempts q ! i"
  have drop: "drop i (xq_attempts q) = ?a # drop (Suc i) (xq_attempts q)" using Suc(4) by (rule Cons_nth_drop_Suc [symmetric])
  obtain t m s1 where loop: "relay_loop q env notice ?a 1 (rp_base_relay_attempts (ra_retry ?a))
      (s\<lparr>xs_active := Some (ra_index ?a)\<rparr>) = (t, m, s1)" by (metis prod_cases3)
  then have good: "good_result t" using assms(3) Suc(4) by (auto intro: good_loop)
  show ?case
  proof (cases "\<exists>x. t = Inl (Raised x) \<and> is_http_error x")
    case True
    then obtain x where x: "t = Inl (Raised x)" "is_http_error x" by blast
    obtain u s2 where u: "after_http_error q ?a m x s1 = (u, s2)" by (metis surj_pair)
    show ?thesis
    proof (cases u)
      case None
      from good_http_error(2) [of q ?a m x s1 s2] u None assms(3) Suc(4) have "Suc i < length (xq_attempts q)"
        by (simp add: nat_add_distrib)
      moreover from Suc(3) loop x u None have "run_attempts q env notice (drop (Suc i) (xq_attempts q)) s2 = (r, s')"
        by (simp add: drop)
      ultimately show ?thesis using Suc(2) by (intro Suc(1) [of "Suc i" s2]) auto
    next
      case (Some err)
      with Suc(3) loop x u good_http_error(1) show ?thesis by (auto simp: drop)
    qed
  next
    case False
    with Suc(3) loop have "r = t" by (auto simp: drop split: sum.splits exchange_error.splits if_splits)
    with good show ?thesis by simp
  qed
qed simp

text \<open>For a plan whose attempts are numbered by their place and allow at least one relay, the states the code
  calls unreachable are not reached, and whatever result is returned is one \<open>terminal_result\<close> knows how to
  report.\<close>

lemma exchange_result_is_handled:
  assumes "execute_exchange q env = (r, s)" "xq_attempts q \<noteq> []"
    and "\<forall>i < length (xq_attempts q). ra_index (xq_attempts q ! i) = int i \<and> 1 \<le> rp_base_relay_attempts (ra_retry (xq_attempts q ! i))"
  shows "(\<forall>msg. r \<noteq> Inl (Runtime_Error msg)) \<and> (case r of Inr d \<Rightarrow> tr_handled (terminal_result d) | Inl _ \<Rightarrow> True)"
proof -
  have "good_result r"
  proof (cases rule: exchange_cases [of q env])
    case (attempted a rest)
    then have "run_attempts q env (rp_emit_retry_notice (ra_retry a)) (drop 0 (xq_attempts q)) (started_exchange q env a) = (r, s)"
      using assms(1) by (metis drop0)
    then show ?thesis by (rule good_attempts) (use assms in simp_all)
  qed (use assms in \<open>auto simp: replay_def Let_def good_result_def split: relay_outcome.splits\<close>)
  then show ?thesis by (auto simp: good_result_def split: sum.splits)
qed

section \<open>Witnesses\<close>

text \<open>The call of \<open>sample_run\<close> as the only attempt of a plan; the relay returns the status 200.\<close>

definition sample_attempt_plan :: route_attempt where
  "sample_attempt_plan = \<lparr>ra_index = 0, ra_retry = sample_plan, ra_fallback_statuses = [404]\<rparr>"

definition sample_exchange :: exchange_request where
  "sample_exchange = \<lparr>xq_upstream_name = ''external'', xq_path = [], xq_attempts = [sample_attempt_plan],
     xq_started_at = 0, xq_deadline = Some 300, xq_sse_started = False, xq_settings = sample_settings\<rparr>"

definition sample_round :: round_env where
  "sample_round = \<lparr>re_submitted = False, re_clock_open = 0, re_attempts = sample_env, re_relay = Relayed 200,
     re_relay_started = True, re_cancelled = False, re_wall_clock = 0, re_clock = 30, re_noticed = True,
     re_empty_written = True, re_cancelled_wait = False\<rparr>"

definition sample_ports :: exchange_env where
  "sample_ports = \<lparr>xe_prepare = \<lambda>_. Inr ''{}'', xe_round = \<lambda>_ _. sample_round, xe_replay = None\<rparr>"

definition sample_exchange_trace :: "exchange_event list" where
  "sample_exchange_trace =
     [X_Prepared 0, X_Request_Start, X_Request 0 ''{}'', X_Request_Start, X_Open 0 1 (Some 300) sample_trace,
      X_Attached, X_Relay 0 False True, X_Sse_Started, X_Response_Left]"

lemma sample_open_call [simp]: "xs_sse_started s = False \<Longrightarrow> open_call_of sample_exchange False sample_attempt_plan s = sample_call"
  by (simp add: open_call_of_def sample_exchange_def sample_attempt_plan_def sample_call_def sample_plan_def
      RETRY_REQUEST_MAIN_GENERATION_def)

lemma sample_fields [simp]:
  "xq_attempts sample_exchange = [sample_attempt_plan]" "xq_upstream_name sample_exchange = ''external''"
  "xq_sse_started sample_exchange = False" "xq_settings sample_exchange = sample_settings"
  "ra_index sample_attempt_plan = 0" "ra_retry sample_attempt_plan = sample_plan"
  "xe_prepare sample_ports i = Inr ''{}''" "xe_round sample_ports i k = sample_round" "xe_replay sample_ports = None"
  "rp_emit_retry_notice sample_plan = False" "rp_base_relay_attempts sample_plan = 5"
  "rp_open_attempt_budget sample_plan = Some 3" "rp_request_kind sample_plan = RETRY_REQUEST_MAIN_GENERATION"
  "oc_deadline sample_call = Some 300"
  by (simp_all add: sample_exchange_def sample_attempt_plan_def sample_plan_def sample_ports_def sample_call_def
      RETRY_REQUEST_MAIN_GENERATION_def)

lemma sample_exchange_run:
  obtains s where "execute_exchange sample_exchange sample_ports = (Inr (Completed 200), s)"
    "xs_trace s = sample_exchange_trace"
proof -
  have "notices sample_trace = 0" by (simp add: notices_def sample_trace_def)
  then have "fst (execute_exchange sample_exchange sample_ports) = Inr (Completed 200)
      \<and> xs_trace (snd (execute_exchange sample_exchange sample_ports)) = sample_exchange_trace"
    by (simp add: execute_exchange_def body_for_def new_exchange_def emit_def new_open_attempt_budget_def relay_loop.simps
        relay_round_def dict_simps open_and_relay_def open_upstream_def Let_def sample_round_def sample_run open_noticed_def
        start_sse_if_def relay_response_def start_sse_def sample_exchange_trace_def)
  then show ?thesis using that by (metis prod.collapse)
qed

lemma exchange_attempts_bounded_witness:
  "int (length (all_sent sample_exchange_trace)) \<le> 3 \<and> map fst (all_sent sample_exchange_trace) = [1, 2]"
proof -
  obtain s where s: "execute_exchange sample_exchange sample_ports = (Inr (Completed 200), s)"
    "xs_trace s = sample_exchange_trace" by (rule sample_exchange_run)
  have "xq_attempts sample_exchange = sample_attempt_plan # []" by simp
  from exchange_attempts_bounded [OF s(1) this, of 3] s(2) show ?thesis by (simp add: sample_exchange_trace_def)
qed

lemma unsafe_exchange_delivers_once_witness:
  "length (filter is_open sample_exchange_trace) \<le> 1
    \<and> (\<exists>x. ae_outcome (sample_env 1) = Raises x \<and> safety_phase x \<in> {''dns'', ''tcp_connect'', ''tls_handshake''})"
proof -
  obtain s where s: "execute_exchange sample_exchange sample_ports = (Inr (Completed 200), s)"
    "xs_trace s = sample_exchange_trace" by (rule sample_exchange_run)
  have plan: "xq_attempts sample_exchange = sample_attempt_plan # []" by simp
  have name: "xq_upstream_name sample_exchange \<noteq> OFFICIAL_UPSTREAM_NAME" by (simp add: OFFICIAL_UPSTREAM_NAME_def)
  have kind: "rp_request_kind (ra_retry sample_attempt_plan) = RETRY_REQUEST_MAIN_GENERATION" by simp
  have ev: "X_Open 0 1 (Some 300) sample_trace \<in> set sample_exchange_trace" by (simp add: sample_exchange_trace_def)
  note facts = unsafe_exchange_delivers_once [OF s(1) plan name kind, unfolded s(2)]
  from facts [THEN conjunct2, THEN conjunct2, rule_format, OF ev, of 0]
  have "\<exists>x. ae_outcome (sample_env 1) = Raises x \<and> safety_phase x \<in> {''dns'', ''tcp_connect'', ''tls_handshake''}"
    by (auto simp: sample_round_def)
  with facts show ?thesis by blast
qed

lemma exchange_result_is_handled_witness:
  "tr_handled (terminal_result (Completed 200))"
proof -
  obtain s where s: "execute_exchange sample_exchange sample_ports = (Inr (Completed 200), s)"
    by (rule sample_exchange_run)
  from exchange_result_is_handled [OF this] show ?thesis by (simp del: handled)
qed

end
