(* ===== verification/Strict_Json.thy ===== *)
theory Strict_Json
  imports Protocol_Base
begin

text \<open>
  \<open>src-python/protocol_json.py\<close> and \<open>decode_protocol_json\<close> of \<open>src-python/protocol_translation.py\<close>: JSON that
  is refused when it is ambiguous.  \<open>strict_json_loads\<close> is the call without \<open>exact_numbers\<close>, the only one the
  translations make.
\<close>

section \<open>Text of the body\<close>

text \<open>\<open>json.detect_encoding\<close> and the decoding of the bytes by \<open>json.loads\<close> (\<open>errors="surrogatepass"\<close>).\<close>

datatype encoding = Utf8 | Utf8_Sig | Utf16 bool | Utf16_Bom | Utf32 bool | Utf32_Bom

abbreviation NUL :: char where "NUL \<equiv> CHR 0x00"

definition detect_encoding :: "bytes \<Rightarrow> encoding" where
  "detect_encoding b =
     (if prefix [NUL, NUL, CHR 0xFE, CHR 0xFF] b \<or> prefix [CHR 0xFF, CHR 0xFE, NUL, NUL] b then Utf32_Bom
      else if prefix [CHR 0xFE, CHR 0xFF] b \<or> prefix [CHR 0xFF, CHR 0xFE] b then Utf16_Bom
      else if prefix [CHR 0xEF, CHR 0xBB, CHR 0xBF] b then Utf8_Sig
      else if 4 \<le> length b
      then (if b ! 0 = NUL then (if b ! 1 \<noteq> NUL then Utf16 True else Utf32 True)
            else if b ! 1 = NUL then (if b ! 2 \<noteq> NUL \<or> b ! 3 \<noteq> NUL then Utf16 False else Utf32 False)
            else Utf8)
      else if length b = 2
      then (if b ! 0 = NUL then Utf16 True else if b ! 1 = NUL then Utf16 False else Utf8)
      else Utf8)"

text \<open>Code units; \<open>big\<close> is the byte order.\<close>

fun units16 :: "bool \<Rightarrow> bytes \<Rightarrow> nat list option" where
  "units16 big [] = Some []"
| "units16 big [a] = None"
| "units16 big (a # b # r) =
     map_option (\<lambda>us. (if big then of_char a * 256 + of_char b else of_char b * 256 + of_char a) # us) (units16 big r)"

fun units32 :: "bool \<Rightarrow> bytes \<Rightarrow> nat list option" where
  "units32 big [] = Some []"
| "units32 big (a # b # c # d # r) =
     map_option (\<lambda>us. foldl (\<lambda>n x. n * 256 + of_char x) 0 (if big then [a, b, c, d] else [d, c, b, a]) # us)
       (units32 big r)"
| "units32 big r = None"

fun join_surrogates :: "nat list \<Rightarrow> nat list" where
  "join_surrogates (u # v # us) =
     (if 0xD800 \<le> u \<and> u \<le> 0xDBFF \<and> 0xDC00 \<le> v \<and> v \<le> 0xDFFF
      then (0x10000 + (u - 0xD800) * 1024 + (v - 0xDC00)) # join_surrogates us
      else u # join_surrogates (v # us))"
| "join_surrogates us = us"

definition decode_utf16 :: "bool \<Rightarrow> bytes \<Rightarrow> string option" where
  "decode_utf16 big b = map_option (\<lambda>us. utf8_of (join_surrogates us)) (units16 big b)"

definition decode_utf32 :: "bool \<Rightarrow> bytes \<Rightarrow> string option" where
  "decode_utf32 big b =
     (case units32 big b of
        None \<Rightarrow> None
      | Some us \<Rightarrow> (if list_all (\<lambda>u. u < 0x110000) us then Some (utf8_of us) else None))"

definition decode_json_bytes :: "bytes \<Rightarrow> string option" where
  "decode_json_bytes b =
     (case detect_encoding b of
        Utf8 \<Rightarrow> (if utf8_codes b \<noteq> None then Some b else None)
      | Utf8_Sig \<Rightarrow> (if utf8_codes b \<noteq> None then Some (drop 3 b) else None)
      | Utf16 big \<Rightarrow> decode_utf16 big b
      | Utf16_Bom \<Rightarrow> decode_utf16 (prefix [CHR 0xFE] b) (drop 2 b)
      | Utf32 big \<Rightarrow> decode_utf32 big b
      | Utf32_Bom \<Rightarrow> decode_utf32 (prefix [NUL] b) (drop 4 b))"

section \<open>Strict reading\<close>

text \<open>\<open>Not_Json\<close> is \<open>JSONDecodeError\<close>, \<open>Ambiguous\<close> is \<open>AmbiguousJSONError\<close>.\<close>

datatype strict_error = Not_Json | Ambiguous

definition finite_number :: "string \<Rightarrow> bool" where
  "finite_number t = (case float_of_text t of Finite _ \<Rightarrow> True | _ \<Rightarrow> False)"

definition strict_hooks :: "unit json_hooks" where
  "strict_hooks =
     \<lparr>h_object = (\<lambda>kvs. if distinct (map fst kvs) then Inr (JObj kvs) else Inl ()),
      h_float = (\<lambda>t. if finite_number t then Inr (JFloat t) else Inl ()),
      h_constant = (\<lambda>_. Inl ())\<rparr>"

definition strict_loads_text :: "string \<Rightarrow> strict_error + json" where
  "strict_loads_text s =
     (case loads_with strict_hooks s of
        Inr v \<Rightarrow> Inr v
      | Inl Json_Syntax \<Rightarrow> Inl Not_Json
      | Inl _ \<Rightarrow> Inl Ambiguous)"

text \<open>Bytes that cannot be decoded raise a \<open>ValueError\<close> other than \<open>JSONDecodeError\<close>.\<close>

definition strict_json_loads :: "bytes \<Rightarrow> strict_error + json" where
  "strict_json_loads b =
     (case decode_json_bytes b of None \<Rightarrow> Inl Ambiguous | Some s \<Rightarrow> strict_loads_text s)"

text \<open>The errors of a conversion of bodies: those of the seam, and \<open>JSONDecodeError\<close>.\<close>

datatype body_error = Body_Not_Json | Wire wire_error

definition decode_protocol_json :: "bytes \<Rightarrow> body_error + json" where
  "decode_protocol_json b =
     (case strict_json_loads b of
        Inr v \<Rightarrow> Inr v
      | Inl Not_Json \<Rightarrow> Inl Body_Not_Json
      | Inl Ambiguous \<Rightarrow> Inl (Wire (Unsupported ''invalid_json_envelope'')))"

end
