(* ===== verification/Json_Readback.thy ===== *)
theory Json_Readback
  imports Strict_Json
begin

text \<open>
  What the program writes with \<open>json.dumps\<close> for a value strict JSON can express is read back as it was; the
  strict reader is the reader that keeps every member, restricted to unambiguous values.
\<close>

section \<open>Code points\<close>

lemma char_from_code: "(of_char c :: nat) = n \<Longrightarrow> char_of n = c"
  by (metis char_of_char)

lemma split64: "y < 64 \<Longrightarrow> (q * 64 + y) div 64 = (q::nat)" "y < 64 \<Longrightarrow> (q * 64 + y) mod 64 = (y::nat)"
  by simp_all

lemma utf8_encode2: "2 \<le> a \<Longrightarrow> a < 32 \<Longrightarrow> b < 64 \<Longrightarrow> utf8_encode (a * 64 + b) = [char_of (0xC0 + a), char_of (0x80 + b)]"
  by (simp add: utf8_encode_def)

lemma utf8_encode3:
  assumes "a < 16" "b < 64" "c < 64" "0x800 \<le> a * 4096 + b * 64 + c"
  shows "utf8_encode (a * 4096 + b * 64 + c) = [char_of (0xE0 + a), char_of (0x80 + b), char_of (0x80 + c)]"
proof -
  have n: "a * 4096 + b * 64 + c = (a * 64 + b) * 64 + c" by simp
  have "(a * 4096 + b * 64 + c) div 64 = a * 64 + b" "(a * 4096 + b * 64 + c) mod 64 = c"
    unfolding n by (rule split64, fact)+
  moreover have "(a * 4096 + b * 64 + c) div 4096 = a"
  proof -
    have "b * 64 + c < 4096" using assms by linarith
    then show ?thesis by simp
  qed
  ultimately show ?thesis using assms by (simp add: utf8_encode_def)
qed

lemma utf8_encode4:
  assumes "a < 5" "b < 64" "c < 64" "d < 64" "0x10000 \<le> a * 262144 + b * 4096 + c * 64 + d"
  shows "utf8_encode (a * 262144 + b * 4096 + c * 64 + d) =
    [char_of (0xF0 + a), char_of (0x80 + b), char_of (0x80 + c), char_of (0x80 + d)]"
proof -
  let ?n = "a * 262144 + b * 4096 + c * 64 + d"
  have n: "?n = ((a * 64 + b) * 64 + c) * 64 + d" by simp
  have d1: "?n div 64 = (a * 64 + b) * 64 + c" "?n mod 64 = d" unfolding n by (rule split64, fact)+
  have "?n div 4096 = a * 64 + b"
  proof -
    have "?n div 4096 = ?n div 64 div 64" by (simp add: div_mult2_eq [symmetric])
    then show ?thesis unfolding d1 using assms by simp
  qed
  moreover have "?n div 262144 = ?n div 4096 div 64" by (simp add: div_mult2_eq [symmetric])
  moreover have "((a * 64 + b) * 64 + c) mod 64 = c" by (rule split64) fact
  ultimately show ?thesis using assms by (simp add: utf8_encode_def d1 del: distrib_right_numeral)
qed

lemma lead_byteE:
  assumes "l \<le> (of_char c :: nat)" "of_char c < (u :: nat)"
  obtains a where "a < u - l" "(of_char c :: nat) = l + a" "char_of (l + a) = c"
proof (rule that [of "of_char c - l"])
  show "of_char c - l < u - l" using assms by linarith
  show "(of_char c :: nat) = l + (of_char c - l)" using assms by linarith
  with char_of_char [where 'a = nat, of c] show "char_of (l + (of_char c - l)) = c" by simp
qed

lemma cont_byteE:
  assumes "cont_byte (of_char c)"
  obtains x where "x < 64" "(of_char c :: nat) = 0x80 + x" "char_of (0x80 + x) = c"
  using lead_byteE [of "0x80" c "0xC0"] assms by (auto simp: cont_byte_def)

lemma utf8_next_inverse:
  assumes "utf8_next s = Some (n, r)"
  shows "s = utf8_encode n @ r"
proof -
  obtain c cs where s: "s = c # cs" using assms by (cases s) (auto simp: utf8_next_def)
  let ?b = "of_char c :: nat"
  consider (one) "?b < 0x80" | (two) "0xC2 \<le> ?b" "?b < 0xE0" | (three) "0xE0 \<le> ?b" "?b < 0xF0"
    | (four) "0xF0 \<le> ?b" "?b < 0xF5" | (bad) "0x80 \<le> ?b" "?b < 0xC2 \<or> 0xF5 \<le> ?b" by linarith
  then show ?thesis
  proof cases
    case one
    with assms s show ?thesis by (auto simp: utf8_next_def utf8_encode_def)
  next
    case two
    then obtain d where cs: "cs = d # r" "cont_byte (of_char d)"
      "n = (?b - 0xC0) * 64 + (of_char d - 0x80)"
      using assms s by (auto simp: utf8_next_def Let_def split: list.splits if_splits)
    obtain a :: nat where a: "a < 30" "?b = 0xC2 + a" "char_of (0xC2 + a) = c" using two by (rule lead_byteE) auto
    obtain x :: nat where x: "x < 64" "of_char d = 0x80 + x" "char_of (0x80 + x) = d" using cs(2) by (rule cont_byteE)
    have "n = (2 + a) * 64 + x" using cs(3) a(2) x(2) by simp
    with utf8_encode2 [of "2 + a" x] a x show ?thesis unfolding s cs(1) by (simp add: add.assoc [symmetric])
  next
    case three
    then obtain d e where cs: "cs = d # e # r" "cont_byte (of_char d)" "cont_byte (of_char e)"
      "n = (?b - 0xE0) * 4096 + (of_char d - 0x80) * 64 + (of_char e - 0x80)" "0x800 \<le> n"
      using assms s by (auto simp: utf8_next_def Let_def split: list.splits if_splits)
    obtain a :: nat where a: "a < 16" "?b = 0xE0 + a" "char_of (0xE0 + a) = c" using three by (rule lead_byteE) auto
    obtain x :: nat where x: "x < 64" "of_char d = 0x80 + x" "char_of (0x80 + x) = d" using cs(2) by (rule cont_byteE)
    obtain y :: nat where y: "y < 64" "of_char e = 0x80 + y" "char_of (0x80 + y) = e" using cs(3) by (rule cont_byteE)
    have "n = a * 4096 + x * 64 + y" using cs(4) a(2) x(2) y(2) by simp
    with utf8_encode3 [of a x y] a x y cs(5) show ?thesis unfolding s cs(1) by simp
  next
    case four
    then obtain d e f where cs: "cs = d # e # f # r" "cont_byte (of_char d)" "cont_byte (of_char e)" "cont_byte (of_char f)"
      "n = (?b - 0xF0) * 262144 + (of_char d - 0x80) * 4096 + (of_char e - 0x80) * 64 + (of_char f - 0x80)" "0x10000 \<le> n"
      using assms s by (auto simp: utf8_next_def Let_def split: list.splits if_splits)
    obtain a :: nat where a: "a < 5" "?b = 0xF0 + a" "char_of (0xF0 + a) = c" using four by (rule lead_byteE) auto
    obtain x :: nat where x: "x < 64" "of_char d = 0x80 + x" "char_of (0x80 + x) = d" using cs(2) by (rule cont_byteE)
    obtain y :: nat where y: "y < 64" "of_char e = 0x80 + y" "char_of (0x80 + y) = e" using cs(3) by (rule cont_byteE)
    obtain z :: nat where z: "z < 64" "of_char f = 0x80 + z" "char_of (0x80 + z) = f" using cs(4) by (rule cont_byteE)
    have "n = a * 262144 + x * 4096 + y * 64 + z" using cs(5) a(2) x(2) y(2) z(2) by simp
    with utf8_encode4 [of a x y z] a x y z cs(6) show ?thesis unfolding s cs(1) by simp
  next
    case bad
    with assms s show ?thesis by (auto simp: utf8_next_def Let_def split: if_splits)
  qed
qed

lemma utf8_codes_inverse: "utf8_codes s = Some cps \<Longrightarrow> utf8_of cps = s"
proof (induction s arbitrary: cps rule: utf8_codes.induct)
  case (1 s)
  show ?case
  proof (cases "s = []")
    case True
    with "1.prems" show ?thesis by (simp add: utf8_codes.simps [of "[]"] utf8_of_def)
  next
    case False
    then obtain n r us where n: "utf8_next s = Some (n, r)" "utf8_codes r = Some us" "cps = n # us"
      using "1.prems" by (auto simp: utf8_codes.simps [of s] split: option.splits)
    from "1.IH" [OF False n(1) refl n(2)] utf8_next_inverse [OF n(1)] n(3) show ?thesis by (simp add: utf8_of_def)
  qed
qed

lemma dumps_str_scan:
  assumes "utf8_valid s"
  shows "scan_string (escape_text s @ QUOTE # r) = Some (s, r)"
proof -
  obtain cps where "utf8_codes s = Some cps" "list_all scalar_value cps"
    using assms by (auto simp: utf8_valid_def split: option.splits)
  then show ?thesis using scan_escape_text [of cps r] utf8_codes_inverse [of s cps] by simp
qed

section \<open>Numbers\<close>

text \<open>What may follow a value inside an array or an object, or the end.\<close>

definition value_end :: "string \<Rightarrow> bool" where
  "value_end r \<longleftrightarrow> (r = [] \<or> hd r \<in> {CHR '','', CHR '']'', CHR ''}''})"

lemma value_end_simps [simp]: "value_end []" "value_end (CHR '','' # r)" "value_end (CHR '']'' # r)" "value_end (CHR ''}'' # r)"
  by (simp_all add: value_end_def)

lemma value_end_digit: "value_end r \<Longrightarrow> takeWhile ascii_digit r = [] \<and> dropWhile ascii_digit r = r"
  by (cases r) (auto simp: value_end_def ascii_digit_def Let_def)

lemma digits_of_end:
  assumes "value_end r"
  shows "digits_of (s @ r) = (fst (digits_of s), snd (digits_of s) @ r)"
proof (cases "\<forall>c \<in> set s. ascii_digit c")
  case True
  with value_end_digit [OF assms] show ?thesis 
    by (simp add: digits_of_def takeWhile_append2 dropWhile_append2 takeWhile_eq_all_conv [THEN iffD2] dropWhile_eq_Nil_conv [THEN iffD2])
next
  case False
  then obtain c where "c \<in> set s" "\<not> ascii_digit c" by auto
  then show ?thesis by (simp add: digits_of_def takeWhile_append1 dropWhile_append1)
qed

lemma scan_fraction_end:
  assumes "value_end r"
  shows "scan_fraction (s @ r) = (fst (scan_fraction s), snd (scan_fraction s) @ r)"
proof (cases s)
  case Nil
  with assms show ?thesis by (cases r) (auto simp: scan_fraction_def value_end_def Let_def digits_of_def)
next
  case (Cons c cs)
  with digits_of_end [OF assms, of cs] show ?thesis by (simp add: scan_fraction_def Let_def split: prod.splits)
qed

lemma scan_exponent_end:
  assumes "value_end r"
  shows "scan_exponent (s @ r) = (fst (scan_exponent s), snd (scan_exponent s) @ r)"
proof (cases s)
  case Nil
  with assms show ?thesis by (cases r) (auto simp: scan_exponent_def value_end_def)
next
  case (Cons c cs)
  show ?thesis
  proof (cases cs)
    case Nil
    with Cons assms digits_of_end [OF assms, of "[]"] show ?thesis
      by (cases r) (auto simp: scan_exponent_def Let_def value_end_def digits_of_def)
  next
    case (Cons d ds)
    with \<open>s = c # cs\<close> digits_of_end [OF assms, of ds] digits_of_end [OF assms, of "d # ds"] show ?thesis
      by (simp add: scan_exponent_def Let_def split: prod.splits)
  qed
qed

lemma scan_number_end:
  assumes "value_end r" and s: "scan_number s = Some (neg, ip, fe, x)"
  shows "scan_number (s @ r) = Some (neg, ip, fe, x @ r)"
proof -
  let ?s1 = "if prefix ''-'' s then drop 1 s else s"
  have "s \<noteq> []" using s by (auto simp: scan_number_def Let_def digits_of_def)
  then obtain c cs where c: "s = c # cs" by (cases s) auto
  have s1: "(if prefix ''-'' (s @ r) then drop 1 (s @ r) else s @ r) = ?s1 @ r" using c by simp
  have neg: "prefix ''-'' (s @ r) = prefix ''-'' s" using c by simp
  define ds where "ds = fst (digits_of ?s1)"
  define i where "i = (if prefix ''0'' ds then ''0'' else ds)"
  have ds: "fst (digits_of (?s1 @ r)) = ds" using digits_of_end [OF assms(1), of ?s1] by (simp add: ds_def)
  have "length i \<le> length ds" by (cases ds) (auto simp: i_def)
  moreover have "length ds \<le> length ?s1" by (simp add: ds_def digits_of_def length_takeWhile_le)
  ultimately have drop: "drop (length i) (?s1 @ r) = drop (length i) ?s1 @ r" by (simp only: drop_append) simp
  let ?f = "scan_fraction (drop (length i) ?s1)"
  let ?e = "scan_exponent (snd ?f)"
  have whole: "scan_number u = (let ds = fst (digits_of w); i = (if prefix ''0'' ds then ''0'' else ds);
      f = scan_fraction (drop (length i) w); e = scan_exponent (snd f)
      in if i = [] then None else Some (prefix ''-'' u, i, fst f @ fst e, snd e))"
    if "w = (if prefix ''-'' u then drop 1 u else u)" for u w
    using that by (simp add: scan_number_def Let_def split: prod.split)
  have "scan_number s = (if i = [] then None else Some (prefix ''-'' s, i, fst ?f @ fst ?e, snd ?e))"
    unfolding whole [OF refl, of s] Let_def ds_def [symmetric] i_def [symmetric] by (rule refl)
  moreover have "scan_number (s @ r) = (if i = [] then None else Some (prefix ''-'' s, i, fst ?f @ fst ?e, snd ?e @ r))"
    unfolding whole [OF s1 [symmetric]] Let_def ds i_def [symmetric] drop scan_fraction_end [OF assms(1)] fst_conv snd_conv
      scan_exponent_end [OF assms(1)] neg by (rule refl)
  ultimately show ?thesis using s by (auto split: if_splits)
qed

lemma scan_fraction_split: "scan_fraction s = (f, x) \<Longrightarrow> s = f @ x"
  by (cases s) (auto simp: scan_fraction_def digits_of_def Let_def split: if_splits)

lemma scan_exponent_split: "scan_exponent s = (e, x) \<Longrightarrow> s = e @ x"
  by (cases s; cases "tl s") (auto simp: scan_exponent_def digits_of_def Let_def split: if_splits)

lemma scan_number_split:
  assumes "scan_number s = Some (neg, ip, fe, x)"
  shows "s = (if neg then ''-'' else []) @ ip @ fe @ x"
proof -
  define s1 where "s1 = (if prefix ''-'' s then drop 1 s else s)"
  define ds where "ds = fst (digits_of s1)"
  have sign: "s = (if prefix ''-'' s then ''-'' else []) @ s1" by (cases s) (auto simp: s1_def)
  have pre: "prefix (if prefix ''0'' ds then ''0'' else ds) s1"
  proof -
    have "prefix ds s1" by (simp add: ds_def digits_of_def takeWhile_is_prefix)
    then show ?thesis using prefix_order.trans by auto
  qed
  from assms obtain f e y where "ip = (if prefix ''0'' ds then ''0'' else ds)" "neg = prefix ''-'' s"
    "scan_fraction (drop (length ip) s1) = (f, y)" "scan_exponent y = (e, x)" "fe = f @ e"
    by (auto simp: scan_number_def Let_def s1_def [symmetric] ds_def [symmetric] split: prod.splits if_splits)
  with pre sign show ?thesis
    using prefix_drop [of ip s1] scan_fraction_split [of "drop (length ip) s1" f y] scan_exponent_split [of y e x]
    by simp
qed

lemma ascii_digit_code: "k < (10::nat) \<Longrightarrow> ascii_digit (char_of (48 + k))"
  by (simp add: ascii_digit_def Let_def)

lemma digits_nat_snoc: "digits_nat (ds @ [c]) = digits_nat ds * 10 + (of_char c - 48)"
  by (simp add: digits_nat_def)

lemma nat_text_reads:
  "nat_text n \<noteq> [] \<and> list_all ascii_digit (nat_text n) \<and> digits_nat (nat_text n) = n
     \<and> (prefix ''0'' (nat_text n) \<longrightarrow> n = 0)"
proof (induction n rule: nat_text.induct)
  case (1 n)
  show ?case
  proof (cases "n < 10")
    case True
    have "prefix ''0'' [char_of (48 + n)] \<longrightarrow> n = 0"
    proof
      assume "prefix ''0'' [char_of (48 + n)]"
      then have "CHR ''0'' = char_of (48 + n)" by simp
      then have "(of_char (CHR ''0'') :: nat) = of_char (char_of (48 + n) :: char)" by (rule arg_cong)
      then have "(48 + n) mod 256 = 48" by simp
      with True show "n = 0" by simp
    qed
    with True show ?thesis
      by (simp add: nat_text.simps [of n] ascii_digit_code digits_nat_def)
  next
    case False
    have m: "n mod 10 < 10" by simp
    have "prefix ''0'' (nat_text (n div 10) @ [char_of (48 + n mod 10)]) = prefix ''0'' (nat_text (n div 10))"
      using "1.IH" [OF False] by (cases "nat_text (n div 10)") auto
    moreover have "n div 10 \<noteq> 0" using False by simp
    ultimately show ?thesis using "1.IH" [OF False] False
      by (simp add: nat_text.simps [of n] ascii_digit_code digits_nat_snoc)
  qed
qed

lemma nat_text_0: "nat_text 0 = ''0''"
  using char_from_code [of "CHR ''0''" 48] by (subst nat_text.simps) simp

lemma scan_digits:
  assumes "d \<noteq> []" "list_all ascii_digit d" "prefix ''0'' d \<longrightarrow> d = ''0''"
    and "u = (if neg then ''-'' else []) @ d"
  shows "scan_number u = Some (neg, d, [], [])"
proof -
  have "\<not> prefix ''-'' d" using assms by (cases d) (auto simp: ascii_digit_def Let_def)
  then have s1: "prefix ''-'' u = neg" "(if neg then drop 1 u else u) = d"
    unfolding assms(4) by (cases neg, simp_all)+
  have ds: "digits_of d = (d, [])" using assms(2)
    by (simp add: digits_of_def list_all_iff takeWhile_eq_all_conv [THEN iffD2] dropWhile_eq_Nil_conv [THEN iffD2])
  have ip: "(if prefix ''0'' d then ''0'' else d) = d" using assms(3) by auto
  have "scan_fraction [] = ([], [])" "scan_exponent [] = ([], [])"
    by (simp_all add: scan_fraction_def scan_exponent_def digits_of_def)
  then show ?thesis unfolding scan_number_def Let_def s1 ds fst_conv ip using assms(1) by simp
qed

lemma scan_number_int:
  assumes "value_end r"
  shows "scan_number (int_text i @ r) = Some (i < 0, nat_text (nat \<bar>i\<bar>), [], r)"
proof -
  let ?t = "nat_text (nat \<bar>i\<bar>)"
  note t = nat_text_reads [of "nat \<bar>i\<bar>"]
  have i: "int_text i = (if i < 0 then ''-'' else []) @ ?t" by (simp add: int_text_def)
  have "prefix ''0'' ?t \<longrightarrow> ?t = ''0''" using t nat_text_0 by metis
  with t i have "scan_number (int_text i) = Some (i < 0, ?t, [], [])" by (intro scan_digits) blast+
  from scan_number_end [OF assms this] show ?thesis by simp
qed

section \<open>Values\<close>

text \<open>A float's text as a JSON number with a fraction or an exponent.\<close>

definition float_token :: "string \<Rightarrow> bool" where
  "float_token t = (case scan_number t of None \<Rightarrow> False | Some (neg, ip, fe, r) \<Rightarrow> ip \<noteq> [] \<and> fe \<noteq> [] \<and> r = [])"

text \<open>Values a strict reader accepts: unique keys, finite numbers, texts of code points, no over-long integer.\<close>

fun strict_value :: "json \<Rightarrow> bool" where
  "strict_value (JInt i) = (length (nat_text (nat \<bar>i\<bar>)) \<le> 4300)"
| "strict_value (JFloat t) = (float_token t \<and> finite_number t)"
| "strict_value (JStr s) = utf8_valid s"
| "strict_value (JArr vs) = list_all strict_value vs"
| "strict_value (JObj kvs) = (distinct (map fst kvs) \<and> list_all (\<lambda>(k, v). utf8_valid k \<and> strict_value v) kvs)"
| "strict_value _ = True"

lemma digit_not_letter:
  "ascii_digit c \<Longrightarrow> c \<notin> {CHR ''n'', CHR ''t'', CHR ''f'', CHR ''N'', CHR ''I'', CHR ''-'', QUOTE, CHR ''{'', CHR ''['', CHR '']''} \<and> \<not> json_ws c"
  by (auto simp: ascii_digit_def Let_def json_ws_def)

lemma read_scalar_number:
  assumes "s \<noteq> []" "hd s = CHR ''-'' \<and> tl s \<noteq> [] \<and> ascii_digit (hd (tl s)) \<or> ascii_digit (hd s)"
  shows "read_scalar h s = read_number h s"
proof (cases "ascii_digit (hd s)")
  case True
  then obtain c cs where s: "s = c # cs" using assms(1) by (cases s) auto
  show ?thesis using digit_not_letter [of c] True unfolding s by (auto simp: read_scalar_def)
next
  case False
  then obtain d ds where s: "s = CHR ''-'' # d # ds" "ascii_digit d" using assms by (cases s; cases "tl s") auto
  show ?thesis using digit_not_letter [OF s(2)] unfolding s by (auto simp: read_scalar_def)
qed

lemma scan_number_start:
  assumes "scan_number s = Some (neg, ip, fe, r)"
  shows "s \<noteq> [] \<and> (hd s = CHR ''-'' \<and> tl s \<noteq> [] \<and> ascii_digit (hd (tl s)) \<or> ascii_digit (hd s))"
proof -
  let ?w = "if prefix ''-'' s then drop 1 s else s"
  have "ip \<noteq> []" "prefix ip (takeWhile ascii_digit ?w)"
    using assms by (auto simp: scan_number_def Let_def digits_of_def split: prod.splits if_splits)
  then have "?w \<noteq> [] \<and> ascii_digit (hd ?w)" by (cases ?w) (auto split: if_splits)
  then show ?thesis by (cases s) (auto split: if_splits)
qed

lemma start_not_special:
  assumes "s \<noteq> []" "hd s = CHR ''-'' \<and> tl s \<noteq> [] \<and> ascii_digit (hd (tl s)) \<or> ascii_digit (hd s)"
  shows "\<not> json_ws (hd s)" "hd s \<noteq> QUOTE" "hd s \<noteq> CHR ''{''" "hd s \<noteq> CHR ''[''" "hd s \<noteq> CHR '']''"
  using assms digit_not_letter [of "hd s"] by (auto simp: json_ws_def)

lemma read_value_number:
  assumes "scan_number s = Some x" "0 < n"
  shows "read_value h n s = read_number h s"
proof -
  obtain neg ip fe r where x: "scan_number s = Some (neg, ip, fe, r)" using assms by (cases x) auto
  note st = scan_number_start [OF x]
  obtain c cs where s: "s = c # cs" using st by (cases s) auto
  have "c \<noteq> QUOTE" "c \<noteq> CHR ''{''" "c \<noteq> CHR ''[''" using start_not_special [of s] st s by auto
  then have "read_value h n s = read_scalar h s" using assms(2) by (cases n) (simp_all add: s)
  also have "\<dots> = read_number h s" using st by (intro read_scalar_number) blast+
  finally show ?thesis .
qed

section \<open>Written values are read back\<close>

lemma read_number_int:
  assumes "value_end r" "length (nat_text (nat \<bar>i\<bar>)) \<le> 4300" "0 < n"
  shows "read_value h n (int_text i @ r) = Inr (JInt i, r)"
proof -
  note s = scan_number_int [OF assms(1), of i]
  have "(if i < 0 then - 1 else 1) * int (digits_nat (nat_text (nat \<bar>i\<bar>))) = i"
    using nat_text_reads [of "nat \<bar>i\<bar>"] by auto
  then show ?thesis unfolding read_value_number [OF s assms(3)] using assms(2) by (simp add: read_number_def s)
qed

lemma read_number_float:
  assumes "value_end r" "float_token t" "finite_number t" "0 < n"
  shows "read_value strict_hooks n (t @ r) = Inr (JFloat t, r)"
proof -
  obtain neg ip fe where t: "scan_number t = Some (neg, ip, fe, [])" "fe \<noteq> []"
    using assms(2) by (auto simp: float_token_def split: option.splits)
  have s: "scan_number (t @ r) = Some (neg, ip, fe, r)" using scan_number_end [OF assms(1) t(1)] by simp
  have "(if neg then ''-'' else []) @ ip @ fe = t" using scan_number_split [OF t(1)] by simp
  then show ?thesis unfolding read_value_number [OF s assms(4)] using assms(3) t(2)
    by (simp add: read_number_def s strict_hooks_def)
qed

text \<open>The text of a value starts with no white space and no closing bracket.\<close>

definition value_start :: "string \<Rightarrow> bool" where
  "value_start s \<longleftrightarrow> s \<noteq> [] \<and> \<not> json_ws (hd s) \<and> hd s \<noteq> CHR '']''"

lemma value_start_skip: "value_start s \<Longrightarrow> skip_ws (s @ r) = s @ r"
  by (cases s) (simp_all add: value_start_def skip_ws_def)

lemma dumps_start:
  assumes "strict_value v"
  shows "value_start (dumps v)"
proof (cases v)
  case (JBool b)
  then show ?thesis by (cases b) (simp_all add: value_start_def json_ws_def)
next
  case (JInt i)
  show ?thesis using scan_number_start [OF scan_number_int [of "[]" i, simplified]] JInt
      start_not_special [of "int_text i"] by (simp add: value_start_def)
next
  case (JFloat t)
  then obtain neg ip fe where "scan_number t = Some (neg, ip, fe, [])" using assms
    by (auto simp: float_token_def split: option.splits)
  from scan_number_start [OF this] show ?thesis using JFloat start_not_special [of t]
    by (simp add: value_start_def)
qed (simp_all add: value_start_def json_ws_def dumps_str_def)

definition reads_back :: "json \<Rightarrow> bool" where
  "reads_back v \<longleftrightarrow> (\<forall>n r. 2 * length (dumps v) < n \<longrightarrow> value_end r \<longrightarrow>
     read_value strict_hooks n (dumps v @ r) = Inr (v, r))"

lemma reads_backD:
  "reads_back v \<Longrightarrow> 2 * length (dumps v) < n \<Longrightarrow> value_end r \<Longrightarrow> read_value strict_hooks n (dumps v @ r) = Inr (v, r)"
  by (simp add: reads_back_def)

lemma join_with_Cons: "join_with sep (x # y # ys) = x @ sep @ join_with sep (y # ys)"
  by (simp add: join_with_def)

lemma read_items_back:
  assumes "list_all reads_back (v # vs)" "list_all strict_value (v # vs)"
    "2 * length (join_with '','' (map dumps (v # vs))) + 1 < n"
  shows "read_items strict_hooks n acc (join_with '','' (map dumps (v # vs)) @ '']'' @ r) = Inr (JArr (acc @ v # vs), r)"
  using assms
proof (induction vs arbitrary: v acc n)
  case Nil
  then obtain m where n: "n = Suc m" "2 * length (dumps v) < m" by (cases n) (auto simp: join_with_def)
  have "read_value strict_hooks m (dumps v @ '']'' @ r) = Inr (v, '']'' @ r)" using Nil n by (intro reads_backD) simp_all
  then show ?case by (simp add: n join_with_def skip_ws_def json_ws_def)
next
  case (Cons w ws)
  let ?rest = "join_with '','' (map dumps (w # ws))"
  have shape: "join_with '','' (map dumps (v # w # ws)) = dumps v @ '','' @ ?rest" by (simp add: join_with_def)
  obtain m where n: "n = Suc m" "2 * length (dumps v) < m" "2 * length ?rest + 1 < m"
    using Cons.prems(3) unfolding shape by (cases n) auto
  have v: "read_value strict_hooks m (dumps v @ '','' @ ?rest @ '']'' @ r) = Inr (v, '','' @ ?rest @ '']'' @ r)"
    using Cons.prems n by (intro reads_backD) simp_all
  have "skip_ws (?rest @ '']'' @ r) = ?rest @ '']'' @ r"
    using value_start_skip [OF dumps_start [of w]] Cons.prems(2) by (simp add: join_with_def)
  with Cons.IH [of w m "acc @ [v]"] Cons.prems n v show ?case
    unfolding shape by (simp add: skip_ws_def json_ws_def)
qed

definition member_text :: "string \<times> json \<Rightarrow> string" where
  "member_text kv = dumps_str (fst kv) @ '':'' @ dumps (snd kv)"

lemma dumps_object: "dumps (JObj kvs) = ''{'' @ join_with '','' (map member_text kvs) @ ''}''"
proof -
  have "member_text = (\<lambda>(k, v). dumps_str k @ '':'' @ dumps v)" by (simp add: fun_eq_iff member_text_def)
  then show ?thesis by simp
qed

lemma read_member_start:
  assumes "utf8_valid k" "strict_value w"
  shows "prefix [QUOTE] (member_text (k, w) @ r)"
    "scan_string (drop 1 (member_text (k, w) @ r)) = Some (k, '':'' @ dumps w @ r)"
    "skip_ws (drop 1 (skip_ws ('':'' @ dumps w @ r))) = dumps w @ r"
    "skip_ws (member_text (k, w) @ r) = member_text (k, w) @ r"
  using dumps_str_scan [OF assms(1)] value_start_skip [OF dumps_start [OF assms(2)]]
  by (simp_all add: member_text_def dumps_str_def skip_ws_def json_ws_def)

lemma close_strict: "distinct (map fst kvs) \<Longrightarrow> close_object strict_hooks kvs r = Inr (JObj kvs, r)"
  by (simp add: close_object_def strict_hooks_def)

definition member_ok :: "string \<times> json \<Rightarrow> bool" where
  "member_ok kv \<longleftrightarrow> utf8_valid (fst kv) \<and> strict_value (snd kv) \<and> reads_back (snd kv)"

lemma read_members_step:
  assumes "member_ok (k, w)" "2 * length (dumps w) < m" "value_end s"
    "skip_ws s = c # cs"
  shows "read_members strict_hooks (Suc m) acc (member_text (k, w) @ s)
     = (if c = CHR ''}'' then close_object strict_hooks (acc @ [(k, w)]) cs
        else if c = CHR '','' then read_members strict_hooks m (acc @ [(k, w)]) (skip_ws cs)
        else Inl Json_Syntax)"
proof -
  have ok: "utf8_valid k" "strict_value w" "reads_back w" using assms(1) by (simp_all add: member_ok_def)
  note st = read_member_start [OF ok(1,2), of s]
  have v: "read_value strict_hooks m (dumps w @ s) = Inr (w, s)" using ok assms by (intro reads_backD)
  have colon: "prefix '':'' (skip_ws ('':'' @ dumps w @ s))" by (simp add: skip_ws_def json_ws_def)
  show ?thesis
    unfolding read_members.simps st(2) option.case prod.case if_not_P [OF notI]
      if_not_P [OF not_not [THEN iffD2, OF st(1)]] if_not_P [OF not_not [THEN iffD2, OF colon]] st(3) v rbind.simps assms(4) list.case
    by (rule refl)
qed

lemma read_members_back:
  assumes "list_all member_ok (kv # kvs)" "distinct (map fst (acc @ kv # kvs))"
    "2 * length (join_with '','' (map member_text (kv # kvs))) + 1 < n"
  shows "read_members strict_hooks n acc (join_with '','' (map member_text (kv # kvs)) @ ''}'' @ r)
           = Inr (JObj (acc @ kv # kvs), r)"
  using assms
proof (induction kvs arbitrary: kv acc n)
  case Nil
  obtain k w where kv: "kv = (k, w)" by (cases kv)
  obtain m where n: "n = Suc m" "2 * length (dumps w) < m"
    using Nil.prems(3) by (cases n) (auto simp: join_with_def kv member_text_def)
  have "skip_ws (''}'' @ r) = CHR ''}'' # r" by (simp add: skip_ws_def json_ws_def)
  from read_members_step [OF _ n(2) _ this, of k acc] Nil.prems show ?case
    by (simp add: n(1) join_with_def kv close_strict)
next
  case (Cons lw kvs)
  obtain k w where kv: "kv = (k, w)" by (cases kv)
  let ?rest = "join_with '','' (map member_text (lw # kvs)) @ ''}'' @ r"
  have shape: "join_with '','' (map member_text (kv # lw # kvs)) @ ''}'' @ r = member_text (k, w) @ CHR '','' # ?rest"
    by (simp add: join_with_def kv)
  have len: "length (join_with '','' (map member_text (kv # lw # kvs)))
      = length (member_text (k, w)) + Suc (length (join_with '','' (map member_text (lw # kvs))))"
    using arg_cong [OF shape, of length] by simp
  have "length (dumps w) \<le> length (member_text (k, w))" by (simp add: member_text_def)
  with Cons.prems(3) len obtain m where n: "n = Suc m" "2 * length (dumps w) < m"
    "2 * length (join_with '','' (map member_text (lw # kvs))) + 1 < m"
    using that [of "n - 1"] by linarith
  have comma: "skip_ws (CHR '','' # ?rest) = CHR '','' # ?rest" by (simp add: skip_ws_def json_ws_def)
  have "skip_ws ?rest = ?rest"
    using read_member_start(4) [of "fst lw" "snd lw"] Cons.prems(1) by (simp add: join_with_def member_ok_def)
  with read_members_step [OF _ n(2) _ comma, of k acc] Cons.IH [of lw "acc @ [kv]" m] Cons.prems n(3) show ?case
    unfolding shape n(1) by (simp add: kv)
qed

text \<open>Every value a strict reader can get is read back from its text.\<close>

lemma strict_value_reads_back: "strict_value v \<Longrightarrow> reads_back v"
proof (induction v)
  case (JStr s)
  have "read_value strict_hooks n (dumps_str s @ r) = Inr (JStr s, r)" if "0 < n" for n r
    using dumps_str_scan [of s r] JStr that by (cases n) (simp_all add: dumps_str_def)
  then show ?case by (simp add: reads_back_def)
next
  case (JInt i)
  then show ?case using read_number_int [of _ i _ strict_hooks] by (simp add: reads_back_def)
next
  case (JFloat t)
  then show ?case using read_number_float [of _ t] by (simp add: reads_back_def)
next
  case (JArr vs)
  show ?case
  proof (unfold reads_back_def, intro allI impI)
    fix n r assume n: "2 * length (dumps (JArr vs)) < n"
    then obtain m where m: "n = Suc m" by (cases n) auto
    show "read_value strict_hooks n (dumps (JArr vs) @ r) = Inr (JArr vs, r)"
    proof (cases vs)
      case Nil
      then show ?thesis by (simp add: m join_with_def skip_ws_def json_ws_def)
    next
      case (Cons w ws)
      let ?items = "join_with '','' (map dumps (w # ws)) @ '']'' @ r"
      have ok: "list_all reads_back (w # ws)" "list_all strict_value (w # ws)"
        using JArr Cons by (auto simp: list_all_iff)
      have start: "value_start ?items"
        using dumps_start [of w] ok(2) by (simp add: join_with_def value_start_def)
      then have "skip_ws ?items = ?items" "\<not> prefix '']'' ?items"
        by (cases ?items, auto simp: value_start_def skip_ws_def)+
      moreover have "2 * length (join_with '','' (map dumps (w # ws))) + 1 < m" using n m Cons by simp
      ultimately show ?thesis using read_items_back [OF ok, of m "[]" r] by (simp add: m Cons)
    qed
  qed
next
  case (JObj kvs)
  show ?case
  proof (unfold reads_back_def, intro allI impI)
    fix n r assume n: "2 * length (dumps (JObj kvs)) < n"
    then obtain m where m: "n = Suc m" by (cases n) auto
    show "read_value strict_hooks n (dumps (JObj kvs) @ r) = Inr (JObj kvs, r)"
    proof (cases kvs)
      case Nil
      then show ?thesis by (simp add: m join_with_def skip_ws_def json_ws_def close_strict)
    next
      case (Cons kv kws)
      let ?items = "join_with '','' (map member_text (kv # kws)) @ ''}'' @ r"
      have ok: "list_all member_ok (kv # kws)" "distinct (map fst (kv # kws))"
      proof -
        have "member_ok x" if "x \<in> set kvs" for x
        proof -
          have "utf8_valid (fst x)" "strict_value (snd x)" using JObj.prems that by (auto simp: list_all_iff)
          with JObj.IH [OF that, of "snd x"] show ?thesis by (cases x) (simp add: member_ok_def snds.simps)
        qed
        then show "list_all member_ok (kv # kws)" by (simp add: list_all_iff Cons)
        show "distinct (map fst (kv # kws))" using JObj.prems by (simp add: Cons)
      qed
      have "skip_ws ?items = ?items" "\<not> prefix ''}'' ?items"
        by (simp_all add: join_with_def member_text_def dumps_str_def skip_ws_def json_ws_def)
      moreover have "2 * length (join_with '','' (map member_text (kv # kws))) + 1 < m"
        using n m unfolding dumps_object Cons by simp
      ultimately show ?thesis using read_members_back [OF ok(1), of "[]" m r] ok(2)
        unfolding dumps_object by (simp add: m Cons)
    qed
  qed
next
  case JNull
  have "read_value strict_hooks n (dumps JNull @ r) = Inr (JNull, r)" if "0 < n" for n r
    using that by (cases n) (simp_all add: read_scalar_def)
  then show ?case unfolding reads_back_def by simp
next
  case (JBool b)
  have "read_value strict_hooks n (dumps (JBool b) @ r) = Inr (JBool b, r)" if "0 < n" for n r
    using that by (cases n; cases b) (simp_all add: read_scalar_def)
  then show ?case unfolding reads_back_def by simp
qed

section \<open>Bytes\<close>

definition printable :: "char \<Rightarrow> bool" where
  "printable c \<longleftrightarrow> 0x20 \<le> (of_char c :: nat) \<and> (of_char c :: nat) \<le> 0x7E"

abbreviation printable_text :: "string \<Rightarrow> bool" where
  "printable_text s \<equiv> list_all printable s"

lemma printable_marks [simp]:
  "printable (CHR '','')" "printable (CHR '':'')" "printable (CHR ''['')" "printable (CHR '']'')"
  "printable (CHR ''{'')" "printable (CHR ''}'')" "printable (CHR ''-'')" "printable QUOTE"
  by (simp_all add: printable_def)

lemma printable_char_of: "0x20 \<le> n \<Longrightarrow> n \<le> 0x7E \<Longrightarrow> printable (char_of (n::nat))"
  by (simp add: printable_def)

lemma printable_hex_digit: "n < 16 \<Longrightarrow> printable (hex_digit n)"
  by (auto simp: hex_digit_def intro!: printable_char_of)

lemma printable_hex4: "printable_text (hex4 n)"
  by (simp add: hex4_def printable_hex_digit)

lemma printable_escape_code: "printable_text (escape_code n)"
proof -
  have marks: "printable BACKSLASH" "printable (CHR ''n'')" "printable (CHR ''r'')" "printable (CHR ''t'')"
    "printable (CHR ''f'')" "printable (CHR ''b'')" "printable (CHR ''u'')"
    by (simp_all add: printable_def)
  have "\<not> (0x20 \<le> n \<and> n \<le> 0x7E) \<or> printable (char_of n)" using printable_char_of by blast
  then show ?thesis unfolding escape_code_def by (simp add: marks printable_hex4 del: of_char_of)
qed

lemma printable_escape_text: "printable_text (escape_text s)"
proof (induction s rule: escape_text.induct)
  case (1 s)
  then show ?case by (auto simp: escape_text.simps [of s] printable_escape_code split: option.splits)
qed

lemma printable_dumps_str: "printable_text (dumps_str s)"
  by (simp add: dumps_str_def printable_escape_text)

lemma printable_digits: "list_all ascii_digit s \<Longrightarrow> printable_text s"
  by (auto simp: list_all_iff ascii_digit_def printable_def Let_def)

lemma printable_take_digits: "printable_text (takeWhile ascii_digit s)"
  by (rule printable_digits) (auto simp: list_all_iff dest: set_takeWhileD)

lemma printable_float:
  assumes "float_token t"
  shows "printable_text t"
proof -
  obtain neg ip fe where t: "scan_number t = Some (neg, ip, fe, [])"
    using assms by (auto simp: float_token_def split: option.splits)
  have frac: "printable_text (fst (scan_fraction s))" for s
    using printable_take_digits [of "drop 1 s"]
    by (auto simp: scan_fraction_def digits_of_def Let_def printable_def)
  have expo: "printable_text (fst (scan_exponent s))" for s
    using printable_take_digits by (auto simp: scan_exponent_def digits_of_def Let_def printable_def)
  have "printable_text ip"
    using t printable_take_digits
    by (auto simp: scan_number_def digits_of_def Let_def printable_def split: prod.splits if_splits)
  moreover have "printable_text fe"
    using t frac expo by (auto simp: scan_number_def Let_def split: prod.splits if_splits) (metis fst_conv)+
  ultimately show ?thesis using scan_number_split [OF t] by (auto simp: printable_def)
qed

lemma printable_int: "printable_text (int_text i)"
  using nat_text_reads [of "nat \<bar>i\<bar>"] by (auto simp: int_text_def printable_digits)

lemma printable_join: "printable_text sep \<Longrightarrow> list_all printable_text xs \<Longrightarrow> printable_text (join_with sep xs)"
  by (auto simp: join_with_def list_all_iff split: list.splits)

lemma printable_dumps: "strict_value v \<Longrightarrow> printable_text (dumps v)"
proof (induction v)
  case (JArr vs)
  then have "list_all printable_text (map dumps vs)" by (auto simp: list_all_iff)
  from printable_join [OF _ this, of "'',''"] show ?case by simp
next
  case (JObj kvs)
  have "printable_text (member_text x)" if "x \<in> set kvs" for x
  proof -
    have "strict_value (snd x)" using JObj.prems that by (auto simp: list_all_iff)
    with JObj.IH [OF that, of "snd x"] show ?thesis
      by (cases x) (simp add: member_text_def printable_dumps_str snds.simps)
  qed
  then have "list_all printable_text (map member_text kvs)" by (simp add: list_all_iff)
  from printable_join [OF _ this, of "'',''"] show ?case unfolding dumps_object by simp
qed (simp_all add: printable_dumps_str printable_int printable_float, simp_all add: printable_def)

lemma detect_printable:
  assumes "printable_text s"
  shows "detect_encoding s = Utf8"
proof -
  have nul: "s ! i \<noteq> NUL" if "i < length s" for i
  proof
    assume "s ! i = NUL"
    with assms nth_mem [OF that] show False by (auto simp: list_all_iff printable_def)
  qed
  have "\<not> prefix (c # cs) s" if "\<not> printable c" for c cs
    using assms that by (cases s) auto
  then have marks: "prefix (c # cs) s = False" if "\<not> printable c" for c cs using that by simp
  have far: "\<not> printable NUL" "\<not> printable (CHR 0xFF)" "\<not> printable (CHR 0xFE)" "\<not> printable (CHR 0xEF)"
    by (simp_all add: printable_def)
  have "s ! 0 \<noteq> NUL \<and> s ! 1 \<noteq> NUL" if "4 \<le> length s \<or> length s = 2"
    using that by (intro conjI nul) linarith+
  then show ?thesis unfolding detect_encoding_def marks [OF far(1)] marks [OF far(2)] marks [OF far(3)] marks [OF far(4)]
    by (simp del: One_nat_def)
qed

lemma decode_printable:
  assumes "printable_text s"
  shows "decode_json_bytes s = Some s"
proof -
  have "ascii_text s" using assms by (auto simp: ascii_text_def list_all_iff printable_def)
  then show ?thesis by (simp add: decode_json_bytes_def detect_printable [OF assms] utf8_codes_ascii)
qed

lemma loads_written: "strict_value v \<Longrightarrow> loads_with strict_hooks (dumps v) = Inr v"
  using reads_backD [OF strict_value_reads_back, of v "2 * length (dumps v) + 1" "[]"]
    value_start_skip [OF dumps_start, of v "[]"]
  by (simp add: loads_with_def skip_ws_def)

lemma decode_written:
  "strict_value v \<Longrightarrow> loads_with strict_hooks (dumps v) = Inr v \<Longrightarrow> decode_protocol_json (dumps v) = Inr v"
  using decode_printable [OF printable_dumps, of v]
  by (simp add: decode_protocol_json_def strict_json_loads_def strict_loads_text_def)

text \<open>C27: What \<open>json.dumps\<close> writes for a value is accepted by \<open>decode_protocol_json\<close> and decoded to the very
  value that was written, members in order, for every value that strict JSON can express: the keys of
  each object are different, the texts are texts of code points, every float is finite and written as
  a JSON number with a fraction or an exponent, and every integer keeps the interpreter's limit of
  4300 digits.  (The \<open>NaN\<close> and \<open>Infinity\<close> that \<open>json.dumps\<close> also writes are refused by the strict reader.)
\<close>

theorem written_body_read_back: "strict_value v \<Longrightarrow> decode_protocol_json (dumps v) = Inr v"
  by (rule decode_written [OF _ loads_written])

definition sample_body :: json where
  "sample_body = JObj [(''model'', JStr ''m''), (''n'', JInt (- 12)),
     (''messages'', JArr [JObj [(''role'', JStr ''user''), (''content'', JNull)], JBool True])]"

lemma utf8_valid_ascii: "ascii_text s \<Longrightarrow> utf8_valid s"
  by (auto simp: utf8_valid_def utf8_codes_ascii ascii_text_def list_all_iff scalar_value_def)

lemma sample_strict: "strict_value sample_body"
  by (simp add: sample_body_def utf8_valid_ascii ascii_text_def nat_text.simps [of 12] nat_text.simps [of "Suc 0"])

lemma written_body_sample: "decode_protocol_json (dumps sample_body) = Inr sample_body"
  by (rule decode_written [OF sample_strict loads_written [OF sample_strict]])

theorem written_body_read_back_witness: "decode_protocol_json (dumps sample_body) = Inr sample_body"
  by (rule written_body_read_back [OF sample_strict])

section \<open>What is read is unambiguous\<close>

fun unambiguous :: "json \<Rightarrow> bool" where
  "unambiguous (JFloat t) = finite_number t"
| "unambiguous (JArr vs) = list_all unambiguous vs"
| "unambiguous (JObj kvs) = (distinct (map fst kvs) \<and> list_all (\<lambda>(k, v). unambiguous v) kvs)"
| "unambiguous _ = True"

lemma read_scalar_unambiguous: "read_scalar strict_hooks s = Inr (v, r) \<Longrightarrow> unambiguous v"
  by (auto simp: read_scalar_def read_constant_def read_number_def strict_hooks_def split: if_splits option.splits sum.splits)

lemma close_object_unambiguous:
  "close_object strict_hooks kvs r = Inr (v, r') \<Longrightarrow> list_all (\<lambda>(k, v). unambiguous v) kvs \<Longrightarrow> unambiguous v"
  by (auto simp: close_object_def strict_hooks_def split: if_splits)

lemma read_unambiguous:
  "h = strict_hooks \<Longrightarrow> read_value h n s = Inr (v, r) \<Longrightarrow> unambiguous v"
  "h = strict_hooks \<Longrightarrow> list_all unambiguous acc \<Longrightarrow> read_items h n acc s = Inr (v, r) \<Longrightarrow> unambiguous v"
  "h = strict_hooks \<Longrightarrow> list_all (\<lambda>(k, v). unambiguous v) kvs \<Longrightarrow> read_members h n kvs s = Inr (v, r) \<Longrightarrow> unambiguous v"
proof (induction h n s and h n acc s and h n kvs s arbitrary: v r and v r and v r
    rule: read_value_read_items_read_members.induct)
  case (2 h n s)
  obtain c cs where s: "s = c # cs" using "2.prems" by (cases s) auto
  consider (str) "c = QUOTE" | (obj) "c = CHR ''{''" | (arr) "c = CHR ''[''"
    | (scalar) "c \<noteq> QUOTE" "c \<noteq> CHR ''{''" "c \<noteq> CHR ''[''" by blast
  then show ?case
  proof cases
    case str
    with "2.prems" s show ?thesis by (auto split: option.splits)
  next
    case obj
    with "2.prems" "2.IH"(1) [OF s] s close_object_unambiguous [of "[]" _ v r] show ?thesis by (auto split: if_splits)
  next
    case arr
    with "2.prems" "2.IH"(2) [OF s] s show ?thesis by (auto split: if_splits)
  next
    case scalar
    with "2.prems" s read_scalar_unambiguous show ?thesis by auto
  qed
next
  case (4 h n acc s)
  obtain w r1 where w: "read_value h n s = Inr (w, r1)" using "4.prems" by (auto simp: res_simps)
  have "unambiguous w" using "4.IH"(1) "4.prems" w by blast
  obtain c cs where c: "skip_ws r1 = c # cs" using "4.prems" w by (cases "skip_ws r1") auto
  show ?case
    using "4.prems" \<open>unambiguous w\<close> w c "4.IH"(2) [OF w refl c] by (auto split: if_splits)
next
  case (6 h n kvs s)
  obtain k r0 where k: "prefix [QUOTE] s" "scan_string (drop 1 s) = Some (k, r0)" "prefix '':'' (skip_ws r0)"
    using "6.prems" by (auto split: if_splits option.splits)
  obtain w r1 where w: "read_value h n (skip_ws (drop 1 (skip_ws r0))) = Inr (w, r1)"
    using "6.prems" k by (auto simp: res_simps)
  have "unambiguous w" using "6.IH"(1) [OF _ k(2) refl] k "6.prems" w by auto
  obtain c cs where c: "skip_ws r1 = c # cs" using "6.prems" w k by (cases "skip_ws r1") auto
  show ?case
    using "6.prems" \<open>unambiguous w\<close> w c k "6.IH"(2) [OF _ k(2) refl _ w refl c]
      close_object_unambiguous [of "kvs @ [(k, w)]" cs v r] by (auto split: if_splits)
qed auto

text \<open>
  The reference: the reader that keeps every member of an object, repeated or not, and every number.
\<close>

definition every_pair :: "unit json_hooks" where
  "every_pair = \<lparr>h_object = (\<lambda>kvs. Inr (JObj kvs)), h_float = (\<lambda>t. Inr (JFloat t)), h_constant = (\<lambda>t. Inr (JFloat t))\<rparr>"

definition read_pairs :: "bytes \<Rightarrow> json option" where
  "read_pairs b =
     (case decode_json_bytes b of
        None \<Rightarrow> None
      | Some s \<Rightarrow> (case loads_with every_pair s of Inl _ \<Rightarrow> None | Inr v \<Rightarrow> Some v))"

lemma not_finite: "\<not> finite_number ''NaN''" "\<not> finite_number ''Infinity''" "\<not> finite_number ''-Infinity''"
  by code_simp+

definition strictly :: "json \<times> string \<Rightarrow> unit json_error + json \<times> string" where
  "strictly x = (if unambiguous (fst x) then Inr x else Inl (Json_Hook ()))"

lemma read_scalar_both: "read_scalar every_pair s = Inr x \<Longrightarrow> read_scalar strict_hooks s = strictly x"
  by (auto simp: read_scalar_def read_constant_def read_number_def strict_hooks_def every_pair_def strictly_def not_finite
      split: if_splits option.splits)

lemma close_object_both:
  "list_all (\<lambda>(k, v). unambiguous v) kvs \<Longrightarrow> close_object every_pair kvs r = Inr x \<Longrightarrow>
   close_object strict_hooks kvs r = strictly x"
  by (auto simp: close_object_def strict_hooks_def every_pair_def strictly_def)

lemma items_kept:
  "read_items every_pair n acc s = Inr (v, r) \<Longrightarrow> \<exists>ws. v = JArr (acc @ ws)"
proof (induction n arbitrary: acc s)
  case (Suc n)
  then obtain w r1 where w: "read_value every_pair n s = Inr (w, r1)" by (auto simp: res_simps)
  with Suc.prems obtain c cs where "skip_ws r1 = c # cs" by (cases "skip_ws r1") auto
  with Suc w show ?case by (fastforce split: if_splits)
qed simp

lemma members_kept:
  "read_members every_pair n acc s = Inr (v, r) \<Longrightarrow> \<exists>ws. v = JObj (acc @ ws)"
proof (induction n arbitrary: acc s)
  case (Suc n)
  then obtain k r0 where k: "prefix [QUOTE] s" "scan_string (drop 1 s) = Some (k, r0)" "prefix '':'' (skip_ws r0)"
    by (auto split: if_splits option.splits)
  with Suc.prems obtain w r1 where w: "read_value every_pair n (skip_ws (drop 1 (skip_ws r0))) = Inr (w, r1)"
    by (auto simp: res_simps)
  with Suc.prems k obtain c cs where "skip_ws r1 = c # cs" by (cases "skip_ws r1") auto
  with Suc k w show ?case by (fastforce simp: close_object_def every_pair_def split: if_splits)
qed simp

text \<open>What the strict reader makes of a text the reference reads.\<close>

lemma read_both:
  "h = every_pair \<Longrightarrow> read_value h n s = Inr x \<Longrightarrow> read_value strict_hooks n s = strictly x"
  "h = every_pair \<Longrightarrow> list_all unambiguous acc \<Longrightarrow> read_items h n acc s = Inr x \<Longrightarrow>
     read_items strict_hooks n acc s = strictly x"
  "h = every_pair \<Longrightarrow> list_all (\<lambda>(k, v). unambiguous v) kvs \<Longrightarrow> read_members h n kvs s = Inr x \<Longrightarrow>
     read_members strict_hooks n kvs s = strictly x"
proof (induction h n s and h n acc s and h n kvs s arbitrary: x and x and x
    rule: read_value_read_items_read_members.induct)
  case (2 h n s)
  obtain c cs where s: "s = c # cs" using "2.prems" by (cases s) auto
  consider (str) "c = QUOTE" | (obj) "c = CHR ''{''" | (arr) "c = CHR ''[''"
    | (scalar) "c \<noteq> QUOTE" "c \<noteq> CHR ''{''" "c \<noteq> CHR ''[''" by blast
  then show ?case
  proof cases
    case str
    with "2.prems" s show ?thesis by (auto simp: strictly_def split: option.splits)
  next
    case obj
    with "2.prems" "2.IH"(1) [OF s] s close_object_both [of "[]" _ x] show ?thesis by (auto split: if_splits)
  next
    case arr
    with "2.prems" "2.IH"(2) [OF s] s show ?thesis by (auto simp: strictly_def split: if_splits)
  next
    case scalar
    with "2.prems" s read_scalar_both show ?thesis by auto
  qed
next
  case (4 h n acc s)
  obtain w r1 where w: "read_value h n s = Inr (w, r1)" using "4.prems" by (auto simp: res_simps)
  obtain c cs where c: "skip_ws r1 = c # cs" using "4.prems" w by (cases "skip_ws r1") auto
  have strict: "read_value strict_hooks n s = strictly (w, r1)" using "4.IH"(1) "4.prems"(1) w by blast
  obtain v r where x: "x = (v, r)" by (cases x)
  show ?case
  proof (cases "unambiguous w")
    case True
    then show ?thesis
      using "4.prems" w c x strict "4.IH"(2) [OF w refl c] by (auto simp: strictly_def split: if_splits)
  next
    case False
    have "read_items every_pair (Suc n) acc s = Inr (v, r)" using "4.prems" x by simp
    then have "c = CHR '']'' \<and> v = JArr (acc @ [w])
        \<or> read_items every_pair n (acc @ [w]) (skip_ws cs) = Inr (v, r)"
      using w c "4.prems"(1) by (auto split: if_splits)
    then have "\<not> unambiguous v" using False by (auto dest!: items_kept)
    then show ?thesis using False strict by (simp add: strictly_def x)
  qed
next
  case (6 h n kvs s)
  obtain k r0 where k: "prefix [QUOTE] s" "scan_string (drop 1 s) = Some (k, r0)" "prefix '':'' (skip_ws r0)"
    using "6.prems" by (auto split: if_splits option.splits)
  obtain w r1 where w: "read_value h n (skip_ws (drop 1 (skip_ws r0))) = Inr (w, r1)"
    using "6.prems" k by (auto simp: res_simps)
  obtain c cs where c: "skip_ws r1 = c # cs" using "6.prems" w k by (cases "skip_ws r1") auto
  have strict: "read_value strict_hooks n (skip_ws (drop 1 (skip_ws r0))) = strictly (w, r1)"
    using "6.IH"(1) [OF _ k(2) refl] k "6.prems" w by auto
  obtain v r where x: "x = (v, r)" by (cases x)
  show ?case
  proof (cases "unambiguous w")
    case True
    then show ?thesis
      using "6.prems" w c k x strict "6.IH"(2) [OF _ k(2) refl _ w refl c]
        close_object_both [of "kvs @ [(k, w)]" cs x] by (auto simp: strictly_def split: if_splits)
  next
    case False
    have "c = CHR ''}'' \<and> v = JObj (kvs @ [(k, w)])
        \<or> read_members every_pair n (kvs @ [(k, w)]) (skip_ws cs) = Inr (v, r)"
      using w c k "6.prems" x by (auto simp: close_object_def every_pair_def split: if_splits)
    then have "\<not> unambiguous v" using False by (auto dest!: members_kept)
    then show ?thesis using False strict k by (simp add: strictly_def x)
  qed
qed auto

text \<open>What the strict reader accepts, the reference reads to the same value.\<close>

lemma read_scalar_kept: "read_scalar strict_hooks s = Inr x \<Longrightarrow> read_scalar every_pair s = Inr x"
  by (auto simp: read_scalar_def read_constant_def read_number_def strict_hooks_def every_pair_def
      split: if_splits option.splits)

lemma close_object_kept: "close_object strict_hooks kvs r = Inr x \<Longrightarrow> close_object every_pair kvs r = Inr x"
  by (auto simp: close_object_def strict_hooks_def every_pair_def split: if_splits)

lemma read_kept:
  "h = strict_hooks \<Longrightarrow> read_value h n s = Inr x \<Longrightarrow> read_value every_pair n s = Inr x"
  "h = strict_hooks \<Longrightarrow> read_items h n acc s = Inr x \<Longrightarrow> read_items every_pair n acc s = Inr x"
  "h = strict_hooks \<Longrightarrow> read_members h n kvs s = Inr x \<Longrightarrow> read_members every_pair n kvs s = Inr x"
proof (induction h n s and h n acc s and h n kvs s arbitrary: x and x and x
    rule: read_value_read_items_read_members.induct)
  case (2 h n s)
  obtain c cs where s: "s = c # cs" using "2.prems" by (cases s) auto
  with "2.prems" "2.IH"(1) [OF s] "2.IH"(2) [OF s] read_scalar_kept close_object_kept show ?case
    by (auto split: if_splits option.splits)
next
  case (4 h n acc s)
  obtain w r1 where w: "read_value h n s = Inr (w, r1)" using "4.prems" by (auto simp: res_simps)
  obtain c cs where c: "skip_ws r1 = c # cs" using "4.prems" w by (cases "skip_ws r1") auto
  show ?case using "4.prems" w c "4.IH"(1) "4.IH"(2) [OF w refl c] by (auto split: if_splits)
next
  case (6 h n kvs s)
  obtain k r0 where k: "prefix [QUOTE] s" "scan_string (drop 1 s) = Some (k, r0)" "prefix '':'' (skip_ws r0)"
    using "6.prems" by (auto split: if_splits option.splits)
  obtain w r1 where w: "read_value h n (skip_ws (drop 1 (skip_ws r0))) = Inr (w, r1)"
    using "6.prems" k by (auto simp: res_simps)
  obtain c cs where c: "skip_ws r1 = c # cs" using "6.prems" w k by (cases "skip_ws r1") auto
  show ?case
    using "6.prems" w c k "6.IH"(1) [OF _ k(2) refl] "6.IH"(2) [OF _ k(2) refl _ w refl c] close_object_kept
    by (auto split: if_splits)
qed auto

lemma loads_both:
  assumes "loads_with every_pair s = Inr v"
  shows "loads_with strict_hooks s = (if unambiguous v then Inr v else Inl (Json_Hook ()))"
proof -
  obtain r where "read_value every_pair (2 * length s + 1) (skip_ws s) = Inr (v, r)" "skip_ws r = []"
    using assms by (auto simp: loads_with_def res_simps split: if_splits)
  with read_both(1) [OF refl this(1)] show ?thesis by (simp add: loads_with_def strictly_def)
qed

lemma loads_kept:
  assumes "loads_with strict_hooks s = Inr v"
  shows "loads_with every_pair s = Inr v \<and> unambiguous v"
proof -
  obtain r where r: "read_value strict_hooks (2 * length s + 1) (skip_ws s) = Inr (v, r)" "skip_ws r = []"
    using assms by (auto simp: loads_with_def res_simps split: if_splits)
  with read_kept(1) [OF refl r(1)] read_unambiguous(1) [OF refl r(1)] show ?thesis by (simp add: loads_with_def)
qed

lemma decoded_text:
  "decode_protocol_json b = Inr v \<longleftrightarrow> (\<exists>s. decode_json_bytes b = Some s \<and> loads_with strict_hooks s = Inr v)"
  by (auto simp: decode_protocol_json_def strict_json_loads_def strict_loads_text_def
      split: sum.splits strict_error.splits option.splits json_error.splits)

text \<open>C26: The body is decoded exactly if it is unambiguous.  The reference \<open>read_pairs\<close> reads the same bytes, in
  whatever encoding, but keeps every member of every object, repeated or not, and every number.
  \<open>decode_protocol_json\<close> returns a value exactly when that is what the reference reads and no object in
  it, at any depth, repeats a key and no number is infinite or not a number; so no member is dropped
  or overwritten.  A body the reference reads and that is ambiguous is refused as an invalid
  envelope, not as bad JSON.
\<close>

theorem decoded_unambiguous:
  "(decode_protocol_json b = Inr v \<longleftrightarrow> read_pairs b = Some v \<and> unambiguous v)
   \<and> (read_pairs b = Some w \<longrightarrow> \<not> unambiguous w \<longrightarrow>
        decode_protocol_json b = Inl (Wire (Unsupported ''invalid_json_envelope'')))"
proof (intro conjI impI)
  show "decode_protocol_json b = Inr v \<longleftrightarrow> read_pairs b = Some v \<and> unambiguous v"
    by (auto simp: decoded_text read_pairs_def loads_both dest!: loads_kept split: option.splits sum.splits)
next
  assume "read_pairs b = Some w" "\<not> unambiguous w"
  then show "decode_protocol_json b = Inl (Wire (Unsupported ''invalid_json_envelope''))"
    by (auto simp: read_pairs_def decode_protocol_json_def strict_json_loads_def strict_loads_text_def loads_both
        split: option.splits sum.splits)
qed

text \<open>A body with the same key twice.\<close>

definition doubled_body :: bytes where
  "doubled_body = ''{'' @ [QUOTE] @ ''a'' @ [QUOTE] @ '':1,'' @ [QUOTE] @ ''a'' @ [QUOTE] @ '':2}''"

definition doubled_value :: json where
  "doubled_value = JObj [(''a'', JInt 1), (''a'', JInt 2)]"

lemma doubled_read: "read_pairs doubled_body = Some doubled_value"
  by code_simp

theorem decoded_unambiguous_witness:
  "read_pairs doubled_body = Some doubled_value \<and> \<not> unambiguous doubled_value
   \<and> decode_protocol_json doubled_body = Inl (Wire (Unsupported ''invalid_json_envelope''))
   \<and> unambiguous sample_body \<and> read_pairs (dumps sample_body) = Some sample_body"
proof -
  have "\<not> unambiguous doubled_value" by (simp add: doubled_value_def)
  then show ?thesis
    using decoded_unambiguous [of doubled_body undefined doubled_value] doubled_read
      decoded_unambiguous [of "dumps sample_body" sample_body undefined] written_body_sample by simp
qed

end
