(* ===== verification/Spec2Isabelle.thy ===== *)
theory Spec2Isabelle
  imports Stream_Commit_Properties Request_Admission_Properties Model_Properties Model_Limits_Properties
    Event_Writer_Properties Jsonl_Sink_Properties Apply_Patch_Stream Translation_Roundtrip
    Tool_Registry_Properties Responses_Batch_Properties Upstream_Reader_Properties
    Exchange_Properties Json_Readback
begin

text \<open>
  CodexHub Gateway: a verification development for the Python sources under \<open>src/src-python\<close>.

  The gateway stands between coding clients and model providers.  A request is admitted
  (\<open>gateway_admission.py\<close>), its model is looked up in the maintained catalog
  (\<open>maintained_catalog.py\<close>, \<open>model_limits.py\<close>), its tool history is rewritten for providers that lack
  the client's custom tools (\<open>apply_patch_adapter.py\<close>), its tools get aliases a provider accepts
  (\<open>tool_compatibility/registry.py\<close>), and it is sent on, repeatedly when that is safe
  (\<open>gateway_exchange.py\<close>, \<open>gateway_transport.py\<close>, \<open>route_plan.py\<close>).  The answer comes back as server-sent events: a thread reads
  their lines from the upstream response (\<open>gateway_transport.py\<close>), they are cut out of the bytes (\<open>sse_events.py\<close>), observed
  (\<open>gateway_sse.py\<close>), translated between the wire protocols (\<open>protocol_translation.py\<close>), adapted again
  and written to the client through one commit seam (\<open>gateway_sse.py\<close>, with writers of
  \<open>gateway_relay.py\<close> and \<open>gateway_exchange_bindings.py\<close>).  What happened is logged by a bounded background writer
  (\<open>bounded_event_writer.py\<close>).

  \<^bold>\<open>Theories and sources\<close>

    \<^item> \<open>Prelude\<close>, \<open>Action\<close>: byte strings, insertion-ordered dictionaries, results with errors, and
      actions on an object's state with their elimination rules.
    \<^item> \<open>Py_Json\<close>, \<open>Py_Number\<close>: what the sources use of the standard library: \<open>json.dumps\<close>,
      \<open>json.loads\<close> with hooks, \<open>str.strip\<close>, UTF-8, doubles and truth of values.
    \<^item> \<open>Chunked_Feed\<close>: the locale of incremental decoders, interpreted by the event assembler and by
      the semantic observer.
    \<^item> \<open>Sse_Events\<close>, \<open>Sse_Properties\<close>, \<open>Sse_Refinement\<close>: \<open>sse_events.py\<close>, whole; the drain loop is
      equal to a machine that reads a line at a time, so chunk boundaries do not matter.
    \<^item> \<open>Sse_Stats\<close>, \<open>Sse_Stats_Properties\<close>: \<open>gateway_sse.py\<close>.
    \<^item> \<open>Stream_Commit\<close>, \<open>Stream_Commit_Properties\<close>: \<open>DownstreamStreamCommit\<close> of \<open>gateway_sse.py\<close>,
      with the deferred header callback of \<open>gateway_relay.py\<close> and the synthetic failure writer of
      \<open>gateway_exchange_bindings.py\<close>.
    \<^item> \<open>Request_Admission\<close>, \<open>Request_Admission_Properties\<close>: \<open>gateway_admission.py\<close>, threads included.
    \<^item> \<open>Model_Catalog\<close>, \<open>Model_Limits\<close> and their properties: \<open>maintained_catalog.py\<close>, \<open>model_limits.py\<close>.
    \<^item> \<open>Event_Size\<close>, \<open>Event_Writer\<close>, \<open>Jsonl_Sink\<close>, with \<open>Event_Writer_Invariant\<close> and the properties:
      \<open>bounded_event_writer.py\<close>: measuring and serializing a record, the queue with its listener
      thread, and the file.
    \<^item> \<open>Apply_Patch\<close>, \<open>Apply_Patch_Properties\<close>, \<open>Apply_Patch_Stream\<close>: \<open>apply_patch_adapter.py\<close>.
    \<^item> \<open>Protocol_Base\<close>, \<open>Chat_Stream\<close>: \<open>ChatToResponsesStreamConverter\<close> of \<open>protocol_translation.py\<close>;
      \<open>Responses_Protocol\<close> is the contract of a Responses stream as an automaton,
      \<open>Chat_Stream_Properties\<close> the simulation, \<open>Chat_Stream_Content\<close> what becomes of the content.
    \<^item> \<open>Responses_Stream\<close>: \<open>ResponsesToChatStreamConverter\<close>; \<open>Responses_Stream_Properties\<close> simulates it by a
      Chat Completions client.  \<open>Responses_Batch\<close>: \<open>response_events_to_chat_stream_chunks\<close>, which
      translates recorded events, with the naming of calls the gateway passes; outside the namespaces that
      naming changes it agrees with the converter.  \<open>Roundtrip_Calls\<close> and \<open>Translation_Roundtrip\<close> compose the
      two converters.
    \<^item> \<open>Strict_Json\<close>, \<open>Json_Readback\<close>: \<open>protocol_json.py\<close> and \<open>decode_protocol_json\<close>, the strict reading of
      bodies that are translated, in any encoding \<open>json.loads\<close> detects.
    \<^item> \<open>Sha256\<close>, \<open>Tool_Registry\<close>, \<open>Tool_Registry_Properties\<close>: \<open>tool_compatibility/registry.py\<close>, with the hash of the
      standard library its aliases are made of.
    \<^item> \<open>Upstream_Reader\<close>, \<open>Upstream_Reader_Properties\<close>: \<open>UpstreamSseReaderLifecycle\<close> of
      \<open>gateway_transport.py\<close>, reader thread and consumer interleaved.
    \<^item> \<open>Transport_Phase\<close>, \<open>Upstream_Failure\<close>: how an upstream failure is classified
      (\<open>gateway_transport.py\<close>, \<open>gateway_http_pool.py\<close>, \<open>route_primitives.py\<close>); \<open>Retry_Plan\<close>:
      \<open>RetryExecutionPlan\<close> of \<open>route_plan.py\<close>; \<open>Upstream_Retry\<close>, \<open>Upstream_Retry_Properties\<close>: the retry loop
      \<open>_open_upstream_response\<close>.
    \<^item> \<open>Exchange\<close>, \<open>Exchange_Properties\<close>: \<open>execute_exchange\<close> of \<open>gateway_exchange.py\<close>: the attempts of a route plan,
      each opened by the retry loop and relayed; the locale \<open>exchange_invariant\<close> says what a statement about
      its state must survive, and is interpreted for the shared count and for the order of events.

  \<^bold>\<open>How the code is modelled\<close>

  A class is a \<open>record\<close>, a method an action on it: it returns a value or raises, and leaves the
  object as it then is, so what a caught exception has already changed stays changed.  An
  exception is a value of an error datatype; the texts of errors are left out where nothing depends
  on them.  A JSON object is an association list in insertion order; \<open>dict_set\<close> keeps the place of
  an existing key as Python does.  \<open>bytes\<close> are lists of characters, a \<open>str\<close> is its UTF-8 encoding (a
  list of code points where the code measures them); case mapping is that of ASCII.  Clock readings are
  rationals or integers given as arguments, as are identifiers drawn from \<open>uuid\<close> (field
  \<open>rc_ids\<close> of the Responses converter) and \<open>str\<close> of values that are not strings (\<open>rc_str\<close>).  Code under a lock is
  one atomic operation; threads are step relations or programs of atomic acts, and properties of
  interleavings are proved by induction over the steps.  What an operation does to the outside
  (writes, closed transports, telemetry) is a list in the state or the result, and what the outside
  answers (sink and socket failures, how many bytes a write took, the outcome of an upstream attempt with
  the clock readings around it) is an argument.  In the reader of an upstream stream time itself is left
  out: a wait with a time-out may end whenever what it waits for is not there.  Fields with
  names beginning \<open>gh_\<close>, and the last ones of the reader's record, keep history for the statements
  and are read by no operation.

  \<^bold>\<open>Bounds and fuel\<close>

  \<open>loads_with\<close> starts with \<open>2 * length s + 1\<close> units, never used up (\<open>loads_fuel_enough\<close>).  All other
  loops are structural or have termination proofs; the retry loop ends because every repetition needs an
  attempt number below \<open>attempt_limit\<close>.  The listener of the event writer may run for
  ever: it is a step function, and \<open>flush_completes\<close> gives the number of steps (\<open>listener_work\<close>) after which
  everything accepted before is finished.  Retry values have at most 63 bits, as in the code.

  \<^bold>\<open>What the lemmas show\<close>

  The properties are numbered C1, C2, ... in their text blocks.  Of the assembler and observer:
  independence of chunk boundaries, no byte lost, bounded state.  Of the commit seam: one committed
  terminal, one failure event, silence once closed, and that a pending terminal frame is completed
  and a failure still written behind it.  Of admission: cancellation reaches every
  attached transport and helper, shutdown completes and leaves the gateway drained once the requests end.  Of the catalog and limits: rows resolve,
  defaults are offered levels, budgets are consistent.  Of the event writer: custody and accounting of
  every record under every interleaving, order and bounds; of the file: a log of whole
  records whatever reached the disk.  Of the adapter: in all the client is sent, each adapted call has one
  life that shows the input of the call's own arguments, and rewritten history keeps calls and outputs
  paired.  Of the converters: the client sees one well-formed stream whose items agree with their
  deltas; the calls come out with their own ids, names and arguments and nothing is lost or added, also when
  a stream is translated there and back.  Of strict JSON: a body is accepted exactly if the reader that keeps every
  member reads it and it is unambiguous, and what \<open>json.dumps\<close> writes for such values is read back.  Of the alias registry: a name that led to a tool leads to it for
  the rest of the request.  Of the upstream reader: order, a bounded distance, and that closing ends both
  sides.  Of the retry loop: a request that may have been written is not sent again, the shared
  count and the deadline are kept, and the result is that of the last attempt; of a whole exchange: the same
  over relays and protocols, and that a started stream is neither restarted nor put under the deadline.

  \<^bold>\<open>Not modelled\<close>

  Sockets, TLS, HTTP and WebSocket clients and their pools, the handler's dispatch and relay loops (I/O
  around the modelled seam); files and databases of the catalog synchronisation, history overlay and
  provider configuration; OAuth and key rings; the browser session of the ChatGPT web runtime; scripts and
  the vendored packages.  Of \<open>protocol_translation.py\<close> the conversions of whole bodies and the Anthropic
  shapes, of \<open>protocol_json.py\<close> the reading of exact decimals, of \<open>route_plan.py\<close> everything
  but the retry plan, the tool surfaces of single providers and the collaboration policies: tables of provider-specific cases, for which there is no statement shorter
  than the code.  Of the modelled functions, durations and log texts of the telemetry are left out.
\<close>

end
